(* ===== verification/Prelude.thy ===== *)
theory Prelude
  imports Main
begin

section \<open>Prelude: results, text and tables\<close>

text \<open>
  What every component of the model shares.  A Python function that may raise is a function
  into \<open>'e + 'a\<close> (\<open>Inl\<close> the exception), chained with \<open>bindE\<close>.  Python's \<open>str\<close> is a list of
  code points (\<open>ustr\<close>); identifiers of the code (field ids, error kinds, catalog names) are ASCII
  and stay HOL strings.  A database table is the list of its rows in insertion order: a
  \<open>SELECT\<close> is a filter, an \<open>UPDATE .. WHERE\<close> is \<open>update_where\<close>, an \<open>INSERT\<close> appends.
  Times are integers (seconds).
\<close>

named_theorems table_simps \<open>lookups and projections after a table operation\<close>
named_theorems step_defs \<open>definitions of the handlers, unfolded by the invariant proofs\<close>

subsection \<open>Fallible computations\<close>

fun bindE :: "'e + 'a \<Rightarrow> ('a \<Rightarrow> 'e + 'b) \<Rightarrow> 'e + 'b" where
  "bindE (Inl e) f = Inl e"
| "bindE (Inr x) f = f x"

text \<open>\<open>if bad: raise e\<close> as a step of a chain: \<open>ensureE ok e\<close>.\<close>

definition ensureE :: "bool \<Rightarrow> 'e \<Rightarrow> 'e + unit" where
  "ensureE b e = (if b then Inr () else Inl e)"

text \<open>Unwrapping an optional value, raising \<open>e\<close> when there is none.\<close>

definition someE :: "'a option \<Rightarrow> 'e \<Rightarrow> 'e + 'a" where
  "someE x e = (case x of None \<Rightarrow> Inl e | Some v \<Rightarrow> Inr v)"

text \<open>\<open>except\<close>-and-re-raise: \<open>raise .. from error\<close>.\<close>

definition mapE :: "('e \<Rightarrow> 'f) \<Rightarrow> 'e + 'a \<Rightarrow> 'f + 'a" where
  "mapE g r = (case r of Inl e \<Rightarrow> Inl (g e) | Inr x \<Rightarrow> Inr x)"

definition is_ok :: "'e + 'a \<Rightarrow> bool" where
  "is_ok r = (case r of Inl _ \<Rightarrow> False | Inr _ \<Rightarrow> True)"

lemma bindE_Inr_iff: "bindE r f = Inr y \<longleftrightarrow> (\<exists>x. r = Inr x \<and> f x = Inr y)"
  by (cases r) auto

lemma bindE_Inl_iff: "bindE r f = Inl e \<longleftrightarrow> r = Inl e \<or> (\<exists>x. r = Inr x \<and> f x = Inl e)"
  by (cases r) auto

lemma ensureE_Inr_iff [simp]: "ensureE b e = Inr u \<longleftrightarrow> b"
  by (simp add: ensureE_def)

lemma ensureE_Inl_iff [simp]: "ensureE b e = Inl f \<longleftrightarrow> \<not> b \<and> f = e"
  by (auto simp: ensureE_def)

lemma ensureE_simps [simp]:
  "ensureE True e = Inr ()"
  "ensureE False e = Inl e"
  by (simp_all add: ensureE_def)

lemma someE_Inr_iff [simp]: "someE x e = Inr v \<longleftrightarrow> x = Some v"
  by (simp add: someE_def split: option.split)

lemma someE_Inl_iff [simp]: "someE x e = Inl f \<longleftrightarrow> x = None \<and> f = e"
  by (auto simp: someE_def split: option.split)

lemma someE_simps [simp]:
  "someE None e = Inl e"
  "someE (Some v) e = Inr v"
  by (simp_all add: someE_def)

lemma mapE_Inr_iff [simp]: "mapE g r = Inr v \<longleftrightarrow> r = Inr v"
  by (cases r) (simp_all add: mapE_def)

lemma mapE_Inl_iff [simp]: "mapE g r = Inl f \<longleftrightarrow> (\<exists>e. r = Inl e \<and> f = g e)"
  by (cases r) (auto simp: mapE_def)

lemma mapE_simps [simp]:
  "mapE g (Inl e) = Inl (g e)"
  "mapE g (Inr x) = Inr x"
  by (simp_all add: mapE_def)

lemma is_ok_simps [simp]:
  "is_ok (Inl e) = False"
  "is_ok (Inr x) = True"
  by (simp_all add: is_ok_def)

lemma is_ok_iff: "is_ok r \<longleftrightarrow> (\<exists>x. r = Inr x)"
  by (cases r) auto

lemmas bindE_iffs = bindE_Inr_iff bindE_Inl_iff

subsection \<open>Python text\<close>

type_synonym ustr = "nat list"

text \<open>An ASCII literal as code points.\<close>

definition cp :: "string \<Rightarrow> ustr" where
  "cp s = map of_char s"

text \<open>\<open>str.isspace\<close>: the code points \<open>str.strip()\<close> and \<open>str.split()\<close> treat as white space.\<close>

definition py_isspace :: "nat \<Rightarrow> bool" where
  "py_isspace c \<longleftrightarrow> (9 \<le> c \<and> c \<le> 13) \<or> (28 \<le> c \<and> c \<le> 32) \<or> c = 133 \<or> c = 160 \<or> c = 5760
     \<or> (8192 \<le> c \<and> c \<le> 8202) \<or> c = 8232 \<or> c = 8233 \<or> c = 8239 \<or> c = 8287 \<or> c = 12288"

definition strip_by :: "('a \<Rightarrow> bool) \<Rightarrow> 'a list \<Rightarrow> 'a list" where
  "strip_by P xs = rev (dropWhile P (rev (dropWhile P xs)))"

definition py_strip :: "ustr \<Rightarrow> ustr" where
  "py_strip = strip_by py_isspace"

text \<open>\<open>str.lower()\<close> on the ASCII letters; other code points are left alone.\<close>

definition ascii_lower :: "ustr \<Rightarrow> ustr" where
  "ascii_lower = map (\<lambda>c. if 65 \<le> c \<and> c \<le> 90 then c + 32 else c)"

text \<open>\<open>str(n)\<close> of an integer.\<close>

fun digits :: "nat \<Rightarrow> string" where
  "digits n = (if n < 10 then [char_of (48 + n)] else digits (n div 10) @ [char_of (48 + n mod 10)])"

definition show_int :: "int \<Rightarrow> string" where
  "show_int i = (if i < 0 then CHR ''-'' # digits (nat (- i)) else digits (nat i))"

lemma strip_by_set: "set (strip_by P xs) \<subseteq> set xs"
  by (auto simp: strip_by_def dest!: set_dropWhileD)

lemma strip_by_hd: "strip_by P xs \<noteq> [] \<Longrightarrow> \<not> P (hd (strip_by P xs))"
proof -
  assume ne: "strip_by P xs \<noteq> []"
  let ?ys = "dropWhile P xs"
  obtain pre where pre: "?ys = strip_by P xs @ pre"
    unfolding strip_by_def
    by (metis rev_append rev_rev_ident takeWhile_dropWhile_id)
  then have "hd (strip_by P xs) = hd ?ys" using ne by simp
  moreover have "?ys \<noteq> []" using pre ne by auto
  ultimately show ?thesis by (metis hd_dropWhile)
qed

lemma strip_by_last: "strip_by P xs \<noteq> [] \<Longrightarrow> \<not> P (last (strip_by P xs))"
  by (metis hd_dropWhile last_rev rev_is_Nil_conv strip_by_def)

lemma dropWhile_id: "xs = [] \<or> \<not> P (hd xs) \<Longrightarrow> dropWhile P xs = xs"
  by (cases xs) auto

lemma strip_by_id: "xs = [] \<or> (\<not> P (hd xs) \<and> \<not> P (last xs)) \<Longrightarrow> strip_by P xs = xs"
  by (auto simp: strip_by_def dropWhile_id hd_rev)

lemma strip_by_idem [simp]: "strip_by P (strip_by P xs) = strip_by P xs"
  by (metis strip_by_hd strip_by_id strip_by_last)

lemma strip_by_eq_Nil_iff: "strip_by P xs = [] \<longleftrightarrow> (\<forall>x \<in> set xs. P x)"
proof
  assume "strip_by P xs = []"
  then have "\<forall>x \<in> set (dropWhile P xs). P x" by (simp add: strip_by_def)
  then have "dropWhile P xs = []" by (metis hd_dropWhile hd_in_set)
  then show "\<forall>x \<in> set xs. P x" by simp
qed (auto simp: strip_by_def dest!: set_dropWhileD)

subsection \<open>Tables\<close>

text \<open>\<open>UPDATE t SET .. WHERE p\<close> and \<open>DELETE FROM t WHERE p\<close>.\<close>

definition update_where :: "('r \<Rightarrow> bool) \<Rightarrow> ('r \<Rightarrow> 'r) \<Rightarrow> 'r list \<Rightarrow> 'r list" where
  "update_where p f = map (\<lambda>r. if p r then f r else r)"

definition delete_where :: "('r \<Rightarrow> bool) \<Rightarrow> 'r list \<Rightarrow> 'r list" where
  "delete_where p = filter (\<lambda>r. \<not> p r)"

text \<open>\<open>scalar_one_or_none\<close> of a select by a unique key.\<close>

definition fetch :: "('r \<Rightarrow> 'k) \<Rightarrow> 'k \<Rightarrow> 'r list \<Rightarrow> 'r option" where
  "fetch key k t = List.find (\<lambda>r. key r = k) t"

text \<open>\<open>ORDER BY key DESC LIMIT 1\<close>; rows with equal keys keep the later one.\<close>

fun latest_by :: "('r \<Rightarrow> int) \<Rightarrow> 'r list \<Rightarrow> 'r option" where
  "latest_by key [] = None"
| "latest_by key (r # rs) =
     (case latest_by key rs of
        None \<Rightarrow> Some r
      | Some s \<Rightarrow> Some (if key r \<le> key s then s else r))"

lemma fetch_Some: "fetch key k t = Some r \<Longrightarrow> r \<in> set t \<and> key r = k"
  by (auto simp: fetch_def find_Some_iff)

lemma fetch_None_iff: "fetch key k t = None \<longleftrightarrow> k \<notin> key ` set t"
  by (auto simp: fetch_def find_None_iff)

lemma fetch_Nil [simp]: "fetch key k [] = None"
  by (simp add: fetch_def)

lemma fetch_Cons [simp]:
  "fetch key k (r # t) = (if key r = k then Some r else fetch key k t)"
  by (simp add: fetch_def)

lemma fetch_append:
  "fetch key k (t @ u) = (case fetch key k t of None \<Rightarrow> fetch key k u | Some r \<Rightarrow> Some r)"
  by (induction t) auto

lemma fetch_distinct:
  "distinct (map key t) \<Longrightarrow> r \<in> set t \<Longrightarrow> fetch key (key r) t = Some r"
  by (induction t) (auto simp: image_iff)

lemma fetch_update_where [table_simps]:
  assumes "\<And>r. key (f r) = key r"
  shows "fetch key k (update_where p f t) =
    (case fetch key k t of None \<Rightarrow> None | Some r \<Rightarrow> Some (if p r then f r else r))"
  by (induction t) (auto simp: update_where_def assms)

lemma map_update_where [table_simps]:
  "(\<And>r. g (f r) = g r) \<Longrightarrow> map g (update_where p f t) = map g t"
  by (induction t) (auto simp: update_where_def)

lemma set_update_where:
  "set (update_where p f t) = (\<lambda>r. if p r then f r else r) ` set t"
  by (simp add: update_where_def)

lemma length_update_where [simp]: "length (update_where p f t) = length t"
  by (simp add: update_where_def)

lemma update_where_Nil [simp]: "update_where p f [] = []"
  by (simp add: update_where_def)

lemma update_where_Cons [simp]:
  "update_where p f (r # t) = (if p r then f r else r) # update_where p f t"
  by (simp add: update_where_def)

lemma set_delete_where [simp]: "set (delete_where p t) = {r \<in> set t. \<not> p r}"
  by (simp add: delete_where_def)

lemma distinct_map_delete_where:
  "distinct (map key t) \<Longrightarrow> distinct (map key (delete_where p t))"
  by (simp add: delete_where_def distinct_map_filter)

lemma distinct_map_map:
  "(\<And>r. r \<in> set t \<Longrightarrow> key (f r) = key r) \<Longrightarrow> distinct (map key t) \<Longrightarrow> distinct (map key (map f t))"
proof -
  assume "\<And>r. r \<in> set t \<Longrightarrow> key (f r) = key r" and d: "distinct (map key t)"
  then have "map key (map f t) = map key t" by simp
  with d show ?thesis by (simp only:)
qed

lemma latest_by_in: "latest_by key rs = Some r \<Longrightarrow> r \<in> set rs"
  by (induction rs arbitrary: r) (auto split: option.splits if_splits)

lemma latest_by_None_iff [simp]: "latest_by key rs = None \<longleftrightarrow> rs = []"
  by (cases rs) (auto split: option.splits)

lemma latest_by_max: "latest_by key rs = Some r \<Longrightarrow> s \<in> set rs \<Longrightarrow> key s \<le> key r"
proof (induction rs arbitrary: r s)
  case Nil
  then show ?case by simp
next
  case (Cons a rs)
  show ?case
  proof (cases "latest_by key rs")
    case None
    then show ?thesis using Cons.prems by simp
  next
    case (Some b)
    with Cons.IH [OF Some] Cons.prems show ?thesis
      by (fastforce split: if_splits)
  qed
qed

subsection \<open>Tables with a primary key\<close>

text \<open>
  The contract every table of the model offers its clients: a primary key read by \<open>key\<close>, rows
  found by \<open>get\<close>, a point update and an insert.  The laws are what a repository promises; the
  lemmas below are proved once and used through the interpretations of the table theories.
\<close>

locale keyed_table =
  fixes key :: "'r \<Rightarrow> int"
    and get :: "'r list \<Rightarrow> int \<Rightarrow> 'r option"
    and put :: "int \<Rightarrow> ('r \<Rightarrow> 'r) \<Rightarrow> 'r list \<Rightarrow> 'r list"
    and ins :: "'r \<Rightarrow> 'r list \<Rightarrow> 'r list"
  assumes get_sound: "get t k = Some r \<Longrightarrow> r \<in> set t \<and> key r = k"
    and get_complete: "distinct (map key t) \<Longrightarrow> r \<in> set t \<Longrightarrow> get t (key r) = Some r"
    and put_set: "set (put k f t) = (\<lambda>r. if key r = k then f r else r) ` set t"
    and put_keys: "(\<And>r. key (f r) = key r) \<Longrightarrow> map key (put k f t) = map key t"
    and put_get: "(\<And>r. key (f r) = key r) \<Longrightarrow>
      get (put k f t) j = (if j = k then map_option f (get t k) else get t j)"
    and ins_rows: "ins r t = t @ [r]"
begin

lemma get_key: "get t k = Some r \<Longrightarrow> key r = k"
  using get_sound by blast

lemma get_in: "get t k = Some r \<Longrightarrow> r \<in> set t"
  using get_sound by blast

lemma get_iff: "distinct (map key t) \<Longrightarrow> get t k = Some r \<longleftrightarrow> r \<in> set t \<and> key r = k"
  using get_sound get_complete by blast

lemma get_None: "distinct (map key t) \<Longrightarrow> get t k = None \<longleftrightarrow> (\<forall>r \<in> set t. key r \<noteq> k)"
  by (metis get_complete get_sound not_Some_eq)

lemma unique: "distinct (map key t) \<Longrightarrow> r \<in> set t \<Longrightarrow> s \<in> set t \<Longrightarrow> key r = key s \<Longrightarrow> r = s"
  by (metis get_complete option.inject)

lemma put_distinct:
  "(\<And>r. key (f r) = key r) \<Longrightarrow> distinct (map key t) \<Longrightarrow> distinct (map key (put k f t))"
  by (simp add: put_keys)

lemma ins_distinct:
  "distinct (map key t) \<Longrightarrow> \<forall>s \<in> set t. key s < key r \<Longrightarrow> distinct (map key (ins r t))"
  by (fastforce simp: ins_rows)

lemma put_cases:
  assumes "r \<in> set (put k f t)"
  obtains (same) "r \<in> set t" "key r \<noteq> k" | (changed) s where "s \<in> set t" "key s = k" "r = f s"
  using assms by (auto simp: put_set split: if_splits)

lemma put_all:
  assumes "\<forall>r \<in> set t. P r" and "\<And>r. r \<in> set t \<Longrightarrow> key r = k \<Longrightarrow> P r \<Longrightarrow> P (f r)"
  shows "\<forall>r \<in> set (put k f t). P r"
  using assms by (auto simp: put_set)

lemma ins_all: "\<forall>s \<in> set t. P s \<Longrightarrow> P r \<Longrightarrow> \<forall>s \<in> set (ins r t). P s"
  by (auto simp: ins_rows)

lemma get_ins:
  assumes d: "distinct (map key t)" and lt: "\<forall>s \<in> set t. key s < key r"
  shows "get (ins r t) k = (if k = key r then Some r else get t k)"
proof -
  note d' = ins_distinct [OF d lt]
  have "get (ins r t) k = Some s \<longleftrightarrow> (if k = key r then Some r else get t k) = Some s" for s
    using lt get_iff [OF d] get_iff [OF d'] by (auto simp: ins_rows)
  then show ?thesis by (metis not_Some_eq)
qed

end

text \<open>Primary keys are drawn from a sequence: every key is below the next one.\<close>

definition ids_below :: "('r \<Rightarrow> int) \<Rightarrow> int \<Rightarrow> 'r list \<Rightarrow> bool" where
  "ids_below key n t \<longleftrightarrow> distinct (map key t) \<and> (\<forall>r \<in> set t. key r < n)"

lemma ids_below_append: "ids_below key n t \<Longrightarrow> key r = n \<Longrightarrow> ids_below key (n + 1) (t @ [r])"
  by (fastforce simp: ids_below_def)

lemma ids_below_map: "(\<And>r. key (f r) = key r) \<Longrightarrow> ids_below key n (map f t) = ids_below key n t"
  by (simp add: ids_below_def comp_def)

lemma ids_below_filter: "ids_below key n t \<Longrightarrow> ids_below key n (filter P t)"
  by (auto simp: ids_below_def distinct_map_filter)

text \<open>The tables of the model are lists read by \<open>fetch\<close> and written by \<open>update_where\<close> and append.\<close>

lemma keyed_table_fetch:
  "keyed_table key (\<lambda>t k. fetch key k t) (\<lambda>k f. update_where (\<lambda>r. key r = k) f) (\<lambda>r t. t @ [r])"
proof
  fix t k r assume "fetch key k t = Some r"
  then show "r \<in> set t \<and> key r = k" by (rule fetch_Some)
next
  fix t r assume "distinct (map key t)" "r \<in> set t"
  then show "fetch key (key r) t = Some r" by (rule fetch_distinct)
next
  fix f k j t assume "\<And>r. key (f r) = key r"
  then show "fetch key j (update_where (\<lambda>r. key r = k) f t) =
      (if j = k then map_option f (fetch key k t) else fetch key j t)"
    by (auto simp: fetch_update_where split: option.split dest: fetch_Some)
qed (auto simp: set_update_where map_update_where)

end
