(* ===== verification/IntroContract.thy ===== *)
theory IntroContract
  imports Prelude "HOL-Library.Multiset"
begin

section \<open>The questionnaire contract (bot/services/intro_contract.py)\<close>

text \<open>
  The two frozen catalogs of questions, the normalisation of one answer, the HTML block rendered
  from a complete set of answers, and the digest that binds a confirmation button to the block the
  user was shown.  Cyrillic and emoji literals are written as their code points.  SHA-256 is an
  argument of the digest.
\<close>

datatype intro_contract_error =
  UnknownCatalog string | BlankAnswer | FieldsNotExactlyOnce | ExceedsMessageLimit

record intro_field =
  field_id :: string
  question :: ustr
  public_label :: ustr
  sheet_header :: ustr

subsection \<open>The frozen catalogs\<close>

definition intro_v2 :: "intro_field list" where
  "intro_v2 =
   [\<lparr>field_id = ''name'',
      question = [1050, 1072, 1082, 32, 1090, 1077, 1073, 1103, 32, 1079, 1086, 1074, 1091, 1090,
       63],
      public_label = [128100, 32, 1048, 1084, 1103],
      sheet_header = [128100, 32, 1048, 1084, 1103]\<rparr>,
    \<lparr>field_id = ''location'',
      question = [1043, 1076, 1077, 32, 1090, 1099, 32, 1087, 1088, 1086, 1074, 1086, 1076, 1080,
       1096, 1100, 32, 1073, 1086, 1083, 1100, 1096, 1091, 1102, 32, 1095, 1072, 1089,
       1090, 1100, 32, 1075, 1086, 1076, 1072, 63],
      public_label = [128205, 32, 1054, 1089, 1085, 1086, 1074, 1085, 1072, 1103, 32, 1083, 1086,
       1082, 1072, 1094, 1080, 1103],
      sheet_header = [128205, 32, 1054, 1089, 1085, 1086, 1074, 1085, 1072, 1103, 32, 1083, 1086,
       1082, 1072, 1094, 1080, 1103]\<rparr>,
    \<lparr>field_id = ''referral'',
      question = [1054, 1090, 32, 1082, 1086, 1075, 1086, 32, 1090, 1099, 32, 1091, 1079, 1085,
       1072, 1083, 32, 1086, 32, 1095, 1072, 1090, 1077, 63, 32, 1059, 1082, 1072,
       1078, 1080, 32, 64, 117, 115, 101, 114, 110, 97, 109, 101, 32, 1080, 1083,
       1080, 32, 1089, 1089, 1099, 1083, 1082, 1091, 32, 116, 46, 109, 101, 47, 117,
       115, 101, 114, 110, 97, 109, 101, 46],
      public_label = [128279, 32, 1054, 1090, 32, 1082, 1086, 1075, 1086, 32, 1091, 1079, 1085, 1072,
       1083, 32, 1086, 32, 1095, 1072, 1090, 1077],
      sheet_header = [128279, 32, 1054, 1090, 32, 1082, 1086, 1075, 1086, 32, 1091, 1079, 1085, 1072,
       1083, 32, 1086, 32, 1095, 1072, 1090, 1077]\<rparr>,
    \<lparr>field_id = ''experience'',
      question = [1050, 1072, 1082, 1086, 1081, 32, 1091, 32, 1090, 1077, 1073, 1103, 32, 1086,
       1087, 1099, 1090, 32, 1089, 32, 1074, 1072, 1081, 1073, 45, 1082, 1086, 1076,
       1080, 1085, 1075, 1086, 1084, 63],
      public_label = [128161, 32, 1054, 1087, 1099, 1090, 32, 1089, 32, 1074, 1072, 1081, 1073, 45,
       1082, 1086, 1076, 1080, 1085, 1075, 1086, 1084],
      sheet_header = [128161, 32, 1054, 1087, 1099, 1090, 32, 1089, 32, 1074, 1072, 1081, 1073, 45,
       1082, 1086, 1076, 1080, 1085, 1075, 1086, 1084]\<rparr>,
    \<lparr>field_id = ''projects'',
      question = [1050, 1072, 1082, 1080, 1077, 32, 1087, 1088, 1086, 1077, 1082, 1090, 1099, 32,
       1080, 32, 1072, 1074, 1090, 1086, 1084, 1072, 1090, 1080, 1079, 1072, 1094,
       1080, 1080, 32, 1090, 1099, 32, 1088, 1077, 1072, 1083, 1080, 1079, 1086, 1074,
       1072, 1083, 32, 1089, 32, 1087, 1086, 1084, 1086, 1097, 1100, 1102, 32, 1074,
       1072, 1081, 1073, 45, 1082, 1086, 1076, 1080, 1085, 1075, 1072, 63],
      public_label = [128640, 32, 1055, 1088, 1086, 1077, 1082, 1090, 1099, 32, 1080, 32, 1072, 1074,
       1090, 1086, 1084, 1072, 1090, 1080, 1079, 1072, 1094, 1080, 1080],
      sheet_header = [128640, 32, 1055, 1088, 1086, 1077, 1082, 1090, 1099, 32, 1080, 32, 1072, 1074,
       1090, 1086, 1084, 1072, 1090, 1080, 1079, 1072, 1094, 1080, 1080]\<rparr>,
    \<lparr>field_id = ''hardest'',
      question = [1063, 1090, 1086, 32, 1089, 1072, 1084, 1086, 1077, 32, 1089, 1083, 1086, 1078,
       1085, 1086, 1077, 32, 1090, 1099, 32, 1076, 1077, 1083, 1072, 1083, 32, 1074,
       32, 1074, 1072, 1081, 1073, 45, 1082, 1086, 1076, 1080, 1085, 1075, 1077, 32,
       1079, 1072, 32, 1087, 1086, 1089, 1083, 1077, 1076, 1085, 1077, 1077, 32, 1074,
       1088, 1077, 1084, 1103, 63],
      public_label = [127947, 65039, 32, 1057, 1072, 1084, 1086, 1077, 32, 1089, 1083, 1086, 1078,
       1085, 1086, 1077],
      sheet_header = [127947, 65039, 32, 1057, 1072, 1084, 1086, 1077, 32, 1089, 1083, 1086, 1078,
       1085, 1086, 1077]\<rparr>,
    \<lparr>field_id = ''goals'',
      question = [1063, 1090, 1086, 32, 1093, 1086, 1095, 1077, 1096, 1100, 32, 1087, 1086, 1087,
       1088, 1086, 1073, 1086, 1074, 1072, 1090, 1100, 44, 32, 1080, 1079, 1091, 1095,
       1080, 1090, 1100, 32, 1080, 1083, 1080, 32, 1083, 1091, 1095, 1096, 1077, 32,
       1087, 1086, 1085, 1103, 1090, 1100, 32, 1089, 1077, 1081, 1095, 1072, 1089, 63],
      public_label = [127919, 32, 1062, 1077, 1083, 1080],
      sheet_header = [127919, 32, 1062, 1077, 1083, 1080]\<rparr>]"

definition legacy_v1 :: "intro_field list" where
  "legacy_v1 =
   [\<lparr>field_id = ''name'',
      question = [1050, 1072, 1082, 32, 1079, 1086, 1074, 1091, 1090, 32, 1090, 1077, 1073, 1103,
       63],
      public_label = [128100],
      sheet_header = [1048, 1084, 1103]\<rparr>,
    \<lparr>field_id = ''location'',
      question = [1043, 1076, 1077, 32, 1090, 1099, 32, 1087, 1088, 1086, 1074, 1086, 1076, 1080,
       1096, 1100, 32, 1073, 1086, 1083, 1100, 1096, 1091, 1102, 32, 1095, 1072, 1089,
       1090, 1100, 32, 1075, 1086, 1076, 1072, 63],
      public_label = [128205],
      sheet_header = [1051, 1086, 1082, 1072, 1094, 1080, 1103]\<rparr>,
    \<lparr>field_id = ''referral'',
      question = [1054, 1090, 32, 1082, 1086, 1075, 1086, 32, 1091, 1079, 1085, 1072, 1083, 32,
       8212, 32, 1091, 1082, 1072, 1078, 1080, 32, 84, 101, 108, 101, 103, 114, 97,
       109, 32, 73, 68],
      public_label = [128279, 32, 1054, 1090, 1082, 1091, 1076, 1072, 32, 1091, 1079, 1085, 1072,
       1083],
      sheet_header = [1054, 1090, 1082, 1091, 1076, 1072, 32, 1091, 1079, 1085, 1072, 1083]\<rparr>,
    \<lparr>field_id = ''experience'',
      question = [1050, 1072, 1082, 1080, 1077, 32, 1086, 1090, 1085, 1086, 1096, 1077, 1085,
       1080, 1103, 32, 1091, 32, 1090, 1077, 1073, 1103, 32, 1089, 32, 1074, 1072,
       1081, 1073, 45, 1082, 1086, 1076, 1080, 1085, 1075, 1086, 1084, 32, 40, 1082,
       1072, 1082, 1086, 1081, 32, 1086, 1087, 1099, 1090, 41, 63],
      public_label = [128161, 32, 1054, 1087, 1099, 1090],
      sheet_header = [1054, 1087, 1099, 1090]\<rparr>,
    \<lparr>field_id = ''projects'',
      question = [1056, 1072, 1089, 1089, 1082, 1072, 1078, 1080, 32, 1082, 1086, 1088, 1086,
       1090, 1082, 1086, 32, 1087, 1088, 1086, 32, 1089, 1074, 1086, 1080, 32, 1087,
       1088, 1086, 1077, 1082, 1090, 1099, 44, 32, 1072, 1074, 1090, 1086, 1084, 1072,
       1090, 1080, 1079, 1072, 1094, 1080, 1080, 32, 1080, 32, 1087, 1088, 1080, 1082,
       1086, 1083, 1102, 1096, 1082, 1080, 44, 32, 1082, 1086, 1090, 1086, 1088, 1099,
       1077, 32, 1090, 1099, 32, 1088, 1077, 1072, 1083, 1080, 1079, 1086, 1074, 1072,
       1083, 32, 1089, 32, 1087, 1086, 1084, 1086, 1097, 1100, 1102, 32, 1074, 1072,
       1081, 1073, 45, 1082, 1086, 1076, 1080, 1085, 1075, 1072, 63],
      public_label = [128640, 32, 1055, 1088, 1086, 1077, 1082, 1090, 1099],
      sheet_header = [1055, 1088, 1086, 1077, 1082, 1090, 1099]\<rparr>,
    \<lparr>field_id = ''hardest'',
      question = [1063, 1090, 1086, 32, 1089, 1072, 1084, 1086, 1077, 32, 1089, 1083, 1086, 1078,
       1085, 1086, 1077, 32, 1076, 1077, 1083, 1072, 1083, 32, 1074, 32, 1074, 1072,
       1081, 1073, 45, 1082, 1086, 1076, 1080, 1085, 1075, 1077, 32, 1079, 1072, 32,
       1087, 1086, 1089, 1083, 1077, 1076, 1085, 1077, 1077, 32, 1074, 1088, 1077,
       1084, 1103, 63],
      public_label = [127947, 65039, 32, 1057, 1072, 1084, 1086, 1077, 32, 1089, 1083, 1086, 1078,
       1085, 1086, 1077],
      sheet_header = [1057, 1072, 1084, 1086, 1077, 32, 1089, 1083, 1086, 1078, 1085, 1086, 1077]\<rparr>,
    \<lparr>field_id = ''goals'',
      question = [1063, 1090, 1086, 32, 1093, 1086, 1095, 1077, 1096, 1100, 32, 1087, 1086, 1087,
       1088, 1086, 1073, 1086, 1074, 1072, 1090, 1100, 44, 32, 1095, 1077, 1084, 1091,
       32, 1085, 1072, 1091, 1095, 1080, 1090, 1100, 1089, 1103, 32, 1080, 32, 1095,
       1090, 1086, 32, 1090, 1077, 1073, 1103, 32, 1086, 1079, 1072, 1076, 1072, 1095,
       1080, 1074, 1072, 1077, 1090, 32, 1074, 32, 1101, 1090, 1086, 1084, 32, 1088,
       1077, 1084, 1077, 1089, 1083, 1077, 32, 1089, 1077, 1081, 1095, 1072, 1089, 63],
      public_label = [127919, 32, 1062, 1077, 1083, 1080],
      sheet_header = [1062, 1077, 1083, 1080]\<rparr>]"

definition get_intro_catalog :: "string \<Rightarrow> intro_contract_error + intro_field list" where
  "get_intro_catalog catalog_version =
     (if catalog_version = ''legacy-v1'' then Inr legacy_v1
      else if catalog_version = ''intro-v2'' then Inr intro_v2
      else Inl (UnknownCatalog catalog_version))"

definition frozen_intro_body_limit :: nat where
  "frozen_intro_body_limit = 3260"

subsection \<open>One answer\<close>

text \<open>\<open>replace("\r\n", " ").replace("\r", " ").replace("\n", " ")\<close> in one pass.\<close>

fun flatten_lines :: "ustr \<Rightarrow> ustr" where
  "flatten_lines [] = []"
| "flatten_lines (c # cs) =
     (if c = 13 then 32 # (case cs of [] \<Rightarrow> [] | d # ds \<Rightarrow> if d = 10 then flatten_lines ds else flatten_lines cs)
      else if c = 10 then 32 # flatten_lines cs
      else c # flatten_lines cs)"

definition normalize_intro_answer :: "ustr \<Rightarrow> intro_contract_error + ustr" where
  "normalize_intro_answer value =
     (let v = py_strip (flatten_lines value) in if v = [] then Inl BlankAnswer else Inr v)"

text \<open>\<open>html.escape(s, quote=True)\<close>.\<close>

definition escape_char :: "nat \<Rightarrow> ustr" where
  "escape_char c =
     (if c = 38 then cp ''&amp;'' else if c = 60 then cp ''&lt;'' else if c = 62 then cp ''&gt;''
      else if c = 34 then cp ''&quot;'' else if c = 39 then cp ''&#x27;'' else [c])"

definition html_escape :: "ustr \<Rightarrow> ustr" where
  "html_escape s = concat (map escape_char s)"

subsection \<open>The rendered block\<close>

fun join_lines :: "ustr list \<Rightarrow> ustr" where
  "join_lines [] = []"
| "join_lines [l] = l"
| "join_lines (l # ls) = l @ 10 # join_lines ls"

text \<open>The loop over the given answers: every field of the catalog at most once, normalised.\<close>

fun collect_answers ::
  "string list \<Rightarrow> (string \<times> ustr) list \<Rightarrow> (string \<times> ustr) list \<Rightarrow>
   intro_contract_error + (string \<times> ustr) list" where
  "collect_answers expected [] vals = Inr vals"
| "collect_answers expected ((f, v) # answers) vals =
     (if f \<notin> set expected \<or> f \<in> set (map fst vals) then Inl FieldsNotExactlyOnce
      else bindE (normalize_intro_answer v) (\<lambda>n. collect_answers expected answers ((f, n) # vals)))"

definition label_separator :: "string \<Rightarrow> string \<Rightarrow> ustr" where
  "label_separator catalog_version fid =
     (if catalog_version = ''intro-v2'' then cp '': ''
      else if fid \<notin> {''name'', ''location''} then cp '': '' else cp '' '')"

definition render_line :: "string \<Rightarrow> (string \<Rightarrow> ustr) \<Rightarrow> intro_field \<Rightarrow> ustr" where
  "render_line catalog_version vals fld =
     public_label fld @ label_separator catalog_version (field_id fld) @ html_escape (vals (field_id fld))"

definition value_of :: "(string \<times> ustr) list \<Rightarrow> string \<Rightarrow> ustr" where
  "value_of vals f = (case map_of vals f of None \<Rightarrow> [] | Some v \<Rightarrow> v)"

definition render_intro_html ::
  "(string \<times> ustr) list \<Rightarrow> string \<Rightarrow> intro_contract_error + ustr" where
  "render_intro_html answers catalog_version =
     bindE (get_intro_catalog catalog_version) (\<lambda>catalog.
     let expected = map field_id catalog in
     bindE (collect_answers expected answers []) (\<lambda>vals.
       if \<not> list_all (\<lambda>f. f \<in> set (map fst vals)) expected then Inl FieldsNotExactlyOnce
       else let rendered = join_lines (map (render_line catalog_version (value_of vals)) catalog) in
         if length rendered > frozen_intro_body_limit then Inl ExceedsMessageLimit
         else Inr rendered))"

subsection \<open>The confirmation digest\<close>

definition utf8_char :: "nat \<Rightarrow> nat list" where
  "utf8_char c =
     (if c < 128 then [c]
      else if c < 2048 then [192 + c div 64, 128 + c mod 64]
      else if c < 65536 then [224 + c div 4096, 128 + c div 64 mod 64, 128 + c mod 64]
      else [240 + c div 262144, 128 + c div 4096 mod 64, 128 + c div 64 mod 64, 128 + c mod 64])"

definition utf8 :: "ustr \<Rightarrow> nat list" where
  "utf8 s = concat (map utf8_char s)"

text \<open>The URL-safe alphabet and \<open>urlsafe_b64encode\<close> followed by \<open>rstrip(b"=")\<close>.\<close>

definition b64_char :: "nat \<Rightarrow> char" where
  "b64_char i =
     (''ABCDEFGHIJKLMNOPQRSTUVWXYZabcdefghijklmnopqrstuvwxyz0123456789-_'' ! (i mod 64))"

fun urlsafe_b64 :: "nat list \<Rightarrow> string" where
  "urlsafe_b64 (a # b # c # bs) =
     b64_char (a div 4) # b64_char (a mod 4 * 16 + b div 16) #
     b64_char (b mod 16 * 4 + c div 64) # b64_char (c mod 64) # urlsafe_b64 bs"
| "urlsafe_b64 [a, b] =
     [b64_char (a div 4), b64_char (a mod 4 * 16 + b div 16), b64_char (b mod 16 * 4)]"
| "urlsafe_b64 [a] = [b64_char (a div 4), b64_char (a mod 4 * 16)]"
| "urlsafe_b64 [] = []"

definition intro_digest :: "(nat list \<Rightarrow> nat list) \<Rightarrow> ustr \<Rightarrow> string" where
  "intro_digest sha256 snapshot = urlsafe_b64 (take 16 (sha256 (utf8 snapshot)))"

subsection \<open>Catalog facts\<close>

definition catalog_ids :: "string list" where
  "catalog_ids = [''name'', ''location'', ''referral'', ''experience'', ''projects'', ''hardest'', ''goals'']"

lemma ids_intro_v2 [simp]: "map field_id intro_v2 = catalog_ids"
  by (simp add: intro_v2_def catalog_ids_def)

lemma ids_legacy_v1 [simp]: "map field_id legacy_v1 = catalog_ids"
  by (simp add: legacy_v1_def catalog_ids_def)

lemma distinct_catalog_ids [simp]: "distinct catalog_ids"
  by (simp add: catalog_ids_def)

lemma length_catalog_ids [simp]: "length catalog_ids = 7"
  by (simp add: catalog_ids_def)

lemma catalog_cases:
  assumes "get_intro_catalog cv = Inr catalog"
  obtains "catalog = intro_v2" | "catalog = legacy_v1"
  using assms by (auto simp: get_intro_catalog_def split: if_splits)

lemma catalog_field_ids: "get_intro_catalog cv = Inr catalog \<Longrightarrow> map field_id catalog = catalog_ids"
  by (elim catalog_cases) simp_all

lemma catalog_length: "get_intro_catalog cv = Inr catalog \<Longrightarrow> length catalog = 7"
  using catalog_field_ids by (metis length_catalog_ids length_map)

text \<open>No label contains a line break or a character that HTML escapes.\<close>

definition plain_text_char :: "nat \<Rightarrow> bool" where
  "plain_text_char c \<longleftrightarrow> c \<noteq> 10 \<and> c \<noteq> 60 \<and> c \<noteq> 62 \<and> c \<noteq> 34 \<and> c \<noteq> 39"

lemma labels_plain:
  "get_intro_catalog cv = Inr catalog \<Longrightarrow> fld \<in> set catalog \<Longrightarrow>
   list_all plain_text_char (public_label fld)"
  by (elim catalog_cases) (auto simp: intro_v2_def legacy_v1_def plain_text_char_def)

subsection \<open>One answer and its escape\<close>

definition clean_answer :: "ustr \<Rightarrow> ustr" where
  "clean_answer v = py_strip (flatten_lines v)"

lemma normalize_ok_iff:
  "normalize_intro_answer v = Inr n \<longleftrightarrow> n = clean_answer v \<and> n \<noteq> []"
  by (auto simp: normalize_intro_answer_def clean_answer_def Let_def)

lemma flatten_lines_single: "10 \<notin> set (flatten_lines v) \<and> 13 \<notin> set (flatten_lines v)"
  by (induction v rule: flatten_lines.induct) (auto split: list.splits)

lemma clean_answer_single: "10 \<notin> set (clean_answer v)" "13 \<notin> set (clean_answer v)"
  using flatten_lines_single strip_by_set by (fastforce simp: clean_answer_def py_strip_def)+

lemma flatten_lines_id: "10 \<notin> set v \<Longrightarrow> 13 \<notin> set v \<Longrightarrow> flatten_lines v = v"
  by (induction v rule: flatten_lines.induct) auto

lemma clean_answer_idem [simp]: "clean_answer (clean_answer v) = clean_answer v"
proof -
  have "flatten_lines (clean_answer v) = clean_answer v"
    using clean_answer_single by (intro flatten_lines_id)
  then show ?thesis by (simp add: clean_answer_def py_strip_def)
qed

lemma html_escape_simps [simp]:
  "html_escape [] = []"
  "html_escape (c # s) = escape_char c @ html_escape s"
  by (simp_all add: html_escape_def)

lemma escape_char_plain: "c \<noteq> 10 \<Longrightarrow> list_all plain_text_char (escape_char c)"
  by (simp add: escape_char_def cp_def plain_text_char_def)

lemma html_escape_plain: "10 \<notin> set s \<Longrightarrow> list_all plain_text_char (html_escape s)"
  by (induction s) (auto simp: escape_char_plain)

lemma escape_char_prefix:
  "escape_char c @ s = escape_char d @ t \<Longrightarrow> c = d \<and> s = t"
  by (auto simp: escape_char_def cp_def split: if_splits)

lemma escape_char_nonempty [simp]: "escape_char c \<noteq> []"
  by (simp add: escape_char_def cp_def)

lemma html_escape_inj: "html_escape s = html_escape t \<Longrightarrow> s = t"
proof (induction s arbitrary: t)
  case Nil
  then show ?case by (cases t) auto
next
  case (Cons c s)
  then show ?case by (cases t) (auto dest: escape_char_prefix)
qed

subsection \<open>Lines\<close>

lemma join_lines_Cons: "ls \<noteq> [] \<Longrightarrow> join_lines (l # ls) = l @ 10 # join_lines ls"
  by (cases ls) auto

lemma set_join_lines: "set (join_lines ls) \<subseteq> insert 10 (\<Union> (set ` set ls))"
  by (induction ls rule: join_lines.induct) auto

lemma count_join_lines:
  "\<forall>l \<in> set ls. 10 \<notin> set l \<Longrightarrow> count_list (join_lines ls) 10 = length ls - 1"
  by (induction ls rule: join_lines.induct) (auto simp: count_list_append count_list_0_iff)

lemma line_break_unique:
  "a @ 10 # s = b @ 10 # t \<Longrightarrow> (10::nat) \<notin> set a \<Longrightarrow> 10 \<notin> set b \<Longrightarrow> a = b \<and> s = t"
  by (induction a arbitrary: b) (case_tac b; auto)+

lemma join_lines_inj:
  "length ls = length ms \<Longrightarrow> \<forall>l \<in> set ls \<union> set ms. 10 \<notin> set l \<Longrightarrow>
   join_lines ls = join_lines ms \<Longrightarrow> ls = ms"
proof (induction ls ms rule: list_induct2)
  case Nil
  then show ?case by simp
next
  case (Cons l ls m ms)
  show ?case
  proof (cases "ls = []")
    case True
    then show ?thesis using Cons by simp
  next
    case False
    then have "ms \<noteq> []" using Cons.hyps by auto
    with False Cons.prems(2) have e: "l @ 10 # join_lines ls = m @ 10 # join_lines ms"
      by (simp add: join_lines_Cons)
    have "10 \<notin> set l" "10 \<notin> set m" using Cons.prems(1) by auto
    note lm = line_break_unique [OF e this]
    have "\<forall>l \<in> set ls \<union> set ms. 10 \<notin> set l" using Cons.prems(1) by auto
    from Cons.IH [OF this] lm show ?thesis by simp
  qed
qed

subsection \<open>The collected answers\<close>

lemma collect_ok_iff:
  "collect_answers expected answers vals = Inr out \<longleftrightarrow>
     distinct (map fst answers) \<and> set (map fst answers) \<subseteq> set expected \<and>
     set (map fst answers) \<inter> set (map fst vals) = {} \<and>
     (\<forall>fv \<in> set answers. clean_answer (snd fv) \<noteq> []) \<and>
     out = rev (map (\<lambda>fv. (fst fv, clean_answer (snd fv))) answers) @ vals"
proof (induction answers arbitrary: vals)
  case Nil
  then show ?case by auto
next
  case (Cons fv answers)
  obtain f v where "fv = (f, v)" by fastforce
  then show ?case
    by (auto simp: Cons.IH bindE_Inr_iff normalize_ok_iff simp del: map_map)
qed

lemma map_of_rev_distinct: "distinct (map fst xs) \<Longrightarrow> map_of (rev xs) = map_of xs"
proof (induction xs)
  case (Cons x xs)
  then have "map_of xs (fst x) = None" by (simp add: map_of_eq_None_iff)
  with Cons show ?case by (auto simp: fun_eq_iff map_add_def split: option.split)
qed simp

lemma value_of_collected:
  assumes d: "distinct (map fst answers)" and f: "f \<in> set (map fst answers)"
  shows "value_of (rev (map (\<lambda>fv. (fst fv, clean_answer (snd fv))) answers)) f =
    clean_answer (value_of answers f)"
proof -
  let ?cl = "\<lambda>fv. (fst fv, clean_answer (snd fv))"
  have "distinct (map fst (map ?cl answers))" using d by (simp add: comp_def)
  then have "map_of (rev (map ?cl answers)) f = map_of (map ?cl answers) f"
    by (simp only: map_of_rev_distinct)
  also have "\<dots> = map_option clean_answer (map_of answers f)"
    by (induction answers) auto
  finally have "map_of (rev (map ?cl answers)) f = map_option clean_answer (map_of answers f)" .
  moreover have "map_of answers f \<noteq> None" using f by (simp add: map_of_eq_None_iff)
  ultimately show ?thesis by (auto simp: value_of_def)
qed

text \<open>The block of a complete set of answers, as the specification has it.\<close>

definition intro_block :: "string \<Rightarrow> intro_field list \<Rightarrow> (string \<times> ustr) list \<Rightarrow> ustr" where
  "intro_block cv catalog answers =
     join_lines (map (render_line cv (\<lambda>f. clean_answer (value_of answers f))) catalog)"

lemma render_iff:
  "render_intro_html answers cv = Inr h \<longleftrightarrow>
     (\<exists>catalog. get_intro_catalog cv = Inr catalog \<and>
        distinct (map fst answers) \<and> set (map fst answers) = set catalog_ids \<and>
        (\<forall>fv \<in> set answers. clean_answer (snd fv) \<noteq> []) \<and>
        h = intro_block cv catalog answers \<and> length h \<le> frozen_intro_body_limit)"
proof (cases "get_intro_catalog cv")
  case (Inl e)
  then show ?thesis by (simp add: render_intro_html_def)
next
  case (Inr catalog)
  note ids = catalog_field_ids [OF Inr]
  have block: "map (render_line cv (value_of (rev (map (\<lambda>fv. (fst fv, clean_answer (snd fv))) answers)))) catalog
      = map (render_line cv (\<lambda>f. clean_answer (value_of answers f))) catalog"
    if "distinct (map fst answers)" "set (map fst answers) = set catalog_ids"
  proof (rule map_cong [OF refl])
    fix fld assume "fld \<in> set catalog"
    then have "field_id fld \<in> set (map fst answers)" using ids that(2) by (metis image_eqI set_map)
    then show "render_line cv (value_of (rev (map (\<lambda>fv. (fst fv, clean_answer (snd fv))) answers))) fld
      = render_line cv (\<lambda>f. clean_answer (value_of answers f)) fld"
      by (simp add: render_line_def value_of_collected [OF that(1)])
  qed
  let ?out = "rev (map (\<lambda>fv. (fst fv, clean_answer (snd fv))) answers)"
  let ?page = "\<lambda>vals. join_lines (map (render_line cv vals) catalog)"
  have page: "?page (value_of ?out) = intro_block cv catalog answers"
    if "distinct (map fst answers)" "set (map fst answers) = set catalog_ids"
    by (simp only: intro_block_def block [OF that])
  have keys: "set (map fst ?out) = set (map fst answers)" by (auto simp: image_image)
  have "render_intro_html answers cv = Inr h \<longleftrightarrow>
      distinct (map fst answers) \<and> set (map fst answers) \<subseteq> set catalog_ids \<and>
      (\<forall>fv \<in> set answers. clean_answer (snd fv) \<noteq> []) \<and>
      set catalog_ids \<subseteq> set (map fst ?out) \<and>
      length (?page (value_of ?out)) \<le> frozen_intro_body_limit \<and> h = ?page (value_of ?out)"
    by (simp only: render_intro_html_def Inr bindE.simps Let_def ids bindE_Inr_iff collect_ok_iff
        list_all_iff subset_iff)
      (auto split: if_splits)
  also have "\<dots> \<longleftrightarrow> distinct (map fst answers) \<and> set (map fst answers) = set catalog_ids \<and>
      (\<forall>fv \<in> set answers. clean_answer (snd fv) \<noteq> []) \<and>
      h = intro_block cv catalog answers \<and> length h \<le> frozen_intro_body_limit"
  proof (cases "distinct (map fst answers) \<and> set (map fst answers) = set catalog_ids")
    case True
    then show ?thesis unfolding keys using page by (simp only: ) auto
  next
    case False
    then show ?thesis unfolding keys by (simp only: set_eq_subset) blast
  qed
  finally show ?thesis using Inr by simp
qed

lemmas render_okD = render_iff [THEN iffD1]

subsection \<open>Properties of the block\<close>

text \<open>The order in which the answers are read makes no difference.\<close>

lemma value_of_mset:
  assumes "mset answers = mset answers'" "distinct (map fst answers)"
  shows "value_of answers = value_of answers'"
proof -
  have "distinct (map fst answers')" using assms by (metis mset_map mset_eq_imp_distinct_iff)
  moreover have "set answers = set answers'" using assms(1) by (rule mset_eq_setD)
  ultimately have "map_of answers = map_of answers'" using assms(2) map_of_inject_set by blast
  then show ?thesis by (simp add: fun_eq_iff value_of_def)
qed

lemma render_mset:
  assumes m: "mset answers = mset answers'"
  shows "render_intro_html answers cv = Inr h \<longleftrightarrow> render_intro_html answers' cv = Inr h"
proof -
  have "set answers = set answers'" "distinct (map fst answers) \<longleftrightarrow> distinct (map fst answers')"
    using m mset_eq_setD by (blast, metis mset_map mset_eq_imp_distinct_iff)
  moreover have "distinct (map fst answers) \<Longrightarrow> intro_block cv c answers = intro_block cv c answers'" for c
    using value_of_mset [OF m] by (simp add: intro_block_def)
  ultimately show ?thesis unfolding render_iff by auto
qed

lemma render_line_plain:
  assumes "get_intro_catalog cv = Inr catalog" "fld \<in> set catalog" "10 \<notin> set (vals (field_id fld))"
  shows "list_all plain_text_char (render_line cv vals fld)"
  using labels_plain [OF assms(1,2)] html_escape_plain [OF assms(3)]
  by (simp add: render_line_def label_separator_def cp_def plain_text_char_def)

lemma block_lines:
  assumes "get_intro_catalog cv = Inr catalog"
    "l \<in> set (map (render_line cv (\<lambda>f. clean_answer (value_of answers f))) catalog)"
  shows "list_all plain_text_char l" "10 \<notin> set l"
proof -
  show *: "list_all plain_text_char l"
    using assms clean_answer_single(1) by (auto intro!: render_line_plain)
  then show "10 \<notin> set l" by (auto simp: list_all_iff plain_text_char_def)
qed

text \<open>
  C39. The confirmed block is exactly the specified one: rendering succeeds if and only if the
  catalog is known, the answers name each of its seven fields exactly once, none is blank after
  normalisation and the block fits the 3260-character limit; the result then lists the fields in
  catalog order, each with its label and its normalised, HTML-escaped answer.
\<close>

theorem render_exact:
  "render_intro_html answers cv = Inr h \<longleftrightarrow>
     (\<exists>catalog. get_intro_catalog cv = Inr catalog \<and>
        distinct (map fst answers) \<and> set (map fst answers) = set (map field_id catalog) \<and>
        list_all (\<lambda>fv. clean_answer (snd fv) \<noteq> []) answers \<and>
        h = join_lines (map (\<lambda>fld. public_label fld @ label_separator cv (field_id fld) @
              html_escape (clean_answer (value_of answers (field_id fld)))) catalog) \<and>
        length h \<le> 3260)"
proof -
  have line: "render_line cv (\<lambda>f. clean_answer (value_of answers f)) =
    (\<lambda>fld. public_label fld @ label_separator cv (field_id fld) @
       html_escape (clean_answer (value_of answers (field_id fld))))"
    by (simp add: fun_eq_iff render_line_def)
  have "get_intro_catalog cv = Inr catalog \<Longrightarrow> set (map field_id catalog) = set catalog_ids" for catalog
    by (simp only: catalog_field_ids)
  then show ?thesis
    unfolding render_iff intro_block_def line frozen_intro_body_limit_def list_all_iff by blast
qed

text \<open>
  No answer can break out of its line or of the markup: a rendered block has exactly six line
  breaks, one after each of the first six fields, and no \<open><\<close>, \<open>>\<close> or quote, so no tag and
  no attribute of the message it is put into can come from an answer.
\<close>

theorem render_no_markup:
  assumes "render_intro_html answers cv = Inr h"
  shows "count_list h 10 = 6 \<and> set h \<inter> {60, 62, 34, 39} = {}"
proof -
  from assms obtain catalog where c: "get_intro_catalog cv = Inr catalog"
    and h: "h = intro_block cv catalog answers" by (auto simp: render_iff)
  note lines = block_lines [OF c, of _ answers]
  have "count_list h 10 = length catalog - 1"
    unfolding h intro_block_def using lines(2) by (subst count_join_lines) auto
  moreover have "c \<notin> {60, 62, 34, 39}" if "c \<in> set h" for c
  proof -
    from that set_join_lines consider "c = 10"
      | l where "l \<in> set (map (render_line cv (\<lambda>f. clean_answer (value_of answers f))) catalog)"
        "c \<in> set l"
      unfolding h intro_block_def by blast
    then show ?thesis
    proof cases
      case 2
      then have "plain_text_char c" using lines(1) by (simp only: list_all_iff)
      then show ?thesis by (simp add: plain_text_char_def)
    qed simp
  qed
  ultimately show ?thesis using catalog_length [OF c] by auto
qed

definition sample_answers :: "(string \<times> ustr) list" where
  "sample_answers = map (\<lambda>f. (f, cp ''<b>'')) catalog_ids"

lemma sample_value: "clean_answer (cp ''<b>'') = cp ''<b>''" "cp ''<b>'' \<noteq> []"
  "length (html_escape (cp ''<b>'')) = 9"
  by (simp_all add: clean_answer_def cp_def py_strip_def strip_by_def py_isspace_def escape_char_def)

lemma length_join_lines: "length (join_lines ls) = sum_list (map length ls) + (length ls - 1)"
  by (induction ls rule: join_lines.induct) auto

lemma sample_block_length:
  "length (intro_block ''intro-v2'' intro_v2 sample_answers) \<le> frozen_intro_body_limit"
  by (simp add: intro_block_def length_join_lines render_line_def sample_answers_def catalog_ids_def
      value_of_def intro_v2_def label_separator_def frozen_intro_body_limit_def sample_value)
    (simp add: cp_def)

lemma sample_answers_render:
  "render_intro_html sample_answers ''intro-v2'' = Inr (intro_block ''intro-v2'' intro_v2 sample_answers)"
  using sample_block_length
  by (simp add: render_iff get_intro_catalog_def)
    (simp add: sample_answers_def catalog_ids_def sample_value)

theorem render_no_markup_witness:
  "\<exists>h. render_intro_html sample_answers ''intro-v2'' = Inr h \<and> count_list h 10 = 6 \<and> 60 \<notin> set h"
proof -
  show ?thesis using sample_answers_render render_no_markup [OF sample_answers_render] by blast
qed

text \<open>
  The block determines the answers: two sets of answers of one catalog that render to the same
  block agree on every field up to normalisation, so confirming a block confirms these answers and
  no others.
\<close>

theorem render_injective:
  assumes a: "render_intro_html answers cv = Inr h" and b: "render_intro_html answers' cv = Inr h"
    and f: "f \<in> set catalog_ids"
  shows "clean_answer (value_of answers f) = clean_answer (value_of answers' f)"
proof -
  from a obtain catalog where c: "get_intro_catalog cv = Inr catalog"
    and ha: "h = intro_block cv catalog answers" by (auto simp: render_iff)
  from b c have hb: "h = intro_block cv catalog answers'" by (auto simp: render_iff)
  let ?lines = "\<lambda>as. map (render_line cv (\<lambda>f. clean_answer (value_of as f))) catalog"
  have "?lines answers = ?lines answers'"
    using ha hb block_lines(2) [OF c] unfolding intro_block_def
    by (intro join_lines_inj) (simp, blast, simp)
  moreover obtain fld where "fld \<in> set catalog" "f = field_id fld"
    using f catalog_field_ids [OF c] by (metis imageE set_map)
  ultimately have "render_line cv (\<lambda>f. clean_answer (value_of answers f)) fld =
      render_line cv (\<lambda>f. clean_answer (value_of answers' f)) fld" by simp
  then show ?thesis using \<open>f = field_id fld\<close>
    by (simp add: render_line_def) (rule html_escape_inj)
qed

theorem render_injective_witness:
  "clean_answer (value_of sample_answers ''goals'') = clean_answer (value_of (rev sample_answers) ''goals'')"
proof -
  have "mset (rev sample_answers) = mset sample_answers" by simp
  then have r: "render_intro_html (rev sample_answers) ''intro-v2'' =
      Inr (intro_block ''intro-v2'' intro_v2 sample_answers)"
    using render_mset sample_answers_render by blast
  show ?thesis using render_injective [OF sample_answers_render r, of "''goals''"]
    by (simp add: catalog_ids_def)
qed

subsection \<open>Properties of the digest\<close>

definition b64_alphabet :: "string" where
  "b64_alphabet = ''ABCDEFGHIJKLMNOPQRSTUVWXYZabcdefghijklmnopqrstuvwxyz0123456789-_''"

lemma length_b64_alphabet: "length b64_alphabet = 64"
  by (simp add: b64_alphabet_def)

lemma b64_char_in: "b64_char i \<in> set b64_alphabet"
proof -
  have "i mod 64 < length b64_alphabet" by (simp add: length_b64_alphabet)
  then show ?thesis unfolding b64_char_def b64_alphabet_def [symmetric] by (rule nth_mem)
qed

lemma b64_char_inj: "b64_char i = b64_char j \<Longrightarrow> i < 64 \<Longrightarrow> j < 64 \<Longrightarrow> i = j"
proof -
  have "distinct b64_alphabet" by (simp add: b64_alphabet_def)
  moreover assume "b64_char i = b64_char j" "i < 64" "j < 64"
  ultimately show ?thesis
    unfolding b64_char_def b64_alphabet_def [symmetric]
    by (simp add: nth_eq_iff_index_eq length_b64_alphabet)
qed

lemma urlsafe_b64_chars: "set (urlsafe_b64 bs) \<subseteq> set b64_alphabet"
  by (induction bs rule: urlsafe_b64.induct) (auto simp: b64_char_in)

lemma length_urlsafe_b64: "length (urlsafe_b64 bs) = (4 * length bs + 2) div 3"
  by (induction bs rule: urlsafe_b64.induct) auto

lemma sextet_bounds:
  fixes a b c :: nat
  shows "a < 256 \<Longrightarrow> a div 4 < 64" "b < 256 \<Longrightarrow> a mod 4 * 16 + b div 16 < 64"
    "c < 256 \<Longrightarrow> b mod 16 * 4 + c div 64 < 64" "c mod 64 < 64"
    "b mod 16 * 4 < 64" "a mod 4 * 16 < 64"
proof -
  have "a mod 4 < 4" "b mod 16 < 16" by simp_all
  moreover have "b div 16 < 16" if "b < 256" using that by (simp add: div_less_iff_less_mult)
  moreover have "c div 64 < 4" if "c < 256" using that by (simp add: div_less_iff_less_mult)
  ultimately show "b < 256 \<Longrightarrow> a mod 4 * 16 + b div 16 < 64"
    "c < 256 \<Longrightarrow> b mod 16 * 4 + c div 64 < 64" "b mod 16 * 4 < 64" "a mod 4 * 16 < 64"
    by linarith+
qed (simp_all add: div_less_iff_less_mult)

text \<open>The pieces of two neighbouring bytes determine the first of them.\<close>

lemma sextets_inj:
  fixes a b :: nat
  assumes "b < n" "b' < n" "0 < n" "k * n + b = k' * n + b'"
  shows "k = k' \<and> b = b'"
proof -
  have "k = (k * n + b) div n" "k' = (k' * n + b') div n" using assms(1-3) by simp_all
  with assms(4) show ?thesis by simp
qed

lemma byte_halves:
  fixes a b :: nat
  shows "a div n = b div n \<Longrightarrow> a mod n = b mod n \<Longrightarrow> a = b"
  by (metis div_mult_mod_eq)

lemma urlsafe_b64_inj:
  "length as = length bs \<Longrightarrow> list_all (\<lambda>b. b < 256) as \<Longrightarrow> list_all (\<lambda>b. b < 256) bs \<Longrightarrow>
   urlsafe_b64 as = urlsafe_b64 bs \<Longrightarrow> as = bs"
proof (induction as arbitrary: bs rule: urlsafe_b64.induct)
  case (1 a b c as)
  then obtain a' b' c' bs' where bs: "bs = a' # b' # c' # bs'"
    by (metis length_Suc_conv)
  have lt: "a < 256" "b < 256" "c < 256" "a' < 256" "b' < 256" "c' < 256"
    using 1(3,4) bs by simp_all
  have e: "b64_char (a div 4) = b64_char (a' div 4)"
    "b64_char (a mod 4 * 16 + b div 16) = b64_char (a' mod 4 * 16 + b' div 16)"
    "b64_char (b mod 16 * 4 + c div 64) = b64_char (b' mod 16 * 4 + c' div 64)"
    "b64_char (c mod 64) = b64_char (c' mod 64)" "urlsafe_b64 as = urlsafe_b64 bs'"
    using 1(5) unfolding bs urlsafe_b64.simps list.inject by blast+
  note s = b64_char_inj [OF e(1) sextet_bounds(1) sextet_bounds(1), OF lt(1,4)]
    b64_char_inj [OF e(2) sextet_bounds(2) sextet_bounds(2), OF lt(2,5)]
    b64_char_inj [OF e(3) sextet_bounds(3) sextet_bounds(3), OF lt(3,6)]
    b64_char_inj [OF e(4) sextet_bounds(4) sextet_bounds(4)]
  have d: "b div 16 < 16" "b' div 16 < 16" "c div 64 < 4" "c' div 64 < 4"
    using lt by (simp_all add: div_less_iff_less_mult)
  note s2 = sextets_inj [OF d(1,2) _ s(2)] and s3 = sextets_inj [OF d(3,4) _ s(3)]
  have "a = a'" "b = b'" "c = c'"
    using s s2 s3 by (auto intro: byte_halves)
  moreover have "as = bs'" using 1 e(5) bs by simp
  ultimately show ?case using bs by simp
next
  case (2 a b)
  then obtain a' b' where bs: "bs = [a', b']" by (metis length_0_conv length_Suc_conv)
  have lt: "a < 256" "b < 256" "a' < 256" "b' < 256" using 2(2,3) bs by simp_all
  have e: "b64_char (a div 4) = b64_char (a' div 4)"
    "b64_char (a mod 4 * 16 + b div 16) = b64_char (a' mod 4 * 16 + b' div 16)"
    "b64_char (b mod 16 * 4) = b64_char (b' mod 16 * 4)"
    using 2(4) unfolding bs urlsafe_b64.simps list.inject by blast+
  note s = b64_char_inj [OF e(1) sextet_bounds(1) sextet_bounds(1), OF lt(1,3)]
    b64_char_inj [OF e(2) sextet_bounds(2) sextet_bounds(2), OF lt(2,4)]
    b64_char_inj [OF e(3) sextet_bounds(5) sextet_bounds(5)]
  have d: "b div 16 < 16" "b' div 16 < 16" using lt by (simp_all add: div_less_iff_less_mult)
  note s2 = sextets_inj [OF d _ s(2)]
  have "a = a'" "b = b'" using s s2 by (auto intro: byte_halves)
  then show ?case using bs by simp
next
  case (3 a)
  then obtain a' where bs: "bs = [a']" by (metis length_0_conv length_Suc_conv)
  have e: "b64_char (a div 4) = b64_char (a' div 4)" "b64_char (a mod 4 * 16) = b64_char (a' mod 4 * 16)"
    using 3(4) unfolding bs urlsafe_b64.simps list.inject by blast+
  have lt: "a < 256" "a' < 256" using 3(2,3) bs by simp_all
  note s = b64_char_inj [OF e(1) sextet_bounds(1) sextet_bounds(1), OF lt]
    b64_char_inj [OF e(2) sextet_bounds(6) sextet_bounds(6)]
  show ?case using s bs by (auto intro: byte_halves)
next
  case 4
  then show ?case by simp
qed

text \<open>
  A confirmation digest is callback-safe and faithful to the 128 bits it carries: it has
  22 characters of the URL-safe alphabet, and two blocks have the same digest exactly when the
  first 16 bytes of their SHA-256 agree.
\<close>

theorem digest_faithful:
  assumes "\<And>bs. length (sha256 bs) = 32" and "\<And>bs. list_all (\<lambda>b. b < 256) (sha256 bs)"
  shows "length (intro_digest sha256 s) = 22 \<and> set (intro_digest sha256 s) \<subseteq> set b64_alphabet \<and>
    (intro_digest sha256 s = intro_digest sha256 t \<longleftrightarrow>
       take 16 (sha256 (utf8 s)) = take 16 (sha256 (utf8 t)))"
proof -
  have b: "list_all (\<lambda>b. b < 256) (take 16 (sha256 x))" for x
    using assms(2) [of x] by (auto simp: list_all_iff dest: in_set_takeD)
  have "length (take 16 (sha256 (utf8 s))) = length (take 16 (sha256 (utf8 t)))"
    by (simp add: assms(1))
  from urlsafe_b64_inj [OF this b b] show ?thesis
    using urlsafe_b64_chars by (auto simp: intro_digest_def length_urlsafe_b64 assms(1))
qed

theorem digest_faithful_witness:
  "length (intro_digest (\<lambda>bs. replicate 32 (length bs mod 256)) (cp ''hi'')) = 22"
  using digest_faithful [of "\<lambda>bs. replicate 32 (length bs mod 256)" "cp ''hi''"]
  by (simp add: list_all_iff)

end
