(* ===== verification/Referral.thy ===== *)
theory Referral
  imports Prelude
begin

section \<open>Referral usernames (bot/services/referral_username.py)\<close>

text \<open>
  The referral answer of the questionnaire, put in canonical \<open>@username\<close> form.
  \<open>urlsplit\<close> is Python's \<open>urllib.parse.urlsplit\<close> as far as the code reads its result.  Two
  liberties change no result: \<open>str.lower()\<close> is taken on ASCII letters only, because it is compared
  with ASCII literals none of whose characters is the lower case of a non-ASCII code point; and
  the \<open>ValueError\<close>s \<open>urlsplit\<close> raises for bracketed or non-NFKC hosts are not
  modelled, because such a host is not \<open>t.me\<close> and is answered with the same exception.
\<close>

datatype referral_error = InvalidReferralUsername

definition username_char :: "nat \<Rightarrow> bool" where
  "username_char c \<longleftrightarrow> (65 \<le> c \<and> c \<le> 90) \<or> (97 \<le> c \<and> c \<le> 122) \<or> (48 \<le> c \<and> c \<le> 57) \<or> c = 95"

definition telegram_username :: "ustr \<Rightarrow> bool" where
  "telegram_username u \<longleftrightarrow> 5 \<le> length u \<and> length u \<le> 32 \<and> list_all username_char u"

subsection \<open>Splitting a URL\<close>

record url_parts =
  up_scheme :: ustr
  up_netloc :: ustr
  up_path :: ustr
  up_fragment :: ustr

definition ascii_alpha :: "nat \<Rightarrow> bool" where
  "ascii_alpha c \<longleftrightarrow> (65 \<le> c \<and> c \<le> 90) \<or> (97 \<le> c \<and> c \<le> 122)"

definition scheme_char :: "nat \<Rightarrow> bool" where
  "scheme_char c \<longleftrightarrow> ascii_alpha c \<or> (48 \<le> c \<and> c \<le> 57) \<or> c = 43 \<or> c = 45 \<or> c = 46"

text \<open>The scheme before the first colon, when it is one.\<close>

definition split_scheme :: "ustr \<Rightarrow> ustr \<times> ustr" where
  "split_scheme u =
     (let s = takeWhile (\<lambda>c. c \<noteq> 58) u
      in if s \<noteq> [] \<and> length s < length u \<and> ascii_alpha (hd s) \<and> list_all scheme_char s
         then (ascii_lower s, drop (Suc (length s)) u) else ([], u))"

text \<open>The authority between \<open>//\<close> and the next of \<open>/\<close>, \<open>?\<close>, \<open>#\<close>.\<close>

definition host_char :: "nat \<Rightarrow> bool" where
  "host_char c \<longleftrightarrow> c \<noteq> 47 \<and> c \<noteq> 63 \<and> c \<noteq> 35"

definition split_netloc :: "ustr \<Rightarrow> ustr \<times> ustr" where
  "split_netloc u =
     (if take 2 u = [47, 47]
      then (takeWhile host_char (drop 2 u), dropWhile host_char (drop 2 u)) else ([], u))"

definition urlsplit :: "ustr \<Rightarrow> url_parts" where
  "urlsplit url =
     (let u = filter (\<lambda>c. c \<noteq> 9 \<and> c \<noteq> 10 \<and> c \<noteq> 13) (dropWhile (\<lambda>c. c \<le> 32) url);
          (scheme, r1) = split_scheme u;
          (netloc, r2) = split_netloc r1
      in \<lparr>up_scheme = scheme, up_netloc = netloc,
          up_path = takeWhile (\<lambda>c. c \<noteq> 63) (takeWhile (\<lambda>c. c \<noteq> 35) r2),
          up_fragment = drop 1 (dropWhile (\<lambda>c. c \<noteq> 35) r2)\<rparr>)"

subsection \<open>The code\<close>

definition username_from_url :: "ustr \<Rightarrow> referral_error + ustr" where
  "username_from_url value =
     (let parsed = urlsplit value in
      if ascii_lower (up_scheme parsed) \<noteq> cp ''https'' \<or> ascii_lower (up_netloc parsed) \<noteq> cp ''t.me''
      then Inl InvalidReferralUsername
      else let username = strip_by (\<lambda>c. c = 47) (up_path parsed) in
        if username = [] \<or> 47 \<in> set username \<or> up_fragment parsed \<noteq> []
        then Inl InvalidReferralUsername
        else Inr username)"

definition starts_with_lower :: "string \<Rightarrow> ustr \<Rightarrow> bool" where
  "starts_with_lower p value \<longleftrightarrow> take (length p) (ascii_lower value) = cp p"

definition normalize_referral_username :: "ustr \<Rightarrow> referral_error + ustr" where
  "normalize_referral_username raw =
     (let value = py_strip raw in
      if value = [] then Inl InvalidReferralUsername
      else bindE
        (if hd value = 64 then Inr (tl value)
         else if starts_with_lower ''t.me/'' value then username_from_url (cp ''https://'' @ value)
         else if starts_with_lower ''https://'' value then username_from_url value
         else Inr value)
        (\<lambda>username. if telegram_username username then Inr (64 # ascii_lower username)
                    else Inl InvalidReferralUsername))"

definition is_concrete_referral :: "ustr option \<Rightarrow> bool" where
  "is_concrete_referral value =
     (case value of
        None \<Rightarrow> False
      | Some v \<Rightarrow> if py_strip v = [] then False else is_ok (normalize_referral_username v))"

subsection \<open>Usernames\<close>

lemma username_char_lower [simp]:
  "username_char (if 65 \<le> c \<and> c \<le> 90 then c + 32 else c) \<longleftrightarrow> username_char c"
  by (auto simp: username_char_def)

lemma telegram_username_lower [simp]: "telegram_username (ascii_lower u) \<longleftrightarrow> telegram_username u"
  by (simp add: telegram_username_def ascii_lower_def list_all_length)

lemma ascii_lower_idem [simp]: "ascii_lower (ascii_lower u) = ascii_lower u"
  by (simp add: ascii_lower_def)

lemma ascii_lower_append [simp]: "ascii_lower (u @ v) = ascii_lower u @ ascii_lower v"
  by (simp add: ascii_lower_def)

lemma ascii_lower_eq_Nil [simp]: "ascii_lower u = [] \<longleftrightarrow> u = []"
  by (simp add: ascii_lower_def)

lemma length_ascii_lower [simp]: "length (ascii_lower u) = length u"
  by (simp add: ascii_lower_def)

lemma username_not_space: "username_char c \<Longrightarrow> \<not> py_isspace c"
  by (auto simp: username_char_def py_isspace_def)

lemma username_set: "telegram_username u \<Longrightarrow> c \<in> set u \<Longrightarrow> username_char c"
  by (auto simp: telegram_username_def list_all_iff)

lemma username_nonempty: "telegram_username u \<Longrightarrow> u \<noteq> []"
  by (auto simp: telegram_username_def)

lemma username_last: "telegram_username u \<Longrightarrow> \<not> py_isspace (last u)"
  using username_set username_nonempty username_not_space last_in_set by blast

lemma username_hd: "telegram_username u \<Longrightarrow> username_char (hd u)"
  using username_set username_nonempty hd_in_set by blast

text \<open>A value that starts and ends with visible characters is its own \<open>strip\<close>.\<close>

lemma py_strip_visible: "u = [] \<or> (\<not> py_isspace (hd u) \<and> \<not> py_isspace (last u)) \<Longrightarrow> py_strip u = u"
  by (simp add: py_strip_def strip_by_id)

lemma not_starts_with:
  assumes u: "telegram_username u" and p: "\<exists>c \<in> set (cp p). \<not> username_char c" and l: "length p \<le> 8"
  shows "\<not> starts_with_lower p u"
proof
  assume "starts_with_lower p u"
  then have eq: "take (length p) (ascii_lower u) = cp p" by (simp add: starts_with_lower_def)
  from p obtain c where c: "c \<in> set (cp p)" "\<not> username_char c" by blast
  then have "c \<in> set (ascii_lower u)" using eq by (metis in_set_takeD)
  then have "username_char c" using u telegram_username_lower username_set by blast
  with c show False by simp
qed

lemma normalize_plain:
  assumes u: "telegram_username u"
  shows "normalize_referral_username u = Inr (64 # ascii_lower u)"
proof -
  have h: "\<not> py_isspace (hd u)" "hd u \<noteq> 64"
    using username_hd [OF u] username_not_space by (auto simp: username_char_def)
  have s: "py_strip u = u" using h username_last [OF u] by (simp add: py_strip_visible)
  have t: "\<not> starts_with_lower ''t.me/'' u"
    by (rule not_starts_with [OF u]) (simp_all add: cp_def username_char_def)
  have w: "\<not> starts_with_lower ''https://'' u"
    by (rule not_starts_with [OF u]) (simp_all add: cp_def username_char_def)
  show ?thesis using u h s t w username_nonempty [OF u]
    by (simp add: normalize_referral_username_def Let_def)
qed

lemma normalize_at:
  assumes u: "telegram_username u"
  shows "normalize_referral_username (64 # u) = Inr (64 # ascii_lower u)"
proof -
  have "py_strip (64 # u) = 64 # u"
    using username_last [OF u] username_nonempty [OF u]
    by (intro py_strip_visible) (simp add: py_isspace_def)
  with u show ?thesis by (simp add: normalize_referral_username_def Let_def)
qed

subsection \<open>Profile links\<close>

lemma username_url_chars:
  assumes u: "telegram_username u"
  shows "filter (\<lambda>c. c \<noteq> 9 \<and> c \<noteq> 10 \<and> c \<noteq> 13) u = u"
    and "takeWhile (\<lambda>c. c \<noteq> 35) u = u" and "takeWhile (\<lambda>c. c \<noteq> 63) u = u"
    and "dropWhile (\<lambda>c. c \<noteq> 35) u = []" and "47 \<notin> set u" and "strip_by (\<lambda>c. c = 47) u = u"
proof -
  have *: "c \<noteq> 9 \<and> c \<noteq> 10 \<and> c \<noteq> 13 \<and> c \<noteq> 35 \<and> c \<noteq> 63 \<and> c \<noteq> 47" if "c \<in> set u" for c
    using username_set [OF u that] by (auto simp: username_char_def)
  show "filter (\<lambda>c. c \<noteq> 9 \<and> c \<noteq> 10 \<and> c \<noteq> 13) u = u" using * by (simp add: filter_id_conv)
  show "takeWhile (\<lambda>c. c \<noteq> 35) u = u" "takeWhile (\<lambda>c. c \<noteq> 63) u = u"
    using * by (auto simp: takeWhile_eq_all_conv)
  show "dropWhile (\<lambda>c. c \<noteq> 35) u = []" using * by (auto simp: dropWhile_eq_Nil_conv)
  show "47 \<notin> set u" using * by blast
  show "strip_by (\<lambda>c. c = 47) u = u"
    using * username_nonempty [OF u] hd_in_set last_in_set by (intro strip_by_id) blast
qed

lemma urlsplit_profile:
  assumes u: "telegram_username u"
  shows "urlsplit (cp ''https://t.me/'' @ u) =
    \<lparr>up_scheme = cp ''https'', up_netloc = cp ''t.me'', up_path = 47 # u, up_fragment = []\<rparr>"
  by (simp add: urlsplit_def split_scheme_def split_netloc_def host_char_def scheme_char_def
      ascii_alpha_def ascii_lower_def cp_def username_url_chars [OF u])

lemma username_from_profile:
  assumes u: "telegram_username u"
  shows "username_from_url (cp ''https://t.me/'' @ u) = Inr u"
proof -
  have "strip_by (\<lambda>c. c = 47) (47 # u) = strip_by (\<lambda>c. c = 47) u"
    by (simp add: strip_by_def)
  moreover have "ascii_lower (cp ''https'') = cp ''https''" "ascii_lower (cp ''t.me'') = cp ''t.me''"
    by (simp_all add: cp_def ascii_lower_def)
  ultimately show ?thesis
    using username_url_chars [OF u] username_nonempty [OF u]
    by (simp add: username_from_url_def urlsplit_profile [OF u] Let_def)
qed

lemma normalize_tme:
  assumes u: "telegram_username u"
  shows "normalize_referral_username (cp ''t.me/'' @ u) = Inr (64 # ascii_lower u)"
proof -
  have s: "py_strip (cp ''t.me/'' @ u) = cp ''t.me/'' @ u"
    using username_last [OF u] username_nonempty [OF u]
    by (intro py_strip_visible) (simp add: cp_def py_isspace_def)
  have p: "username_from_url (cp ''https://'' @ cp ''t.me/'' @ u) = Inr u"
    using username_from_profile [OF u] by (simp add: cp_def)
  have t: "starts_with_lower ''t.me/'' (cp ''t.me/'' @ u)"
    by (simp add: starts_with_lower_def cp_def ascii_lower_def)
  have h: "hd (cp ''t.me/'' @ u) \<noteq> 64" "cp ''t.me/'' \<noteq> []" by (simp_all add: cp_def)
  show ?thesis using u s h t p
    by (simp add: normalize_referral_username_def Let_def)
qed

lemma normalize_https:
  assumes u: "telegram_username u"
  shows "normalize_referral_username (cp ''https://t.me/'' @ u) = Inr (64 # ascii_lower u)"
proof -
  have s: "py_strip (cp ''https://t.me/'' @ u) = cp ''https://t.me/'' @ u"
    using username_last [OF u] username_nonempty [OF u]
    by (intro py_strip_visible) (simp add: cp_def py_isspace_def)
  have t: "starts_with_lower ''https://'' (cp ''https://t.me/'' @ u)"
    "\<not> starts_with_lower ''t.me/'' (cp ''https://t.me/'' @ u)"
    by (simp_all add: starts_with_lower_def cp_def ascii_lower_def)
  have h: "hd (cp ''https://t.me/'' @ u) \<noteq> 64" "cp ''https://t.me/'' \<noteq> []" by (simp_all add: cp_def)
  show ?thesis using u s h t username_from_profile [OF u]
    by (simp add: normalize_referral_username_def Let_def)
qed

subsection \<open>Correctness\<close>

lemma normalize_shape:
  assumes "normalize_referral_username raw = Inr v"
  obtains u where "v = 64 # u" "telegram_username u" "ascii_lower u = u"
  using assms
  by (auto simp: normalize_referral_username_def Let_def bindE_Inr_iff
      split: if_splits)

lemma concrete_iff: "is_concrete_referral (Some v) \<longleftrightarrow> is_ok (normalize_referral_username v)"
  by (auto simp: is_concrete_referral_def normalize_referral_username_def)

text \<open>
  C40. Whatever an applicant types, an accepted referral is stored as \<open>@\<close> followed by 5 to 32
  lower-case username characters, and normalising the stored form again returns it unchanged.
\<close>

theorem referral_canonical:
  assumes "normalize_referral_username raw = Inr v"
  shows "hd v = 64 \<and> telegram_username (tl v) \<and> ascii_lower v = v \<and>
    normalize_referral_username v = Inr v"
  using assms
  by (elim normalize_shape) (auto simp: normalize_at ascii_lower_def)

theorem referral_canonical_witness:
  "normalize_referral_username (cp '' @Vasya_99 '') = Inr (cp ''@vasya_99'') \<and>
   normalize_referral_username (cp ''@vasya_99'') = Inr (cp ''@vasya_99'')"
proof -
  have raw: "normalize_referral_username (cp '' @Vasya_99 '') = Inr (cp ''@vasya_99'')"
    by (simp add: normalize_referral_username_def py_strip_def strip_by_def py_isspace_def cp_def
        telegram_username_def username_char_def ascii_lower_def Let_def)
  show ?thesis using raw referral_canonical [OF raw] by simp
qed

text \<open>
  The four ways to name the same account (\<open>Name\<close>, \<open>@Name\<close>, \<open>t.me/Name\<close> and
  \<open>https://t.me/Name\<close>) are accepted for every valid username and give the same stored value.
\<close>

theorem referral_forms_agree:
  assumes "telegram_username u"
  shows "\<forall>raw \<in> {u, 64 # u, cp ''t.me/'' @ u, cp ''https://t.me/'' @ u}.
    normalize_referral_username raw = Inr (64 # ascii_lower u) \<and> is_concrete_referral (Some raw)"
  using normalize_plain [OF assms] normalize_at [OF assms] normalize_tme [OF assms]
    normalize_https [OF assms]
  by (simp add: concrete_iff)

theorem referral_forms_agree_witness:
  "normalize_referral_username (cp ''t.me/Alice'') = Inr (cp ''@alice'')"
proof -
  have "telegram_username (cp ''Alice'')"
    by (simp add: telegram_username_def username_char_def cp_def)
  from referral_forms_agree [OF this]
  show ?thesis by (simp add: cp_def ascii_lower_def)
qed

end
