(* ===== verification/IntroModels.thy ===== *)
theory IntroModels
  imports IntroContract Referral
begin

section \<open>The onboarding tables (bot/db/models.py) and their repositories (bot/db/repos)\<close>

text \<open>
  One record per ORM class the onboarding flow uses, with the columns it reads or writes; surrogate
  keys and timestamps nothing reads are left out.  Status columns are datatypes with the values
  the CHECK constraints allow.  A repository method is a function on the database record; a unique
  index is checked where a row is inserted, and its violation is the \<open>IntegrityError\<close> the driver
  raises.  Every handler runs in one transaction with row locks, so a method sees and leaves a
  whole database.
\<close>

subsection \<open>Rows\<close>

datatype app_status =
  Filling | Confirmed | Delivery_failed | Pending | Vouched | Added | Rejected | Privacy_block

datatype flow_kind = Admission | Refresh

record user =
  u_id :: int
  username :: "ustr option"
  first_name :: ustr
  last_name :: "ustr option"
  is_member :: bool
  is_admin :: bool
  joined_at :: "int option"
  left_at :: "int option"
  is_imported_only :: bool
  is_bot :: "bool option"

record application =
  app_id :: int
  app_user_id :: int
  status :: app_status
  app_flow_kind :: "flow_kind option"
  base_application_id :: "int option"
  catalog_version :: string
  confirmed_intro_html :: "ustr option"
  questionnaire_message_id :: "int option"
  vouched_by :: "int option"
  vouched_at :: "int option"
  invite_user_id :: "int option"
  notified_admin_at :: "int option"
  nudged_newcomer_at :: "int option"
  rejected_at :: "int option"
  added_at :: "int option"
  submitted_at :: "int option"
  created_at :: int

record questionnaire_answer =
  qa_user_id :: int
  qa_application_id :: int
  qa_question_index :: nat
  qa_question_text :: ustr
  answer_text :: ustr
  qa_field_id :: "string option"
  is_current :: bool

record intro =
  in_user_id :: int
  intro_text :: ustr
  vouched_by_name :: ustr
  in_application_id :: "int option"
  in_updated_at :: int

datatype effect_kind = Candidate_card | Admission_intro | Member_intro | Refresh_intro | Sheet_projection

datatype effect_status = E_pending | E_processing | E_sent | E_unknown | E_failed | E_stale

record intro_effect =
  ef_id :: int
  ef_application_id :: int
  ef_kind :: effect_kind
  ef_status :: effect_status
  ef_chat_id :: "int option"
  ef_message_id :: "int option"
  attempt_count :: nat
  attempt_started_at :: "int option"
  ef_last_error :: "ustr option"
  completed_at :: "int option"

datatype reconcile_action = Record_sent | Retry_absent

record reconciliation =
  rc_effect_id :: int
  rc_attempt_count :: nat
  rc_action :: reconcile_action
  rc_reason :: ustr
  rc_evidence :: "string option"
  rc_chat_id :: "int option"
  rc_message_id :: "int option"
  rc_operator :: int

datatype tracking_phase =
  T_claimed | T_offer_sent | T_declined | T_accepted | T_cancelled | T_started | T_send_failed | T_done

record refresh_tracking =
  tr_id :: int
  tr_user_id :: int
  cycle_started_at :: int
  reminders_sent :: nat
  last_reminder_at :: "int option"
  phase :: tracking_phase
  tr_completed :: bool

record vouch_log =
  voucher_id :: int
  vouchee_id :: int
  vl_application_id :: int

datatype invite_status = Iv_pending | Iv_sent | Iv_failed

record invite =
  iv_id :: int
  iv_application_id :: int
  iv_user_id :: int
  iv_chat_id :: int
  iv_status :: invite_status
  invite_link :: "ustr option"
  iv_attempt_count :: nat
  iv_last_error :: "ustr option"
  sent_at :: "int option"

record db =
  users :: "user list"
  applications :: "application list"
  answers :: "questionnaire_answer list"
  intros :: "intro list"
  effects :: "intro_effect list"
  reconciliations :: "reconciliation list"
  trackings :: "refresh_tracking list"
  vouches :: "vouch_log list"
  invites :: "invite list"
  next_app_id :: int
  next_effect_id :: int
  next_tracking_id :: int
  next_invite_id :: int

subsection \<open>The CHECK constraints and unique indexes\<close>

definition ck_application :: "application \<Rightarrow> bool" where
  "ck_application a \<longleftrightarrow>
     (app_flow_kind a \<noteq> None \<or> status a \<in> {Added, Rejected}) \<and>
     (base_application_id a = None \<or> app_flow_kind a = Some Refresh) \<and>
     catalog_version a \<in> {''legacy-v1'', ''intro-v2''} \<and>
     (status a = Filling \<or> confirmed_intro_html a \<noteq> None \<or>
        (catalog_version a = ''legacy-v1'' \<and> app_flow_kind a = None \<and> status a \<in> {Added, Rejected}))"

definition active_refresh :: "application \<Rightarrow> bool" where
  "active_refresh a \<longleftrightarrow> app_flow_kind a = Some Refresh \<and> status a \<in> {Filling, Confirmed}"

definition ck_effect :: "intro_effect \<Rightarrow> bool" where
  "ck_effect e \<longleftrightarrow>
     (ef_message_id e = None \<or> ef_chat_id e \<noteq> None) \<and>
     (ef_status e \<notin> {E_processing, E_unknown} \<or> attempt_count e > 0 \<and> attempt_started_at e \<noteq> None) \<and>
     (ef_kind e \<noteq> Sheet_projection \<or> ef_status e \<noteq> E_unknown)"

definition effect_key :: "intro_effect \<Rightarrow> int \<times> effect_kind" where
  "effect_key e = (ef_application_id e, ef_kind e)"

text \<open>The columns of \<open>uq_intro_effect_outbox_telegram_identity\<close>, where it applies.\<close>

definition telegram_identity :: "intro_effect \<Rightarrow> (int \<times> int) option" where
  "telegram_identity e =
     (case (ef_chat_id e, ef_message_id e) of (Some chat, Some msg) \<Rightarrow> Some (chat, msg) | _ \<Rightarrow> None)"

lemma telegram_identity_frame [simp]:
  "telegram_identity (ef_status_update f e) = telegram_identity e"
  "telegram_identity (attempt_count_update g e) = telegram_identity e"
  "telegram_identity (attempt_started_at_update h e) = telegram_identity e"
  "telegram_identity (ef_last_error_update k e) = telegram_identity e"
  "telegram_identity (completed_at_update h e) = telegram_identity e"
  by (simp_all add: telegram_identity_def)

subsection \<open>Exceptions\<close>

datatype intro_error =
  IntroWorkflowError string
| InvalidReferralAnswer
| IntegrityError string
| ContractError intro_contract_error
| ValueErr string
| IntroEffectReconcileError string

subsection \<open>UserRepo\<close>

definition user_get :: "db \<Rightarrow> int \<Rightarrow> user option" where
  "user_get s uid = fetch u_id uid (users s)"

definition user_upsert ::
  "int \<Rightarrow> ustr option \<Rightarrow> ustr \<Rightarrow> ustr option \<Rightarrow> bool option \<Rightarrow> db \<Rightarrow> db" where
  "user_upsert uid uname first lst isbot s =
     (case user_get s uid of
        None \<Rightarrow> s\<lparr>users := users s @
          [\<lparr>u_id = uid, username = uname, first_name = first, last_name = lst,
            is_member = False, is_admin = False, joined_at = None, left_at = None,
            is_imported_only = False, is_bot = isbot\<rparr>]\<rparr>
      | Some _ \<Rightarrow> s\<lparr>users := update_where (\<lambda>u. u_id u = uid)
          (\<lambda>u. u\<lparr>username := uname, first_name := first, last_name := lst, is_imported_only := False,
                 is_bot := (if isbot = None then is_bot u else isbot)\<rparr>) (users s)\<rparr>)"

definition set_member :: "int \<Rightarrow> bool \<Rightarrow> int option \<Rightarrow> int option \<Rightarrow> db \<Rightarrow> db" where
  "set_member uid mem joined lft s =
     s\<lparr>users := update_where (\<lambda>u. u_id u = uid)
        (\<lambda>u. u\<lparr>is_member := mem,
               joined_at := (if joined = None then joined_at u else joined),
               left_at := (if lft = None then left_at u else lft)\<rparr>) (users s)\<rparr>"

subsection \<open>ApplicationRepo\<close>

definition app_get :: "db \<Rightarrow> int \<Rightarrow> application option" where
  "app_get s aid = fetch app_id aid (applications s)"

definition app_update :: "int \<Rightarrow> (application \<Rightarrow> application) \<Rightarrow> db \<Rightarrow> db" where
  "app_update aid f s = s\<lparr>applications := update_where (\<lambda>a. app_id a = aid) f (applications s)\<rparr>"

definition new_application ::
  "int \<Rightarrow> int \<Rightarrow> flow_kind \<Rightarrow> int option \<Rightarrow> string \<Rightarrow> int \<Rightarrow> application" where
  "new_application aid uid kind base catalog now =
     \<lparr>app_id = aid, app_user_id = uid, status = Filling, app_flow_kind = Some kind,
      base_application_id = base, catalog_version = catalog, confirmed_intro_html = None,
      questionnaire_message_id = None, vouched_by = None, vouched_at = None, invite_user_id = None,
      notified_admin_at = None, nudged_newcomer_at = None, rejected_at = None, added_at = None,
      submitted_at = None, created_at = now\<rparr>"

definition app_create ::
  "int \<Rightarrow> flow_kind \<Rightarrow> int option \<Rightarrow> string \<Rightarrow> int \<Rightarrow> db \<Rightarrow> intro_error + application \<times> db" where
  "app_create uid kind base catalog now s =
     (if kind = Admission \<and> base \<noteq> None
      then Inl (ValueErr ''Admission application cannot have a base application'')
      else if \<not> is_ok (get_intro_catalog catalog)
      then Inl (ValueErr ''Unknown application catalog version'')
      else let a = new_application (next_app_id s) uid kind base catalog now in
        if active_refresh a \<and> list_ex (\<lambda>b. app_user_id b = uid \<and> active_refresh b) (applications s)
        then Inl (IntegrityError ''uq_applications_active_refresh'')
        else Inr (a, s\<lparr>applications := applications s @ [a], next_app_id := next_app_id s + 1\<rparr>))"

definition app_get_active :: "db \<Rightarrow> int \<Rightarrow> bool \<Rightarrow> application option" where
  "app_get_active s uid include_added =
     latest_by created_at
       (filter (\<lambda>a. app_user_id a = uid \<and>
          (app_flow_kind a = Some Admission \<and>
             status a \<in> {Filling, Confirmed, Pending, Privacy_block, Vouched} \<union>
               (if include_added then {Added} else {}) \<or>
           include_added \<and> app_flow_kind a = None \<and> status a = Added)) (applications s))"

definition app_get_active_refresh :: "db \<Rightarrow> int \<Rightarrow> application option" where
  "app_get_active_refresh s uid =
     latest_by created_at (filter (\<lambda>a. app_user_id a = uid \<and> active_refresh a) (applications s))"

definition app_update_status_if ::
  "int \<Rightarrow> app_status \<Rightarrow> app_status \<Rightarrow> (application \<Rightarrow> application) \<Rightarrow> db \<Rightarrow> bool \<times> db" where
  "app_update_status_if aid expected_from new_status extra s =
     (list_ex (\<lambda>a. app_id a = aid \<and> status a = expected_from) (applications s),
      s\<lparr>applications := update_where (\<lambda>a. app_id a = aid \<and> status a = expected_from)
          (\<lambda>a. extra (a\<lparr>status := new_status\<rparr>)) (applications s)\<rparr>)"

definition coalesce :: "'a option \<Rightarrow> 'a \<Rightarrow> 'a" where
  "coalesce x y = (case x of None \<Rightarrow> y | Some v \<Rightarrow> v)"

definition get_pending_older_than :: "db \<Rightarrow> int \<Rightarrow> int \<Rightarrow> application list" where
  "get_pending_older_than s now hours =
     filter (\<lambda>a. status a = Pending \<and> coalesce (submitted_at a) (created_at a) < now - 3600 * hours)
       (applications s)"

definition get_pending_created_older_than :: "db \<Rightarrow> int \<Rightarrow> int \<Rightarrow> application list" where
  "get_pending_created_older_than s now hours =
     filter (\<lambda>a. status a = Pending \<and> created_at a < now - 3600 * hours) (applications s)"

subsection \<open>QuestionnaireRepo\<close>

definition qa_save ::
  "int \<Rightarrow> int \<Rightarrow> string \<Rightarrow> nat \<Rightarrow> ustr \<Rightarrow> ustr \<Rightarrow> db \<Rightarrow> intro_error + db" where
  "qa_save uid aid fid idx qtext atext s =
     (if list_ex (\<lambda>q. qa_application_id q = aid \<and> qa_field_id q = Some fid) (answers s)
      then Inl (IntegrityError ''uq_questionnaire_answers_application_field'')
      else Inr (s\<lparr>answers := answers s @
        [\<lparr>qa_user_id = uid, qa_application_id = aid, qa_question_index = idx, qa_question_text = qtext,
          answer_text = atext, qa_field_id = Some fid, is_current = True\<rparr>]\<rparr>))"

definition qa_get_by_application :: "db \<Rightarrow> int \<Rightarrow> questionnaire_answer list" where
  "qa_get_by_application s aid =
     sort_key qa_question_index (filter (\<lambda>q. qa_application_id q = aid \<and> is_current q) (answers s))"

definition qa_delete_current :: "int \<Rightarrow> db \<Rightarrow> db" where
  "qa_delete_current aid s =
     s\<lparr>answers := delete_where (\<lambda>q. qa_application_id q = aid \<and> is_current q) (answers s)\<rparr>"

subsection \<open>IntroRepo\<close>

definition intro_get :: "db \<Rightarrow> int \<Rightarrow> intro option" where
  "intro_get s uid = fetch in_user_id uid (intros s)"

definition intro_add :: "int \<Rightarrow> int \<Rightarrow> ustr \<Rightarrow> ustr \<Rightarrow> int \<Rightarrow> db \<Rightarrow> db" where
  "intro_add uid aid txt vname now s = s\<lparr>intros := intros s @
     [\<lparr>in_user_id = uid, intro_text = txt, vouched_by_name = vname,
       in_application_id = Some aid, in_updated_at = now\<rparr>]\<rparr>"

definition promote_if_current ::
  "int \<Rightarrow> int option \<Rightarrow> int \<Rightarrow> ustr \<Rightarrow> int \<Rightarrow> db \<Rightarrow> bool \<times> db" where
  "promote_if_current uid base aid txt now s =
     (list_ex (\<lambda>i. in_user_id i = uid \<and> in_application_id i = base) (intros s),
      s\<lparr>intros := update_where (\<lambda>i. in_user_id i = uid \<and> in_application_id i = base)
         (\<lambda>i. i\<lparr>in_application_id := Some aid, intro_text := txt, in_updated_at := now\<rparr>) (intros s)\<rparr>)"

text \<open>\<open>max(last_reminder_at)\<close> over a user's waves, when it was ever reminded.\<close>

definition last_prompt_at :: "db \<Rightarrow> int \<Rightarrow> int option" where
  "last_prompt_at s uid =
     (let ts = List.map_filter (\<lambda>t. if tr_user_id t = uid then last_reminder_at t else None) (trackings s)
      in if ts = [] then None else Some (foldr max ts (hd ts)))"

definition get_refresh_wave_candidates :: "db \<Rightarrow> int \<Rightarrow> intro list" where
  "get_refresh_wave_candidates s cutoff =
     sort_key in_user_id (filter (\<lambda>i.
       (case user_get s (in_user_id i) of None \<Rightarrow> False | Some u \<Rightarrow> is_member u) \<and>
       \<not> list_ex (\<lambda>a. app_user_id a = in_user_id i \<and> active_refresh a) (applications s) \<and>
       coalesce (last_prompt_at s (in_user_id i)) (in_updated_at i) \<le> cutoff) (intros s))"

subsection \<open>IntroEffectOutboxRepo\<close>

definition new_effect :: "int \<Rightarrow> int \<Rightarrow> effect_kind \<Rightarrow> intro_effect" where
  "new_effect eid aid kind =
     \<lparr>ef_id = eid, ef_application_id = aid, ef_kind = kind, ef_status = E_pending,
      ef_chat_id = None, ef_message_id = None, attempt_count = 0, attempt_started_at = None,
      ef_last_error = None, completed_at = None\<rparr>"

definition effect_exists :: "db \<Rightarrow> int \<Rightarrow> effect_kind \<Rightarrow> bool" where
  "effect_exists s aid kind = list_ex (\<lambda>e. effect_key e = (aid, kind)) (effects s)"

definition effect_append :: "int \<Rightarrow> effect_kind \<Rightarrow> db \<Rightarrow> db" where
  "effect_append aid kind s =
     s\<lparr>effects := effects s @ [new_effect (next_effect_id s) aid kind],
       next_effect_id := next_effect_id s + 1\<rparr>"

text \<open>\<open>session.add\<close> of a new row: the unique index on (application, kind) applies.\<close>

definition effect_add :: "int \<Rightarrow> effect_kind \<Rightarrow> db \<Rightarrow> intro_error + db" where
  "effect_add aid kind s =
     (if effect_exists s aid kind then Inl (IntegrityError ''uq_intro_effect_outbox_application_kind'')
      else Inr (effect_append aid kind s))"

text \<open>\<open>INSERT .. ON CONFLICT DO NOTHING\<close>.\<close>

definition enqueue_once :: "int \<Rightarrow> effect_kind \<Rightarrow> db \<Rightarrow> db" where
  "enqueue_once aid kind s = (if effect_exists s aid kind then s else effect_append aid kind s)"

definition effect_update :: "int \<Rightarrow> (intro_effect \<Rightarrow> intro_effect) \<Rightarrow> db \<Rightarrow> db" where
  "effect_update eid f s = s\<lparr>effects := update_where (\<lambda>e. ef_id e = eid) f (effects s)\<rparr>"

text \<open>Another row has the message: an UPDATE that writes it violates the unique index.\<close>

definition identity_taken :: "db \<Rightarrow> int \<Rightarrow> int \<Rightarrow> int \<Rightarrow> bool" where
  "identity_taken s eid chat msg =
     list_ex (\<lambda>e. ef_id e \<noteq> eid \<and> telegram_identity e = Some (chat, msg)) (effects s)"

definition ensure_projection_pending :: "int \<Rightarrow> db \<Rightarrow> db" where
  "ensure_projection_pending aid s =
     (case fetch effect_key (aid, Sheet_projection) (effects s) of
        None \<Rightarrow> effect_append aid Sheet_projection s
      | Some e \<Rightarrow>
          if ef_status e \<in> {E_sent, E_failed, E_stale}
          then effect_update (ef_id e)
            (\<lambda>e. e\<lparr>ef_status := E_pending, attempt_count := 0, attempt_started_at := None,
                   ef_last_error := None, completed_at := None\<rparr>) s
          else s)"

definition claim_candidates :: "bool \<Rightarrow> int option \<Rightarrow> int list \<Rightarrow> db \<Rightarrow> intro_effect list" where
  "claim_candidates include_sheet high_watermark excluded s =
     sort_key ef_id (filter (\<lambda>e. ef_status e = E_pending \<and>
       (include_sheet \<or> ef_kind e \<noteq> Sheet_projection) \<and>
       (case high_watermark of None \<Rightarrow> True | Some w \<Rightarrow> ef_id e \<le> w) \<and>
       ef_id e \<notin> set excluded) (effects s))"

definition claim_row :: "int \<Rightarrow> intro_effect \<Rightarrow> intro_effect" where
  "claim_row now e = e\<lparr>ef_status := E_processing, attempt_count := Suc (attempt_count e),
     attempt_started_at := Some now, ef_last_error := None\<rparr>"

definition claim_pending ::
  "nat \<Rightarrow> bool \<Rightarrow> int option \<Rightarrow> int list \<Rightarrow> int \<Rightarrow> db \<Rightarrow> intro_effect list \<times> db" where
  "claim_pending lim include_sheet high_watermark excluded now s =
     (let claimed = take lim (claim_candidates include_sheet high_watermark excluded s)
      in (map (claim_row now) claimed,
          s\<lparr>effects := update_where (\<lambda>e. ef_id e \<in> set (map ef_id claimed)) (claim_row now) (effects s)\<rparr>))"

definition get_claimed_for_update :: "db \<Rightarrow> int \<Rightarrow> nat \<Rightarrow> intro_effect option" where
  "get_claimed_for_update s eid attempt =
     List.find (\<lambda>e. ef_id e = eid \<and> ef_status e = E_processing \<and> attempt_count e = attempt) (effects s)"

definition claim_expired :: "int \<Rightarrow> intro_effect \<Rightarrow> bool" where
  "claim_expired older_than e \<longleftrightarrow> ef_status e = E_processing \<and>
     (case attempt_started_at e of None \<Rightarrow> False | Some t \<Rightarrow> t < older_than)"

definition mark_stale_processing_unknown :: "int \<Rightarrow> db \<Rightarrow> nat \<times> db" where
  "mark_stale_processing_unknown older_than s =
     (let tg = (\<lambda>e. claim_expired older_than e \<and> ef_kind e \<noteq> Sheet_projection);
          s1 = update_where tg
            (\<lambda>e. e\<lparr>ef_status := E_unknown, ef_last_error := Some (cp ''processing claim expired'')\<rparr>) (effects s);
          sh = (\<lambda>e. claim_expired older_than e \<and> ef_kind e = Sheet_projection);
          s2 = update_where sh
            (\<lambda>e. e\<lparr>ef_status := E_pending, ef_last_error := Some (cp ''processing claim expired'')\<rparr>) s1
      in (length (filter tg (effects s)) + length (filter sh s1), s\<lparr>effects := s2\<rparr>))"

definition pending_high_watermark :: "db \<Rightarrow> int option" where
  "pending_high_watermark s = map_option ef_id (latest_by ef_id (effects s))"

subsection \<open>InviteOutboxRepo and VouchRepo\<close>

definition invite_create_pending :: "int \<Rightarrow> int \<Rightarrow> int \<Rightarrow> db \<Rightarrow> intro_error + db" where
  "invite_create_pending aid uid chat s =
     (if list_ex (\<lambda>i. iv_application_id i = aid \<and> iv_status i = Iv_pending) (invites s)
      then Inl (IntegrityError ''ix_invite_outbox_pending_unique'')
      else Inr (s\<lparr>invites := invites s @
          [\<lparr>iv_id = next_invite_id s, iv_application_id = aid, iv_user_id = uid, iv_chat_id = chat,
            iv_status = Iv_pending, invite_link = None, iv_attempt_count = 0, iv_last_error = None,
            sent_at = None\<rparr>],
        next_invite_id := next_invite_id s + 1\<rparr>))"

definition invite_get_pending :: "db \<Rightarrow> nat \<Rightarrow> invite list" where
  "invite_get_pending s lim = take lim (filter (\<lambda>i. iv_status i = Iv_pending) (invites s))"

definition invite_update :: "int \<Rightarrow> (invite \<Rightarrow> invite) \<Rightarrow> db \<Rightarrow> db" where
  "invite_update iid f s = s\<lparr>invites := update_where (\<lambda>i. iv_id i = iid) f (invites s)\<rparr>"

definition vouch_create :: "int \<Rightarrow> int \<Rightarrow> int \<Rightarrow> db \<Rightarrow> db" where
  "vouch_create voucher vouchee aid s =
     s\<lparr>vouches := vouches s @ [\<lparr>voucher_id = voucher, vouchee_id = vouchee, vl_application_id = aid\<rparr>]\<rparr>"

subsection \<open>The tables as keyed tables\<close>

interpretation usr: keyed_table u_id "\<lambda>t k. fetch u_id k t"
  "\<lambda>k f. update_where (\<lambda>r. u_id r = k) f" "\<lambda>r t. t @ [r]"
  by (rule keyed_table_fetch)

interpretation app: keyed_table app_id "\<lambda>t k. fetch app_id k t"
  "\<lambda>k f. update_where (\<lambda>r. app_id r = k) f" "\<lambda>r t. t @ [r]"
  by (rule keyed_table_fetch)

interpretation itr: keyed_table in_user_id "\<lambda>t k. fetch in_user_id k t"
  "\<lambda>k f. update_where (\<lambda>r. in_user_id r = k) f" "\<lambda>r t. t @ [r]"
  by (rule keyed_table_fetch)

interpretation eff: keyed_table ef_id "\<lambda>t k. fetch ef_id k t"
  "\<lambda>k f. update_where (\<lambda>r. ef_id r = k) f" "\<lambda>r t. t @ [r]"
  by (rule keyed_table_fetch)

interpretation inv: keyed_table iv_id "\<lambda>t k. fetch iv_id k t"
  "\<lambda>k f. update_where (\<lambda>r. iv_id r = k) f" "\<lambda>r t. t @ [r]"
  by (rule keyed_table_fetch)

interpretation trk: keyed_table tr_id "\<lambda>t k. fetch tr_id k t"
  "\<lambda>k f. update_where (\<lambda>r. tr_id r = k) f" "\<lambda>r t. t @ [r]"
  by (rule keyed_table_fetch)

end
