(* ===== verification/IntroWorkflow.thy ===== *)
theory IntroWorkflow
  imports IntroModels
begin

section \<open>The questionnaire workflow (bot/services/intro_workflow.py)\<close>

text \<open>
  The transitions of a questionnaire draft.  A transition takes the database and
  returns its result with the new database, or the exception it raises.  A transition that raises
  has written nothing, or its writes are undone by the savepoint it runs under or by the rollback
  of the handler's transaction; so after an exception the database is the one before.
  \<open>sha\<close> is SHA-256.  A Python set of field ids is a list, read as a set.
\<close>

definition locked_application :: "db \<Rightarrow> int \<Rightarrow> int \<Rightarrow> intro_error + application" where
  "locked_application s uid aid =
     (case app_get s aid of
        None \<Rightarrow> Inl (IntroWorkflowError ''Questionnaire is not owned by this user'')
      | Some a \<Rightarrow> if app_user_id a \<noteq> uid
          then Inl (IntroWorkflowError ''Questionnaire is not owned by this user'') else Inr a)"

definition catalog_of :: "application \<Rightarrow> intro_error + intro_field list" where
  "catalog_of a = mapE ContractError (get_intro_catalog (catalog_version a))"

text \<open>\<open>for index, field in enumerate(..)\<close>: the position of a field of the catalog.\<close>

fun index_of :: "nat \<Rightarrow> string \<Rightarrow> intro_field list \<Rightarrow> nat option" where
  "index_of i fid [] = None"
| "index_of i fid (f # fs) = (if field_id f = fid then Some i else index_of (Suc i) fid fs)"

definition field_index :: "application \<Rightarrow> string \<Rightarrow> intro_error + nat" where
  "field_index a fid = bindE (catalog_of a) (\<lambda>catalog.
     someE (index_of 0 fid catalog) (IntroWorkflowError ''Unknown questionnaire field''))"

definition answered_fields :: "db \<Rightarrow> int \<Rightarrow> string list" where
  "answered_fields s aid = List.map_filter qa_field_id (qa_get_by_application s aid)"

definition next_missing_field :: "db \<Rightarrow> application \<Rightarrow> intro_error + string option" where
  "next_missing_field s a = bindE (catalog_of a) (\<lambda>catalog.
     Inr (List.find (\<lambda>f. f \<notin> set (answered_fields s (app_id a))) (map field_id catalog)))"

definition require_refresh_member :: "db \<Rightarrow> application \<Rightarrow> intro_error + unit" where
  "require_refresh_member s a =
     (if app_flow_kind a \<noteq> Some Refresh then Inr ()
      else case user_get s (app_user_id a) of
          None \<Rightarrow> Inl (IntroWorkflowError ''Refresh requires a current member'')
        | Some u \<Rightarrow> if is_member u then Inr ()
            else Inl (IntroWorkflowError ''Refresh requires a current member''))"

text \<open>A dictionary built from the answers of an application: the last entry of a key wins.\<close>

definition refresh_base_values :: "db \<Rightarrow> int option \<Rightarrow> (string \<times> ustr) list" where
  "refresh_base_values s base =
     (case base of
        None \<Rightarrow> []
      | Some b \<Rightarrow> rev (List.map_filter (\<lambda>q. map_option (\<lambda>f. (f, answer_text q)) (qa_field_id q))
                     (qa_get_by_application s b)))"

definition validate_refresh_selection ::
  "application \<Rightarrow> (string \<times> ustr) list \<Rightarrow> string list option \<Rightarrow> intro_error + unit" where
  "validate_refresh_selection a base_values editable =
     (case editable of
        None \<Rightarrow> Inr ()
      | Some ids \<Rightarrow> bindE (catalog_of a) (\<lambda>catalog.
          let valid = map field_id catalog in
          if ids = [] \<or> \<not> set ids \<subseteq> set valid
          then Inl (IntroWorkflowError ''Refresh selection is empty or invalid'')
          else if base_application_id a = None \<or> set (map fst base_values) \<noteq> set valid
          then Inl (IntroWorkflowError ''Refresh selection requires a complete versioned intro'')
          else if ''referral'' \<in> set ids \<and> is_concrete_referral (map_of base_values ''referral'')
          then Inl (IntroWorkflowError ''A concrete referral cannot be selected'')
          else Inr ()))"

definition save_field :: "application \<Rightarrow> nat \<Rightarrow> intro_field \<Rightarrow> ustr \<Rightarrow> db \<Rightarrow> intro_error + db" where
  "save_field a idx fld txt s =
     qa_save (app_user_id a) (app_id a) (field_id fld) idx (question fld) txt s"

text \<open>The copying loop: every field of the catalog that is not selected for editing.\<close>

fun copy_fields ::
  "application \<Rightarrow> nat \<Rightarrow> intro_field list \<Rightarrow> (string \<times> ustr) list \<Rightarrow> string list \<Rightarrow> db \<Rightarrow> intro_error + db" where
  "copy_fields a i [] base_values ids s = Inr s"
| "copy_fields a i (f # fs) base_values ids s =
     (if field_id f \<in> set ids then copy_fields a (Suc i) fs base_values ids s
      else bindE (someE (map_of base_values (field_id f)) (ValueErr ''KeyError'')) (\<lambda>v.
           bindE (save_field a i f v s) (copy_fields a (Suc i) fs base_values ids)))"

definition save_referral :: "application \<Rightarrow> ustr \<Rightarrow> db \<Rightarrow> intro_error + db" where
  "save_referral a referral s = bindE (catalog_of a) (\<lambda>catalog.
     bindE (mapE (\<lambda>_. ValueErr ''InvalidReferralUsername'') (normalize_referral_username referral)) (\<lambda>r.
     save_field a 2 (catalog ! 2) r s))"

definition copy_refresh_answers ::
  "application \<Rightarrow> (string \<times> ustr) list \<Rightarrow> string list option \<Rightarrow> db \<Rightarrow> intro_error + db" where
  "copy_refresh_answers a base_values editable s = bindE (catalog_of a) (\<lambda>catalog.
     case editable of
       Some ids \<Rightarrow> copy_fields a 0 catalog base_values ids s
     | None \<Rightarrow> (case map_of base_values ''referral'' of
           None \<Rightarrow> Inr s
         | Some r \<Rightarrow> if is_concrete_referral (Some r) then save_referral a r s else Inr s))"

text \<open>Current answers always have a field id (\<open>ck_questionnaire_answers_field_id_legacy\<close>); a row without one
  would be an unknown field of the catalog, as the empty name is.\<close>

definition answer_pairs :: "db \<Rightarrow> int \<Rightarrow> (string \<times> ustr) list" where
  "answer_pairs s aid =
     map (\<lambda>q. (coalesce (qa_field_id q) '''', answer_text q)) (qa_get_by_application s aid)"

definition current_snapshot :: "db \<Rightarrow> application \<Rightarrow> intro_error + ustr" where
  "current_snapshot s a =
     mapE (\<lambda>_. IntroWorkflowError ''Questionnaire is incomplete'')
       (render_intro_html (answer_pairs s (app_id a)) (catalog_version a))"

definition contract_as :: "string \<Rightarrow> intro_error + 'a \<Rightarrow> intro_error + 'a" where
  "contract_as msg r = mapE (\<lambda>e. case e of ContractError _ \<Rightarrow> IntroWorkflowError msg | _ \<Rightarrow> e) r"

definition write_answer ::
  "int \<Rightarrow> int \<Rightarrow> string \<Rightarrow> ustr \<Rightarrow> db \<Rightarrow> intro_error + string option \<times> db" where
  "write_answer uid aid fid txt s =
     bindE (locked_application s uid aid) (\<lambda>a.
     bindE (require_refresh_member s a) (\<lambda>_.
     bindE (ensureE (status a = Filling) (IntroWorkflowError ''Questionnaire is not filling'')) (\<lambda>_.
     bindE (contract_as ''Unknown questionnaire catalog'' (next_missing_field s a)) (\<lambda>expected.
     bindE (ensureE (expected = Some fid)
       (IntroWorkflowError ''Questionnaire field is stale or already answered'')) (\<lambda>_.
     bindE (contract_as ''Unknown questionnaire catalog'' (field_index a fid)) (\<lambda>idx.
     bindE (mapE (\<lambda>_. IntroWorkflowError ''Questionnaire answer is blank'') (normalize_intro_answer txt)) (\<lambda>v.
     bindE (if fid = ''referral''
            then mapE (\<lambda>_. InvalidReferralAnswer) (normalize_referral_username v) else Inr v) (\<lambda>v.
     bindE (catalog_of a) (\<lambda>catalog.
     let current = answer_pairs s (app_id a) in
     bindE (if length current = length catalog - 1
            then mapE (\<lambda>_. IntroWorkflowError ''Questionnaire answer is too long'')
              (render_intro_html (current @ [(fid, v)]) (catalog_version a))
            else Inr []) (\<lambda>_.
     bindE (qa_save uid (app_id a) fid idx (question (catalog ! idx)) v s) (\<lambda>s'.
     bindE (next_missing_field s' a) (\<lambda>nxt. Inr (nxt, s')))))))))))))"

definition next_field_id :: "int \<Rightarrow> int \<Rightarrow> db \<Rightarrow> intro_error + string option" where
  "next_field_id uid aid s =
     bindE (locked_application s uid aid) (\<lambda>a.
     bindE (require_refresh_member s a) (\<lambda>_.
     bindE (ensureE (status a = Filling) (IntroWorkflowError ''Questionnaire is not filling'')) (\<lambda>_.
     contract_as ''Unknown questionnaire catalog'' (next_missing_field s a))))"

definition start_or_resume_refresh ::
  "int \<Rightarrow> string list option \<Rightarrow> int \<Rightarrow> db \<Rightarrow> intro_error + application \<times> db" where
  "start_or_resume_refresh uid editable now s =
     (if \<not> (case user_get s uid of None \<Rightarrow> False | Some u \<Rightarrow> is_member u)
      then Inl (IntroWorkflowError ''Refresh requires a current member'')
      else case app_get_active_refresh s uid of
        Some active \<Rightarrow> Inr (active, s)
      | None \<Rightarrow>
          let base = (case intro_get s uid of None \<Rightarrow> None | Some i \<Rightarrow> in_application_id i);
              base_values = refresh_base_values s base;
              attempt = bindE (app_create uid Refresh base ''intro-v2'' now s) (\<lambda>(a, s1).
                bindE (validate_refresh_selection a base_values editable) (\<lambda>_.
                bindE (copy_refresh_answers a base_values editable s1) (\<lambda>s2. Inr (a, s2))))
          in (case attempt of
                Inl (IntegrityError c) \<Rightarrow>
                  if c = ''uq_applications_active_refresh''
                  then (case app_get_active_refresh s uid of
                          Some active \<Rightarrow> Inr (active, s) | None \<Rightarrow> Inl (IntegrityError c))
                  else Inl (IntegrityError c)
              | r \<Rightarrow> r))"

definition base_answer :: "db \<Rightarrow> application \<Rightarrow> string \<Rightarrow> ustr option" where
  "base_answer s a fid =
     (case base_application_id a of
        None \<Rightarrow> None
      | Some b \<Rightarrow> if app_flow_kind a \<noteq> Some Refresh then None
          else map_option answer_text
            (List.find (\<lambda>q. qa_field_id q = Some fid) (qa_get_by_application s b)))"

definition refresh_base_answer :: "int \<Rightarrow> int \<Rightarrow> string \<Rightarrow> db \<Rightarrow> intro_error + ustr option" where
  "refresh_base_answer uid aid fid s =
     bindE (locked_application s uid aid) (\<lambda>a.
     bindE (require_refresh_member s a) (\<lambda>_. Inr (base_answer s a fid)))"

definition keep_base_answer :: "int \<Rightarrow> int \<Rightarrow> string \<Rightarrow> db \<Rightarrow> intro_error + string option \<times> db" where
  "keep_base_answer uid aid fid s =
     bindE (locked_application s uid aid) (\<lambda>a.
     bindE (require_refresh_member s a) (\<lambda>_.
     bindE (ensureE (status a = Filling \<and> base_application_id a \<noteq> None)
       (IntroWorkflowError ''Refresh draft has no base answer'')) (\<lambda>_.
     bindE (next_missing_field s a) (\<lambda>expected.
     bindE (ensureE (expected = Some fid)
       (IntroWorkflowError ''Questionnaire field is stale or already answered'')) (\<lambda>_.
     bindE (someE (base_answer s a fid) (IntroWorkflowError ''Refresh draft has no base answer'')) (\<lambda>v.
     bindE (field_index a fid) (\<lambda>idx.
     bindE (catalog_of a) (\<lambda>catalog.
     bindE (qa_save uid (app_id a) fid idx (question (catalog ! idx)) v s) (\<lambda>s'.
     bindE (next_missing_field s' a) (\<lambda>nxt. Inr (nxt, s')))))))))))"

definition cancel_refresh :: "int \<Rightarrow> int \<Rightarrow> db \<Rightarrow> intro_error + db" where
  "cancel_refresh uid aid s =
     bindE (locked_application s uid aid) (\<lambda>a.
     bindE (ensureE (app_flow_kind a = Some Refresh \<and> status a = Filling)
       (IntroWorkflowError ''Refresh draft cannot be cancelled'')) (\<lambda>_.
     Inr (s\<lparr>answers := delete_where (\<lambda>q. qa_application_id q = app_id a) (answers s),
            applications := delete_where (\<lambda>b. app_id b = app_id a) (applications s)\<rparr>)))"

definition reset_draft ::
  "(nat list \<Rightarrow> nat list) \<Rightarrow> int \<Rightarrow> int \<Rightarrow> string \<Rightarrow> db \<Rightarrow> intro_error + string option \<times> db" where
  "reset_draft sha uid aid digest s =
     bindE (locked_application s uid aid) (\<lambda>a.
     bindE (require_refresh_member s a) (\<lambda>_.
     bindE (ensureE (status a = Filling) (IntroWorkflowError ''Questionnaire is not filling'')) (\<lambda>_.
     bindE (current_snapshot s a) (\<lambda>snapshot.
     bindE (ensureE (intro_digest sha snapshot = digest)
       (IntroWorkflowError ''Confirmation digest is stale'')) (\<lambda>_.
     let referral = map_option answer_text
           (List.find (\<lambda>q. qa_field_id q = Some ''referral'') (qa_get_by_application s (app_id a)));
         s1 = qa_delete_current (app_id a) s in
     bindE (case referral of
              None \<Rightarrow> Inr s1
            | Some r \<Rightarrow> if is_concrete_referral (Some r) then save_referral a r s1 else Inr s1) (\<lambda>s2.
     bindE (next_missing_field s2 a) (\<lambda>nxt. Inr (nxt, s2))))))))"

definition verify_refresh_preview ::
  "(nat list \<Rightarrow> nat list) \<Rightarrow> int \<Rightarrow> int \<Rightarrow> string \<Rightarrow> db \<Rightarrow> intro_error + application" where
  "verify_refresh_preview sha uid aid digest s =
     bindE (locked_application s uid aid) (\<lambda>a.
     bindE (require_refresh_member s a) (\<lambda>_.
     bindE (ensureE (app_flow_kind a = Some Refresh \<and> status a = Filling)
       (IntroWorkflowError ''Refresh preview is stale'')) (\<lambda>_.
     bindE (current_snapshot s a) (\<lambda>snapshot.
     bindE (ensureE (intro_digest sha snapshot = digest)
       (IntroWorkflowError ''Confirmation digest is stale'')) (\<lambda>_. Inr a)))))"

definition restart_refresh_selection ::
  "(nat list \<Rightarrow> nat list) \<Rightarrow> int \<Rightarrow> int \<Rightarrow> string \<Rightarrow> string list option \<Rightarrow> db \<Rightarrow>
   intro_error + string option \<times> db" where
  "restart_refresh_selection sha uid aid digest editable s =
     bindE (verify_refresh_preview sha uid aid digest s) (\<lambda>a.
     let base_values = refresh_base_values s (base_application_id a) in
     bindE (validate_refresh_selection a base_values editable) (\<lambda>_.
     bindE (copy_refresh_answers a base_values editable (qa_delete_current (app_id a) s)) (\<lambda>s2.
     bindE (next_missing_field s2 a) (\<lambda>nxt. Inr (nxt, s2)))))"

definition confirmation_effect :: "db \<Rightarrow> int \<Rightarrow> application \<Rightarrow> intro_error + effect_kind" where
  "confirmation_effect s uid a =
     (case app_flow_kind a of
        Some Admission \<Rightarrow> Inr Candidate_card
      | Some Refresh \<Rightarrow> Inr (if intro_get s uid \<noteq> None then Refresh_intro else Member_intro)
      | None \<Rightarrow> Inl (IntroWorkflowError ''Questionnaire flow is invalid''))"

definition confirm_application ::
  "(nat list \<Rightarrow> nat list) \<Rightarrow> int \<Rightarrow> int \<Rightarrow> string \<Rightarrow> db \<Rightarrow> intro_error + application \<times> db" where
  "confirm_application sha uid aid digest s =
     bindE (locked_application s uid aid) (\<lambda>a.
     bindE (require_refresh_member s a) (\<lambda>_.
     if status a = Confirmed then
       (if (case confirmed_intro_html a of None \<Rightarrow> True | Some h \<Rightarrow> intro_digest sha h \<noteq> digest)
        then Inl (IntroWorkflowError ''Confirmation digest is stale'') else Inr (a, s))
     else
     bindE (ensureE (status a = Filling) (IntroWorkflowError ''Questionnaire is not filling'')) (\<lambda>_.
     bindE (current_snapshot s a) (\<lambda>snapshot.
     bindE (ensureE (intro_digest sha snapshot = digest)
       (IntroWorkflowError ''Confirmation digest is stale'')) (\<lambda>_.
     bindE (confirmation_effect s uid a) (\<lambda>kind.
     let f = (\<lambda>a. a\<lparr>confirmed_intro_html := Some snapshot, status := Confirmed\<rparr>) in
     bindE (effect_add (app_id a) kind (app_update (app_id a) f s)) (\<lambda>s'. Inr (f a, s'))))))))"

subsection \<open>Reading a draft\<close>

definition missing_fields :: "db \<Rightarrow> int \<Rightarrow> string list" where
  "missing_fields s aid = filter (\<lambda>f. f \<notin> set (answered_fields s aid)) catalog_ids"

lemma set_qa_get:
  "set (qa_get_by_application s aid) = {q \<in> set (answers s). qa_application_id q = aid \<and> is_current q}"
  by (simp add: qa_get_by_application_def)

lemma set_answered_fields:
  "set (answered_fields s aid) =
    {f. \<exists>q \<in> set (answers s). qa_application_id q = aid \<and> is_current q \<and> qa_field_id q = Some f}"
  by (force simp: answered_fields_def map_filter_def set_qa_get)

lemma answers_only [simp]:
  "qa_get_by_application (s\<lparr>applications := x\<rparr>) aid = qa_get_by_application s aid"
  "qa_get_by_application (s\<lparr>effects := e\<rparr>) aid = qa_get_by_application s aid"
  "qa_get_by_application (s\<lparr>effects := e, next_effect_id := n\<rparr>) aid = qa_get_by_application s aid"
  by (simp_all add: qa_get_by_application_def)

lemma find_hd_filter: "List.find P xs = (case filter P xs of [] \<Rightarrow> None | x # _ \<Rightarrow> Some x)"
  by (induction xs) auto

lemma catalog_of_ok: "catalog_of a = Inr catalog \<longleftrightarrow> get_intro_catalog (catalog_version a) = Inr catalog"
  by (simp add: catalog_of_def)

lemma catalog_of_ids: "catalog_of a = Inr catalog \<Longrightarrow> map field_id catalog = catalog_ids"
  by (simp add: catalog_of_ok catalog_field_ids)

lemma next_missing_iff:
  "next_missing_field s a = Inr r \<longleftrightarrow>
     is_ok (catalog_of a) \<and>
     r = (case missing_fields s (app_id a) of [] \<Rightarrow> None | f # _ \<Rightarrow> Some f)"
  by (cases "catalog_of a")
    (auto simp: next_missing_field_def missing_fields_def find_hd_filter
      dest!: catalog_of_ids)

lemma missing_subset: "set (missing_fields s aid) \<subseteq> set catalog_ids"
  by (simp add: missing_fields_def)

lemma next_missing_Some: "next_missing_field s a = Inr (Some f) \<longleftrightarrow>
    is_ok (catalog_of a) \<and> (\<exists>fs. missing_fields s (app_id a) = f # fs)"
  by (auto simp: next_missing_iff split: list.splits)

lemma contract_as_ok [simp]: "contract_as m r = Inr x \<longleftrightarrow> r = Inr x"
  by (simp add: contract_as_def)

lemma locked_ok: "locked_application s uid aid = Inr a \<longleftrightarrow> app_get s aid = Some a \<and> app_user_id a = uid"
  by (auto simp: locked_application_def split: option.splits if_splits)

lemma app_get_id: "app_get s aid = Some a \<Longrightarrow> app_id a = aid"
  unfolding app_get_def by (rule app.get_key)

lemma qa_save_ok:
  "qa_save uid aid fid idx qt txt s = Inr s' \<longleftrightarrow>
     (\<forall>q \<in> set (answers s). qa_application_id q \<noteq> aid \<or> qa_field_id q \<noteq> Some fid) \<and>
     s' = s\<lparr>answers := answers s @ [\<lparr>qa_user_id = uid, qa_application_id = aid,
        qa_question_index = idx, qa_question_text = qt, answer_text = txt,
        qa_field_id = Some fid, is_current = True\<rparr>]\<rparr>"
  by (auto simp: qa_save_def list_ex_iff)

lemma index_of_Some:
  "index_of i fid fs = Some n \<Longrightarrow> i \<le> n \<and> n < i + length fs \<and> field_id (fs ! (n - i)) = fid"
proof (induction i fid fs rule: index_of.induct)
  case (2 i fid f fs)
  then show ?case by (cases "field_id f = fid") (auto simp: nth_Cons' split: if_splits)
qed simp

lemma missing_save:
  assumes "missing_fields s aid = fid # fs"
  shows "missing_fields (s\<lparr>answers := answers s @ [\<lparr>qa_user_id = u, qa_application_id = aid,
     qa_question_index = i, qa_question_text = qt, answer_text = v,
     qa_field_id = Some fid, is_current = True\<rparr>]\<rparr>) aid = fs"
proof -
  let ?row = "\<lparr>qa_user_id = u, qa_application_id = aid, qa_question_index = i,
    qa_question_text = qt, answer_text = v, qa_field_id = Some fid, is_current = True\<rparr>"
  let ?s = "s\<lparr>answers := answers s @ [?row]\<rparr>"
  have "set (answered_fields ?s aid) = insert fid (set (answered_fields s aid))"
    by (auto simp: set_answered_fields)
  then have "missing_fields ?s aid = filter (\<lambda>f. f \<noteq> fid) (missing_fields s aid)"
    by (simp add: missing_fields_def conj_commute)
  moreover have "distinct (missing_fields s aid)" by (simp add: missing_fields_def)
  ultimately show ?thesis using assms by (auto simp: filter_id_conv)
qed

subsection \<open>Writing answers\<close>

text \<open>The text \<open>write_answer\<close> stores for a field, or \<open>None\<close> when the answer is not accepted.\<close>

definition stored_answer :: "string \<Rightarrow> ustr \<Rightarrow> ustr option" where
  "stored_answer fid txt =
     (let v = clean_answer txt in
      if v = [] then None
      else if fid = ''referral'' then
        (case normalize_referral_username v of Inl _ \<Rightarrow> None | Inr r \<Rightarrow> Some r)
      else Some v)"

lemma stored_answer_iff:
  "stored_answer fid txt = Some v \<longleftrightarrow>
     (\<exists>n. normalize_intro_answer txt = Inr n \<and>
        (if fid = ''referral'' then normalize_referral_username n = Inr v else v = n))"
  by (auto simp: stored_answer_def normalize_ok_iff Let_def split: sum.splits)

definition may_write :: "db \<Rightarrow> application \<Rightarrow> bool" where
  "may_write s a \<longleftrightarrow> status a = Filling \<and> require_refresh_member s a = Inr () \<and> is_ok (catalog_of a)"

lemma write_answer_ok:
  assumes "write_answer uid aid fid txt s = Inr (nxt, s')"
  obtains a v idx qt where "app_get s aid = Some a" "app_user_id a = uid" "may_write s a"
    "stored_answer fid txt = Some v" "missing_fields s aid = fid # missing_fields s' aid"
    "nxt = (case missing_fields s' aid of [] \<Rightarrow> None | f # _ \<Rightarrow> Some f)"
    "s' = s\<lparr>answers := answers s @ [\<lparr>qa_user_id = uid, qa_application_id = aid,
        qa_question_index = idx, qa_question_text = qt, answer_text = v,
        qa_field_id = Some fid, is_current = True\<rparr>]\<rparr>"
    "field_index a fid = Inr idx"
proof -
  from assms obtain a u idx n v catalog where
    a: "locked_application s uid aid = Inr a" and m: "require_refresh_member s a = Inr u"
    and st: "status a = Filling" and e: "next_missing_field s a = Inr (Some fid)"
    and idx: "field_index a fid = Inr idx" and n: "normalize_intro_answer txt = Inr n"
    and v: "(if fid = ''referral'' then mapE (\<lambda>_. InvalidReferralAnswer) (normalize_referral_username n)
             else Inr n) = Inr v"
    and cat: "catalog_of a = Inr catalog"
    and sv: "qa_save uid (app_id a) fid idx (question (catalog ! idx)) v s = Inr s'"
    and nxt: "next_missing_field s' a = Inr nxt"
    unfolding write_answer_def Let_def bindE_Inr_iff contract_as_ok ensureE_Inr_iff mapE_Inr_iff
      sum.inject prod.inject by blast
  from a have a': "app_get s aid = Some a" "app_user_id a = uid" by (auto simp: locked_ok)
  have id: "app_id a = aid" using a'(1) by (rule app_get_id)
  from e id obtain fs where fs: "is_ok (catalog_of a)" "missing_fields s aid = fid # fs"
    by (auto simp: next_missing_Some)
  from sv id have s': "s' = s\<lparr>answers := answers s @ [\<lparr>qa_user_id = uid, qa_application_id = aid,
        qa_question_index = idx, qa_question_text = question (catalog ! idx), answer_text = v,
        qa_field_id = Some fid, is_current = True\<rparr>]\<rparr>" by (simp add: qa_save_ok)
  have ms: "missing_fields s' aid = fs" unfolding s' by (rule missing_save) (rule fs(2))
  have sa: "stored_answer fid txt = Some v"
    using n v by (auto simp: stored_answer_iff split: if_splits)
  have nx: "nxt = (case missing_fields s' aid of [] \<Rightarrow> None | f # _ \<Rightarrow> Some f)"
    using nxt id by (simp add: next_missing_iff)
  have mw: "may_write s a" using st m fs(1) by (simp add: may_write_def)
  have mf: "missing_fields s aid = fid # missing_fields s' aid" using fs(2) ms by simp
  show thesis by (rule that [OF a' mw sa mf nx s' idx])
qed

text \<open>
  An accepted answer is exactly one row: the draft belongs to the caller and is still being
  filled, the field answered is the first one missing, the row holds the cleaned (and, for the
  referral, canonical) text, and the next field asked is the first one still missing.
\<close>

theorem write_answer_step:
  assumes "write_answer uid aid fid txt s = Inr (nxt, s')"
  shows "\<exists>a v idx qt. app_get s aid = Some a \<and> app_user_id a = uid \<and> status a = Filling \<and>
    stored_answer fid txt = Some v \<and>
    missing_fields s aid = fid # missing_fields s' aid \<and>
    nxt = (case missing_fields s' aid of [] \<Rightarrow> None | f # _ \<Rightarrow> Some f) \<and>
    s' = s\<lparr>answers := answers s @ [\<lparr>qa_user_id = uid, qa_application_id = aid,
        qa_question_index = idx, qa_question_text = qt, answer_text = v,
        qa_field_id = Some fid, is_current = True\<rparr>]\<rparr>"
proof -
  from write_answer_ok [OF assms] obtain a v idx qt where
    "app_get s aid = Some a" "app_user_id a = uid" "may_write s a"
    "stored_answer fid txt = Some v" "missing_fields s aid = fid # missing_fields s' aid"
    "nxt = (case missing_fields s' aid of [] \<Rightarrow> None | f # _ \<Rightarrow> Some f)"
    "s' = s\<lparr>answers := answers s @ [\<lparr>qa_user_id = uid, qa_application_id = aid,
        qa_question_index = idx, qa_question_text = qt, answer_text = v,
        qa_field_id = Some fid, is_current = True\<rparr>]\<rparr>" by metis
  then show ?thesis unfolding may_write_def by blast
qed

subsection \<open>A draft can be completed\<close>

definition draft_rows :: "db \<Rightarrow> int \<Rightarrow> questionnaire_answer list" where
  "draft_rows s aid = filter (\<lambda>q. qa_application_id q = aid) (answers s)"

text \<open>The rows of a draft: all current, each for a field of the catalog, no field twice.\<close>

definition draft_wf :: "db \<Rightarrow> int \<Rightarrow> bool" where
  "draft_wf s aid \<longleftrightarrow>
     list_all (\<lambda>q. is_current q \<and> qa_field_id q \<in> Some ` set catalog_ids) (draft_rows s aid) \<and>
     distinct (map qa_field_id (draft_rows s aid))"

definition saved_row :: "int \<Rightarrow> int \<Rightarrow> string \<Rightarrow> nat \<Rightarrow> ustr \<Rightarrow> ustr \<Rightarrow> questionnaire_answer" where
  "saved_row uid aid fid idx qt v =
     \<lparr>qa_user_id = uid, qa_application_id = aid, qa_question_index = idx, qa_question_text = qt,
      answer_text = v, qa_field_id = Some fid, is_current = True\<rparr>"

lemma saved_row_simps [simp]:
  "qa_application_id (saved_row uid aid fid idx qt v) = aid"
  "qa_field_id (saved_row uid aid fid idx qt v) = Some fid"
  "is_current (saved_row uid aid fid idx qt v)"
  "answer_text (saved_row uid aid fid idx qt v) = v"
  by (simp_all add: saved_row_def)

definition add_row :: "questionnaire_answer \<Rightarrow> db \<Rightarrow> db" where
  "add_row q s = s\<lparr>answers := answers s @ [q]\<rparr>"

lemma draft_rows_add:
  "draft_rows (add_row q s) aid = draft_rows s aid @ (if qa_application_id q = aid then [q] else [])"
  by (simp add: draft_rows_def add_row_def)

lemma add_row_other [simp]:
  "applications (add_row q s) = applications s" "users (add_row q s) = users s"
  "effects (add_row q s) = effects s"
  "app_get (add_row q s) aid = app_get s aid" "user_get (add_row q s) uid = user_get s uid"
  "require_refresh_member (add_row q s) a = require_refresh_member s a"
  by (simp_all add: add_row_def app_get_def user_get_def require_refresh_member_def)

lemma may_write_add_row [simp]: "may_write (add_row q s) a = may_write s a"
  by (simp add: may_write_def)

lemma qa_get_draft:
  assumes "draft_wf s aid"
  shows "qa_get_by_application s aid = sort_key qa_question_index (draft_rows s aid)"
proof -
  have "filter (\<lambda>q. qa_application_id q = aid \<and> is_current q) (answers s) =
      filter is_current (draft_rows s aid)"
    by (simp add: draft_rows_def conj_commute)
  also have "\<dots> = draft_rows s aid"
    using assms by (simp add: draft_wf_def list_all_iff filter_id_conv)
  finally show ?thesis by (simp add: qa_get_by_application_def)
qed

definition draft_pairs :: "db \<Rightarrow> int \<Rightarrow> (string \<times> ustr) list" where
  "draft_pairs s aid = map (\<lambda>q. (coalesce (qa_field_id q) '''', answer_text q)) (draft_rows s aid)"

lemma mset_answer_pairs: "draft_wf s aid \<Longrightarrow> mset (answer_pairs s aid) = mset (draft_pairs s aid)"
  by (simp add: answer_pairs_def draft_pairs_def qa_get_draft)

lemma draft_pairs_add:
  "draft_pairs (add_row (saved_row uid aid fid idx qt v) s) aid = draft_pairs s aid @ [(fid, v)]"
  by (simp add: draft_pairs_def draft_rows_add coalesce_def)

lemma draft_pairs_keys:
  assumes "draft_wf s aid"
  shows "distinct (map fst (draft_pairs s aid))" "set (map fst (draft_pairs s aid)) \<subseteq> set catalog_ids"
    "set (answered_fields s aid) = set (map fst (draft_pairs s aid))"
proof -
  let ?rows = "draft_rows s aid"
  have some: "q \<in> set ?rows \<Longrightarrow> \<exists>f \<in> set catalog_ids. qa_field_id q = Some f" for q
    using assms by (auto simp: draft_wf_def list_all_iff)
  have m: "map qa_field_id ?rows = map Some (map fst (draft_pairs s aid))"
    unfolding draft_pairs_def map_map
    by (rule map_cong) (auto dest: some simp: coalesce_def)
  have "distinct (map qa_field_id ?rows)" using assms by (simp add: draft_wf_def)
  then show "distinct (map fst (draft_pairs s aid))" unfolding m by (metis distinct_map)
  show "set (map fst (draft_pairs s aid)) \<subseteq> set catalog_ids"
    using some by (fastforce simp: draft_pairs_def coalesce_def)
  have "set (answered_fields s aid) = {f. Some f \<in> set (map qa_field_id ?rows)}"
    using assms by (auto simp: answered_fields_def map_filter_def qa_get_draft image_iff)
      (metis option.sel)+
  then show "set (answered_fields s aid) = set (map fst (draft_pairs s aid))"
    unfolding m by auto
qed

lemma draft_count:
  assumes "draft_wf s aid"
  shows "length (answer_pairs s aid) + length (missing_fields s aid) = 7"
proof -
  note k = draft_pairs_keys [OF assms]
  have len: "length (answer_pairs s aid) = length (map fst (draft_pairs s aid))"
    using mset_answer_pairs [OF assms] by (metis length_map mset_eq_length)
  have "length (map fst (draft_pairs s aid)) = card (set catalog_ids \<inter> set (map fst (draft_pairs s aid)))"
    using distinct_card [OF k(1)] k(2) by (simp only: Int_absorb1)
  moreover have "length (missing_fields s aid) = card (set catalog_ids - set (map fst (draft_pairs s aid)))"
    unfolding missing_fields_def k(3)
    by (subst distinct_card [symmetric]) (auto intro!: arg_cong [of _ _ card])
  moreover have "card (set catalog_ids) = 7" by (simp only: distinct_card distinct_catalog_ids length_catalog_ids)
  ultimately show ?thesis unfolding len
    using card_Int_Diff [of "set catalog_ids" "set (map fst (draft_pairs s aid))"] by simp
qed

lemma missing_add_row:
  "missing_fields s aid = fid # fs \<Longrightarrow> missing_fields (add_row (saved_row u aid fid i qt v) s) aid = fs"
  unfolding add_row_def saved_row_def by (rule missing_save)

lemma missing_not_answered:
  assumes "draft_wf s aid" "f \<in> set (missing_fields s aid)"
  shows "q \<in> set (answers s) \<Longrightarrow> qa_application_id q \<noteq> aid \<or> qa_field_id q \<noteq> Some f"
proof -
  assume q: "q \<in> set (answers s)"
  have "f \<notin> set (answered_fields s aid)" using assms(2) by (simp add: missing_fields_def)
  moreover have "is_current q" if "qa_application_id q = aid"
    using assms(1) q that by (simp add: draft_wf_def list_all_iff draft_rows_def)
  ultimately show ?thesis using q by (auto simp: set_answered_fields)
qed

lemma draft_wf_add_row:
  assumes wf: "draft_wf s aid" and f: "f \<in> set (missing_fields s aid)"
  shows "draft_wf (add_row (saved_row u aid f i qt v) s) aid"
proof -
  have "f \<in> set catalog_ids" using f by (simp add: missing_fields_def)
  moreover have "Some f \<notin> qa_field_id ` set (draft_rows s aid)"
    using missing_not_answered [OF wf f] unfolding draft_rows_def by fastforce
  ultimately show ?thesis using wf by (auto simp: draft_wf_def draft_rows_add)
qed

lemma index_of_total: "fid \<in> set (map field_id fs) \<Longrightarrow> \<exists>n. index_of i fid fs = Some n"
  by (induction i fid fs rule: index_of.induct) auto

lemma field_index_total:
  assumes "catalog_of a = Inr catalog" "fid \<in> set catalog_ids"
  shows "\<exists>n. field_index a fid = Inr n"
proof -
  from assms have "fid \<in> set (map field_id catalog)" by (simp only: catalog_of_ids)
  from index_of_total [OF this, of 0] assms(1) show ?thesis by (auto simp: field_index_def)
qed

lemma render_ok_mset:
  assumes "mset xs = mset ys"
  shows "is_ok (render_intro_html xs cv) \<longleftrightarrow> is_ok (render_intro_html ys cv)"
  unfolding is_ok_iff using render_mset [OF assms] by blast

lemma write_answer_succeeds:
  assumes a: "app_get s aid = Some a" "app_user_id a = uid" "may_write s a"
    and wf: "draft_wf s aid" and miss: "missing_fields s aid = fid # fs"
    and v: "stored_answer fid txt = Some v"
    and fits: "fs = [] \<Longrightarrow> is_ok (render_intro_html (draft_pairs s aid @ [(fid, v)]) (catalog_version a))"
  shows "\<exists>idx qt. write_answer uid aid fid txt s =
    Inr (case fs of [] \<Rightarrow> None | f # _ \<Rightarrow> Some f, add_row (saved_row uid aid fid idx qt v) s)"
proof -
  have id: "app_id a = aid" using a(1) by (rule app_get_id)
  have l: "locked_application s uid aid = Inr a" using a by (simp add: locked_ok)
  from a(3) obtain catalog where m: "status a = Filling" "require_refresh_member s a = Inr ()"
    and c: "catalog_of a = Inr catalog"
    unfolding may_write_def by (cases "catalog_of a") auto
  have e: "next_missing_field s a = Inr (Some fid)" using c miss id by (auto simp: next_missing_Some)
  have "fid \<in> set (missing_fields s aid)" using miss by simp
  note fresh = missing_not_answered [OF wf this]
  have "fid \<in> set catalog_ids" using missing_subset [of s aid] miss by simp
  then obtain idx where i: "field_index a fid = Inr idx" using field_index_total [OF c] by blast
  from v obtain n where n: "normalize_intro_answer txt = Inr n"
    and r: "if fid = ''referral'' then normalize_referral_username n = Inr v else v = n"
    by (auto simp: stored_answer_iff)
  let ?s = "add_row (saved_row uid aid fid idx (question (catalog ! idx)) v) s"
  have sv: "qa_save uid aid fid idx (question (catalog ! idx)) v s = Inr ?s"
    using fresh by (auto simp: qa_save_ok add_row_def saved_row_def)
  have nx: "next_missing_field ?s a = Inr (case fs of [] \<Rightarrow> None | f # _ \<Rightarrow> Some f)"
    using c id missing_add_row [OF miss] by (simp add: next_missing_iff)
  have "length catalog = 7" using c catalog_length by (simp add: catalog_of_ok)
  then have full: "length (answer_pairs s aid) = length catalog - 1 \<longleftrightarrow> fs = []"
    using draft_count [OF wf] miss by auto
  have "mset (answer_pairs s aid @ [(fid, v)]) = mset (draft_pairs s aid @ [(fid, v)])"
    using mset_answer_pairs [OF wf] by simp
  from render_ok_mset [OF this] fits
  have "fs = [] \<Longrightarrow> is_ok (render_intro_html (answer_pairs s aid @ [(fid, v)]) (catalog_version a))"
    by blast
  then obtain h where
    h: "fs = [] \<Longrightarrow> render_intro_html (answer_pairs s aid @ [(fid, v)]) (catalog_version a) = Inr h"
    unfolding is_ok_iff by blast
  have "write_answer uid aid fid txt s =
      Inr (case fs of [] \<Rightarrow> None | f # _ \<Rightarrow> Some f, ?s)"
    using l m e i n r c h sv nx full id
    by (cases "fs = []"; cases "fid = ''referral''") (simp_all add: write_answer_def contract_as_def Let_def)
  then show ?thesis by blast
qed

text \<open>The answers of a user to the questions asked, one message after the other.\<close>

fun answer_all :: "int \<Rightarrow> int \<Rightarrow> (string \<times> ustr) list \<Rightarrow> db \<Rightarrow> intro_error + db" where
  "answer_all uid aid [] s = Inr s"
| "answer_all uid aid ((fid, txt) # rest) s =
     bindE (write_answer uid aid fid txt s) (\<lambda>(_, s'). answer_all uid aid rest s')"

lemma answer_all_draft:
  assumes "app_get s aid = Some a" "app_user_id a = uid" "may_write s a" "draft_wf s aid"
    and "map fst inputs = missing_fields s aid"
    and "map (\<lambda>(f, t). stored_answer f t) inputs = map Some vs"
    and "is_ok (render_intro_html (draft_pairs s aid @ zip (map fst inputs) vs) (catalog_version a))"
  shows "\<exists>s'. answer_all uid aid inputs s = Inr s' \<and> draft_wf s' aid \<and> missing_fields s' aid = [] \<and>
    draft_pairs s' aid = draft_pairs s aid @ zip (map fst inputs) vs"
  using assms
proof (induction inputs arbitrary: s vs)
  case Nil
  then show ?case by simp
next
  case (Cons ft inputs)
  obtain fid tx where ft: "ft = (fid, tx)" by fastforce
  from Cons.prems(6) ft obtain v ws where vs: "vs = v # ws" "stored_answer fid tx = Some v"
    "map (\<lambda>(f, t). stored_answer f t) inputs = map Some ws" by auto
  from Cons.prems(5) ft have miss: "missing_fields s aid = fid # map fst inputs" by simp
  have "map fst inputs = [] \<Longrightarrow>
      is_ok (render_intro_html (draft_pairs s aid @ [(fid, v)]) (catalog_version a))"
    using Cons.prems(7) vs ft by simp
  from write_answer_succeeds [OF Cons.prems(1-4) miss vs(2) this] obtain idx qt nxt where
    w: "write_answer uid aid fid tx s = Inr (nxt, add_row (saved_row uid aid fid idx qt v) s)" by blast
  let ?s = "add_row (saved_row uid aid fid idx qt v) s"
  have pairs: "draft_pairs ?s aid = draft_pairs s aid @ [(fid, v)]" by (rule draft_pairs_add)
  have "\<exists>s'. answer_all uid aid inputs ?s = Inr s' \<and> draft_wf s' aid \<and> missing_fields s' aid = [] \<and>
    draft_pairs s' aid = draft_pairs ?s aid @ zip (map fst inputs) ws"
  proof (rule Cons.IH)
    show "draft_wf ?s aid" using Cons.prems(4) miss by (intro draft_wf_add_row) simp_all
    show "map fst inputs = missing_fields ?s aid" using missing_add_row [OF miss] by simp
    show "is_ok (render_intro_html (draft_pairs ?s aid @ zip (map fst inputs) ws) (catalog_version a))"
      using Cons.prems(7) vs ft pairs by simp
  qed (use Cons.prems vs in simp_all)
  then show ?case using w vs ft pairs by simp
qed

subsection \<open>Confirming\<close>

lemma confirm_ok:
  assumes "confirm_application sha uid aid digest s = Inr (a', s')"
  obtains (again) "app_get s aid = Some a'" "app_user_id a' = uid" "status a' = Confirmed"
      "s' = s" "require_refresh_member s a' = Inr ()"
      "\<exists>h. confirmed_intro_html a' = Some h \<and> intro_digest sha h = digest"
  | (first) a h kind where "app_get s aid = Some a" "app_user_id a = uid" "status a = Filling"
      "require_refresh_member s a = Inr ()"
      "current_snapshot s a = Inr h" "intro_digest sha h = digest"
      "a' = a\<lparr>confirmed_intro_html := Some h, status := Confirmed\<rparr>"
      "confirmation_effect s uid a = Inr kind" "\<not> effect_exists s aid kind"
      "s' = effect_append aid kind
        (app_update aid (\<lambda>a. a\<lparr>confirmed_intro_html := Some h, status := Confirmed\<rparr>) s)"
proof -
  from assms obtain a u where l: "locked_application s uid aid = Inr a"
    and m: "require_refresh_member s a = Inr u"
    unfolding confirm_application_def bindE_Inr_iff by blast
  from l have g: "app_get s aid = Some a" "app_user_id a = uid" by (simp_all add: locked_ok)
  note id = app_get_id [OF g(1)]
  show thesis
  proof (cases "status a = Confirmed")
    case True
    with assms l m again show ?thesis
      by (auto simp: confirm_application_def locked_ok split: if_splits option.splits)
  next
    case False
    with assms l m obtain h kind where h: "status a = Filling" "current_snapshot s a = Inr h"
      "intro_digest sha h = digest" "confirmation_effect s uid a = Inr kind"
      and e: "effect_add (app_id a) kind (app_update (app_id a)
        (\<lambda>a. a\<lparr>confirmed_intro_html := Some h, status := Confirmed\<rparr>) s) = Inr s'"
      and a': "a' = a\<lparr>confirmed_intro_html := Some h, status := Confirmed\<rparr>"
      by (auto simp: confirm_application_def bindE_Inr_iff Let_def)
    from e id have "\<not> effect_exists s aid kind" "s' = effect_append aid kind
        (app_update aid (\<lambda>a. a\<lparr>confirmed_intro_html := Some h, status := Confirmed\<rparr>) s)"
      by (auto simp: effect_add_def effect_exists_def app_update_def split: if_splits)
    with first g h a' m show ?thesis by simp
  qed
qed

lemma app_get_app_update:
  "(\<And>a. app_id (f a) = app_id a) \<Longrightarrow>
   app_get (app_update aid f s) aid = map_option f (app_get s aid)"
  by (simp add: app_get_def app_update_def app.put_get)

lemma effect_append_other [simp]:
  "applications (effect_append aid kind s) = applications s"
  "users (effect_append aid kind s) = users s" "answers (effect_append aid kind s) = answers s"
  "intros (effect_append aid kind s) = intros s"
  "app_get (effect_append aid kind s) aid' = app_get s aid'"
  by (simp_all add: effect_append_def app_get_def)

lemma app_update_other [simp]:
  "users (app_update aid f s) = users s" "answers (app_update aid f s) = answers s"
  "intros (app_update aid f s) = intros s" "effects (app_update aid f s) = effects s"
  "next_effect_id (app_update aid f s) = next_effect_id s"
  by (simp_all add: app_update_def)

lemma require_member_cong:
  "users s' = users s \<Longrightarrow> app_flow_kind a' = app_flow_kind a \<Longrightarrow> app_user_id a' = app_user_id a \<Longrightarrow>
   require_refresh_member s' a' = require_refresh_member s a"
  by (simp add: require_refresh_member_def user_get_def)

text \<open>
  A confirmation binds the block the user saw: the digest of the button is the digest of the
  stored snapshot; a first confirmation stores the block of the current answers and queues exactly
  one effect, the candidate card of an admission or the intro of a refresh; and pressing the
  button again returns the same confirmed application and changes nothing.
\<close>

theorem confirm_binds_snapshot:
  assumes "confirm_application sha uid aid digest s = Inr (a', s')"
  shows "app_user_id a' = uid \<and> status a' = Confirmed \<and>
    (\<exists>h. confirmed_intro_html a' = Some h \<and> intro_digest sha h = digest) \<and>
    (s' = s \<or>
      (\<exists>a h kind. app_get s aid = Some a \<and> status a = Filling \<and> current_snapshot s a = Inr h \<and>
         confirmed_intro_html a' = Some h \<and> confirmation_effect s uid a = Inr kind \<and>
         effects s' = effects s @ [new_effect (next_effect_id s) aid kind])) \<and>
    confirm_application sha uid aid digest s' = Inr (a', s')"
  using assms
proof (cases rule: confirm_ok)
  case again
  then have "locked_application s uid aid = Inr a'" by (simp add: locked_ok)
  with again show ?thesis by (auto simp: confirm_application_def)
next
  case (first a h kind)
  have g: "app_get s' aid = Some a'"
    using first(1,7) unfolding first(10) by (simp add: app_get_app_update)
  then have l: "locked_application s' uid aid = Inr a'" using first by (simp add: locked_ok)
  have m: "require_refresh_member s' a' = Inr ()"
    using first(4) require_member_cong [of s' s a' a] first(7,10) by simp
  have e: "effects s' = effects s @ [new_effect (next_effect_id s) aid kind]"
    unfolding first(10) by (simp add: effect_append_def)
  have "confirm_application sha uid aid digest s' = Inr (a', s')"
    using l m first(6,7) by (simp add: confirm_application_def)
  with e first show ?thesis by auto
qed

lemma write_answer_frame:
  assumes "write_answer uid aid fid tx s = Inr (nxt, s')"
  shows "\<exists>as. s' = s\<lparr>answers := as\<rparr>"
  using write_answer_ok [OF assms] by metis

lemma answer_all_frame:
  "answer_all uid aid inputs s = Inr s' \<Longrightarrow>
     applications s' = applications s \<and> users s' = users s \<and> intros s' = intros s \<and> effects s' = effects s"
  by (induction uid aid inputs s rule: answer_all.induct)
    (auto simp: bindE_Inr_iff dest!: write_answer_frame)

text \<open>
  C38. An applicant can always finish: if every missing question gets an acceptable answer and the
  resulting block fits one message, the answers are all taken, the draft is complete, its preview
  is the block of exactly these answers, and confirming with the digest of that preview succeeds
  (unless the outbox already holds the effect).
\<close>

theorem draft_completes:
  assumes a: "app_get s aid = Some a" "app_user_id a = uid" "may_write s a" and wf: "draft_wf s aid"
    and asked: "map fst inputs = missing_fields s aid"
    and accepted: "map (\<lambda>(f, t). stored_answer f t) inputs = map Some vs"
    and fits: "render_intro_html (draft_pairs s aid @ zip (map fst inputs) vs) (catalog_version a) = Inr h"
    and kind: "confirmation_effect s uid a = Inr kind" "\<not> effect_exists s aid kind"
  shows "\<exists>s'. answer_all uid aid inputs s = Inr s' \<and> missing_fields s' aid = [] \<and>
    current_snapshot s' a = Inr h \<and> is_ok (confirm_application sha uid aid (intro_digest sha h) s')"
proof -
  from answer_all_draft [OF a wf asked accepted] fits obtain s' where s':
    "answer_all uid aid inputs s = Inr s'" "draft_wf s' aid" "missing_fields s' aid = []"
    "draft_pairs s' aid = draft_pairs s aid @ zip (map fst inputs) vs" by auto
  note same = answer_all_frame [OF s'(1)]
  have id: "app_id a = aid" using a(1) by (rule app_get_id)
  have "render_intro_html (answer_pairs s' aid) (catalog_version a) = Inr h"
    using render_mset [OF mset_answer_pairs [OF s'(2)]] s'(4) fits by simp
  then have snap: "current_snapshot s' a = Inr h" by (simp add: current_snapshot_def id)
  have "locked_application s' uid aid = Inr a" using a same by (simp add: locked_ok app_get_def)
  moreover have "require_refresh_member s' a = Inr ()"
    using a(3) require_member_cong [of s' s a a] same by (simp add: may_write_def)
  moreover have "confirmation_effect s' uid a = Inr kind"
    using kind(1) same by (simp only: confirmation_effect_def intro_get_def)
  moreover have "\<not> effect_exists s' aid kind" using kind(2) same by (simp add: effect_exists_def)
  ultimately have "is_ok (confirm_application sha uid aid (intro_digest sha h) s')"
    using a(3) snap id
    by (simp add: confirm_application_def may_write_def effect_add_def effect_exists_def Let_def)
  with s' snap show ?thesis by blast
qed

text \<open>A small database: one member, one admission draft without answers.\<close>

definition sample_member :: user where
  "sample_member = \<lparr>u_id = 7, username = Some (cp ''alice''), first_name = cp ''Alice'', last_name = None,
     is_member = True, is_admin = False, joined_at = Some 0, left_at = None,
     is_imported_only = False, is_bot = Some False\<rparr>"

definition sample_db :: db where
  "sample_db = \<lparr>users = [sample_member],
     applications = [new_application 1 7 Admission None ''intro-v2'' 0],
     answers = [], intros = [], effects = [], reconciliations = [], trackings = [], vouches = [],
     invites = [], next_app_id = 2, next_effect_id = 1, next_tracking_id = 1, next_invite_id = 1\<rparr>"

definition sample_inputs :: "(string \<times> ustr) list" where
  "sample_inputs = map (\<lambda>f. (f, cp ''@alice'')) catalog_ids"

lemma sample_stored: "stored_answer f (cp ''@alice'') = Some (cp ''@alice'')"
proof -
  have "clean_answer (cp ''@alice'') = cp ''@alice''"
    by (simp add: clean_answer_def cp_def py_strip_def strip_by_def py_isspace_def)
  moreover have "normalize_referral_username (cp ''@alice'') = Inr (cp ''@alice'')"
    by (simp add: normalize_referral_username_def py_strip_def strip_by_def py_isspace_def cp_def
        telegram_username_def username_char_def ascii_lower_def Let_def)
  ultimately show ?thesis by (simp add: stored_answer_def Let_def) (simp add: cp_def)
qed

lemma sample_inputs_render:
  "render_intro_html sample_inputs ''intro-v2'' = Inr (intro_block ''intro-v2'' intro_v2 sample_inputs)"
proof -
  have c: "clean_answer (cp ''@alice'') = cp ''@alice''" "length (html_escape (cp ''@alice'')) = 6"
    "cp ''@alice'' \<noteq> []"
    by (simp_all add: clean_answer_def cp_def py_strip_def strip_by_def py_isspace_def escape_char_def)
  have "length (intro_block ''intro-v2'' intro_v2 sample_inputs) \<le> frozen_intro_body_limit"
    by (simp add: intro_block_def length_join_lines render_line_def sample_inputs_def catalog_ids_def
        value_of_def intro_v2_def label_separator_def frozen_intro_body_limit_def c)
      (simp add: cp_def)
  then show ?thesis
    by (simp add: render_iff get_intro_catalog_def)
      (simp add: sample_inputs_def catalog_ids_def c)
qed

lemma sample_draft:
  "app_get sample_db 1 = Some (new_application 1 7 Admission None ''intro-v2'' 0)"
  "may_write sample_db (new_application 1 7 Admission None ''intro-v2'' 0)"
  "draft_wf sample_db 1" "missing_fields sample_db 1 = catalog_ids" "draft_pairs sample_db 1 = []"
  "confirmation_effect sample_db 7 (new_application 1 7 Admission None ''intro-v2'' 0) = Inr Candidate_card"
  "\<not> effect_exists sample_db 1 kind"
  by (simp_all add: sample_db_def app_get_def new_application_def may_write_def
      require_refresh_member_def catalog_of_def get_intro_catalog_def draft_wf_def draft_rows_def
      missing_fields_def answered_fields_def qa_get_by_application_def draft_pairs_def
      confirmation_effect_def effect_exists_def)

lemma sample_inputs_facts:
  "map fst sample_inputs = catalog_ids"
  "map (\<lambda>(f, t). stored_answer f t) sample_inputs = map Some (replicate 7 (cp ''@alice''))"
  "zip catalog_ids (replicate 7 (cp ''@alice'')) = sample_inputs"
  by (simp_all add: sample_inputs_def sample_stored comp_def zip_replicate2 map_replicate_const)

theorem draft_completes_witness:
  "\<exists>s'. answer_all 7 1 sample_inputs sample_db = Inr s' \<and> missing_fields s' 1 = []"
proof -
  let ?a = "new_application 1 7 Admission None ''intro-v2'' 0"
  have u: "app_user_id ?a = 7" by (simp add: new_application_def)
  have i: "map fst sample_inputs = missing_fields sample_db 1"
    by (simp only: sample_inputs_facts sample_draft)
  have r: "render_intro_html (draft_pairs sample_db 1 @ zip (map fst sample_inputs)
      (replicate 7 (cp ''@alice''))) (catalog_version ?a) =
      Inr (intro_block ''intro-v2'' intro_v2 sample_inputs)"
    using sample_inputs_render
    by (simp add: sample_inputs_facts sample_draft new_application_def)
  show ?thesis
    using draft_completes [OF sample_draft(1) u sample_draft(2,3) i sample_inputs_facts(2) r
      sample_draft(6,7)] by blast
qed

theorem write_answer_step_witness:
  "\<exists>s'. write_answer 7 1 ''name'' (cp '' Bob '') sample_db = Inr (Some ''location'', s') \<and>
     length (answers s') = 1"
proof -
  have v: "stored_answer ''name'' (cp '' Bob '') = Some (cp ''Bob'')"
    by (simp add: stored_answer_def clean_answer_def py_strip_def strip_by_def py_isspace_def cp_def)
  have m: "missing_fields sample_db 1 = ''name'' # tl catalog_ids"
    by (simp add: sample_draft catalog_ids_def)
  have u: "app_user_id (new_application 1 7 Admission None ''intro-v2'' 0) = 7"
    by (simp add: new_application_def)
  from write_answer_succeeds [OF sample_draft(1) u sample_draft(2,3) m v]
  have w: "\<exists>s'. write_answer 7 1 ''name'' (cp '' Bob '') sample_db = Inr (Some ''location'', s')"
    by (auto simp: catalog_ids_def)
  then obtain s' where s': "write_answer 7 1 ''name'' (cp '' Bob '') sample_db = Inr (Some ''location'', s')"
    by blast
  from write_answer_step [OF s'] have "length (answers s') = 1" by (auto simp: sample_db_def)
  with s' show ?thesis by blast
qed

definition confirmed_db :: db where
  "confirmed_db = sample_db\<lparr>applications :=
     [(new_application 1 7 Admission None ''intro-v2'' 0)
        \<lparr>status := Confirmed, confirmed_intro_html := Some (cp ''x'')\<rparr>]\<rparr>"

theorem confirm_binds_snapshot_witness:
  "\<exists>a. confirm_application (\<lambda>bs. replicate 32 0) 7 1 (intro_digest (\<lambda>bs. replicate 32 0) (cp ''x''))
     confirmed_db = Inr (a, confirmed_db) \<and> status a = Confirmed"
proof -
  have "\<exists>a. confirm_application (\<lambda>bs. replicate 32 0) 7 1
      (intro_digest (\<lambda>bs. replicate 32 0) (cp ''x'')) confirmed_db = Inr (a, confirmed_db)"
    by (simp add: confirm_application_def locked_application_def confirmed_db_def sample_db_def
        app_get_def new_application_def require_refresh_member_def)
  then obtain a where a: "confirm_application (\<lambda>bs. replicate 32 0) 7 1
      (intro_digest (\<lambda>bs. replicate 32 0) (cp ''x'')) confirmed_db = Inr (a, confirmed_db)" by blast
  from confirm_binds_snapshot [OF this] a show ?thesis by blast
qed

subsection \<open>Resetting a draft and selecting fields\<close>

lemma map_of_pairs:
  "list_all (\<lambda>q. qa_field_id q \<noteq> None) qs \<Longrightarrow>
   map_of (map (\<lambda>q. (coalesce (qa_field_id q) '''', answer_text q)) qs) f =
     map_option answer_text (List.find (\<lambda>q. qa_field_id q = Some f) qs)"
  by (induction qs) (auto simp: coalesce_def)

lemma find_answer:
  assumes wf: "draft_wf s aid"
  shows "map_option answer_text (List.find (\<lambda>q. qa_field_id q = Some f) (qa_get_by_application s aid)) =
    map_of (draft_pairs s aid) f"
proof -
  have "list_all (\<lambda>q. qa_field_id q \<noteq> None) (qa_get_by_application s aid)"
    using wf by (auto simp: qa_get_draft draft_wf_def list_all_iff)
  from map_of_pairs [OF this] have "map_option answer_text
      (List.find (\<lambda>q. qa_field_id q = Some f) (qa_get_by_application s aid)) = map_of (answer_pairs s aid) f"
    by (simp add: answer_pairs_def)
  also have "distinct (map fst (answer_pairs s aid))"
    using mset_answer_pairs [OF wf] draft_pairs_keys(1) [OF wf]
    by (metis mset_map mset_eq_imp_distinct_iff)
  then have "map_of (answer_pairs s aid) f = map_of (draft_pairs s aid) f"
    using mset_answer_pairs [OF wf] draft_pairs_keys(1) [OF wf] map_of_inject_set mset_eq_setD
    by metis
  finally show ?thesis .
qed

lemma catalog_field_id: "catalog_of a = Inr catalog \<Longrightarrow> i < 7 \<Longrightarrow> field_id (catalog ! i) = catalog_ids ! i"
  using catalog_of_ids by (metis length_catalog_ids length_map nth_map)

lemma save_field_ok:
  "save_field a i fld v s = Inr s' \<longleftrightarrow>
     (\<forall>q \<in> set (answers s). qa_application_id q \<noteq> app_id a \<or> qa_field_id q \<noteq> Some (field_id fld)) \<and>
     s' = add_row (saved_row (app_user_id a) (app_id a) (field_id fld) i (question fld) v) s"
  by (simp add: save_field_def qa_save_ok add_row_def saved_row_def)

lemma save_referral_pairs:
  assumes "save_referral a r s = Inr s'"
  shows "\<exists>v. normalize_referral_username r = Inr v \<and>
    draft_pairs s' (app_id a) = draft_pairs s (app_id a) @ [(''referral'', v)] \<and>
    (\<exists>q. s' = add_row q s \<and> qa_application_id q = app_id a)"
proof -
  from assms obtain catalog v where c: "catalog_of a = Inr catalog"
    and v: "normalize_referral_username r = Inr v" and sv: "save_field a 2 (catalog ! 2) v s = Inr s'"
    by (auto simp: save_referral_def bindE_Inr_iff)
  have "field_id (catalog ! 2) = ''referral''"
    using catalog_field_id [OF c, of 2] by (simp add: catalog_ids_def)
  with sv have "s' = add_row (saved_row (app_user_id a) (app_id a) ''referral'' 2 (question (catalog ! 2)) v) s"
    by (simp add: save_field_ok)
  with v show ?thesis by (auto simp: draft_pairs_add)
qed

lemma delete_current_pairs: "draft_wf s aid \<Longrightarrow> draft_pairs (qa_delete_current aid s) aid = []"
  by (auto simp: draft_pairs_def draft_rows_def qa_delete_current_def delete_where_def draft_wf_def
      list_all_iff filter_empty_conv)

lemma missing_name:
  "missing_fields s aid = ''name'' # fs" if "''name'' \<notin> set (answered_fields s aid)"
    and "fs = filter (\<lambda>f. f \<notin> set (answered_fields s aid)) (tl catalog_ids)"
  using that by (simp add: missing_fields_def catalog_ids_def)

definition kept_referral :: "(string \<times> ustr) list \<Rightarrow> (string \<times> ustr) list" where
  "kept_referral pairs =
     (case map_of pairs ''referral'' of
        None \<Rightarrow> []
      | Some r \<Rightarrow> (case normalize_referral_username r of Inl _ \<Rightarrow> [] | Inr v \<Rightarrow> [(''referral'', v)]))"

text \<open>
  Starting over discards every answer but one: a draft whose preview matches the button is
  emptied, except that a concrete referral is kept (in canonical form), so the questionnaire
  begins again at the name and never asks the referral a second time.
\<close>

theorem reset_keeps_referral:
  assumes r: "reset_draft sha uid aid digest s = Inr (nxt, s')" and wf: "draft_wf s aid"
  shows "draft_pairs s' aid = kept_referral (draft_pairs s aid) \<and>
    draft_rows s' other = (if other = aid then draft_rows s' aid else draft_rows s other) \<and>
    applications s' = applications s \<and> effects s' = effects s"
proof -
  let ?s1 = "qa_delete_current aid s" and ?r = "map_of (draft_pairs s aid) ''referral''"
  from r obtain a where l: "locked_application s uid aid = Inr a"
    and raw: "(case map_option answer_text
         (List.find (\<lambda>q. qa_field_id q = Some ''referral'') (qa_get_by_application s (app_id a))) of
         None \<Rightarrow> Inr (qa_delete_current (app_id a) s)
       | Some r \<Rightarrow> if is_concrete_referral (Some r) then save_referral a r (qa_delete_current (app_id a) s)
           else Inr (qa_delete_current (app_id a) s)) = Inr s'"
    unfolding reset_draft_def Let_def bindE_Inr_iff ensureE_Inr_iff sum.inject prod.inject by blast
  from l have id: "app_id a = aid" by (auto simp: locked_ok dest: app_get_id)
  have s2: "(case ?r of None \<Rightarrow> Inr ?s1
       | Some r \<Rightarrow> if is_concrete_referral (Some r) then save_referral a r ?s1 else Inr ?s1) = Inr s'"
    using raw unfolding id find_answer [OF wf] .
  have "draft_pairs s' aid = kept_referral (draft_pairs s aid) \<and>
    (s' = ?s1 \<or> (\<exists>q. s' = add_row q ?s1 \<and> qa_application_id q = aid))"
    using s2 delete_current_pairs [OF wf] id
    by (auto simp: kept_referral_def concrete_iff is_ok_def dest!: save_referral_pairs
        split: option.splits sum.splits if_splits)
  moreover have "draft_rows ?s1 other = draft_rows s other" if "other \<noteq> aid"
    using that by (auto simp: draft_rows_def qa_delete_current_def delete_where_def intro!: filter_cong)
  moreover have "applications ?s1 = applications s" "effects ?s1 = effects s"
    by (simp_all add: qa_delete_current_def)
  ultimately show ?thesis by (auto simp: draft_rows_add)
qed

definition draft_db :: db where
  "draft_db = sample_db\<lparr>answers := map (\<lambda>(i, f). saved_row 7 1 f i [] (cp ''@alice''))
     (zip [0, 1, 2, 3, 4, 5, 6] catalog_ids)\<rparr>"

lemma draft_db_facts:
  "answer_pairs draft_db 1 = sample_inputs" "draft_wf draft_db 1"
  "map_option answer_text (List.find (\<lambda>q. qa_field_id q = Some ''referral'')
     (qa_get_by_application draft_db 1)) = Some (cp ''@alice'')"
  by (simp_all add: draft_db_def sample_db_def answer_pairs_def qa_get_by_application_def
      catalog_ids_def saved_row_def coalesce_def sample_inputs_def draft_wf_def draft_rows_def)

theorem reset_keeps_referral_witness:
  "\<exists>nxt s'. reset_draft (\<lambda>bs. replicate 32 0) 7 1
      (intro_digest (\<lambda>bs. replicate 32 0) []) draft_db = Inr (nxt, s') \<and>
    draft_pairs s' 1 = kept_referral (draft_pairs draft_db 1)"
proof -
  let ?a = "new_application 1 7 Admission None ''intro-v2'' 0"
  let ?s1 = "qa_delete_current 1 draft_db"
  have a: "app_get draft_db 1 = Some ?a" by (simp add: draft_db_def sample_db_def app_get_def new_application_def)
  have f: "app_id ?a = 1" "app_user_id ?a = 7" "app_flow_kind ?a = Some Admission" "status ?a = Filling"
    "catalog_version ?a = ''intro-v2''"
    by (simp_all add: new_application_def)
  have snap: "current_snapshot draft_db ?a = Inr (intro_block ''intro-v2'' intro_v2 sample_inputs)"
    by (simp add: current_snapshot_def f draft_db_facts sample_inputs_render)
  have dig: "intro_digest (\<lambda>bs. replicate 32 0) h = intro_digest (\<lambda>bs. replicate 32 0) []" for h
    by (simp add: intro_digest_def)
  have n: "normalize_referral_username (cp ''@alice'') = Inr (cp ''@alice'')"
    using sample_stored [of "''referral''"]
    by (simp add: stored_answer_def clean_answer_def cp_def py_strip_def strip_by_def py_isspace_def
        split: sum.splits)
  have e: "answers ?s1 = []"
    by (simp add: qa_delete_current_def draft_db_def catalog_ids_def saved_row_def delete_where_def)
  obtain s2 where s2: "save_referral ?a (cp ''@alice'') ?s1 = Inr s2"
    by (simp add: save_referral_def catalog_of_def f get_intro_catalog_def n save_field_def qa_save_def e)
  have c: "is_concrete_referral (Some (cp ''@alice''))" using n by (simp add: concrete_iff)
  from draft_db_facts(3) obtain q where q: "List.find (\<lambda>q. qa_field_id q = Some ''referral'')
     (qa_get_by_application draft_db 1) = Some q" "answer_text q = cp ''@alice''" by auto
  have "\<exists>nxt. reset_draft (\<lambda>bs. replicate 32 0) 7 1
      (intro_digest (\<lambda>bs. replicate 32 0) []) draft_db = Inr (nxt, s2)"
    using a f snap s2 c q
    by (simp add: reset_draft_def locked_application_def require_refresh_member_def Let_def
        dig [of "intro_block ''intro-v2'' intro_v2 sample_inputs"]
        next_missing_field_def catalog_of_def get_intro_catalog_def)
  then obtain nxt where r: "reset_draft (\<lambda>bs. replicate 32 0) 7 1
      (intro_digest (\<lambda>bs. replicate 32 0) []) draft_db = Inr (nxt, s2)" by blast
  from reset_keeps_referral [OF r draft_db_facts(2)] r show ?thesis by blast
qed

text \<open>The fields a partial refresh copies from the previous intro.\<close>

lemma copy_fields_pairs:
  assumes "copy_fields a i fs base_values ids s = Inr s'"
  shows "draft_pairs s' (app_id a) = draft_pairs s (app_id a) @
      map (\<lambda>f. (f, the (map_of base_values f))) (filter (\<lambda>f. f \<notin> set ids) (map field_id fs)) \<and>
    (draft_wf s (app_id a) \<longrightarrow> set (map field_id fs) \<subseteq> set catalog_ids \<longrightarrow> draft_wf s' (app_id a)) \<and>
    applications s' = applications s"
  using assms
proof (induction fs arbitrary: i s)
  case Nil
  then show ?case by simp
next
  case (Cons f fs)
  show ?case
  proof (cases "field_id f \<in> set ids")
    case True
    with Cons.prems Cons.IH show ?thesis by auto
  next
    case False
    with Cons.prems obtain v s1 where v: "map_of base_values (field_id f) = Some v"
      and s1: "save_field a i f v s = Inr s1" and r: "copy_fields a (Suc i) fs base_values ids s1 = Inr s'"
      by (auto simp: bindE_Inr_iff)
    from s1 have row: "s1 = add_row (saved_row (app_user_id a) (app_id a) (field_id f) i (question f) v) s"
      and fresh: "Some (field_id f) \<notin> qa_field_id ` set (draft_rows s (app_id a))"
      by (auto simp: save_field_ok draft_rows_def)
    have "draft_wf s (app_id a) \<longrightarrow> field_id f \<in> set catalog_ids \<longrightarrow> draft_wf s1 (app_id a)"
      using fresh unfolding row by (auto simp: draft_wf_def draft_rows_add)
    moreover have "draft_pairs s1 (app_id a) = draft_pairs s (app_id a) @ [(field_id f, v)]"
      unfolding row by (rule draft_pairs_add)
    moreover have "applications s1 = applications s" unfolding row by simp
    ultimately show ?thesis using Cons.IH [OF r] v False by auto
  qed
qed

lemma catalog_v2: "catalog_version a = ''intro-v2'' \<Longrightarrow> catalog_of a = Inr intro_v2"
  by (simp add: catalog_of_def get_intro_catalog_def)

lemma app_create_ok:
  assumes "app_create uid kind base catalog now s = Inr (a, s')"
  shows "a = new_application (next_app_id s) uid kind base catalog now \<and>
    s' = s\<lparr>applications := applications s @ [a], next_app_id := next_app_id s + 1\<rparr> \<and>
    (active_refresh a \<longrightarrow> (\<forall>b \<in> set (applications s). app_user_id b = uid \<longrightarrow> \<not> active_refresh b))"
  using assms by (auto simp: app_create_def Let_def list_ex_iff split: if_splits)

lemma start_refresh_fresh:
  assumes "start_or_resume_refresh uid editable now s = Inr (a, s')" "app_get_active_refresh s uid = None"
  obtains base base_values s1 where
    "base = (case intro_get s uid of None \<Rightarrow> None | Some i \<Rightarrow> in_application_id i)"
    "base_values = refresh_base_values s base"
    "a = new_application (next_app_id s) uid Refresh base ''intro-v2'' now"
    "s1 = s\<lparr>applications := applications s @ [a], next_app_id := next_app_id s + 1\<rparr>"
    "validate_refresh_selection a base_values editable = Inr ()"
    "copy_refresh_answers a base_values editable s1 = Inr s'"
    "app_create uid Refresh base ''intro-v2'' now s = Inr (a, s1)"
proof -
  let ?base = "case intro_get s uid of None \<Rightarrow> None | Some i \<Rightarrow> in_application_id i"
  let ?bv = "refresh_base_values s ?base"
  from assms have "bindE (app_create uid Refresh ?base ''intro-v2'' now s) (\<lambda>(a, s1).
      bindE (validate_refresh_selection a ?bv editable) (\<lambda>_.
      bindE (copy_refresh_answers a ?bv editable s1) (\<lambda>s2. Inr (a, s2)))) = Inr (a, s')"
    by (auto simp: start_or_resume_refresh_def Let_def split: if_splits sum.splits intro_error.splits)
  then obtain s1 where c: "app_create uid Refresh ?base ''intro-v2'' now s = Inr (a, s1)"
    and v: "validate_refresh_selection a ?bv editable = Inr ()"
    and w: "copy_refresh_answers a ?bv editable s1 = Inr s'"
    by (auto simp: bindE_Inr_iff)
  from app_create_ok [OF c] have ac: "a = new_application (next_app_id s) uid Refresh ?base ''intro-v2'' now"
    "s1 = s\<lparr>applications := applications s @ [a], next_app_id := next_app_id s + 1\<rparr>" by blast+
  show thesis by (rule that [OF refl refl ac v w c])
qed

text \<open>
  A partial refresh asks exactly the selected fields: when a member starts one, every field
  not selected already holds the answer of the previous intro, the missing fields are the selected
  ones in catalog order, and a previous intro with a concrete referral cannot have its referral
  selected.
\<close>

theorem refresh_asks_selection:
  assumes r: "start_or_resume_refresh uid (Some ids) now s = Inr (a, s')"
    and none: "app_get_active_refresh s uid = None"
    and fresh: "draft_rows s (next_app_id s) = []"
  shows "(\<exists>i. intro_get s uid = Some i \<and> base_application_id a = in_application_id i) \<and>
    missing_fields s' (app_id a) = filter (\<lambda>f. f \<in> set ids) catalog_ids \<and>
    draft_pairs s' (app_id a) = map (\<lambda>f. (f, value_of (refresh_base_values s (base_application_id a)) f))
      (filter (\<lambda>f. f \<notin> set ids) catalog_ids) \<and>
    \<not> (''referral'' \<in> set ids \<and>
       is_ok (normalize_referral_username (value_of (refresh_base_values s (base_application_id a)) ''referral'')))"
proof -
  from start_refresh_fresh [OF r none] obtain base bv s1 where
    base: "base = (case intro_get s uid of None \<Rightarrow> None | Some i \<Rightarrow> in_application_id i)"
    and bv: "bv = refresh_base_values s base"
    and a: "a = new_application (next_app_id s) uid Refresh base ''intro-v2'' now"
    and s1: "s1 = s\<lparr>applications := applications s @ [a], next_app_id := next_app_id s + 1\<rparr>"
    and v: "validate_refresh_selection a bv (Some ids) = Inr ()"
    and w: "copy_refresh_answers a bv (Some ids) s1 = Inr s'" .
  have f: "app_id a = next_app_id s" "base_application_id a = base" "catalog_version a = ''intro-v2''"
    unfolding a by (simp_all add: new_application_def)
  note cat = catalog_v2 [OF f(3)]
  have valid: "base \<noteq> None" "set (map fst bv) = set catalog_ids"
    "\<not> (''referral'' \<in> set ids \<and> is_concrete_referral (map_of bv ''referral''))"
    using v cat f by (auto simp: validate_refresh_selection_def Let_def simp del: set_map split: if_splits)
  from w cat have cf: "copy_fields a 0 intro_v2 bv ids s1 = Inr s'"
    by (simp add: copy_refresh_answers_def)
  have rows: "draft_rows s1 (app_id a) = []" using fresh f unfolding s1 by (simp add: draft_rows_def)
  then have "draft_pairs s1 (app_id a) = []" "draft_wf s1 (app_id a)"
    by (simp_all add: draft_pairs_def draft_wf_def)
  with copy_fields_pairs [OF cf] have p: "draft_pairs s' (app_id a) =
      map (\<lambda>f. (f, the (map_of bv f))) (filter (\<lambda>f. f \<notin> set ids) catalog_ids)" and wf: "draft_wf s' (app_id a)"
    by simp_all
  have "the (map_of bv f) = value_of bv f" if "f \<in> set catalog_ids" for f
    using that valid(2) map_of_eq_None_iff [of bv f] by (cases "map_of bv f") (auto simp: value_of_def)
  then have p': "draft_pairs s' (app_id a) =
      map (\<lambda>f. (f, value_of bv f)) (filter (\<lambda>f. f \<notin> set ids) catalog_ids)"
    unfolding p by simp
  have "set (answered_fields s' (app_id a)) = set (filter (\<lambda>f. f \<notin> set ids) catalog_ids)"
    using draft_pairs_keys(3) [OF wf] unfolding p by (simp add: image_image)
  then have m: "missing_fields s' (app_id a) = filter (\<lambda>f. f \<in> set ids) catalog_ids"
    unfolding missing_fields_def by (auto intro!: filter_cong)
  have "''referral'' \<in> set (map fst bv)" unfolding valid(2) by (simp add: catalog_ids_def)
  then obtain r where "map_of bv ''referral'' = Some r"
    by (metis map_of_eq_None_iff not_Some_eq set_map)
  then have "\<not> (''referral'' \<in> set ids \<and> is_ok (normalize_referral_username (value_of bv ''referral'')))"
    using valid(3) by (auto simp: value_of_def concrete_iff)
  moreover have "\<exists>i. intro_get s uid = Some i \<and> base_application_id a = in_application_id i"
    using valid(1) f(2) base by (auto split: option.splits)
  ultimately show ?thesis using m p' unfolding f(2) bv [symmetric] by blast
qed

definition refresh_db :: db where
  "refresh_db = draft_db\<lparr>intros := [\<lparr>in_user_id = 7, intro_text = [], vouched_by_name = [],
     in_application_id = Some 1, in_updated_at = 0\<rparr>]\<rparr>"

lemma copy_fields_succeeds:
  assumes "distinct (map field_id fs)" "\<forall>f \<in> set (map field_id fs). map_of bv f \<noteq> None"
    and "\<forall>q \<in> set (answers s). qa_application_id q = app_id a \<longrightarrow> qa_field_id q \<notin> Some ` set (map field_id fs)"
  shows "is_ok (copy_fields a i fs bv ids s)"
  using assms
proof (induction fs arbitrary: i s)
  case (Cons f fs)
  then obtain v where v: "map_of bv (field_id f) = Some v" by auto
  obtain s1 where s1: "save_field a i f v s = Inr s1" using Cons.prems(3) by (auto simp: save_field_ok)
  have "\<forall>q \<in> set (answers s1). qa_application_id q = app_id a \<longrightarrow> qa_field_id q \<notin> Some ` set (map field_id fs)"
    using s1 Cons.prems(1,3) by (auto simp: save_field_ok add_row_def)
  with Cons s1 v show ?case by auto
qed simp

lemma refresh_base_db:
  "refresh_base_values refresh_db (Some 1) = rev sample_inputs"
  by (simp add: refresh_base_values_def refresh_db_def draft_db_def sample_db_def
      qa_get_by_application_def catalog_ids_def saved_row_def sample_inputs_def map_filter_def)

theorem refresh_asks_selection_witness:
  "\<exists>a s'. start_or_resume_refresh 7 (Some [''goals'']) 5 refresh_db = Inr (a, s') \<and>
     missing_fields s' (app_id a) = [''goals'']"
proof -
  let ?a = "new_application 2 7 Refresh (Some 1) ''intro-v2'' 5"
  let ?s1 = "refresh_db\<lparr>applications := applications refresh_db @ [?a], next_app_id := 3\<rparr>"
  have n: "next_app_id refresh_db = 2" by (simp add: refresh_db_def draft_db_def sample_db_def)
  have none: "app_get_active_refresh refresh_db 7 = None"
    by (simp add: app_get_active_refresh_def refresh_db_def draft_db_def sample_db_def
        active_refresh_def new_application_def)
  have u: "user_get refresh_db 7 = Some sample_member" "is_member sample_member"
    "intro_get refresh_db 7 = Some \<lparr>in_user_id = 7, intro_text = [], vouched_by_name = [],
       in_application_id = Some 1, in_updated_at = 0\<rparr>"
    by (simp_all add: user_get_def intro_get_def refresh_db_def draft_db_def sample_db_def sample_member_def)
  have c: "app_create 7 Refresh (Some 1) ''intro-v2'' 5 refresh_db = Inr (?a, ?s1)"
    by (simp add: app_create_def get_intro_catalog_def n Let_def refresh_db_def draft_db_def
        sample_db_def active_refresh_def new_application_def)
  have ids: "set (map fst (rev sample_inputs)) = set catalog_ids"
    unfolding rev_map [symmetric] set_rev sample_inputs_facts ..
  have a: "app_id ?a = 2" "base_application_id ?a = Some 1" "catalog_of ?a = Inr intro_v2"
    by (simp_all add: new_application_def catalog_of_def get_intro_catalog_def)
  have v: "validate_refresh_selection ?a (rev sample_inputs) (Some [''goals'']) = Inr ()"
    using ids by (simp add: validate_refresh_selection_def a Let_def del: set_map)
      (simp add: catalog_ids_def)
  have "is_ok (copy_fields ?a 0 intro_v2 (rev sample_inputs) [''goals''] ?s1)"
  proof (rule copy_fields_succeeds)
    show "\<forall>f \<in> set (map field_id intro_v2). map_of (rev sample_inputs) f \<noteq> None"
      using ids by (simp add: map_of_eq_None_iff del: set_map) (simp add: set_map)
    show "\<forall>q \<in> set (answers ?s1). qa_application_id q = app_id ?a \<longrightarrow> qa_field_id q \<notin> Some ` set (map field_id intro_v2)"
      by (auto simp: refresh_db_def draft_db_def a)
  qed simp
  then obtain s' where "copy_refresh_answers ?a (rev sample_inputs) (Some [''goals'']) ?s1 = Inr s'"
    by (auto simp: is_ok_iff copy_refresh_answers_def a)
  with none u c v have "\<exists>a s'. start_or_resume_refresh 7 (Some [''goals'']) 5 refresh_db = Inr (a, s')"
    by (simp add: start_or_resume_refresh_def refresh_base_db)
  then obtain a s' where r: "start_or_resume_refresh 7 (Some [''goals'']) 5 refresh_db = Inr (a, s')" by blast
  have f: "draft_rows refresh_db (next_app_id refresh_db) = []"
    unfolding n by (auto simp: refresh_db_def draft_db_def draft_rows_def filter_empty_conv)
  from refresh_asks_selection [OF r none f]
  have "missing_fields s' (app_id a) = filter (\<lambda>f. f \<in> set [''goals'']) catalog_ids" by blast
  with r show ?thesis by (auto simp: catalog_ids_def)
qed

end
