(* ===== verification/Admission.thy ===== *)
theory Admission
  imports IntroModels
begin

section \<open>Vouching, invites and joining the chat\<close>

text \<open>
  The transactions that turn a pending questionnaire into a member: handlers/vouch.py,
  services/invite_worker.py, handlers/chat_events.py and the deadline job of services/scheduler.py.
  A handler returns the Telegram calls it attempts with the new database; a call that fails is caught
  and logged by the code, so its outcome matters only where the code looks at it (the invite worker).
  \<open>env\<close> is what other transactions commit between a handler's first read and its compare-and-set.
\<close>

subsection \<open>Telegram calls\<close>

datatype reply =
  Already_processed | Only_members_vouch | Cant_vouch_self | Vouch_thanks | Not_your_button | No_text

datatype bot_text =
  Vouched_notification ustr | Invite_link_msg ustr | Privacy_block_msg int | Ready_accepted
| Kick_notice ustr | Fill_form_hint | Rejected_msg | Nudge_msg | Admin_nudge_msg ustr ustr int

datatype tg_call =
  Answer reply
| Send_message int bot_text
| Edit_text bot_text
| Delete_message int int
| Ban_member int int
| Unban_member int int

text \<open>Python truth of an optional string, and a user's username after an at sign, or else the first name.\<close>

definition truthy :: "ustr option \<Rightarrow> bool" where
  "truthy x = (case x of None \<Rightarrow> False | Some v \<Rightarrow> v \<noteq> [])"

definition mention_of :: "ustr option \<Rightarrow> ustr \<Rightarrow> ustr" where
  "mention_of uname first = (if truthy uname then 64 # the uname else first)"

subsection \<open>handlers/vouch.py\<close>

definition vouch_open :: "int \<Rightarrow> application \<Rightarrow> bool" where
  "vouch_open aid a \<longleftrightarrow> app_id a = aid \<and> app_flow_kind a = Some Admission \<and> status a = Pending"

definition vouch_update :: "int \<Rightarrow> int \<Rightarrow> int \<Rightarrow> application \<Rightarrow> application" where
  "vouch_update voucher uid now a = a\<lparr>status := Vouched, vouched_by := Some voucher,
     vouched_at := Some now, invite_user_id := Some uid\<rparr>"

definition handle_vouch ::
  "int \<Rightarrow> int option \<Rightarrow> int \<Rightarrow> int option \<Rightarrow> int \<Rightarrow> (db \<Rightarrow> db) \<Rightarrow> db \<Rightarrow>
   intro_error + tg_call list \<times> db" where
  "handle_vouch community from_user aid msg now env s =
     (case from_user of None \<Rightarrow> Inr ([], s) | Some voucher \<Rightarrow>
     (case app_get s aid of None \<Rightarrow> Inr ([Answer Already_processed], s) | Some a \<Rightarrow>
      if app_flow_kind a \<noteq> Some Admission then Inr ([Answer Already_processed], s)
      else (case user_get s voucher of None \<Rightarrow> Inr ([Answer Only_members_vouch], s) | Some v \<Rightarrow>
        if \<not> is_member v then Inr ([Answer Only_members_vouch], s)
        else if voucher = app_user_id a then Inr ([Answer Cant_vouch_self], s)
        else let s1 = env s in
          if \<not> list_ex (vouch_open aid) (applications s1) then Inr ([Answer Already_processed], s1)
          else let s2 = s1\<lparr>applications :=
                 update_where (vouch_open aid) (vouch_update voucher (app_user_id a) now) (applications s1)\<rparr>
            in bindE (invite_create_pending aid (app_user_id a) community
                   (vouch_create voucher (app_user_id a) aid s2)) (\<lambda>s3.
               Inr ((case msg of None \<Rightarrow> [] | Some m \<Rightarrow> [Delete_message community m]) @
                    [Send_message (app_user_id a)
                       (Vouched_notification (html_escape (mention_of (username v) (first_name v)))),
                     Answer Vouch_thanks], s3)))))"

definition handle_ready ::
  "int \<Rightarrow> int option \<Rightarrow> int \<Rightarrow> bool \<Rightarrow> (db \<Rightarrow> db) \<Rightarrow> db \<Rightarrow> intro_error + tg_call list \<times> db" where
  "handle_ready community from_user aid has_message env s =
     (case from_user of None \<Rightarrow> Inr ([], s) | Some uid \<Rightarrow>
     (case app_get s aid of None \<Rightarrow> Inr ([Answer Already_processed], s) | Some a \<Rightarrow>
      if status a \<noteq> Privacy_block then Inr ([Answer Already_processed], s)
      else if uid \<noteq> app_user_id a then Inr ([Answer Not_your_button], s)
      else let (updated, s1) = app_update_status_if aid Privacy_block Vouched
                 (\<lambda>b. b\<lparr>invite_user_id := Some (app_user_id a)\<rparr>) (env s) in
        if \<not> updated then Inr ([Answer Already_processed], s1)
        else bindE (invite_create_pending aid (app_user_id a) community s1) (\<lambda>s2.
          Inr ((if has_message then [Edit_text Ready_accepted] else []) @ [Answer No_text], s2))))"

subsection \<open>services/invite.py and services/invite_worker.py\<close>

definition max_invite_attempts :: nat where "max_invite_attempts = 5"

definition invite_batch_size :: nat where "invite_batch_size = 10"

text \<open>What Telegram did with a row: the link was created and sent, or a call raised.\<close>

datatype invite_outcome = Invite_sent ustr | Invite_error ustr

definition process_invite_row ::
  "invite_outcome \<Rightarrow> int \<Rightarrow> invite \<Rightarrow> db \<Rightarrow> tg_call list \<times> db" where
  "process_invite_row outcome now row s =
     (case outcome of
        Invite_sent link \<Rightarrow>
          ([Send_message (iv_user_id row) (Invite_link_msg link)],
           invite_update (iv_id row)
             (\<lambda>r. r\<lparr>iv_status := Iv_sent, invite_link := Some link, sent_at := Some now\<rparr>) s)
      | Invite_error err \<Rightarrow>
          let attempts = Suc (iv_attempt_count row);
              s1 = invite_update (iv_id row)
                (\<lambda>r. r\<lparr>iv_attempt_count := attempts, iv_last_error := Some (take 500 err)\<rparr>) s
          in if attempts \<ge> max_invite_attempts
             then let s2 = invite_update (iv_id row) (\<lambda>r. r\<lparr>iv_status := Iv_failed\<rparr>) s1;
                      (demoted, s3) = app_update_status_if (iv_application_id row) Pending Privacy_block
                        (\<lambda>a. a) s2
                  in ((if demoted
                       then [Send_message (iv_user_id row) (Privacy_block_msg (iv_application_id row))]
                       else []), s3)
             else ([], s1))"

fun process_invite_rows ::
  "(int \<Rightarrow> invite_outcome) \<Rightarrow> int \<Rightarrow> invite list \<Rightarrow> db \<Rightarrow> tg_call list \<times> db" where
  "process_invite_rows outcome now [] s = ([], s)"
| "process_invite_rows outcome now (row # rows) s =
     (let (calls, s1) = process_invite_row (outcome (iv_id row)) now row s;
          (calls', s2) = process_invite_rows outcome now rows s1
      in (calls @ calls', s2))"

definition process_invite_outbox :: "(int \<Rightarrow> invite_outcome) \<Rightarrow> int \<Rightarrow> db \<Rightarrow> tg_call list \<times> db" where
  "process_invite_outbox outcome now s =
     process_invite_rows outcome now (invite_get_pending s invite_batch_size) s"

subsection \<open>handlers/chat_events.py\<close>

datatype chat_member_status =
  M_left | M_kicked | M_restricted | M_member | M_administrator | M_creator

record tg_user =
  tg_id :: int
  tg_username :: "ustr option"
  tg_first_name :: ustr
  tg_last_name :: "ustr option"
  tg_is_bot :: "bool option"

record member_event =
  ev_chat_id :: int
  ev_old :: chat_member_status
  ev_new :: chat_member_status
  ev_user :: tg_user

definition is_join :: "member_event \<Rightarrow> bool" where
  "is_join e \<longleftrightarrow> ev_old e \<in> {M_left, M_kicked, M_restricted} \<and>
     ev_new e \<in> {M_member, M_administrator, M_creator}"

definition is_leave :: "member_event \<Rightarrow> bool" where
  "is_leave e \<longleftrightarrow> ev_old e \<in> {M_member, M_administrator, M_creator} \<and> ev_new e \<in> {M_left, M_kicked}"

datatype rejection = No_active_application | Wrong_status int app_status | Wrong_invitee int "int option"

definition admission_rejection_reason :: "application option \<Rightarrow> int \<Rightarrow> rejection option" where
  "admission_rejection_reason active uid =
     (case active of
        None \<Rightarrow> Some No_active_application
      | Some a \<Rightarrow>
          if status a \<notin> {Vouched, Added} then Some (Wrong_status (app_id a) (status a))
          else if invite_user_id a \<noteq> Some uid then Some (Wrong_invitee (app_id a) (invite_user_id a))
          else None)"

definition reject_join :: "int \<Rightarrow> tg_user \<Rightarrow> int \<Rightarrow> db \<Rightarrow> tg_call list \<times> db" where
  "reject_join chat u now s =
     (let first_kick = (case user_get s (tg_id u) of None \<Rightarrow> True | Some r \<Rightarrow> left_at r = None);
          mention = html_escape (mention_of (tg_username u) (tg_first_name u))
      in ([Ban_member chat (tg_id u), Unban_member chat (tg_id u)] @
          (if first_kick then [Send_message chat (Kick_notice mention)] else []) @
          [Send_message (tg_id u) Fill_form_hint],
          set_member (tg_id u) False None (Some now) s))"

definition join_upsert :: "tg_user \<Rightarrow> db \<Rightarrow> db" where
  "join_upsert u = user_upsert (tg_id u) (tg_username u) (tg_first_name u) (tg_last_name u) (tg_is_bot u)"

text \<open>The end of an accepted join: the membership, and the intro of a first admission.\<close>

definition admit_member :: "int \<Rightarrow> int \<Rightarrow> int \<Rightarrow> bool \<Rightarrow> db \<Rightarrow> db" where
  "admit_member uid aid now enqueue_intro s =
     (let s1 = set_member uid True (Some now) None s
      in if intro_get s1 uid \<noteq> None then s1
         else if enqueue_intro then enqueue_once aid Admission_intro s1 else s1)"

definition handle_join ::
  "int list \<Rightarrow> int \<Rightarrow> tg_user \<Rightarrow> int \<Rightarrow> (db \<Rightarrow> db) \<Rightarrow> db \<Rightarrow> tg_call list \<times> db" where
  "handle_join admins chat u now env s =
     (let uid = tg_id u;
          was_member = (case user_get s uid of None \<Rightarrow> False | Some r \<Rightarrow> is_member r);
          s1 = join_upsert u s
      in if uid \<in> set admins then ([], set_member uid True (Some now) None s1)
         else let active = app_get_active s1 uid was_member
           in case admission_rejection_reason active uid of
                Some r \<Rightarrow> reject_join chat u now s1
              | None \<Rightarrow>
                  let a = the active in
                  if status a = Vouched
                  then let (added, s2) = app_update_status_if (app_id a) Vouched Added
                             (\<lambda>b. b\<lparr>added_at := Some now\<rparr>) (env s1)
                    in if added then ([], admit_member uid (app_id a) now True s2)
                       else (case app_get s2 (app_id a) of
                               None \<Rightarrow> reject_join chat u now s2
                             | Some b \<Rightarrow>
                                 if status b \<noteq> Added \<or> admission_rejection_reason (Some b) uid \<noteq> None
                                 then reject_join chat u now s2
                                 else ([], admit_member uid (app_id a) now False s2))
                  else ([], admit_member uid (app_id a) now False s1))"

definition handle_leave :: "tg_user \<Rightarrow> int \<Rightarrow> db \<Rightarrow> db" where
  "handle_leave u now s = set_member (tg_id u) False None (Some now) s"

definition handle_chat_member ::
  "int list \<Rightarrow> int \<Rightarrow> member_event \<Rightarrow> int \<Rightarrow> (db \<Rightarrow> db) \<Rightarrow> db \<Rightarrow> tg_call list \<times> db" where
  "handle_chat_member admins community e now env s =
     (if ev_chat_id e \<noteq> community then ([], s)
      else if is_join e then handle_join admins (ev_chat_id e) (ev_user e) now env s
      else if is_leave e then ([], handle_leave (ev_user e) now s)
      else ([], s))"

subsection \<open>check_vouch_deadlines (services/scheduler.py)\<close>

fun reject_overdue :: "int \<Rightarrow> int \<Rightarrow> application list \<Rightarrow> db \<Rightarrow> tg_call list \<times> db" where
  "reject_overdue community now [] s = ([], s)"
| "reject_overdue community now (a # rest) s =
     (let (rejected, s1) = app_update_status_if (app_id a) Pending Rejected
            (\<lambda>b. b\<lparr>rejected_at := Some now\<rparr>) s
      in if \<not> rejected then reject_overdue community now rest s1
         else let (calls, s2) = reject_overdue community now rest s1
           in ((case questionnaire_message_id a of None \<Rightarrow> []
                | Some m \<Rightarrow> if m = 0 then [] else [Delete_message community m]) @
               Send_message (app_user_id a) Rejected_msg # calls, s2))"

definition admin_nudge :: "db \<Rightarrow> application \<Rightarrow> bot_text" where
  "admin_nudge s a =
     (case user_get s (app_user_id a) of
        None \<Rightarrow> Admin_nudge_msg (html_escape (cp ''Unknown'')) (html_escape (cp ''unknown'')) (app_id a)
      | Some u \<Rightarrow> Admin_nudge_msg (html_escape (first_name u))
          (html_escape (if truthy (username u) then the (username u) else cp ''no_username'')) (app_id a))"

definition nudge_newcomer :: "int \<Rightarrow> application \<Rightarrow> db \<Rightarrow> tg_call list \<times> bool \<times> db" where
  "nudge_newcomer now a s =
     (if nudged_newcomer_at a \<noteq> None then ([], True, s)
      else ([Send_message (app_user_id a) Nudge_msg],
            app_update_status_if (app_id a) Pending Pending (\<lambda>b. b\<lparr>nudged_newcomer_at := Some now\<rparr>) s))"

definition notify_admins :: "int list \<Rightarrow> int \<Rightarrow> application \<Rightarrow> db \<Rightarrow> tg_call list \<times> db" where
  "notify_admins admins now a s =
     (if notified_admin_at a \<noteq> None then ([], s)
      else (map (\<lambda>adm. Send_message adm (admin_nudge s a)) admins,
            snd (app_update_status_if (app_id a) Pending Pending
              (\<lambda>b. b\<lparr>notified_admin_at := Some now\<rparr>) s)))"

fun nudge_pending :: "int list \<Rightarrow> int \<Rightarrow> application list \<Rightarrow> db \<Rightarrow> tg_call list \<times> db" where
  "nudge_pending admins now [] s = ([], s)"
| "nudge_pending admins now (a # rest) s =
     (if status a \<noteq> Pending then nudge_pending admins now rest s
      else let (calls1, ok, s1) = nudge_newcomer now a s;
               (calls2, s2) = (if ok then notify_admins admins now a s1 else ([], s1));
               (calls3, s3) = nudge_pending admins now rest s2
        in (calls1 @ calls2 @ calls3, s3))"

definition check_vouch_deadlines ::
  "int list \<Rightarrow> int \<Rightarrow> int \<Rightarrow> int \<Rightarrow> int \<Rightarrow> (db \<Rightarrow> db) \<Rightarrow> (db \<Rightarrow> db) \<Rightarrow> db \<Rightarrow> tg_call list \<times> db" where
  "check_vouch_deadlines admins community vouch_hours nudge_hours now env1 env2 s =
     (let (calls1, s1) = reject_overdue community now (get_pending_older_than s now vouch_hours) (env1 s);
          (calls2, s2) = nudge_pending admins now (get_pending_created_older_than s1 now nudge_hours) (env2 s1)
      in (calls1 @ calls2, s2))"

end
