(* ===== verification/IntroEffects.thy ===== *)
theory IntroEffects
  imports IntroWorkflow Admission
begin

section \<open>The intro outbox worker (bot/services/intro_effect_worker.py)\<close>

text \<open>
  Publishing is done by a worker that claims one outbox row in a transaction of its own, checks in a
  second transaction that the claim still makes sense, calls Telegram (or the sheet), and writes the
  result in a third.  Each transaction is a function on the database; \<open>process_claimed\<close> composes them
  with an \<open>env\<close> for what other transactions commit while the call is in flight.  A claim is identified
  by the row and its attempt number, which is what every later transaction checks.
\<close>

subsection \<open>Claims\<close>

definition max_pre_dispatch_attempts :: nat where "max_pre_dispatch_attempts = 5"

definition processing_timeout_minutes :: int where "processing_timeout_minutes = 30"

record claimed_effect =
  cl_effect_id :: int
  cl_attempt :: nat
  cl_application_id :: int
  cl_kind :: effect_kind
  cl_user_id :: int
  cl_html :: ustr
  cl_first_name :: ustr
  cl_answers :: "(string \<times> ustr) list"
  cl_username :: "ustr option"
  cl_voucher_name :: ustr
  cl_error :: "string option"

definition voucher_name :: "application \<Rightarrow> user option \<Rightarrow> ustr" where
  "voucher_name a voucher =
     (case (vouched_by a, voucher) of
        (Some _, Some v) \<Rightarrow> mention_of (username v) (first_name v)
      | _ \<Rightarrow> [8212])"

definition snapshot_answers :: "db \<Rightarrow> intro_effect \<Rightarrow> application \<Rightarrow> intro_error + (string \<times> ustr) list" where
  "snapshot_answers s e a =
     (if ef_kind e \<noteq> Sheet_projection then Inr []
      else bindE (catalog_of a) (\<lambda>catalog.
        Inr (rev (List.map_filter (\<lambda>q. case qa_field_id q of
              None \<Rightarrow> None
            | Some f \<Rightarrow> if f \<in> set (map field_id catalog) then Some (f, answer_text q) else None)
          (filter (\<lambda>q. qa_application_id q = app_id a \<and> is_current q) (answers s))))))"

definition snapshot_claim :: "db \<Rightarrow> intro_effect \<Rightarrow> intro_error + claimed_effect" where
  "snapshot_claim s e =
     bindE (someE (app_get s (ef_application_id e))
       (IntroEffectReconcileError ''Effect application has no frozen snapshot'')) (\<lambda>a.
     bindE (someE (confirmed_intro_html a)
       (IntroEffectReconcileError ''Effect application has no frozen snapshot'')) (\<lambda>html.
     bindE (someE (user_get s (app_user_id a))
       (IntroEffectReconcileError ''Effect application has no user'')) (\<lambda>u.
     let voucher = (case vouched_by a of None \<Rightarrow> None | Some v \<Rightarrow> if v = 0 then None else user_get s v);
         current = List.find (\<lambda>i. in_user_id i = app_user_id a \<and> in_application_id i = Some (app_id a)) (intros s)
     in bindE (snapshot_answers s e a) (\<lambda>ans.
     Inr \<lparr>cl_effect_id = ef_id e, cl_attempt = attempt_count e, cl_application_id = app_id a,
          cl_kind = ef_kind e, cl_user_id = app_user_id a, cl_html = html,
          cl_first_name = first_name u, cl_answers = ans, cl_username = username u,
          cl_voucher_name = (case current of Some i \<Rightarrow> vouched_by_name i | None \<Rightarrow> voucher_name a voucher),
          cl_error = None\<rparr>))))"

text \<open>The claim of a row whose application has no snapshot any more.\<close>

definition broken_claim :: "intro_effect \<Rightarrow> string \<Rightarrow> claimed_effect" where
  "broken_claim e err =
     \<lparr>cl_effect_id = ef_id e, cl_attempt = attempt_count e, cl_application_id = ef_application_id e,
      cl_kind = ef_kind e, cl_user_id = 0, cl_html = [], cl_first_name = [], cl_answers = [],
      cl_username = None, cl_voucher_name = [], cl_error = Some err\<rparr>"

definition claim_one ::
  "int option \<Rightarrow> int list \<Rightarrow> bool \<Rightarrow> int \<Rightarrow> db \<Rightarrow> intro_error + claimed_effect option \<times> db" where
  "claim_one high_watermark excluded include_sheet now s =
     (case claim_pending 1 include_sheet high_watermark excluded now s of
        ([], s1) \<Rightarrow> Inr (None, s1)
      | (e # _, s1) \<Rightarrow>
          (case snapshot_claim s1 e of
             Inr c \<Rightarrow> Inr (Some c, s1)
           | Inl (IntroEffectReconcileError err) \<Rightarrow> Inr (Some (broken_claim e err), s1)
           | Inl err \<Rightarrow> Inl err))"

subsection \<open>The message\<close>

definition card_header :: ustr where
  "card_header = [128203, 32, 1053, 1086, 1074, 1072, 1103, 32, 1072, 1085, 1082, 1077,
     1090, 1072, 32, 1086, 1090, 32]"

definition new_member_header :: ustr where
  "new_member_header = [127881, 32, 1053, 1086, 1074, 1099, 1081, 32, 1091, 1095, 1072,
     1089, 1090, 1085, 1080, 1082, 58, 32]"

definition vouched_by_header :: ustr where
  "vouched_by_header = [1055, 1086, 1088, 1091, 1095, 1080, 1083, 1089, 1103, 58, 32]"

definition refresh_header :: ustr where
  "refresh_header = [128260, 32, 1054, 1073, 1085, 1086, 1074, 1083, 1105, 1085, 1085,
     1086, 1077, 32, 1080, 1085, 1090, 1088, 1086]"

definition member_header :: ustr where
  "member_header = [127881, 32, 1048, 1085, 1090, 1088, 1086]"

record telegram_payload =
  pl_chat_id :: int
  pl_text :: ustr
  pl_vouch_keyboard :: "int option"

definition identity :: "claimed_effect \<Rightarrow> ustr" where
  "identity c = html_escape (cl_first_name c) @ cp '' (@'' @
     html_escape (case cl_username c of None \<Rightarrow> [] | Some u \<Rightarrow> u) @ cp '')''"

definition telegram_payload :: "int \<Rightarrow> claimed_effect \<Rightarrow> telegram_payload" where
  "telegram_payload community c =
     (if cl_kind c = Candidate_card
      then \<lparr>pl_chat_id = community, pl_text = card_header @ identity c @ [10, 10] @ cl_html c,
            pl_vouch_keyboard = Some (cl_application_id c)\<rparr>
      else let header =
             (if cl_kind c = Admission_intro
              then new_member_header @ identity c @ [10] @ vouched_by_header @ html_escape (cl_voucher_name c)
              else if cl_kind c = Refresh_intro then refresh_header else member_header)
        in \<lparr>pl_chat_id = community, pl_text = header @ [10, 10] @ cl_html c, pl_vouch_keyboard = None\<rparr>)"

subsection \<open>Checking a claim\<close>

definition valid_semantic_pair :: "intro_effect \<Rightarrow> application \<Rightarrow> bool" where
  "valid_semantic_pair e a =
     (case ef_kind e of
        Candidate_card \<Rightarrow> app_flow_kind a = Some Admission \<and> status a = Confirmed
      | Admission_intro \<Rightarrow> app_flow_kind a = Some Admission \<and> status a = Added
      | Member_intro \<Rightarrow> app_flow_kind a = Some Refresh \<and> status a = Confirmed
      | Refresh_intro \<Rightarrow> app_flow_kind a = Some Refresh \<and> status a = Confirmed
      | Sheet_projection \<Rightarrow> status a = Added \<and> app_flow_kind a \<in> {Some Admission, Some Refresh})"

definition member_user :: "db \<Rightarrow> int \<Rightarrow> bool" where
  "member_user s uid = (case user_get s uid of None \<Rightarrow> False | Some u \<Rightarrow> is_member u)"

definition needs_member :: "effect_kind \<Rightarrow> bool" where
  "needs_member k \<longleftrightarrow> k \<in> {Member_intro, Refresh_intro}"

definition claim_is_semantically_valid :: "db \<Rightarrow> claimed_effect \<Rightarrow> bool" where
  "claim_is_semantically_valid s c =
     (case get_claimed_for_update s (cl_effect_id c) (cl_attempt c) of None \<Rightarrow> False | Some e \<Rightarrow>
     (case app_get s (cl_application_id c) of None \<Rightarrow> False | Some a \<Rightarrow>
      if \<not> valid_semantic_pair e a then False
      else if needs_member (ef_kind e) \<and> \<not> member_user s (cl_user_id c) then False
      else let current = intro_get s (app_user_id a) in
        if ef_kind e = Refresh_intro
        then (case current of None \<Rightarrow> False | Some i \<Rightarrow> in_application_id i = base_application_id a)
        else if ef_kind e \<in> {Admission_intro, Member_intro} then current = None
        else if ef_kind e = Sheet_projection
        then (case current of None \<Rightarrow> False | Some i \<Rightarrow> in_application_id i = Some (app_id a))
        else True))"

subsection \<open>Writing a result\<close>

definition mark_result ::
  "claimed_effect \<Rightarrow> effect_status \<Rightarrow> ustr option \<Rightarrow> int \<Rightarrow> db \<Rightarrow> bool \<times> db" where
  "mark_result c st err now s =
     (case get_claimed_for_update s (cl_effect_id c) (cl_attempt c) of
        None \<Rightarrow> (False, s)
      | Some e \<Rightarrow> (True, effect_update (ef_id e)
          (\<lambda>e. e\<lparr>ef_status := st,
                 ef_last_error := (if truthy err then Some (take 500 (the err)) else None),
                 completed_at := (if st \<in> {E_sent, E_failed, E_stale} then Some now else completed_at e)\<rparr>) s))"

definition fails_application :: "effect_kind \<Rightarrow> bool" where
  "fails_application k \<longleftrightarrow> k \<in> {Candidate_card, Member_intro, Refresh_intro}"

text \<open>\<open>if application.status == "confirmed": application.status = "delivery_failed"\<close>.\<close>

definition fail_confirmed :: "int \<Rightarrow> db \<Rightarrow> db" where
  "fail_confirmed aid s =
     app_update aid (\<lambda>a. if status a = Confirmed then a\<lparr>status := Delivery_failed\<rparr> else a) s"

definition mark_delivery_failed ::
  "claimed_effect \<Rightarrow> effect_status \<Rightarrow> ustr option \<Rightarrow> int \<Rightarrow> db \<Rightarrow> bool \<times> db" where
  "mark_delivery_failed c st err now s =
     (let (found, s1) = mark_result c st err now s
      in (found, if found \<and> fails_application (cl_kind c) then fail_confirmed (cl_application_id c) s1 else s1))"

text \<open>A delivered message that no longer fits its application: the row is stale but keeps the message.\<close>

definition finish_effect :: "int \<Rightarrow> effect_status \<Rightarrow> int \<Rightarrow> int \<Rightarrow> int \<Rightarrow> db \<Rightarrow> db" where
  "finish_effect eid st chat msg now s =
     effect_update eid (\<lambda>e. e\<lparr>ef_status := st, ef_chat_id := Some chat, ef_message_id := Some msg,
       completed_at := Some now\<rparr>) s"

definition finish_clean :: "int \<Rightarrow> effect_status \<Rightarrow> int \<Rightarrow> int \<Rightarrow> int \<Rightarrow> db \<Rightarrow> db" where
  "finish_clean eid st chat msg now s =
     effect_update eid (\<lambda>e. e\<lparr>ef_status := st, ef_chat_id := Some chat, ef_message_id := Some msg,
       ef_last_error := None, completed_at := Some now\<rparr>) s"

definition complete_trackings :: "int \<Rightarrow> db \<Rightarrow> db" where
  "complete_trackings uid s = s\<lparr>trackings :=
     update_where (\<lambda>t. tr_user_id t = uid \<and> \<not> tr_completed t)
       (\<lambda>t. t\<lparr>tr_completed := True, phase := T_done\<rparr>) (trackings s)\<rparr>"

definition accept_application :: "int \<Rightarrow> db \<Rightarrow> db" where
  "accept_application aid = app_update aid (\<lambda>a. a\<lparr>status := Added\<rparr>)"

definition publish_card :: "int \<Rightarrow> int \<Rightarrow> int \<Rightarrow> db \<Rightarrow> db" where
  "publish_card aid msg now =
     app_update aid (\<lambda>a. a\<lparr>status := Pending, questionnaire_message_id := Some msg, submitted_at := Some now\<rparr>)"

definition publish_first_intro :: "application \<Rightarrow> claimed_effect \<Rightarrow> int \<Rightarrow> db \<Rightarrow> db" where
  "publish_first_intro a c now s =
     enqueue_once (app_id a) Sheet_projection
       (intro_add (app_user_id a) (app_id a) (cl_html c) (cl_voucher_name c) now s)"

text \<open>The rows \<open>_finalize_telegram_success\<close> writes, and whether it found the attempt.\<close>

definition telegram_success_rows ::
  "claimed_effect \<Rightarrow> int \<Rightarrow> int \<Rightarrow> int \<Rightarrow> db \<Rightarrow> bool \<times> db" where
  "telegram_success_rows c chat msg now s =
     (case get_claimed_for_update s (cl_effect_id c) (cl_attempt c) of None \<Rightarrow> (False, s) | Some e \<Rightarrow>
      let eid = ef_id e; kind = ef_kind e;
          stale = finish_effect eid E_stale chat msg now s
      in (True,
      case app_get s (cl_application_id c) of None \<Rightarrow> stale | Some a \<Rightarrow>
      if \<not> valid_semantic_pair e a
      then (if fails_application kind then fail_confirmed (app_id a) stale else stale)
      else if needs_member kind \<and> \<not> member_user s (cl_user_id c)
      then fail_confirmed (app_id a) stale
      else let current = intro_get s (app_user_id a);
               sent = finish_clean eid E_sent chat msg now s;
               late = finish_clean eid E_stale chat msg now s
        in (case kind of
              Candidate_card \<Rightarrow> publish_card (app_id a) msg now sent
            | Admission_intro \<Rightarrow> if current \<noteq> None then late else publish_first_intro a c now sent
            | Member_intro \<Rightarrow>
                if current \<noteq> None then fail_confirmed (app_id a) late
                else accept_application (app_id a) (publish_first_intro a c now sent)
            | Refresh_intro \<Rightarrow>
                (case current of
                   None \<Rightarrow> fail_confirmed (app_id a) late
                 | Some i \<Rightarrow>
                     if in_application_id i \<noteq> base_application_id a then fail_confirmed (app_id a) late
                     else let (promoted, s1) = promote_if_current (app_user_id a)
                            (base_application_id a) (app_id a) (cl_html c) now sent
                       in if \<not> promoted then fail_confirmed (app_id a) late
                          else enqueue_once (app_id a) Sheet_projection
                            (complete_trackings (app_user_id a) (accept_application (app_id a) s1)))
            | Sheet_projection \<Rightarrow> late)))"

text \<open>
  Every branch writes the message identity to the row of the attempt, so its flush raises when another
  row has it.
\<close>

definition finalize_telegram_success ::
  "claimed_effect \<Rightarrow> int \<Rightarrow> int \<Rightarrow> int \<Rightarrow> db \<Rightarrow> intro_error + bool \<times> db" where
  "finalize_telegram_success c chat msg now s =
     (if get_claimed_for_update s (cl_effect_id c) (cl_attempt c) \<noteq> None \<and>
         identity_taken s (cl_effect_id c) chat msg
      then Inl (IntegrityError ''uq_intro_effect_outbox_telegram_identity'')
      else Inr (telegram_success_rows c chat msg now s))"

definition complete_effect :: "int \<Rightarrow> effect_status \<Rightarrow> int \<Rightarrow> db \<Rightarrow> db" where
  "complete_effect eid st now = effect_update eid (\<lambda>e. e\<lparr>ef_status := st, completed_at := Some now\<rparr>)"

definition finalize_sheet_success :: "claimed_effect \<Rightarrow> int \<Rightarrow> db \<Rightarrow> bool \<times> db" where
  "finalize_sheet_success c now s =
     (case get_claimed_for_update s (cl_effect_id c) (cl_attempt c) of None \<Rightarrow> (False, s) | Some e \<Rightarrow>
      (True,
       case intro_get s (cl_user_id c) of
         None \<Rightarrow> complete_effect (ef_id e) E_stale now s
       | Some i \<Rightarrow>
           if in_application_id i \<noteq> Some (cl_application_id c)
           then let s1 = complete_effect (ef_id e) E_stale now s
             in (case in_application_id i of None \<Rightarrow> s1 | Some b \<Rightarrow> ensure_projection_pending b s1)
           else complete_effect (ef_id e) E_sent now s))"

subsection \<open>One claim, from check to result\<close>

text \<open>
  What the call did.  \<open>Send_refused\<close> is a bad request or a forbidden chat and \<open>Send_retry_after\<close>
  flood control: Telegram did not take the message.  After a network error, a cancellation or
  another exception it may have.
\<close>

datatype send_outcome =
  Send_ok int | Send_refused ustr | Send_retry_after ustr | Send_network ustr | Send_cancelled | Send_raised

datatype sheet_outcome = Sheet_ok | Sheet_failed ustr | Sheet_cancelled | Sheet_raised

definition finish_send :: "int \<Rightarrow> nat \<Rightarrow> claimed_effect \<Rightarrow> send_outcome \<Rightarrow> int \<Rightarrow> db \<Rightarrow> db" where
  "finish_send community max_attempts c outcome now s =
     (case outcome of
        Send_ok msg \<Rightarrow>
          (case finalize_telegram_success c community msg now s of Inl _ \<Rightarrow> s | Inr (_, s1) \<Rightarrow> s1)
      | Send_refused err \<Rightarrow> snd (mark_delivery_failed c E_failed (Some err) now s)
      | Send_retry_after err \<Rightarrow>
          if cl_attempt c \<ge> max_attempts then snd (mark_delivery_failed c E_failed (Some err) now s)
          else snd (mark_result c E_pending (Some err) now s)
      | Send_network err \<Rightarrow> snd (mark_result c E_unknown (Some err) now s)
      | Send_cancelled \<Rightarrow> snd (mark_result c E_unknown (Some (cp ''cancelled'')) now s)
      | Send_raised \<Rightarrow> s)"

definition finish_sheet :: "nat \<Rightarrow> claimed_effect \<Rightarrow> sheet_outcome \<Rightarrow> int \<Rightarrow> db \<Rightarrow> db" where
  "finish_sheet max_attempts c outcome now s =
     (case outcome of
        Sheet_ok \<Rightarrow> snd (finalize_sheet_success c now s)
      | Sheet_failed err \<Rightarrow>
          snd (mark_result c (if cl_attempt c \<ge> max_attempts then E_failed else E_pending) (Some err) now s)
      | Sheet_cancelled \<Rightarrow> snd (mark_result c E_pending (Some (cp ''cancelled'')) now s)
      | Sheet_raised \<Rightarrow> s)"

text \<open>
  The messages sent and the new database.  \<open>sheet\<close> is \<open>None\<close> when no sheet is configured.
\<close>

definition process_claimed ::
  "int \<Rightarrow> nat \<Rightarrow> claimed_effect \<Rightarrow> send_outcome \<Rightarrow> sheet_outcome option \<Rightarrow> int \<Rightarrow> (db \<Rightarrow> db) \<Rightarrow> db \<Rightarrow>
   telegram_payload list \<times> db" where
  "process_claimed community max_attempts c outcome sheet now env s =
     (case cl_error c of
        Some err \<Rightarrow> ([], snd (mark_result c E_failed (Some (cp err)) now s))
      | None \<Rightarrow>
          if \<not> claim_is_semantically_valid s c
          then ([], snd (mark_delivery_failed c E_stale None now (env s)))
          else if cl_kind c = Sheet_projection
          then ([], case sheet of
                 None \<Rightarrow> snd (mark_result c E_pending None now (env s))
               | Some r \<Rightarrow> finish_sheet max_attempts c r now (env s))
          else ([telegram_payload community c], finish_send community max_attempts c outcome now (env s)))"

text \<open>
  After a cancellation, an unexpected exception or a refused write of the result the worker's run ends.
\<close>

definition run_ends :: "int \<Rightarrow> claimed_effect \<Rightarrow> send_outcome \<Rightarrow> sheet_outcome option \<Rightarrow> int \<Rightarrow> db \<Rightarrow> bool" where
  "run_ends community c outcome sheet now s \<longleftrightarrow>
     cl_error c = None \<and> claim_is_semantically_valid s c \<and>
     (if cl_kind c = Sheet_projection
      then sheet \<in> {Some Sheet_cancelled, Some Sheet_raised}
      else (case outcome of
              Send_cancelled \<Rightarrow> True
            | Send_raised \<Rightarrow> True
            | Send_ok msg \<Rightarrow> \<not> is_ok (finalize_telegram_success c community msg now s)
            | _ \<Rightarrow> False))"

text \<open>The run: messages sent, whether it ended with an exception, and the committed database.\<close>

fun effect_loop ::
  "nat \<Rightarrow> int \<Rightarrow> nat \<Rightarrow> (int \<Rightarrow> send_outcome) \<Rightarrow> (int \<Rightarrow> sheet_outcome option) \<Rightarrow> bool \<Rightarrow> int option \<Rightarrow>
   int list \<Rightarrow> int \<Rightarrow> db \<Rightarrow> telegram_payload list \<times> bool \<times> db" where
  "effect_loop 0 community max_attempts outcome sheet has_sheet watermark claimed now s = ([], False, s)"
| "effect_loop (Suc n) community max_attempts outcome sheet has_sheet watermark claimed now s =
     (case claim_one watermark claimed has_sheet now s of
        Inl _ \<Rightarrow> ([], True, s)
      | Inr (None, s1) \<Rightarrow> ([], False, s1)
      | Inr (Some c, s1) \<Rightarrow>
          let eid = cl_effect_id c;
              (sent, s2) = process_claimed community max_attempts c (outcome eid) (sheet eid) now (\<lambda>s. s) s1
          in if run_ends community c (outcome eid) (sheet eid) now s1 then (sent, True, s2)
             else let (sent', raised, s3) = effect_loop n community max_attempts outcome sheet has_sheet
                        watermark (eid # claimed) now s2
               in (sent @ sent', raised, s3))"

definition process_intro_effects ::
  "int \<Rightarrow> nat \<Rightarrow> nat \<Rightarrow> (int \<Rightarrow> send_outcome) \<Rightarrow> (int \<Rightarrow> sheet_outcome option) \<Rightarrow> bool \<Rightarrow> int \<Rightarrow> db \<Rightarrow>
   telegram_payload list \<times> bool \<times> db" where
  "process_intro_effects community max_effects max_attempts outcome sheet has_sheet now s =
     (let (n, s1) = mark_stale_processing_unknown (now - 60 * processing_timeout_minutes) s
      in effect_loop max_effects community max_attempts outcome sheet has_sheet
           (pending_high_watermark s1) [] now s1)"

subsection \<open>Operator reconciliation\<close>

definition is_hex_digest :: "string \<Rightarrow> bool" where
  "is_hex_digest h \<longleftrightarrow> length h = 64 \<and> list_all (\<lambda>c. c \<in> set ''0123456789abcdef'') h"

definition reconcile_inputs_ok ::
  "int \<Rightarrow> reconcile_action \<Rightarrow> int option \<Rightarrow> int option \<Rightarrow> string option \<Rightarrow> bool" where
  "reconcile_inputs_ok community action chat msg evidence =
     (case action of
        Record_sent \<Rightarrow> chat = Some community \<and> (case msg of None \<Rightarrow> False | Some m \<Rightarrow> m > 0) \<and> evidence = None
      | Retry_absent \<Rightarrow> chat = None \<and> msg = None \<and>
          (case evidence of None \<Rightarrow> False | Some h \<Rightarrow> is_hex_digest h))"

definition reconcile_intro_effect ::
  "int list \<Rightarrow> int \<Rightarrow> int \<Rightarrow> reconcile_action \<Rightarrow> int option \<Rightarrow> int option \<Rightarrow> string option \<Rightarrow> int \<Rightarrow>
   ustr \<Rightarrow> int \<Rightarrow> db \<Rightarrow> intro_error + db" where
  "reconcile_intro_effect admins community eid action chat msg evidence operator reason0 now s =
     (let reason = py_strip reason0 in
      bindE (ensureE (1 \<le> length reason \<and> length reason \<le> 500)
        (IntroEffectReconcileError ''reason is required'')) (\<lambda>_.
      bindE (ensureE (case user_get s operator of None \<Rightarrow> False
          | Some u \<Rightarrow> operator \<in> set admins \<or> is_admin u)
        (IntroEffectReconcileError ''operator is not an admin'')) (\<lambda>_.
      bindE (ensureE (reconcile_inputs_ok community action chat msg evidence)
        (IntroEffectReconcileError ''invalid reconciliation evidence'')) (\<lambda>_.
      bindE (someE (fetch ef_id eid (effects s))
        (IntroEffectReconcileError ''only unknown effects can be reconciled'')) (\<lambda>e.
      bindE (ensureE (ef_status e = E_unknown \<and> attempt_count e > 0 \<and> ef_kind e \<noteq> Sheet_projection)
        (IntroEffectReconcileError ''only unknown effects can be reconciled'')) (\<lambda>_.
      bindE (case action of
          Retry_absent \<Rightarrow>
            Inr (effect_update eid (\<lambda>e. e\<lparr>ef_status := E_pending, ef_last_error := None\<rparr>) s)
        | Record_sent \<Rightarrow>
            let s1 = effect_update eid (\<lambda>e. e\<lparr>ef_status := E_processing\<rparr>) s
            in bindE (snapshot_claim s1 (e\<lparr>ef_status := E_processing\<rparr>)) (\<lambda>c.
               bindE (finalize_telegram_success c (the chat) (the msg) now s1) (\<lambda>(found, s2).
               if found then Inr s2 else
                 Inl (IntroEffectReconcileError ''effect finalization lost its attempt identity'')))) (\<lambda>s2.
      Inr (s2\<lparr>reconciliations := reconciliations s2 @
        [\<lparr>rc_effect_id = eid, rc_attempt_count = attempt_count e, rc_action = action, rc_reason = reason,
          rc_evidence = evidence, rc_chat_id = chat, rc_message_id = msg, rc_operator = operator\<rparr>]\<rparr>))))))))"

end
