(* ===== verification/IntroGate.thy ===== *)
theory IntroGate
  imports IntroEffects
begin

section \<open>The gate: who can become a member\<close>

text \<open>
  An invariant of the tables behind the chat's gate, and its preservation by every transaction of the
  onboarding flow.  It says that nobody is a member without a vouch that leads back to an
  administrator, that a vouched or admitted application carries its vouch, its invitee and an invite row, and
  that no application is ever in \<open>privacy_block\<close>.
\<close>

subsection \<open>The invariant\<close>

text \<open>A user is trusted when a chain of vouches connects it to an administrator.\<close>

inductive trusted :: "int list \<Rightarrow> vouch_log list \<Rightarrow> int \<Rightarrow> bool" for admins vs where
  admin: "uid \<in> set admins \<Longrightarrow> trusted admins vs uid"
| vouched: "vl \<in> set vs \<Longrightarrow> trusted admins vs (voucher_id vl) \<Longrightarrow> trusted admins vs (vouchee_id vl)"

definition gate_app :: "vouch_log list \<Rightarrow> application \<Rightarrow> bool" where
  "gate_app vs a \<longleftrightarrow>
     status a \<noteq> Privacy_block \<and> app_flow_kind a \<noteq> None \<and>
     (app_flow_kind a = Some Admission \<longrightarrow> status a \<in> {Vouched, Added} \<longrightarrow>
        invite_user_id a = Some (app_user_id a) \<and>
        (\<exists>vl \<in> set vs. vl_application_id vl = app_id a \<and> vouchee_id vl = app_user_id a \<and>
           vouched_by a = Some (voucher_id vl))) \<and>
     (app_flow_kind a = Some Refresh \<longrightarrow> status a \<in> {Filling, Confirmed, Delivery_failed, Added})"

definition gate_invite :: "application list \<Rightarrow> invite \<Rightarrow> bool" where
  "gate_invite apps i \<longleftrightarrow> iv_status i = Iv_pending \<longrightarrow>
     (\<exists>a \<in> set apps. app_id a = iv_application_id i \<and> app_flow_kind a = Some Admission \<and>
        status a \<in> {Vouched, Added})"

definition invited :: "invite list \<Rightarrow> application \<Rightarrow> bool" where
  "invited ivs a \<longleftrightarrow> app_flow_kind a = Some Admission \<longrightarrow> status a \<in> {Vouched, Added} \<longrightarrow>
     (\<exists>i \<in> set ivs. iv_application_id i = app_id a \<and> iv_user_id i = app_user_id a)"

definition gate_inv :: "int list \<Rightarrow> db \<Rightarrow> bool" where
  "gate_inv admins s \<longleftrightarrow>
     ids_below app_id (next_app_id s) (applications s) \<and>
     ids_below iv_id (next_invite_id s) (invites s) \<and>
     distinct (map u_id (users s)) \<and>
     (\<forall>a \<in> set (applications s). gate_app (vouches s) a) \<and>
     (\<forall>u \<in> set (users s). is_member u \<longrightarrow> trusted admins (vouches s) (u_id u)) \<and>
     (\<forall>vl \<in> set (vouches s). voucher_id vl \<noteq> vouchee_id vl \<and> trusted admins (vouches s) (voucher_id vl)) \<and>
     (\<forall>i \<in> set (invites s). gate_invite (applications s) i) \<and>
     (\<forall>a \<in> set (applications s). invited (invites s) a)"

lemma trusted_mono: "trusted admins vs uid \<Longrightarrow> set vs \<subseteq> set ws \<Longrightarrow> trusted admins ws uid"
  by (induction rule: trusted.induct) (auto intro: trusted.intros)

text \<open>The tables the gate reads.\<close>

definition same_gate_tables :: "db \<Rightarrow> db \<Rightarrow> bool" where
  "same_gate_tables s s' \<longleftrightarrow> applications s' = applications s \<and> next_app_id s' = next_app_id s \<and>
     users s' = users s \<and> vouches s' = vouches s \<and> invites s' = invites s \<and>
     next_invite_id s' = next_invite_id s"

lemma gate_same: "gate_inv admins s \<Longrightarrow> same_gate_tables s s' \<Longrightarrow> gate_inv admins s'"
  by (simp add: gate_inv_def same_gate_tables_def)

text \<open>A quiet move of one application: nothing the gate relies on is touched.\<close>

definition app_quiet :: "application \<Rightarrow> application \<Rightarrow> bool" where
  "app_quiet a b \<longleftrightarrow>
     app_id b = app_id a \<and> app_user_id b = app_user_id a \<and> app_flow_kind b = app_flow_kind a \<and>
     vouched_by b = vouched_by a \<and> invite_user_id b = invite_user_id a \<and>
     (status b = status a \<or>
      status a = Vouched \<and> status b = Added \<and> app_flow_kind a = Some Admission \<or>
      status a \<notin> {Vouched, Added} \<and>
      (status b \<in> {Confirmed, Delivery_failed} \<or>
       app_flow_kind a = Some Admission \<and> status b \<in> {Pending, Rejected} \<or>
       app_flow_kind a = Some Refresh \<and> status b = Added))"

lemma app_quiet_refl [simp]: "app_quiet a a"
  by (simp add: app_quiet_def)

lemma gate_app_quiet: "gate_app vs a \<Longrightarrow> app_quiet a b \<Longrightarrow> gate_app vs b"
  by (auto simp: gate_app_def app_quiet_def)

lemma invited_quiet: "invited ivs a \<Longrightarrow> app_quiet a b \<Longrightarrow> invited ivs b"
  by (auto simp: invited_def app_quiet_def)

lemma gate_invite_map:
  "gate_invite apps i \<Longrightarrow> (\<And>a. a \<in> set apps \<Longrightarrow> app_quiet a (f a)) \<Longrightarrow> gate_invite (map f apps) i"
  by (fastforce simp: gate_invite_def app_quiet_def)

lemma gate_map:
  assumes inv: "gate_inv admins s" and f: "\<And>a. a \<in> set (applications s) \<Longrightarrow> app_quiet a (f a)"
    and apps: "applications s' = map f (applications s)"
    and rest: "next_app_id s' = next_app_id s" "users s' = users s" "vouches s' = vouches s"
      "invites s' = invites s" "next_invite_id s' = next_invite_id s"
  shows "gate_inv admins s'"
proof -
  have "map app_id (map f (applications s)) = map app_id (applications s)"
    using f by (auto simp: app_quiet_def)
  moreover have "distinct (map app_id (applications s))" using inv by (simp add: gate_inv_def ids_below_def)
  ultimately have "distinct (map app_id (map f (applications s)))" by (simp only:)
  moreover have "\<forall>a \<in> set (applications s). app_id (f a) < next_app_id s"
    using inv f by (auto simp: gate_inv_def ids_below_def app_quiet_def)
  ultimately have "ids_below app_id (next_app_id s) (map f (applications s))"
    unfolding ids_below_def by simp
  moreover have "\<forall>a \<in> set (map f (applications s)). gate_app (vouches s) a \<and> invited (invites s) a"
    using inv f by (auto simp: gate_inv_def intro: gate_app_quiet invited_quiet)
  moreover have "\<forall>i \<in> set (invites s). gate_invite (map f (applications s)) i"
    using inv f by (auto simp: gate_inv_def intro: gate_invite_map)
  ultimately show ?thesis using inv by (auto simp: gate_inv_def apps rest)
qed

lemma gate_app_update:
  "gate_inv admins s \<Longrightarrow> (\<And>a. a \<in> set (applications s) \<Longrightarrow> app_id a = aid \<Longrightarrow> app_quiet a (f a)) \<Longrightarrow>
   gate_inv admins (app_update aid f s)"
  by (rule gate_map [where f = "\<lambda>a. if app_id a = aid then f a else a"])
    (auto simp: app_update_def update_where_def)

lemma app_quiet_trans: "app_quiet a b \<Longrightarrow> app_quiet b c \<Longrightarrow> app_quiet a c"
  by (auto simp: app_quiet_def)

lemma gate_update_status_if:
  assumes inv: "gate_inv admins s" and ex: "\<And>a. app_quiet a (extra a)"
    and to: "to = Pending \<or> to = Rejected"
  shows "gate_inv admins (snd (app_update_status_if aid Pending to extra s))"
proof (rule gate_map [OF inv])
  fix a assume a: "a \<in> set (applications s)"
  have ga: "gate_app (vouches s) a" using inv a by (auto simp: gate_inv_def)
  then have "app_quiet a (a\<lparr>status := to\<rparr>)" if "status a = Pending"
    using to that by (cases "the (app_flow_kind a)") (auto simp: app_quiet_def gate_app_def)
  then show "app_quiet a (if app_id a = aid \<and> status a = Pending then extra (a\<lparr>status := to\<rparr>) else a)"
    using ex app_quiet_trans by auto
qed (simp_all add: app_update_status_if_def update_where_def)

text \<open>A new application, and the removal of a draft.\<close>

lemma gate_new_app:
  assumes inv: "gate_inv admins s"
  shows "gate_inv admins (s\<lparr>applications := applications s @ [new_application (next_app_id s) uid kind base cat now],
    next_app_id := next_app_id s + 1\<rparr>)"
proof -
  let ?a = "new_application (next_app_id s) uid kind base cat now"
  have "ids_below app_id (next_app_id s + 1) (applications s @ [?a])"
    using inv by (intro ids_below_append) (simp_all add: gate_inv_def new_application_def)
  moreover have "gate_app (vouches s) ?a" "invited (invites s) ?a"
    by (cases kind; simp add: gate_app_def invited_def new_application_def)+
  moreover have "\<forall>i \<in> set (invites s). gate_invite (applications s @ [?a]) i"
    using inv by (fastforce simp: gate_inv_def gate_invite_def)
  ultimately show ?thesis using inv by (simp add: gate_inv_def)
qed

lemma gate_delete_draft:
  assumes inv: "gate_inv admins s"
    and draft: "\<And>a. a \<in> set (applications s) \<Longrightarrow> P a \<Longrightarrow> status a = Filling"
  shows "gate_inv admins (s\<lparr>answers := x, applications := delete_where P (applications s)\<rparr>)"
proof -
  have "gate_invite (delete_where P (applications s)) i" if "i \<in> set (invites s)" for i
  proof (cases "iv_status i = Iv_pending")
    case True
    with inv that obtain a where "a \<in> set (applications s)" "app_id a = iv_application_id i"
      "app_flow_kind a = Some Admission" "status a \<in> {Vouched, Added}"
      by (auto simp: gate_inv_def gate_invite_def)
    moreover with draft have "\<not> P a" by auto
    ultimately show ?thesis by (auto simp: gate_invite_def)
  qed (simp add: gate_invite_def)
  with inv show ?thesis
    by (auto simp: gate_inv_def delete_where_def ids_below_filter)
qed

text \<open>Users: an update that makes nobody a member who is not trusted.\<close>

lemma gate_users:
  assumes inv: "gate_inv admins s" and d: "distinct (map u_id us)"
    and m: "\<And>u. u \<in> set us \<Longrightarrow> is_member u \<Longrightarrow>
      (\<exists>v \<in> set (users s). u_id v = u_id u \<and> is_member v) \<or> trusted admins (vouches s) (u_id u)"
  shows "gate_inv admins (s\<lparr>users := us\<rparr>)"
proof -
  have "\<forall>u \<in> set us. is_member u \<longrightarrow> trusted admins (vouches s) (u_id u)"
    using inv m unfolding gate_inv_def by metis
  with inv d show ?thesis by (simp add: gate_inv_def)
qed

lemma gate_upsert: "gate_inv admins s \<Longrightarrow> gate_inv admins (user_upsert uid uname first lst isbot s)"
proof -
  assume inv: "gate_inv admins s"
  then have d: "distinct (map u_id (users s))" by (simp add: gate_inv_def)
  show ?thesis
  proof (cases "user_get s uid")
    case None
    then have "uid \<notin> u_id ` set (users s)" by (simp add: user_get_def fetch_None_iff)
    with None inv d show ?thesis by (auto simp: user_upsert_def intro!: gate_users)
  next
    case (Some u)
    show ?thesis unfolding user_upsert_def Some option.simps
    proof (rule gate_users [OF inv])
      show "distinct (map u_id (update_where (\<lambda>u. u_id u = uid) (\<lambda>u. u\<lparr>username := uname, first_name := first,
          last_name := lst, is_imported_only := False,
          is_bot := if isbot = None then is_bot u else isbot\<rparr>) (users s)))"
        using d by (simp add: map_update_where)
    qed (auto simp: set_update_where split: if_splits)
  qed
qed

lemma gate_set_member:
  assumes inv: "gate_inv admins s" and t: "mem \<Longrightarrow> trusted admins (vouches s) uid"
  shows "gate_inv admins (set_member uid mem joined lft s)"
  unfolding set_member_def
proof (rule gate_users [OF inv])
  show "distinct (map u_id (update_where (\<lambda>u. u_id u = uid) (\<lambda>u. u\<lparr>is_member := mem,
      joined_at := if joined = None then joined_at u else joined,
      left_at := if lft = None then left_at u else lft\<rparr>) (users s)))"
    using inv by (simp add: gate_inv_def map_update_where)
qed (use t in \<open>auto simp: set_update_where split: if_splits\<close>)

text \<open>Invites: a row keeps its application and invitee, and never becomes pending again.\<close>

lemma invited_map:
  "(\<And>i. iv_application_id (g i) = iv_application_id i \<and> iv_user_id (g i) = iv_user_id i) \<Longrightarrow>
   invited (map g ivs) a = invited ivs a"
  by (simp add: invited_def)

lemma gate_invites_map:
  assumes inv: "gate_inv admins s"
    and f: "\<And>i. iv_id (f i) = iv_id i \<and> iv_application_id (f i) = iv_application_id i \<and>
      iv_user_id (f i) = iv_user_id i \<and> (iv_status (f i) = Iv_pending \<longrightarrow> iv_status i = Iv_pending)"
  shows "gate_inv admins (invite_update iid f s)"
proof -
  let ?g = "\<lambda>i. if iv_id i = iid then f i else i"
  have "ids_below iv_id (next_invite_id s) (map ?g (invites s))"
    using inv f by (subst ids_below_map) (auto simp: gate_inv_def)
  moreover have "\<forall>i \<in> set (map ?g (invites s)). gate_invite (applications s) i"
    using inv f by (auto simp: gate_inv_def gate_invite_def)
  moreover have "\<forall>a \<in> set (applications s). invited (map ?g (invites s)) a"
    using inv f by (subst invited_map) (auto simp: gate_inv_def)
  ultimately show ?thesis
    using inv by (simp add: gate_inv_def invite_update_def update_where_def)
qed

lemma gate_app_of:
  assumes "gate_inv admins s" "app_get s aid = Some a"
  shows "a \<in> set (applications s)" "app_id a = aid" "gate_app (vouches s) a"
    "\<And>b. b \<in> set (applications s) \<Longrightarrow> app_id b = aid \<Longrightarrow> b = a"
proof -
  have d: "distinct (map app_id (applications s))" using assms(1) by (simp add: gate_inv_def ids_below_def)
  show a: "a \<in> set (applications s)" "app_id a = aid"
    using assms(2) app.get_in app.get_key by (auto simp: app_get_def)
  then show "gate_app (vouches s) a" using assms(1) by (simp add: gate_inv_def)
  show "\<And>b. b \<in> set (applications s) \<Longrightarrow> app_id b = aid \<Longrightarrow> b = a"
    using app.unique [OF d] a by auto
qed

lemma gate_invite_row:
  assumes inv: "gate_inv admins s" and row: "row \<in> set (invites s)" "iv_status row = Iv_pending"
  shows "gate_inv admins (snd (process_invite_row outcome now row s)) \<and>
    applications (snd (process_invite_row outcome now row s)) = applications s \<and>
    (\<forall>i. Send_message (iv_user_id row) (Privacy_block_msg i) \<notin> set (fst (process_invite_row outcome now row s)))"
proof -
  from inv row obtain a where a: "a \<in> set (applications s)" "app_id a = iv_application_id row"
    "status a \<in> {Vouched, Added}" by (auto simp: gate_inv_def gate_invite_def)
  have only: "b = a" if "b \<in> set (applications s)" "app_id b = iv_application_id row" for b
    using that a app.unique [of "applications s" b a] inv by (simp add: gate_inv_def ids_below_def)
  have no: "\<not> list_ex (\<lambda>b. app_id b = iv_application_id row \<and> status b = Pending) (applications s)"
    using only a(3) by (auto simp: list_ex_iff)
  have upd: "update_where (\<lambda>b. app_id b = iv_application_id row \<and> status b = Pending) f (applications s) =
      applications s" for f
    using only a(3) by (auto simp: update_where_def intro!: map_idI)
  show ?thesis
  proof (cases outcome)
    case (Invite_sent link)
    then show ?thesis using inv
      by (auto simp: process_invite_row_def intro!: gate_invites_map) (simp add: invite_update_def)
  next
    case (Invite_error err)
    let ?s1 = "invite_update (iv_id row)
      (\<lambda>r. r\<lparr>iv_attempt_count := Suc (iv_attempt_count row), iv_last_error := Some (take 500 err)\<rparr>) s"
    let ?s2 = "invite_update (iv_id row) (\<lambda>r. r\<lparr>iv_status := Iv_failed\<rparr>) ?s1"
    have g1: "gate_inv admins ?s1" using inv by (rule gate_invites_map) simp
    have g2: "gate_inv admins ?s2" using g1 by (rule gate_invites_map) simp
    have same: "applications ?s1 = applications s" "applications ?s2 = applications s"
      by (simp_all add: invite_update_def)
    have "app_update_status_if (iv_application_id row) Pending Privacy_block (\<lambda>a. a) ?s2 = (False, ?s2)"
      unfolding app_update_status_if_def same upd using no same by simp
    then show ?thesis using Invite_error g1 g2 same by (simp add: process_invite_row_def Let_def)
  qed
qed

subsection \<open>Vouching and joining\<close>

lemma invite_create_ok:
  "invite_create_pending aid uid chat s = Inr s' \<Longrightarrow>
   s' = s\<lparr>invites := invites s @
          [\<lparr>iv_id = next_invite_id s, iv_application_id = aid, iv_user_id = uid, iv_chat_id = chat,
            iv_status = Iv_pending, invite_link = None, iv_attempt_count = 0, iv_last_error = None,
            sent_at = None\<rparr>],
        next_invite_id := next_invite_id s + 1\<rparr>"
  by (auto simp: invite_create_pending_def split: if_splits)

text \<open>What a successful vouch does: its conditions and its writes.\<close>

lemma handle_vouch_cases:
  assumes "handle_vouch community from_user aid msg now (\<lambda>s. s) s = Inr (calls, s')"
  obtains (nothing) "s' = s"
  | (vouched) voucher a v where "from_user = Some voucher" "app_get s aid = Some a"
      "app_flow_kind a = Some Admission" "user_get s voucher = Some v" "is_member v"
      "voucher \<noteq> app_user_id a" "list_ex (vouch_open aid) (applications s)"
      "invite_create_pending aid (app_user_id a) community (vouch_create voucher (app_user_id a) aid
         (s\<lparr>applications := update_where (vouch_open aid) (vouch_update voucher (app_user_id a) now)
            (applications s)\<rparr>)) = Inr s'"
  using assms
  by (auto simp: handle_vouch_def Let_def bindE_Inr_iff split: option.splits if_splits)

lemma gate_vouch:
  assumes inv: "gate_inv admins s"
    and run: "handle_vouch community from_user aid msg now (\<lambda>s. s) s = Inr (calls, s')"
  shows "gate_inv admins s'"
  using run
proof (cases rule: handle_vouch_cases)
  case nothing
  with inv show ?thesis by simp
next
  case (vouched voucher a v)
  note a = gate_app_of [OF inv vouched(2)]
  let ?f = "vouch_update voucher (app_user_id a) now" and ?uid = "app_user_id a"
  let ?apps = "update_where (vouch_open aid) ?f (applications s)"
  let ?vl = "\<lparr>voucher_id = voucher, vouchee_id = ?uid, vl_application_id = aid\<rparr>"
  let ?iv = "\<lparr>iv_id = next_invite_id s, iv_application_id = aid, iv_user_id = ?uid,
    iv_chat_id = community, iv_status = Iv_pending, invite_link = None, iv_attempt_count = 0,
    iv_last_error = None, sent_at = None\<rparr>"
  have s': "s' = s\<lparr>applications := ?apps, vouches := vouches s @ [?vl], invites := invites s @ [?iv],
      next_invite_id := next_invite_id s + 1\<rparr>"
    using invite_create_ok [OF vouched(8)] by (simp add: vouch_create_def)
  have open_a: "vouch_open aid a"
    using vouched(7) a(4) by (auto simp: list_ex_iff vouch_open_def)
  have only: "vouch_open aid b \<longleftrightarrow> b = a" if "b \<in> set (applications s)" for b
    using that open_a a(4) by (auto simp: vouch_open_def)
  have apps: "?apps = map (\<lambda>b. if b = a then ?f a else b) (applications s)"
    using only by (auto simp: update_where_def)
  have f: "app_id (?f a) = aid" "app_user_id (?f a) = ?uid" "status (?f a) = Vouched"
    "app_flow_kind (?f a) = Some Admission" "vouched_by (?f a) = Some voucher"
    "invite_user_id (?f a) = Some ?uid"
    using a(2) vouched(3) by (simp_all add: vouch_update_def)
  have tr: "trusted admins (vouches s) voucher"
    using inv vouched(4,5) usr.get_in usr.get_key by (fastforce simp: gate_inv_def user_get_def)
  have mono: "trusted admins (vouches s) u \<Longrightarrow> trusted admins (vouches s @ [?vl]) u" for u
    by (erule trusted_mono) auto
  have ga: "gate_app (vouches s) b \<Longrightarrow> gate_app (vouches s @ [?vl]) b" for b
    by (auto simp: gate_app_def)
  have "ids_below app_id (next_app_id s) ?apps"
    using inv unfolding apps
    by (subst ids_below_map) (auto simp: gate_inv_def a(2) f)
  moreover have "ids_below iv_id (next_invite_id s + 1) (invites s @ [?iv])"
    using inv by (intro ids_below_append) (simp_all add: gate_inv_def)
  moreover have "\<forall>b \<in> set ?apps. gate_app (vouches s @ [?vl]) b"
  proof -
    have "gate_app (vouches s @ [?vl]) (?f a)" using f by (simp add: gate_app_def)
    with inv ga show ?thesis unfolding apps by (auto simp: gate_inv_def)
  qed
  moreover have "\<forall>u \<in> set (users s). is_member u \<longrightarrow> trusted admins (vouches s @ [?vl]) (u_id u)"
    using inv mono by (simp add: gate_inv_def)
  moreover have "\<forall>vl \<in> set (vouches s @ [?vl]).
      voucher_id vl \<noteq> vouchee_id vl \<and> trusted admins (vouches s @ [?vl]) (voucher_id vl)"
    using inv mono tr vouched(6) by (simp add: gate_inv_def)
  moreover have "\<forall>i \<in> set (invites s @ [?iv]). gate_invite ?apps i"
  proof -
    have "gate_invite ?apps ?iv" using a(1) f unfolding apps by (force simp: gate_invite_def)
    moreover have "gate_invite ?apps i" if "gate_invite (applications s) i" for i
      using that open_a unfolding apps by (fastforce simp: gate_invite_def vouch_open_def)
    ultimately show ?thesis using inv by (simp add: gate_inv_def)
  qed
  moreover have "\<forall>b \<in> set ?apps. invited (invites s @ [?iv]) b"
  proof -
    have "invited (invites s @ [?iv]) (?f a)" using f by (simp add: invited_def)
    moreover have "invited (invites s @ [?iv]) b" if "invited (invites s) b" for b
      using that by (auto simp: invited_def)
    ultimately show ?thesis using inv unfolding apps by (auto simp: gate_inv_def)
  qed
  ultimately show ?thesis using inv unfolding s' by (simp add: gate_inv_def)
qed

text \<open>The retry button is dead: it is shown only for \<open>privacy_block\<close>.\<close>

lemma ready_dead:
  assumes inv: "gate_inv admins s"
    and run: "handle_ready community from_user aid has_message (\<lambda>s. s) s = Inr (calls, s')"
  shows "s' = s"
proof (cases "app_get s aid")
  case None
  with run show ?thesis by (simp add: handle_ready_def split: option.splits)
next
  case (Some a)
  with gate_app_of(3) [OF inv] have "status a \<noteq> Privacy_block" by (simp add: gate_app_def)
  with Some run show ?thesis by (simp add: handle_ready_def split: option.splits)
qed

lemma app_get_active_facts:
  assumes "app_get_active s uid inc = Some a"
  shows "a \<in> set (applications s)" "app_user_id a = uid"
    "app_flow_kind a = Some Admission \<or> app_flow_kind a = None"
  using latest_by_in [OF assms [unfolded app_get_active_def]] by auto

lemma gate_enqueue_once: "gate_inv admins s \<Longrightarrow> gate_inv admins (enqueue_once aid kind s)"
  by (erule gate_same) (simp add: same_gate_tables_def enqueue_once_def effect_append_def)

lemma gate_admit:
  "gate_inv admins s \<Longrightarrow> trusted admins (vouches s) uid \<Longrightarrow> gate_inv admins (admit_member uid aid now enq s)"
  by (simp add: admit_member_def Let_def gate_set_member gate_enqueue_once)

lemma gate_reject: "gate_inv admins s \<Longrightarrow> gate_inv admins (snd (reject_join chat u now s))"
  by (simp add: reject_join_def Let_def gate_set_member)

lemma gate_added:
  assumes inv: "gate_inv admins s" and a: "a \<in> set (applications s)" "app_flow_kind a = Some Admission"
  shows "gate_inv admins (snd (app_update_status_if (app_id a) Vouched Added (\<lambda>b. b\<lparr>added_at := Some now\<rparr>) s))"
proof (rule gate_map [OF inv])
  have d: "distinct (map app_id (applications s))" using inv by (simp add: gate_inv_def ids_below_def)
  fix b assume b: "b \<in> set (applications s)"
  show "app_quiet b (if app_id b = app_id a \<and> status b = Vouched
      then b\<lparr>status := Added, added_at := Some now\<rparr> else b)"
    using app.unique [OF d b a(1)] a(2) by (auto simp: app_quiet_def)
qed (simp_all add: app_update_status_if_def update_where_def)

lemma gate_join:
  assumes inv0: "gate_inv admins s"
  shows "gate_inv admins (snd (handle_join admins chat u now (\<lambda>s. s) s))"
proof -
  let ?s1 = "join_upsert u s" and ?uid = "tg_id u"
  let ?was = "case user_get s ?uid of None \<Rightarrow> False | Some r \<Rightarrow> is_member r"
  have inv: "gate_inv admins ?s1" unfolding join_upsert_def by (rule gate_upsert [OF inv0])
  show ?thesis
  proof (cases "?uid \<in> set admins")
    case True
    then have "trusted admins (vouches ?s1) ?uid" by (rule trusted.admin)
    with inv True show ?thesis by (simp add: handle_join_def Let_def gate_set_member)
  next
    case not_admin: False
    show ?thesis
    proof (cases "admission_rejection_reason (app_get_active ?s1 ?uid ?was) ?uid")
      case (Some r)
      with inv not_admin show ?thesis by (simp add: handle_join_def Let_def gate_reject)
    next
      case None
      then obtain a where act: "app_get_active ?s1 ?uid ?was = Some a"
        and st: "status a \<in> {Vouched, Added}" and iu: "invite_user_id a = Some ?uid"
        by (auto simp: admission_rejection_reason_def split: option.splits if_splits)
      note af = app_get_active_facts [OF act]
      have ga: "gate_app (vouches ?s1) a" using inv af(1) by (simp add: gate_inv_def)
      then have adm: "app_flow_kind a = Some Admission" using af(3) by (auto simp: gate_app_def)
      with ga st af(2) obtain vl where vl: "vl \<in> set (vouches ?s1)" "vouchee_id vl = ?uid"
        by (auto simp: gate_app_def)
      then have "trusted admins (vouches ?s1) (voucher_id vl)" using inv by (simp add: gate_inv_def)
      from trusted.vouched [OF vl(1) this] vl(2) have tr: "trusted admins (vouches ?s1) ?uid" by simp
      let ?cas = "app_update_status_if (app_id a) Vouched Added (\<lambda>b. b\<lparr>added_at := Some now\<rparr>) ?s1"
      have g2: "gate_inv admins (snd ?cas)" by (rule gate_added [OF inv af(1) adm])
      have v2: "vouches (snd ?cas) = vouches ?s1" by (simp add: app_update_status_if_def)
      have ok: "status a = Vouched \<Longrightarrow> fst ?cas"
        using af(1) by (auto simp: app_update_status_if_def list_ex_iff)
      obtain added s2 where cas: "?cas = (added, s2)" by fastforce
      with g2 v2 ok tr have c: "gate_inv admins s2" "trusted admins (vouches s2) ?uid" "status a = Vouched \<Longrightarrow> added"
        by simp_all
      show ?thesis
        using not_admin None act inv tr c cas
        by (simp add: handle_join_def Let_def gate_admit)
    qed
  qed
qed

lemma gate_chat_member:
  "gate_inv admins s \<Longrightarrow> gate_inv admins (snd (handle_chat_member admins community e now (\<lambda>s. s) s))"
  by (simp add: handle_chat_member_def handle_leave_def gate_join gate_set_member)

subsection \<open>Deadlines\<close>

lemma quiet_stamp [simp]:
  "app_quiet a (a\<lparr>rejected_at := x\<rparr>)" "app_quiet a (a\<lparr>nudged_newcomer_at := x\<rparr>)"
  "app_quiet a (a\<lparr>notified_admin_at := x\<rparr>)"
  by (simp_all add: app_quiet_def)

lemma gate_reject_overdue:
  "gate_inv admins s \<Longrightarrow> gate_inv admins (snd (reject_overdue community now as s))"
proof (induction as arbitrary: s)
  case (Cons a as)
  let ?cas = "app_update_status_if (app_id a) Pending Rejected (\<lambda>b. b\<lparr>rejected_at := Some now\<rparr>) s"
  have "gate_inv admins (snd ?cas)" using Cons.prems by (rule gate_update_status_if) simp_all
  from Cons.IH [OF this] show ?case
    by (cases ?cas; cases "reject_overdue community now as (snd ?cas)") (auto simp: Let_def)
qed simp

lemma gate_nudge_pending:
  "gate_inv admins s \<Longrightarrow> gate_inv admins (snd (nudge_pending ads now as s))"
proof (induction as arbitrary: s)
  case (Cons a as)
  have n: "gate_inv admins (snd (snd (nudge_newcomer now a s)))"
    using Cons.prems by (auto simp: nudge_newcomer_def intro!: gate_update_status_if)
  have m: "gate_inv admins s \<Longrightarrow> gate_inv admins (snd (notify_admins ads now a s))" for s
    by (auto simp: notify_admins_def intro!: gate_update_status_if)
  obtain c1 ok s1 where s1: "nudge_newcomer now a s = (c1, ok, s1)" by (metis prod_cases3)
  obtain c2 s2 where s2: "(if ok then notify_admins ads now a s1 else ([], s1)) = (c2, s2)" by fastforce
  have "gate_inv admins s1" using n s1 by simp
  with m [of s1] s2 have "gate_inv admins s2" by (auto split: if_splits)
  from Cons.IH [OF this] Cons.IH [OF Cons.prems] show ?case
    using s1 s2 by (auto simp: Let_def split: prod.split)
qed simp

lemma gate_deadlines:
  "gate_inv admins s \<Longrightarrow>
   gate_inv admins (snd (check_vouch_deadlines ads community vh nh now (\<lambda>s. s) (\<lambda>s. s) s))"
  using gate_reject_overdue gate_nudge_pending
  by (simp add: check_vouch_deadlines_def Let_def split: prod.split) (metis snd_conv)

subsection \<open>The questionnaire\<close>

lemma gate_answers: "gate_inv admins s \<Longrightarrow> gate_inv admins (s\<lparr>answers := x\<rparr>)"
  by (erule gate_same) (simp add: same_gate_tables_def)

lemma gate_create:
  "gate_inv admins s \<Longrightarrow> app_create uid kind base cat now s = Inr (a, s') \<Longrightarrow> gate_inv admins s'"
  using app_create_ok [of uid kind base cat now s a s'] gate_new_app by metis

text \<open>Transitions that write answers only.\<close>

definition only_answers :: "db \<Rightarrow> db \<Rightarrow> bool" where
  "only_answers s s' \<longleftrightarrow> (\<exists>as. s' = s\<lparr>answers := as\<rparr>)"

lemma only_answers_refl [simp]: "only_answers s s"
  unfolding only_answers_def by (rule exI [of _ "answers s"]) simp

lemma only_answers_trans: "only_answers s s' \<Longrightarrow> only_answers s' s'' \<Longrightarrow> only_answers s s''"
  by (auto simp: only_answers_def)

lemma only_answers_save: "qa_save uid aid fid i qt txt s = Inr s' \<Longrightarrow> only_answers s s'"
  by (auto simp: qa_save_def only_answers_def split: if_splits)

lemma only_answers_copy_fields:
  "copy_fields a i fs bv ids s = Inr s' \<Longrightarrow> only_answers s s'"
  by (induction a i fs bv ids s rule: copy_fields.induct)
    (auto simp: bindE_Inr_iff save_field_def dest!: only_answers_save split: if_splits
      intro: only_answers_trans)

lemma only_answers_save_referral: "save_referral a r s = Inr s' \<Longrightarrow> only_answers s s'"
  by (auto simp: save_referral_def bindE_Inr_iff save_field_def dest: only_answers_save)

lemma only_answers_copy: "copy_refresh_answers a bv ed s = Inr s' \<Longrightarrow> only_answers s s'"
  by (auto simp: copy_refresh_answers_def bindE_Inr_iff split: option.splits if_splits
      dest: only_answers_copy_fields only_answers_save_referral)

lemma only_answers_delete: "only_answers s (qa_delete_current aid s)"
  by (simp add: qa_delete_current_def only_answers_def) blast

lemma only_answers_ops:
  "write_answer uid aid fid txt s = Inr (nxt, s') \<Longrightarrow> only_answers s s'"
  "keep_base_answer uid aid fid s = Inr (nxt, s') \<Longrightarrow> only_answers s s'"
  "reset_draft sha uid aid digest s = Inr (nxt, s') \<Longrightarrow> only_answers s s'"
  "restart_refresh_selection sha uid aid digest editable s = Inr (nxt, s') \<Longrightarrow> only_answers s s'"
proof -
  show "write_answer uid aid fid txt s = Inr (nxt, s') \<Longrightarrow> only_answers s s'"
    using write_answer_frame by (auto simp: only_answers_def)
  show "keep_base_answer uid aid fid s = Inr (nxt, s') \<Longrightarrow> only_answers s s'"
    by (auto simp: keep_base_answer_def bindE_Inr_iff dest: only_answers_save)
  show "reset_draft sha uid aid digest s = Inr (nxt, s') \<Longrightarrow> only_answers s s'"
    by (auto simp: reset_draft_def bindE_Inr_iff Let_def
        dest!: only_answers_save_referral split: option.splits if_splits
        intro: only_answers_delete only_answers_trans [OF only_answers_delete])
  show "restart_refresh_selection sha uid aid digest editable s = Inr (nxt, s') \<Longrightarrow> only_answers s s'"
    by (auto simp: restart_refresh_selection_def bindE_Inr_iff Let_def
        dest!: only_answers_copy intro: only_answers_trans [OF only_answers_delete])
qed

lemma gate_only_answers: "gate_inv admins s \<Longrightarrow> only_answers s s' \<Longrightarrow> gate_inv admins s'"
  by (auto simp: only_answers_def gate_answers)

lemma start_refresh_cases:
  assumes "start_or_resume_refresh uid editable now s = Inr (a, s')"
  obtains (resumed) "app_get_active_refresh s uid = Some a" "s' = s"
  | (fresh) base s1 where "app_create uid Refresh base ''intro-v2'' now s = Inr (a, s1)"
      "only_answers s1 s'"
      "base = (case intro_get s uid of None \<Rightarrow> None | Some i \<Rightarrow> in_application_id i)"
      "(case user_get s uid of None \<Rightarrow> False | Some u \<Rightarrow> is_member u)"
proof -
  have mem: "(case user_get s uid of None \<Rightarrow> False | Some u \<Rightarrow> is_member u)"
    using assms by (auto simp: start_or_resume_refresh_def split: if_splits)
  show thesis
  proof (cases "app_get_active_refresh s uid")
    case None
    show ?thesis
    proof (rule start_refresh_fresh [OF assms None])
      fix base bv s1
      assume b: "base = (case intro_get s uid of None \<Rightarrow> None | Some i \<Rightarrow> in_application_id i)"
        and c: "copy_refresh_answers a bv editable s1 = Inr s'"
        and n: "app_create uid Refresh base ''intro-v2'' now s = Inr (a, s1)"
      show thesis by (rule fresh [OF n only_answers_copy [OF c] b mem])
    qed
  next
    case (Some b)
    have "start_or_resume_refresh uid editable now s = Inr (b, s)"
      unfolding start_or_resume_refresh_def Some by (simp only: mem not_True_eq_False if_False option.case)
    with assms have "a = b" "s' = s" by simp_all
    with Some resumed show ?thesis by simp
  qed
qed

lemma gate_start_refresh:
  "gate_inv admins s \<Longrightarrow> start_or_resume_refresh uid editable now s = Inr (a, s') \<Longrightarrow> gate_inv admins s'"
  by (elim start_refresh_cases) (auto dest: gate_create intro: gate_only_answers)

lemma cancel_ok:
  assumes "cancel_refresh uid aid s = Inr s'"
  obtains a where "app_get s aid = Some a" "app_user_id a = uid" "app_flow_kind a = Some Refresh"
    "status a = Filling"
    "s' = s\<lparr>answers := delete_where (\<lambda>q. qa_application_id q = aid) (answers s),
            applications := delete_where (\<lambda>b. app_id b = aid) (applications s)\<rparr>"
  using assms app_get_id by (fastforce simp: cancel_refresh_def bindE_Inr_iff locked_ok)

lemma gate_cancel: "gate_inv admins s \<Longrightarrow> cancel_refresh uid aid s = Inr s' \<Longrightarrow> gate_inv admins s'"
proof -
  assume inv: "gate_inv admins s" and run: "cancel_refresh uid aid s = Inr s'"
  from cancel_ok [OF run] obtain a where a: "app_get s aid = Some a" "status a = Filling"
    and s': "s' = s\<lparr>answers := delete_where (\<lambda>q. qa_application_id q = aid) (answers s),
            applications := delete_where (\<lambda>b. app_id b = aid) (applications s)\<rparr>" by metis
  show ?thesis unfolding s' using gate_app_of(4) [OF inv a(1)] a(2)
    by (intro gate_delete_draft [OF inv]) auto
qed

lemma gate_effect_append: "gate_inv admins s \<Longrightarrow> gate_inv admins (effect_append aid kind s)"
  by (erule gate_same) (simp add: same_gate_tables_def effect_append_def)

lemma gate_confirm:
  assumes inv: "gate_inv admins s" and run: "confirm_application sha uid aid digest s = Inr (a', s')"
  shows "gate_inv admins s'"
  using run
proof (cases rule: confirm_ok)
  case again
  with inv show ?thesis by simp
next
  case (first a h kind)
  show ?thesis unfolding first(10)
    using gate_app_of(4) [OF inv first(1)] first(3)
    by (intro gate_effect_append gate_app_update [OF inv]) (auto simp: app_quiet_def)
qed

subsection \<open>The outbox worker\<close>

lemma gate_effect_update: "gate_inv admins s \<Longrightarrow> gate_inv admins (effect_update eid f s)"
  by (erule gate_same) (simp add: same_gate_tables_def effect_update_def)

lemma gate_mark_result: "gate_inv admins s \<Longrightarrow> gate_inv admins (snd (mark_result c st err now s))"
  by (auto simp: mark_result_def gate_effect_update split: option.split)

lemma gate_fail_confirmed: "gate_inv admins s \<Longrightarrow> gate_inv admins (fail_confirmed aid s)"
  unfolding fail_confirmed_def by (erule gate_app_update) (simp add: app_quiet_def)

lemma gate_mark_delivery_failed:
  "gate_inv admins s \<Longrightarrow> gate_inv admins (snd (mark_delivery_failed c st err now s))"
  using gate_mark_result [of admins s c st err now]
  by (auto simp: mark_delivery_failed_def gate_fail_confirmed split: prod.splits)

lemma gate_finish: "gate_inv admins s \<Longrightarrow> gate_inv admins (finish_effect eid st chat msg now s)"
  "gate_inv admins s \<Longrightarrow> gate_inv admins (finish_clean eid st chat msg now s)"
  "gate_inv admins s \<Longrightarrow> gate_inv admins (complete_effect eid st now s)"
  by (simp_all add: finish_effect_def finish_clean_def complete_effect_def gate_effect_update)

lemma gate_intro_add: "gate_inv admins s \<Longrightarrow> gate_inv admins (intro_add uid aid txt vname now s)"
  by (erule gate_same) (simp add: same_gate_tables_def intro_add_def)

lemma gate_promote: "gate_inv admins s \<Longrightarrow> gate_inv admins (snd (promote_if_current uid base aid txt now s))"
  by (erule gate_same) (simp add: same_gate_tables_def promote_if_current_def)

lemma gate_trackings: "gate_inv admins s \<Longrightarrow> gate_inv admins (complete_trackings uid s)"
  by (erule gate_same) (simp add: same_gate_tables_def complete_trackings_def)

lemma gate_publish_first: "gate_inv admins s \<Longrightarrow> gate_inv admins (publish_first_intro a c now s)"
  by (simp add: publish_first_intro_def gate_enqueue_once gate_intro_add)

lemma finish_apps [simp]:
  "applications (finish_effect eid st chat msg now s) = applications s"
  "applications (finish_clean eid st chat msg now s) = applications s"
  "applications (publish_first_intro a c now s) = applications s"
  "applications (snd (promote_if_current uid base aid txt now s)) = applications s"
  "applications (effect_update eid f s) = applications s"
  "applications (enqueue_once aid kind s) = applications s"
  "applications (intro_add uid aid txt vname now s) = applications s"
  by (simp_all add: finish_effect_def finish_clean_def publish_first_intro_def promote_if_current_def
      effect_update_def enqueue_once_def intro_add_def)

text \<open>Publishing moves one application whose flow and status the claim check has fixed.\<close>

lemma gate_publish_card:
  assumes "gate_inv admins s'" "applications s' = applications s" "gate_inv admins s"
    "app_get s aid = Some a" "app_flow_kind a = Some Admission" "status a = Confirmed"
  shows "gate_inv admins (publish_card (app_id a) msg now s')"
  unfolding publish_card_def
proof (rule gate_app_update [OF assms(1)])
  fix b assume "b \<in> set (applications s')" "app_id b = app_id a"
  then have "b = a" using gate_app_of(2,4) [OF assms(3,4)] assms(2) by simp
  then show "app_quiet b (b\<lparr>status := Pending, questionnaire_message_id := Some msg, submitted_at := Some now\<rparr>)" using assms(5,6) by (simp add: app_quiet_def)
qed

lemma gate_accept:
  assumes "gate_inv admins s'" "applications s' = applications s" "gate_inv admins s"
    "app_get s aid = Some a" "app_flow_kind a = Some Refresh" "status a = Confirmed"
  shows "gate_inv admins (accept_application (app_id a) s')"
  unfolding accept_application_def
proof (rule gate_app_update [OF assms(1)])
  fix b assume "b \<in> set (applications s')" "app_id b = app_id a"
  then have "b = a" using gate_app_of(2,4) [OF assms(3,4)] assms(2) by simp
  then show "app_quiet b (b\<lparr>status := Added\<rparr>)" using assms(5,6) by (simp add: app_quiet_def)
qed

lemma gate_finalize:
  assumes inv: "gate_inv admins s"
  shows "gate_inv admins (snd (telegram_success_rows c chat msg now s))"
proof (cases "get_claimed_for_update s (cl_effect_id c) (cl_attempt c)")
  case None
  with inv show ?thesis by (simp add: telegram_success_rows_def)
next
  case (Some e)
  show ?thesis
  proof (cases "app_get s (cl_application_id c)")
    case None
    with inv Some show ?thesis by (simp add: telegram_success_rows_def gate_finish)
  next
    case a: (Some a)
    have stale: "gate_inv admins (finish_effect eid E_stale chat msg now s)"
      and fin: "gate_inv admins (finish_clean eid st chat msg now s)" for eid st
      using inv by (simp_all add: gate_finish)
    show ?thesis
    proof (cases "valid_semantic_pair e a \<and> (needs_member (ef_kind e) \<longrightarrow> member_user s (cl_user_id c))")
      case False
      then show ?thesis using Some a stale
        by (auto simp: telegram_success_rows_def Let_def gate_fail_confirmed)
    next
      case True
      note card = gate_publish_card [OF fin finish_apps(2) inv a]
      note accept_first = gate_accept [OF gate_publish_first [OF fin] _ inv a]
      note accept_next = gate_accept [OF gate_promote [OF fin] _ inv a]
      show ?thesis
      proof (cases "ef_kind e")
        case Refresh_intro
        then have k: "app_flow_kind a = Some Refresh" "status a = Confirmed"
          using True by (simp_all add: valid_semantic_pair_def)
        obtain p s1 where p: "promote_if_current (app_user_id a) (base_application_id a) (app_id a)
            (cl_html c) now (finish_clean (ef_id e) E_sent chat msg now s) = (p, s1)" by fastforce
        have "gate_inv admins (accept_application (app_id a) s1)"
          using accept_next [OF _ k] finish_apps p by (metis finish_apps(2,4) snd_conv)
        then have "gate_inv admins (enqueue_once (app_id a) Sheet_projection
            (complete_trackings (app_user_id a) (accept_application (app_id a) s1)))"
          by (intro gate_enqueue_once gate_trackings)
        with True Some a Refresh_intro p fin stale show ?thesis
          by (simp add: telegram_success_rows_def Let_def gate_fail_confirmed split: option.split)
      qed (use True Some a fin stale card accept_first in
          \<open>simp_all add: telegram_success_rows_def Let_def valid_semantic_pair_def gate_fail_confirmed
             gate_publish_first\<close>)
    qed
  qed
qed

lemma gate_ensure_projection: "gate_inv admins s \<Longrightarrow> gate_inv admins (ensure_projection_pending aid s)"
  by (simp add: ensure_projection_pending_def gate_effect_append gate_effect_update split: option.split)

lemma gate_sheet: "gate_inv admins s \<Longrightarrow> gate_inv admins (snd (finalize_sheet_success c now s))"
  by (simp add: finalize_sheet_success_def Let_def gate_finish gate_ensure_projection split: option.split)

lemma gate_finish_send: "gate_inv admins s \<Longrightarrow> gate_inv admins (finish_send community n c outcome now s)"
  by (simp add: finish_send_def finalize_telegram_success_def case_prod_unfold gate_finalize gate_mark_result gate_mark_delivery_failed
      split: send_outcome.split)

lemma gate_finish_sheet: "gate_inv admins s \<Longrightarrow> gate_inv admins (finish_sheet n c outcome now s)"
  by (simp add: finish_sheet_def gate_sheet gate_mark_result split: sheet_outcome.split)

lemma claim_one_cases:
  assumes "claim_one w excluded sheet now s = Inr (c, s')"
  obtains es where "claim_pending 1 sheet w excluded now s = (es, s')"
    "case es of [] \<Rightarrow> c = None | e # _ \<Rightarrow> (\<exists>cl. c = Some cl \<and>
       (snapshot_claim s' e = Inr cl \<or> (\<exists>err. cl = broken_claim e err)))"
proof -
  obtain es s1 where p: "claim_pending 1 sheet w excluded now s = (es, s1)" by fastforce
  with assms have "s1 = s'" "case es of [] \<Rightarrow> c = None | e # _ \<Rightarrow> (\<exists>cl. c = Some cl \<and>
       (snapshot_claim s' e = Inr cl \<or> (\<exists>err. cl = broken_claim e err)))"
    by (auto simp: claim_one_def split: list.splits sum.splits intro_error.splits)
  with p that show thesis by blast
qed

lemma gate_claim:
  assumes "gate_inv admins s" "claim_one w excluded sheet now s = Inr (c, s')"
  shows "gate_inv admins s'"
proof -
  from claim_one_cases [OF assms(2)] obtain es where "claim_pending 1 sheet w excluded now s = (es, s')" .
  then have "s' = snd (claim_pending 1 sheet w excluded now s)" by simp
  then have "same_gate_tables s s'" by (simp add: claim_pending_def Let_def same_gate_tables_def)
  with assms(1) show ?thesis by (rule gate_same)
qed

lemma gate_sweep: "gate_inv admins s \<Longrightarrow> gate_inv admins (snd (mark_stale_processing_unknown t s))"
  by (erule gate_same) (simp add: mark_stale_processing_unknown_def Let_def same_gate_tables_def)

lemma reconcile_ok:
  assumes "reconcile_intro_effect admins community eid action chat msg evidence operator reason now s = Inr s'"
  obtains e s2 where "fetch ef_id eid (effects s) = Some e" "ef_status e = E_unknown" "attempt_count e > 0"
    "ef_kind e \<noteq> Sheet_projection" "reconcile_inputs_ok community action chat msg evidence"
    "\<exists>u. user_get s operator = Some u \<and> (operator \<in> set admins \<or> is_admin u)"
    "(action = Retry_absent \<and>
        s2 = effect_update eid (\<lambda>e. e\<lparr>ef_status := E_pending, ef_last_error := None\<rparr>) s) \<or>
     (action = Record_sent \<and> (\<exists>c. snapshot_claim (effect_update eid (\<lambda>e. e\<lparr>ef_status := E_processing\<rparr>) s)
          (e\<lparr>ef_status := E_processing\<rparr>) = Inr c \<and>
        finalize_telegram_success c (the chat) (the msg) now
          (effect_update eid (\<lambda>e. e\<lparr>ef_status := E_processing\<rparr>) s) = Inr (True, s2)))"
    "s' = s2\<lparr>reconciliations := reconciliations s2 @
        [\<lparr>rc_effect_id = eid, rc_attempt_count = attempt_count e, rc_action = action,
          rc_reason = py_strip reason, rc_evidence = evidence, rc_chat_id = chat,
          rc_message_id = msg, rc_operator = operator\<rparr>]\<rparr>"
proof -
  from assms obtain e s2 where f: "fetch ef_id eid (effects s) = Some e"
    and st: "ef_status e = E_unknown \<and> attempt_count e > 0 \<and> ef_kind e \<noteq> Sheet_projection"
    and i: "reconcile_inputs_ok community action chat msg evidence"
    and op: "case user_get s operator of None \<Rightarrow> False | Some u \<Rightarrow> operator \<in> set admins \<or> is_admin u"
    and w: "(case action of
          Retry_absent \<Rightarrow>
            Inr (effect_update eid (\<lambda>e. e\<lparr>ef_status := E_pending, ef_last_error := None\<rparr>) s)
        | Record_sent \<Rightarrow>
            let s1 = effect_update eid (\<lambda>e. e\<lparr>ef_status := E_processing\<rparr>) s
            in bindE (snapshot_claim s1 (e\<lparr>ef_status := E_processing\<rparr>)) (\<lambda>c.
               bindE (finalize_telegram_success c (the chat) (the msg) now s1) (\<lambda>(found, s2).
               if found then Inr s2 else
                 Inl (IntroEffectReconcileError ''effect finalization lost its attempt identity'')))) = Inr s2"
    and s': "s' = s2\<lparr>reconciliations := reconciliations s2 @
        [\<lparr>rc_effect_id = eid, rc_attempt_count = attempt_count e, rc_action = action,
          rc_reason = py_strip reason, rc_evidence = evidence, rc_chat_id = chat,
          rc_message_id = msg, rc_operator = operator\<rparr>]\<rparr>"
    unfolding reconcile_intro_effect_def Let_def bindE_Inr_iff ensureE_Inr_iff someE_Inr_iff sum.inject
    by blast
  have "(action = Retry_absent \<and>
        s2 = effect_update eid (\<lambda>e. e\<lparr>ef_status := E_pending, ef_last_error := None\<rparr>) s) \<or>
     (action = Record_sent \<and> (\<exists>c. snapshot_claim (effect_update eid (\<lambda>e. e\<lparr>ef_status := E_processing\<rparr>) s)
          (e\<lparr>ef_status := E_processing\<rparr>) = Inr c \<and>
        finalize_telegram_success c (the chat) (the msg) now
          (effect_update eid (\<lambda>e. e\<lparr>ef_status := E_processing\<rparr>) s) = Inr (True, s2)))"
    using w by (cases action) (fastforce simp: bindE_Inr_iff Let_def split: if_splits prod.splits)+
  moreover have "\<exists>u. user_get s operator = Some u \<and> (operator \<in> set admins \<or> is_admin u)"
    using op by (auto split: option.splits)
  ultimately show thesis using that f st i s' by blast
qed

lemma finalized_rows:
  "finalize_telegram_success c chat msg now s = Inr r \<Longrightarrow> telegram_success_rows c chat msg now s = r"
  by (simp add: finalize_telegram_success_def split: if_splits)

lemma gate_reconcile:
  assumes inv: "gate_inv admins s"
    and run: "reconcile_intro_effect ads community eid action chat msg evidence operator reason now s = Inr s'"
  shows "gate_inv admins s'"
  using run
proof (rule reconcile_ok)
  fix e s2
  assume w: "(action = Retry_absent \<and>
        s2 = effect_update eid (\<lambda>e. e\<lparr>ef_status := E_pending, ef_last_error := None\<rparr>) s) \<or>
     (action = Record_sent \<and> (\<exists>c. snapshot_claim (effect_update eid (\<lambda>e. e\<lparr>ef_status := E_processing\<rparr>) s)
          (e\<lparr>ef_status := E_processing\<rparr>) = Inr c \<and>
        finalize_telegram_success c (the chat) (the msg) now
          (effect_update eid (\<lambda>e. e\<lparr>ef_status := E_processing\<rparr>) s) = Inr (True, s2)))"
    and s': "s' = s2\<lparr>reconciliations := reconciliations s2 @
        [\<lparr>rc_effect_id = eid, rc_attempt_count = attempt_count e, rc_action = action,
          rc_reason = py_strip reason, rc_evidence = evidence, rc_chat_id = chat,
          rc_message_id = msg, rc_operator = operator\<rparr>]\<rparr>"
  from w have "gate_inv admins s2"
    using gate_effect_update [OF inv] gate_finalize [OF gate_effect_update [OF inv]] finalized_rows by (metis snd_conv)
  then show ?thesis unfolding s' by (rule gate_same) (simp add: same_gate_tables_def)
qed

end
