(* ===== verification/IntroPublish.thy ===== *)
theory IntroPublish
  imports IntroGate
begin

section \<open>What is published\<close>

text \<open>
  The invariant behind the outbox: every effect belongs to an application that was confirmed and has
  the flow its kind needs; every profile in the members' list is the block its owner confirmed; a
  claim in the hands of a worker carries exactly that block.  Applications only move forward, so
  these facts survive every transaction.
\<close>

subsection \<open>The invariant\<close>

definition fits_kind :: "effect_kind \<Rightarrow> application \<Rightarrow> bool" where
  "fits_kind k a \<longleftrightarrow>
     (k \<in> {Candidate_card, Admission_intro} \<longrightarrow> app_flow_kind a = Some Admission) \<and>
     (k \<in> {Member_intro, Refresh_intro} \<longrightarrow> app_flow_kind a = Some Refresh)"

definition pub_effect :: "application list \<Rightarrow> intro_effect \<Rightarrow> bool" where
  "pub_effect apps e \<longleftrightarrow> ck_effect e \<and>
     (\<exists>a \<in> set apps. app_id a = ef_application_id e \<and> status a \<noteq> Filling \<and> fits_kind (ef_kind e) a)"

definition pub_intro :: "application list \<Rightarrow> intro \<Rightarrow> bool" where
  "pub_intro apps i \<longleftrightarrow>
     (\<exists>a \<in> set apps. in_application_id i = Some (app_id a) \<and> status a = Added \<and>
        app_user_id a = in_user_id i \<and> confirmed_intro_html a = Some (intro_text i))"

definition claim_app :: "application list \<Rightarrow> claimed_effect \<Rightarrow> bool" where
  "claim_app apps c \<longleftrightarrow> cl_error c = None \<longrightarrow>
     (\<exists>a \<in> set apps. app_id a = cl_application_id c \<and> status a \<noteq> Filling \<and>
        app_user_id a = cl_user_id c \<and> confirmed_intro_html a = Some (cl_html c))"

definition claim_row_of :: "intro_effect list \<Rightarrow> claimed_effect \<Rightarrow> bool" where
  "claim_row_of es c \<longleftrightarrow>
     (\<exists>e \<in> set es. ef_id e = cl_effect_id c \<and> ef_kind e = cl_kind c \<and>
        ef_application_id e = cl_application_id c)"

definition one_active :: "application list \<Rightarrow> bool" where
  "one_active apps \<longleftrightarrow>
     (\<forall>a \<in> set apps. \<forall>b \<in> set apps. active_refresh a \<longrightarrow> active_refresh b \<longrightarrow>
        app_user_id a = app_user_id b \<longrightarrow> app_id a = app_id b)"

definition pub_inv :: "claimed_effect list \<Rightarrow> db \<Rightarrow> bool" where
  "pub_inv cs s \<longleftrightarrow>
     ids_below app_id (next_app_id s) (applications s) \<and>
     ids_below ef_id (next_effect_id s) (effects s) \<and>
     distinct (map effect_key (effects s)) \<and>
     distinct (map in_user_id (intros s)) \<and>
     (\<forall>a \<in> set (applications s). ck_application a) \<and>
     one_active (applications s) \<and>
     (\<forall>e \<in> set (effects s). pub_effect (applications s) e) \<and>
     (\<forall>i \<in> set (intros s). pub_intro (applications s) i) \<and>
     (\<forall>c \<in> set cs. claim_app (applications s) c \<and> claim_row_of (effects s) c)"

lemma pub_claims_mono: "pub_inv cs s \<Longrightarrow> set cs' \<subseteq> set cs \<Longrightarrow> pub_inv cs' s"
  by (auto simp: pub_inv_def)

lemma pub_add_claim:
  "pub_inv cs s \<Longrightarrow> claim_app (applications s) c \<Longrightarrow> claim_row_of (effects s) c \<Longrightarrow> pub_inv (c # cs) s"
  by (simp add: pub_inv_def)

definition same_pub_tables :: "db \<Rightarrow> db \<Rightarrow> bool" where
  "same_pub_tables s s' \<longleftrightarrow> applications s' = applications s \<and> next_app_id s' = next_app_id s \<and>
     effects s' = effects s \<and> next_effect_id s' = next_effect_id s \<and> intros s' = intros s"

lemma pub_same: "pub_inv cs s \<Longrightarrow> same_pub_tables s s' \<Longrightarrow> pub_inv cs s'"
  by (simp add: pub_inv_def same_pub_tables_def)

subsection \<open>Applications move forward\<close>

definition app_forward :: "application \<Rightarrow> application \<Rightarrow> bool" where
  "app_forward a b \<longleftrightarrow>
     app_id b = app_id a \<and> app_user_id b = app_user_id a \<and> app_flow_kind b = app_flow_kind a \<and>
     (status a \<noteq> Filling \<longrightarrow> status b \<noteq> Filling \<and> confirmed_intro_html b = confirmed_intro_html a) \<and>
     (status a = Added \<longrightarrow> status b = Added) \<and> (active_refresh b \<longrightarrow> active_refresh a) \<and>
     (ck_application a \<longrightarrow> ck_application b)"

lemma app_forwardD:
  assumes "app_forward a b"
  shows "app_id b = app_id a" "app_user_id b = app_user_id a" "app_flow_kind b = app_flow_kind a"
    "active_refresh b \<Longrightarrow> active_refresh a"
  using assms unfolding app_forward_def by blast+

lemma app_forward_refl [simp]: "app_forward a a"
  by (simp add: app_forward_def)

lemma app_forward_trans: "app_forward a b \<Longrightarrow> app_forward b c \<Longrightarrow> app_forward a c"
  by (auto simp: app_forward_def)

text \<open>A status change of a confirmed application is a step forward, whatever stamps it sets.\<close>

lemma forward_status:
  assumes "status a \<notin> {Filling, Added}" "app_flow_kind a \<noteq> None"
    "app_id b = app_id a" "app_user_id b = app_user_id a" "app_flow_kind b = app_flow_kind a"
    "base_application_id b = base_application_id a" "catalog_version b = catalog_version a"
    "confirmed_intro_html b = confirmed_intro_html a" "status b \<notin> {Filling, Confirmed}"
  shows "app_forward a b"
  using assms by (auto simp: app_forward_def ck_application_def active_refresh_def)

lemma forward_stamp:
  assumes "app_id b = app_id a" "app_user_id b = app_user_id a" "app_flow_kind b = app_flow_kind a"
    "base_application_id b = base_application_id a" "catalog_version b = catalog_version a"
    "confirmed_intro_html b = confirmed_intro_html a" "status b = status a"
  shows "app_forward a b"
  using assms by (auto simp: app_forward_def ck_application_def active_refresh_def)

lemma forward_confirm:
  "status a = Filling \<Longrightarrow> app_forward a (a\<lparr>confirmed_intro_html := Some h, status := Confirmed\<rparr>)"
  by (auto simp: app_forward_def ck_application_def active_refresh_def)

lemma pub_effect_map:
  assumes "pub_effect apps e" "\<And>a. a \<in> set apps \<Longrightarrow> app_forward a (f a)"
  shows "pub_effect (map f apps) e"
proof -
  from assms(1) obtain a where a: "a \<in> set apps" "app_id a = ef_application_id e" "status a \<noteq> Filling"
    "fits_kind (ef_kind e) a" "ck_effect e" by (auto simp: pub_effect_def)
  have "app_forward a (f a)" using assms(2) a(1) .
  then have "app_id (f a) = ef_application_id e \<and> status (f a) \<noteq> Filling \<and> fits_kind (ef_kind e) (f a)"
    using a by (simp add: app_forward_def fits_kind_def)
  moreover have "f a \<in> set (map f apps)" using a(1) by simp
  ultimately show ?thesis unfolding pub_effect_def using a(5) by blast
qed

lemma pub_intro_map:
  assumes "pub_intro apps i" "\<And>a. a \<in> set apps \<Longrightarrow> app_forward a (f a)"
  shows "pub_intro (map f apps) i"
  using assms by (fastforce simp: pub_intro_def app_forward_def)

lemma claim_app_map:
  assumes "claim_app apps c" "\<And>a. a \<in> set apps \<Longrightarrow> app_forward a (f a)"
  shows "claim_app (map f apps) c"
  using assms by (fastforce simp: claim_app_def app_forward_def)

lemma one_active_map:
  assumes "one_active apps" "\<And>a. a \<in> set apps \<Longrightarrow> app_forward a (f a)"
  shows "one_active (map f apps)"
  unfolding one_active_def
proof (intro ballI impI)
  fix x y assume "x \<in> set (map f apps)" "y \<in> set (map f apps)"
    and act: "active_refresh x" "active_refresh y" "app_user_id x = app_user_id y"
  then obtain a b where ab: "a \<in> set apps" "b \<in> set apps" "x = f a" "y = f b" by auto
  have fa: "app_forward a x" unfolding ab(3) by (rule assms(2)) (rule ab(1))
  have fb: "app_forward b y" unfolding ab(4) by (rule assms(2)) (rule ab(2))
  have "active_refresh a" "active_refresh b"
    by (rule app_forwardD(4) [OF fa act(1)], rule app_forwardD(4) [OF fb act(2)])
  moreover have "app_user_id a = app_user_id b"
    using act(3) unfolding app_forwardD(2) [OF fa] app_forwardD(2) [OF fb] .
  ultimately have "app_id a = app_id b" using assms(1) ab(1,2) unfolding one_active_def by blast
  then show "app_id x = app_id y" unfolding app_forwardD(1) [OF fa] app_forwardD(1) [OF fb] .
qed

lemma pub_map:
  assumes inv: "pub_inv cs s" and f: "\<And>a. a \<in> set (applications s) \<Longrightarrow> app_forward a (f a)"
    and s': "applications s' = map f (applications s)" "next_app_id s' = next_app_id s"
      "effects s' = effects s" "next_effect_id s' = next_effect_id s" "intros s' = intros s"
  shows "pub_inv cs s'"
proof -
  have "map app_id (map f (applications s)) = map app_id (applications s)"
    using f by (auto simp: app_forward_def)
  moreover have "distinct (map app_id (applications s))" using inv by (simp add: pub_inv_def ids_below_def)
  ultimately have "distinct (map app_id (map f (applications s)))" by (simp only:)
  moreover have "\<forall>a \<in> set (applications s). app_id (f a) < next_app_id s"
    using inv f by (auto simp: pub_inv_def ids_below_def app_forward_def)
  ultimately have "ids_below app_id (next_app_id s) (map f (applications s))"
    unfolding ids_below_def by simp
  moreover have "\<forall>a \<in> set (map f (applications s)). ck_application a"
    using inv f by (auto simp: pub_inv_def app_forward_def)
  moreover have "one_active (map f (applications s))"
    using inv f by (intro one_active_map) (simp_all add: pub_inv_def)
  moreover have "\<forall>e \<in> set (effects s). pub_effect (map f (applications s)) e"
    using inv f by (auto simp: pub_inv_def intro!: pub_effect_map)
  moreover have "\<forall>i \<in> set (intros s). pub_intro (map f (applications s)) i"
    using inv f by (auto simp: pub_inv_def intro!: pub_intro_map)
  moreover have "\<forall>c \<in> set cs. claim_app (map f (applications s)) c \<and> claim_row_of (effects s) c"
    using inv f by (auto simp: pub_inv_def intro!: claim_app_map)
  ultimately show ?thesis using inv by (simp add: pub_inv_def s')
qed

lemma pub_app_update:
  "pub_inv cs s \<Longrightarrow> (\<And>a. a \<in> set (applications s) \<Longrightarrow> app_id a = aid \<Longrightarrow> app_forward a (f a)) \<Longrightarrow>
   pub_inv cs (app_update aid f s)"
  by (rule pub_map [where f = "\<lambda>a. if app_id a = aid then f a else a"])
    (auto simp: app_update_def update_where_def)

lemma pub_status_if:
  "pub_inv cs s \<Longrightarrow> (\<And>a. a \<in> set (applications s) \<Longrightarrow> app_id a = aid \<Longrightarrow> status a = from \<Longrightarrow>
     app_forward a (extra (a\<lparr>status := to\<rparr>))) \<Longrightarrow>
   pub_inv cs (snd (app_update_status_if aid from to extra s))"
  by (rule pub_map [where f = "\<lambda>a. if app_id a = aid \<and> status a = from then extra (a\<lparr>status := to\<rparr>) else a"])
    (auto simp: app_update_status_if_def update_where_def)

lemma pub_app_of:
  assumes "pub_inv cs s" "app_get s aid = Some a"
  shows "a \<in> set (applications s)" "app_id a = aid" "ck_application a"
    "\<And>b. b \<in> set (applications s) \<Longrightarrow> app_id b = aid \<Longrightarrow> b = a"
proof -
  have d: "distinct (map app_id (applications s))" using assms(1) by (simp add: pub_inv_def ids_below_def)
  show a: "a \<in> set (applications s)" "app_id a = aid"
    using assms(2) app.get_in app.get_key by (auto simp: app_get_def)
  then show "ck_application a" using assms(1) by (simp add: pub_inv_def)
  show "\<And>b. b \<in> set (applications s) \<Longrightarrow> app_id b = aid \<Longrightarrow> b = a"
    using app.unique [OF d] a by auto
qed

subsection \<open>The tables\<close>

lemma one_active_snoc:
  assumes "one_active apps"
    and "\<And>b. b \<in> set apps \<Longrightarrow> active_refresh a \<Longrightarrow> active_refresh b \<Longrightarrow> app_user_id b \<noteq> app_user_id a"
  shows "one_active (apps @ [a])"
  unfolding one_active_def
proof (intro ballI impI)
  fix x y assume xy: "x \<in> set (apps @ [a])" "y \<in> set (apps @ [a])"
    and act: "active_refresh x" "active_refresh y" "app_user_id x = app_user_id y"
  consider "x \<in> set apps" "y \<in> set apps" | "x = a" "y = a" | "x = a" "y \<in> set apps" | "x \<in> set apps" "y = a"
    using xy by auto
  then show "app_id x = app_id y"
  proof cases
    case 1
    with assms(1) act show ?thesis unfolding one_active_def by blast
  next
    case 3
    with assms(2) [of y] act show ?thesis by simp
  next
    case 4
    with assms(2) [of x] act show ?thesis by simp
  qed simp
qed

lemma pub_create:
  assumes inv: "pub_inv cs s" and run: "app_create uid kind base cat now s = Inr (a, s')"
  shows "pub_inv cs s'"
proof -
  from app_create_ok [OF run] have a: "a = new_application (next_app_id s) uid kind base cat now"
    and s': "s' = s\<lparr>applications := applications s @ [a], next_app_id := next_app_id s + 1\<rparr>"
    and act: "active_refresh a \<longrightarrow> (\<forall>b \<in> set (applications s). app_user_id b = uid \<longrightarrow> \<not> active_refresh b)"
    by blast+
  have f: "app_id a = next_app_id s" "app_user_id a = uid" "app_flow_kind a = Some kind"
    "base_application_id a = base" "catalog_version a = cat" "status a = Filling"
    by (simp_all add: a new_application_def)
  have "kind = Admission \<Longrightarrow> base = None" and "is_ok (get_intro_catalog cat)"
    using run by (auto simp: app_create_def split: if_splits)
  then have "ck_application a"
    using f by (cases kind) (auto simp: ck_application_def get_intro_catalog_def split: if_splits)
  moreover have "ids_below app_id (next_app_id s + 1) (applications s @ [a])"
    using inv f by (intro ids_below_append) (simp_all add: pub_inv_def)
  moreover have "one_active (applications s @ [a])"
    using inv act f(2) by (intro one_active_snoc) (auto simp: pub_inv_def)
  moreover have "pub_effect (applications s) e \<Longrightarrow> pub_effect (applications s @ [a]) e"
    "pub_intro (applications s) i \<Longrightarrow> pub_intro (applications s @ [a]) i"
    "claim_app (applications s) c \<Longrightarrow> claim_app (applications s @ [a]) c" for e i c
    by (auto simp: pub_effect_def pub_intro_def claim_app_def)
  ultimately show ?thesis using inv unfolding s' by (simp add: pub_inv_def)
qed

lemma pub_delete_draft:
  assumes inv: "pub_inv cs s"
    and draft: "\<And>a. a \<in> set (applications s) \<Longrightarrow> P a \<Longrightarrow> status a = Filling"
  shows "pub_inv cs (s\<lparr>answers := x, applications := delete_where P (applications s)\<rparr>)"
proof -
  let ?d = "delete_where P (applications s)"
  have keep: "a \<in> set ?d" if "a \<in> set (applications s)" "status a \<noteq> Filling" for a
    using that draft by auto
  have "pub_effect (applications s) e \<Longrightarrow> pub_effect ?d e"
    and "claim_app (applications s) c \<Longrightarrow> claim_app ?d c" for e c
    unfolding pub_effect_def claim_app_def using keep by blast+
  moreover have "pub_intro (applications s) i \<Longrightarrow> pub_intro ?d i" for i
    unfolding pub_intro_def using keep by fastforce
  moreover have "one_active ?d" using inv by (simp add: pub_inv_def one_active_def)
  moreover have "ids_below app_id (next_app_id s) ?d"
    using inv by (simp add: pub_inv_def delete_where_def ids_below_filter)
  ultimately show ?thesis using inv by (simp add: pub_inv_def)
qed

lemma pub_effect_append:
  assumes inv: "pub_inv cs s" and new: "\<not> effect_exists s aid kind"
    and a: "a \<in> set (applications s)" "app_id a = aid" "status a \<noteq> Filling" "fits_kind kind a"
  shows "pub_inv cs (effect_append aid kind s)"
proof -
  let ?e = "new_effect (next_effect_id s) aid kind"
  have "ids_below ef_id (next_effect_id s + 1) (effects s @ [?e])"
    using inv by (intro ids_below_append) (simp_all add: pub_inv_def new_effect_def)
  moreover have "distinct (map effect_key (effects s @ [?e]))"
  proof -
    have "effect_key ?e = (aid, kind)" by (simp add: new_effect_def effect_key_def)
    then show ?thesis using inv new by (auto simp: pub_inv_def effect_exists_def list_ex_iff)
  qed
  moreover have "pub_effect (applications s) ?e"
    using a by (auto simp: pub_effect_def new_effect_def ck_effect_def)
  moreover have "claim_row_of (effects s) c \<Longrightarrow> claim_row_of (effects s @ [?e]) c" for c
    by (auto simp: claim_row_of_def)
  ultimately show ?thesis using inv by (simp add: pub_inv_def effect_append_def)
qed

lemma pub_enqueue_once:
  "pub_inv cs s \<Longrightarrow> a \<in> set (applications s) \<Longrightarrow> app_id a = aid \<Longrightarrow> status a \<noteq> Filling \<Longrightarrow> fits_kind kind a \<Longrightarrow>
   pub_inv cs (enqueue_once aid kind s)"
  by (auto simp: enqueue_once_def intro: pub_effect_append)

lemma fits_sheet [simp]: "fits_kind Sheet_projection a"
  by (simp add: fits_kind_def)

text \<open>An update of an effect row that keeps its identity and the row's checks.\<close>

lemma pub_effects_map:
  assumes inv: "pub_inv cs s"
    and id: "\<And>e. ef_id (f e) = ef_id e \<and> ef_application_id (f e) = ef_application_id e \<and> ef_kind (f e) = ef_kind e"
    and ck: "\<And>e. e \<in> set (effects s) \<Longrightarrow> ck_effect e \<Longrightarrow> ck_effect (f e)"
    and s': "effects s' = map f (effects s)" "next_effect_id s' = next_effect_id s"
      "applications s' = applications s" "next_app_id s' = next_app_id s" "intros s' = intros s"
  shows "pub_inv cs s'"
proof -
  have "distinct (map ef_id (map f (effects s)))" "distinct (map effect_key (map f (effects s)))"
    using inv id by (auto simp: pub_inv_def ids_below_def effect_key_def intro!: distinct_map_map simp del: map_map)
  then have "ids_below ef_id (next_effect_id s) (map f (effects s))"
    "distinct (map effect_key (map f (effects s)))"
    using inv id by (simp_all add: pub_inv_def ids_below_def)
  moreover have "\<forall>e \<in> set (map f (effects s)). pub_effect (applications s) e"
    using inv id ck by (auto simp: pub_inv_def pub_effect_def)
  moreover have "claim_row_of (effects s) c \<Longrightarrow> claim_row_of (map f (effects s)) c" for c
    using id by (auto simp: claim_row_of_def)
  ultimately show ?thesis using inv by (simp add: pub_inv_def s')
qed

lemma pub_effect_update:
  assumes "pub_inv cs s"
    and "\<And>e. ef_id (f e) = ef_id e \<and> ef_application_id (f e) = ef_application_id e \<and> ef_kind (f e) = ef_kind e"
    and "\<And>e. e \<in> set (effects s) \<Longrightarrow> ef_id e = eid \<Longrightarrow> ck_effect e \<Longrightarrow> ck_effect (f e)"
  shows "pub_inv cs (effect_update eid f s)"
  using assms
  by (intro pub_effects_map [where f = "\<lambda>e. if ef_id e = eid then f e else e", OF assms(1)])
    (simp_all add: effect_update_def update_where_def)

lemma pub_intro_add:
  assumes inv: "pub_inv cs s" and none: "intro_get s uid = None"
    and a: "a \<in> set (applications s)" "app_id a = aid" "status a = Added" "app_user_id a = uid"
      "confirmed_intro_html a = Some txt"
  shows "pub_inv cs (intro_add uid aid txt vname now s)"
proof -
  have "uid \<notin> in_user_id ` set (intros s)" using none by (simp add: intro_get_def fetch_None_iff)
  moreover have "pub_intro (applications s) \<lparr>in_user_id = uid, intro_text = txt, vouched_by_name = vname,
      in_application_id = Some aid, in_updated_at = now\<rparr>"
    using a by (auto simp: pub_intro_def)
  ultimately show ?thesis using inv by (simp add: pub_inv_def intro_add_def)
qed

lemma pub_promote:
  assumes inv: "pub_inv cs s"
    and a: "a \<in> set (applications s)" "app_id a = aid" "status a = Added" "app_user_id a = uid"
      "confirmed_intro_html a = Some txt"
  shows "pub_inv cs (snd (promote_if_current uid base aid txt now s))"
proof -
  let ?f = "\<lambda>i. if in_user_id i = uid \<and> in_application_id i = base
    then i\<lparr>in_application_id := Some aid, intro_text := txt, in_updated_at := now\<rparr> else i"
  have "distinct (map in_user_id (map ?f (intros s)))"
    using inv by (intro distinct_map_map) (simp_all add: pub_inv_def)
  moreover have "pub_intro (applications s) (?f i)" if "pub_intro (applications s) i" for i
    using that a by (auto simp: pub_intro_def)
  then have "\<forall>i \<in> set (map ?f (intros s)). pub_intro (applications s) i"
    using inv unfolding pub_inv_def set_map by blast
  ultimately show ?thesis
    using inv by (simp add: pub_inv_def promote_if_current_def update_where_def)
qed

lemma pub_trackings: "pub_inv cs s \<Longrightarrow> pub_inv cs (complete_trackings uid s)"
  by (erule pub_same) (simp add: same_pub_tables_def complete_trackings_def)

lemma pub_only_answers: "pub_inv cs s \<Longrightarrow> only_answers s s' \<Longrightarrow> pub_inv cs s'"
  by (erule pub_same) (auto simp: same_pub_tables_def only_answers_def)

lemma pub_user_ops:
  "pub_inv cs s \<Longrightarrow> pub_inv cs (user_upsert uid uname first lst isbot s)"
  "pub_inv cs s \<Longrightarrow> pub_inv cs (set_member uid mem joined lft s)"
  "pub_inv cs s \<Longrightarrow> pub_inv cs (invite_update iid f s)"
  by (erule pub_same; simp add: same_pub_tables_def user_upsert_def set_member_def invite_update_def
      split: option.split)+

subsection \<open>The onboarding transactions\<close>

lemma pub_start_refresh:
  "pub_inv cs s \<Longrightarrow> start_or_resume_refresh uid editable now s = Inr (a, s') \<Longrightarrow> pub_inv cs s'"
  by (elim start_refresh_cases) (auto dest: pub_create intro: pub_only_answers)

lemma pub_cancel:
  assumes inv: "pub_inv cs s" and run: "cancel_refresh uid aid s = Inr s'"
  shows "pub_inv cs s'"
proof -
  from cancel_ok [OF run] obtain a where a: "app_get s aid = Some a" "status a = Filling"
    and s': "s' = s\<lparr>answers := delete_where (\<lambda>q. qa_application_id q = aid) (answers s),
            applications := delete_where (\<lambda>b. app_id b = aid) (applications s)\<rparr>" by metis
  show ?thesis unfolding s' using pub_app_of(4) [OF inv a(1)] a(2)
    by (intro pub_delete_draft [OF inv]) auto
qed

lemma confirmation_fits:
  "confirmation_effect s uid a = Inr kind \<Longrightarrow> fits_kind kind a"
  by (auto simp: confirmation_effect_def fits_kind_def split: option.splits flow_kind.splits if_splits)

lemma pub_confirm:
  assumes inv: "pub_inv cs s" and run: "confirm_application sha uid aid digest s = Inr (a', s')"
  shows "pub_inv cs s'"
  using run
proof (cases rule: confirm_ok)
  case again
  with inv show ?thesis by simp
next
  case (first a h kind)
  let ?f = "\<lambda>a. a\<lparr>confirmed_intro_html := Some h, status := Confirmed\<rparr>"
  let ?s = "app_update aid ?f s"
  note a = pub_app_of [OF inv first(1)]
  have "pub_inv cs ?s"
  proof (rule pub_app_update [OF inv])
    fix b assume "b \<in> set (applications s)" "app_id b = aid"
    then have "b = a" by (rule a(4))
    with first(3) show "app_forward b (?f b)" by (simp only: forward_confirm)
  qed
  moreover have "?f a \<in> set (applications ?s)"
    using a(1,2) by (auto simp: app_update_def set_update_where)
  moreover have "\<not> effect_exists ?s aid kind" using first(9) by (simp add: effect_exists_def)
  moreover have "fits_kind kind (?f a)"
    using confirmation_fits [OF first(8)] by (simp add: fits_kind_def)
  ultimately show ?thesis unfolding first(10) using a(2) by (intro pub_effect_append) simp_all
qed

lemma pub_vouch:
  assumes inv: "pub_inv cs s"
    and run: "handle_vouch community from_user aid msg now (\<lambda>s. s) s = Inr (calls, s')"
  shows "pub_inv cs s'"
  using run
proof (cases rule: handle_vouch_cases)
  case nothing
  with inv show ?thesis by simp
next
  case (vouched voucher a v)
  let ?f = "vouch_update voucher (app_user_id a) now"
  show ?thesis
  proof (rule pub_map [OF inv, where f = "\<lambda>b. if vouch_open aid b then ?f b else b"])
    fix b assume "b \<in> set (applications s)"
    then show "app_forward b (if vouch_open aid b then ?f b else b)"
      by (auto simp: vouch_open_def vouch_update_def intro!: forward_status)
  qed (use invite_create_ok [OF vouched(8)] in \<open>simp_all add: vouch_create_def update_where_def\<close>)
qed

lemma pub_reject: "pub_inv cs s \<Longrightarrow> pub_inv cs (snd (reject_join chat u now s))"
  by (simp add: reject_join_def Let_def pub_user_ops)

lemma set_member_other [simp]:
  "applications (set_member uid mem j l s) = applications s"
  "intros (set_member uid mem j l s) = intros s"
  "vouches (set_member uid mem j l s) = vouches s"
  by (simp_all add: set_member_def)

lemma pub_admit:
  assumes "pub_inv cs s" "enq \<Longrightarrow> a \<in> set (applications s) \<and> app_id a = aid \<and>
    status a = Added \<and> app_flow_kind a = Some Admission"
  shows "pub_inv cs (admit_member uid aid now enq s)"
proof -
  have "pub_inv cs (set_member uid True (Some now) None s)" by (rule pub_user_ops(2) [OF assms(1)])
  moreover have "enq \<Longrightarrow> pub_inv cs (enqueue_once aid Admission_intro (set_member uid True (Some now) None s))"
    using assms(2) calculation by (intro pub_enqueue_once) (auto simp: fits_kind_def)
  ultimately show ?thesis by (auto simp: admit_member_def Let_def)
qed

lemma pub_join:
  assumes inv0: "pub_inv cs s" and gate: "gate_inv admins s"
  shows "pub_inv cs (snd (handle_join ads chat u now (\<lambda>s. s) s))"
proof -
  let ?s1 = "join_upsert u s" and ?uid = "tg_id u"
  let ?was = "case user_get s ?uid of None \<Rightarrow> False | Some r \<Rightarrow> is_member r"
  have inv: "pub_inv cs ?s1" unfolding join_upsert_def by (rule pub_user_ops(1) [OF inv0])
  have gate1: "gate_inv admins ?s1" unfolding join_upsert_def by (rule gate_upsert [OF gate])
  show ?thesis
  proof (cases "?uid \<in> set ads")
    case True
    with inv show ?thesis by (simp add: handle_join_def Let_def pub_user_ops)
  next
    case not_admin: False
    show ?thesis
    proof (cases "admission_rejection_reason (app_get_active ?s1 ?uid ?was) ?uid")
      case (Some r)
      with inv not_admin show ?thesis by (simp add: handle_join_def Let_def pub_reject)
    next
      case None
      then obtain a where act: "app_get_active ?s1 ?uid ?was = Some a"
        and st: "status a \<in> {Vouched, Added}"
        by (auto simp: admission_rejection_reason_def split: option.splits if_splits)
      note af = app_get_active_facts [OF act]
      have adm: "app_flow_kind a = Some Admission"
        using af(1,3) gate1 by (auto simp: gate_inv_def gate_app_def)
      let ?cas = "app_update_status_if (app_id a) Vouched Added (\<lambda>b. b\<lparr>added_at := Some now\<rparr>) ?s1"
      have p2: "pub_inv cs (snd ?cas)"
        using gate1 by (intro pub_status_if [OF inv] forward_status) (auto simp: gate_inv_def gate_app_def)
      have a2: "a\<lparr>status := Added, added_at := Some now\<rparr> \<in> set (applications (snd ?cas))" if "status a = Vouched"
        using af(1) that by (force simp: app_update_status_if_def set_update_where)
      have ok: "status a = Vouched \<Longrightarrow> fst ?cas"
        using af(1) by (auto simp: app_update_status_if_def list_ex_iff)
      obtain added s2 where cas: "?cas = (added, s2)" by fastforce
      have "pub_inv cs (admit_member ?uid (app_id a) now True s2)" if "status a = Vouched"
        using p2 a2 [OF that] cas adm
        by (intro pub_admit [where a = "a\<lparr>status := Added, added_at := Some now\<rparr>"]) simp_all
      moreover have "pub_inv cs (admit_member ?uid (app_id a) now False ?s1)"
        by (rule pub_admit [OF inv]) simp
      ultimately show ?thesis
        using not_admin None act ok cas by (simp add: handle_join_def Let_def)
    qed
  qed
qed

lemma pub_chat_member:
  "pub_inv cs s \<Longrightarrow> gate_inv admins s \<Longrightarrow>
   pub_inv cs (snd (handle_chat_member ads community e now (\<lambda>s. s) s))"
  by (simp add: handle_chat_member_def handle_leave_def pub_join pub_user_ops)

text \<open>Deadlines: only a pending application is rejected or stamped.\<close>

lemma pub_deadline_cas:
  assumes "pub_inv cs s" "gate_inv admins s" "to \<in> {Pending, Rejected}"
    and "\<And>a. app_id (x a) = app_id a \<and> app_user_id (x a) = app_user_id a \<and> app_flow_kind (x a) = app_flow_kind a \<and>
      base_application_id (x a) = base_application_id a \<and> catalog_version (x a) = catalog_version a \<and>
      confirmed_intro_html (x a) = confirmed_intro_html a \<and> status (x a) = status a"
  shows "pub_inv cs (snd (app_update_status_if aid Pending to x s))"
proof (rule pub_status_if [OF assms(1)])
  fix a assume a: "a \<in> set (applications s)" "status a = Pending"
  have "app_flow_kind a \<noteq> None" using assms(2) a(1) by (auto simp: gate_inv_def gate_app_def)
  with a(2) assms(3,4) show "app_forward a (x (a\<lparr>status := to\<rparr>))"
    by (intro forward_status) auto
qed

lemma pub_reject_overdue:
  "pub_inv cs s \<Longrightarrow> gate_inv admins s \<Longrightarrow> pub_inv cs (snd (reject_overdue community now as s))"
proof (induction as arbitrary: s)
  case (Cons a as)
  let ?cas = "app_update_status_if (app_id a) Pending Rejected (\<lambda>b. b\<lparr>rejected_at := Some now\<rparr>) s"
  have "pub_inv cs (snd ?cas)" using Cons.prems by (rule pub_deadline_cas) simp_all
  moreover have "gate_inv admins (snd ?cas)" using Cons.prems(2) by (rule gate_update_status_if) simp_all
  ultimately have "pub_inv cs (snd (reject_overdue community now as (snd ?cas)))" by (rule Cons.IH)
  then show ?case
    by (cases ?cas; cases "reject_overdue community now as (snd ?cas)") (auto simp: Let_def)
qed simp

lemma pub_nudge_pending:
  "pub_inv cs s \<Longrightarrow> gate_inv admins s \<Longrightarrow> pub_inv cs (snd (nudge_pending ads now as s))"
proof (induction as arbitrary: s)
  case (Cons a as)
  have n: "pub_inv cs (snd (snd (nudge_newcomer now a s)))" "gate_inv admins (snd (snd (nudge_newcomer now a s)))"
    using Cons.prems by (auto simp: nudge_newcomer_def intro!: pub_deadline_cas gate_update_status_if)
  have m: "pub_inv cs s \<Longrightarrow> gate_inv admins s \<Longrightarrow>
      pub_inv cs (snd (notify_admins ads now a s)) \<and> gate_inv admins (snd (notify_admins ads now a s))" for s
    by (auto simp: notify_admins_def intro!: pub_deadline_cas gate_update_status_if)
  obtain c1 ok s1 where s1: "nudge_newcomer now a s = (c1, ok, s1)" by (metis prod_cases3)
  obtain c2 s2 where s2: "(if ok then notify_admins ads now a s1 else ([], s1)) = (c2, s2)" by fastforce
  have "pub_inv cs s1" "gate_inv admins s1" using n s1 by simp_all
  with m [of s1] s2 have "pub_inv cs s2" "gate_inv admins s2" by (auto split: if_splits)
  from Cons.IH [OF this] Cons.IH [OF Cons.prems] show ?case
    using s1 s2 by (auto simp: Let_def split: prod.split)
qed simp

lemma pub_deadlines:
  assumes "pub_inv cs s" "gate_inv admins s"
  shows "pub_inv cs (snd (check_vouch_deadlines ads community vh nh now (\<lambda>s. s) (\<lambda>s. s) s))"
proof -
  obtain c1 s1 where s1: "reject_overdue community now (get_pending_older_than s now vh) s = (c1, s1)" by fastforce
  have p: "pub_inv cs s1" "gate_inv admins s1"
    using pub_reject_overdue [OF assms] gate_reject_overdue [OF assms(2)] s1 by (metis snd_conv)+
  from pub_nudge_pending [OF p] s1 show ?thesis
    by (simp add: check_vouch_deadlines_def Let_def split: prod.split) (metis snd_conv)
qed

lemma pub_invite_row:
  assumes "pub_inv cs s" "gate_inv admins s" "row \<in> set (invites s)" "iv_status row = Iv_pending"
  shows "pub_inv cs (snd (process_invite_row outcome now row s))"
proof -
  have "same_pub_tables s (snd (process_invite_row outcome now row s))"
    using gate_invite_row [OF assms(2-4), of outcome now]
    by (auto simp: same_pub_tables_def process_invite_row_def Let_def invite_update_def
        app_update_status_if_def split: invite_outcome.split)
  with assms(1) show ?thesis by (rule pub_same)
qed

subsection \<open>The outbox worker\<close>

lemma pub_effect_of:
  assumes "pub_inv cs s" "e \<in> set (effects s)"
  shows "ck_effect e" "pub_effect (applications s) e"
    "\<And>d. d \<in> set (effects s) \<Longrightarrow> ef_id d = ef_id e \<Longrightarrow> d = e"
proof -
  have d: "distinct (map ef_id (effects s))" using assms(1) by (simp add: pub_inv_def ids_below_def)
  show "pub_effect (applications s) e" using assms by (simp add: pub_inv_def)
  then show "ck_effect e" by (simp add: pub_effect_def)
  show "\<And>d. d \<in> set (effects s) \<Longrightarrow> ef_id d = ef_id e \<Longrightarrow> d = e" using eff.unique [OF d _ assms(2)] .
qed

lemma claimed_row:
  assumes "get_claimed_for_update s eid att = Some e"
  shows "e \<in> set (effects s)" "ef_id e = eid" "ef_status e = E_processing" "attempt_count e = att"
  using assms by (auto simp: get_claimed_for_update_def find_Some_iff)

lemma claim_matches:
  assumes inv: "pub_inv cs s" and c: "c \<in> set cs"
    and e: "get_claimed_for_update s (cl_effect_id c) att = Some e"
  shows "ef_kind e = cl_kind c" "ef_application_id e = cl_application_id c"
proof -
  from inv c obtain d where d: "d \<in> set (effects s)" "ef_id d = cl_effect_id c" "ef_kind d = cl_kind c"
    "ef_application_id d = cl_application_id c" by (auto simp: pub_inv_def claim_row_of_def)
  have "d = e" by (rule pub_effect_of(3) [OF inv claimed_row(1) [OF e] d(1)]) (simp add: d(2) claimed_row(2) [OF e])
  with d show "ef_kind e = cl_kind c" "ef_application_id e = cl_application_id c" by simp_all
qed

lemma snapshot_ok:
  assumes "snapshot_claim s e = Inr c"
  obtains a u where "app_get s (ef_application_id e) = Some a" "confirmed_intro_html a = Some (cl_html c)"
    "user_get s (app_user_id a) = Some u" "cl_error c = None" "cl_effect_id c = ef_id e"
    "cl_attempt c = attempt_count e" "cl_application_id c = app_id a" "cl_kind c = ef_kind e"
    "cl_user_id c = app_user_id a"
  using assms by (auto simp: snapshot_claim_def bindE_Inr_iff Let_def)

lemma snapshot_claim_ok:
  assumes inv: "pub_inv cs s" and e: "d \<in> set (effects s)" "ef_id d = ef_id e"
      "ef_application_id d = ef_application_id e" "ef_kind d = ef_kind e"
    and c: "snapshot_claim s e = Inr c"
  shows "pub_inv (c # cs) s"
  using c
proof (rule snapshot_ok)
  fix a u
  assume g: "app_get s (ef_application_id e) = Some a" "confirmed_intro_html a = Some (cl_html c)"
    and f: "cl_effect_id c = ef_id e" "cl_application_id c = app_id a" "cl_kind c = ef_kind e"
      "cl_user_id c = app_user_id a"
  note a = pub_app_of [OF inv g(1)]
  from pub_effect_of(2) [OF inv e(1)] obtain b where b: "b \<in> set (applications s)"
    "app_id b = ef_application_id d" "status b \<noteq> Filling" by (auto simp: pub_effect_def)
  have "b = a" using a(4) [OF b(1)] b(2) e(3) by simp
  then have "claim_app (applications s) c" using a(1) b(3) f g(2) by (auto simp: claim_app_def)
  moreover have "claim_row_of (effects s) c" using e f a(2) by (auto simp: claim_row_of_def)
  ultimately show ?thesis by (rule pub_add_claim [OF inv])
qed

lemma claim_row_simps [simp]:
  "ef_id (claim_row now e) = ef_id e" "ef_application_id (claim_row now e) = ef_application_id e"
  "ef_kind (claim_row now e) = ef_kind e" "ef_status (claim_row now e) = E_processing"
  "attempt_count (claim_row now e) = Suc (attempt_count e)"
  by (simp_all add: claim_row_def)

lemma ck_claim_row: "ck_effect e \<Longrightarrow> ck_effect (claim_row now e)"
  by (simp add: ck_effect_def claim_row_def)

text \<open>One claim takes at most the first candidate, and turns exactly that row into a processing one.\<close>

lemma claim_pending_one:
  assumes inv: "pub_inv cs s" and run: "claim_pending 1 sheet w excluded now s = (es, s')"
  obtains (empty) "es = []" "s' = s"
  | (one) e where "e \<in> set (effects s)" "ef_status e = E_pending" "es = [claim_row now e]"
      "s' = effect_update (ef_id e) (claim_row now) s"
proof (cases "claim_candidates sheet w excluded s")
  case Nil
  with run have "es = []" "s' = s" by (simp_all add: claim_pending_def update_where_def)
  with empty show ?thesis .
next
  case (Cons e rest)
  have "e \<in> set (claim_candidates sheet w excluded s)" using Cons by simp
  then have e: "e \<in> set (effects s)" "ef_status e = E_pending" by (simp_all add: claim_candidates_def)
  have "es = [claim_row now e]" "s' = effect_update (ef_id e) (claim_row now) s"
    using run Cons by (simp_all add: claim_pending_def effect_update_def eq_commute [of _ "ef_id e"])
  with one e show ?thesis by blast
qed

lemma pub_claim_update: "pub_inv cs s \<Longrightarrow> pub_inv cs (effect_update eid (claim_row now) s)"
  by (rule pub_effect_update) (simp_all add: ck_claim_row)

lemma pub_claim_one:
  assumes inv: "pub_inv cs s" and run: "claim_one w excluded sheet now s = Inr (c, s')"
  shows "pub_inv (case c of None \<Rightarrow> cs | Some c \<Rightarrow> c # cs) s'"
proof -
  from claim_one_cases [OF run] obtain es where cp: "claim_pending 1 sheet w excluded now s = (es, s')"
    and es: "case es of [] \<Rightarrow> c = None | e # _ \<Rightarrow> (\<exists>cl. c = Some cl \<and>
       (snapshot_claim s' e = Inr cl \<or> (\<exists>err. cl = broken_claim e err)))" .
  show ?thesis
    using inv cp
  proof (cases rule: claim_pending_one)
    case empty
    with es inv show ?thesis by simp
  next
    case (one e)
    have inv': "pub_inv cs s'" unfolding one(4) by (rule pub_claim_update [OF inv])
    have row: "claim_row now e \<in> set (effects s')"
      using one(1) unfolding one(4) by (auto simp: effect_update_def set_update_where)
    from es one(3) obtain cl where cl: "c = Some cl"
      and or: "snapshot_claim s' (claim_row now e) = Inr cl \<or> (\<exists>err. cl = broken_claim (claim_row now e) err)"
      by auto
    from or have "pub_inv (cl # cs) s'"
    proof
      assume "snapshot_claim s' (claim_row now e) = Inr cl"
      from snapshot_claim_ok [OF inv' row _ _ _ this] show ?thesis by simp
    next
      assume "\<exists>err. cl = broken_claim (claim_row now e) err"
      then have "claim_app (applications s') cl"
        "cl_effect_id cl = ef_id e \<and> cl_kind cl = ef_kind e \<and> cl_application_id cl = ef_application_id e"
        by (auto simp: claim_app_def broken_claim_def)
      moreover from this(2) have "claim_row_of (effects s') cl"
        unfolding claim_row_of_def by (intro bexI [OF _ row]) simp
      ultimately have "claim_app (applications s') cl" "claim_row_of (effects s') cl" by blast+
      then show ?thesis by (rule pub_add_claim [OF inv'])
    qed
    with cl show ?thesis by simp
  qed
qed

lemma pub_mark_result:
  assumes inv: "pub_inv cs s" and c: "c \<in> set cs"
    and st: "st \<noteq> E_processing" "st = E_unknown \<Longrightarrow> cl_kind c \<noteq> Sheet_projection"
  shows "pub_inv cs (snd (mark_result c st err now s))"
proof (cases "get_claimed_for_update s (cl_effect_id c) (cl_attempt c)")
  case None
  with inv show ?thesis by (simp add: mark_result_def)
next
  case (Some e)
  note r = claimed_row [OF Some]
  have "pub_inv cs (effect_update (ef_id e) (\<lambda>e. e\<lparr>ef_status := st,
      ef_last_error := (if truthy err then Some (take 500 (the err)) else None),
      completed_at := (if st \<in> {E_sent, E_failed, E_stale} then Some now else completed_at e)\<rparr>) s)"
  proof (rule pub_effect_update [OF inv])
    fix d assume d: "d \<in> set (effects s)" "ef_id d = ef_id e" "ck_effect d"
    have "d = e" by (rule pub_effect_of(3) [OF inv r(1) d(1,2)])
    then show "ck_effect (d\<lparr>ef_status := st,
        ef_last_error := (if truthy err then Some (take 500 (the err)) else None),
        completed_at := (if st \<in> {E_sent, E_failed, E_stale} then Some now else completed_at d)\<rparr>)"
      using d(3) r(3) st claim_matches(1) [OF inv c Some] by (auto simp: ck_effect_def)
  qed simp
  with Some show ?thesis by (simp add: mark_result_def)
qed

lemma pub_fail_confirmed: "pub_inv cs s \<Longrightarrow> pub_inv cs (fail_confirmed aid s)"
proof -
  assume inv: "pub_inv cs s"
  show ?thesis unfolding fail_confirmed_def
  proof (rule pub_app_update [OF inv])
    fix a assume "a \<in> set (applications s)"
    then have "ck_application a" using inv by (simp add: pub_inv_def)
    then show "app_forward a (if status a = Confirmed then a\<lparr>status := Delivery_failed\<rparr> else a)"
      by (auto simp: ck_application_def intro!: forward_status)
  qed
qed

lemma pub_mark_delivery_failed:
  assumes "pub_inv cs s" "c \<in> set cs" "st \<noteq> E_processing" "st \<noteq> E_unknown"
  shows "pub_inv cs (snd (mark_delivery_failed c st err now s))"
proof -
  have "pub_inv cs (snd (mark_result c st err now s))" using assms by (intro pub_mark_result) simp_all
  then show ?thesis
    by (auto simp: mark_delivery_failed_def pub_fail_confirmed split: prod.splits)
qed

lemma pub_finish:
  assumes "pub_inv cs s" "st \<in> {E_sent, E_failed, E_stale, E_pending}"
  shows "pub_inv cs (finish_effect eid st chat msg now s)" "pub_inv cs (finish_clean eid st chat msg now s)"
    "pub_inv cs (complete_effect eid st now s)"
  using assms unfolding finish_effect_def finish_clean_def complete_effect_def
  by - (rule pub_effect_update; auto simp: ck_effect_def)+

lemma accept_publish_swap:
  "accept_application aid (publish_first_intro a c now s) = publish_first_intro a c now (accept_application aid s)"
  by (simp add: accept_application_def publish_first_intro_def app_update_def enqueue_once_def
      effect_exists_def effect_append_def intro_add_def)

lemma accept_promote_swap:
  "accept_application aid (snd (promote_if_current uid base b txt now s)) =
   snd (promote_if_current uid base b txt now (accept_application aid s))"
  by (simp add: accept_application_def promote_if_current_def app_update_def)

text \<open>The application a valid claim is about, and its confirmed block.\<close>

lemma claim_application:
  assumes inv: "pub_inv cs s" and c: "c \<in> set cs" "cl_error c = None"
    and a: "app_get s (cl_application_id c) = Some a"
  shows "confirmed_intro_html a = Some (cl_html c)" "app_user_id a = cl_user_id c" "status a \<noteq> Filling"
proof -
  from inv c obtain b where b: "b \<in> set (applications s)" "app_id b = cl_application_id c"
    "status b \<noteq> Filling" "app_user_id b = cl_user_id c" "confirmed_intro_html b = Some (cl_html c)"
    by (auto simp: pub_inv_def claim_app_def)
  from pub_app_of(4) [OF inv a b(1,2)] b show "confirmed_intro_html a = Some (cl_html c)"
    "app_user_id a = cl_user_id c" "status a \<noteq> Filling" by simp_all
qed

lemma pub_publish_first:
  assumes inv: "pub_inv cs s" and a: "a \<in> set (applications s)" "status a = Added"
    and none: "intro_get s (app_user_id a) = None" and html: "confirmed_intro_html a = Some (cl_html c)"
  shows "pub_inv cs (publish_first_intro a c now s)"
proof -
  have "pub_inv cs (intro_add (app_user_id a) (app_id a) (cl_html c) (cl_voucher_name c) now s)"
    by (rule pub_intro_add [OF inv none a(1) refl a(2) refl html])
  then show ?thesis unfolding publish_first_intro_def
    using a by (rule_tac pub_enqueue_once [where a = a]) simp_all
qed

lemma pub_accept:
  assumes inv: "pub_inv cs s" and a: "app_get s aid = Some a" "status a \<notin> {Filling, Added}" "app_flow_kind a \<noteq> None"
  shows "pub_inv cs (accept_application (app_id a) s)"
  unfolding accept_application_def
proof (rule pub_app_update [OF inv])
  fix b assume "b \<in> set (applications s)" "app_id b = app_id a"
  then have "b = a" using pub_app_of(2,4) [OF inv a(1)] by simp
  then show "app_forward b (b\<lparr>status := Added\<rparr>)" using a by (intro forward_status) simp_all
qed

lemma pub_publish_card:
  assumes inv: "pub_inv cs s" and a: "app_get s aid = Some a" "status a = Confirmed" "app_flow_kind a \<noteq> None"
  shows "pub_inv cs (publish_card (app_id a) msg now s)"
  unfolding publish_card_def
proof (rule pub_app_update [OF inv])
  fix b assume "b \<in> set (applications s)" "app_id b = app_id a"
  then have "b = a" using pub_app_of(2,4) [OF inv a(1)] by simp
  then show "app_forward b (b\<lparr>status := Pending, questionnaire_message_id := Some msg, submitted_at := Some now\<rparr>)"
    using a by (intro forward_status) simp_all
qed

lemma accepted_in:
  assumes "pub_inv cs s" "app_get s aid = Some a"
  shows "a\<lparr>status := Added\<rparr> \<in> set (applications (accept_application (app_id a) s))"
  using pub_app_of(1) [OF assms] by (force simp: accept_application_def app_update_def set_update_where)

lemma finish_intros [simp]:
  "intros (finish_effect eid st chat msg now s) = intros s"
  "intros (finish_clean eid st chat msg now s) = intros s"
  "intros (accept_application aid s) = intros s"
  by (simp_all add: finish_effect_def finish_clean_def effect_update_def accept_application_def app_update_def)

lemma finish_gets [simp]:
  "app_get (finish_clean eid st chat msg now s) aid = app_get s aid"
  "intro_get (finish_clean eid st chat msg now s) uid = intro_get s uid"
  "intro_get (accept_application aid s) uid = intro_get s uid"
  by (simp_all add: app_get_def intro_get_def)

text \<open>The three ways a delivered message is published.\<close>

lemma pub_member_intro:
  assumes inv: "pub_inv cs s" and a: "app_get s aid = Some a" "status a = Confirmed" "app_flow_kind a \<noteq> None"
    and none: "intro_get s (app_user_id a) = None" and html: "confirmed_intro_html a = Some (cl_html c)"
  shows "pub_inv cs (accept_application (app_id a) (publish_first_intro a c now s))"
proof -
  let ?s = "accept_application (app_id a) s" and ?a = "a\<lparr>status := Added\<rparr>"
  have "pub_inv cs ?s" using a by (intro pub_accept [OF inv a(1)]) simp_all
  moreover have "?a \<in> set (applications ?s)" by (rule accepted_in [OF inv a(1)])
  moreover have "intro_get ?s (app_user_id ?a) = None" using none by simp
  ultimately have "pub_inv cs (publish_first_intro ?a c now ?s)"
    using html by (intro pub_publish_first) simp_all
  then show ?thesis unfolding accept_publish_swap by (simp add: publish_first_intro_def)
qed

lemma pub_refresh_intro:
  assumes inv: "pub_inv cs s" and a: "app_get s aid = Some a" "status a = Confirmed" "app_flow_kind a \<noteq> None"
    and html: "confirmed_intro_html a = Some (cl_html c)"
  shows "pub_inv cs (enqueue_once (app_id a) Sheet_projection (complete_trackings (app_user_id a)
    (accept_application (app_id a)
      (snd (promote_if_current (app_user_id a) base (app_id a) (cl_html c) now s)))))"
proof -
  let ?s = "accept_application (app_id a) s" and ?a = "a\<lparr>status := Added\<rparr>"
  have in_s: "?a \<in> set (applications ?s)" by (rule accepted_in [OF inv a(1)])
  have "pub_inv cs ?s" using a by (intro pub_accept [OF inv a(1)]) simp_all
  then have "pub_inv cs (snd (promote_if_current (app_user_id a) base (app_id a) (cl_html c) now ?s))"
    using html by (intro pub_promote [OF _ in_s]) simp_all
  then have p: "pub_inv cs (complete_trackings (app_user_id a)
      (snd (promote_if_current (app_user_id a) base (app_id a) (cl_html c) now ?s)))"
    by (rule pub_trackings)
  have "?a \<in> set (applications (complete_trackings (app_user_id a)
      (snd (promote_if_current (app_user_id a) base (app_id a) (cl_html c) now ?s))))"
    using in_s by (simp add: complete_trackings_def)
  from pub_enqueue_once [OF p this] show ?thesis unfolding accept_promote_swap by simp
qed

lemma pub_finalize:
  assumes inv: "pub_inv cs s" and c: "c \<in> set cs" "cl_error c = None"
  shows "pub_inv cs (snd (telegram_success_rows c chat msg now s))"
proof (cases "get_claimed_for_update s (cl_effect_id c) (cl_attempt c)")
  case None
  with inv show ?thesis by (simp add: telegram_success_rows_def)
next
  case (Some e)
  show ?thesis
  proof (cases "app_get s (cl_application_id c)")
    case None
    with inv Some show ?thesis by (simp add: telegram_success_rows_def pub_finish)
  next
    case a: (Some a)
    note html = claim_application(1) [OF inv c a]
    have stale: "pub_inv cs (finish_effect eid E_stale chat msg now s)"
      and late: "pub_inv cs (finish_clean eid E_stale chat msg now s)"
      and sent: "pub_inv cs (finish_clean eid E_sent chat msg now s)" for eid
      using inv by (simp_all add: pub_finish)
    show ?thesis
    proof (cases "valid_semantic_pair e a \<and> (needs_member (ef_kind e) \<longrightarrow> member_user s (cl_user_id c))")
      case False
      then show ?thesis using Some a stale
        by (auto simp: telegram_success_rows_def Let_def pub_fail_confirmed)
    next
      case True
      have a': "app_get (finish_clean (ef_id e) E_sent chat msg now s) (cl_application_id c) = Some a"
        using a by simp
      note in_a = pub_app_of(1) [OF sent a']
      have card: "ef_kind e = Candidate_card \<Longrightarrow>
          pub_inv cs (publish_card (app_id a) msg now (finish_clean (ef_id e) E_sent chat msg now s))"
        using True by (intro pub_publish_card [OF sent a']) (simp_all add: valid_semantic_pair_def)
      have adm: "ef_kind e = Admission_intro \<Longrightarrow> intro_get s (app_user_id a) = None \<Longrightarrow>
          pub_inv cs (publish_first_intro a c now (finish_clean (ef_id e) E_sent chat msg now s))"
        using True html by (intro pub_publish_first [OF sent in_a]) (simp_all add: valid_semantic_pair_def)
      have mem: "ef_kind e = Member_intro \<Longrightarrow> intro_get s (app_user_id a) = None \<Longrightarrow>
          pub_inv cs (accept_application (app_id a)
            (publish_first_intro a c now (finish_clean (ef_id e) E_sent chat msg now s)))"
        using True html by (intro pub_member_intro [OF sent a']) (simp_all add: valid_semantic_pair_def)
      show ?thesis
      proof (cases "ef_kind e")
        case Refresh_intro
        let ?sent = "finish_clean (ef_id e) E_sent chat msg now s"
        have ref: "pub_inv cs (enqueue_once (app_id a) Sheet_projection (complete_trackings (app_user_id a)
            (accept_application (app_id a) (snd (promote_if_current (app_user_id a)
              (base_application_id a) (app_id a) (cl_html c) now ?sent)))))"
          using True html Refresh_intro
          by (intro pub_refresh_intro [OF sent a']) (simp_all add: valid_semantic_pair_def)
        obtain p s1 where p: "promote_if_current (app_user_id a) (base_application_id a) (app_id a)
            (cl_html c) now ?sent = (p, s1)" by fastforce
        from ref p have "pub_inv cs (enqueue_once (app_id a) Sheet_projection
            (complete_trackings (app_user_id a) (accept_application (app_id a) s1)))" by simp
        with True Some a Refresh_intro p late stale show ?thesis
          by (simp add: telegram_success_rows_def Let_def pub_fail_confirmed split: option.split)
      qed (use True Some a late stale card adm mem in
          \<open>auto simp: telegram_success_rows_def Let_def valid_semantic_pair_def pub_fail_confirmed\<close>)
    qed
  qed
qed

lemma pub_ensure_projection:
  assumes inv: "pub_inv cs s" and a: "a \<in> set (applications s)" "app_id a = aid" "status a \<noteq> Filling"
  shows "pub_inv cs (ensure_projection_pending aid s)"
proof (cases "fetch effect_key (aid, Sheet_projection) (effects s)")
  case None
  then have "\<not> effect_exists s aid Sheet_projection"
    unfolding fetch_None_iff effect_exists_def list_ex_iff by (metis image_eqI)
  with None inv a show ?thesis by (simp add: ensure_projection_pending_def pub_effect_append)
next
  case (Some e)
  have "pub_inv cs (effect_update (ef_id e) (\<lambda>e. e\<lparr>ef_status := E_pending, attempt_count := 0,
      attempt_started_at := None, ef_last_error := None, completed_at := None\<rparr>) s)"
    by (rule pub_effect_update [OF inv]) (auto simp: ck_effect_def)
  with Some inv show ?thesis by (simp add: ensure_projection_pending_def)
qed

lemma pub_sheet: "pub_inv cs s \<Longrightarrow> pub_inv cs (snd (finalize_sheet_success c now s))"
proof -
  assume inv: "pub_inv cs s"
  have fin: "pub_inv cs (complete_effect eid st now s)" if "st \<in> {E_sent, E_stale}" for eid st
    using inv that by (intro pub_finish) auto
  have "pub_inv cs (ensure_projection_pending b (complete_effect eid E_stale now s))"
    if i: "intro_get s uid = Some i" "in_application_id i = Some b" for eid uid i b
  proof -
    have "i \<in> set (intros s)" using i(1) unfolding intro_get_def by (rule itr.get_in)
    with inv i(2) obtain a where "a \<in> set (applications s)" "app_id a = b" "status a = Added"
      by (auto simp: pub_inv_def pub_intro_def)
    with fin show ?thesis
      by (intro pub_ensure_projection) (auto simp: complete_effect_def)
  qed
  with inv fin show ?thesis
    by (auto simp: finalize_sheet_success_def Let_def split: option.split)
qed

lemma pub_finish_send:
  "pub_inv cs s \<Longrightarrow> c \<in> set cs \<Longrightarrow> cl_error c = None \<Longrightarrow> cl_kind c \<noteq> Sheet_projection \<Longrightarrow>
   pub_inv cs (finish_send community n c outcome now s)"
  by (simp add: finish_send_def finalize_telegram_success_def case_prod_unfold pub_finalize pub_mark_result pub_mark_delivery_failed
      split: send_outcome.split)

lemma pub_finish_sheet:
  "pub_inv cs s \<Longrightarrow> c \<in> set cs \<Longrightarrow> pub_inv cs (finish_sheet n c outcome now s)"
  by (auto simp: finish_sheet_def pub_sheet intro!: pub_mark_result split: sheet_outcome.split)

lemma sweep_effects:
  "effects (snd (mark_stale_processing_unknown t s)) =
     map (\<lambda>e. if claim_expired t e
              then e\<lparr>ef_status := (if ef_kind e = Sheet_projection then E_pending else E_unknown),
                     ef_last_error := Some (cp ''processing claim expired'')\<rparr>
              else e) (effects s)"
  by (auto simp: mark_stale_processing_unknown_def Let_def update_where_def claim_expired_def)

lemma pub_sweep: "pub_inv cs s \<Longrightarrow> pub_inv cs (snd (mark_stale_processing_unknown t s))"
  by (rule pub_effects_map [OF _ _ _ sweep_effects])
    (auto simp: ck_effect_def claim_expired_def mark_stale_processing_unknown_def Let_def)

lemma pub_reconcile:
  assumes inv: "pub_inv cs s"
    and run: "reconcile_intro_effect ads community eid action chat msg evidence operator reason now s = Inr s'"
  shows "pub_inv cs s'"
  using run
proof (rule reconcile_ok)
  fix e s2
  assume f: "fetch ef_id eid (effects s) = Some e" and k: "attempt_count e > 0"
    "ef_status e = E_unknown" "ef_kind e \<noteq> Sheet_projection"
    and w: "(action = Retry_absent \<and>
        s2 = effect_update eid (\<lambda>e. e\<lparr>ef_status := E_pending, ef_last_error := None\<rparr>) s) \<or>
     (action = Record_sent \<and> (\<exists>c. snapshot_claim (effect_update eid (\<lambda>e. e\<lparr>ef_status := E_processing\<rparr>) s)
          (e\<lparr>ef_status := E_processing\<rparr>) = Inr c \<and>
        finalize_telegram_success c (the chat) (the msg) now
          (effect_update eid (\<lambda>e. e\<lparr>ef_status := E_processing\<rparr>) s) = Inr (True, s2)))"
    and s': "s' = s2\<lparr>reconciliations := reconciliations s2 @
        [\<lparr>rc_effect_id = eid, rc_attempt_count = attempt_count e, rc_action = action,
          rc_reason = py_strip reason, rc_evidence = evidence, rc_chat_id = chat,
          rc_message_id = msg, rc_operator = operator\<rparr>]\<rparr>"
  have e: "e \<in> set (effects s)" "ef_id e = eid" using f fetch_Some by fastforce+
  let ?s1 = "effect_update eid (\<lambda>e. e\<lparr>ef_status := E_processing\<rparr>) s"
  have retry: "pub_inv cs (effect_update eid (\<lambda>e. e\<lparr>ef_status := E_pending, ef_last_error := None\<rparr>) s)"
    by (rule pub_effect_update [OF inv]) (auto simp: ck_effect_def)
  have one: "pub_inv cs ?s1"
  proof (rule pub_effect_update [OF inv])
    fix d assume d: "d \<in> set (effects s)" "ef_id d = eid" "ck_effect d"
    have "d = e" using pub_effect_of(3) [OF inv e(1) d(1)] d(2) e(2) by simp
    with d k show "ck_effect (d\<lparr>ef_status := E_processing\<rparr>)" by (simp add: ck_effect_def)
  qed simp
  have row: "e\<lparr>ef_status := E_processing\<rparr> \<in> set (effects ?s1)"
    using e by (force simp: effect_update_def set_update_where)
  have "pub_inv cs s2" if c: "snapshot_claim ?s1 (e\<lparr>ef_status := E_processing\<rparr>) = Inr c"
    and s2: "finalize_telegram_success c (the chat) (the msg) now ?s1 = Inr (True, s2)" for c
  proof -
    have "pub_inv (c # cs) ?s1" by (rule snapshot_claim_ok [OF one row refl refl refl c])
    moreover have "cl_error c = None" using c by (rule snapshot_ok)
    ultimately have "pub_inv (c # cs) (snd (telegram_success_rows c (the chat) (the msg) now ?s1))"
      by (intro pub_finalize) simp_all
    then show ?thesis using finalized_rows [OF s2] by (auto intro: pub_claims_mono)
  qed
  with w retry have "pub_inv cs s2" by blast
  then show ?thesis unfolding s' by (rule pub_same) (simp add: same_pub_tables_def)
qed

end
