(* ===== verification/IntroSystem.thy ===== *)
theory IntroSystem
  imports IntroPublish
begin

section \<open>The onboarding system\<close>

text \<open>
  All transactions together: a step relation whose rules are the handlers, the scheduler jobs, the
  operator's reconciliation and the phases of an outbox worker, in any order and any number of
  workers.  A handler that chains several service calls in one transaction is a sequence of steps.
  The state is the database, the claims workers hold, and the messages that reached the chat.
\<close>

subsection \<open>Steps\<close>

datatype claim_phase = Ph_claimed | Ph_valid | Ph_invalid | Ph_called send_outcome

record world =
  wdb :: db
  inflight :: "(claimed_effect \<times> claim_phase) list"
  reached_chat :: "int list"

definition empty_db :: db where
  "empty_db = \<lparr>users = [], applications = [], answers = [], intros = [], effects = [],
     reconciliations = [], trackings = [], vouches = [], invites = [],
     next_app_id = 1, next_effect_id = 1, next_tracking_id = 1, next_invite_id = 1\<rparr>"

definition init_world :: world where
  "init_world = \<lparr>wdb = empty_db, inflight = [], reached_chat = []\<rparr>"

text \<open>Transactions of the handlers, the jobs and the operator.\<close>

inductive db_step :: "int list \<Rightarrow> int \<Rightarrow> (nat list \<Rightarrow> nat list) \<Rightarrow> db \<Rightarrow> db \<Rightarrow> bool"
  for admins community sha where
  upsert: "db_step admins community sha s (user_upsert uid uname first lst isbot s)"
| apply_new: "app_create uid Admission None ''intro-v2'' now s = Inr (a, s') \<Longrightarrow>
    db_step admins community sha s s'"
| refresh: "start_or_resume_refresh uid editable now s = Inr (a, s') \<Longrightarrow> db_step admins community sha s s'"
| answer: "write_answer uid aid fid txt s = Inr (nxt, s') \<Longrightarrow> db_step admins community sha s s'"
| keep: "keep_base_answer uid aid fid s = Inr (nxt, s') \<Longrightarrow> db_step admins community sha s s'"
| reset: "reset_draft sha uid aid digest s = Inr (nxt, s') \<Longrightarrow> db_step admins community sha s s'"
| restart: "restart_refresh_selection sha uid aid digest editable s = Inr (nxt, s') \<Longrightarrow>
    db_step admins community sha s s'"
| cancel: "cancel_refresh uid aid s = Inr s' \<Longrightarrow> db_step admins community sha s s'"
| confirm: "confirm_application sha uid aid digest s = Inr (a, s') \<Longrightarrow> db_step admins community sha s s'"
| vouch: "handle_vouch community from_user aid msg now (\<lambda>s. s) s = Inr (calls, s') \<Longrightarrow>
    db_step admins community sha s s'"
| ready: "handle_ready community from_user aid has_message (\<lambda>s. s) s = Inr (calls, s') \<Longrightarrow>
    db_step admins community sha s s'"
| invite: "row \<in> set (invites s) \<Longrightarrow> iv_status row = Iv_pending \<Longrightarrow>
    db_step admins community sha s (snd (process_invite_row outcome now row s))"
| member: "db_step admins community sha s (snd (handle_chat_member admins community e now (\<lambda>s. s) s))"
| deadlines: "db_step admins community sha s
    (snd (check_vouch_deadlines admins community vh nh now (\<lambda>s. s) (\<lambda>s. s) s))"
| sweep: "db_step admins community sha s (snd (mark_stale_processing_unknown t s))"
| reconcile: "reconcile_intro_effect admins community eid action chat msg evidence operator reason now s = Inr s' \<Longrightarrow>
    db_step admins community sha s s'"

text \<open>
  Whether the message reached the chat, given what the call reported: yes after success, no after a
  refusal or flood control, and either way after a lost connection, a cancellation or a crash.
\<close>

definition may_reach :: "send_outcome \<Rightarrow> bool \<Rightarrow> bool" where
  "may_reach outcome reached =
     (case outcome of
        Send_ok _ \<Rightarrow> reached
      | Send_refused _ \<Rightarrow> \<not> reached
      | Send_retry_after _ \<Rightarrow> \<not> reached
      | _ \<Rightarrow> True)"

text \<open>The phases of a worker: claim, check, call, write the result; it may stop at any point.\<close>

inductive world_step :: "int list \<Rightarrow> int \<Rightarrow> (nat list \<Rightarrow> nat list) \<Rightarrow> world \<Rightarrow> world \<Rightarrow> bool"
  for admins community sha where
  transaction: "db_step admins community sha (wdb w) s' \<Longrightarrow>
    world_step admins community sha w (w\<lparr>wdb := s'\<rparr>)"
| claim: "claim_one watermark excluded has_sheet now (wdb w) = Inr (Some c, s') \<Longrightarrow>
    world_step admins community sha w (w\<lparr>wdb := s', inflight := (c, Ph_claimed) # inflight w\<rparr>)"
| broken: "inflight w = xs @ (c, Ph_claimed) # ys \<Longrightarrow> cl_error c = Some err \<Longrightarrow>
    world_step admins community sha w
      (w\<lparr>wdb := snd (mark_result c E_failed (Some (cp err)) now (wdb w)), inflight := xs @ ys\<rparr>)"
| check: "inflight w = xs @ (c, Ph_claimed) # ys \<Longrightarrow> cl_error c = None \<Longrightarrow>
    world_step admins community sha w (w\<lparr>inflight := xs @
      (c, if claim_is_semantically_valid (wdb w) c then Ph_valid else Ph_invalid) # ys\<rparr>)"
| stale: "inflight w = xs @ (c, Ph_invalid) # ys \<Longrightarrow>
    world_step admins community sha w
      (w\<lparr>wdb := snd (mark_delivery_failed c E_stale None now (wdb w)), inflight := xs @ ys\<rparr>)"
| call: "inflight w = xs @ (c, Ph_valid) # ys \<Longrightarrow> cl_kind c \<noteq> Sheet_projection \<Longrightarrow> may_reach outcome reached \<Longrightarrow>
    world_step admins community sha w (w\<lparr>inflight := xs @ (c, Ph_called outcome) # ys,
      reached_chat := (if reached then cl_effect_id c # reached_chat w else reached_chat w)\<rparr>)"
| finish: "inflight w = xs @ (c, Ph_called outcome) # ys \<Longrightarrow>
    world_step admins community sha w
      (w\<lparr>wdb := finish_send community max_attempts c outcome now (wdb w), inflight := xs @ ys\<rparr>)"
| sheet: "inflight w = xs @ (c, Ph_valid) # ys \<Longrightarrow> cl_kind c = Sheet_projection \<Longrightarrow>
    world_step admins community sha w
      (w\<lparr>wdb := (case r of None \<Rightarrow> snd (mark_result c E_pending None now (wdb w))
                 | Some out \<Rightarrow> finish_sheet max_attempts c out now (wdb w)), inflight := xs @ ys\<rparr>)"
| crash: "inflight w = xs @ x # ys \<Longrightarrow> world_step admins community sha w (w\<lparr>inflight := xs @ ys\<rparr>)"

definition reachable :: "int list \<Rightarrow> int \<Rightarrow> (nat list \<Rightarrow> nat list) \<Rightarrow> world \<Rightarrow> bool" where
  "reachable admins community sha w \<longleftrightarrow> (world_step admins community sha)\<^sup>*\<^sup>* init_world w"

inductive_cases db_stepE: "db_step admins community sha s s'"
inductive_cases world_stepE: "world_step admins community sha w w'"

lemma reachable_induct [consumes 1, case_names init step]:
  assumes "reachable admins community sha w" "P init_world"
    and "\<And>w w'. reachable admins community sha w \<Longrightarrow> world_step admins community sha w w' \<Longrightarrow> P w \<Longrightarrow> P w'"
  shows "P w"
  using assms(1) unfolding reachable_def
  by (induction rule: rtranclp_induct) (use assms(2,3) in \<open>auto simp: reachable_def\<close>)

subsection \<open>The invariants hold\<close>

lemma db_step_gate:
  assumes "db_step admins community sha s s'" "gate_inv admins s"
  shows "gate_inv admins s'"
  using assms(1)
proof cases
  case upsert
  show ?thesis unfolding upsert by (rule gate_upsert [OF assms(2)])
next
  case apply_new
  show ?thesis by (rule gate_create [OF assms(2) apply_new])
next
  case refresh
  show ?thesis by (rule gate_start_refresh [OF assms(2) refresh])
next
  case cancel
  show ?thesis by (rule gate_cancel [OF assms(2) cancel])
next
  case confirm
  show ?thesis by (rule gate_confirm [OF assms(2) confirm])
next
  case vouch
  show ?thesis by (rule gate_vouch [OF assms(2) vouch])
next
  case reconcile
  show ?thesis by (rule gate_reconcile [OF assms(2) reconcile])
next
  case answer
  show ?thesis by (rule gate_only_answers [OF assms(2) only_answers_ops(1) [OF answer]])
next
  case keep
  show ?thesis by (rule gate_only_answers [OF assms(2) only_answers_ops(2) [OF keep]])
next
  case reset
  show ?thesis by (rule gate_only_answers [OF assms(2) only_answers_ops(3) [OF reset]])
next
  case restart
  show ?thesis by (rule gate_only_answers [OF assms(2) only_answers_ops(4) [OF restart]])
next
  case ready
  have "s' = s" by (rule ready_dead [OF assms(2) ready])
  with assms(2) show ?thesis by simp
next
  case invite
  show ?thesis unfolding invite(1) by (rule gate_invite_row [THEN conjunct1, OF assms(2) invite(2,3)])
next
  case member
  show ?thesis unfolding member by (rule gate_chat_member [OF assms(2)])
next
  case deadlines
  show ?thesis unfolding deadlines by (rule gate_deadlines [OF assms(2)])
next
  case sweep
  show ?thesis unfolding sweep by (rule gate_sweep [OF assms(2)])
qed

lemma db_step_pub:
  assumes "db_step admins community sha s s'" "gate_inv admins s" "pub_inv cs s"
  shows "pub_inv cs s'"
  using assms(1)
proof cases
  case upsert
  show ?thesis unfolding upsert by (rule pub_user_ops(1) [OF assms(3)])
next
  case apply_new
  show ?thesis by (rule pub_create [OF assms(3) apply_new])
next
  case refresh
  show ?thesis by (rule pub_start_refresh [OF assms(3) refresh])
next
  case cancel
  show ?thesis by (rule pub_cancel [OF assms(3) cancel])
next
  case confirm
  show ?thesis by (rule pub_confirm [OF assms(3) confirm])
next
  case vouch
  show ?thesis by (rule pub_vouch [OF assms(3) vouch])
next
  case reconcile
  show ?thesis by (rule pub_reconcile [OF assms(3) reconcile])
next
  case answer
  show ?thesis by (rule pub_only_answers [OF assms(3) only_answers_ops(1) [OF answer]])
next
  case keep
  show ?thesis by (rule pub_only_answers [OF assms(3) only_answers_ops(2) [OF keep]])
next
  case reset
  show ?thesis by (rule pub_only_answers [OF assms(3) only_answers_ops(3) [OF reset]])
next
  case restart
  show ?thesis by (rule pub_only_answers [OF assms(3) only_answers_ops(4) [OF restart]])
next
  case ready
  have "s' = s" by (rule ready_dead [OF assms(2) ready])
  with assms(3) show ?thesis by simp
next
  case invite
  show ?thesis unfolding invite(1) by (rule pub_invite_row [OF assms(3,2) invite(2,3)])
next
  case member
  show ?thesis unfolding member by (rule pub_chat_member [OF assms(3,2)])
next
  case deadlines
  show ?thesis unfolding deadlines by (rule pub_deadlines [OF assms(3,2)])
next
  case sweep
  show ?thesis unfolding sweep by (rule pub_sweep [OF assms(3)])
qed

text \<open>A claim past its check has a snapshot, and one that was sent is not a sheet row.\<close>

definition phase_ok :: "claimed_effect \<times> claim_phase \<Rightarrow> bool" where
  "phase_ok x = (case x of
     (c, Ph_valid) \<Rightarrow> cl_error c = None
   | (c, Ph_called _) \<Rightarrow> cl_error c = None \<and> cl_kind c \<noteq> Sheet_projection
   | _ \<Rightarrow> True)"

definition world_inv :: "int list \<Rightarrow> world \<Rightarrow> bool" where
  "world_inv admins w \<longleftrightarrow> gate_inv admins (wdb w) \<and> pub_inv (map fst (inflight w)) (wdb w) \<and>
     list_all phase_ok (inflight w)"

lemma init_world_inv: "world_inv admins init_world"
  by (simp add: world_inv_def init_world_def empty_db_def gate_inv_def pub_inv_def ids_below_def one_active_def)

lemma world_step_inv:
  assumes "world_step admins community sha w w'" and inv: "world_inv admins w"
  shows "world_inv admins w'"
proof -
  have g: "gate_inv admins (wdb w)" and p: "pub_inv (map fst (inflight w)) (wdb w)"
    and ph: "list_all phase_ok (inflight w)" using inv by (simp_all add: world_inv_def)
  from assms(1) show ?thesis
  proof cases
    case (transaction s')
    then show ?thesis using g p ph by (auto simp: world_inv_def dest: db_step_gate db_step_pub)
  next
    case (claim wm ex hs now c s')
    have "gate_inv admins s'" using gate_claim [OF g claim(2)] .
    moreover have "pub_inv (c # map fst (inflight w)) s'" using pub_claim_one [OF p claim(2)] by simp
    ultimately show ?thesis unfolding claim(1) using ph by (simp add: world_inv_def phase_ok_def)
  next
    case (broken xs c ys err now)
    let ?s = "snd (mark_result c E_failed (Some (cp err)) now (wdb w))"
    have "pub_inv (map fst (inflight w)) ?s" using broken(2) by (intro pub_mark_result [OF p]) simp_all
    then have "pub_inv (map fst (xs @ ys)) ?s" by (rule pub_claims_mono) (auto simp: broken(2))
    then show ?thesis using g ph broken by (simp add: world_inv_def gate_mark_result)
  next
    case (check xs c ys)
    have "map fst (inflight w') = map fst (inflight w)" using check(1,2) by simp
    then show ?thesis using g p ph check by (auto simp: world_inv_def phase_ok_def)
  next
    case (stale xs c ys now)
    let ?s = "snd (mark_delivery_failed c E_stale None now (wdb w))"
    have "pub_inv (map fst (inflight w)) ?s" using stale(2) by (intro pub_mark_delivery_failed [OF p]) simp_all
    then have "pub_inv (map fst (xs @ ys)) ?s" by (rule pub_claims_mono) (auto simp: stale(2))
    then show ?thesis using g ph stale by (simp add: world_inv_def gate_mark_delivery_failed)
  next
    case (call xs c ys outcome reached)
    have "map fst (inflight w') = map fst (inflight w)" using call(1,2) by simp
    then show ?thesis using g p ph call by (auto simp: world_inv_def phase_ok_def)
  next
    case (finish xs c outcome ys n now)
    let ?s = "finish_send community n c outcome now (wdb w)"
    have "pub_inv (map fst (inflight w)) ?s"
      using finish(2) ph by (intro pub_finish_send [OF p]) (simp_all add: phase_ok_def)
    then have "pub_inv (map fst (xs @ ys)) ?s" by (rule pub_claims_mono) (auto simp: finish(2))
    then show ?thesis using g ph finish by (simp add: world_inv_def gate_finish_send)
  next
    case (sheet xs c ys r now n)
    let ?s = "case r of None \<Rightarrow> snd (mark_result c E_pending None now (wdb w))
      | Some out \<Rightarrow> finish_sheet n c out now (wdb w)"
    have "pub_inv (map fst (inflight w)) ?s"
      using sheet(2) p by (auto intro!: pub_mark_result pub_finish_sheet split: option.split)
    then have "pub_inv (map fst (xs @ ys)) ?s" by (rule pub_claims_mono) (auto simp: sheet(2))
    moreover have "gate_inv admins ?s" using g by (simp add: gate_mark_result gate_finish_sheet split: option.split)
    ultimately show ?thesis using ph sheet by (simp add: world_inv_def)
  next
    case (crash xs x ys)
    have "pub_inv (map fst (xs @ ys)) (wdb w)" using p by (rule pub_claims_mono) (auto simp: crash(2))
    then show ?thesis using g ph crash by (simp add: world_inv_def)
  qed
qed

lemma reachable_inv: "reachable admins community sha w \<Longrightarrow> world_inv admins w"
  by (induction rule: reachable_induct) (auto intro: init_world_inv world_step_inv)

subsection \<open>How the rows of the outbox move\<close>

text \<open>
  \<open>effect_moves P s s'\<close>: no row is lost, every row after the transaction is an old row moved by \<open>P\<close>, with
  its application and kind, or a new pending one without a message, and no reconciliation was recorded.
\<close>

definition effect_moves :: "(intro_effect \<Rightarrow> intro_effect \<Rightarrow> bool) \<Rightarrow> db \<Rightarrow> db \<Rightarrow> bool" where
  "effect_moves P s s' \<longleftrightarrow> next_effect_id s \<le> next_effect_id s' \<and> reconciliations s' = reconciliations s \<and>
     ef_id ` set (effects s) \<subseteq> ef_id ` set (effects s') \<and>
     (\<forall>e' \<in> set (effects s').
        (\<exists>e \<in> set (effects s). ef_id e = ef_id e' \<and> effect_key e = effect_key e' \<and> P e e') \<or>
        next_effect_id s \<le> ef_id e' \<and> ef_status e' = E_pending \<and> telegram_identity e' = None)"

lemma effect_key_eq [simp]:
  "effect_key e = effect_key e' \<longleftrightarrow> ef_application_id e = ef_application_id e' \<and> ef_kind e = ef_kind e'"
  by (simp add: effect_key_def)

lemma moves_map:
  assumes "effects s' = map f (effects s)" "next_effect_id s' = next_effect_id s"
    "reconciliations s' = reconciliations s"
    and "\<And>e. e \<in> set (effects s) \<Longrightarrow> ef_id (f e) = ef_id e \<and> effect_key (f e) = effect_key e \<and> P e (f e)"
  shows "effect_moves P s s'"
proof -
  have "ef_id ` set (effects s) = ef_id ` set (effects s')"
    using assms(4) by (auto simp: assms(1) image_image)
  moreover have "\<exists>e \<in> set (effects s). ef_id e = ef_id e' \<and> effect_key e = effect_key e' \<and> P e e'"
    if e': "e' \<in> set (effects s')" for e'
  proof -
    from e' obtain e where e: "e \<in> set (effects s)" "e' = f e" by (auto simp: assms(1))
    from assms(4) [OF e(1)] e show ?thesis by (intro bexI [of _ e]) (simp_all del: effect_key_eq)
  qed
  ultimately show ?thesis by (simp add: effect_moves_def assms(2,3) del: effect_key_eq)
qed

lemma moves_same:
  assumes "effects s' = effects s" "next_effect_id s' = next_effect_id s" "reconciliations s' = reconciliations s"
    and "\<And>e. P e e"
  shows "effect_moves P s s'"
  using assms(4) by (auto simp: effect_moves_def assms(1-3))

lemma moves_cong:
  assumes "effect_moves P s s'" "effects s'' = effects s'" "next_effect_id s'' = next_effect_id s'"
    "reconciliations s'' = reconciliations s'"
  shows "effect_moves P s s''"
  using assms(1) by (simp add: effect_moves_def assms(2-4))

lemma moves_append: "effect_moves P s s' \<Longrightarrow> effect_moves P s (effect_append aid kind s')"
  by (auto simp: effect_moves_def effect_append_def new_effect_def telegram_identity_def)

lemma moves_enqueue: "effect_moves P s s' \<Longrightarrow> effect_moves P s (enqueue_once aid kind s')"
  by (simp add: enqueue_once_def moves_append)

lemma moves_mono: "effect_moves P s s' \<Longrightarrow> (\<And>e e'. P e e' \<Longrightarrow> Q e e') \<Longrightarrow> effect_moves Q s s'"
  unfolding effect_moves_def by blast

text \<open>
  A telegram row is left alone, or one attempt that is being processed gets its result; the message
  identity of that row may become one of \<open>ids\<close>, every other row keeps its own.
\<close>

definition result_move ::
  "int \<Rightarrow> effect_status set \<Rightarrow> (int \<times> int) set \<Rightarrow> intro_effect \<Rightarrow> intro_effect \<Rightarrow> bool" where
  "result_move eid sts ids e e' \<longleftrightarrow>
     (ef_kind e = Sheet_projection \<or> e' = e \<or> ef_id e = eid \<and> ef_status e = E_processing \<and> ef_status e' \<in> sts) \<and>
     (telegram_identity e' = telegram_identity e \<or> ef_id e = eid \<and> (\<exists>x \<in> ids. telegram_identity e' = Some x))"

definition sweep_move :: "intro_effect \<Rightarrow> intro_effect \<Rightarrow> bool" where
  "sweep_move e e' \<longleftrightarrow>
     (ef_kind e = Sheet_projection \<or> e' = e \<or> ef_status e = E_processing \<and> ef_status e' = E_unknown) \<and>
     telegram_identity e' = telegram_identity e"

lemma result_move_refl [simp]: "result_move eid sts ids e e"
  by (simp add: result_move_def)

lemma sweep_move_refl [simp]: "sweep_move e e"
  by (simp add: sweep_move_def)

lemma moves_claimed:
  assumes "pub_inv cs s" and e: "get_claimed_for_update s eid att = Some e"
    and f: "\<And>e. ef_id (f e) = ef_id e \<and> effect_key (f e) = effect_key e \<and> ef_status (f e) \<in> sts"
      "\<And>e. telegram_identity (f e) = telegram_identity e \<or> (\<exists>x \<in> ids. telegram_identity (f e) = Some x)"
  shows "effect_moves (result_move eid sts ids) s (effect_update (ef_id e) f s)"
proof (rule moves_map)
  show "effects (effect_update (ef_id e) f s) = map (\<lambda>d. if ef_id d = ef_id e then f d else d) (effects s)"
    by (simp add: effect_update_def update_where_def)
  fix d assume d: "d \<in> set (effects s)"
  have "result_move eid sts ids d (f d)" if "ef_id d = ef_id e"
    using pub_effect_of(3) [OF assms(1) claimed_row(1) [OF e] d that] claimed_row [OF e] f(1) f(2) [of d]
    by (simp add: result_move_def)
  then show "ef_id (if ef_id d = ef_id e then f d else d) = ef_id d \<and>
      effect_key (if ef_id d = ef_id e then f d else d) = effect_key d \<and>
      result_move eid sts ids d (if ef_id d = ef_id e then f d else d)" using f(1) [of d] by simp
qed (simp_all add: effect_update_def)

lemma moves_mark_result:
  assumes "pub_inv cs s"
  shows "effect_moves (result_move (cl_effect_id c) {st} {}) s (snd (mark_result c st err now s))"
  by (auto simp: mark_result_def telegram_identity_def intro!: moves_same moves_claimed [OF assms] split: option.split)

lemma effects_app_update [simp]:
  "effects (fail_confirmed aid s) = effects s" "next_effect_id (fail_confirmed aid s) = next_effect_id s"
  "reconciliations (fail_confirmed aid s) = reconciliations s"
  "effects (publish_card aid msg now s) = effects s"
  "next_effect_id (publish_card aid msg now s) = next_effect_id s"
  "reconciliations (publish_card aid msg now s) = reconciliations s"
  "effects (accept_application aid s) = effects s"
  "next_effect_id (accept_application aid s) = next_effect_id s"
  "reconciliations (accept_application aid s) = reconciliations s"
  "effects (intro_add uid aid txt vname now s) = effects s"
  "next_effect_id (intro_add uid aid txt vname now s) = next_effect_id s"
  "reconciliations (intro_add uid aid txt vname now s) = reconciliations s"
  "effects (snd (promote_if_current uid base aid txt now s)) = effects s"
  "next_effect_id (snd (promote_if_current uid base aid txt now s)) = next_effect_id s"
  "reconciliations (snd (promote_if_current uid base aid txt now s)) = reconciliations s"
  "effects (complete_trackings uid s) = effects s"
  "next_effect_id (complete_trackings uid s) = next_effect_id s"
  "reconciliations (complete_trackings uid s) = reconciliations s"
  by (simp_all add: fail_confirmed_def publish_card_def accept_application_def app_update_def intro_add_def
      promote_if_current_def complete_trackings_def)

lemma moves_other:
  "effect_moves P s s' \<Longrightarrow> effect_moves P s (fail_confirmed aid s')"
  "effect_moves P s s' \<Longrightarrow> effect_moves P s (publish_card aid msg now s')"
  "effect_moves P s s' \<Longrightarrow> effect_moves P s (accept_application aid s')"
  "effect_moves P s s' \<Longrightarrow> effect_moves P s (intro_add uid aid txt vname now s')"
  "effect_moves P s s' \<Longrightarrow> effect_moves P s (snd (promote_if_current uid base aid txt now s'))"
  "effect_moves P s s' \<Longrightarrow> effect_moves P s (complete_trackings uid s')"
  by (erule moves_cong; simp)+

lemma moves_mark_delivery_failed:
  assumes "pub_inv cs s"
  shows "effect_moves (result_move (cl_effect_id c) {st} {}) s (snd (mark_delivery_failed c st err now s))"
proof -
  obtain found s1 where m: "mark_result c st err now s = (found, s1)" by fastforce
  with moves_mark_result [OF assms, of c st err now] have "effect_moves (result_move (cl_effect_id c) {st} {}) s s1"
    by simp
  with m show ?thesis by (simp add: mark_delivery_failed_def moves_other)
qed

lemma moves_publish_first:
  "effect_moves P s s' \<Longrightarrow> effect_moves P s (publish_first_intro a c now s')"
  by (simp add: publish_first_intro_def moves_enqueue moves_other)

lemma moves_finalize:
  assumes inv: "pub_inv cs s"
  shows "effect_moves (result_move (cl_effect_id c) {E_sent, E_stale} {(chat, msg)}) s
    (snd (telegram_success_rows c chat msg now s))"
proof (cases "get_claimed_for_update s (cl_effect_id c) (cl_attempt c)")
  case None
  then show ?thesis by (simp add: telegram_success_rows_def moves_same)
next
  case (Some e)
  let ?M = "effect_moves (result_move (cl_effect_id c) {E_sent, E_stale} {(chat, msg)}) s"
  have fin: "?M (finish_effect (ef_id e) E_stale chat msg now s)"
    "?M (finish_clean (ef_id e) E_stale chat msg now s)" "?M (finish_clean (ef_id e) E_sent chat msg now s)"
    unfolding finish_effect_def finish_clean_def by (rule moves_claimed [OF inv Some]; simp add: telegram_identity_def)+
  show ?thesis
  proof (cases "app_get s (cl_application_id c)")
    case None
    with Some fin show ?thesis by (simp add: telegram_success_rows_def)
  next
    case a: (Some a)
    obtain p s1 where p: "promote_if_current (app_user_id a) (base_application_id a) (app_id a)
        (cl_html c) now (finish_clean (ef_id e) E_sent chat msg now s) = (p, s1)" by fastforce
    then have "?M s1" using moves_other(5) [OF fin(3)] by (metis snd_conv)
    with Some a fin p show ?thesis
      by (simp add: telegram_success_rows_def Let_def moves_other moves_enqueue moves_publish_first
          split: effect_kind.split option.split)
  qed
qed

text \<open>The message identities a result may write: the one of the message sent, unless another row has it.\<close>

definition outcome_identities :: "db \<Rightarrow> int \<Rightarrow> int \<Rightarrow> send_outcome \<Rightarrow> (int \<times> int) set" where
  "outcome_identities s community eid outcome =
     (case outcome of Send_ok msg \<Rightarrow> if identity_taken s eid community msg then {} else {(community, msg)} | _ \<Rightarrow> {})"

definition outcome_statuses :: "send_outcome \<Rightarrow> effect_status set" where
  "outcome_statuses outcome =
     (case outcome of
        Send_ok _ \<Rightarrow> {E_sent, E_stale}
      | Send_refused _ \<Rightarrow> {E_failed}
      | Send_retry_after _ \<Rightarrow> {E_failed, E_pending}
      | _ \<Rightarrow> {E_unknown})"

lemma result_move_mono:
  "result_move eid sts ids e e' \<Longrightarrow> sts \<subseteq> sts' \<Longrightarrow> ids \<subseteq> ids' \<Longrightarrow> result_move eid sts' ids' e e'"
  unfolding result_move_def by blast

lemma moves_finish_send:
  assumes inv: "pub_inv cs s"
  shows "effect_moves (result_move (cl_effect_id c) (outcome_statuses outcome)
      (outcome_identities s community (cl_effect_id c) outcome)) s
    (finish_send community n c outcome now s)"
proof -
  have w: "effect_moves (result_move (cl_effect_id c) {st} {}) s s' \<Longrightarrow> st \<in> sts \<Longrightarrow>
      effect_moves (result_move (cl_effect_id c) sts {}) s s'" for st sts s'
    by (erule moves_mono) (erule result_move_mono, auto)
  show ?thesis
  proof (cases outcome)
    case (Send_ok msg)
    show ?thesis
    proof (cases "identity_taken s (cl_effect_id c) community msg")
      case False
      then show ?thesis using Send_ok moves_finalize [OF inv, of c community msg now]
        by (simp add: finish_send_def finalize_telegram_success_def outcome_statuses_def outcome_identities_def case_prod_unfold)
    next
      case True
      then have "finish_send community n c outcome now s = s"
        using Send_ok by (simp add: finish_send_def finalize_telegram_success_def telegram_success_rows_def case_prod_unfold)
      then show ?thesis by (simp add: moves_same)
    qed
  next
    case (Send_refused err)
    then show ?thesis
      by (simp add: finish_send_def outcome_statuses_def outcome_identities_def moves_mark_delivery_failed [OF inv])
  next
    case (Send_retry_after err)
    have "effect_moves (result_move (cl_effect_id c) {E_failed, E_pending} {}) s
        (snd (mark_delivery_failed c E_failed (Some err) now s))"
      by (rule w [OF moves_mark_delivery_failed [OF inv]]) simp
    moreover have "effect_moves (result_move (cl_effect_id c) {E_failed, E_pending} {}) s
        (snd (mark_result c E_pending (Some err) now s))"
      by (rule w [OF moves_mark_result [OF inv]]) simp
    ultimately show ?thesis by (simp add: Send_retry_after finish_send_def outcome_statuses_def outcome_identities_def)
  qed (simp_all add: finish_send_def outcome_statuses_def outcome_identities_def moves_mark_result [OF inv] moves_same)
qed

lemma moves_ensure_projection:
  assumes m: "effect_moves P s s'"
    and sh: "\<And>e d e'. P e d \<Longrightarrow> ef_kind e = Sheet_projection \<Longrightarrow> telegram_identity e' = telegram_identity d \<Longrightarrow> P e e'"
    and d: "distinct (map ef_id (effects s'))"
  shows "effect_moves P s (ensure_projection_pending aid s')"
proof (cases "fetch effect_key (aid, Sheet_projection) (effects s')")
  case None
  with m show ?thesis by (simp add: ensure_projection_pending_def moves_append)
next
  case (Some e)
  let ?f = "\<lambda>e. e\<lparr>ef_status := E_pending, attempt_count := 0, attempt_started_at := None,
    ef_last_error := None, completed_at := None\<rparr>"
  from Some have e: "e \<in> set (effects s')" "ef_kind e = Sheet_projection"
    using fetch_Some by (force simp: effect_key_def)+
  have id: "telegram_identity (?f y) = telegram_identity y" for y by (simp add: telegram_identity_def)
  have "effect_moves P s (effect_update (ef_id e) ?f s')"
    unfolding effect_moves_def
  proof (intro conjI ballI)
    have "map ef_id (effects (effect_update (ef_id e) ?f s')) = map ef_id (effects s')"
      by (simp add: effect_update_def map_update_where)
    then have "ef_id ` set (effects (effect_update (ef_id e) ?f s')) = ef_id ` set (effects s')"
      by (metis set_map)
    then show "ef_id ` set (effects s) \<subseteq> ef_id ` set (effects (effect_update (ef_id e) ?f s'))"
      using m by (simp add: effect_moves_def)
    fix x assume "x \<in> set (effects (effect_update (ef_id e) ?f s'))"
    then obtain y where y: "y \<in> set (effects s')" "x = (if ef_id y = ef_id e then ?f y else y)"
      by (auto simp: effect_update_def set_update_where)
    show "(\<exists>z \<in> set (effects s). ef_id z = ef_id x \<and> effect_key z = effect_key x \<and> P z x) \<or>
        next_effect_id s \<le> ef_id x \<and> ef_status x = E_pending \<and> telegram_identity x = None"
    proof (cases "ef_id y = ef_id e")
      case False
      with m y show ?thesis by (simp add: effect_moves_def)
    next
      case True
      then have x: "y = e" "x = ?f e" using eff.unique [OF d y(1) e(1)] y(2) by simp_all
      have "(\<exists>z \<in> set (effects s). ef_id z = ef_id e \<and> effect_key z = effect_key e \<and> P z e) \<or>
          next_effect_id s \<le> ef_id e \<and> ef_status e = E_pending \<and> telegram_identity e = None"
        using m e(1) by (simp add: effect_moves_def)
      then show ?thesis
      proof
        assume "\<exists>z \<in> set (effects s). ef_id z = ef_id e \<and> effect_key z = effect_key e \<and> P z e"
        then obtain z where z: "z \<in> set (effects s)" "ef_id z = ef_id e" "effect_key z = effect_key e" "P z e" by blast
        have "P z (?f e)" by (rule sh [OF z(4)]) (use z(3) e(2) id in simp_all)
        with z x show ?thesis by (intro disjI1 bexI [of _ z]) simp_all
      qed (simp add: x(2) id)
    qed
  qed (use m in \<open>simp_all add: effect_moves_def effect_update_def\<close>)
  with Some m show ?thesis by (simp add: ensure_projection_pending_def)
qed

end
