(* ===== verification/IntroDelivery.thy ===== *)
theory IntroDelivery
  imports IntroSystem
begin

section \<open>Delivery of the outbox\<close>

text \<open>
  What happens to the rows of the outbox over time, whatever the workers, the crashes and the
  operator do: a Telegram row only moves along the intended edges, and its message reaches the chat at
  most once more than an operator ordered a retry.
\<close>

subsection \<open>Every transaction moves rows along the intended edges\<close>

definition same_outbox :: "db \<Rightarrow> db \<Rightarrow> bool" where
  "same_outbox s s' \<longleftrightarrow> effects s' = effects s \<and> next_effect_id s' = next_effect_id s \<and>
     reconciliations s' = reconciliations s"

lemma same_outbox_refl [simp]: "same_outbox s s"
  by (simp add: same_outbox_def)

lemma same_outbox_trans: "same_outbox s s' \<Longrightarrow> same_outbox s' s'' \<Longrightarrow> same_outbox s s''"
  by (simp add: same_outbox_def)

lemma moves_same_outbox: "same_outbox s s' \<Longrightarrow> (\<And>e. P e e) \<Longrightarrow> effect_moves P s s'"
  by (rule moves_same) (simp_all add: same_outbox_def)

lemma outbox_user_ops [simp]:
  "same_outbox s (user_upsert uid uname first lst isbot s)" "same_outbox s (set_member uid m j l s)"
  "same_outbox s (snd (app_update_status_if aid from to x s))"
  "same_outbox s (vouch_create v w aid s)"
  "same_outbox s (s\<lparr>applications := apps\<rparr>)"
  by (auto simp: same_outbox_def user_upsert_def set_member_def app_update_status_if_def vouch_create_def
      split: option.split)

lemma outbox_create: "app_create uid kind base cat now s = Inr (a, s') \<Longrightarrow> same_outbox s s'"
  by (drule app_create_ok) (auto simp: same_outbox_def)

lemma outbox_only_answers: "only_answers s s' \<Longrightarrow> same_outbox s s'"
  by (auto simp: only_answers_def same_outbox_def)

lemma outbox_start_refresh:
  "start_or_resume_refresh uid editable now s = Inr (a, s') \<Longrightarrow> same_outbox s s'"
  by (elim start_refresh_cases)
    (auto dest!: outbox_create outbox_only_answers intro: same_outbox_trans)

lemma outbox_cancel: "cancel_refresh uid aid s = Inr s' \<Longrightarrow> same_outbox s s'"
  by (elim cancel_ok) (simp add: same_outbox_def)

lemma outbox_vouch:
  assumes "handle_vouch community from_user aid msg now (\<lambda>s. s) s = Inr (calls, s')"
  shows "same_outbox s s'"
  using assms
proof (cases rule: handle_vouch_cases)
  case (vouched voucher a v)
  then show ?thesis using invite_create_ok [OF vouched(8)] by (simp add: same_outbox_def vouch_create_def)
qed simp

lemma outbox_invite_row: "same_outbox s (snd (process_invite_row outcome now row s))"
  by (auto simp: process_invite_row_def Let_def invite_update_def same_outbox_def app_update_status_if_def
      split: invite_outcome.split)

lemma outbox_reject_overdue: "same_outbox s (snd (reject_overdue community now as s))"
proof (induction as arbitrary: s)
  case (Cons a as)
  let ?cas = "app_update_status_if (app_id a) Pending Rejected (\<lambda>b. b\<lparr>rejected_at := Some now\<rparr>) s"
  have "same_outbox s (snd (reject_overdue community now as (snd ?cas)))"
    using outbox_user_ops(3) Cons.IH by (rule same_outbox_trans)
  then show ?case
    by (cases ?cas; cases "reject_overdue community now as (snd ?cas)") (auto simp: Let_def)
qed simp

lemma outbox_nudge_pending: "same_outbox s (snd (nudge_pending ads now as s))"
proof (induction as arbitrary: s)
  case (Cons a as)
  obtain c1 ok s1 where s1: "nudge_newcomer now a s = (c1, ok, s1)" by (metis prod_cases3)
  obtain c2 s2 where s2: "(if ok then notify_admins ads now a s1 else ([], s1)) = (c2, s2)" by fastforce
  have "same_outbox s s1" using s1 by (auto simp: nudge_newcomer_def prod_eq_iff split: if_splits)
  moreover have "same_outbox s1 s2" using s2 by (auto simp: notify_admins_def prod_eq_iff split: if_splits)
  ultimately have "same_outbox s (snd (nudge_pending ads now as s2))"
    using Cons.IH same_outbox_trans by blast
  then show ?case using s1 s2 Cons.IH by (auto simp: Let_def split: prod.split)
qed simp

lemma outbox_deadlines: "same_outbox s (snd (check_vouch_deadlines ads community vh nh now (\<lambda>s. s) (\<lambda>s. s) s))"
proof -
  obtain c1 s1 where s1: "reject_overdue community now (get_pending_older_than s now vh) s = (c1, s1)" by fastforce
  obtain c2 s2 where s2: "nudge_pending ads now (get_pending_created_older_than s1 now nh) s1 = (c2, s2)" by fastforce
  have "same_outbox s s1" "same_outbox s1 s2"
    using outbox_reject_overdue outbox_nudge_pending s1 s2 by (metis snd_conv)+
  then show ?thesis using s1 s2 by (auto simp: check_vouch_deadlines_def Let_def intro: same_outbox_trans)
qed

lemma moves_confirm:
  assumes "confirm_application sha uid aid digest s = Inr (a', s')" "\<And>e. P e e"
  shows "effect_moves P s s'"
  using assms(1)
proof (cases rule: confirm_ok)
  case again
  then show ?thesis using assms(2) by (simp add: moves_same)
next
  case (first a h kind)
  show ?thesis unfolding first(10)
    by (intro moves_append moves_same) (simp_all add: app_update_def assms(2))
qed

lemma moves_admit: "effect_moves P s s' \<Longrightarrow> effect_moves P s (admit_member uid aid now enq s')"
proof -
  assume m: "effect_moves P s s'"
  have "effect_moves P s (set_member uid True (Some now) None s')"
    by (rule moves_cong [OF m]) (simp_all add: set_member_def)
  then show ?thesis by (simp add: admit_member_def Let_def moves_enqueue)
qed

lemma moves_chat_member:
  assumes "\<And>e. P e e"
  shows "effect_moves P s (snd (handle_chat_member ads community ev now (\<lambda>s. s) s))"
proof -
  have same: "effect_moves P s s'" if "same_outbox s s'" for s' using that assms by (rule moves_same_outbox)
  have rej: "effect_moves P s (snd (reject_join chat u now s'))" if "same_outbox s s'" for chat u s'
    using same_outbox_trans [OF that outbox_user_ops(2)] same by (simp add: reject_join_def Let_def)
  have join: "effect_moves P s (snd (handle_join ads chat u now (\<lambda>s. s) s))" for chat u
  proof -
    have s1: "same_outbox s (join_upsert u s)" by (simp add: join_upsert_def)
    obtain added s2 where cas: "app_update_status_if (app_id (the (app_get_active (join_upsert u s) (tg_id u)
        (case user_get s (tg_id u) of None \<Rightarrow> False | Some r \<Rightarrow> is_member r)))) Vouched Added
        (\<lambda>b. b\<lparr>added_at := Some now\<rparr>) (join_upsert u s) = (added, s2)" by fastforce
    have s2: "same_outbox s s2"
      using same_outbox_trans [OF s1 outbox_user_ops(3)] cas by (metis snd_conv)
    have mem: "same_outbox s (set_member uid m j l (join_upsert u s))" for uid m j l
      using same_outbox_trans [OF s1 outbox_user_ops(2)] .
    show ?thesis
      using cas rej [OF s1] rej [OF s2] moves_admit [OF same [OF s1]] moves_admit [OF same [OF s2]] same [OF mem]
      by (simp add: handle_join_def Let_def split: option.split)
  qed
  have "effect_moves P s (set_member uid m j l s)" for uid m j l by (rule same) simp
  then show ?thesis using join same [OF same_outbox_refl]
    by (simp add: handle_chat_member_def handle_leave_def)
qed

lemma moves_sweep: "effect_moves sweep_move s (snd (mark_stale_processing_unknown t s))"
  by (rule moves_map [OF sweep_effects])
    (auto simp: mark_stale_processing_unknown_def Let_def sweep_move_def claim_expired_def)

text \<open>Every transaction but a reconciliation moves rows as the sweep does.\<close>

lemma moves_db_step:
  assumes "db_step admins community sha s s'"
  shows "effect_moves sweep_move s s' \<or>
    (\<exists>eid action chat msg evidence operator reason now.
       reconcile_intro_effect admins community eid action chat msg evidence operator reason now s = Inr s')"
proof -
  have same: "same_outbox s s' \<Longrightarrow> ?thesis" by (simp add: moves_same_outbox)
  from assms show ?thesis
  proof cases
    case upsert show ?thesis by (rule same) (simp add: upsert)
  next
    case apply_new show ?thesis by (rule same [OF outbox_create [OF apply_new]])
  next
    case refresh show ?thesis by (rule same [OF outbox_start_refresh [OF refresh]])
  next
    case answer show ?thesis by (rule same [OF outbox_only_answers [OF only_answers_ops(1) [OF answer]]])
  next
    case keep show ?thesis by (rule same [OF outbox_only_answers [OF only_answers_ops(2) [OF keep]]])
  next
    case reset show ?thesis by (rule same [OF outbox_only_answers [OF only_answers_ops(3) [OF reset]]])
  next
    case restart show ?thesis by (rule same [OF outbox_only_answers [OF only_answers_ops(4) [OF restart]]])
  next
    case cancel show ?thesis by (rule same [OF outbox_cancel [OF cancel]])
  next
    case confirm show ?thesis by (rule disjI1, rule moves_confirm [OF confirm]) simp
  next
    case vouch show ?thesis by (rule same [OF outbox_vouch [OF vouch]])
  next
    case ready
    have "same_outbox s s'"
      using ready by (auto simp: handle_ready_def Let_def bindE_Inr_iff prod_eq_iff same_outbox_def
          app_update_status_if_def dest!: invite_create_ok split: option.splits if_splits)
    then show ?thesis by (rule same)
  next
    case invite show ?thesis by (rule same) (simp add: invite(1) outbox_invite_row)
  next
    case member show ?thesis unfolding member by (rule disjI1, rule moves_chat_member) simp
  next
    case deadlines show ?thesis by (rule same) (simp add: deadlines outbox_deadlines)
  next
    case sweep show ?thesis unfolding sweep by (rule disjI1, rule moves_sweep)
  next
    case reconcile then show ?thesis by blast
  qed
qed

subsection \<open>Sheet claims\<close>

definition sheet_move :: "intro_effect \<Rightarrow> intro_effect \<Rightarrow> bool" where
  "sheet_move e e' \<longleftrightarrow>
     (ef_kind e = Sheet_projection \<or> e' = e) \<and> telegram_identity e' = telegram_identity e"

lemma sheet_move_refl [simp]: "sheet_move e e"
  by (simp add: sheet_move_def)

lemma moves_sheet_row:
  assumes inv: "pub_inv cs s" and c: "c \<in> set cs" "cl_kind c = Sheet_projection"
    and f: "\<And>e. ef_id (f e) = ef_id e \<and> effect_key (f e) = effect_key e \<and> telegram_identity (f e) = telegram_identity e"
  shows "effect_moves sheet_move s (effect_update (cl_effect_id c) f s)"
proof (rule moves_map)
  show "effects (effect_update (cl_effect_id c) f s) =
      map (\<lambda>d. if ef_id d = cl_effect_id c then f d else d) (effects s)"
    by (simp add: effect_update_def update_where_def)
  fix d assume d: "d \<in> set (effects s)"
  obtain e where e: "e \<in> set (effects s)" "ef_id e = cl_effect_id c" "ef_kind e = Sheet_projection"
    using inv c by (auto simp: pub_inv_def claim_row_of_def)
  have "ef_id d = cl_effect_id c \<Longrightarrow> ef_kind d = Sheet_projection"
    using pub_effect_of(3) [OF inv e(1) d] e(2,3) by metis
  with f [of d] show "ef_id (if ef_id d = cl_effect_id c then f d else d) = ef_id d \<and>
      effect_key (if ef_id d = cl_effect_id c then f d else d) = effect_key d \<and>
      sheet_move d (if ef_id d = cl_effect_id c then f d else d)" by (simp add: sheet_move_def)
qed (simp_all add: effect_update_def)

lemma claimed_id: "get_claimed_for_update s eid att = Some e \<Longrightarrow> ef_id e = eid"
  by (auto dest: claimed_row)

lemma moves_sheet_result:
  assumes "pub_inv cs s" "c \<in> set cs" "cl_kind c = Sheet_projection"
  shows "effect_moves sheet_move s (snd (mark_result c st err now s))"
  using moves_sheet_row [OF assms]
  by (auto simp: mark_result_def claimed_id moves_same split: option.split)

lemma moves_sheet_success:
  assumes inv: "pub_inv cs s" and c: "c \<in> set cs" "cl_kind c = Sheet_projection"
  shows "effect_moves sheet_move s (snd (finalize_sheet_success c now s))"
proof (cases "get_claimed_for_update s (cl_effect_id c) (cl_attempt c)")
  case None
  then show ?thesis by (simp add: finalize_sheet_success_def moves_same)
next
  case (Some e)
  have row: "effect_moves sheet_move s (complete_effect (ef_id e) st now s)" for st
    unfolding complete_effect_def claimed_id [OF Some] by (rule moves_sheet_row [OF inv c]) simp
  have "distinct (map ef_id (effects (complete_effect (ef_id e) st now s)))" for st
  proof -
    have "distinct (map ef_id (effects s))" using inv by (simp add: pub_inv_def ids_below_def)
    then show ?thesis by (simp add: complete_effect_def effect_update_def map_update_where)
  qed
  then have "effect_moves sheet_move s (ensure_projection_pending b (complete_effect (ef_id e) E_stale now s))" for b
    by (intro moves_ensure_projection [OF row]) (auto simp: sheet_move_def)
  with Some row show ?thesis by (simp add: finalize_sheet_success_def Let_def split: option.split)
qed

lemma moves_finish_sheet:
  assumes "pub_inv cs s" "c \<in> set cs" "cl_kind c = Sheet_projection"
  shows "effect_moves sheet_move s (finish_sheet n c out now s)"
  using moves_sheet_result [OF assms] moves_sheet_success [OF assms]
  by (cases out) (simp_all add: finish_sheet_def moves_same)

lemma moves_claim:
  assumes inv: "pub_inv cs s" and run: "claim_one w excluded sheet now s = Inr (Some c, s')"
  obtains e where "e \<in> set (effects s)" "ef_id e = cl_effect_id c" "ef_status e = E_pending"
    "s' = effect_update (ef_id e) (claim_row now) s"
proof -
  from claim_one_cases [OF run] obtain es where cp: "claim_pending 1 sheet w excluded now s = (es, s')"
    and es: "case es of [] \<Rightarrow> Some c = None | e # _ \<Rightarrow> (\<exists>cl. Some c = Some cl \<and>
       (snapshot_claim s' e = Inr cl \<or> (\<exists>err. cl = broken_claim e err)))" .
  show thesis
    using inv cp
  proof (cases rule: claim_pending_one)
    case empty
    with es show ?thesis by simp
  next
    case (one e)
    with es have "snapshot_claim s' (claim_row now e) = Inr c \<or> (\<exists>err. c = broken_claim (claim_row now e) err)"
      by simp
    then have "cl_effect_id c = ef_id e"
      by (auto simp: broken_claim_def snapshot_claim_def bindE_Inr_iff Let_def)
    with one that show ?thesis by simp
  qed
qed

lemma moves_row:
  "effect_moves P s s' \<Longrightarrow> e' \<in> set (effects s') \<Longrightarrow>
    (\<exists>e \<in> set (effects s). ef_id e = ef_id e' \<and> effect_key e = effect_key e' \<and> P e e') \<or>
    next_effect_id s \<le> ef_id e' \<and> ef_status e' = E_pending \<and> telegram_identity e' = None"
  unfolding effect_moves_def by (elim conjE) (erule bspec)

text \<open>
  The moves of a reconciliation: the row it names leaves the status unknown, and it may get a message that
  no other row has.
\<close>

definition reconcile_move :: "int \<Rightarrow> (int \<times> int) set \<Rightarrow> intro_effect \<Rightarrow> intro_effect \<Rightarrow> bool" where
  "reconcile_move eid ids e e' \<longleftrightarrow>
     (ef_kind e = Sheet_projection \<or> e' = e \<or> ef_id e = eid \<and> ef_status e = E_unknown) \<and>
     (telegram_identity e' = telegram_identity e \<or> ef_id e = eid \<and> (\<exists>x \<in> ids. telegram_identity e' = Some x))"

definition free_identities :: "db \<Rightarrow> int \<Rightarrow> (int \<times> int) set" where
  "free_identities s eid = {(chat, msg). \<not> identity_taken s eid chat msg}"

lemma taken_columns:
  "identity_taken s eid chat msg =
     (\<exists>p \<in> set (map (\<lambda>e. (ef_id e, telegram_identity e)) (effects s)). fst p \<noteq> eid \<and> snd p = Some (chat, msg))"
  by (auto simp: identity_taken_def list_ex_iff)

lemma taken_update:
  assumes "\<And>e. ef_id (f e) = ef_id e \<and> telegram_identity (f e) = telegram_identity e"
  shows "identity_taken (effect_update i f s) eid chat msg = identity_taken s eid chat msg"
proof -
  have "map (\<lambda>e. (ef_id e, telegram_identity e)) (effects (effect_update i f s)) =
      map (\<lambda>e. (ef_id e, telegram_identity e)) (effects s)"
    using assms by (simp add: effect_update_def map_update_where)
  then show ?thesis unfolding taken_columns by (simp only:)
qed

lemma reconcile_moves:
  assumes inv: "pub_inv cs s"
    and run: "reconcile_intro_effect admins community eid action chat msg evidence operator reason now s = Inr s'"
  obtains s2 rc where "effect_moves (reconcile_move eid (free_identities s eid)) s s2"
    "s' = s2\<lparr>reconciliations := reconciliations s @ [rc]\<rparr>" "rc_effect_id rc = eid"
  using run
proof (rule reconcile_ok)
  fix x :: intro_effect and s2
  let ?rc = "\<lparr>rc_effect_id = eid, rc_attempt_count = attempt_count x, rc_action = action,
          rc_reason = py_strip reason, rc_evidence = evidence, rc_chat_id = chat,
          rc_message_id = msg, rc_operator = operator\<rparr>"
  let ?s1 = "effect_update eid (\<lambda>e. e\<lparr>ef_status := E_processing\<rparr>) s"
  let ?R = "reconcile_move eid (free_identities s eid)"
  assume f: "fetch ef_id eid (effects s) = Some x" and st: "ef_status x = E_unknown" "attempt_count x > 0"
      "ef_kind x \<noteq> Sheet_projection"
    and w: "(action = Retry_absent \<and>
        s2 = effect_update eid (\<lambda>e. e\<lparr>ef_status := E_pending, ef_last_error := None\<rparr>) s) \<or>
     (action = Record_sent \<and> (\<exists>c. snapshot_claim ?s1 (x\<lparr>ef_status := E_processing\<rparr>) = Inr c \<and>
        finalize_telegram_success c (the chat) (the msg) now ?s1 = Inr (True, s2)))"
    and s': "s' = s2\<lparr>reconciliations := reconciliations s2 @ [?rc]\<rparr>"
  have x: "x \<in> set (effects s)" "ef_id x = eid" using f fetch_Some by fastforce+
  have xe: "e = x" if "e \<in> set (effects s)" "ef_id e = eid" for e
    using pub_effect_of(3) [OF inv x(1) that(1)] that(2) x(2) by simp
  have "effect_moves ?R s s2"
    using w
  proof (elim disjE conjE exE)
    assume s2: "s2 = effect_update eid (\<lambda>e. e\<lparr>ef_status := E_pending, ef_last_error := None\<rparr>) s"
    show ?thesis unfolding s2
      by (rule moves_map [where f = "\<lambda>e. if ef_id e = eid then e\<lparr>ef_status := E_pending, ef_last_error := None\<rparr> else e"])
        (use xe st in \<open>auto simp: effect_update_def update_where_def reconcile_move_def\<close>)
  next
    fix c assume c: "snapshot_claim ?s1 (x\<lparr>ef_status := E_processing\<rparr>) = Inr c"
      and fin: "finalize_telegram_success c (the chat) (the msg) now ?s1 = Inr (True, s2)"
    have cid: "cl_effect_id c = eid" using c x(2) by (auto simp: snapshot_claim_def bindE_Inr_iff Let_def)
    have p1: "pub_inv cs ?s1"
    proof (rule pub_effect_update [OF inv])
      fix d assume d: "d \<in> set (effects s)" "ef_id d = eid" "ck_effect d"
      with xe st show "ck_effect (d\<lparr>ef_status := E_processing\<rparr>)" by (simp add: ck_effect_def)
    qed simp
    have m: "effect_moves (result_move eid {E_sent, E_stale} {(the chat, the msg)}) ?s1 s2"
      using moves_finalize [OF p1, of c "the chat" "the msg" now] finalized_rows [OF fin] by (simp add: cid)
    have "telegram_success_rows c (the chat) (the msg) now ?s1 = (True, s2)" by (rule finalized_rows [OF fin])
    then have "get_claimed_for_update ?s1 eid (cl_attempt c) \<noteq> None"
      by (auto simp: telegram_success_rows_def cid split: option.splits)
    with fin have free: "(the chat, the msg) \<in> free_identities s eid"
      by (simp add: finalize_telegram_success_def cid free_identities_def taken_update split: if_splits)
    show ?thesis
      unfolding effect_moves_def
    proof (intro conjI ballI)
      have "map ef_id (effects ?s1) = map ef_id (effects s)" by (simp add: effect_update_def map_update_where)
      then have "ef_id ` set (effects ?s1) = ef_id ` set (effects s)" by (metis set_map)
      with m show "ef_id ` set (effects s) \<subseteq> ef_id ` set (effects s2)" by (simp add: effect_moves_def)
      show "next_effect_id s \<le> next_effect_id s2" "reconciliations s2 = reconciliations s"
        using m by (simp_all add: effect_moves_def effect_update_def)
      fix e' assume "e' \<in> set (effects s2)"
      from moves_row [OF m this]
      show "(\<exists>e \<in> set (effects s). ef_id e = ef_id e' \<and> effect_key e = effect_key e' \<and> ?R e e') \<or>
          next_effect_id s \<le> ef_id e' \<and> ef_status e' = E_pending \<and> telegram_identity e' = None"
      proof
        assume "\<exists>d \<in> set (effects ?s1). ef_id d = ef_id e' \<and> effect_key d = effect_key e' \<and>
          result_move eid {E_sent, E_stale} {(the chat, the msg)} d e'"
        then obtain d where d: "d \<in> set (effects ?s1)" "ef_id d = ef_id e'" "effect_key d = effect_key e'"
          "result_move eid {E_sent, E_stale} {(the chat, the msg)} d e'" by blast
        from d(1) obtain b where b: "b \<in> set (effects s)" "d = (if ef_id b = eid then b\<lparr>ef_status := E_processing\<rparr> else b)"
          by (auto simp: effect_update_def set_update_where)
        have same: "ef_id b = ef_id d" "effect_key b = effect_key d" "telegram_identity b = telegram_identity d"
          using b(2) by simp_all
        have "?R b e'"
        proof (cases "ef_id b = eid")
          case True
          with xe [OF b(1)] st d(4) same free show ?thesis by (auto simp: reconcile_move_def result_move_def)
        next
          case False
          with b(2) d(4) show ?thesis by (auto simp: reconcile_move_def result_move_def)
        qed
        with b(1) same d(2,3) show ?thesis by (intro disjI1 bexI [of _ b]) simp_all
      qed (simp add: effect_update_def)
    qed
  qed
  moreover from this have "s' = s2\<lparr>reconciliations := reconciliations s @ [?rc]\<rparr>"
    unfolding s' by (simp add: effect_moves_def)
  ultimately show thesis by (rule that) simp
qed

subsection \<open>A message belongs to one row\<close>

definition own_messages :: "db \<Rightarrow> bool" where
  "own_messages s \<longleftrightarrow> (\<forall>d \<in> set (effects s). \<forall>e \<in> set (effects s).
     telegram_identity d \<noteq> None \<longrightarrow> telegram_identity d = telegram_identity e \<longrightarrow> ef_id d = ef_id e)"

lemma own_moves:
  assumes own: "own_messages s" and m: "effect_moves P s s'"
    and P: "\<And>e e'. P e e' \<Longrightarrow> telegram_identity e' = telegram_identity e \<or>
      ef_id e = eid \<and> (\<exists>x \<in> free_identities s eid. telegram_identity e' = Some x)"
  shows "own_messages s'"
proof -
  have row: "\<exists>e \<in> set (effects s). ef_id e = ef_id e' \<and> (telegram_identity e' = telegram_identity e \<or>
      ef_id e = eid \<and> (\<exists>x \<in> free_identities s eid. telegram_identity e' = Some x))"
    if "e' \<in> set (effects s')" "telegram_identity e' \<noteq> None" for e'
  proof -
    from moves_row [OF m that(1)] that(2) obtain e where "e \<in> set (effects s)" "ef_id e = ef_id e'" "P e e'" by auto
    with P [OF this(3)] show ?thesis by blast
  qed
  have free: "ef_id e = eid" if "e \<in> set (effects s)" "telegram_identity e = Some x" "x \<in> free_identities s eid" for e x
    using that by (cases x) (auto simp: free_identities_def identity_taken_def list_ex_iff)
  show ?thesis
    unfolding own_messages_def
  proof (intro ballI impI)
    fix d' e' assume d': "d' \<in> set (effects s')" and e': "e' \<in> set (effects s')"
      and some: "telegram_identity d' \<noteq> None" and eq: "telegram_identity d' = telegram_identity e'"
    from row [OF d' some] obtain d where d: "d \<in> set (effects s)" "ef_id d = ef_id d'"
      "telegram_identity d' = telegram_identity d \<or>
        ef_id d = eid \<and> (\<exists>x \<in> free_identities s eid. telegram_identity d' = Some x)" by blast
    from row [OF e'] some eq obtain e where e: "e \<in> set (effects s)" "ef_id e = ef_id e'"
      "telegram_identity e' = telegram_identity e \<or>
        ef_id e = eid \<and> (\<exists>x \<in> free_identities s eid. telegram_identity e' = Some x)" by auto
    have "ef_id d = ef_id e"
      using own d e some eq free [OF d(1)] free [OF e(1)] unfolding own_messages_def by metis
    with d(2) e(2) show "ef_id d' = ef_id e'" by simp
  qed
qed

lemma own_quiet:
  "own_messages s \<Longrightarrow> effect_moves P s s' \<Longrightarrow> (\<And>e e'. P e e' \<Longrightarrow> telegram_identity e' = telegram_identity e) \<Longrightarrow>
   own_messages s'"
  using own_moves [of s P s' 0] by blast

lemma own_world_step:
  assumes step: "world_step admins community sha w w'" and inv: "world_inv admins w"
    and own: "own_messages (wdb w)"
  shows "own_messages (wdb w')"
proof -
  have p: "pub_inv (map fst (inflight w)) (wdb w)" using inv by (simp add: world_inv_def)
  from step show ?thesis
  proof cases
    case (transaction s')
    from moves_db_step [OF transaction(2)] have "own_messages s'"
    proof
      assume "effect_moves sweep_move (wdb w) s'"
      then show ?thesis by (rule own_quiet [OF own]) (simp add: sweep_move_def)
    next
      assume "\<exists>eid action chat msg evidence operator reason now.
        reconcile_intro_effect admins community eid action chat msg evidence operator reason now (wdb w) = Inr s'"
      then obtain eid action chat msg evidence operator reason now where
        "reconcile_intro_effect admins community eid action chat msg evidence operator reason now (wdb w) = Inr s'" by blast
      with p obtain s2 rc where "effect_moves (reconcile_move eid (free_identities (wdb w) eid)) (wdb w) s2"
        "s' = s2\<lparr>reconciliations := reconciliations (wdb w) @ [rc]\<rparr>" by (rule reconcile_moves)
      moreover from this(1) have "own_messages s2"
        by (rule own_moves [OF own, of _ _ eid]) (simp add: reconcile_move_def)
      ultimately show ?thesis by (simp add: own_messages_def)
    qed
    then show ?thesis using transaction(1) by simp
  next
    case (claim wm ex hs now c s')
    from p claim(2) obtain d where "d \<in> set (effects (wdb w))" "ef_id d = cl_effect_id c"
      "ef_status d = E_pending" "s' = effect_update (ef_id d) (claim_row now) (wdb w)" by (rule moves_claim)
    then have "effect_moves (\<lambda>e e'. telegram_identity e' = telegram_identity e) (wdb w) s'"
      by (intro moves_map [where f = "\<lambda>e. if ef_id e = ef_id d then claim_row now e else e"])
        (simp_all add: effect_update_def update_where_def claim_row_def)
    from own_quiet [OF own this] show ?thesis using claim(1) by simp
  next
    case (broken xs c ys err now)
    have "own_messages (snd (mark_result c E_failed (Some (cp err)) now (wdb w)))"
      by (rule own_quiet [OF own moves_mark_result [OF p]]) (simp add: result_move_def)
    then show ?thesis using broken(1) by simp
  next
    case (stale xs c ys now)
    have "own_messages (snd (mark_delivery_failed c E_stale None now (wdb w)))"
      by (rule own_quiet [OF own moves_mark_delivery_failed [OF p]]) (simp add: result_move_def)
    then show ?thesis using stale(1) by simp
  next
    case (finish xs c outcome ys n now)
    have "own_messages (finish_send community n c outcome now (wdb w))"
      by (rule own_moves [OF own moves_finish_send [OF p], where eid = "cl_effect_id c"])
        (auto simp: result_move_def outcome_identities_def free_identities_def split: send_outcome.splits if_splits)
    then show ?thesis using finish(1) by simp
  next
    case (sheet xs c ys r now n)
    have c: "c \<in> set (map fst (inflight w))" by (simp add: sheet(2))
    have "effect_moves sheet_move (wdb w) (wdb w')"
      using sheet(1) moves_sheet_result [OF p c sheet(3)] moves_finish_sheet [OF p c sheet(3)] by (simp split: option.split)
    then show ?thesis by (rule own_quiet [OF own]) (simp add: sheet_move_def)
  qed (use own in simp_all)
qed

lemma reachable_own: "reachable admins community sha w \<Longrightarrow> own_messages (wdb w)"
proof (induction rule: reachable_induct)
  case init
  show ?case by (simp add: own_messages_def init_world_def empty_db_def)
next
  case (step w w')
  show ?case using own_world_step [OF step(2) reachable_inv [OF step(1)] step(3)] .
qed

subsection \<open>At most one delivery per order\<close>

definition retries :: "db \<Rightarrow> int \<Rightarrow> nat" where
  "retries s i = length (filter (\<lambda>r. rc_effect_id r = i \<and> rc_action r = Retry_absent) (reconciliations s))"

definition pend :: "intro_effect \<Rightarrow> nat" where
  "pend e = (if ef_status e = E_pending then 1 else 0)"

text \<open>The phases from which a worker may still send, or put the row back for another attempt.\<close>

definition live_phase :: "claim_phase \<Rightarrow> bool" where
  "live_phase ph = (case ph of
     Ph_claimed \<Rightarrow> True | Ph_valid \<Rightarrow> True | Ph_invalid \<Rightarrow> False
   | Ph_called outcome \<Rightarrow> (case outcome of Send_retry_after _ \<Rightarrow> True | _ \<Rightarrow> False))"

definition live :: "(claimed_effect \<times> claim_phase) list \<Rightarrow> int \<Rightarrow> nat" where
  "live fl i = length (filter (\<lambda>(c, ph). cl_effect_id c = i \<and> live_phase ph) fl)"

definition spent :: "world \<Rightarrow> int \<Rightarrow> nat" where
  "spent w i = count_list (reached_chat w) i + live (inflight w) i"

text \<open>Attempts spent, and the one a pending row stands for, are at most one more than the retries.\<close>

definition once :: "(int \<Rightarrow> nat) \<Rightarrow> db \<Rightarrow> bool" where
  "once F s \<longleftrightarrow>
     (\<forall>e \<in> set (effects s). ef_kind e \<noteq> Sheet_projection \<longrightarrow>
        F (ef_id e) + pend e \<le> 1 + retries s (ef_id e)) \<and>
     (\<forall>i. next_effect_id s \<le> i \<longrightarrow> F i = 0)"

lemma once_step:
  assumes o: "once F s" and m: "effect_moves P s s'"
    and P: "\<And>e e'. P e e' \<Longrightarrow> ef_id e' = ef_id e \<Longrightarrow> ef_kind e \<noteq> Sheet_projection \<Longrightarrow>
      G (ef_id e) + pend e' \<le> F (ef_id e) + pend e"
    and new: "\<And>i. next_effect_id s \<le> i \<Longrightarrow> G i = 0"
  shows "once G s'"
  unfolding once_def
proof (intro conjI ballI impI allI)
  have r: "retries s' = retries s" using m by (simp add: fun_eq_iff retries_def effect_moves_def)
  fix e' assume e': "e' \<in> set (effects s')" "ef_kind e' \<noteq> Sheet_projection"
  then consider (old) e where "e \<in> set (effects s)" "ef_id e = ef_id e'" "ef_kind e = ef_kind e'" "P e e'"
    | (fresh) "next_effect_id s \<le> ef_id e'"
    using moves_row [OF m e'(1)] by auto
  then show "G (ef_id e') + pend e' \<le> 1 + retries s' (ef_id e')"
  proof cases
    case old
    have "F (ef_id e) + pend e \<le> 1 + retries s (ef_id e)" using o old(1,3) e'(2) by (simp add: once_def)
    moreover have "G (ef_id e) + pend e' \<le> F (ef_id e) + pend e"
      using P [OF old(4)] old(2,3) e'(2) by simp
    ultimately show ?thesis using old(2) r by simp
  next
    case fresh
    then show ?thesis using new [OF fresh] by (simp add: pend_def)
  qed
next
  fix i assume "next_effect_id s' \<le> i"
  then show "G i = 0" using m new by (simp add: effect_moves_def)
qed

lemma once_mono:
  assumes "once F s" "\<And>i. G i \<le> F i" "effects s' = effects s" "next_effect_id s' = next_effect_id s"
    "\<And>i. retries s i \<le> retries s' i"
  shows "once G s'"
proof -
  have "G i + p \<le> 1 + retries s' i" if "F i + p \<le> 1 + retries s i" for i p
    using that assms(2) [of i] assms(5) [of i] by linarith
  moreover have "G i = 0" if "F i = 0" for i using that assms(2) [of i] by simp
  ultimately show ?thesis using assms(1) by (simp add: once_def assms(3,4))
qed

text \<open>Moves that make no row pending keep the balance.\<close>

lemma once_quiet:
  assumes "once F s" "effect_moves P s s'" "\<And>i. G i \<le> F i"
    and "\<And>e e'. P e e' \<Longrightarrow> ef_kind e \<noteq> Sheet_projection \<Longrightarrow> pend e' \<le> pend e"
  shows "once G s'"
proof (rule once_step [OF assms(1,2)])
  fix e e' assume "P e e'" "ef_kind e \<noteq> Sheet_projection"
  then show "G (ef_id e) + pend e' \<le> F (ef_id e) + pend e"
    using assms(3) [of "ef_id e"] assms(4) by (simp add: add_mono)
next
  fix i assume "next_effect_id s \<le> i"
  then have "F i = 0" using assms(1) by (simp add: once_def)
  with assms(3) [of i] show "G i = 0" by simp
qed

lemma pend_moves:
  "sweep_move e e' \<Longrightarrow> ef_kind e \<noteq> Sheet_projection \<Longrightarrow> pend e' \<le> pend e"
  "sheet_move e e' \<Longrightarrow> ef_kind e \<noteq> Sheet_projection \<Longrightarrow> pend e' \<le> pend e"
  "result_move eid sts ids e e' \<Longrightarrow> E_pending \<notin> sts \<Longrightarrow> ef_kind e \<noteq> Sheet_projection \<Longrightarrow> pend e' \<le> pend e"
  by (auto simp: sweep_move_def sheet_move_def result_move_def pend_def)

lemma once_reconcile:
  assumes o: "once F s" and inv: "pub_inv cs s"
    and run: "reconcile_intro_effect admins community eid action chat msg evidence operator reason now s = Inr s'"
  shows "once F s'"
  using run
proof (rule reconcile_ok)
  fix e :: intro_effect and s2
  let ?rc = "\<lparr>rc_effect_id = eid, rc_attempt_count = attempt_count e, rc_action = action,
          rc_reason = py_strip reason, rc_evidence = evidence, rc_chat_id = chat,
          rc_message_id = msg, rc_operator = operator\<rparr>"
  let ?s1 = "effect_update eid (\<lambda>e. e\<lparr>ef_status := E_processing\<rparr>) s"
  assume f: "fetch ef_id eid (effects s) = Some e" and st: "ef_status e = E_unknown" "attempt_count e > 0"
      "ef_kind e \<noteq> Sheet_projection"
    and w: "(action = Retry_absent \<and>
        s2 = effect_update eid (\<lambda>e. e\<lparr>ef_status := E_pending, ef_last_error := None\<rparr>) s) \<or>
     (action = Record_sent \<and> (\<exists>c. snapshot_claim ?s1 (e\<lparr>ef_status := E_processing\<rparr>) = Inr c \<and>
        finalize_telegram_success c (the chat) (the msg) now ?s1 = Inr (True, s2)))"
    and s': "s' = s2\<lparr>reconciliations := reconciliations s2 @ [?rc]\<rparr>"
  have e: "e \<in> set (effects s)" "ef_id e = eid" using f fetch_Some by fastforce+
  from w show ?thesis
  proof (elim disjE conjE exE)
    assume a: "action = Retry_absent"
      and s2: "s2 = effect_update eid (\<lambda>e. e\<lparr>ef_status := E_pending, ef_last_error := None\<rparr>) s"
    have r: "retries s' i = retries s i + (if i = eid then 1 else 0)" for i
      by (simp add: retries_def s' s2 effect_update_def a)
    have n: "next_effect_id s' = next_effect_id s" by (simp add: s' s2 effect_update_def)
    show ?thesis unfolding once_def n
    proof (intro conjI ballI impI)
      fix x assume x: "x \<in> set (effects s')" "ef_kind x \<noteq> Sheet_projection"
      then obtain y where y: "y \<in> set (effects s)"
        "x = (if ef_id y = eid then y\<lparr>ef_status := E_pending, ef_last_error := None\<rparr> else y)"
        by (auto simp: s' s2 effect_update_def set_update_where)
      have "F (ef_id y) + pend y \<le> 1 + retries s (ef_id y)"
        using o y x(2) by (auto simp: once_def split: if_splits)
      then show "F (ef_id x) + pend x \<le> 1 + retries s' (ef_id x)"
        using y(2) by (auto simp: r pend_def)
    qed (use o in \<open>simp add: once_def\<close>)
  next
    fix c assume c: "snapshot_claim ?s1 (e\<lparr>ef_status := E_processing\<rparr>) = Inr c"
      and fin: "finalize_telegram_success c (the chat) (the msg) now ?s1 = Inr (True, s2)"
    have "once F ?s1"
    proof (rule once_quiet [OF o])
      show "effect_moves (\<lambda>e e'. ef_status e' = ef_status e \<or> ef_status e' = E_processing) s ?s1"
        by (rule moves_map [where f = "\<lambda>d. if ef_id d = eid then d\<lparr>ef_status := E_processing\<rparr> else d"])
          (auto simp: effect_update_def update_where_def)
    qed (auto simp: pend_def)
    moreover have "pub_inv cs ?s1"
    proof (rule pub_effect_update [OF inv])
      fix d assume d: "d \<in> set (effects s)" "ef_id d = eid" "ck_effect d"
      have "d = e" using pub_effect_of(3) [OF inv e(1) d(1)] d(2) e(2) by simp
      with d st show "ck_effect (d\<lparr>ef_status := E_processing\<rparr>)" by (simp add: ck_effect_def)
    qed simp
    ultimately have "once F (snd (telegram_success_rows c (the chat) (the msg) now ?s1))"
      by (intro once_quiet [OF _ moves_finalize]) (auto dest: pend_moves(3))
    then have "once F s2" using finalized_rows [OF fin] by simp
    then show ?thesis by (rule once_mono) (simp_all add: s' retries_def)
  qed
qed

lemma live_split:
  "live (xs @ (c, ph) # ys) i =
     live (xs @ ys) i + (if cl_effect_id c = i \<and> live_phase ph then 1 else 0)"
  by (simp add: live_def)

lemma live_le: "live (xs @ ys) i \<le> live (xs @ x # ys) i"
  by (cases x) (simp add: live_split)

lemma claim_known:
  assumes "pub_inv (map fst fl) s" "(c, ph) \<in> set fl"
  obtains e where "e \<in> set (effects s)" "ef_id e = cl_effect_id c" "ef_kind e = cl_kind c"
    "cl_effect_id c < next_effect_id s"
  using assms unfolding pub_inv_def ids_below_def claim_row_of_def by force

text \<open>The balance is kept by every step of the system.\<close>

lemma once_world_step:
  assumes step: "world_step admins community sha w w'" and inv: "world_inv admins w"
    and o: "once (spent w) (wdb w)"
  shows "once (spent w') (wdb w')"
proof -
  have p: "pub_inv (map fst (inflight w)) (wdb w)" using inv by (simp add: world_inv_def)
  have zero: "next_effect_id (wdb w) \<le> i \<Longrightarrow> spent w i = 0" for i using o by (simp add: once_def)
  have drop: "spent w' i \<le> spent w i" if "inflight w = xs @ x # ys" "inflight w' = xs @ ys"
    "reached_chat w' = reached_chat w" for xs x ys i
    using that by (simp add: spent_def live_le)
  from step show ?thesis
  proof cases
    case (transaction s')
    then have w': "wdb w' = s'" "spent w' = spent w" by (simp_all add: spent_def fun_eq_iff)
    from moves_db_step [OF transaction(2)] show ?thesis unfolding w'
      using once_quiet [OF o, of sweep_move s' "spent w"] once_reconcile [OF o p] by (auto dest: pend_moves(1))
  next
    case (claim wm ex hs now c s')
    from p claim(2) obtain e where e: "e \<in> set (effects (wdb w))" "ef_id e = cl_effect_id c"
      "ef_status e = E_pending" and s': "s' = effect_update (ef_id e) (claim_row now) (wdb w)"
      by (rule moves_claim)
    have sp: "spent w' i = spent w i + (if i = ef_id e then 1 else 0)" for i
      using claim(1) e(2) by (simp add: spent_def live_def live_phase_def)
    let ?P = "\<lambda>d d'. (ef_id d = ef_id e \<longrightarrow> pend d = 1 \<and> pend d' = 0) \<and> (ef_id d \<noteq> ef_id e \<longrightarrow> d' = d)"
    have m: "effect_moves ?P (wdb w) s'"
    proof (rule moves_map [where f = "\<lambda>d. if ef_id d = ef_id e then claim_row now d else d"])
      fix d assume d: "d \<in> set (effects (wdb w))"
      have "ef_id d = ef_id e \<Longrightarrow> d = e" by (rule pub_effect_of(3) [OF p e(1) d])
      then show "ef_id (if ef_id d = ef_id e then claim_row now d else d) = ef_id d \<and>
          effect_key (if ef_id d = ef_id e then claim_row now d else d) = effect_key d \<and>
          ?P d (if ef_id d = ef_id e then claim_row now d else d)"
        using e(3) by (cases "ef_id d = ef_id e") (simp_all add: pend_def)
    qed (simp_all add: s' effect_update_def update_where_def)
    have lt: "ef_id e < next_effect_id (wdb w)" using p e(1) by (simp add: pub_inv_def ids_below_def)
    have "once (spent w') s'"
    proof (rule once_step [OF o m])
      fix d d' assume "?P d d'"
      then show "spent w' (ef_id d) + pend d' \<le> spent w (ef_id d) + pend d"
        by (cases "ef_id d = ef_id e") (simp_all add: sp)
    qed (use lt zero in \<open>auto simp: sp\<close>)
    with claim(1) show ?thesis by simp
  next
    case (broken xs c ys err now)
    have "once (spent w') (snd (mark_result c E_failed (Some (cp err)) now (wdb w)))"
      using broken by (intro once_quiet [OF o moves_mark_result [OF p]] drop) (auto dest: pend_moves(3))
    then show ?thesis using broken(1) by simp
  next
    case (check xs c ys)
    have "spent w' i \<le> spent w i" for i
      using check(1,2) by (auto simp: spent_def live_split live_phase_def)
    then show ?thesis using once_mono [OF o] check(1) by simp
  next
    case (stale xs c ys now)
    have "once (spent w') (snd (mark_delivery_failed c E_stale None now (wdb w)))"
      using stale by (intro once_quiet [OF o moves_mark_delivery_failed [OF p]] drop) (auto dest: pend_moves(3))
    then show ?thesis using stale(1) by simp
  next
    case (call xs c ys outcome reached)
    have "spent w' i \<le> spent w i" for i
      using call(1,2,4) by (auto simp: spent_def live_split live_phase_def may_reach_def split: send_outcome.splits)
    then show ?thesis using once_mono [OF o] call(1) by simp
  next
    case (finish xs c outcome ys n now)
    let ?s = "finish_send community n c outcome now (wdb w)"
    have m: "effect_moves (result_move (cl_effect_id c) (outcome_statuses outcome)
        (outcome_identities (wdb w) community (cl_effect_id c) outcome)) (wdb w) ?s"
      by (rule moves_finish_send [OF p])
    have "once (spent w') ?s"
    proof (cases "\<exists>err. outcome = Send_retry_after err")
      case True
      have sp: "spent w i = spent w' i + (if cl_effect_id c = i then 1 else 0)" for i
        using finish(1,2) True by (auto simp: spent_def live_split live_phase_def)
      show ?thesis
      proof (rule once_step [OF o m])
        fix e e' assume "result_move (cl_effect_id c) (outcome_statuses outcome)
          (outcome_identities (wdb w) community (cl_effect_id c) outcome) e e'" "ef_kind e \<noteq> Sheet_projection"
        then show "spent w' (ef_id e) + pend e' \<le> spent w (ef_id e) + pend e"
          using sp by (auto simp: result_move_def pend_def)
      next
        fix i assume "next_effect_id (wdb w) \<le> i"
        then show "spent w' i = 0" using zero [of i] sp [of i] by simp
      qed
    next
      case False
      then have "E_pending \<notin> outcome_statuses outcome" by (cases outcome) (simp_all add: outcome_statuses_def)
      then show ?thesis using finish(1,2) by (intro once_quiet [OF o m] drop) (auto dest: pend_moves(3))
    qed
    then show ?thesis using finish(1) by simp
  next
    case (sheet xs c ys r now n)
    let ?s = "case r of None \<Rightarrow> snd (mark_result c E_pending None now (wdb w))
      | Some out \<Rightarrow> finish_sheet n c out now (wdb w)"
    have c: "c \<in> set (map fst (inflight w))" by (simp add: sheet(2))
    have m: "effect_moves sheet_move (wdb w) ?s"
      using moves_sheet_result [OF p c sheet(3)] moves_finish_sheet [OF p c sheet(3)] by (simp split: option.split)
    have "once (spent w') ?s"
      using sheet(1,2) by (intro once_quiet [OF o m] drop) (auto dest: pend_moves(2))
    then show ?thesis using sheet(1) by simp
  next
    case (crash xs x ys)
    have "once (spent w') (wdb w)"
      using crash by (intro once_mono [OF o] drop) simp_all
    then show ?thesis using crash(1) by simp
  qed
qed

lemma reachable_once: "reachable admins community sha w \<Longrightarrow> once (spent w) (wdb w)"
proof (induction rule: reachable_induct)
  case init
  show ?case by (simp add: once_def init_world_def empty_db_def spent_def live_def)
next
  case (step w w')
  show ?case using once_world_step [OF step(2) reachable_inv [OF step(1)] step(3)] .
qed

end
