(* ===== verification/IntroScenario.thy ===== *)
theory IntroScenario
  imports IntroDelivery
begin

section \<open>One run of the system\<close>

text \<open>
  From the empty database to a published introduction: an admin joins the chat, a newcomer applies,
  answers and confirms, the worker sends the card, the admin vouches, the newcomer joins, the worker
  publishes the introduction.  The properties of all reachable states are applied to the states of
  this run.
\<close>

definition demo_sha :: "nat list \<Rightarrow> nat list" where
  "demo_sha bs = replicate 32 0"

definition demo_user :: "int \<Rightarrow> bool \<Rightarrow> user" where
  "demo_user uid mem = \<lparr>u_id = uid, username = None, first_name = cp ''Ann'', last_name = None,
     is_member = mem, is_admin = False, joined_at = (if mem then Some 0 else None), left_at = None,
     is_imported_only = False, is_bot = Some False\<rparr>"

definition demo_tg :: "int \<Rightarrow> tg_user" where
  "demo_tg uid = \<lparr>tg_id = uid, tg_username = None, tg_first_name = cp ''Ann'', tg_last_name = None,
     tg_is_bot = Some False\<rparr>"

definition demo_join :: "int \<Rightarrow> member_event" where
  "demo_join uid = \<lparr>ev_chat_id = 100, ev_old = M_left, ev_new = M_member, ev_user = demo_tg uid\<rparr>"

definition demo_html :: ustr where
  "demo_html = intro_block ''intro-v2'' intro_v2 sample_inputs"

definition demo_app :: application where
  "demo_app = new_application 1 7 Admission None ''intro-v2'' 0"

definition demo_applied :: db where
  "demo_applied = empty_db\<lparr>users := [demo_user 1 True, demo_user 7 False], applications := [demo_app],
     next_app_id := 2\<rparr>"

definition demo_confirmed :: "questionnaire_answer list \<Rightarrow> db" where
  "demo_confirmed as = demo_applied\<lparr>answers := as,
     applications := [demo_app\<lparr>confirmed_intro_html := Some demo_html, status := Confirmed\<rparr>],
     effects := [new_effect 1 1 Candidate_card], next_effect_id := 2\<rparr>"

definition demo_sent_row :: "int \<Rightarrow> effect_kind \<Rightarrow> int \<Rightarrow> intro_effect" where
  "demo_sent_row eid kind msg = \<lparr>ef_id = eid, ef_application_id = 1, ef_kind = kind, ef_status = E_sent,
     ef_chat_id = Some 100, ef_message_id = Some msg, attempt_count = 1, attempt_started_at = Some 0,
     ef_last_error = None, completed_at = Some 0\<rparr>"

definition demo_pending :: "questionnaire_answer list \<Rightarrow> db" where
  "demo_pending as = (demo_confirmed as)\<lparr>
     applications := [demo_app\<lparr>confirmed_intro_html := Some demo_html, status := Pending,
       questionnaire_message_id := Some 50, submitted_at := Some 0\<rparr>],
     effects := [demo_sent_row 1 Candidate_card 50]\<rparr>"

definition demo_invite :: invite where
  "demo_invite = \<lparr>iv_id = 1, iv_application_id = 1, iv_user_id = 7, iv_chat_id = 100,
     iv_status = Iv_pending, invite_link = None, iv_attempt_count = 0, iv_last_error = None, sent_at = None\<rparr>"

definition demo_vouched_app :: application where
  "demo_vouched_app = demo_app\<lparr>confirmed_intro_html := Some demo_html, status := Vouched,
     questionnaire_message_id := Some 50, submitted_at := Some 0, vouched_by := Some 1,
     vouched_at := Some 0, invite_user_id := Some 7\<rparr>"

definition demo_vouched :: "questionnaire_answer list \<Rightarrow> db" where
  "demo_vouched as = (demo_pending as)\<lparr>applications := [demo_vouched_app],
     vouches := [\<lparr>voucher_id = 1, vouchee_id = 7, vl_application_id = 1\<rparr>],
     invites := [demo_invite], next_invite_id := 2\<rparr>"

definition demo_added :: "questionnaire_answer list \<Rightarrow> db" where
  "demo_added as = (demo_vouched as)\<lparr>users := [demo_user 1 True, demo_user 7 True],
     applications := [demo_vouched_app\<lparr>status := Added, added_at := Some 0\<rparr>],
     effects := [demo_sent_row 1 Candidate_card 50, new_effect 2 1 Admission_intro], next_effect_id := 3\<rparr>"

definition demo_published :: "questionnaire_answer list \<Rightarrow> db" where
  "demo_published as = (demo_added as)\<lparr>
     intros := [\<lparr>in_user_id = 7, intro_text = demo_html, vouched_by_name = cp ''Ann'',
       in_application_id = Some 1, in_updated_at = 0\<rparr>],
     effects := [demo_sent_row 1 Candidate_card 50, demo_sent_row 2 Admission_intro 51,
       new_effect 3 1 Sheet_projection], next_effect_id := 4\<rparr>"

subsection \<open>Its steps\<close>

abbreviation demo_reach :: "db \<Rightarrow> int list \<Rightarrow> bool" where
  "demo_reach s sent \<equiv> reachable [1] 100 demo_sha \<lparr>wdb = s, inflight = [], reached_chat = sent\<rparr>"

lemma reachable_step:
  "reachable admins community sha w \<Longrightarrow> world_step admins community sha w w' \<Longrightarrow> reachable admins community sha w'"
  by (simp add: reachable_def)

lemma demo_transaction:
  assumes "demo_reach s sent" "db_step [1] 100 demo_sha s s'"
  shows "demo_reach s' sent"
  using reachable_step [OF assms(1) world_step.transaction [of _ _ _ "\<lparr>wdb = s, inflight = [], reached_chat = sent\<rparr>" s']]
    assms(2) by simp

text \<open>A delivery without incident: claim, check, call and result.\<close>

lemma demo_deliver:
  assumes r: "demo_reach s sent" and c: "claim_one None [] False 0 s = Inr (Some c, s1)"
    and v: "cl_error c = None" "cl_kind c \<noteq> Sheet_projection" "claim_is_semantically_valid s1 c"
    and s2: "s2 = finish_send 100 3 c (Send_ok msg) 0 s1"
  shows "demo_reach s2 (cl_effect_id c # sent)"
proof -
  let ?w = "\<lambda>s fl sent. \<lparr>wdb = s, inflight = fl, reached_chat = sent\<rparr>"
  have 1: "reachable [1] 100 demo_sha (?w s1 [(c, Ph_claimed)] sent)"
    using reachable_step [OF r world_step.claim [of None "[]" False 0]] c by simp
  have 2: "reachable [1] 100 demo_sha (?w s1 [(c, Ph_valid)] sent)"
    using reachable_step [OF 1 world_step.check [of _ "[]" c "[]"]] v by simp
  have 3: "reachable [1] 100 demo_sha (?w s1 [(c, Ph_called (Send_ok msg))] (cl_effect_id c # sent))"
    using reachable_step [OF 2 world_step.call [of _ "[]" c "[]" "Send_ok msg" True]] v
    by (simp add: may_reach_def)
  show ?thesis
    using reachable_step [OF 3 world_step.finish [of _ "[]" c "Send_ok msg" "[]" _ _ _ 3 0]] s2 by simp
qed

lemma demo_applied_reach: "demo_reach demo_applied []"
proof -
  have "demo_reach empty_db []" by (simp add: reachable_def init_world_def)
  moreover have "snd (handle_chat_member [1] 100 (demo_join 1) 0 (\<lambda>s. s) empty_db) =
      empty_db\<lparr>users := [demo_user 1 True]\<rparr>"
    by (simp add: handle_chat_member_def demo_join_def is_join_def handle_join_def demo_tg_def join_upsert_def
        user_upsert_def user_get_def empty_db_def set_member_def demo_user_def Let_def)
  ultimately have "demo_reach (empty_db\<lparr>users := [demo_user 1 True]\<rparr>) []"
    using demo_transaction [OF _ db_step.member] by metis
  moreover have "user_upsert 7 None (cp ''Ann'') None (Some False) (empty_db\<lparr>users := [demo_user 1 True]\<rparr>) =
      empty_db\<lparr>users := [demo_user 1 True, demo_user 7 False]\<rparr>"
    by (simp add: user_upsert_def user_get_def demo_user_def empty_db_def)
  ultimately have "demo_reach (empty_db\<lparr>users := [demo_user 1 True, demo_user 7 False]\<rparr>) []"
    using demo_transaction [OF _ db_step.upsert] by metis
  moreover have "app_create 7 Admission None ''intro-v2'' 0
      (empty_db\<lparr>users := [demo_user 1 True, demo_user 7 False]\<rparr>) = Inr (demo_app, demo_applied)"
    by (simp add: app_create_def get_intro_catalog_def empty_db_def demo_app_def new_application_def
        demo_applied_def active_refresh_def Let_def)
  ultimately show ?thesis using demo_transaction [OF _ db_step.apply_new] by metis
qed

lemma demo_answers_reach:
  "demo_reach s [] \<Longrightarrow> answer_all 7 1 inputs s = Inr s' \<Longrightarrow> demo_reach s' []"
proof (induction inputs arbitrary: s)
  case (Cons ft inputs)
  obtain nxt s1 where w: "write_answer 7 1 (fst ft) (snd ft) s = Inr (nxt, s1)"
    and r: "answer_all 7 1 inputs s1 = Inr s'"
    using Cons.prems(2) by (cases ft) (auto simp: bindE_Inr_iff)
  show ?case by (rule Cons.IH [OF demo_transaction [OF Cons.prems(1) db_step.answer [OF w]] r])
qed simp

lemma answer_all_only: "answer_all uid aid inputs s = Inr s' \<Longrightarrow> only_answers s s'"
proof (induction inputs arbitrary: s)
  case (Cons ft inputs)
  obtain nxt s1 where w: "write_answer uid aid (fst ft) (snd ft) s = Inr (nxt, s1)"
    and r: "answer_all uid aid inputs s1 = Inr s'"
    using Cons.prems by (cases ft) (auto simp: bindE_Inr_iff)
  show ?case by (rule only_answers_trans [OF only_answers_ops(1) [OF w] Cons.IH [OF r]])
qed simp

lemma demo_confirmed_reach: "\<exists>as. demo_reach (demo_confirmed as) []"
proof -
  have a: "app_get demo_applied 1 = Some demo_app" "app_user_id demo_app = 7" "may_write demo_applied demo_app"
    "draft_wf demo_applied 1" "missing_fields demo_applied 1 = catalog_ids" "draft_pairs demo_applied 1 = []"
    "confirmation_effect demo_applied 7 demo_app = Inr Candidate_card"
    "\<not> effect_exists demo_applied 1 Candidate_card" "catalog_version demo_app = ''intro-v2''"
    by (simp_all add: demo_applied_def empty_db_def app_get_def demo_app_def new_application_def may_write_def
        require_refresh_member_def catalog_of_def get_intro_catalog_def draft_wf_def draft_rows_def
        missing_fields_def answered_fields_def qa_get_by_application_def draft_pairs_def
        confirmation_effect_def effect_exists_def)
  have i: "map fst sample_inputs = missing_fields demo_applied 1" by (simp only: sample_inputs_facts a)
  have h: "render_intro_html (draft_pairs demo_applied 1 @ zip (map fst sample_inputs)
      (replicate 7 (cp ''@alice''))) (catalog_version demo_app) = Inr demo_html"
    using sample_inputs_render by (simp add: sample_inputs_facts a demo_html_def)
  obtain s where s: "answer_all 7 1 sample_inputs demo_applied = Inr s" "current_snapshot s demo_app = Inr demo_html"
    "is_ok (confirm_application demo_sha 7 1 (intro_digest demo_sha demo_html) s)"
    using draft_completes [OF a(1-4) i sample_inputs_facts(2) h a(7,8)] by blast
  then obtain a' s' where c: "confirm_application demo_sha 7 1 (intro_digest demo_sha demo_html) s = Inr (a', s')"
    unfolding is_ok_iff by fastforce
  obtain as where as: "s = demo_applied\<lparr>answers := as\<rparr>" using answer_all_only [OF s(1)] by (auto simp: only_answers_def)
  have g: "app_get s 1 = Some demo_app" using a(1) as by (simp add: app_get_def)
  have "s' = demo_confirmed as"
    using c
  proof (cases rule: confirm_ok)
    case again
    have "a' = demo_app" using again(1) g by simp
    then have "status a' = Filling" by (simp add: demo_app_def new_application_def)
    with again(3) show ?thesis by simp
  next
    case (first b h kind)
    then have "b = demo_app" "h = demo_html" "kind = Candidate_card"
      using g s(2) by (auto simp: confirmation_effect_def as demo_applied_def empty_db_def demo_app_def
          new_application_def split: if_splits)
    with first(10) as show ?thesis
      by (simp add: demo_confirmed_def demo_applied_def empty_db_def effect_append_def app_update_def
          demo_app_def new_application_def)
  qed
  moreover have "demo_reach s []" by (rule demo_answers_reach [OF demo_applied_reach s(1)])
  ultimately show ?thesis using demo_transaction [OF _ db_step.confirm [OF c]] by metis
qed

lemmas demo_simps = demo_confirmed_def demo_pending_def demo_vouched_def demo_added_def demo_published_def
  demo_applied_def empty_db_def demo_app_def new_application_def demo_user_def demo_vouched_app_def
  demo_invite_def demo_sent_row_def new_effect_def

lemmas claim_simps = claim_one_def claim_pending_def claim_candidates_def claim_row_def snapshot_claim_def
  app_get_def user_get_def intro_get_def snapshot_answers_def Let_def

lemma demo_pending_reach: "\<exists>as. demo_reach (demo_pending as) [1]"
proof -
  obtain as where r: "demo_reach (demo_confirmed as) []" using demo_confirmed_reach by blast
  let ?s1 = "(demo_confirmed as)\<lparr>effects := [claim_row 0 (new_effect 1 1 Candidate_card)]\<rparr>"
  let ?c = "\<lparr>cl_effect_id = 1, cl_attempt = 1, cl_application_id = 1, cl_kind = Candidate_card, cl_user_id = 7,
    cl_html = demo_html, cl_first_name = cp ''Ann'', cl_answers = [], cl_username = None,
    cl_voucher_name = [8212], cl_error = None\<rparr>"
  have c: "claim_one None [] False 0 (demo_confirmed as) = Inr (Some ?c, ?s1)"
    by (simp add: claim_simps demo_simps voucher_name_def)
  have v: "claim_is_semantically_valid ?s1 ?c"
    by (simp add: claim_is_semantically_valid_def get_claimed_for_update_def claim_row_def demo_simps
        app_get_def valid_semantic_pair_def needs_member_def Let_def)
  have "demo_pending as = finish_send 100 3 ?c (Send_ok 50) 0 ?s1"
    by (simp add: finish_send_def finalize_telegram_success_def telegram_success_rows_def identity_taken_def telegram_identity_def get_claimed_for_update_def claim_row_def demo_simps
        app_get_def valid_semantic_pair_def needs_member_def Let_def finish_clean_def effect_update_def
        publish_card_def app_update_def)
  from demo_deliver [OF r c _ _ v this] show ?thesis by auto
qed

lemma demo_vouched_reach: "\<exists>as. demo_reach (demo_vouched as) [1]"
proof -
  obtain as where r: "demo_reach (demo_pending as) [1]" using demo_pending_reach by blast
  have "\<exists>calls. handle_vouch 100 (Some 1) 1 None 0 (\<lambda>s. s) (demo_pending as) = Inr (calls, demo_vouched as)"
    by (simp add: handle_vouch_def app_get_def user_get_def demo_simps vouch_open_def vouch_update_def Let_def
        invite_create_pending_def vouch_create_def)
  with r show ?thesis using demo_transaction [OF _ db_step.vouch] by metis
qed

lemma demo_added_reach: "\<exists>as. demo_reach (demo_added as) [1]"
proof -
  obtain as where r: "demo_reach (demo_vouched as) [1]" using demo_vouched_reach by blast
  have "snd (handle_chat_member [1] 100 (demo_join 7) 0 (\<lambda>s. s) (demo_vouched as)) = demo_added as"
    by (simp add: handle_chat_member_def demo_join_def is_join_def handle_join_def demo_tg_def join_upsert_def
        user_upsert_def user_get_def set_member_def demo_simps Let_def app_get_active_def
        admission_rejection_reason_def app_update_status_if_def admit_member_def intro_get_def
        enqueue_once_def effect_exists_def effect_key_def effect_append_def)
  with r show ?thesis using demo_transaction [OF _ db_step.member] by metis
qed

lemma demo_published_reach: "\<exists>as. demo_reach (demo_published as) [2, 1]"
proof -
  obtain as where r: "demo_reach (demo_added as) [1]" using demo_added_reach by blast
  let ?s1 = "(demo_added as)\<lparr>effects := [demo_sent_row 1 Candidate_card 50,
    claim_row 0 (new_effect 2 1 Admission_intro)]\<rparr>"
  let ?c = "\<lparr>cl_effect_id = 2, cl_attempt = 1, cl_application_id = 1, cl_kind = Admission_intro, cl_user_id = 7,
    cl_html = demo_html, cl_first_name = cp ''Ann'', cl_answers = [], cl_username = None,
    cl_voucher_name = cp ''Ann'', cl_error = None\<rparr>"
  have c: "claim_one None [] False 0 (demo_added as) = Inr (Some ?c, ?s1)"
    by (simp add: claim_simps demo_simps voucher_name_def mention_of_def truthy_def)
  have v: "claim_is_semantically_valid ?s1 ?c"
    by (simp add: claim_is_semantically_valid_def get_claimed_for_update_def claim_row_def demo_simps
        app_get_def intro_get_def valid_semantic_pair_def needs_member_def Let_def)
  have "demo_published as = finish_send 100 3 ?c (Send_ok 51) 0 ?s1"
    by (simp add: finish_send_def finalize_telegram_success_def telegram_success_rows_def identity_taken_def telegram_identity_def get_claimed_for_update_def claim_row_def demo_simps
        app_get_def intro_get_def valid_semantic_pair_def needs_member_def Let_def finish_clean_def effect_update_def
        publish_first_intro_def intro_add_def enqueue_once_def effect_exists_def effect_key_def effect_append_def)
  from demo_deliver [OF r c _ _ v this] show ?thesis by auto
qed

end
