(* ===== verification/IntroProperties.thy ===== *)
theory IntroProperties
  imports IntroScenario
begin

section \<open>What holds in every state of the onboarding system\<close>

text \<open>
  The promises of the onboarding flow, over all runs of the step relation of \<open>IntroSystem\<close> and over
  the single transactions.  Each property that has hypotheses is applied to the run of
  \<open>IntroScenario\<close> or to one of its states.
\<close>

subsection \<open>Who is a member\<close>

text \<open>
  C1. Every member of the chat is an admin, or was vouched for by somebody who was
  trusted in the same way: the vouches on record lead from every member back to an admin, and nobody
  vouched for themselves.
\<close>

theorem members_are_trusted:
  assumes "reachable admins community sha w"
  shows "(\<forall>u \<in> set (users (wdb w)). is_member u \<longrightarrow> trusted admins (vouches (wdb w)) (u_id u)) \<and>
    (\<forall>v \<in> set (vouches (wdb w)). voucher_id v \<noteq> vouchee_id v \<and> trusted admins (vouches (wdb w)) (voucher_id v))"
  using reachable_inv [OF assms] by (simp add: world_inv_def gate_inv_def)

theorem members_are_trusted_witness:
  "\<exists>s. trusted [1] (vouches s) 7 \<and> vouches s \<noteq> [] \<and> demo_reach s [2, 1]"
proof -
  obtain as where r: "demo_reach (demo_published as) [2, 1]" using demo_published_reach by blast
  have "demo_user 7 True \<in> set (users (demo_published as))" "is_member (demo_user 7 True)"
    "u_id (demo_user 7 True) = 7" "vouches (demo_published as) \<noteq> []" by (simp_all add: demo_simps)
  with members_are_trusted [OF r] r show ?thesis by (metis select_convs(1))
qed

text \<open>
  C12. An application that is vouched, or was accepted other than as the refresh of an introduction,
  is an admission that names the user it admits; the vouch log holds the vouch of the voucher it stores,
  who is somebody else, and an invite for exactly that user is on record.  No application is ever marked
  privacy-blocked.
\<close>

theorem vouched_is_on_record:
  assumes "reachable admins community sha w" "a \<in> set (applications (wdb w))"
  shows "status a \<noteq> Privacy_block \<and>
    (status a = Vouched \<or> status a = Added \<and> app_flow_kind a \<noteq> Some Refresh \<longrightarrow>
       app_flow_kind a = Some Admission \<and> invite_user_id a = Some (app_user_id a) \<and>
       (\<exists>v \<in> set (vouches (wdb w)). vl_application_id v = app_id a \<and> vouchee_id v = app_user_id a \<and>
          vouched_by a = Some (voucher_id v) \<and> voucher_id v \<noteq> app_user_id a) \<and>
       (\<exists>i \<in> set (invites (wdb w)). iv_application_id i = app_id a \<and> iv_user_id i = app_user_id a))"
proof -
  have g: "gate_app (vouches (wdb w)) a" "invited (invites (wdb w)) a"
    "\<forall>v \<in> set (vouches (wdb w)). voucher_id v \<noteq> vouchee_id v"
    using reachable_inv [OF assms(1)] assms(2) by (simp_all add: world_inv_def gate_inv_def)
  show ?thesis
  proof (intro conjI impI)
    show "status a \<noteq> Privacy_block" using g(1) by (simp add: gate_app_def)
    assume st: "status a = Vouched \<or> status a = Added \<and> app_flow_kind a \<noteq> Some Refresh"
    then show adm: "app_flow_kind a = Some Admission"
      using g(1) by (cases "app_flow_kind a"; cases "the (app_flow_kind a)") (auto simp: gate_app_def)
    show "invite_user_id a = Some (app_user_id a)" using g(1) st adm by (auto simp: gate_app_def)
    show "\<exists>i \<in> set (invites (wdb w)). iv_application_id i = app_id a \<and> iv_user_id i = app_user_id a"
      using g(2) st adm by (auto simp: invited_def)
    from g(1) st adm obtain v where "v \<in> set (vouches (wdb w))" "vl_application_id v = app_id a"
      "vouchee_id v = app_user_id a" "vouched_by a = Some (voucher_id v)"
      by (auto simp: gate_app_def)
    moreover from this(1,3) g(3) have "voucher_id v \<noteq> app_user_id a" by metis
    ultimately show "\<exists>v \<in> set (vouches (wdb w)). vl_application_id v = app_id a \<and>
        vouchee_id v = app_user_id a \<and> vouched_by a = Some (voucher_id v) \<and> voucher_id v \<noteq> app_user_id a"
      by blast
  qed
qed

theorem vouched_is_on_record_witness:
  "\<exists>s. demo_reach s [1] \<and> status demo_vouched_app = Vouched \<and> invite_user_id demo_vouched_app = Some 7 \<and>
     (\<exists>v \<in> set (vouches s). vouched_by demo_vouched_app = Some (voucher_id v) \<and> voucher_id v \<noteq> 7) \<and>
     (\<exists>i \<in> set (invites s). iv_user_id i = 7)"
proof -
  obtain as where r: "demo_reach (demo_vouched as) [1]" using demo_vouched_reach by blast
  have f: "demo_vouched_app \<in> set (applications (demo_vouched as))" "status demo_vouched_app = Vouched"
    "app_flow_kind demo_vouched_app = Some Admission" "app_user_id demo_vouched_app = 7"
    by (simp_all add: demo_simps)
  from vouched_is_on_record [OF r, of demo_vouched_app] f r show ?thesis by auto
qed

subsection \<open>What is published\<close>

text \<open>
  C7. A published introduction is exactly the block its owner confirmed, of an
  application of that owner that was accepted; and a user has at most one.
\<close>

theorem published_is_confirmed:
  assumes "reachable admins community sha w"
  shows "distinct (map in_user_id (intros (wdb w))) \<and>
    (\<forall>i \<in> set (intros (wdb w)). \<exists>a \<in> set (applications (wdb w)).
       in_application_id i = Some (app_id a) \<and> app_user_id a = in_user_id i \<and> status a = Added \<and>
       confirmed_intro_html a = Some (intro_text i))"
  using reachable_inv [OF assms] by (auto simp: world_inv_def pub_inv_def pub_intro_def)

theorem published_is_confirmed_witness:
  "\<exists>s i a. demo_reach s [2, 1] \<and> i \<in> set (intros s) \<and> a \<in> set (applications s) \<and> in_user_id i = 7 \<and>
     app_user_id a = 7 \<and> confirmed_intro_html a = Some (intro_text i)"
proof -
  obtain as where r: "demo_reach (demo_published as) [2, 1]" using demo_published_reach by blast
  obtain i where i: "intros (demo_published as) = [i]" "in_user_id i = 7" by (simp add: demo_published_def)
  have "\<exists>a \<in> set (applications (demo_published as)). in_application_id i = Some (app_id a) \<and>
      app_user_id a = in_user_id i \<and> status a = Added \<and> confirmed_intro_html a = Some (intro_text i)"
    using published_is_confirmed [OF r] i(1) by simp
  then obtain a where "a \<in> set (applications (demo_published as))" "app_user_id a = 7"
    "confirmed_intro_html a = Some (intro_text i)" using i(2) by auto
  moreover have "i \<in> set (intros (demo_published as))" using i(1) by simp
  ultimately show ?thesis using r i(2) by blast
qed

text \<open>
  C36. In every reachable state: applications, outbox rows, users and published introductions have unique
  keys (an introduction is keyed by its user); every application satisfies \<open>ck_applications_flow_kind\<close>,
  \<open>ck_applications_catalog_version\<close> and \<open>ck_applications_confirmed_snapshot\<close>; every outbox row satisfies
  the message, claim, attempt and sheet checks of \<open>intro_effect_outbox\<close>; an application has at most one row of
  a kind; a chat message belongs to at most one row; and a user has at most one refresh under way.
\<close>

theorem constraints_hold:
  assumes "reachable admins community sha w"
  shows "distinct (map app_id (applications (wdb w))) \<and> distinct (map ef_id (effects (wdb w))) \<and>
    distinct (map u_id (users (wdb w))) \<and> distinct (map in_user_id (intros (wdb w))) \<and>
    (\<forall>a \<in> set (applications (wdb w)). ck_application a) \<and>
    (\<forall>e \<in> set (effects (wdb w)). ck_effect e) \<and> distinct (map effect_key (effects (wdb w))) \<and>
    (\<forall>d \<in> set (effects (wdb w)). \<forall>e \<in> set (effects (wdb w)).
       telegram_identity d \<noteq> None \<and> telegram_identity d = telegram_identity e \<longrightarrow> d = e) \<and>
    (\<forall>a \<in> set (applications (wdb w)). \<forall>b \<in> set (applications (wdb w)).
       active_refresh a \<and> active_refresh b \<and> app_user_id a = app_user_id b \<longrightarrow> app_id a = app_id b)"
proof -
  have p: "pub_inv (map fst (inflight w)) (wdb w)" and g: "gate_inv admins (wdb w)"
    using reachable_inv [OF assms] by (simp_all add: world_inv_def)
  show ?thesis
  proof (intro conjI ballI impI)
    show "distinct (map app_id (applications (wdb w)))" "distinct (map u_id (users (wdb w)))"
      using g by (simp_all add: gate_inv_def ids_below_def)
    show "distinct (map ef_id (effects (wdb w)))" "distinct (map in_user_id (intros (wdb w)))"
      using p by (simp_all add: pub_inv_def ids_below_def)
  next
    fix e assume "e \<in> set (effects (wdb w))"
    with p have "pub_effect (applications (wdb w)) e" unfolding pub_inv_def by blast
    then show "ck_effect e" by (simp add: pub_effect_def)
  next
    fix d e assume d: "d \<in> set (effects (wdb w))" "e \<in> set (effects (wdb w))"
      "telegram_identity d \<noteq> None \<and> telegram_identity d = telegram_identity e"
    with reachable_own [OF assms] have "ef_id d = ef_id e" unfolding own_messages_def by blast
    with p d show "d = e" by (intro pub_effect_of(3)) auto
  qed (use p in \<open>unfold pub_inv_def one_active_def, blast+\<close>)
qed

theorem constraints_hold_witness:
  "\<exists>s. demo_reach s [2, 1] \<and> (\<forall>e \<in> set (effects s). ck_effect e) \<and> length (effects s) = 3"
proof -
  obtain as where r: "demo_reach (demo_published as) [2, 1]" using demo_published_reach by blast
  from constraints_hold [OF r] have "\<forall>e \<in> set (effects (demo_published as)). ck_effect e" by simp
  moreover have "length (effects (demo_published as)) = 3" by (simp add: demo_simps)
  ultimately show ?thesis using r by blast
qed

subsection \<open>Delivery\<close>

text \<open>
  C2. Whatever the workers do, and however often they crash, the message of an outbox
  row reaches the chat at most once more than an operator recorded that it never arrived and ordered
  a retry.
\<close>

theorem at_most_once:
  assumes "reachable admins community sha w" "e \<in> set (effects (wdb w))" "ef_kind e \<noteq> Sheet_projection"
  shows "count_list (reached_chat w) (ef_id e) \<le> 1 + retries (wdb w) (ef_id e)"
proof -
  have "spent w (ef_id e) + pend e \<le> 1 + retries (wdb w) (ef_id e)"
    using reachable_once [OF assms(1)] assms(2,3) by (simp add: once_def)
  then show ?thesis by (simp add: spent_def)
qed

theorem at_most_once_witness:
  "\<exists>s. demo_reach s [2, 1] \<and> count_list [2, 1 :: int] 2 \<le> 1 + retries s 2 \<and> retries s 2 = 0"
proof -
  obtain as where r: "demo_reach (demo_published as) [2, 1]" using demo_published_reach by blast
  have "demo_sent_row 2 Admission_intro 51 \<in> set (effects (demo_published as))" by (simp add: demo_published_def)
  from at_most_once [OF r, of "demo_sent_row 2 Admission_intro 51"] this r show ?thesis
    by (intro exI [of _ "demo_published as"]) (simp add: demo_sent_row_def retries_def, simp add: demo_simps)
qed

lemma moves_same_row:
  assumes inv: "pub_inv cs s" and m: "effect_moves P s s'" and e: "e \<in> set (effects s)"
  shows "\<exists>e' \<in> set (effects s'). ef_id e' = ef_id e \<and> effect_key e' = effect_key e \<and> P e e'"
proof -
  from m e have "ef_id e \<in> ef_id ` set (effects s')" unfolding effect_moves_def by blast
  then obtain e' where e': "e' \<in> set (effects s')" "ef_id e' = ef_id e" by auto
  have "ef_id e < next_effect_id s" using inv e by (simp add: pub_inv_def ids_below_def)
  with moves_row [OF m e'(1)] e'(2) obtain d where d: "d \<in> set (effects s)" "ef_id d = ef_id e'"
    "effect_key d = effect_key e'" "P d e'" by auto
  have "d = e" by (rule pub_effect_of(3) [OF inv e d(1)]) (simp add: d(2) e'(2))
  with d e' show ?thesis by (intro bexI [of _ e']) simp_all
qed

text \<open>What one step of the system may do to a Telegram row.\<close>

definition lifecycle_edge :: "intro_effect \<Rightarrow> intro_effect \<Rightarrow> bool" where
  "lifecycle_edge e e' \<longleftrightarrow> e' = e \<or>
     ef_status e = E_pending \<and> e' = claim_row (the (attempt_started_at e')) e \<or>
     ef_status e = E_processing \<and> ef_status e' \<noteq> E_processing"

lemma lifecycle_moves:
  "sweep_move e e' \<Longrightarrow> ef_kind e \<noteq> Sheet_projection \<Longrightarrow> lifecycle_edge e e'"
  "sheet_move e e' \<Longrightarrow> ef_kind e \<noteq> Sheet_projection \<Longrightarrow> lifecycle_edge e e'"
  "result_move eid sts ids e e' \<Longrightarrow> E_processing \<notin> sts \<Longrightarrow> ef_kind e \<noteq> Sheet_projection \<Longrightarrow> lifecycle_edge e e'"
  by (auto simp: sweep_move_def sheet_move_def result_move_def lifecycle_edge_def)

lemma claim_lifecycle:
  assumes inv: "pub_inv cs s" and run: "claim_one w excluded sheet now s = Inr (Some c, s')"
  shows "effect_moves lifecycle_edge s s'"
proof -
  from inv run obtain d where d: "d \<in> set (effects s)" "ef_id d = cl_effect_id c" "ef_status d = E_pending"
    and s': "s' = effect_update (ef_id d) (claim_row now) s" by (rule moves_claim)
  show ?thesis
  proof (rule moves_map [where f = "\<lambda>e. if ef_id e = ef_id d then claim_row now e else e"])
    fix b assume b: "b \<in> set (effects s)"
    have "ef_id b = ef_id d \<Longrightarrow> ef_status b = E_pending" using pub_effect_of(3) [OF inv d(1) b] d(3) by metis
    then show "ef_id (if ef_id b = ef_id d then claim_row now b else b) = ef_id b \<and>
        effect_key (if ef_id b = ef_id d then claim_row now b else b) = effect_key b \<and>
        lifecycle_edge b (if ef_id b = ef_id d then claim_row now b else b)"
      by (simp add: lifecycle_edge_def claim_row_def)
  qed (simp_all add: s' effect_update_def update_where_def)
qed

lemma reconcile_lifecycle:
  assumes inv: "pub_inv cs s" and e: "e \<in> set (effects s)" "ef_kind e \<noteq> Sheet_projection"
    and run: "reconcile_intro_effect admins community eid action chat msg evidence operator reason now s = Inr s'"
  shows "\<exists>e' \<in> set (effects s'). ef_id e' = ef_id e \<and> effect_key e' = effect_key e \<and>
    (lifecycle_edge e e' \<or>
     ef_status e = E_unknown \<and> (\<exists>rc. reconciliations s' = reconciliations s @ [rc] \<and> rc_effect_id rc = ef_id e))"
proof -
  from inv run obtain s2 rc where m: "effect_moves (reconcile_move eid (free_identities s eid)) s s2"
    and s': "s' = s2\<lparr>reconciliations := reconciliations s @ [rc]\<rparr>" "rc_effect_id rc = eid"
    by (rule reconcile_moves)
  from moves_same_row [OF inv m e(1)] obtain e' where "e' \<in> set (effects s2)" "ef_id e' = ef_id e"
    "effect_key e' = effect_key e" "reconcile_move eid (free_identities s eid) e e'" by blast
  with e(2) s' show ?thesis by (intro bexI [of _ e']) (auto simp: reconcile_move_def lifecycle_edge_def)
qed

text \<open>
  C9. A row of the outbox that stands for a message is never lost, never changes its application and
  kind, and in one step of the system is either left as it is in every column, or claimed while it is
  pending, or given a result while it is processed, or, when its delivery is unknown, resolved by a
  reconciliation that an operator recorded for it in the same step.  So a sent, failed or stale row never
  changes again.  (The row of the sheet is another matter: it is put back to pending when the introduction changes.)
\<close>

theorem row_lifecycle:
  assumes r: "reachable admins community sha w" and step: "world_step admins community sha w w'"
    and e: "e \<in> set (effects (wdb w))" "ef_kind e \<noteq> Sheet_projection"
  shows "\<exists>e' \<in> set (effects (wdb w')). ef_id e' = ef_id e \<and> effect_key e' = effect_key e \<and>
    (lifecycle_edge e e' \<or>
     ef_status e = E_unknown \<and>
       (\<exists>rc. reconciliations (wdb w') = reconciliations (wdb w) @ [rc] \<and> rc_effect_id rc = ef_id e))"
proof -
  have p: "pub_inv (map fst (inflight w)) (wdb w)" using reachable_inv [OF r] by (simp add: world_inv_def)
  have by_move: ?thesis if "effect_moves P (wdb w) (wdb w')"
    "\<And>d d'. P d d' \<Longrightarrow> ef_kind d \<noteq> Sheet_projection \<Longrightarrow> lifecycle_edge d d'" for P
    using moves_same_row [OF p that(1) e(1)] that(2) [OF _ e(2)] by blast
  have by_result: ?thesis if "effect_moves (result_move i sts ids) (wdb w) (wdb w')" "E_processing \<notin> sts" for i sts ids
    using by_move [OF that(1)] lifecycle_moves(3) that(2) by blast
  from step show ?thesis
  proof cases
    case (transaction s')
    from moves_db_step [OF transaction(2)] show ?thesis
    proof
      assume "effect_moves sweep_move (wdb w) s'"
      then show ?thesis using transaction(1) by (intro by_move [of sweep_move]) (simp_all add: lifecycle_moves(1))
    next
      assume "\<exists>eid action chat msg evidence operator reason now.
        reconcile_intro_effect admins community eid action chat msg evidence operator reason now (wdb w) = Inr s'"
      then show ?thesis using reconcile_lifecycle [OF p e] transaction(1) by auto
    qed
  next
    case (claim wm ex hs now c s')
    then show ?thesis using claim_lifecycle [OF p claim(2)] by (intro by_move [of lifecycle_edge]) simp_all
  next
    case (broken xs c ys err now)
    then show ?thesis using by_result moves_mark_result [OF p, of c E_failed "Some (cp err)" now] by simp
  next
    case (check xs c ys)
    then show ?thesis by (intro by_move [of sweep_move]) (simp_all add: moves_same lifecycle_moves(1))
  next
    case (stale xs c ys now)
    then show ?thesis using by_result moves_mark_delivery_failed [OF p, of c E_stale None now] by simp
  next
    case (call xs c ys outcome reached)
    then show ?thesis by (intro by_move [of sweep_move]) (simp_all add: moves_same lifecycle_moves(1))
  next
    case (finish xs c outcome ys n now)
    have "E_processing \<notin> outcome_statuses outcome" by (cases outcome) (simp_all add: outcome_statuses_def)
    with finish(1) show ?thesis using by_result moves_finish_send [OF p, of c outcome community n now] by simp
  next
    case (sheet xs c ys r now n)
    have c: "c \<in> set (map fst (inflight w))" by (simp add: sheet(2))
    have "effect_moves sheet_move (wdb w) (wdb w')"
      using sheet(1) moves_sheet_result [OF p c sheet(3)] moves_finish_sheet [OF p c sheet(3)] by (simp split: option.split)
    then show ?thesis by (rule by_move) (rule lifecycle_moves(2))
  next
    case (crash xs x ys)
    then show ?thesis by (intro by_move [of sweep_move]) (simp_all add: moves_same lifecycle_moves(1))
  qed
qed

theorem row_lifecycle_witness:
  "\<exists>w w' e e'. reachable [1] 100 demo_sha w \<and> world_step [1] 100 demo_sha w w' \<and> e \<in> set (effects (wdb w)) \<and>
     e' \<in> set (effects (wdb w')) \<and> ef_id e' = ef_id e \<and> ef_status e = E_pending \<and> lifecycle_edge e e' \<and> e' \<noteq> e"
proof -
  obtain as where r: "demo_reach (demo_confirmed as) []" using demo_confirmed_reach by blast
  let ?w = "\<lparr>wdb = demo_confirmed as, inflight = [], reached_chat = []\<rparr>"
  let ?e = "new_effect 1 1 Candidate_card"
  let ?s1 = "(demo_confirmed as)\<lparr>effects := [claim_row 0 ?e]\<rparr>"
  let ?c = "\<lparr>cl_effect_id = 1, cl_attempt = 1, cl_application_id = 1, cl_kind = Candidate_card, cl_user_id = 7,
    cl_html = demo_html, cl_first_name = cp ''Ann'', cl_answers = [], cl_username = None,
    cl_voucher_name = [8212], cl_error = None\<rparr>"
  let ?w' = "\<lparr>wdb = ?s1, inflight = [(?c, Ph_claimed)], reached_chat = []\<rparr>"
  have "claim_one None [] False 0 (demo_confirmed as) = Inr (Some ?c, ?s1)"
    by (simp add: claim_simps demo_simps voucher_name_def)
  then have st: "world_step [1] 100 demo_sha ?w ?w'"
    using world_step.claim [of None "[]" False 0 ?w ?c ?s1 "[1]" 100 demo_sha] by simp
  have e: "?e \<in> set (effects (wdb ?w))" "ef_kind ?e \<noteq> Sheet_projection" "ef_status ?e = E_pending"
    by (simp_all add: demo_simps)
  from row_lifecycle [OF r st e(1,2)] e(3) obtain e' where e': "e' \<in> set (effects (wdb ?w'))" "ef_id e' = ef_id ?e"
    "lifecycle_edge ?e e'" by auto
  then have "e' = claim_row 0 ?e" by simp
  then have "e' \<noteq> ?e" by (auto simp: claim_row_def new_effect_def)
  with r st e e' show ?thesis by blast
qed

subsection \<open>A claim from check to result\<close>

text \<open>
  The worker's procedure for one claim is a path of the step relation: whatever
  transactions commit while its call is in flight, the database it leaves and the message it sends are
  those of the phases check, call and result in this order.
\<close>

theorem process_claimed_path:
  assumes others: "(db_step admins community sha)\<^sup>*\<^sup>* s (env s)" and reach: "may_reach outcome reached"
  shows "(world_step admins community sha)\<^sup>*\<^sup>*
    \<lparr>wdb = s, inflight = [(c, Ph_claimed)], reached_chat = sent\<rparr>
    \<lparr>wdb = snd (process_claimed community n c outcome sheet now env s), inflight = [],
     reached_chat = (if fst (process_claimed community n c outcome sheet now env s) \<noteq> [] \<and> reached
                     then cl_effect_id c # sent else sent)\<rparr>"
proof -
  let ?w = "\<lambda>s fl sent. \<lparr>wdb = s, inflight = fl, reached_chat = sent\<rparr>"
  let ?steps = "(world_step admins community sha)\<^sup>*\<^sup>*"
  have env: "?steps (?w s fl sent) (?w (env s) fl sent)" for fl sent
    using others
  proof (induction rule: rtranclp_induct)
    case (step y z)
    have "world_step admins community sha (?w y fl sent) (?w z fl sent)"
      using world_step.transaction [of admins community sha "?w y fl sent" z] step(2) by simp
    with step.IH show ?case by simp
  qed simp
  show ?thesis
  proof (cases "cl_error c")
    case (Some err)
    have "world_step admins community sha (?w s [(c, Ph_claimed)] sent)
        (?w (snd (mark_result c E_failed (Some (cp err)) now s)) [] sent)"
      using world_step.broken [of "?w s [(c, Ph_claimed)] sent" "[]" c "[]" err] Some by simp
    with Some show ?thesis by (simp add: process_claimed_def r_into_rtranclp)
  next
    case None
    have chk: "world_step admins community sha (?w s [(c, Ph_claimed)] sent)
        (?w s [(c, if claim_is_semantically_valid s c then Ph_valid else Ph_invalid)] sent)"
      using world_step.check [of "?w s [(c, Ph_claimed)] sent" "[]" c "[]"] None by simp
    consider (inv) "\<not> claim_is_semantically_valid s c" | (sh) "claim_is_semantically_valid s c" "cl_kind c = Sheet_projection"
      | (tg) "claim_is_semantically_valid s c" "cl_kind c \<noteq> Sheet_projection" by blast
    then show ?thesis
    proof cases
      case inv
      have "world_step admins community sha (?w (env s) [(c, Ph_invalid)] sent)
          (?w (snd (mark_delivery_failed c E_stale None now (env s))) [] sent)"
        using world_step.stale [of "?w (env s) [(c, Ph_invalid)] sent" "[]" c "[]"] by simp
      with chk env [of "[(c, Ph_invalid)]" sent] inv None show ?thesis
        by (simp add: process_claimed_def)
    next
      case sh
      have "world_step admins community sha (?w (env s) [(c, Ph_valid)] sent)
          (?w (case sheet of None \<Rightarrow> snd (mark_result c E_pending None now (env s))
                 | Some out \<Rightarrow> finish_sheet n c out now (env s)) [] sent)"
        using world_step.sheet [of "?w (env s) [(c, Ph_valid)] sent" "[]" c "[]",
            where r = sheet and max_attempts = n and now = now] sh(2) by (cases sheet) simp_all
      with chk env [of "[(c, Ph_valid)]" sent] sh None show ?thesis
        by (simp add: process_claimed_def)
    next
      case tg
      let ?sent = "if reached then cl_effect_id c # sent else sent"
      have "world_step admins community sha (?w s [(c, Ph_valid)] sent) (?w s [(c, Ph_called outcome)] ?sent)"
        using world_step.call [of "?w s [(c, Ph_valid)] sent" "[]" c "[]" outcome reached] tg(2) reach
        by (cases reached) simp_all
      moreover have "world_step admins community sha (?w (env s) [(c, Ph_called outcome)] ?sent)
          (?w (finish_send community n c outcome now (env s)) [] ?sent)"
        using world_step.finish [of "?w (env s) [(c, Ph_called outcome)] ?sent" "[]" c outcome "[]"] by simp
      ultimately have "?steps (?w s [(c, Ph_claimed)] sent) (?w (finish_send community n c outcome now (env s)) [] ?sent)"
        using chk env [of "[(c, Ph_called outcome)]" ?sent] tg(1)
        by (simp only: if_True)
      with tg None show ?thesis by (simp add: process_claimed_def)
    qed
  qed
qed

theorem process_claimed_path_witness:
  "\<exists>s c. (world_step [1] 100 demo_sha)\<^sup>*\<^sup>* \<lparr>wdb = s, inflight = [(c, Ph_claimed)], reached_chat = []\<rparr>
     \<lparr>wdb = snd (process_claimed 100 5 c (Send_ok 9) None 0 (\<lambda>s. s) s), inflight = [], reached_chat = []\<rparr>"
proof -
  have f: "fst (process_claimed 100 5 (broken_claim (new_effect 1 1 Candidate_card) ''x'') (Send_ok 9) None 0
      (\<lambda>s. s) empty_db) = []" by (simp add: process_claimed_def broken_claim_def)
  have "may_reach (Send_ok 9) True" by (simp add: may_reach_def)
  from process_claimed_path [OF rtranclp.rtrancl_refl this, where sent = "[]" and sheet = None and now = 0 and n = 5
      and c = "broken_claim (new_effect 1 1 Candidate_card) ''x''" and env = "\<lambda>s. s" and s = empty_db
      and community = 100 and admins = "[1]" and sha = demo_sha] f
  show ?thesis by auto
qed

subsection \<open>Vouching and deadlines under races\<close>

text \<open>
  C14. A vouch is all or nothing, whatever commits between the handler's check and its
  write.  Either the handler wrote nothing and did not thank the voucher, or it thanked a member of
  the chat who is not the applicant, the application was still open when it wrote, and the write
  moved exactly the open application, recorded the vouch and queued one invite for the applicant.
\<close>

theorem vouch_all_or_nothing:
  assumes "handle_vouch community from_user aid msg now env s = Inr (calls, s')"
  shows "(s' \<in> {s, env s} \<and> Answer Vouch_thanks \<notin> set calls) \<or>
    (\<exists>voucher v a. from_user = Some voucher \<and> user_get s voucher = Some v \<and> is_member v \<and>
       app_get s aid = Some a \<and> app_flow_kind a = Some Admission \<and> voucher \<noteq> app_user_id a \<and>
       list_ex (vouch_open aid) (applications (env s)) \<and>
       applications s' = map (\<lambda>b. if vouch_open aid b then vouch_update voucher (app_user_id a) now b else b)
         (applications (env s)) \<and>
       vouches s' = vouches (env s) @ [\<lparr>voucher_id = voucher, vouchee_id = app_user_id a, vl_application_id = aid\<rparr>] \<and>
       (\<exists>i. invites s' = invites (env s) @ [i] \<and> iv_application_id i = aid \<and> iv_user_id i = app_user_id a \<and>
          iv_status i = Iv_pending) \<and>
       users s' = users (env s) \<and> Answer Vouch_thanks \<in> set calls)"
  using assms
  by (auto simp: handle_vouch_def Let_def bindE_Inr_iff vouch_create_def update_where_def
      dest!: invite_create_ok split: option.splits if_splits)

theorem vouch_all_or_nothing_witness:
  "\<exists>calls s'. handle_vouch 100 (Some 1) 1 None 0 (\<lambda>s. s\<lparr>applications := []\<rparr>) (demo_pending []) = Inr (calls, s') \<and>
     s' \<in> {demo_pending [], (demo_pending [])\<lparr>applications := []\<rparr>} \<and> Answer Vouch_thanks \<notin> set calls"
proof -
  have run: "handle_vouch 100 (Some 1) 1 None 0 (\<lambda>s. s\<lparr>applications := []\<rparr>) (demo_pending []) =
      Inr ([Answer Already_processed], (demo_pending [])\<lparr>applications := []\<rparr>)"
    by (simp add: handle_vouch_def app_get_def user_get_def demo_simps Let_def)
  from vouch_all_or_nothing [OF run] run show ?thesis by auto
qed

definition overdue :: "application list \<Rightarrow> application \<Rightarrow> bool" where
  "overdue late a \<longleftrightarrow> status a = Pending \<and> app_id a \<in> app_id ` set late"

lemma reject_overdue_exact:
  "applications (snd (reject_overdue community now late s)) =
     map (\<lambda>a. if overdue late a then a\<lparr>status := Rejected, rejected_at := Some now\<rparr> else a) (applications s)"
proof (induction late arbitrary: s)
  case Nil
  show ?case by (simp add: overdue_def)
next
  case (Cons x late)
  let ?cas = "app_update_status_if (app_id x) Pending Rejected (\<lambda>b. b\<lparr>rejected_at := Some now\<rparr>) s"
  have apps: "applications (snd ?cas) = map (\<lambda>a. if app_id a = app_id x \<and> status a = Pending
      then a\<lparr>status := Rejected, rejected_at := Some now\<rparr> else a) (applications s)"
    by (simp add: app_update_status_if_def update_where_def)
  have "applications (snd (reject_overdue community now (x # late) s)) =
      applications (snd (reject_overdue community now late (snd ?cas)))"
    by (cases ?cas; cases "reject_overdue community now late (snd ?cas)") (auto simp: Let_def)
  then show ?case unfolding Cons.IH apps by (auto simp: overdue_def)
qed

text \<open>A nudge only stamps pending rows.\<close>

definition stamps :: "application list \<Rightarrow> application list \<Rightarrow> bool" where
  "stamps xs ys \<longleftrightarrow> list_all2 (\<lambda>a b. app_id b = app_id a \<and> status b = status a \<and> (status a = Pending \<or> b = a)) xs ys"

lemma stamps_refl [simp]: "stamps xs xs"
  by (simp add: stamps_def list_all2_same)

lemma stamps_trans: "stamps xs ys \<Longrightarrow> stamps ys zs \<Longrightarrow> stamps xs zs"
  unfolding stamps_def by (rule list_all2_trans) auto

lemma stamps_map:
  "(\<And>a. app_id (f a) = app_id a \<and> status (f a) = status a \<and> (status a = Pending \<or> f a = a)) \<Longrightarrow> stamps xs (map f xs)"
  by (simp add: stamps_def list_all2_map2 list_all2_same)

lemma stamps_nudge: "stamps (applications s) (applications (snd (nudge_pending ads now as s)))"
proof (induction as arbitrary: s)
  case (Cons a as)
  have cas: "stamps (applications s) (applications (snd (app_update_status_if aid Pending Pending x s)))"
    if "\<And>b. app_id (x b) = app_id b \<and> status (x b) = status b" for aid x s
    using that by (auto simp: app_update_status_if_def update_where_def intro!: stamps_map split: if_splits)
  obtain c1 ok s1 where s1: "nudge_newcomer now a s = (c1, ok, s1)" by (metis prod_cases3)
  obtain c2 s2 where s2: "(if ok then notify_admins ads now a s1 else ([], s1)) = (c2, s2)" by fastforce
  have "stamps (applications s) (applications s1)"
    using s1 cas [of "\<lambda>b. b\<lparr>nudged_newcomer_at := Some now\<rparr>" s "app_id a"]
    by (auto simp: nudge_newcomer_def prod_eq_iff split: if_splits)
  moreover have "stamps (applications s1) (applications s2)"
    using s2 cas [of "\<lambda>b. b\<lparr>notified_admin_at := Some now\<rparr>" s1 "app_id a"]
    by (auto simp: notify_admins_def prod_eq_iff split: if_splits)
  ultimately have "stamps (applications s) (applications (snd (nudge_pending ads now as s2)))"
    using Cons.IH stamps_trans by blast
  then show ?case using s1 s2 Cons.IH by (auto simp: Let_def split: prod.split)
qed simp

text \<open>
  The deadline job rejects exactly the applications that are past the deadline and
  still pending when it writes: an application that was vouched for in the meantime, or has any other
  status, keeps every column, and no pending application in time is rejected.
\<close>

theorem deadlines_exact:
  "list_all2 (\<lambda>a b. app_id b = app_id a \<and>
       status b = (if overdue (get_pending_older_than s now vh) a then Rejected else status a) \<and>
       (status a = Pending \<or> b = a))
     (applications (env s))
     (applications (snd (check_vouch_deadlines admins community vh nh now env (\<lambda>s. s) s)))"
proof -
  let ?late = "get_pending_older_than s now vh"
  let ?s1 = "snd (reject_overdue community now ?late (env s))"
  have "applications ?s1 = map (\<lambda>a. if overdue ?late a
      then a\<lparr>status := Rejected, rejected_at := Some now\<rparr> else a) (applications (env s))"
    by (rule reject_overdue_exact)
  then have one: "list_all2 (\<lambda>a b. app_id b = app_id a \<and> status b = (if overdue ?late a then Rejected else status a) \<and>
      (status a = Pending \<or> b = a)) (applications (env s)) (applications ?s1)"
    by (simp add: list_all2_map2 list_all2_same overdue_def)
  have "applications (snd (check_vouch_deadlines admins community vh nh now env (\<lambda>s. s) s)) =
      applications (snd (nudge_pending admins now (get_pending_created_older_than ?s1 now nh) ?s1))"
    by (simp add: check_vouch_deadlines_def Let_def split: prod.split)
  with stamps_nudge [of ?s1 admins now] have two: "stamps (applications ?s1)
      (applications (snd (check_vouch_deadlines admins community vh nh now env (\<lambda>s. s) s)))" by simp
  show ?thesis
    by (rule list_all2_trans [OF _ one two [unfolded stamps_def]]) (auto simp: overdue_def split: if_splits)
qed

subsection \<open>The message limit\<close>

lemma length_escape: "length (html_escape v) \<le> 6 * length v"
proof (induction v)
  case (Cons c v)
  have "length (escape_char c) \<le> 6" by (simp add: escape_char_def cp_def)
  with Cons.IH show ?case by simp
qed simp

text \<open>
  C37. With the names Telegram allows (64 characters for a first name, 32 letters,
  digits and underscores for a username) every message of the outbox fits the limit of 4096
  characters: the limit of the block leaves room for the longest header in its escaped form.
\<close>

theorem message_fits:
  assumes block: "render_intro_html values cv = Inr (cl_html c)"
    and names: "length (cl_first_name c) \<le> 64" "length (cl_voucher_name c) \<le> 64"
    and uname: "\<And>u. cl_username c = Some u \<Longrightarrow> length u \<le> 32 \<and> list_all username_char u"
  shows "length (pl_text (telegram_payload community c)) \<le> 4096"
proof -
  have body: "length (cl_html c) \<le> 3260"
    using block by (auto simp: render_intro_html_def Let_def frozen_intro_body_limit_def bindE_Inr_iff
        split: if_splits option.splits)
  have plain: "username_char x \<Longrightarrow> escape_char x = [x]" for x by (auto simp: username_char_def escape_char_def)
  have "list_all username_char u \<Longrightarrow> html_escape u = u" for u
    by (induction u) (simp_all add: plain)
  then have u: "length (html_escape (case cl_username c of None \<Rightarrow> [] | Some u \<Rightarrow> u)) \<le> 32"
    using uname by (cases "cl_username c") auto
  have n: "length (html_escape (cl_first_name c)) \<le> 384" "length (html_escape (cl_voucher_name c)) \<le> 384"
    using length_escape [of "cl_first_name c"] length_escape [of "cl_voucher_name c"] names by linarith+
  show ?thesis
    using body u n
    by (simp add: telegram_payload_def identity_def card_header_def new_member_header_def
        vouched_by_header_def refresh_header_def member_header_def cp_def)
qed

theorem message_fits_witness:
  "length (pl_text (telegram_payload 100 \<lparr>cl_effect_id = 2, cl_attempt = 1, cl_application_id = 1,
     cl_kind = Admission_intro, cl_user_id = 7, cl_html = demo_html, cl_first_name = cp ''Ann'', cl_answers = [],
     cl_username = Some (cp ''ann_7''), cl_voucher_name = cp ''Ann'', cl_error = None\<rparr>)) \<le> 4096"
  by (rule message_fits [of sample_inputs "''intro-v2''"])
    (simp_all add: sample_inputs_render demo_html_def cp_def username_char_def)

subsection \<open>Reconciliation\<close>

lemma is_ok_bindE: "is_ok (bindE r f) \<longleftrightarrow> (\<exists>x. r = Inr x \<and> is_ok (f x))"
  by (cases r) simp_all

text \<open>
  The operator's reconciliation is accepted exactly when a reason of at most 500
  characters is given, the operator is an admin, the evidence is a message of the community chat (for a
  delivery found) or a SHA-256 digest (for a delivery found absent), and the row is a Telegram row of
  unknown outcome; and a retry makes the row pending, keeps its attempt number and records the order.
\<close>

theorem retry_exact:
  assumes ids: "distinct (map ef_id (effects s))"
  shows "(is_ok (reconcile_intro_effect admins community eid Retry_absent chat msg evidence operator reason now s) \<longleftrightarrow>
      1 \<le> length (py_strip reason) \<and> length (py_strip reason) \<le> 500 \<and>
      (\<exists>u. user_get s operator = Some u \<and> (operator \<in> set admins \<or> is_admin u)) \<and>
      chat = None \<and> msg = None \<and> (\<exists>h. evidence = Some h \<and> is_hex_digest h) \<and>
      (\<exists>e \<in> set (effects s). ef_id e = eid \<and> ef_status e = E_unknown \<and> attempt_count e > 0 \<and>
         ef_kind e \<noteq> Sheet_projection)) \<and>
    (\<forall>s'. reconcile_intro_effect admins community eid Retry_absent chat msg evidence operator reason now s = Inr s' \<longrightarrow>
      (\<forall>e \<in> set (effects s'). ef_id e = eid \<longrightarrow> ef_status e = E_pending) \<and>
      map attempt_count (effects s') = map attempt_count (effects s) \<and> retries s' eid = retries s eid + 1)"
proof (intro conjI allI impI)
  have f: "(\<exists>e. fetch ef_id eid (effects s) = Some e \<and> P e) \<longleftrightarrow> (\<exists>e \<in> set (effects s). ef_id e = eid \<and> P e)" for P
    using eff.get_iff [OF ids] by blast
  have op: "(case user_get s operator of None \<Rightarrow> False | Some u \<Rightarrow> operator \<in> set admins \<or> is_admin u) \<longleftrightarrow>
      (\<exists>u. user_get s operator = Some u \<and> (operator \<in> set admins \<or> is_admin u))"
    by (cases "user_get s operator") simp_all
  have ev: "reconcile_inputs_ok community Retry_absent chat msg evidence \<longleftrightarrow>
      chat = None \<and> msg = None \<and> (\<exists>h. evidence = Some h \<and> is_hex_digest h)"
    by (cases evidence) (simp_all add: reconcile_inputs_ok_def)
  show "is_ok (reconcile_intro_effect admins community eid Retry_absent chat msg evidence operator reason now s) \<longleftrightarrow>
      1 \<le> length (py_strip reason) \<and> length (py_strip reason) \<le> 500 \<and>
      (\<exists>u. user_get s operator = Some u \<and> (operator \<in> set admins \<or> is_admin u)) \<and>
      chat = None \<and> msg = None \<and> (\<exists>h. evidence = Some h \<and> is_hex_digest h) \<and>
      (\<exists>e \<in> set (effects s). ef_id e = eid \<and> ef_status e = E_unknown \<and> attempt_count e > 0 \<and>
         ef_kind e \<noteq> Sheet_projection)"
    unfolding f [symmetric] reconcile_intro_effect_def Let_def is_ok_bindE op ev by simp
next
  fix s' assume r: "reconcile_intro_effect admins community eid Retry_absent chat msg evidence operator reason now s = Inr s'"
  have "\<exists>rc. s' = (effect_update eid (\<lambda>e. e\<lparr>ef_status := E_pending, ef_last_error := None\<rparr>) s)
      \<lparr>reconciliations := reconciliations s @ [rc]\<rparr> \<and> rc_effect_id rc = eid \<and> rc_action rc = Retry_absent"
    using r
  proof (rule reconcile_ok)
    fix e :: intro_effect and s2
    let ?rc = "\<lparr>rc_effect_id = eid, rc_attempt_count = attempt_count e, rc_action = Retry_absent,
          rc_reason = py_strip reason, rc_evidence = evidence, rc_chat_id = chat,
          rc_message_id = msg, rc_operator = operator\<rparr>"
    assume w: "(Retry_absent = Retry_absent \<and>
        s2 = effect_update eid (\<lambda>e. e\<lparr>ef_status := E_pending, ef_last_error := None\<rparr>) s) \<or>
      (Retry_absent = Record_sent \<and> (\<exists>c. snapshot_claim (effect_update eid (\<lambda>e. e\<lparr>ef_status := E_processing\<rparr>) s)
          (e\<lparr>ef_status := E_processing\<rparr>) = Inr c \<and>
        finalize_telegram_success c (the chat) (the msg) now
          (effect_update eid (\<lambda>e. e\<lparr>ef_status := E_processing\<rparr>) s) = Inr (True, s2)))"
      and s': "s' = s2\<lparr>reconciliations := reconciliations s2 @ [?rc]\<rparr>"
    from w have s2: "s2 = effect_update eid (\<lambda>e. e\<lparr>ef_status := E_pending, ef_last_error := None\<rparr>) s" by simp
    have rs: "reconciliations s2 = reconciliations s" unfolding s2 by (simp add: effect_update_def)
    have "s' = (effect_update eid (\<lambda>e. e\<lparr>ef_status := E_pending, ef_last_error := None\<rparr>) s)
        \<lparr>reconciliations := reconciliations s @ [?rc]\<rparr>"
      using s' unfolding rs unfolding s2 by assumption
    moreover have "rc_effect_id ?rc = eid" "rc_action ?rc = Retry_absent" by simp_all
    ultimately show ?thesis by (intro exI [of _ ?rc] conjI)
  qed
  then obtain rc where s': "s' = (effect_update eid (\<lambda>e. e\<lparr>ef_status := E_pending, ef_last_error := None\<rparr>) s)
      \<lparr>reconciliations := reconciliations s @ [rc]\<rparr>" "rc_effect_id rc = eid" "rc_action rc = Retry_absent" by blast
  let ?f = "\<lambda>e :: intro_effect. e\<lparr>ef_status := E_pending, ef_last_error := None\<rparr>"
  have es: "effects s' = update_where (\<lambda>e. ef_id e = eid) ?f (effects s)"
    and rs: "reconciliations s' = reconciliations s @ [rc]" unfolding s'(1) by (simp_all add: effect_update_def)
  show "\<forall>e \<in> set (effects s'). ef_id e = eid \<longrightarrow> ef_status e = E_pending"
  proof (intro ballI impI)
    fix e assume "e \<in> set (effects s')" "ef_id e = eid"
    then show "ef_status e = E_pending" unfolding es set_update_where by (elim imageE) (simp split: if_splits)
  qed
  show "map attempt_count (effects s') = map attempt_count (effects s)"
    unfolding es by (rule map_update_where) simp
  show "retries s' eid = retries s eid + 1" by (simp add: rs s'(2,3) retries_def)
qed

definition lost_db :: db where
  "lost_db = (demo_published [])\<lparr>effects := [(demo_sent_row 2 Admission_intro 51)\<lparr>ef_status := E_unknown\<rparr>]\<rparr>"

theorem retry_exact_witness:
  "is_ok (reconcile_intro_effect [1] 100 2 Retry_absent None None (Some (replicate 64 CHR ''a'')) 1 (cp ''lost'') 0 lost_db)"
proof -
  have ids: "distinct (map ef_id (effects lost_db))" by (simp add: lost_db_def)
  have "py_strip (cp ''lost'') = cp ''lost''" "length (cp ''lost'') = 4"
    by (simp_all add: py_strip_def strip_by_def cp_def py_isspace_def)
  moreover have "is_hex_digest (replicate 64 CHR ''a'')" by (simp add: is_hex_digest_def list_all_iff)
  moreover have "\<exists>u. user_get lost_db 1 = Some u \<and> (1 \<in> set [1 :: int] \<or> is_admin u)"
    by (simp add: user_get_def lost_db_def demo_simps)
  moreover have "\<exists>e \<in> set (effects lost_db). ef_id e = 2 \<and> ef_status e = E_unknown \<and> attempt_count e > 0 \<and>
      ef_kind e \<noteq> Sheet_projection" by (simp add: lost_db_def demo_sent_row_def)
  ultimately show ?thesis
    using retry_exact [OF ids, THEN conjunct1, THEN iffD2, of "cp ''lost''" 1 "[1]" None None
        "Some (replicate 64 CHR ''a'')" 2 100 0] by simp
qed

end
