(* ===== verification/ButlerModels.thy ===== *)
theory ButlerModels
  imports IntroModels
begin

section \<open>The tables and repositories of the butler\<close>

text \<open>
  The rows of \<open>ButlerAction\<close>, \<open>ButlerActionConfirmation\<close>, \<open>ButlerToolInvocation\<close>,
  \<open>ButlerUndoInvocation\<close> and \<open>ButlerRateBucket\<close> (bot/db/models.py) with their CHECK constraints, and the
  operations of their repositories (bot/db/repos/butler_*.py).  Times are seconds in UTC.  A method
  that can raise returns a result with the session's state, because a handler that catches the
  exception commits what was written before it.
\<close>

subsection \<open>Values and rows\<close>

datatype json = J_null | J_bool bool | J_int int | J_str ustr | J_arr "json list" | J_obj "(string \<times> json) list"

text \<open>\<open>dict.get(key)\<close>.\<close>

definition json_get :: "string \<Rightarrow> json \<Rightarrow> json option" where
  "json_get k j = (case j of J_obj kvs \<Rightarrow> (case map_of kvs k of Some J_null \<Rightarrow> None | v \<Rightarrow> v) | _ \<Rightarrow> None)"

datatype ba_status =
  BA_requested | BA_evidence_loaded | BA_planned | BA_pending_confirmation | BA_confirmed | BA_executing
| BA_succeeded | BA_undone | BA_undo_pending | BA_undo_succeeded | BA_undo_failed | BA_rejected
| BA_expired | BA_execution_failed | BA_cancelled

datatype rollback_kind = Delete_message_op | Edit_message_op | Followup_correction | Cancel_pending | Not_reversible

datatype risk_level = Risk_low | Risk_medium | Risk_high

datatype visibility = V_member | V_admin | V_self

record plan_step =
  st_tool :: string
  st_args :: json
  st_affected :: "int list"
  st_risk :: risk_level
  st_rollback :: rollback_kind

record butler_plan =
  bp_summary :: ustr
  bp_evidence_ids :: "int list"
  bp_actions :: "plan_step list"
  bp_gov :: string

record butler_action =
  ba_id :: int
  ba_requester :: int
  ba_chat :: int
  ba_type :: string
  ba_status :: ba_status
  ba_tool :: string
  ba_gov :: string
  ba_hash :: string
  ba_evidence_ids :: "int list"
  ba_summary :: ustr
  ba_args :: json
  ba_args_hash :: string
  ba_query :: ustr
  ba_scope :: visibility
  ba_plan :: "butler_plan option"
  ba_inverse :: "json option"
  ba_rollback :: rollback_kind
  ba_risk :: risk_level
  ba_expires :: "int option"
  ba_confirmed_at :: "int option"
  ba_executed_at :: "int option"
  ba_undone_at :: "int option"
  ba_rejection :: "string option"
  ba_error :: "ustr option"
  ba_ledger :: "int option"

datatype conf_role = Role_requester | Role_affected_user | Role_admin | Role_rollback_requester

datatype conf_status = C_pending | C_confirmed | C_rejected | C_expired | C_cancelled | C_revoked

record confirmation =
  bc_id :: int
  bc_action :: int
  bc_confirmer :: int
  bc_role :: conf_role
  bc_status :: conf_status
  bc_preview :: string
  bc_expires :: int
  bc_token :: string
  bc_confirmed_at :: "int option"
  bc_rejected_at :: "int option"

datatype inv_status = I_pending | I_running | I_succeeded | I_failed | I_rolled_back

record invocation =
  bi_id :: int
  bi_action :: int
  bi_tool :: string
  bi_seq :: nat
  bi_key :: string
  bi_args :: json
  bi_request_hash :: string
  bi_status :: inv_status
  bi_response :: "json option"
  bi_response_hash :: "string option"
  bi_finished_at :: "int option"
  bi_error :: "ustr option"
  bi_posted :: "int option"
  bi_inverse :: "json option"

datatype undo_status = U_pending | U_succeeded | U_failed | U_skipped

record undo_row =
  bu_id :: int
  bu_action :: int
  bu_invocation :: int
  bu_requester :: int
  bu_rollback :: rollback_kind
  bu_status :: undo_status
  bu_error_kind :: "string option"
  bu_error_message :: "string option"

text \<open>
  The key of a bucket is the Moscow calendar day or hour it counts, printed with \<open>strftime\<close>; here it is
  the number of that day or hour since the epoch.
\<close>

datatype bucket_key = Day_key int | Hour_key int

record bucket =
  rb_kind :: string
  rb_scope :: int
  rb_key :: bucket_key
  rb_start :: int
  rb_end :: int
  rb_count :: int
  rb_ceiling :: int

record ledger_row =
  lu_id :: int
  lu_call_type :: string
  lu_cost :: int
  lu_created :: int

text \<open>Calls made to tools and to the bot, in order: what has happened outside the database.\<close>

record tool_call =
  tc_action :: int
  tc_seq :: nat
  tc_tool :: string

datatype undo_call = Undo_delete json json | Undo_edit json json ustr

record bdb =
  b_actions :: "butler_action list"
  b_confs :: "confirmation list"
  b_invs :: "invocation list"
  b_undos :: "undo_row list"
  b_buckets :: "bucket list"
  b_ledger :: "ledger_row list"
  b_next_action :: int
  b_next_conf :: int
  b_next_inv :: int
  b_next_undo :: int
  tool_calls :: "tool_call list"
  undo_calls :: "(int \<times> int \<times> undo_call) list"

subsection \<open>Results\<close>

text \<open>
  \<open>Butler_error\<close> is \<open>ButlerActionError\<close> and its subclasses, by their \<open>error_kind\<close>; \<open>Plan_error\<close> is
  \<open>ButlerPlanError\<close>; \<open>Db_error\<close> is a violated constraint or a missing row; \<open>Evidence_error\<close> is whatever
  the evidence builder raises.
\<close>

datatype butler_error =
  Butler_error string | Plan_error string | Db_error string | Evidence_error string

type_synonym 'a butler = "bdb \<Rightarrow> (butler_error + 'a) \<times> bdb"

definition bindB :: "'a butler \<Rightarrow> ('a \<Rightarrow> 'b butler) \<Rightarrow> 'b butler" where
  "bindB m f s = (case m s of (Inl e, s1) \<Rightarrow> (Inl e, s1) | (Inr x, s1) \<Rightarrow> f x s1)"

definition returnB :: "'a \<Rightarrow> 'a butler" where "returnB x s = (Inr x, s)"

definition raiseB :: "string \<Rightarrow> 'a butler" where "raiseB kind s = (Inl (Butler_error kind), s)"

definition dbErrorB :: "string \<Rightarrow> 'a butler" where "dbErrorB name s = (Inl (Db_error name), s)"

definition modifyB :: "(bdb \<Rightarrow> bdb) \<Rightarrow> unit butler" where "modifyB f s = (Inr (), f s)"

definition getB :: "(bdb \<Rightarrow> 'a) \<Rightarrow> 'a butler" where "getB f s = (Inr (f s), s)"

subsection \<open>The CHECK constraints\<close>

definition allowed_butler_tools :: "string list" where
  "allowed_butler_tools = [''recall_evidence'', ''schedule_meeting'', ''send_intro'', ''update_intro'',
     ''suggest_card_creation'']"

definition action_types :: "string list" where
  "action_types = [''meeting'', ''intro'', ''intro_update'', ''card_suggestion'', ''recall'']"

definition ck_butler_action :: "butler_action \<Rightarrow> bool" where
  "ck_butler_action a \<longleftrightarrow>
     ba_tool a \<in> set allowed_butler_tools \<and> ba_type a \<in> set action_types \<and>
     (ba_status a \<notin> {BA_succeeded, BA_undo_pending, BA_undo_succeeded} \<or>
        ba_inverse a \<noteq> None \<or> ba_rollback a = Not_reversible) \<and>
     (ba_status a \<in> {BA_rejected, BA_expired, BA_cancelled} \<or> ba_ledger a \<noteq> None)"

definition bucket_kinds :: "string list" where
  "bucket_kinds = [''user_plans_day'', ''user_execs_day'', ''chat_actions_day''] @
     map (\<lambda>t. ''tool_hour:'' @ t) allowed_butler_tools"

definition ck_bucket :: "bucket \<Rightarrow> bool" where
  "ck_bucket b \<longleftrightarrow> rb_kind b \<in> set bucket_kinds \<and> rb_start b < rb_end b \<and>
     0 \<le> rb_count b \<and> rb_count b \<le> rb_ceiling b \<and> 0 < rb_ceiling b"

subsection \<open>ButlerActionRepo\<close>

definition action_create :: "butler_action \<Rightarrow> butler_action butler" where
  "action_create r s =
     (let a = r\<lparr>ba_id := b_next_action s\<rparr>
      in if ck_butler_action a
         then (Inr a, s\<lparr>b_actions := b_actions s @ [a], b_next_action := b_next_action s + 1\<rparr>)
         else (Inl (Db_error ''ck_butler_actions''), s))"

definition action_get :: "bdb \<Rightarrow> int \<Rightarrow> butler_action option" where
  "action_get s aid = fetch ba_id aid (b_actions s)"

text \<open>\<open>update_status\<close>: the new status and the columns given, subject to the constraints of the row.\<close>

definition action_update_status ::
  "int \<Rightarrow> ba_status \<Rightarrow> (butler_action \<Rightarrow> butler_action) \<Rightarrow> unit butler" where
  "action_update_status aid st extra s =
     (case action_get s aid of
        None \<Rightarrow> (Inl (Db_error ''ButlerAction not found''), s)
      | Some a \<Rightarrow>
          if ck_butler_action (extra (a\<lparr>ba_status := st\<rparr>))
          then (Inr (), s\<lparr>b_actions := update_where (\<lambda>a. ba_id a = aid)
                  (\<lambda>a. extra (a\<lparr>ba_status := st\<rparr>)) (b_actions s)\<rparr>)
          else (Inl (Db_error ''ck_butler_actions''), s))"

definition reject_reason :: "string \<Rightarrow> butler_action \<Rightarrow> butler_action" where
  "reject_reason r a = a\<lparr>ba_rejection := Some r\<rparr>"

definition get_pending_past_ttl :: "bdb \<Rightarrow> int \<Rightarrow> nat \<Rightarrow> butler_action list" where
  "get_pending_past_ttl s now lim = take lim (sort_key (\<lambda>a. coalesce (ba_expires a) 0)
     (filter (\<lambda>a. ba_status a = BA_pending_confirmation \<and>
        (case ba_expires a of None \<Rightarrow> False | Some t \<Rightarrow> t \<le> now)) (b_actions s)))"

subsection \<open>ButlerActionConfirmationRepo\<close>

definition conf_create ::
  "int \<Rightarrow> int \<Rightarrow> conf_role \<Rightarrow> string \<Rightarrow> int \<Rightarrow> string \<Rightarrow> unit butler" where
  "conf_create aid uid role preview expires token s =
     (if list_ex (\<lambda>c. bc_token c = token) (b_confs s)
      then (Inl (Db_error ''uq_butler_action_confirmations_token''), s)
      else (Inr (), s\<lparr>b_confs := b_confs s @
          [\<lparr>bc_id = b_next_conf s, bc_action = aid, bc_confirmer = uid, bc_role = role, bc_status = C_pending,
            bc_preview = preview, bc_expires = expires, bc_token = token, bc_confirmed_at = None,
            bc_rejected_at = None\<rparr>],
        b_next_conf := b_next_conf s + 1\<rparr>))"

definition conf_resolve :: "int \<Rightarrow> conf_status \<Rightarrow> int \<Rightarrow> unit butler" where
  "conf_resolve cid st now s =
     (if \<not> list_ex (\<lambda>c. bc_id c = cid) (b_confs s)
      then (Inl (Db_error ''ButlerActionConfirmation not found''), s)
      else (Inr (), s\<lparr>b_confs := update_where (\<lambda>c. bc_id c = cid)
        (\<lambda>c. c\<lparr>bc_status := st,
               bc_confirmed_at := (if st = C_confirmed then Some now else bc_confirmed_at c),
               bc_rejected_at := (if st = C_rejected then Some now else bc_rejected_at c)\<rparr>) (b_confs s)\<rparr>))"

definition confs_of :: "bdb \<Rightarrow> int \<Rightarrow> confirmation list" where
  "confs_of s aid = filter (\<lambda>c. bc_action c = aid) (b_confs s)"

text \<open>\<open>scalar_one_or_none\<close>: at most one row is expected, several raise.\<close>

definition conf_for_user :: "int \<Rightarrow> int \<Rightarrow> confirmation option butler" where
  "conf_for_user aid uid s =
     (case filter (\<lambda>c. bc_action c = aid \<and> bc_confirmer c = uid) (b_confs s) of
        [] \<Rightarrow> (Inr None, s)
      | [c] \<Rightarrow> (Inr (Some c), s)
      | _ \<Rightarrow> (Inl (Db_error ''MultipleResultsFound''), s))"

definition confs_mark_all :: "int \<Rightarrow> conf_status \<Rightarrow> unit butler" where
  "confs_mark_all aid st = modifyB (\<lambda>s. s\<lparr>b_confs :=
     update_where (\<lambda>c. bc_action c = aid \<and> bc_status c = C_pending) (\<lambda>c. c\<lparr>bc_status := st\<rparr>) (b_confs s)\<rparr>)"

subsection \<open>ButlerToolInvocationRepo\<close>

definition inv_create :: "int \<Rightarrow> string \<Rightarrow> nat \<Rightarrow> string \<Rightarrow> json \<Rightarrow> string \<Rightarrow> int butler" where
  "inv_create aid tool seq key args hash s =
     (if tool \<notin> set allowed_butler_tools then (Inl (Db_error ''ck_butler_tool_invocations_tool_name''), s)
      else if seq < 1 then (Inl (Db_error ''ck_butler_tool_invocations_seq_positive''), s)
      else if list_ex (\<lambda>i. bi_key i = key) (b_invs s) then (Inl (Db_error ''idempotency_key''), s)
      else (Inr (b_next_inv s), s\<lparr>b_invs := b_invs s @
          [\<lparr>bi_id = b_next_inv s, bi_action = aid, bi_tool = tool, bi_seq = seq, bi_key = key, bi_args = args,
            bi_request_hash = hash, bi_status = I_running, bi_response = None, bi_response_hash = None,
            bi_finished_at = None, bi_error = None, bi_posted = None, bi_inverse = None\<rparr>],
        b_next_inv := b_next_inv s + 1\<rparr>))"

definition inv_update :: "int \<Rightarrow> (invocation \<Rightarrow> invocation) \<Rightarrow> unit butler" where
  "inv_update iid f s =
     (if \<not> list_ex (\<lambda>i. bi_id i = iid) (b_invs s) then (Inl (Db_error ''ButlerToolInvocation not found''), s)
      else (Inr (), s\<lparr>b_invs := update_where (\<lambda>i. bi_id i = iid) f (b_invs s)\<rparr>))"

definition invs_of :: "bdb \<Rightarrow> int \<Rightarrow> invocation list" where
  "invs_of s aid = filter (\<lambda>i. bi_action i = aid) (b_invs s)"

subsection \<open>ButlerUndoInvocationRepo\<close>

definition undo_find :: "bdb \<Rightarrow> int \<Rightarrow> int \<Rightarrow> undo_row option" where
  "undo_find s aid iid = List.find (\<lambda>u. bu_action u = aid \<and> bu_invocation u = iid) (b_undos s)"

definition undo_create :: "int \<Rightarrow> int \<Rightarrow> int \<Rightarrow> rollback_kind \<Rightarrow> undo_row butler" where
  "undo_create aid iid uid kind s =
     (if undo_find s aid iid \<noteq> None
      then (Inl (Db_error ''uq_butler_undo_invocations_action_invocation''), s)
      else let u = \<lparr>bu_id = b_next_undo s, bu_action = aid, bu_invocation = iid, bu_requester = uid,
             bu_rollback = kind, bu_status = U_pending, bu_error_kind = None, bu_error_message = None\<rparr>
        in (Inr u, s\<lparr>b_undos := b_undos s @ [u], b_next_undo := b_next_undo s + 1\<rparr>))"

definition undo_update :: "int \<Rightarrow> undo_status \<Rightarrow> string option \<Rightarrow> string option \<Rightarrow> unit butler" where
  "undo_update uid st ek em s =
     (if \<not> list_ex (\<lambda>u. bu_id u = uid) (b_undos s) then (Inl (Db_error ''ButlerUndoInvocation not found''), s)
      else (Inr (), s\<lparr>b_undos := update_where (\<lambda>u. bu_id u = uid)
        (\<lambda>u. u\<lparr>bu_status := st, bu_error_kind := ek, bu_error_message := em\<rparr>) (b_undos s)\<rparr>))"

subsection \<open>ButlerRateBucketRepo\<close>

definition bucket_at :: "string \<Rightarrow> int \<Rightarrow> bucket_key \<Rightarrow> bucket \<Rightarrow> bool" where
  "bucket_at kind scope key b \<longleftrightarrow> rb_kind b = kind \<and> rb_scope b = scope \<and> rb_key b = key"

text \<open>\<open>INSERT .. ON CONFLICT DO UPDATE .. WHERE count < ceiling RETURNING\<close>.\<close>

definition try_increment ::
  "string \<Rightarrow> int \<Rightarrow> bucket_key \<Rightarrow> int \<times> int \<Rightarrow> int \<Rightarrow> bool butler" where
  "try_increment kind scope key window ceiling s =
     (let new = \<lparr>rb_kind = kind, rb_scope = scope, rb_key = key, rb_start = fst window, rb_end = snd window,
                 rb_count = 1, rb_ceiling = ceiling\<rparr>
      in if \<not> ck_bucket new then (Inl (Db_error ''ck_butler_rate_buckets''), s)
      else case List.find (bucket_at kind scope key) (b_buckets s) of
        None \<Rightarrow> (Inr True, s\<lparr>b_buckets := b_buckets s @ [new]\<rparr>)
      | Some b \<Rightarrow>
          if rb_count b < rb_ceiling b
          then (Inr True, s\<lparr>b_buckets := update_where (bucket_at kind scope key)
                  (\<lambda>b. b\<lparr>rb_count := rb_count b + 1\<rparr>) (b_buckets s)\<rparr>)
          else (Inr False, s))"

definition decrement :: "string \<Rightarrow> int \<Rightarrow> bucket_key \<Rightarrow> bdb \<Rightarrow> bdb" where
  "decrement kind scope key s =
     s\<lparr>b_buckets := update_where (bucket_at kind scope key) (\<lambda>b. b\<lparr>rb_count := max 0 (rb_count b - 1)\<rparr>)
        (b_buckets s)\<rparr>"

subsection \<open>Moscow days and hours, and the budget (services/butler_budget.py)\<close>

definition msk_day :: "int \<Rightarrow> int" where "msk_day t = (t + 3 * 3600) div 86400"

definition msk_day_window :: "int \<Rightarrow> int \<times> int" where
  "msk_day_window t = (let start = msk_day t * 86400 in (start - 3 * 3600, start + 86400 - 3 * 3600))"

definition msk_hour :: "int \<Rightarrow> int" where "msk_hour t = (t + 3 * 3600) div 3600"

definition msk_hour_window :: "int \<Rightarrow> int \<times> int" where
  "msk_hour_window t = (let start = msk_hour t * 3600 in (start - 3 * 3600, start + 3600 - 3 * 3600))"

text \<open>
  The sum over the join of ledger rows and actions: a ledger row counts once per action that
  references it.  Costs are whole micro-dollars.
\<close>

definition daily_spend :: "bdb \<Rightarrow> int \<Rightarrow> int \<Rightarrow> int" where
  "daily_spend s uid now =
     (let (day_start, day_end) = msk_day_window now
      in sum_list (map (\<lambda>(l, a). lu_cost l)
           (filter (\<lambda>(l, a). ba_ledger a = Some (lu_id l) \<and> ba_requester a = uid \<and>
               lu_call_type l \<in> {''butler_decision'', ''butler_summary''} \<and>
               day_start \<le> lu_created l \<and> lu_created l < day_end)
             (List.product (b_ledger s) (b_actions s)))))"

definition is_user_daily_exceeded :: "int \<Rightarrow> bdb \<Rightarrow> int \<Rightarrow> int \<Rightarrow> bool" where
  "is_user_daily_exceeded ceiling s uid now \<longleftrightarrow> daily_spend s uid now \<ge> ceiling"

end
