(* ===== verification/Butler.thy ===== *)
theory Butler
  imports ButlerModels
begin

section \<open>The butler's state machine (bot/services/butler.py)\<close>

text \<open>
  The transitions of an action: planned by the language model from evidence, confirmed by its requester
  and by every user it affects, executed tool by tool, undone, cancelled, revoked or expired.  What the
  service is given (users, the evidence builder, the planning gateway, the tools, the bot) is the record
  \<open>butler_env\<close>; the clock is an argument.  A method raises with the state it has written so far.
\<close>

subsection \<open>The collaborators\<close>

record evidence_ctx =
  ev_abstained :: bool
  ev_gov :: string
  ev_hash :: string

text \<open>
  The gateway writes ledger rows and returns a plan with the number of its ledger row, or fails with an
  \<open>error_kind\<close> and perhaps a ledger row.
\<close>

record gateway_result =
  gw_ledger :: "ledger_row list"
  gw_plan :: "(string \<times> int option) + butler_plan \<times> int"

datatype tool_outcome = Tool_raises ustr | Tool_result bool json "ustr option"

text \<open>What a tool does with its arguments, and the payload its \<open>build_inverse\<close> returns, if it does.\<close>

record butler_tool =
  tool_run :: "evidence_ctx \<Rightarrow> nat \<Rightarrow> json \<Rightarrow> tool_outcome"
  tool_inverse :: "json \<Rightarrow> json option"

record butler_env =
  env_user :: "int \<Rightarrow> user option"
  env_evidence :: "int \<Rightarrow> ustr \<Rightarrow> int option \<Rightarrow> visibility \<Rightarrow> string + evidence_ctx"
  env_gateway :: "int \<Rightarrow> int option \<Rightarrow> ustr \<Rightarrow> visibility \<Rightarrow> evidence_ctx \<Rightarrow> gateway_result"
  env_token :: "int \<Rightarrow> string"
  env_hash :: "json \<Rightarrow> string"
  env_args_ok :: "string \<Rightarrow> json \<Rightarrow> bool"
  env_tools :: "string \<Rightarrow> butler_tool option"
  env_bot :: "undo_call \<Rightarrow> string option"
  env_prior_text :: "json \<Rightarrow> json \<Rightarrow> ustr option"
  env_dismiss :: "(int \<Rightarrow> string option) option"
  env_locked :: "int \<Rightarrow> bool"

record butler_settings =
  set_plan_ttl :: int
  set_confirmation_ttl :: int
  set_user_plans :: int
  set_user_execs :: int
  set_chat_actions :: int
  set_tool_hour :: int
  set_user_budget :: int
  set_undo_ttl :: int

definition default_settings :: butler_settings where
  "default_settings = \<lparr>set_plan_ttl = 900, set_confirmation_ttl = 300, set_user_plans = 10,
     set_user_execs = 5, set_chat_actions = 50, set_tool_hour = 20, set_user_budget = 200000, set_undo_ttl = 60\<rparr>"

definition idempotency_key :: "int \<Rightarrow> string \<Rightarrow> nat \<Rightarrow> string" where
  "idempotency_key aid tool seq = ''butler:'' @ show_int aid @ '':'' @ tool @ '':'' @ digits seq"

definition tool_name_to_action_type :: "string \<Rightarrow> string" where
  "tool_name_to_action_type t =
     (case map_of [(''recall_evidence'', ''recall''), (''schedule_meeting'', ''meeting''), (''send_intro'', ''intro''),
        (''update_intro'', ''intro_update''), (''suggest_card_creation'', ''card_suggestion'')] t of
        None \<Rightarrow> ''recall'' | Some k \<Rightarrow> k)"

text \<open>
  \<open>build_butler_evidence\<close>, whose exceptions no method of the service catches: here those that leave the
  session usable; one of the database rolls the whole transaction back.
\<close>

definition build_evidence ::
  "butler_env \<Rightarrow> int \<Rightarrow> ustr \<Rightarrow> int option \<Rightarrow> visibility \<Rightarrow> evidence_ctx butler" where
  "build_evidence env uid query chat scope s =
     (case env_evidence env uid query chat scope of
        Inl exc \<Rightarrow> (Inl (Evidence_error exc), s)
      | Inr ctx \<Rightarrow> (Inr ctx, s))"

definition chat_or_zero :: "int option \<Rightarrow> int" where
  "chat_or_zero c = coalesce c 0"

subsection \<open>plan_action\<close>

text \<open>The audit row of a request that was turned down.\<close>

definition rejected_action ::
  "int \<Rightarrow> int option \<Rightarrow> ustr \<Rightarrow> visibility \<Rightarrow> string \<Rightarrow> string \<Rightarrow> string \<Rightarrow> int option \<Rightarrow> butler_action" where
  "rejected_action uid chat query scope gov hash reason ledger =
     \<lparr>ba_id = 0, ba_requester = uid, ba_chat = chat_or_zero chat, ba_type = ''recall'', ba_status = BA_rejected,
      ba_tool = ''recall_evidence'', ba_gov = gov, ba_hash = hash, ba_evidence_ids = [], ba_summary = [],
      ba_args = J_obj [], ba_args_hash = '''', ba_query = query, ba_scope = scope, ba_plan = None,
      ba_inverse = None, ba_rollback = Not_reversible, ba_risk = Risk_low, ba_expires = None,
      ba_confirmed_at = None, ba_executed_at = None, ba_undone_at = None, ba_rejection = Some reason,
      ba_error = None, ba_ledger = ledger\<rparr>"

definition reject_with :: "butler_action \<Rightarrow> string \<Rightarrow> 'a butler" where
  "reject_with row kind = bindB (action_create row) (\<lambda>_. raiseB kind)"

text \<open>Roll back the increments made so far, in the order of the list.\<close>

definition roll_back :: "(string \<times> int \<times> bucket_key) list \<Rightarrow> unit butler" where
  "roll_back bs = modifyB (\<lambda>s. foldl (\<lambda>s (kind, scope, key). decrement kind scope key s) s bs)"

definition may_use :: "user option \<Rightarrow> bool" where
  "may_use u = (case u of None \<Rightarrow> False | Some u \<Rightarrow> is_member u \<or> is_admin u)"

text \<open>Everyone a plan affects besides its requester, in ascending order.\<close>

definition affected_users :: "int \<Rightarrow> butler_plan \<Rightarrow> int list" where
  "affected_users uid p =
     sort (remdups (filter (\<lambda>u. u \<noteq> uid) (concat (map st_affected (bp_actions p)))))"

definition first_step :: "butler_plan \<Rightarrow> plan_step" where
  "first_step p = (case bp_actions p of
       [] \<Rightarrow> \<lparr>st_tool = ''recall_evidence'', st_args = J_obj [], st_affected = [], st_risk = Risk_low,
             st_rollback = Not_reversible\<rparr>
     | st # _ \<Rightarrow> st)"

definition planned_action ::
  "butler_env \<Rightarrow> int \<Rightarrow> int option \<Rightarrow> ustr \<Rightarrow> visibility \<Rightarrow> evidence_ctx \<Rightarrow> butler_plan \<Rightarrow> int \<Rightarrow> butler_action" where
  "planned_action env uid chat query scope ctx p ledger =
     (let st = first_step p in
      (rejected_action uid chat query scope (bp_gov p) (ev_hash ctx) '''' (Some ledger))
        \<lparr>ba_type := tool_name_to_action_type (st_tool st), ba_tool := st_tool st, ba_args := st_args st,
         ba_args_hash := env_hash env (st_args st), ba_rollback := st_rollback st, ba_risk := st_risk st,
         ba_plan := Some p\<rparr>)"

fun ask_affected :: "butler_env \<Rightarrow> int \<Rightarrow> string \<Rightarrow> int \<Rightarrow> int list \<Rightarrow> unit butler" where
  "ask_affected env aid preview expires [] = returnB ()"
| "ask_affected env aid preview expires (u # us) =
     bindB (getB b_next_conf) (\<lambda>n.
     bindB (conf_create aid u Role_affected_user preview expires (env_token env n)) (\<lambda>_.
     ask_affected env aid preview expires us))"

definition store_plan ::
  "butler_env \<Rightarrow> butler_settings \<Rightarrow> int \<Rightarrow> int \<Rightarrow> butler_action \<Rightarrow> butler_plan \<Rightarrow> butler_action butler" where
  "store_plan env cfg now uid row p =
     bindB (action_create (row\<lparr>ba_status := BA_pending_confirmation, ba_rejection := None,
        ba_evidence_ids := bp_evidence_ids p, ba_summary := bp_summary p,
        ba_expires := Some (now + set_plan_ttl cfg)\<rparr>)) (\<lambda>a.
     let preview = env_hash env (J_obj [(''plan_summary'', J_str (bp_summary p))]);
         expires = now + set_confirmation_ttl cfg
     in bindB (getB b_next_conf) (\<lambda>n.
        bindB (conf_create (ba_id a) uid Role_requester preview expires (env_token env n)) (\<lambda>_.
        bindB (ask_affected env (ba_id a) preview expires (affected_users uid p)) (\<lambda>_.
        returnB a))))"

definition plan_from_evidence ::
  "butler_env \<Rightarrow> butler_settings \<Rightarrow> int \<Rightarrow> int \<Rightarrow> int option \<Rightarrow> ustr \<Rightarrow> visibility \<Rightarrow>
   (string \<times> int \<times> bucket_key) list \<Rightarrow> evidence_ctx \<Rightarrow> butler_action butler" where
  "plan_from_evidence env cfg now uid chat query scope taken ctx =
     (let r = env_gateway env uid chat query scope ctx in
      bindB (modifyB (\<lambda>s. s\<lparr>b_ledger := b_ledger s @ gw_ledger r\<rparr>)) (\<lambda>_.
      case gw_plan r of
        Inl (kind, ledger) \<Rightarrow>
          reject_with (rejected_action uid chat query scope (ev_gov ctx) (ev_hash ctx) kind ledger) kind
      | Inr (p, ledger) \<Rightarrow>
          let row = planned_action env uid chat query scope ctx p ledger in
          bindB (try_increment (''tool_hour:'' @ ba_tool row) uid (Hour_key (msk_hour now))
            (msk_hour_window now) (set_tool_hour cfg)) (\<lambda>tool_ok.
          if \<not> tool_ok
          then bindB (roll_back taken) (\<lambda>_.
            reject_with (row\<lparr>ba_rejection := Some ''rate_limit_exceeded''\<rparr>) ''rate_limit_exceeded'')
          else store_plan env cfg now uid row p)))"

definition plan_action ::
  "butler_env \<Rightarrow> butler_settings \<Rightarrow> int \<Rightarrow> int \<Rightarrow> int option \<Rightarrow> ustr \<Rightarrow> visibility \<Rightarrow> butler_action butler" where
  "plan_action env cfg now uid chat query scope =
     (let plans = (''user_plans_day'', uid, Day_key (msk_day now));
          actions = (''chat_actions_day'', chat_or_zero chat, Day_key (msk_day now));
          denied = (\<lambda>reason. rejected_action uid chat query scope '''' '''' reason None)
      in if \<not> may_use (env_user env uid) then reject_with (denied ''membership_revoked'') ''membership_revoked'' else
      bindB (try_increment ''user_plans_day'' uid (Day_key (msk_day now)) (msk_day_window now)
        (set_user_plans cfg)) (\<lambda>rate_ok.
      if \<not> rate_ok then reject_with (denied ''rate_limit_exceeded'') ''rate_limit_exceeded'' else
      bindB (try_increment ''chat_actions_day'' (chat_or_zero chat) (Day_key (msk_day now)) (msk_day_window now)
        (set_chat_actions cfg)) (\<lambda>chat_ok.
      if \<not> chat_ok
      then bindB (action_create (denied ''rate_limit_exceeded'')) (\<lambda>_.
           bindB (roll_back [plans]) (\<lambda>_. raiseB ''rate_limit_exceeded'')) else
      bindB (getB (\<lambda>s. is_user_daily_exceeded (set_user_budget cfg) s uid now)) (\<lambda>exceeded.
      if exceeded
      then bindB (roll_back [plans, actions]) (\<lambda>_. reject_with (denied ''budget_exceeded'') ''budget_exceeded'') else
      bindB (build_evidence env uid query chat scope) (\<lambda>ctx.
      if ev_abstained ctx
      then reject_with (rejected_action uid chat query scope (ev_gov ctx) (ev_hash ctx) ''empty_evidence'' None)
             ''empty_evidence''
      else plan_from_evidence env cfg now uid chat query scope [plans, actions] ctx)))))"

subsection \<open>confirm_action\<close>

text \<open>\<open>SELECT .. FOR UPDATE NOWAIT\<close>: a locked row and a missing one are both reported as a cascade in flight.\<close>

definition lock_action :: "butler_env \<Rightarrow> int \<Rightarrow> butler_action butler" where
  "lock_action env aid s =
     (if env_locked env aid then (Inl (Butler_error ''cascade_in_flight''), s)
      else case action_get s aid of
        None \<Rightarrow> (Inl (Butler_error ''cascade_in_flight''), s)
      | Some a \<Rightarrow> (Inr a, s))"

text \<open>The row after an update: \<open>updated or action\<close>.\<close>

definition refetch :: "butler_action \<Rightarrow> butler_action butler" where
  "refetch a = getB (\<lambda>s. coalesce (action_get s (ba_id a)) a)"

definition all_confirmed :: "bdb \<Rightarrow> int \<Rightarrow> bool" where
  "all_confirmed s aid \<longleftrightarrow> list_all (\<lambda>c. bc_status c = C_confirmed) (confs_of s aid)"

definition confirm_evidence :: "butler_env \<Rightarrow> int \<Rightarrow> butler_action \<Rightarrow> butler_action butler" where
  "confirm_evidence env now a =
     bindB (build_evidence env (ba_requester a) (ba_query a)
       (if ba_chat a = 0 then None else Some (ba_chat a)) (ba_scope a)) (\<lambda>ctx.
      if ev_hash ctx \<noteq> ba_hash a
         then bindB (action_update_status (ba_id a) BA_rejected (reject_reason ''evidence_stale''))
                (\<lambda>_. raiseB ''evidence_stale'')
         else bindB (action_update_status (ba_id a) BA_confirmed (\<lambda>a. a\<lparr>ba_confirmed_at := Some now\<rparr>))
                (\<lambda>_. refetch a))"

definition confirm_action :: "butler_env \<Rightarrow> int \<Rightarrow> int \<Rightarrow> int \<Rightarrow> string \<Rightarrow> butler_action butler" where
  "confirm_action env now aid uid token =
     bindB (lock_action env aid) (\<lambda>a.
     if ba_status a \<in> {BA_expired, BA_cancelled} \<and> ba_rejection a = Some ''source_forgotten''
     then raiseB ''source_forgotten'' else
     bindB (conf_for_user aid uid) (\<lambda>early.
     if (case early of None \<Rightarrow> False | Some c \<Rightarrow> bc_status c = C_confirmed)
     then raiseB ''already_confirmed_by_user'' else
     if ba_status a \<noteq> BA_pending_confirmation
     then raiseB (if ba_status a = BA_expired then ''expired'' else ''wrong_status'') else
     if (case ba_expires a of None \<Rightarrow> False | Some t \<Rightarrow> t \<le> now)
     then bindB (action_update_status aid BA_expired (reject_reason ''ttl_expired'')) (\<lambda>_. raiseB ''expired'') else
     bindB (conf_for_user aid uid) (\<lambda>found.
     case found of
       None \<Rightarrow> raiseB ''bad_token''
     | Some c \<Rightarrow>
         if bc_status c = C_confirmed then raiseB ''already_confirmed_by_user''
         else if bc_token c \<noteq> token then raiseB ''bad_token''
         else if bc_expires c \<le> now then raiseB ''expired''
         else bindB (conf_resolve (bc_id c) C_confirmed now) (\<lambda>_.
              bindB (getB (\<lambda>s. all_confirmed s aid)) (\<lambda>complete.
              if \<not> complete then returnB a else confirm_evidence env now a)))))"

subsection \<open>execute_action\<close>

definition posted_message :: "string \<Rightarrow> json \<Rightarrow> int option" where
  "posted_message tool payload =
     (if tool \<in> {''send_intro'', ''schedule_meeting''}
      then (case json_get ''message_id'' payload of Some (J_int n) \<Rightarrow> Some n | _ \<Rightarrow> None) else None)"

text \<open>A step that failed: the invocation and the action are marked, and the action is returned.\<close>

definition fail_step ::
  "int \<Rightarrow> int \<Rightarrow> butler_action \<Rightarrow> ustr \<Rightarrow> json option \<Rightarrow> butler_action butler" where
  "fail_step now iid a err response =
     bindB (inv_update iid (\<lambda>i. i\<lparr>bi_status := I_failed, bi_error := Some err,
        bi_response := (if response = None then bi_response i else response), bi_finished_at := Some now\<rparr>)) (\<lambda>_.
     bindB (action_update_status (ba_id a) BA_execution_failed
        (\<lambda>a. a\<lparr>ba_error := Some err, ba_executed_at := Some now\<rparr>)) (\<lambda>_.
     refetch a))"

definition call_tool :: "int \<Rightarrow> nat \<Rightarrow> string \<Rightarrow> unit butler" where
  "call_tool aid seq name =
     modifyB (\<lambda>s. s\<lparr>tool_calls := tool_calls s @ [\<lparr>tc_action = aid, tc_seq = seq, tc_tool = name\<rparr>]\<rparr>)"

definition succeed_step ::
  "butler_env \<Rightarrow> int \<Rightarrow> int \<Rightarrow> butler_action \<Rightarrow> string \<Rightarrow> json \<Rightarrow> unit butler" where
  "succeed_step env now iid a name payload =
     bindB (inv_update iid (\<lambda>i. i\<lparr>bi_status := I_succeeded, bi_response := Some payload,
        bi_response_hash := Some (env_hash env payload), bi_finished_at := Some now,
        bi_posted := (if posted_message name payload = None then bi_posted i else posted_message name payload)\<rparr>)) (\<lambda>_.
     case env_tools env name of
       None \<Rightarrow> returnB ()
     | Some tool \<Rightarrow>
         (case tool_inverse tool payload of
            None \<Rightarrow> returnB ()
          | Some back \<Rightarrow>
              bindB (action_update_status (ba_id a) BA_executing (\<lambda>a. a\<lparr>ba_inverse := Some back\<rparr>)) (\<lambda>_.
              inv_update iid (\<lambda>i. i\<lparr>bi_status := I_succeeded, bi_inverse := Some back\<rparr>))))"

text \<open>The rest of the steps, from number \<open>seq\<close>; \<open>None\<close> when all of them succeeded.\<close>

fun run_steps ::
  "butler_env \<Rightarrow> int \<Rightarrow> butler_action \<Rightarrow> nat \<Rightarrow> plan_step list \<Rightarrow> butler_action option butler" where
  "run_steps env now a seq [] = returnB None"
| "run_steps env now a seq (st # sts) =
     (let name = st_tool st in
      bindB (inv_create (ba_id a) name seq (idempotency_key (ba_id a) name seq) (st_args st)
        (env_hash env (J_obj [(''args'', st_args st)]))) (\<lambda>iid.
      case env_tools env name of
        None \<Rightarrow>
          bindB (succeed_step env now iid a name (J_obj [])) (\<lambda>_. run_steps env now a (Suc seq) sts)
      | Some tool \<Rightarrow>
          bindB (build_evidence env (ba_requester a) (ba_query a) (Some (ba_chat a)) (ba_scope a)) (\<lambda>ctx.
          if \<not> env_args_ok env name (st_args st) then (\<lambda>s. (Inl (Plan_error ''invalid_args''), s))
          else bindB (call_tool (ba_id a) seq name) (\<lambda>_.
          case tool_run tool ctx seq (st_args st) of
            Tool_raises err \<Rightarrow> bindB (fail_step now iid a (take 200 err) None) (\<lambda>r. returnB (Some r))
          | Tool_result ok payload err \<Rightarrow>
              if \<not> ok
              then let e = (case err of None \<Rightarrow> cp ''tool_execution_failed''
                            | Some e \<Rightarrow> if e = [] then cp ''tool_execution_failed'' else e)
                   in bindB (fail_step now iid a e (Some (J_obj [(''error'', J_str e)]))) (\<lambda>r. returnB (Some r))
              else bindB (succeed_step env now iid a name payload) (\<lambda>_. run_steps env now a (Suc seq) sts)))))"

text \<open>The first affected user who has not confirmed, if any.\<close>

definition missing_consent :: "bdb \<Rightarrow> int \<Rightarrow> bool" where
  "missing_consent s aid \<longleftrightarrow>
     list_ex (\<lambda>c. bc_role c = Role_affected_user \<and> bc_status c \<noteq> C_confirmed) (confs_of s aid)"

definition execute_action :: "butler_env \<Rightarrow> butler_settings \<Rightarrow> int \<Rightarrow> int \<Rightarrow> butler_action butler" where
  "execute_action env cfg now aid =
     bindB (lock_action env aid) (\<lambda>a.
     if ba_status a \<noteq> BA_confirmed then raiseB ''wrong_status'' else
     bindB (getB (\<lambda>s. missing_consent s aid)) (\<lambda>missing.
     if missing
     then bindB (action_update_status aid BA_rejected (reject_reason ''affected_user_consent_revoked''))
            (\<lambda>_. raiseB ''affected_user_consent_revoked'') else
     bindB (try_increment ''user_execs_day'' (ba_requester a) (Day_key (msk_day now)) (msk_day_window now)
       (set_user_execs cfg)) (\<lambda>rate_ok.
     if \<not> rate_ok
     then bindB (action_update_status aid BA_rejected (reject_reason ''rate_limit_exceeded''))
            (\<lambda>_. raiseB ''rate_limit_exceeded'') else
     bindB (action_update_status aid BA_executing (\<lambda>a. a)) (\<lambda>_.
     case ba_plan a of
       None \<Rightarrow> raiseB ''invariant_broken''
     | Some p \<Rightarrow>
         bindB (run_steps env now a 1 (bp_actions p)) (\<lambda>failed.
         case failed of
           Some r \<Rightarrow> returnB r
         | None \<Rightarrow>
             bindB (action_update_status aid BA_succeeded (\<lambda>a. a\<lparr>ba_executed_at := Some now\<rparr>)) (\<lambda>_.
             refetch a))))))"

subsection \<open>cancel_action and revoke_affected_user_consent\<close>

definition is_admin_user :: "butler_env \<Rightarrow> int \<Rightarrow> bool" where
  "is_admin_user env uid \<longleftrightarrow> (case env_user env uid of None \<Rightarrow> False | Some u \<Rightarrow> is_admin u)"

definition cancel_action :: "butler_env \<Rightarrow> int \<Rightarrow> int \<Rightarrow> butler_action butler" where
  "cancel_action env aid uid =
     bindB (lock_action env aid) (\<lambda>a.
     if uid \<noteq> ba_requester a \<and> \<not> is_admin_user env uid then raiseB ''forbidden'' else
     if ba_status a \<notin> {BA_pending_confirmation, BA_confirmed} then raiseB ''wrong_status'' else
     bindB (confs_mark_all aid C_cancelled) (\<lambda>_.
     bindB (action_update_status aid BA_cancelled (reject_reason ''cancelled_by_user'')) (\<lambda>_.
     refetch a)))"

definition revoke_affected_user_consent :: "butler_env \<Rightarrow> int \<Rightarrow> int \<Rightarrow> int \<Rightarrow> butler_action butler" where
  "revoke_affected_user_consent env now aid uid =
     bindB (lock_action env aid) (\<lambda>a.
     bindB (getB (\<lambda>s. List.find (\<lambda>c. bc_confirmer c = uid \<and> bc_role c = Role_affected_user) (confs_of s aid))) (\<lambda>found.
     case found of
       None \<Rightarrow> raiseB ''not_found''
     | Some c \<Rightarrow>
         if bc_status c \<noteq> C_pending then raiseB ''wrong_status''
         else bindB (conf_resolve (bc_id c) C_revoked now) (\<lambda>_.
              bindB (action_update_status aid BA_cancelled (reject_reason ''affected_user_consent_revoked'')) (\<lambda>_.
              refetch a))))"

subsection \<open>expire_action\<close>

definition lock_existing :: "butler_env \<Rightarrow> int \<Rightarrow> butler_action butler" where
  "lock_existing env aid s =
     (if env_locked env aid then (Inl (Db_error ''LockNotAvailable''), s)
      else case action_get s aid of
        None \<Rightarrow> (Inl (Butler_error ''not_found''), s)
      | Some a \<Rightarrow> (Inr a, s))"

definition expire_action :: "butler_env \<Rightarrow> int \<Rightarrow> int \<Rightarrow> butler_action butler" where
  "expire_action env now aid =
     bindB (lock_existing env aid) (\<lambda>a.
     if ba_status a = BA_expired then returnB a else
     if ba_status a \<noteq> BA_pending_confirmation then returnB a else
     if (case ba_expires a of None \<Rightarrow> True | Some t \<Rightarrow> now < t) then returnB a else
     bindB (action_update_status aid BA_expired (reject_reason ''ttl_expired'')) (\<lambda>_.
     refetch a))"

text \<open>The same transition for the scheduler, which has the action repository only.\<close>

definition expire_action_inline :: "butler_env \<Rightarrow> int \<Rightarrow> int \<Rightarrow> butler_action butler" where
  "expire_action_inline env now aid s =
     (case lock_existing env aid s of
        (Inl e, s) \<Rightarrow> (Inl e, s)
      | (Inr a, s) \<Rightarrow>
          if ba_status a = BA_expired \<or> ba_status a \<noteq> BA_pending_confirmation \<or>
             (case ba_expires a of None \<Rightarrow> True | Some t \<Rightarrow> t > now)
          then (Inr a, s)
          else (case action_update_status aid BA_expired (reject_reason ''ttl_expired'') s of
                  (Inl e, s) \<Rightarrow> (Inl e, s)
                | (Inr _, s) \<Rightarrow> (Inr (coalesce (action_get s aid) a), s)))"

text \<open>
  \<open>butler_expire_tick\<close> of services/scheduler.py: every stale row in a nested transaction of its own, which
  is rolled back when it raises; the number of actions expired.
\<close>

fun expire_rows :: "butler_env \<Rightarrow> int \<Rightarrow> butler_action list \<Rightarrow> bdb \<Rightarrow> nat \<times> bdb" where
  "expire_rows env now [] s = (0, s)"
| "expire_rows env now (a # as) s =
     (let (r, s1) = expire_action_inline env now (ba_id a) s;
          s2 = (case r of Inl _ \<Rightarrow> s | Inr _ \<Rightarrow> s1);
          hit = (case r of Inl _ \<Rightarrow> False | Inr b \<Rightarrow> ba_status b = BA_expired);
          (n, s3) = expire_rows env now as s2
      in (if hit then Suc n else n, s3))"

definition butler_expire_batch_size :: nat where "butler_expire_batch_size = 200"

definition butler_expire_tick :: "butler_env \<Rightarrow> int \<Rightarrow> bdb \<Rightarrow> nat \<times> bdb" where
  "butler_expire_tick env now s =
     expire_rows env now (get_pending_past_ttl s now butler_expire_batch_size) s"

subsection \<open>execute_undo\<close>

text \<open>The \<open>rollback_kind\<close> of an inverse payload: \<open>Some None\<close> is an unknown one.\<close>

definition rollback_kind_of :: "json option \<Rightarrow> rollback_kind option" where
  "rollback_kind_of payload =
     (case payload of None \<Rightarrow> Some Not_reversible | Some (J_obj kvs) \<Rightarrow>
       (case map_of kvs ''rollback_kind'' of
          None \<Rightarrow> Some Not_reversible
        | Some (J_str k) \<Rightarrow> map_of [(cp ''not_reversible'', Not_reversible), (cp ''delete_message'', Delete_message_op),
            (cp ''edit_message'', Edit_message_op), (cp ''followup_correction'', Followup_correction),
            (cp ''cancel_pending'', Cancel_pending)] k
        | Some _ \<Rightarrow> None)
      | Some _ \<Rightarrow> None)"

definition lower_name :: "string \<Rightarrow> string" where
  "lower_name = map (\<lambda>c. if 65 \<le> (of_char c :: nat) \<and> (of_char c :: nat) \<le> 90 then char_of ((of_char c :: nat) + 32) else c)"

definition bot_call :: "butler_env \<Rightarrow> int \<Rightarrow> int \<Rightarrow> undo_call \<Rightarrow> (undo_status \<times> string option \<times> string option) butler" where
  "bot_call env aid iid c s =
     (let s1 = s\<lparr>undo_calls := undo_calls s @ [(aid, iid, c)]\<rparr>
      in case env_bot env c of
           None \<Rightarrow> (Inr (U_succeeded, None, None), s1)
         | Some exc \<Rightarrow> (Inr (U_failed, Some (''telegram_api_error:'' @ lower_name exc), Some exc), s1))"

definition missing_fields_result :: "undo_status \<times> string option \<times> string option" where
  "missing_fields_result = (U_failed, Some ''missing_payload_fields'', Some ''missing from inverse_op_payload'')"

definition undo_delete_message :: "butler_env \<Rightarrow> int \<Rightarrow> int \<Rightarrow> json \<Rightarrow> (undo_status \<times> string option \<times> string option) butler" where
  "undo_delete_message env aid iid payload =
     (case (json_get ''chat_id'' payload, json_get ''message_id'' payload) of
        (Some chat, Some msg) \<Rightarrow> bot_call env aid iid (Undo_delete chat msg)
      | _ \<Rightarrow> returnB missing_fields_result)"

definition undo_edit_message :: "butler_env \<Rightarrow> int \<Rightarrow> int \<Rightarrow> json \<Rightarrow> (undo_status \<times> string option \<times> string option) butler" where
  "undo_edit_message env aid iid payload =
     (case (json_get ''chat_id'' payload, json_get ''message_id'' payload) of
        (Some chat, Some msg) \<Rightarrow>
          (case env_prior_text env chat msg of
             None \<Rightarrow> returnB (U_failed, Some ''fallback_prior_text_unavailable'', Some ''prior_text unavailable'')
           | Some old \<Rightarrow> bot_call env aid iid (Undo_edit chat msg old))
      | _ \<Rightarrow> returnB missing_fields_result)"

definition undo_followup_correction :: "butler_env \<Rightarrow> int \<Rightarrow> int \<Rightarrow> json \<Rightarrow> (undo_status \<times> string option \<times> string option) butler" where
  "undo_followup_correction env aid iid payload =
     (case (json_get ''chat_id'' payload, json_get ''followup_message_id'' payload) of
        (Some chat, Some msg) \<Rightarrow> bot_call env aid iid (Undo_delete chat msg)
      | _ \<Rightarrow> returnB missing_fields_result)"

definition undo_cancel_pending :: "butler_env \<Rightarrow> int \<Rightarrow> (undo_status \<times> string option \<times> string option) butler" where
  "undo_cancel_pending env aid =
     (case env_dismiss env of
        None \<Rightarrow> returnB (U_skipped, Some ''no_card_suggestion_repo'', Some ''card_suggestion_repo not wired'')
      | Some dismiss \<Rightarrow>
          (case dismiss aid of
             None \<Rightarrow> returnB (U_succeeded, None, None)
           | Some exc \<Rightarrow> returnB (U_failed, Some ''repo_error'', Some exc)))"

definition dispatch_undo ::
  "butler_env \<Rightarrow> int \<Rightarrow> invocation \<Rightarrow> rollback_kind \<Rightarrow> (undo_status \<times> string option \<times> string option) butler" where
  "dispatch_undo env aid i kind =
     (let payload = coalesce (bi_inverse i) (J_obj []) in
      case kind of
        Not_reversible \<Rightarrow> returnB (U_skipped, None, None)
      | Delete_message_op \<Rightarrow> undo_delete_message env aid (bi_id i) payload
      | Edit_message_op \<Rightarrow> undo_edit_message env aid (bi_id i) payload
      | Followup_correction \<Rightarrow> undo_followup_correction env aid (bi_id i) payload
      | Cancel_pending \<Rightarrow> undo_cancel_pending env aid)"

definition undo_settled :: "undo_status \<Rightarrow> bool" where
  "undo_settled st \<longleftrightarrow> st \<in> {U_succeeded, U_skipped}"

text \<open>One invocation: its audit row, the rollback unless it is settled, and the row's new status.\<close>

definition undo_step :: "butler_env \<Rightarrow> int \<Rightarrow> int \<Rightarrow> invocation \<Rightarrow> unit butler" where
  "undo_step env aid uid i =
     bindB (getB (\<lambda>s. undo_find s aid (bi_id i))) (\<lambda>found.
     bindB (case found of
         Some u \<Rightarrow> returnB u
       | None \<Rightarrow> (case rollback_kind_of (bi_inverse i) of
             None \<Rightarrow> dbErrorB ''ck_butler_undo_invocations_rollback_kind''
           | Some kind \<Rightarrow> undo_create aid (bi_id i) uid kind)) (\<lambda>u.
     if undo_settled (bu_status u) then returnB () else
     bindB (case rollback_kind_of (bi_inverse i) of
         None \<Rightarrow> returnB (U_skipped, Some ''unknown_rollback_kind'', Some ''unknown rollback_kind'')
       | Some kind \<Rightarrow> dispatch_undo env aid i kind) (\<lambda>(st, ek, em).
     undo_update (bu_id u) st ek em)))"

fun undo_steps :: "butler_env \<Rightarrow> int \<Rightarrow> int \<Rightarrow> invocation list \<Rightarrow> unit butler" where
  "undo_steps env aid uid [] = returnB ()"
| "undo_steps env aid uid (i # is) = bindB (undo_step env aid uid i) (\<lambda>_. undo_steps env aid uid is)"

definition may_undo :: "butler_env \<Rightarrow> bdb \<Rightarrow> butler_action \<Rightarrow> int \<Rightarrow> bool" where
  "may_undo env s a uid \<longleftrightarrow> ba_requester a = uid \<or> is_admin_user env uid \<or>
     list_ex (\<lambda>c. bc_confirmer c = uid \<and> bc_role c = Role_affected_user \<and> bc_status c = C_confirmed)
       (confs_of s (ba_id a))"

definition all_settled :: "bdb \<Rightarrow> int \<Rightarrow> invocation list \<Rightarrow> bool" where
  "all_settled s aid is \<longleftrightarrow>
     list_all (\<lambda>i. case undo_find s aid (bi_id i) of None \<Rightarrow> False | Some u \<Rightarrow> undo_settled (bu_status u)) is"

text \<open>Last in, first out: descending \<open>invocation_seq\<close>, ties in their order (a stable sort).\<close>

definition lifo :: "invocation list \<Rightarrow> invocation list" where
  "lifo is = sort_key (\<lambda>i. - int (bi_seq i)) is"

definition execute_undo :: "butler_env \<Rightarrow> butler_settings \<Rightarrow> int \<Rightarrow> int \<Rightarrow> int \<Rightarrow> unit butler" where
  "execute_undo env cfg now aid uid =
     bindB (lock_action env aid) (\<lambda>a.
     bindB (getB (\<lambda>s. may_undo env s a uid)) (\<lambda>allowed.
     if \<not> allowed then raiseB ''forbidden'' else
     if ba_status a \<notin> {BA_succeeded, BA_undone} then raiseB ''wrong_status'' else
     bindB (getB (\<lambda>s. invs_of s aid)) (\<lambda>is.
     bindB (getB (\<lambda>s. is \<noteq> [] \<and> all_settled s aid is)) (\<lambda>finished.
     if finished then returnB () else
     if (case ba_executed_at a of None \<Rightarrow> False | Some t \<Rightarrow> now - t > 60 * set_undo_ttl cfg)
     then raiseB ''ttl_expired'' else
     bindB (undo_steps env aid uid (lifo is)) (\<lambda>_.
     action_update_status aid BA_undone (\<lambda>a. a\<lparr>ba_undone_at := Some now\<rparr>))))))"

subsection \<open>What a forget event does to actions (services/forget_cascade.py)\<close>

definition forget_expires :: "ba_status \<Rightarrow> bool" where
  "forget_expires st \<longleftrightarrow> st \<in> {BA_pending_confirmation, BA_confirmed, BA_executing}"

text \<open>The actions with evidence among the forgotten versions, and those of a forgotten requester.\<close>

definition forget_hit :: "int list \<Rightarrow> int option \<Rightarrow> butler_action \<Rightarrow> bool" where
  "forget_hit mvids tg_id a \<longleftrightarrow>
     list_ex (\<lambda>v. v \<in> set mvids) (ba_evidence_ids a) \<or> tg_id = Some (ba_requester a)"

definition cascade_butler_actions :: "(butler_action \<Rightarrow> bool) \<Rightarrow> bdb \<Rightarrow> bdb" where
  "cascade_butler_actions hit s = s\<lparr>b_actions := map (\<lambda>a.
     if hit a
     then if forget_expires (ba_status a)
          then a\<lparr>ba_status := BA_expired, ba_rejection := Some ''source_forgotten'', ba_evidence_ids := []\<rparr>
          else a\<lparr>ba_evidence_ids := []\<rparr>
     else a) (b_actions s)\<rparr>"

text \<open>
  What is committed: a handler that catches a \<open>ButlerActionError\<close> returns normally and its writes are
  committed; any other exception rolls the transaction back, but calls made to tools and to the bot
  have happened.
\<close>

definition commitB :: "bdb \<Rightarrow> (butler_error + 'a) \<times> bdb \<Rightarrow> bdb" where
  "commitB s r = (case r of
     (Inr _, s1) \<Rightarrow> s1
   | (Inl (Butler_error _), s1) \<Rightarrow> s1
   | (Inl _, s1) \<Rightarrow> s\<lparr>tool_calls := tool_calls s1, undo_calls := undo_calls s1\<rparr>)"

text \<open>
  The handler of \<open>/butler\<close> catches every exception of \<open>plan_action\<close> and returns, so the middleware
  commits what was written; after an error of the database the session can only be rolled back.
\<close>

definition commit_plan :: "bdb \<Rightarrow> (butler_error + 'a) \<times> bdb \<Rightarrow> bdb" where
  "commit_plan s r = (case r of (Inl (Evidence_error _), s1) \<Rightarrow> s1 | _ \<Rightarrow> commitB s r)"

end
