(* ===== verification/ButlerFacts.thy ===== *)
theory ButlerFacts
  imports Butler
begin

section \<open>What each transition of the butler can do\<close>

text \<open>
  Outcome lemmas: the shapes a transition's result can have, on every path, errors included.  They are
  what the invariants and the properties of the butler rest on.
\<close>

subsection \<open>The monad\<close>

lemma bindB_result:
  "bindB m f s = (r, s') \<longleftrightarrow>
     (\<exists>e. m s = (Inl e, s') \<and> r = Inl e) \<or> (\<exists>x s1. m s = (Inr x, s1) \<and> f x s1 = (r, s'))"
  by (auto simp: bindB_def split: prod.split sum.split)

lemma monad_simps [simp]:
  "returnB x s = (Inr x, s)" "raiseB k s = (Inl (Butler_error k), s)" "dbErrorB n s = (Inl (Db_error n), s)"
  "modifyB f s = (Inr (), f s)" "getB g s = (Inr (g s), s)"
  by (simp_all add: returnB_def raiseB_def dbErrorB_def modifyB_def getB_def)

lemma bindB_get [simp]: "bindB (getB g) h s = h (g s) s"
  by (simp add: bindB_def)

lemma bindB_modify [simp]: "bindB (modifyB f) h s = h () (f s)"
  by (simp add: bindB_def)

lemma bindB_return [simp]: "bindB (returnB x) h s = h x s"
  by (simp add: bindB_def)

lemma bindB_raise [simp]: "bindB (raiseB k) h s = (Inl (Butler_error k), s)"
  by (simp add: bindB_def)

subsection \<open>Repository operations\<close>

text \<open>The tables and calls that planning and confirming never touch, and the other tables.\<close>

definition same_runs :: "bdb \<Rightarrow> bdb \<Rightarrow> bool" where
  "same_runs s s' \<longleftrightarrow> b_invs s' = b_invs s \<and> b_undos s' = b_undos s \<and> b_next_inv s' = b_next_inv s \<and>
     b_next_undo s' = b_next_undo s \<and> tool_calls s' = tool_calls s \<and> undo_calls s' = undo_calls s"

definition same_acts :: "bdb \<Rightarrow> bdb \<Rightarrow> bool" where
  "same_acts s s' \<longleftrightarrow> b_actions s' = b_actions s \<and> b_next_action s' = b_next_action s"

definition same_asks :: "bdb \<Rightarrow> bdb \<Rightarrow> bool" where
  "same_asks s s' \<longleftrightarrow> b_confs s' = b_confs s \<and> b_next_conf s' = b_next_conf s"

lemmas same_defs = same_runs_def same_acts_def same_asks_def

text \<open>Only the buckets, and perhaps the ledger, differ.\<close>

definition only_buckets :: "bdb \<Rightarrow> bdb \<Rightarrow> bool" where
  "only_buckets s s' \<longleftrightarrow> same_runs s s' \<and> same_acts s s' \<and> same_asks s s'"

lemma same_refl [simp]: "same_runs s s" "same_acts s s" "same_asks s s" "only_buckets s s"
  by (simp_all add: same_defs only_buckets_def)

lemma same_trans:
  "same_runs s s' \<Longrightarrow> same_runs s' s'' \<Longrightarrow> same_runs s s''" "same_acts s s' \<Longrightarrow> same_acts s' s'' \<Longrightarrow> same_acts s s''"
  "same_asks s s' \<Longrightarrow> same_asks s' s'' \<Longrightarrow> same_asks s s''"
  "only_buckets s s' \<Longrightarrow> only_buckets s' s'' \<Longrightarrow> only_buckets s s''"
  by (simp_all add: same_defs only_buckets_def)

lemma only_buckets_update [simp]:
  "only_buckets s (s\<lparr>b_buckets := bs\<rparr>)" "only_buckets s (s\<lparr>b_ledger := led\<rparr>)"
  by (simp_all add: only_buckets_def same_defs)

lemma try_increment_frame: "try_increment kind scope key win ceiling s = (r, s') \<Longrightarrow>
    only_buckets s s' \<and> (\<forall>e. r = Inl e \<longrightarrow> (\<exists>n. e = Db_error n))"
  by (auto simp: try_increment_def Let_def split: option.splits if_splits)

lemma roll_back_frame: "only_buckets s (foldl (\<lambda>s (kind, scope, key). decrement kind scope key s) s bs)"
proof (induction bs arbitrary: s)
  case (Cons b bs)
  have "only_buckets s (decrement (fst b) (fst (snd b)) (snd (snd b)) s)" by (simp add: decrement_def)
  from same_trans(4) [OF this Cons.IH] show ?case by (simp add: case_prod_beta)
qed simp

lemma action_create_result:
  "action_create row s = (r, s') \<longleftrightarrow>
     (let a = row\<lparr>ba_id := b_next_action s\<rparr>
      in if ck_butler_action a
         then r = Inr a \<and> s' = s\<lparr>b_actions := b_actions s @ [a], b_next_action := b_next_action s + 1\<rparr>
         else r = Inl (Db_error ''ck_butler_actions'') \<and> s' = s)"
  by (auto simp: action_create_def Let_def)

lemma ck_rejected [simp]: "ck_butler_action (rejected_action uid chat query scope gov hash reason ledger\<lparr>ba_id := i\<rparr>)"
  by (simp add: ck_butler_action_def rejected_action_def allowed_butler_tools_def action_types_def)

lemma rejected_simps [simp]:
  "ba_status (rejected_action uid chat query scope gov hash reason ledger) = BA_rejected"
  "ba_rejection (rejected_action uid chat query scope gov hash reason ledger) = Some reason"
  "ba_requester (rejected_action uid chat query scope gov hash reason ledger) = uid"
  "ba_query (rejected_action uid chat query scope gov hash reason ledger) = query"
  "ba_expires (rejected_action uid chat query scope gov hash reason ledger) = None"
  by (simp_all add: rejected_action_def)

lemma planned_simps [simp]:
  "ba_status (planned_action env uid chat query scope ctx p ledger) = BA_rejected"
  "ba_requester (planned_action env uid chat query scope ctx p ledger) = uid"
  "ba_query (planned_action env uid chat query scope ctx p ledger) = query"
  "ba_expires (planned_action env uid chat query scope ctx p ledger) = None"
  "ba_plan (planned_action env uid chat query scope ctx p ledger) = Some p"
  "ba_hash (planned_action env uid chat query scope ctx p ledger) = ev_hash ctx"
  by (simp_all add: planned_action_def Let_def rejected_action_def)

text \<open>A rejection writes its audit row and nothing else.\<close>

definition audited :: "bdb \<Rightarrow> butler_action \<Rightarrow> bdb \<Rightarrow> bool" where
  "audited s a s' \<longleftrightarrow> ck_butler_action a \<and> ba_expires a = None \<and> ba_id a = b_next_action s \<and> b_actions s' = b_actions s @ [a] \<and>
     b_next_action s' = b_next_action s + 1 \<and> same_runs s s' \<and> same_asks s s'"

lemma reject_with_result:
  assumes "reject_with row kind s = (r, s')" "only_buckets s0 s" "ba_status row = BA_rejected" "ba_rejection row = Some kind"
    "ba_requester row = uid" "ba_query row = query" "ba_expires row = None"
  shows "(\<exists>n. r = Inl (Db_error n)) \<or>
    (r = Inl (Butler_error kind) \<and> (\<exists>a. audited s0 a s' \<and> ba_status a = BA_rejected \<and>
       ba_rejection a = Some kind \<and> ba_requester a = uid \<and> ba_query a = query))"
proof (cases "ck_butler_action (row\<lparr>ba_id := b_next_action s\<rparr>)")
  case True
  let ?a = "row\<lparr>ba_id := b_next_action s\<rparr>"
  have s': "s' = s\<lparr>b_actions := b_actions s @ [?a], b_next_action := b_next_action s + 1\<rparr>"
    and r: "r = Inl (Butler_error kind)"
    using assms(1) True by (auto simp: reject_with_def bindB_result action_create_result Let_def)
  have "audited s0 ?a s'"
    using assms(2,7) True unfolding s' by (simp add: audited_def only_buckets_def same_defs)
  with r assms(3-7) show ?thesis by (intro disjI2) (auto intro!: exI [of _ ?a])
next
  case False
  then show ?thesis using assms(1) by (auto simp: reject_with_def bindB_result action_create_result Let_def)
qed

subsection \<open>Planning\<close>

lemma conf_create_result:
  "conf_create aid uid role preview expires token s = (r, s') \<Longrightarrow>
     (r = Inl (Db_error ''uq_butler_action_confirmations_token'') \<and> s' = s) \<or>
     (r = Inr () \<and> (\<exists>c. s' = s\<lparr>b_confs := b_confs s @ [c], b_next_conf := b_next_conf s + 1\<rparr> \<and> bc_id c = b_next_conf s \<and>
        bc_action c = aid \<and> bc_confirmer c = uid \<and> bc_role c = role \<and> bc_status c = C_pending \<and>
        bc_expires c = expires \<and> bc_token c = token))"
  by (auto simp: conf_create_def split: if_splits)

text \<open>The questions asked for one action.\<close>

definition asks :: "int \<Rightarrow> int \<Rightarrow> confirmation \<Rightarrow> bool" where
  "asks aid expires c \<longleftrightarrow> bc_action c = aid \<and> bc_status c = C_pending \<and> bc_expires c = expires"

lemma ask_affected_result:
  "ask_affected env aid preview expires us s = (r, s') \<Longrightarrow>
     (\<exists>n. r = Inl (Db_error n)) \<or>
     (r = Inr () \<and> same_runs s s' \<and> same_acts s s' \<and> b_next_conf s' = b_next_conf s + int (length us) \<and>
      (\<exists>cs. b_confs s' = b_confs s @ cs \<and>
        map bc_confirmer cs = us \<and> list_all (asks aid expires) cs \<and> list_all (\<lambda>c. bc_role c = Role_affected_user) cs \<and>
        map bc_id cs = map (\<lambda>k. b_next_conf s + int k) [0..<length us]))"
proof (induction us arbitrary: s)
  case Nil
  then show ?case by (auto intro!: exI [of _ "[]"])
next
  case (Cons u us)
  obtain r1 s1 where c: "conf_create aid u Role_affected_user preview expires (env_token env (b_next_conf s)) s = (r1, s1)"
    by fastforce
  from conf_create_result [OF c] show ?case
  proof (elim disjE conjE exE)
    assume r1: "r1 = Inl (Db_error ''uq_butler_action_confirmations_token'')"
    have "ask_affected env aid preview expires (u # us) s =
        (Inl (Db_error ''uq_butler_action_confirmations_token''), s1)"
      using c r1 by (simp add: bindB_def)
    with Cons.prems show ?thesis by simp
  next
    fix x assume r1: "r1 = Inr ()" and s1: "s1 = s\<lparr>b_confs := b_confs s @ [x], b_next_conf := b_next_conf s + 1\<rparr>"
      and x: "bc_id x = b_next_conf s" "bc_action x = aid" "bc_confirmer x = u" "bc_role x = Role_affected_user"
        "bc_status x = C_pending" "bc_expires x = expires"
    have "ask_affected env aid preview expires us s1 = (r, s')" using Cons.prems c r1 by (simp add: bindB_def)
    from Cons.IH [OF this] show ?thesis
    proof (elim disjE conjE exE)
      fix cs assume r: "r = Inr ()" and fr: "same_runs s1 s'" "same_acts s1 s'"
          "b_next_conf s' = b_next_conf s1 + int (length us)" "b_confs s' = b_confs s1 @ cs"
        and cs: "map bc_confirmer cs = us" "list_all (asks aid expires) cs" "list_all (\<lambda>c. bc_role c = Role_affected_user) cs"
          "map bc_id cs = map (\<lambda>k. b_next_conf s1 + int k) [0..<length us]"
      have ids: "map bc_id (x # cs) = map (\<lambda>k. b_next_conf s + int k) [0..<length (u # us)]"
        using x(1) cs(4) unfolding s1 by (simp add: upt_conv_Cons map_Suc_upt [symmetric] del: upt_Suc)
      show ?thesis
      proof (intro disjI2 conjI exI [of _ "x # cs"])
        show "map bc_id (x # cs) = map (\<lambda>k. b_next_conf s + int k) [0..<length (u # us)]" by (rule ids)
      qed (use r cs x fr in \<open>simp_all add: asks_def [abs_def] s1 same_defs\<close>)
    qed auto
  qed
qed

text \<open>The state after a plan was stored: its row, and one open question for the requester and each affected user.\<close>

definition stored :: "butler_settings \<Rightarrow> int \<Rightarrow> int \<Rightarrow> bdb \<Rightarrow> butler_action \<Rightarrow> butler_plan \<Rightarrow> bdb \<Rightarrow> bool" where
  "stored cfg now uid s a p s' \<longleftrightarrow>
     ba_id a = b_next_action s \<and> ba_status a = BA_pending_confirmation \<and> ba_requester a = uid \<and>
     ba_plan a = Some p \<and> ba_rejection a = None \<and> ba_expires a = Some (now + set_plan_ttl cfg) \<and> ck_butler_action a \<and>
     b_actions s' = b_actions s @ [a] \<and> b_next_action s' = b_next_action s + 1 \<and> same_runs s s' \<and>
     b_next_conf s' = b_next_conf s + 1 + int (length (affected_users uid p)) \<and>
     (\<exists>c cs. b_confs s' = b_confs s @ c # cs \<and> bc_id c = b_next_conf s \<and>
        bc_confirmer c = uid \<and> bc_role c = Role_requester \<and>
        asks (ba_id a) (now + set_confirmation_ttl cfg) c \<and> map bc_confirmer cs = affected_users uid p \<and>
        list_all (asks (ba_id a) (now + set_confirmation_ttl cfg)) cs \<and>
        list_all (\<lambda>c. bc_role c = Role_affected_user) cs \<and>
        map bc_id cs = map (\<lambda>k. b_next_conf s + 1 + int k) [0..<length (affected_users uid p)])"

lemma store_plan_result:
  assumes run: "store_plan env cfg now uid row p s = (r, s')" and b: "only_buckets s0 s"
    and row: "ba_requester row = uid" "ba_plan row = Some p"
  shows "(\<exists>n. r = Inl (Db_error n)) \<or> (\<exists>a. r = Inr a \<and> stored cfg now uid s0 a p s' \<and> ba_query a = ba_query row)"
proof -
  let ?row = "row\<lparr>ba_status := BA_pending_confirmation, ba_rejection := None,
        ba_evidence_ids := bp_evidence_ids p, ba_summary := bp_summary p,
        ba_expires := Some (now + set_plan_ttl cfg)\<rparr>"
  let ?a = "?row\<lparr>ba_id := b_next_action s\<rparr>"
  let ?preview = "env_hash env (J_obj [(''plan_summary'', J_str (bp_summary p))])"
  let ?exp = "now + set_confirmation_ttl cfg"
  show ?thesis
  proof (cases "ck_butler_action ?a")
    case False
    then show ?thesis using run by (auto simp: store_plan_def bindB_def action_create_def Let_def)
  next
    case ck: True
    let ?s1 = "s\<lparr>b_actions := b_actions s @ [?a], b_next_action := b_next_action s + 1\<rparr>"
    have act: "action_create ?row s = (Inr ?a, ?s1)" using ck by (simp add: action_create_def Let_def)
    obtain r2 s2 where c: "conf_create (ba_id ?a) uid Role_requester ?preview ?exp (env_token env (b_next_conf ?s1)) ?s1 = (r2, s2)"
      by fastforce
    obtain r3 s3 where q: "ask_affected env (ba_id ?a) ?preview ?exp (affected_users uid p) s2 = (r3, s3)" by fastforce
    have res: "(r, s') = (case r2 of Inl e \<Rightarrow> (Inl e, s2) | Inr _ \<Rightarrow> (case r3 of Inl e \<Rightarrow> (Inl e, s3) | Inr _ \<Rightarrow> (Inr ?a, s3)))"
      using run act c q unfolding store_plan_def bindB_def Let_def by (auto split: sum.split)
    from conf_create_result [OF c] show ?thesis
    proof (elim disjE conjE exE)
      assume "r2 = Inl (Db_error ''uq_butler_action_confirmations_token'')"
      with res show ?thesis by simp
    next
      fix x assume r2: "r2 = Inr ()" and s2: "s2 = ?s1\<lparr>b_confs := b_confs ?s1 @ [x], b_next_conf := b_next_conf ?s1 + 1\<rparr>"
        and x: "bc_id x = b_next_conf ?s1" "bc_action x = ba_id ?a" "bc_confirmer x = uid" "bc_role x = Role_requester"
          "bc_status x = C_pending" "bc_expires x = ?exp"
      from ask_affected_result [OF q] show ?thesis
      proof (elim disjE conjE exE)
        fix n assume "r3 = Inl (Db_error n)"
        with res r2 show ?thesis by simp
      next
        fix cs assume r3: "r3 = Inr ()" and fr: "same_runs s2 s3" "same_acts s2 s3"
            "b_next_conf s3 = b_next_conf s2 + int (length (affected_users uid p))" "b_confs s3 = b_confs s2 @ cs"
          and cs: "map bc_confirmer cs = affected_users uid p" "list_all (asks (ba_id ?a) ?exp) cs"
            "list_all (\<lambda>c. bc_role c = Role_affected_user) cs"
            "map bc_id cs = map (\<lambda>k. b_next_conf s2 + int k) [0..<length (affected_users uid p)]"
        have r: "r = Inr ?a" "s' = s3" using res r2 r3 by simp_all
        have eqs: "b_next_action s = b_next_action s0" "b_next_conf s = b_next_conf s0" "b_actions s = b_actions s0"
          "b_confs s = b_confs s0" "same_runs s0 s" using b by (simp_all add: only_buckets_def same_defs)
        have "stored cfg now uid s0 ?a p s3"
          unfolding stored_def
        proof (intro conjI exI [of _ x] exI [of _ cs])
          show "same_runs s0 s3" using fr(1) eqs(5) by (simp add: s2 same_runs_def)
          show "map bc_id cs = map (\<lambda>k. b_next_conf s0 + 1 + int k) [0..<length (affected_users uid p)]"
            using cs(4) eqs by (simp add: s2)
          show "asks (ba_id ?a) ?exp x" using x by (simp add: asks_def)
        qed (use row ck cs x fr eqs in \<open>simp_all add: s2 same_defs\<close>)
        with r show ?thesis by auto
      qed
    qed
  qed
qed

text \<open>Every way planning can end.\<close>

definition plan_ends ::
  "butler_settings \<Rightarrow> int \<Rightarrow> int \<Rightarrow> ustr \<Rightarrow> string + evidence_ctx \<Rightarrow> bdb \<Rightarrow> butler_error + butler_action \<Rightarrow> bdb \<Rightarrow> bool" where
  "plan_ends cfg now uid query ev s r s' \<longleftrightarrow>
     (\<exists>n. r = Inl (Db_error n)) \<or>
     (\<exists>k a. r = Inl (Butler_error k) \<and> audited s a s' \<and> ba_status a = BA_rejected \<and> ba_rejection a = Some k \<and>
        ba_requester a = uid \<and> ba_query a = query) \<or>
     (\<exists>a p. r = Inr a \<and> stored cfg now uid s a p s' \<and> ba_query a = query) \<or>
     (\<exists>exc. r = Inl (Evidence_error exc) \<and> ev = Inl exc \<and> only_buckets s s')"

lemma plan_ends_reject:
  assumes "reject_with row kind s = (r, s')" "only_buckets s0 s" "ba_status row = BA_rejected" "ba_rejection row = Some kind"
    "ba_requester row = uid" "ba_query row = query" "ba_expires row = None"
  shows "plan_ends cfg now uid query ev s0 r s'"
  using reject_with_result [OF assms] unfolding plan_ends_def by blast

lemma plan_from_evidence_ends:
  assumes run: "plan_from_evidence env cfg now uid chat query scope taken ctx s = (r, s')" and b: "only_buckets s0 s"
  shows "plan_ends cfg now uid query ev s0 r s'"
proof -
  let ?g = "env_gateway env uid chat query scope ctx"
  let ?s1 = "s\<lparr>b_ledger := b_ledger s @ gw_ledger ?g\<rparr>"
  have b1: "only_buckets s0 ?s1" by (rule same_trans(4) [OF b]) simp
  show ?thesis
  proof (cases "gw_plan ?g")
    case (Inl kl)
    then show ?thesis using run b1
      by (cases kl) (auto simp: plan_from_evidence_def Let_def intro: plan_ends_reject)
  next
    case (Inr pl)
    obtain p ledger where pl: "pl = (p, ledger)" by fastforce
    let ?row = "planned_action env uid chat query scope ctx p ledger"
    obtain r2 s2 where t: "try_increment (''tool_hour:'' @ ba_tool ?row) uid (Hour_key (msk_hour now))
        (msk_hour_window now) (set_tool_hour cfg) ?s1 = (r2, s2)" by fastforce
    have b2: "only_buckets s0 s2" by (rule same_trans(4) [OF b1]) (use try_increment_frame [OF t] in blast)
    have b3: "only_buckets s0 (foldl (\<lambda>s (kind, scope, key). decrement kind scope key s) s2 taken)"
      by (rule same_trans(4) [OF b2 roll_back_frame])
    have res: "(r, s') = (case r2 of Inl e \<Rightarrow> (Inl e, s2) | Inr ok \<Rightarrow>
        if \<not> ok then reject_with (?row\<lparr>ba_rejection := Some ''rate_limit_exceeded''\<rparr>) ''rate_limit_exceeded''
          (foldl (\<lambda>s (kind, scope, key). decrement kind scope key s) s2 taken)
        else store_plan env cfg now uid ?row p s2)"
      using run Inr pl t by (auto simp: plan_from_evidence_def Let_def bindB_def roll_back_def split: sum.split)
    show ?thesis
    proof (cases r2)
      case (Inl e)
      with res try_increment_frame [OF t] show ?thesis by (auto simp: plan_ends_def)
    next
      case ok: (Inr ok)
      show ?thesis
      proof (cases ok)
        case False
        with res ok have "reject_with (?row\<lparr>ba_rejection := Some ''rate_limit_exceeded''\<rparr>) ''rate_limit_exceeded''
          (foldl (\<lambda>s (kind, scope, key). decrement kind scope key s) s2 taken) = (r, s')" by simp
        then show ?thesis by (rule plan_ends_reject [OF _ b3]) simp_all
      next
        case True
        with res ok have "store_plan env cfg now uid ?row p s2 = (r, s')" by simp
        from store_plan_result [OF this b2] show ?thesis unfolding plan_ends_def by auto
      qed
    qed
  qed
qed

lemma plan_action_ends:
  assumes run: "plan_action env cfg now uid chat query scope s = (r, s')"
  shows "plan_ends cfg now uid query (env_evidence env uid query chat scope) s r s'"
proof -
  let ?denied = "\<lambda>reason. rejected_action uid chat query scope '''' '''' reason None"
  let ?plans = "(''user_plans_day'', uid, Day_key (msk_day now))"
  let ?acts = "(''chat_actions_day'', chat_or_zero chat, Day_key (msk_day now))"
  obtain r1 s1 where t1: "try_increment ''user_plans_day'' uid (Day_key (msk_day now)) (msk_day_window now)
      (set_user_plans cfg) s = (r1, s1)" by fastforce
  obtain r2 s2 where t2: "try_increment ''chat_actions_day'' (chat_or_zero chat) (Day_key (msk_day now))
      (msk_day_window now) (set_chat_actions cfg) s1 = (r2, s2)" by fastforce
  have b1: "only_buckets s s1" using try_increment_frame [OF t1] by blast
  have b2: "only_buckets s s2" by (rule same_trans(4) [OF b1]) (use try_increment_frame [OF t2] in blast)
  show ?thesis
  proof (cases "may_use (env_user env uid)")
    case False
    with run show ?thesis by (auto simp: plan_action_def Let_def intro!: plan_ends_reject)
  next
    case member: True
    show ?thesis
    proof (cases r1)
      case (Inl e)
      with run member t1 try_increment_frame [OF t1] show ?thesis
        by (auto simp: plan_action_def Let_def bindB_def plan_ends_def)
    next
      case r1: (Inr rate_ok)
      show ?thesis
      proof (cases rate_ok)
        case False
        with run member t1 r1 have "reject_with (?denied ''rate_limit_exceeded'') ''rate_limit_exceeded'' s1 = (r, s')"
          by (simp add: plan_action_def Let_def bindB_def)
        then show ?thesis by (rule plan_ends_reject [OF _ b1]) simp_all
      next
        case rate: True
        show ?thesis
        proof (cases r2)
          case (Inl e)
          with run member t1 r1 rate t2 try_increment_frame [OF t2] show ?thesis
            by (auto simp: plan_action_def Let_def bindB_def plan_ends_def)
        next
          case r2: (Inr chat_ok)
          note tail = run [unfolded plan_action_def Let_def] member t1 [unfolded r1] rate t2 [unfolded r2]
          have b3: "only_buckets s (foldl (\<lambda>s (kind, scope, key). decrement kind scope key s) s2 [?plans, ?acts])"
            by (rule same_trans(4) [OF b2 roll_back_frame])
          consider (chat) "\<not> chat_ok" | (budget) "chat_ok" "is_user_daily_exceeded (set_user_budget cfg) s2 uid now"
            | (broken) exc where "chat_ok" "\<not> is_user_daily_exceeded (set_user_budget cfg) s2 uid now"
                "env_evidence env uid query chat scope = Inl exc"
            | (empty) ctx where "chat_ok" "\<not> is_user_daily_exceeded (set_user_budget cfg) s2 uid now"
                "env_evidence env uid query chat scope = Inr ctx" "ev_abstained ctx"
            | (go) ctx where "chat_ok" "\<not> is_user_daily_exceeded (set_user_budget cfg) s2 uid now"
                "env_evidence env uid query chat scope = Inr ctx" "\<not> ev_abstained ctx"
            by (cases "env_evidence env uid query chat scope") blast+
          then show ?thesis
          proof cases
            case chat
            let ?a = "(?denied ''rate_limit_exceeded'')\<lparr>ba_id := b_next_action s2\<rparr>"
            have "r = Inl (Butler_error ''rate_limit_exceeded'')" "audited s ?a s'"
              using tail chat b2
              by (auto simp: bindB_def action_create_def Let_def roll_back_def decrement_def audited_def
                  only_buckets_def same_defs)
            then show ?thesis unfolding plan_ends_def by (intro disjI2 disjI1) (auto intro!: exI [of _ ?a])
          next
            case budget
            with tail have "reject_with (?denied ''budget_exceeded'') ''budget_exceeded''
                (foldl (\<lambda>s (kind, scope, key). decrement kind scope key s) s2 [?plans, ?acts]) = (r, s')"
              by (simp add: bindB_def roll_back_def)
            then show ?thesis by (rule plan_ends_reject [OF _ b3]) simp_all
          next
            case broken
            with tail have "r = Inl (Evidence_error exc)" "s' = s2" by (simp_all add: bindB_def build_evidence_def)
            with broken(3) b2 show ?thesis by (simp add: plan_ends_def)
          next
            case empty
            with tail have "reject_with (rejected_action uid chat query scope (ev_gov ctx) (ev_hash ctx)
                ''empty_evidence'' None) ''empty_evidence'' s2 = (r, s')" by (simp add: bindB_def build_evidence_def)
            then show ?thesis by (rule plan_ends_reject [OF _ b2]) simp_all
          next
            case go
            with tail have "plan_from_evidence env cfg now uid chat query scope [?plans, ?acts] ctx s2 = (r, s')"
              by (simp add: bindB_def build_evidence_def)
            then show ?thesis by (rule plan_from_evidence_ends [OF _ b2])
          qed
        qed
      qed
    qed
  qed
qed

subsection \<open>Moving an action, answering a question\<close>

text \<open>What a row keeps for good.\<close>

definition same_row :: "butler_action \<Rightarrow> butler_action \<Rightarrow> bool" where
  "same_row a b \<longleftrightarrow> ba_id b = ba_id a \<and> ba_requester b = ba_requester a \<and> ba_plan b = ba_plan a \<and>
     ba_expires b = ba_expires a \<and> ba_chat b = ba_chat a \<and> ba_tool b = ba_tool a"

lemma same_row_refl [simp]: "same_row a a"
  by (simp add: same_row_def)

lemma same_row_trans: "same_row a b \<Longrightarrow> same_row b c \<Longrightarrow> same_row a c"
  by (simp add: same_row_def)

lemma same_row_id: "same_row a b \<Longrightarrow> ba_id b = ba_id a"
  by (simp add: same_row_def)

text \<open>The row of one action has a new status, and satisfies its constraints.\<close>

definition moved :: "int \<Rightarrow> ba_status \<Rightarrow> bdb \<Rightarrow> bdb \<Rightarrow> bool" where
  "moved aid st s s' \<longleftrightarrow> b_next_action s' = b_next_action s \<and>
     (\<exists>g. (\<forall>a. same_row a (g a) \<and> ba_status (g a) = st) \<and>
        (\<forall>a. action_get s aid = Some a \<longrightarrow> ck_butler_action (g a)) \<and>
        b_actions s' = update_where (\<lambda>a. ba_id a = aid) g (b_actions s))"

definition marked :: "int \<Rightarrow> conf_status \<Rightarrow> bdb \<Rightarrow> bdb \<Rightarrow> bool" where
  "marked cid st s s' \<longleftrightarrow> b_next_conf s' = b_next_conf s \<and>
     (\<exists>g. (\<forall>c. bc_id (g c) = bc_id c \<and> bc_action (g c) = bc_action c \<and> bc_confirmer (g c) = bc_confirmer c \<and>
            bc_role (g c) = bc_role c \<and> bc_token (g c) = bc_token c \<and> bc_status (g c) = st) \<and>
        b_confs s' = update_where (\<lambda>c. bc_id c = cid) g (b_confs s))"

text \<open>The columns an update may set keep what identifies the row.\<close>

definition keeps_row :: "(butler_action \<Rightarrow> butler_action) \<Rightarrow> bool" where
  "keeps_row f \<longleftrightarrow> (\<forall>a. same_row a (f a) \<and> ba_status (f a) = ba_status a)"

lemma keeps_row_simps [simp]:
  "keeps_row (\<lambda>a. a)" "keeps_row (reject_reason x)" "keeps_row (\<lambda>a. a\<lparr>ba_confirmed_at := y\<rparr>)"
  "keeps_row (\<lambda>a. a\<lparr>ba_executed_at := y\<rparr>)" "keeps_row (\<lambda>a. a\<lparr>ba_undone_at := y\<rparr>)"
  "keeps_row (\<lambda>a. a\<lparr>ba_inverse := z\<rparr>)" "keeps_row (\<lambda>a. a\<lparr>ba_error := e, ba_executed_at := y\<rparr>)"
  by (simp_all add: keeps_row_def reject_reason_def same_row_def)

lemma action_update_result:
  assumes "action_update_status aid st f s = (r, s')" "keeps_row f"
  shows "(s' = s \<and> (\<exists>n. r = Inl (Db_error n))) \<or>
    (r = Inr () \<and> moved aid st s s' \<and> same_asks s s' \<and> same_runs s s' \<and> b_buckets s' = b_buckets s \<and>
     b_ledger s' = b_ledger s \<and>
     (\<exists>a. action_get s aid = Some a \<and> ck_butler_action (f (a\<lparr>ba_status := st\<rparr>))))"
proof (cases "action_get s aid")
  case None
  with assms(1) show ?thesis by (auto simp: action_update_status_def)
next
  case (Some a)
  show ?thesis
  proof (cases "ck_butler_action (f (a\<lparr>ba_status := st\<rparr>))")
    case False
    with Some assms(1) show ?thesis by (auto simp: action_update_status_def)
  next
    case True
    with Some assms(1) have s': "r = Inr ()"
      "s' = s\<lparr>b_actions := update_where (\<lambda>a. ba_id a = aid) (\<lambda>a. f (a\<lparr>ba_status := st\<rparr>)) (b_actions s)\<rparr>"
      by (simp_all add: action_update_status_def)
    have "moved aid st s s'"
      unfolding moved_def s'(2) using assms(2) Some True
      by (intro conjI exI [of _ "\<lambda>a. f (a\<lparr>ba_status := st\<rparr>)"]) (simp_all add: keeps_row_def same_row_def)
    with s' Some True show ?thesis by (simp add: same_defs)
  qed
qed

lemma conf_resolve_result:
  assumes "conf_resolve cid st now s = (r, s')"
  shows "(s' = s \<and> (\<exists>n. r = Inl (Db_error n))) \<or>
    (r = Inr () \<and> marked cid st s s' \<and> same_acts s s' \<and> same_runs s s' \<and> b_buckets s' = b_buckets s \<and> b_ledger s' = b_ledger s)"
proof (cases "list_ex (\<lambda>c. bc_id c = cid) (b_confs s)")
  case False
  with assms show ?thesis by (auto simp: conf_resolve_def)
next
  case True
  let ?g = "\<lambda>c. c\<lparr>bc_status := st, bc_confirmed_at := (if st = C_confirmed then Some now else bc_confirmed_at c),
      bc_rejected_at := (if st = C_rejected then Some now else bc_rejected_at c)\<rparr>"
  from True assms have s': "r = Inr ()" "s' = s\<lparr>b_confs := update_where (\<lambda>c. bc_id c = cid) ?g (b_confs s)\<rparr>"
    by (simp_all add: conf_resolve_def)
  have "marked cid st s s'" unfolding marked_def s'(2) by (intro conjI exI [of _ ?g]) simp_all
  with s' show ?thesis by (simp add: same_defs)
qed

lemma lock_action_result:
  "lock_action env aid s = (r, s') \<Longrightarrow> s' = s \<and>
     (r = Inl (Butler_error ''cascade_in_flight'') \<or> (\<exists>a. r = Inr a \<and> action_get s aid = Some a))"
  by (auto simp: lock_action_def split: if_splits option.splits)

lemma lock_bind:
  assumes "bindB (lock_action env aid) f s = (r, s')"
  shows "(r = Inl (Butler_error ''cascade_in_flight'') \<and> s' = s) \<or> (\<exists>a. action_get s aid = Some a \<and> f a s = (r, s'))"
  using assms lock_action_result [of env aid s] by (fastforce simp: bindB_def split: prod.splits sum.splits)

lemma action_get_id: "action_get s aid = Some a \<Longrightarrow> ba_id a = aid \<and> a \<in> set (b_actions s)"
  unfolding action_get_def by (drule fetch_Some) simp

text \<open>An update whose error path only raises a database error.\<close>

lemma update_bind:
  assumes "bindB (action_update_status aid st f) g s = (r, s')" "keeps_row f"
  shows "(\<exists>n. r = Inl (Db_error n)) \<or>
    (\<exists>s1. moved aid st s s1 \<and> same_asks s s1 \<and> same_runs s s1 \<and> b_buckets s1 = b_buckets s \<and> b_ledger s1 = b_ledger s \<and>
       (\<exists>a. action_get s aid = Some a \<and> ck_butler_action (f (a\<lparr>ba_status := st\<rparr>))) \<and> g () s1 = (r, s'))"
proof -
  obtain r1 s1 where u: "action_update_status aid st f s = (r1, s1)" by fastforce
  from action_update_result [OF u assms(2)] show ?thesis
  proof
    assume "s1 = s \<and> (\<exists>n. r1 = Inl (Db_error n))"
    with u assms(1) show ?thesis by (auto simp: bindB_def)
  next
    assume "r1 = Inr () \<and> moved aid st s s1 \<and> same_asks s s1 \<and> same_runs s s1 \<and> b_buckets s1 = b_buckets s \<and>
      b_ledger s1 = b_ledger s \<and> (\<exists>a. action_get s aid = Some a \<and> ck_butler_action (f (a\<lparr>ba_status := st\<rparr>)))"
    with u assms(1) show ?thesis by (auto simp: bindB_def)
  qed
qed

subsection \<open>Confirming\<close>

text \<open>
  Every way confirming can end: a database error; an error with nothing written; an overdue action is
  expired; or exactly the caller's own open question, answered with its token before its deadline, is
  marked, and when it was the last one the action is confirmed or, on changed evidence, rejected.
\<close>

definition confirm_ends ::
  "butler_env \<Rightarrow> int \<Rightarrow> int \<Rightarrow> int \<Rightarrow> string \<Rightarrow> bdb \<Rightarrow> butler_error + butler_action \<Rightarrow> bdb \<Rightarrow> bool" where
  "confirm_ends env now aid uid token s r s' \<longleftrightarrow>
     (\<exists>n. r = Inl (Db_error n) \<or> r = Inl (Evidence_error n)) \<or> (s' = s \<and> (\<exists>k. r = Inl (Butler_error k))) \<or>
     (\<exists>a. action_get s aid = Some a \<and> ba_status a = BA_pending_confirmation \<and> same_runs s s' \<and> b_buckets s' = b_buckets s \<and>
       ((r = Inl (Butler_error ''expired'') \<and> (\<exists>t. ba_expires a = Some t \<and> t \<le> now) \<and> moved aid BA_expired s s' \<and> same_asks s s') \<or>
        ((\<forall>t. ba_expires a = Some t \<longrightarrow> now < t) \<and>
         (\<exists>c \<in> set (b_confs s). bc_action c = aid \<and> bc_confirmer c = uid \<and> bc_status c \<noteq> C_confirmed \<and>
           bc_token c = token \<and> now < bc_expires c \<and> marked (bc_id c) C_confirmed s s' \<and>
           ((r = Inr a \<and> same_acts s s' \<and> \<not> all_confirmed s' aid) \<or>
            (r = Inl (Butler_error ''evidence_stale'') \<and> moved aid BA_rejected s s' \<and> all_confirmed s' aid) \<or>
            (is_ok r \<and> moved aid BA_confirmed s s' \<and> all_confirmed s' aid \<and>
             (\<exists>ctx. env_evidence env (ba_requester a) (ba_query a)
               (if ba_chat a = 0 then None else Some (ba_chat a)) (ba_scope a) = Inr ctx \<and> ev_hash ctx = ba_hash a)))))))"

lemma conf_for_user_result:
  "conf_for_user aid uid s = (r, s') \<Longrightarrow> s' = s \<and>
     ((\<exists>n. r = Inl (Db_error n)) \<or> r = Inr None \<or>
      (\<exists>c. r = Inr (Some c) \<and> c \<in> set (b_confs s) \<and> bc_action c = aid \<and> bc_confirmer c = uid))"
proof -
  assume r: "conf_for_user aid uid s = (r, s')"
  let ?l = "filter (\<lambda>c. bc_action c = aid \<and> bc_confirmer c = uid) (b_confs s)"
  show ?thesis
  proof (cases ?l)
    case Nil with r show ?thesis by (auto simp: conf_for_user_def)
  next
    case (Cons c cs)
    then have "c \<in> set ?l" by simp
    with Cons r show ?thesis by (cases cs) (auto simp: conf_for_user_def)
  qed
qed

lemma refetch_result [simp]: "refetch a s = (Inr (coalesce (action_get s (ba_id a)) a), s)"
  by (simp add: refetch_def)

lemma confirm_evidence_ends:
  assumes run: "confirm_evidence env now a s1 = (r, s')" and id: "ba_id a = aid"
    and m: "marked cid C_confirmed s s1" "same_acts s s1" "same_runs s s1" "b_buckets s1 = b_buckets s"
    and all: "all_confirmed s1 aid"
  shows "(\<exists>n. r = Inl (Db_error n) \<or> r = Inl (Evidence_error n)) \<or>
    (marked cid C_confirmed s s' \<and> same_runs s s' \<and> b_buckets s' = b_buckets s \<and> all_confirmed s' aid \<and>
     ((r = Inl (Butler_error ''evidence_stale'') \<and> moved aid BA_rejected s s') \<or>
      (is_ok r \<and> moved aid BA_confirmed s s' \<and>
       (\<exists>ctx. env_evidence env (ba_requester a) (ba_query a)
         (if ba_chat a = 0 then None else Some (ba_chat a)) (ba_scope a) = Inr ctx \<and> ev_hash ctx = ba_hash a))))"
proof -
  have keep: "marked cid C_confirmed s s' \<and> same_runs s s' \<and> b_buckets s' = b_buckets s \<and> all_confirmed s' aid \<and> moved aid st s s'"
    if "moved aid st s1 s'" "same_asks s1 s'" "same_runs s1 s'" "b_buckets s' = b_buckets s1" for st
    using that m all by (simp add: marked_def moved_def same_defs all_confirmed_def confs_of_def action_get_def)
  show ?thesis
  proof (cases "env_evidence env (ba_requester a) (ba_query a)
      (if ba_chat a = 0 then None else Some (ba_chat a)) (ba_scope a)")
    case (Inl exc)
    then show ?thesis using run by (auto simp: confirm_evidence_def build_evidence_def bindB_def)
  next
    case ctx: (Inr ctx)
    show ?thesis
    proof (cases "ev_hash ctx = ba_hash a")
      case True
      then have "bindB (action_update_status aid BA_confirmed (\<lambda>a. a\<lparr>ba_confirmed_at := Some now\<rparr>)) (\<lambda>_. refetch a) s1 = (r, s')"
        using run id ctx by (simp add: confirm_evidence_def build_evidence_def bindB_def [of "build_evidence _ _ _ _ _"])
      from update_bind [OF this] keep True ctx show ?thesis by auto
    next
      case False
      then have "bindB (action_update_status aid BA_rejected (reject_reason ''evidence_stale''))
          (\<lambda>_. raiseB ''evidence_stale'') s1 = (r, s')"
        using run id ctx by (simp add: confirm_evidence_def build_evidence_def bindB_def [of "build_evidence _ _ _ _ _"])
      from update_bind [OF this] keep show ?thesis by auto
    qed
  qed
qed

lemma confirm_action_ends:
  assumes run: "confirm_action env now aid uid token s = (r, s')"
  shows "confirm_ends env now aid uid token s r s'"
proof -
  have quiet: "confirm_ends env now aid uid token s r s'" if "s' = s" "r = Inl (Butler_error k)" for k
    using that by (auto simp: confirm_ends_def)
  have db: "confirm_ends env now aid uid token s r s'" if "r = Inl (Db_error n)" for n
    using that by (auto simp: confirm_ends_def)
  from lock_bind [OF run [unfolded confirm_action_def]] show ?thesis
  proof (elim disjE conjE exE)
    assume "r = Inl (Butler_error ''cascade_in_flight'')" "s' = s"
    then show ?thesis using quiet by blast
  next
    fix a assume a: "action_get s aid = Some a"
      and body: "(if ba_status a \<in> {BA_expired, BA_cancelled} \<and> ba_rejection a = Some ''source_forgotten''
        then raiseB ''source_forgotten'' else
        bindB (conf_for_user aid uid) (\<lambda>early.
        if (case early of None \<Rightarrow> False | Some c \<Rightarrow> bc_status c = C_confirmed)
        then raiseB ''already_confirmed_by_user'' else
        if ba_status a \<noteq> BA_pending_confirmation
        then raiseB (if ba_status a = BA_expired then ''expired'' else ''wrong_status'') else
        if (case ba_expires a of None \<Rightarrow> False | Some t \<Rightarrow> t \<le> now)
        then bindB (action_update_status aid BA_expired (reject_reason ''ttl_expired'')) (\<lambda>_. raiseB ''expired'') else
        bindB (conf_for_user aid uid) (\<lambda>found.
        case found of
          None \<Rightarrow> raiseB ''bad_token''
        | Some c \<Rightarrow>
            if bc_status c = C_confirmed then raiseB ''already_confirmed_by_user''
            else if bc_token c \<noteq> token then raiseB ''bad_token''
            else if bc_expires c \<le> now then raiseB ''expired''
            else bindB (conf_resolve (bc_id c) C_confirmed now) (\<lambda>_.
                 bindB (getB (\<lambda>s. all_confirmed s aid)) (\<lambda>complete.
                 if \<not> complete then returnB a else confirm_evidence env now a))))) s = (r, s')"
    obtain fr s0 where f: "conf_for_user aid uid s = (fr, s0)" by fastforce
    note fres = conf_for_user_result [OF f]
    show ?thesis
    proof (cases fr)
      case (Inl e)
      then show ?thesis using body f fres quiet db by (auto simp: bindB_def split: if_splits)
    next
      case fr: (Inr found)
      have f': "conf_for_user aid uid s = (Inr found, s)" using f fr fres by simp
      consider (gone) "ba_status a \<in> {BA_expired, BA_cancelled} \<and> ba_rejection a = Some ''source_forgotten''"
        | (go) "\<not> (ba_status a \<in> {BA_expired, BA_cancelled} \<and> ba_rejection a = Some ''source_forgotten'')" by blast
      then consider (quiet) k where "s' = s" "r = Inl (Butler_error k)"
        | (overdue) t where "ba_status a = BA_pending_confirmation" "ba_expires a = Some t" "t \<le> now"
            "bindB (action_update_status aid BA_expired (reject_reason ''ttl_expired'')) (\<lambda>_. raiseB ''expired'') s = (r, s')"
        | (answer) c where "ba_status a = BA_pending_confirmation" "\<forall>t. ba_expires a = Some t \<longrightarrow> now < t"
            "c \<in> set (b_confs s)" "bc_action c = aid" "bc_confirmer c = uid" "bc_status c \<noteq> C_confirmed"
            "bc_token c = token" "now < bc_expires c"
            "bindB (conf_resolve (bc_id c) C_confirmed now) (\<lambda>_. bindB (getB (\<lambda>s. all_confirmed s aid)) (\<lambda>complete.
                 if \<not> complete then returnB a else confirm_evidence env now a)) s = (r, s')"
      proof cases
        case gone
        then show thesis using body quiet by auto
      next
        case go
        note b1 = body [unfolded if_not_P [OF go], unfolded bindB_def [of "conf_for_user aid uid"] f', simplified]
        show thesis
        proof (cases "(case found of None \<Rightarrow> False | Some c \<Rightarrow> bc_status c = C_confirmed) \<or> ba_status a \<noteq> BA_pending_confirmation")
          case True
          then show thesis using b1 quiet by (auto split: if_splits)
        next
          case open_q: False
          show thesis
          proof (cases "case ba_expires a of None \<Rightarrow> False | Some t \<Rightarrow> t \<le> now")
            case True
            then obtain t where "ba_expires a = Some t" "t \<le> now" by (auto split: option.splits)
            with b1 open_q show thesis by (intro overdue) simp_all
          next
            case ontime: False
            then have ot: "\<forall>t. ba_expires a = Some t \<longrightarrow> now < t" by auto
            show thesis
            proof (cases found)
              case None
              then have "s' = s \<and> r = Inl (Butler_error ''bad_token'')"
                using b1 open_q ontime by (simp add: bindB_def f')
              then show thesis using quiet by blast
            next
              case (Some c)
              with fres fr have c: "c \<in> set (b_confs s)" "bc_action c = aid" "bc_confirmer c = uid" by auto
              show thesis
              proof (cases "bc_token c = token \<and> now < bc_expires c")
                case True
                then show thesis using b1 open_q ontime Some c ot by (intro answer) (simp_all add: bindB_def [of "conf_for_user aid uid"] f')
              next
                case False
                then have "s' = s \<and> (\<exists>k. r = Inl (Butler_error k))"
                  using b1 open_q ontime Some by (auto simp: bindB_def [of "conf_for_user aid uid"] f' split: if_splits)
                then show thesis using quiet by blast
              qed
            qed
          qed
        qed
      qed
      then show ?thesis
      proof cases
        case quiet
        then show ?thesis by (auto simp: confirm_ends_def)
      next
        case (overdue t)
        from update_bind [OF overdue(4)] show ?thesis
          using a overdue(1-3) unfolding confirm_ends_def by auto
      next
        case (answer c)
        obtain r1 s1 where u: "conf_resolve (bc_id c) C_confirmed now s = (r1, s1)" by fastforce
        from conf_resolve_result [OF u] show ?thesis
        proof (elim disjE conjE exE)
          fix n assume "r1 = Inl (Db_error n)"
          then show ?thesis using answer(9) u db by (auto simp: bindB_def)
        next
          assume r1: "r1 = Inr ()" and m: "marked (bc_id c) C_confirmed s s1" "same_acts s s1" "same_runs s s1"
            "b_buckets s1 = b_buckets s"
          have rest: "(if \<not> all_confirmed s1 aid then returnB a else confirm_evidence env now a) s1 = (r, s')"
            using answer(9) u r1 by (simp add: bindB_def)
          show ?thesis
          proof (cases "all_confirmed s1 aid")
            case True
            with rest have "confirm_evidence env now a s1 = (r, s')" by simp
            from confirm_evidence_ends [OF this _ m True] action_get_id [OF a] a answer(1-8)
            show ?thesis unfolding confirm_ends_def by blast
          next
            case False
            with rest have "r = Inr a" "s' = s1" by simp_all
            with False m a answer(1-8) show ?thesis unfolding confirm_ends_def by blast
          qed
        qed
      qed
    qed
  qed
qed

end
