(* ===== verification/ButlerRuns.thy ===== *)
theory ButlerRuns
  imports ButlerFacts "HOL-Library.Sublist"
begin

section \<open>Executing, withdrawing and expiring an action\<close>

text \<open>
  Outcome lemmas of \<open>execute_action\<close>, \<open>cancel_action\<close>, \<open>revoke_affected_user_consent\<close>,
  \<open>expire_action\<close> and its copy in the scheduler.  The run of a plan is described by the calls it
  makes to the tools and by the invocation rows it leaves.
\<close>

subsection \<open>Rows that are moved more than once\<close>

lemma moved_trans:
  assumes "moved aid st s s1" "moved aid st' s1 s2"
  shows "moved aid st' s s2"
proof -
  from assms(1) obtain g where g: "\<forall>a. same_row a (g a) \<and> ba_status (g a) = st"
      "b_actions s1 = update_where (\<lambda>a. ba_id a = aid) g (b_actions s)" "b_next_action s1 = b_next_action s"
    by (auto simp: moved_def)
  from assms(2) obtain h where h: "\<forall>a. same_row a (h a) \<and> ba_status (h a) = st'"
      "\<forall>a. action_get s1 aid = Some a \<longrightarrow> ck_butler_action (h a)"
      "b_actions s2 = update_where (\<lambda>a. ba_id a = aid) h (b_actions s1)" "b_next_action s2 = b_next_action s1"
    by (auto simp: moved_def)
  have ids: "ba_id (g a) = ba_id a" for a using g(1) same_row_id by blast
  show ?thesis
    unfolding moved_def
  proof (intro conjI exI [of _ "h \<circ> g"])
    show "b_actions s2 = update_where (\<lambda>a. ba_id a = aid) (h \<circ> g) (b_actions s)"
      unfolding h(3) g(2) by (simp add: update_where_def ids)
    show "\<forall>a. same_row a ((h \<circ> g) a) \<and> ba_status ((h \<circ> g) a) = st'"
      using g(1) h(1) by (simp add: same_row_def)
    show "\<forall>a. action_get s aid = Some a \<longrightarrow> ck_butler_action ((h \<circ> g) a)"
    proof (intro allI impI)
      fix a assume a: "action_get s aid = Some a"
      have "action_get s1 aid = Some (g a)"
        unfolding action_get_def g(2) using a action_get_id [OF a] by (simp add: fetch_update_where ids action_get_def)
      with h(2) show "ck_butler_action ((h \<circ> g) a)" by simp
    qed
  qed (use g h in simp_all)
qed

lemma moved_same_acts:
  "moved aid st s s1 \<Longrightarrow> same_acts s1 s2 \<Longrightarrow> moved aid st s s2"
  "same_acts s s1 \<Longrightarrow> moved aid st s1 s2 \<Longrightarrow> moved aid st s s2"
  by (auto simp: moved_def same_acts_def action_get_def)

lemma moved_get:
  assumes "moved aid st s s'" "action_get s aid = Some a"
  shows "\<exists>b. action_get s' aid = Some b \<and> ba_status b = st \<and> same_row a b"
proof -
  from assms(1) obtain g where g: "\<forall>a. same_row a (g a) \<and> ba_status (g a) = st"
      "b_actions s' = update_where (\<lambda>a. ba_id a = aid) g (b_actions s)"
    by (auto simp: moved_def)
  have "action_get s' aid = Some (g a)"
    unfolding action_get_def g(2) using assms(2) g(1) action_get_id [OF assms(2)]
    by (simp add: fetch_update_where action_get_def same_row_id)
  with g(1) show ?thesis by blast
qed

subsection \<open>One step\<close>

text \<open>What a run leaves alone, and how the action's row may have changed while it runs.\<close>

definition run_frame :: "bdb \<Rightarrow> bdb \<Rightarrow> bool" where
  "run_frame s s' \<longleftrightarrow> same_asks s s' \<and> b_undos s' = b_undos s \<and> b_next_undo s' = b_next_undo s \<and>
     undo_calls s' = undo_calls s \<and> b_buckets s' = b_buckets s \<and> b_ledger s' = b_ledger s"

definition still_running :: "int \<Rightarrow> bdb \<Rightarrow> bdb \<Rightarrow> bool" where
  "still_running aid s s' \<longleftrightarrow> same_acts s s' \<or> moved aid BA_executing s s'"

text \<open>The invocation rows of a run are new and belong to its steps, in order.\<close>

definition row_of :: "int \<Rightarrow> invocation \<Rightarrow> nat \<times> plan_step \<Rightarrow> bool" where
  "row_of aid i q \<longleftrightarrow> bi_action i = aid \<and> bi_seq i = fst q \<and> bi_tool i = st_tool (snd q)"

lemma run_frame_refl [simp]: "run_frame s s"
  by (simp add: run_frame_def)

lemma run_frame_trans: "run_frame s s1 \<Longrightarrow> run_frame s1 s2 \<Longrightarrow> run_frame s s2"
  by (simp add: run_frame_def same_asks_def)

lemma still_running_trans: "still_running aid s s1 \<Longrightarrow> still_running aid s1 s2 \<Longrightarrow> still_running aid s s2"
  unfolding still_running_def by (meson moved_trans moved_same_acts same_trans(2))

lemma still_running_moved: "still_running aid s s1 \<Longrightarrow> moved aid st s1 s2 \<Longrightarrow> moved aid st s s2"
  unfolding still_running_def by (meson moved_trans moved_same_acts)

lemma still_running_refl [simp]: "still_running aid s s"
  by (simp add: still_running_def)

lemma inv_create_result:
  "inv_create aid tool seq key args h s = (r, s') \<Longrightarrow>
     (s' = s \<and> (\<exists>n. r = Inl (Db_error n))) \<or>
     (r = Inr (b_next_inv s) \<and> run_frame s s' \<and> same_acts s s' \<and> tool_calls s' = tool_calls s \<and>
      b_next_inv s' = b_next_inv s + 1 \<and>
      (\<exists>i. b_invs s' = b_invs s @ [i] \<and> bi_id i = b_next_inv s \<and> bi_action i = aid \<and> bi_seq i = seq \<and> bi_tool i = tool))"
  by (auto simp: inv_create_def run_frame_def same_defs split: if_splits)

text \<open>Updates of the row just created, which is the last one.\<close>

definition keeps_inv :: "(invocation \<Rightarrow> invocation) \<Rightarrow> bool" where
  "keeps_inv f \<longleftrightarrow> (\<forall>i. bi_id (f i) = bi_id i \<and> bi_action (f i) = bi_action i \<and> bi_seq (f i) = bi_seq i \<and> bi_tool (f i) = bi_tool i)"

lemma inv_update_last:
  assumes "inv_update n f s = (r, s')" "b_invs s = is @ [i]" "bi_id i = n" "\<forall>j \<in> set is. bi_id j < n"
  shows "r = Inr () \<and> s' = s\<lparr>b_invs := is @ [f i]\<rparr>"
proof -
  have "update_where (\<lambda>j. bi_id j = n) f is = is" using assms(4) by (induction "is") auto
  then show ?thesis using assms(1-3) by (auto simp: inv_update_def update_where_def)
qed

text \<open>The state while the step of row \<open>i\<close> is worked on: \<open>i\<close> is the last row and new.\<close>

definition on_row :: "bdb \<Rightarrow> invocation list \<Rightarrow> int \<Rightarrow> nat \<times> plan_step \<Rightarrow> bool \<Rightarrow> bdb \<Rightarrow> bool" where
  "on_row s is aid q done s' \<longleftrightarrow> run_frame s s' \<and>
     (\<exists>i. b_invs s' = is @ [i] \<and> row_of aid i q \<and> (done \<longrightarrow> bi_status i = I_succeeded) \<and>
        (\<forall>j \<in> set is. bi_id j < bi_id i) \<and> bi_id i < b_next_inv s')"

lemma fail_step_ends:
  assumes run: "fail_step now iid a err resp s = (r, s')"
    and row: "b_invs s = is @ [i]" "bi_id i = iid" "\<forall>j \<in> set is. bi_id j < iid"
  shows "tool_calls s' = tool_calls s \<and> ((\<exists>n. r = Inl (Db_error n)) \<or>
    (is_ok r \<and> run_frame s s' \<and> moved (ba_id a) BA_execution_failed s s' \<and> b_next_inv s' = b_next_inv s \<and>
     (\<exists>j. b_invs s' = is @ [j] \<and> bi_id j = bi_id i \<and> bi_action j = bi_action i \<and> bi_seq j = bi_seq i \<and>
        bi_tool j = bi_tool i \<and> bi_status j = I_failed)))"
proof -
  let ?f = "\<lambda>i. i\<lparr>bi_status := I_failed, bi_error := Some err,
        bi_response := (if resp = None then bi_response i else resp), bi_finished_at := Some now\<rparr>"
  obtain r1 s1 where u: "inv_update iid ?f s = (r1, s1)" by fastforce
  from inv_update_last [OF u row] have r1: "r1 = Inr ()" and s1: "s1 = s\<lparr>b_invs := is @ [?f i]\<rparr>" by auto
  have "bindB (action_update_status (ba_id a) BA_execution_failed (\<lambda>a. a\<lparr>ba_error := Some err, ba_executed_at := Some now\<rparr>))
      (\<lambda>_. refetch a) s1 = (r, s')"
    using run u r1 by (simp add: fail_step_def bindB_def)
  then obtain r2 s2 where u2: "action_update_status (ba_id a) BA_execution_failed
      (\<lambda>a. a\<lparr>ba_error := Some err, ba_executed_at := Some now\<rparr>) s1 = (r2, s2)"
    and res: "(r, s') = (case r2 of Inl e \<Rightarrow> (Inl e, s2) | Inr _ \<Rightarrow> refetch a s2)"
    by (auto simp: bindB_def split: prod.splits sum.splits)
  from action_update_result [OF u2] have "(s2 = s1 \<and> (\<exists>n. r2 = Inl (Db_error n))) \<or>
      (r2 = Inr () \<and> moved (ba_id a) BA_execution_failed s1 s2 \<and> same_asks s1 s2 \<and> same_runs s1 s2 \<and>
       b_buckets s2 = b_buckets s1 \<and> b_ledger s2 = b_ledger s1)" by auto
  then show ?thesis
  proof (elim disjE conjE exE)
    fix n assume "s2 = s1" "r2 = Inl (Db_error n)"
    with res s1 show ?thesis by simp
  next
    assume *: "r2 = Inr ()" "moved (ba_id a) BA_execution_failed s1 s2" "same_asks s1 s2" "same_runs s1 s2"
       "b_buckets s2 = b_buckets s1" "b_ledger s2 = b_ledger s1"
    from res *(1) have s': "s' = s2" "is_ok r" by simp_all
    have m: "moved (ba_id a) BA_execution_failed s s2"
      by (rule moved_same_acts(2) [OF _ *(2)]) (simp add: s1 same_acts_def)
    show ?thesis unfolding s'(1)
      by (intro conjI disjI2 exI [of _ "?f i"]) (use * m s' in \<open>simp_all add: s1 run_frame_def same_defs\<close>)
  qed
qed

lemma succeed_step_ends:
  assumes run: "succeed_step env now iid a name payload s = (r, s')"
    and row: "b_invs s = is @ [i]" "bi_id i = iid" "\<forall>j \<in> set is. bi_id j < iid"
  shows "tool_calls s' = tool_calls s \<and> ((\<exists>n. r = Inl (Db_error n)) \<or>
    (r = Inr () \<and> run_frame s s' \<and> still_running (ba_id a) s s' \<and> b_next_inv s' = b_next_inv s \<and>
     (\<exists>j. b_invs s' = is @ [j] \<and> bi_id j = bi_id i \<and> bi_action j = bi_action i \<and> bi_seq j = bi_seq i \<and>
        bi_tool j = bi_tool i \<and> bi_status j = I_succeeded)))"
proof -
  let ?f = "\<lambda>i. i\<lparr>bi_status := I_succeeded, bi_response := Some payload,
        bi_response_hash := Some (env_hash env payload), bi_finished_at := Some now,
        bi_posted := (if posted_message name payload = None then bi_posted i else posted_message name payload)\<rparr>"
  obtain r1 s1 where u: "inv_update iid ?f s = (r1, s1)" by fastforce
  from inv_update_last [OF u row] have r1: "r1 = Inr ()" and s1: "s1 = s\<lparr>b_invs := is @ [?f i]\<rparr>" by auto
  consider (quiet) "r = Inr ()" "s' = s1"
    | (store) tool p where "env_tools env name = Some tool" "tool_inverse tool payload = Some p"
        "bindB (action_update_status (ba_id a) BA_executing (\<lambda>a. a\<lparr>ba_inverse := Some p\<rparr>)) (\<lambda>_.
              inv_update iid (\<lambda>i. i\<lparr>bi_status := I_succeeded, bi_inverse := Some p\<rparr>)) s1 = (r, s')"
    using run u r1 by (auto simp: succeed_step_def bindB_def split: option.splits)
  then show ?thesis
  proof cases
    case quiet
    then show ?thesis
      by (intro conjI disjI2 exI [of _ "?f i"]) (simp_all add: s1 run_frame_def same_defs still_running_def)
  next
    case (store tool p)
    let ?g = "\<lambda>i. i\<lparr>bi_status := I_succeeded, bi_inverse := Some p\<rparr>"
    obtain r2 s2 where u2: "action_update_status (ba_id a) BA_executing (\<lambda>a. a\<lparr>ba_inverse := Some p\<rparr>) s1 = (r2, s2)"
      by fastforce
    from action_update_result [OF u2] have "(s2 = s1 \<and> (\<exists>n. r2 = Inl (Db_error n))) \<or>
      (r2 = Inr () \<and> moved (ba_id a) BA_executing s1 s2 \<and> same_asks s1 s2 \<and> same_runs s1 s2 \<and>
       b_buckets s2 = b_buckets s1 \<and> b_ledger s2 = b_ledger s1)" by auto
    then show ?thesis
    proof (elim disjE conjE exE)
      fix n assume "s2 = s1" "r2 = Inl (Db_error n)"
      with store u2 show ?thesis by (auto simp: bindB_def s1)
    next
      assume *: "r2 = Inr ()" "moved (ba_id a) BA_executing s1 s2" "same_asks s1 s2" "same_runs s1 s2"
       "b_buckets s2 = b_buckets s1" "b_ledger s2 = b_ledger s1"
      have m: "moved (ba_id a) BA_executing s s2"
        by (rule moved_same_acts(2) [OF _ *(2)]) (simp add: s1 same_acts_def)
      have up: "inv_update iid ?g s2 = (r, s')" using store(3) u2 *(1) by (simp add: bindB_def)
      have rows: "b_invs s2 = is @ [?f i]" using *(4) by (simp add: s1 same_runs_def)
      have "r = Inr () \<and> s' = s2\<lparr>b_invs := is @ [?g (?f i)]\<rparr>"
        by (rule inv_update_last [OF up rows]) (use row in simp_all)
      then have res: "r = Inr ()" "s' = s2\<lparr>b_invs := is @ [?g (?f i)]\<rparr>" by auto
      have m': "moved (ba_id a) BA_executing s s'"
        by (rule moved_same_acts(1) [OF m]) (simp add: res same_acts_def)
      then show ?thesis
        by (intro conjI disjI2 exI [of _ "?g (?f i)"])
          (use * res in \<open>simp_all add: s1 run_frame_def same_defs still_running_def\<close>)
    qed
  qed
qed

subsection \<open>The steps of a plan\<close>

text \<open>The calls a run makes: at most one per step, in the order of the plan, each to the step's own tool.\<close>

definition call_of :: "int \<Rightarrow> tool_call \<Rightarrow> nat \<times> plan_step \<Rightarrow> bool" where
  "call_of aid c q \<longleftrightarrow> tc_action c = aid \<and> tc_seq c = fst q \<and> tc_tool c = st_tool (snd q)"

definition calls_along :: "int \<Rightarrow> nat \<Rightarrow> plan_step list \<Rightarrow> tool_call list \<Rightarrow> bool" where
  "calls_along aid seq sts cs \<longleftrightarrow> (\<exists>qs. subseq qs (enumerate seq sts) \<and> list_all2 (call_of aid) cs qs)"

lemma calls_along_Nil [simp]: "calls_along aid seq sts []"
  by (auto simp: calls_along_def intro!: exI [of _ "[]"])

lemma calls_along_call:
  "calls_along aid (Suc seq) sts cs \<Longrightarrow>
   calls_along aid seq (st # sts) (\<lparr>tc_action = aid, tc_seq = seq, tc_tool = st_tool st\<rparr> # cs)"
  unfolding calls_along_def
  by (elim exE conjE, rule_tac x = "(seq, st) # qs" in exI) (simp add: call_of_def)

lemma calls_along_skip: "calls_along aid (Suc seq) sts cs \<Longrightarrow> calls_along aid seq (st # sts) cs"
  unfolding calls_along_def by (metis enumerate_simps(2) list_emb_Cons)

lemma calls_along_one:
  "calls_along aid seq (st # sts) [\<lparr>tc_action = aid, tc_seq = seq, tc_tool = st_tool st\<rparr>]"
  using calls_along_call [OF calls_along_Nil] .

text \<open>Every way a run of the remaining steps can end.\<close>

definition rows_along :: "int \<Rightarrow> nat \<Rightarrow> plan_step list \<Rightarrow> invocation list \<Rightarrow> bool" where
  "rows_along aid seq sts is \<longleftrightarrow> length is \<le> length sts \<and>
     list_all2 (row_of aid) is (take (length is) (enumerate seq sts))"

definition run_ends ::
  "int \<Rightarrow> nat \<Rightarrow> plan_step list \<Rightarrow> bdb \<Rightarrow> butler_error + butler_action option \<Rightarrow> bdb \<Rightarrow> bool" where
  "run_ends aid seq sts s r s' \<longleftrightarrow>
     (\<exists>cs. tool_calls s' = tool_calls s @ cs \<and> calls_along aid seq sts cs) \<and>
     ((\<exists>n. r = Inl (Db_error n) \<or> r = Inl (Plan_error n) \<or> r = Inl (Evidence_error n)) \<or>
      (run_frame s s' \<and> ids_below bi_id (b_next_inv s') (b_invs s') \<and>
       (\<exists>is. b_invs s' = b_invs s @ is \<and> rows_along aid seq sts is \<and>
         ((r = Inr None \<and> still_running aid s s' \<and> length is = length sts \<and> list_all (\<lambda>i. bi_status i = I_succeeded) is) \<or>
          (\<exists>b. r = Inr (Some b) \<and> moved aid BA_execution_failed s s' \<and> is \<noteq> [] \<and> bi_status (last is) = I_failed \<and>
             list_all (\<lambda>i. bi_status i = I_succeeded) (butlast is))))))"

lemma rows_along_Cons:
  "rows_along aid (Suc seq) sts is \<Longrightarrow> row_of aid i (seq, st) \<Longrightarrow> rows_along aid seq (st # sts) (i # is)"
  by (simp add: rows_along_def)

lemma ids_below_last: "ids_below bi_id n is \<Longrightarrow> bi_id i = n \<Longrightarrow> ids_below bi_id (n + 1) (is @ [i])"
  by (rule ids_below_append)

text \<open>A step that succeeded, followed by the rest of the run.\<close>

lemma run_ends_step:
  assumes pre: "run_frame s s1" "still_running aid s s1" "tool_calls s1 = tool_calls s @ cs"
    and cs: "cs = [] \<or> cs = [\<lparr>tc_action = aid, tc_seq = seq, tc_tool = st_tool st\<rparr>]"
    and row: "b_invs s1 = b_invs s @ [j]" "row_of aid j (seq, st)" "bi_status j = I_succeeded"
    and rest: "run_ends aid (Suc seq) sts s1 r s'"
  shows "run_ends aid seq (st # sts) s r s'"
proof -
  from rest obtain cs' where cs': "tool_calls s' = tool_calls s1 @ cs'" "calls_along aid (Suc seq) sts cs'"
    by (auto simp: run_ends_def)
  have calls: "\<exists>cs. tool_calls s' = tool_calls s @ cs \<and> calls_along aid seq (st # sts) cs"
    using cs cs' pre(3) calls_along_call [OF cs'(2)] calls_along_skip [OF cs'(2)]
    by (intro exI [of _ "cs @ cs'"]) auto
  from rest consider (err) n where "r = Inl (Db_error n) \<or> r = Inl (Plan_error n) \<or> r = Inl (Evidence_error n)"
    | (fin) "is" where "run_frame s1 s'" "ids_below bi_id (b_next_inv s') (b_invs s')" "b_invs s' = b_invs s1 @ is"
        "rows_along aid (Suc seq) sts is"
        "(r = Inr None \<and> still_running aid s1 s' \<and> length is = length sts \<and> list_all (\<lambda>i. bi_status i = I_succeeded) is) \<or>
          (\<exists>b. r = Inr (Some b) \<and> moved aid BA_execution_failed s1 s' \<and> is \<noteq> [] \<and> bi_status (last is) = I_failed \<and>
             list_all (\<lambda>i. bi_status i = I_succeeded) (butlast is))"
    unfolding run_ends_def by blast
  then show ?thesis
  proof cases
    case err
    with calls show ?thesis unfolding run_ends_def by blast
  next
    case fin
    have frame: "run_frame s s'" by (rule run_frame_trans [OF pre(1) fin(1)])
    have rows: "rows_along aid seq (st # sts) (j # is)" by (rule rows_along_Cons [OF fin(4) row(2)])
    have last: "(r = Inr None \<and> still_running aid s s' \<and> length (j # is) = length (st # sts) \<and>
          list_all (\<lambda>i. bi_status i = I_succeeded) (j # is)) \<or>
        (\<exists>b. r = Inr (Some b) \<and> moved aid BA_execution_failed s s' \<and> j # is \<noteq> [] \<and> bi_status (last (j # is)) = I_failed \<and>
           list_all (\<lambda>i. bi_status i = I_succeeded) (butlast (j # is)))"
      using fin(5) still_running_trans [OF pre(2)] still_running_moved [OF pre(2)] row(3) by auto
    have inv: "b_invs s' = b_invs s @ (j # is)" using fin(3) row(1) by simp
    show ?thesis unfolding run_ends_def using calls frame fin(2) inv rows last by blast
  qed
qed

text \<open>A step that failed ends the run.\<close>

lemma run_ends_fail:
  assumes "run_frame s s'" "moved aid BA_execution_failed s s'" "tool_calls s' = tool_calls s @ cs"
    and cs: "cs = [] \<or> cs = [\<lparr>tc_action = aid, tc_seq = seq, tc_tool = st_tool st\<rparr>]"
    and row: "b_invs s' = b_invs s @ [j]" "row_of aid j (seq, st)" "bi_status j = I_failed"
    and ids: "ids_below bi_id (b_next_inv s') (b_invs s')"
  shows "run_ends aid seq (st # sts) s (Inr (Some b)) s'"
  unfolding run_ends_def
proof (intro conjI disjI2 exI [of _ "[j]"])
  show "\<exists>cs. tool_calls s' = tool_calls s @ cs \<and> calls_along aid seq (st # sts) cs"
    using assms(3) cs calls_along_one by auto
  show "rows_along aid seq (st # sts) [j]" using row(2) by (simp add: rows_along_def)
qed (use assms in auto)

lemma run_steps_ends:
  assumes "run_steps env now a seq sts s = (r, s')" "ids_below bi_id (b_next_inv s) (b_invs s)"
  shows "run_ends (ba_id a) seq sts s r s'"
  using assms
proof (induction sts arbitrary: seq s)
  case Nil
  then have "r = Inr None" "s' = s" by auto
  with Nil.prems(2) show ?case
    by (auto simp: run_ends_def rows_along_def intro!: exI [of _ "[]"])
next
  case (Cons st sts)
  let ?aid = "ba_id a" and ?name = "st_tool st"
  let ?call = "\<lparr>tc_action = ?aid, tc_seq = seq, tc_tool = ?name\<rparr>"
  let ?later = "run_steps env now a (Suc seq) sts"
  have err: "run_ends ?aid seq (st # sts) s r s'"
    if "r = Inl (Db_error n) \<or> r = Inl (Plan_error n) \<or> r = Inl (Evidence_error n)"
      "tool_calls s' = tool_calls s \<or> tool_calls s' = tool_calls s @ [?call]" for n
  proof -
    have "\<exists>cs. tool_calls s' = tool_calls s @ cs \<and> calls_along ?aid seq (st # sts) cs"
      using that(2) calls_along_one calls_along_Nil by (metis append_Nil2)
    with that(1) show ?thesis unfolding run_ends_def by blast
  qed
  obtain r1 s1 where c: "inv_create ?aid ?name seq (idempotency_key ?aid ?name seq) (st_args st)
      (env_hash env (J_obj [(''args'', st_args st)])) s = (r1, s1)" by fastforce
  from inv_create_result [OF c] show ?case
  proof (elim disjE conjE exE)
    fix n assume "s1 = s" "r1 = Inl (Db_error n)"
    with Cons.prems(1) c have "r = Inl (Db_error n)" "s' = s" by (simp_all add: bindB_def Let_def)
    then show ?thesis using err by blast
  next
    fix i assume r1: "r1 = Inr (b_next_inv s)" and f1: "run_frame s s1" "same_acts s s1" "tool_calls s1 = tool_calls s"
        "b_next_inv s1 = b_next_inv s + 1" "b_invs s1 = b_invs s @ [i]"
      and i: "bi_id i = b_next_inv s" "bi_action i = ?aid" "bi_seq i = seq" "bi_tool i = ?name"
    have old: "\<forall>j \<in> set (b_invs s). bi_id j < b_next_inv s" using Cons.prems(2) by (simp add: ids_below_def)
    have run1: "still_running ?aid s s1" using f1(2) by (simp add: still_running_def)
    have done_ids: "ids_below bi_id (b_next_inv s + 1) (b_invs s @ [j])" if "bi_id j = b_next_inv s" for j
      by (rule ids_below_append [OF Cons.prems(2) that])
    text \<open>A success of this step and the rest of the run, from a state that differs by the call.\<close>
    have ok: "run_ends ?aid seq (st # sts) s r s'"
      if run: "bindB (succeed_step env now (b_next_inv s) a ?name payload) (\<lambda>_. ?later) s2 = (r, s')"
        and s2: "s2 = s1 \<or> s2 = s1\<lparr>tool_calls := tool_calls s1 @ [?call]\<rparr>" for payload s2
    proof -
      define cs where "cs = (if s2 = s1 then [] else [?call])"
      have cs: "cs = [] \<or> cs = [?call]" "tool_calls s2 = tool_calls s @ cs"
        using s2 f1(3) by (auto simp: cs_def)
      have f2: "run_frame s s2" "still_running ?aid s s2" "b_invs s2 = b_invs s @ [i]" "b_next_inv s2 = b_next_inv s + 1"
        using s2 f1 run1 by (auto simp: run_frame_def same_defs still_running_def moved_def action_get_def)
      obtain r3 s3 where g: "succeed_step env now (b_next_inv s) a ?name payload s2 = (r3, s3)" by fastforce
      have out: "tool_calls s3 = tool_calls s2 \<and> ((\<exists>n. r3 = Inl (Db_error n)) \<or>
        (r3 = Inr () \<and> run_frame s2 s3 \<and> still_running ?aid s2 s3 \<and> b_next_inv s3 = b_next_inv s2 \<and>
         (\<exists>j. b_invs s3 = b_invs s @ [j] \<and> bi_id j = bi_id i \<and> bi_action j = bi_action i \<and> bi_seq j = bi_seq i \<and>
            bi_tool j = bi_tool i \<and> bi_status j = I_succeeded)))"
        by (rule succeed_step_ends [OF g f2(3)]) (use i old in simp_all)
      show ?thesis
      proof (cases r3)
        case (Inl e)
        with out obtain n where "r3 = Inl (Db_error n)" by auto
        with run g have "r = Inl (Db_error n)" "s' = s3" by (simp_all add: bindB_def)
        with out cs show ?thesis by (intro err [of n]) auto
      next
        case (Inr u)
        with out obtain j where j: "b_invs s3 = b_invs s @ [j]" "bi_id j = bi_id i" "bi_action j = bi_action i"
            "bi_seq j = bi_seq i" "bi_tool j = bi_tool i" "bi_status j = I_succeeded"
          and f3: "run_frame s2 s3" "still_running ?aid s2 s3" "b_next_inv s3 = b_next_inv s2" "tool_calls s3 = tool_calls s2"
          by auto
        have "?later s3 = (r, s')" using run g Inr by (simp add: bindB_def)
        moreover have "ids_below bi_id (b_next_inv s3) (b_invs s3)" using j f3 f2 i done_ids by simp
        ultimately have rest: "run_ends ?aid (Suc seq) sts s3 r s'" by (rule Cons.IH)
        show ?thesis
        proof (rule run_ends_step [OF _ _ _ cs(1) j(1) _ j(6) rest])
          show "run_frame s s3" by (rule run_frame_trans [OF f2(1) f3(1)])
          show "still_running ?aid s s3" by (rule still_running_trans [OF f2(2) f3(2)])
          show "tool_calls s3 = tool_calls s @ cs" using f3(4) cs(2) by simp
          show "row_of ?aid j (seq, st)" using j i by (simp add: row_of_def)
        qed
      qed
    qed
    text \<open>A failure of this step, after its call.\<close>
    have bad: "run_ends ?aid seq (st # sts) s r s'"
      if run: "bindB (fail_step now (b_next_inv s) a e resp) (\<lambda>r. returnB (Some r))
          (s1\<lparr>tool_calls := tool_calls s1 @ [?call]\<rparr>) = (r, s')" for e resp
    proof -
      let ?s2 = "s1\<lparr>tool_calls := tool_calls s1 @ [?call]\<rparr>"
      obtain r3 where g: "fail_step now (b_next_inv s) a e resp ?s2 = (r3, s')"
        and r: "r = (case r3 of Inl x \<Rightarrow> Inl x | Inr y \<Rightarrow> Inr (Some y))"
        using run by (auto simp: bindB_def split: prod.splits sum.splits)
      have rows: "b_invs ?s2 = b_invs s @ [i]" using f1 by simp
      have out: "tool_calls s' = tool_calls ?s2 \<and> ((\<exists>n. r3 = Inl (Db_error n)) \<or>
        (is_ok r3 \<and> run_frame ?s2 s' \<and> moved ?aid BA_execution_failed ?s2 s' \<and> b_next_inv s' = b_next_inv ?s2 \<and>
         (\<exists>j. b_invs s' = b_invs s @ [j] \<and> bi_id j = bi_id i \<and> bi_action j = bi_action i \<and> bi_seq j = bi_seq i \<and>
            bi_tool j = bi_tool i \<and> bi_status j = I_failed)))"
        by (rule fail_step_ends [OF g rows]) (use f1 i old in simp_all)
      show ?thesis
      proof (cases r3)
        case (Inl x)
        with out r obtain n where "r = Inl (Db_error n)" by auto
        with out f1(3) show ?thesis by (intro err [of n]) auto
      next
        case (Inr b)
        with out obtain j where j: "b_invs s' = b_invs s @ [j]" "bi_id j = bi_id i" "bi_action j = bi_action i"
            "bi_seq j = bi_seq i" "bi_tool j = bi_tool i" "bi_status j = I_failed"
          and f3: "run_frame ?s2 s'" "moved ?aid BA_execution_failed ?s2 s'" "b_next_inv s' = b_next_inv s1"
            "tool_calls s' = tool_calls s @ [?call]" using f1(3) by auto
        have "run_ends ?aid seq (st # sts) s (Inr (Some b)) s'"
        proof (rule run_ends_fail [OF _ _ f3(4) _ j(1) _ j(6)])
          show "run_frame s s'" using f1 f3(1) by (simp add: run_frame_def same_asks_def)
          show "moved ?aid BA_execution_failed s s'"
            by (rule moved_same_acts(2) [OF _ f3(2)]) (use f1 in \<open>simp add: same_acts_def\<close>)
          show "row_of ?aid j (seq, st)" using j i by (simp add: row_of_def)
          show "ids_below bi_id (b_next_inv s') (b_invs s')" using j i f3 f1 done_ids by simp
        qed simp
        with r Inr show ?thesis by simp
      qed
    qed
    show ?thesis
    proof (cases "env_tools env ?name")
      case None
      then show ?thesis using Cons.prems(1) c r1 by (intro ok [of "J_obj []" s1]) (simp_all add: bindB_def Let_def)
    next
      case (Some tool)
      have step: "bindB (build_evidence env (ba_requester a) (ba_query a) (Some (ba_chat a)) (ba_scope a)) (\<lambda>ctx.
          if \<not> env_args_ok env ?name (st_args st) then (\<lambda>s. (Inl (Plan_error ''invalid_args''), s))
          else bindB (call_tool ?aid seq ?name) (\<lambda>_.
          case tool_run tool ctx seq (st_args st) of
            Tool_raises err \<Rightarrow> bindB (fail_step now (b_next_inv s) a (take 200 err) None) (\<lambda>r. returnB (Some r))
          | Tool_result ok payload err \<Rightarrow>
              if \<not> ok
              then let e = (case err of None \<Rightarrow> cp ''tool_execution_failed''
                            | Some e \<Rightarrow> if e = [] then cp ''tool_execution_failed'' else e)
                   in bindB (fail_step now (b_next_inv s) a e (Some (J_obj [(''error'', J_str e)]))) (\<lambda>r. returnB (Some r))
              else bindB (succeed_step env now (b_next_inv s) a ?name payload) (\<lambda>_. ?later))) s1 = (r, s')"
        using Cons.prems(1) c r1 Some by (simp add: bindB_def [of "inv_create _ _ _ _ _ _"] Let_def)
      show ?thesis
      proof (cases "env_evidence env (ba_requester a) (ba_query a) (Some (ba_chat a)) (ba_scope a)")
        case (Inl exc)
        with step f1(3) show ?thesis by (intro err [of exc]) (auto simp: bindB_def build_evidence_def)
      next
      case (Inr ctx)
      note step = step [unfolded bindB_def [of "build_evidence _ _ _ _ _"] build_evidence_def Inr, simplified]
      show ?thesis
      proof (cases "env_args_ok env ?name (st_args st)")
        case False
        with step f1(3) show ?thesis by (intro err [of "''invalid_args''"]) auto
      next
        case True
        show ?thesis
        proof (cases "tool_run tool ctx seq (st_args st)")
          case (Tool_raises e)
          show ?thesis
            by (rule bad [of "take 200 e" None]) (use step True Tool_raises in \<open>simp add: call_tool_def\<close>)
        next
          case (Tool_result good payload e)
          show ?thesis
          proof (cases good)
            case True
            show ?thesis
              by (rule ok [of payload "s1\<lparr>tool_calls := tool_calls s1 @ [?call]\<rparr>"])
                (use step \<open>env_args_ok env ?name (st_args st)\<close> Tool_result True in \<open>simp_all add: call_tool_def\<close>)
          next
            case False
            let ?e = "case e of None \<Rightarrow> cp ''tool_execution_failed''
              | Some e \<Rightarrow> if e = [] then cp ''tool_execution_failed'' else e"
            show ?thesis
              by (rule bad [of ?e "Some (J_obj [(''error'', J_str ?e)])"])
                (use step True Tool_result False in \<open>simp add: call_tool_def Let_def\<close>)
          qed
        qed
      qed
      qed
    qed
  qed
qed

text \<open>An operation that leaves a part of the state alone, however it ends.\<close>

definition leaves :: "(bdb \<Rightarrow> 'x) \<Rightarrow> 'a butler \<Rightarrow> bool" where
  "leaves f m \<longleftrightarrow> (\<forall>s. f (snd (m s)) = f s)"

named_theorems leaves

lemma leaves_bind [leaves]: "leaves f m \<Longrightarrow> (\<And>x. leaves f (g x)) \<Longrightarrow> leaves f (bindB m g)"
  by (auto simp: leaves_def bindB_def split: prod.split sum.split) (metis snd_conv)+

lemma leaves_basic [leaves]:
  "leaves f (returnB x)" "leaves f (refetch a)" "leaves f (\<lambda>s. (Inl e, s))" "leaves f (getB g)" "leaves f (raiseB k)"
  "leaves f (dbErrorB n)" "leaves f (Pair r)" "leaves f (build_evidence env u q ch v)"
  by (simp_all add: leaves_def build_evidence_def split: sum.split)

lemma leaves_run: "leaves f m \<Longrightarrow> m s = (r, s') \<Longrightarrow> f s' = f s"
  unfolding leaves_def by (metis snd_conv)

text \<open>No step of a run calls the bot to undo something.\<close>

lemma undo_free_basic [leaves]:
  "leaves undo_calls (call_tool i q n)" "leaves undo_calls (inv_update i f)"
  "leaves undo_calls (inv_create i n q k j h)" "leaves undo_calls (action_update_status i st f')"
  by (simp_all add: leaves_def call_tool_def inv_update_def inv_create_def action_update_status_def split: option.split)

lemma undo_free_steps [leaves]:
  "leaves undo_calls (fail_step now iid a e resp)" "leaves undo_calls (succeed_step env now iid a name payload)"
  unfolding fail_step_def succeed_step_def by (auto intro!: leaves split: option.split)

lemma undo_free_run [leaves]: "leaves undo_calls (run_steps env now a seq sts)"
  by (induction sts arbitrary: seq) (auto simp: Let_def intro!: leaves split: option.split tool_outcome.split)

subsection \<open>execute_action\<close>

text \<open>A run that was committed: every step succeeded, or the first one that did not ended it.\<close>

definition ran :: "int \<Rightarrow> butler_plan \<Rightarrow> bdb \<Rightarrow> bdb \<Rightarrow> bool" where
  "ran aid p s s' \<longleftrightarrow> same_asks s s' \<and> b_undos s' = b_undos s \<and> b_next_undo s' = b_next_undo s \<and>
     ids_below bi_id (b_next_inv s') (b_invs s') \<and>
     (\<exists>is. b_invs s' = b_invs s @ is \<and> rows_along aid 1 (bp_actions p) is \<and>
       ((moved aid BA_succeeded s s' \<and> length is = length (bp_actions p) \<and>
         list_all (\<lambda>i. bi_status i = I_succeeded) is) \<or>
        (moved aid BA_execution_failed s s' \<and> is \<noteq> [] \<and> bi_status (last is) = I_failed \<and>
         list_all (\<lambda>i. bi_status i = I_succeeded) (butlast is))))"

text \<open>
  Every way executing can end.  Tools are called only for a confirmed action whose affected users have
  all consented; a transaction that fails keeps nothing but the calls.
\<close>

definition execute_ends ::
  "butler_settings \<Rightarrow> int \<Rightarrow> int \<Rightarrow> bdb \<Rightarrow> butler_error + butler_action \<Rightarrow> bdb \<Rightarrow> bool" where
  "execute_ends cfg now aid s r s' \<longleftrightarrow>
     (s' = s \<and> (\<exists>k. r = Inl (Butler_error k))) \<or>
     (tool_calls s' = tool_calls s \<and> undo_calls s' = undo_calls s \<and> (\<exists>n. r = Inl (Db_error n))) \<or>
     (\<exists>a. action_get s aid = Some a \<and> ba_status a = BA_confirmed \<and>
       ((missing_consent s aid \<and> r = Inl (Butler_error ''affected_user_consent_revoked'') \<and> b_buckets s' = b_buckets s \<and>
         moved aid BA_rejected s s' \<and> same_asks s s' \<and> same_runs s s') \<or>
        (\<not> missing_consent s aid \<and> r = Inl (Butler_error ''rate_limit_exceeded'') \<and> b_buckets s' = b_buckets s \<and>
         moved aid BA_rejected s s' \<and> same_asks s s' \<and> same_runs s s') \<or>
        (\<not> missing_consent s aid \<and> ba_plan a = None \<and> r = Inl (Butler_error ''invariant_broken'') \<and>
         moved aid BA_executing s s' \<and> same_asks s s' \<and> same_runs s s') \<or>
        (\<exists>p. \<not> missing_consent s aid \<and> ba_plan a = Some p \<and>
          undo_calls s' = undo_calls s \<and>
          (\<exists>cs. tool_calls s' = tool_calls s @ cs \<and> calls_along aid 1 (bp_actions p) cs) \<and>
          ((\<exists>n. r = Inl (Db_error n) \<or> r = Inl (Plan_error n) \<or> r = Inl (Evidence_error n)) \<or> (is_ok r \<and> ran aid p s s')))))"

text \<open>The buckets of the executions of a day.\<close>

lemma try_increment_False: "try_increment kind scope key win ceiling s = (Inr False, s') \<Longrightarrow> s' = s"
  by (auto simp: try_increment_def Let_def split: option.splits if_splits)

lemma reject_bind:
  assumes "bindB (action_update_status aid st f) (\<lambda>_. raiseB k) s = (r, s')" "keeps_row f"
  shows "(s' = s \<and> (\<exists>n. r = Inl (Db_error n))) \<or>
    (r = Inl (Butler_error k) \<and> moved aid st s s' \<and> same_asks s s' \<and> same_runs s s' \<and> b_buckets s' = b_buckets s)"
proof -
  obtain r1 s1 where u: "action_update_status aid st f s = (r1, s1)" by fastforce
  from action_update_result [OF this assms(2)] assms(1) u show ?thesis
    by (elim disjE) (auto simp: bindB_def)
qed

text \<open>The run proper, from the state with the status \<open>executing\<close>.\<close>

lemma execute_run_ends:
  assumes run: "bindB (run_steps env now a 1 (bp_actions p)) (\<lambda>failed. case failed of
      Some r \<Rightarrow> returnB r
    | None \<Rightarrow> bindB (action_update_status aid BA_succeeded (\<lambda>a. a\<lparr>ba_executed_at := Some now\<rparr>)) (\<lambda>_. refetch a)) s2 = (r, s')"
    and id: "ba_id a = aid" and ids: "ids_below bi_id (b_next_inv s2) (b_invs s2)"
  shows "(\<exists>cs. tool_calls s' = tool_calls s2 @ cs \<and> calls_along aid 1 (bp_actions p) cs) \<and>
     ((\<exists>n. r = Inl (Db_error n) \<or> r = Inl (Plan_error n) \<or> r = Inl (Evidence_error n)) \<or> (is_ok r \<and> ran aid p s2 s'))"
proof -
  obtain r3 s3 where g: "run_steps env now a 1 (bp_actions p) s2 = (r3, s3)" by fastforce
  note ends = run_steps_ends [OF g ids, unfolded id]
  then obtain cs where cs: "tool_calls s3 = tool_calls s2 @ cs" "calls_along aid 1 (bp_actions p) cs"
    by (auto simp: run_ends_def)
  from ends consider (err) e where "r3 = Inl e" "\<exists>n. e = Db_error n \<or> e = Plan_error n \<or> e = Evidence_error n"
    | (all) "is" where "r3 = Inr None" "run_frame s2 s3" "ids_below bi_id (b_next_inv s3) (b_invs s3)"
        "b_invs s3 = b_invs s2 @ is" "rows_along aid 1 (bp_actions p) is" "still_running aid s2 s3"
        "length is = length (bp_actions p)" "list_all (\<lambda>i. bi_status i = I_succeeded) is"
    | (fail) "is" b where "r3 = Inr (Some b)" "run_frame s2 s3" "ids_below bi_id (b_next_inv s3) (b_invs s3)"
        "b_invs s3 = b_invs s2 @ is" "rows_along aid 1 (bp_actions p) is" "moved aid BA_execution_failed s2 s3"
        "is \<noteq> []" "bi_status (last is) = I_failed" "list_all (\<lambda>i. bi_status i = I_succeeded) (butlast is)"
    unfolding run_ends_def by blast
  then show ?thesis
  proof cases
    case err
    then have "r = Inl e" "s' = s3" using run g by (simp_all add: bindB_def)
    with err cs show ?thesis by auto
  next
    case all
    then have "bindB (action_update_status aid BA_succeeded (\<lambda>a. a\<lparr>ba_executed_at := Some now\<rparr>)) (\<lambda>_. refetch a) s3 = (r, s')"
      using run g by (simp add: bindB_def)
    then obtain r4 s4 where u: "action_update_status aid BA_succeeded (\<lambda>a. a\<lparr>ba_executed_at := Some now\<rparr>) s3 = (r4, s4)"
      and res: "(r, s') = (case r4 of Inl e \<Rightarrow> (Inl e, s4) | Inr _ \<Rightarrow> refetch a s4)"
      by (auto simp: bindB_def split: prod.splits sum.splits)
    from action_update_result [OF u] have "(s4 = s3 \<and> (\<exists>n. r4 = Inl (Db_error n))) \<or>
      (r4 = Inr () \<and> moved aid BA_succeeded s3 s4 \<and> same_asks s3 s4 \<and> same_runs s3 s4 \<and>
       b_buckets s4 = b_buckets s3 \<and> b_ledger s4 = b_ledger s3)" by auto
    then show ?thesis
    proof
      assume "s4 = s3 \<and> (\<exists>n. r4 = Inl (Db_error n))"
      with res cs show ?thesis by auto
    next
      assume *: "r4 = Inr () \<and> moved aid BA_succeeded s3 s4 \<and> same_asks s3 s4 \<and> same_runs s3 s4 \<and>
        b_buckets s4 = b_buckets s3 \<and> b_ledger s4 = b_ledger s3"
      with res have s': "s' = s4" "is_ok r" by simp_all
      have "moved aid BA_succeeded s2 s'" unfolding s' by (rule still_running_moved [OF all(6)]) (use * in simp)
      moreover have "run_frame s2 s'"
        using all(2) * unfolding s' by (simp add: run_frame_def same_asks_def same_runs_def)
      ultimately show ?thesis using cs * all(3-5,7,8) s' by (simp add: same_runs_def ran_def run_frame_def)
    qed
  next
    case fail
    then have "r = Inr b" "s' = s3" using run g by (simp_all add: bindB_def)
    with fail cs show ?thesis by (simp add: ran_def run_frame_def)
  qed
qed

lemma execute_action_ends:
  assumes run: "execute_action env cfg now aid s = (r, s')" and ids: "ids_below bi_id (b_next_inv s) (b_invs s)"
  shows "execute_ends cfg now aid s r s'"
proof -
  from lock_bind [OF run [unfolded execute_action_def]] show ?thesis
  proof (elim disjE conjE exE)
    assume "r = Inl (Butler_error ''cascade_in_flight'')" "s' = s"
    then show ?thesis by (simp add: execute_ends_def)
  next
    fix a
    let ?main = "\<lambda>rate_ok. if \<not> rate_ok
       then bindB (action_update_status aid BA_rejected (reject_reason ''rate_limit_exceeded''))
            (\<lambda>_. raiseB ''rate_limit_exceeded'') else
       bindB (action_update_status aid BA_executing (\<lambda>a. a)) (\<lambda>_.
       case ba_plan a of
         None \<Rightarrow> raiseB ''invariant_broken''
       | Some p \<Rightarrow>
           bindB (run_steps env now a 1 (bp_actions p)) (\<lambda>failed.
           case failed of
             Some r \<Rightarrow> returnB r
           | None \<Rightarrow>
               bindB (action_update_status aid BA_succeeded (\<lambda>a. a\<lparr>ba_executed_at := Some now\<rparr>)) (\<lambda>_.
               refetch a)))"
    assume a: "action_get s aid = Some a"
      and body: "(if ba_status a \<noteq> BA_confirmed then raiseB ''wrong_status'' else
       bindB (getB (\<lambda>s. missing_consent s aid)) (\<lambda>missing.
       if missing
       then bindB (action_update_status aid BA_rejected (reject_reason ''affected_user_consent_revoked''))
            (\<lambda>_. raiseB ''affected_user_consent_revoked'') else
       bindB (try_increment ''user_execs_day'' (ba_requester a) (Day_key (msk_day now)) (msk_day_window now)
         (set_user_execs cfg)) ?main)) s = (r, s')"
    have id: "ba_id a = aid" using action_get_id [OF a] by simp
    show ?thesis
    proof (cases "ba_status a = BA_confirmed")
      case False
      with body show ?thesis by (auto simp: execute_ends_def)
    next
      case conf: True
      show ?thesis
      proof (cases "missing_consent s aid")
        case True
        with body conf have "bindB (action_update_status aid BA_rejected (reject_reason ''affected_user_consent_revoked''))
            (\<lambda>_. raiseB ''affected_user_consent_revoked'') s = (r, s')" by simp
        from reject_bind [OF this] have "(s' = s \<and> (\<exists>n. r = Inl (Db_error n))) \<or>
          (r = Inl (Butler_error ''affected_user_consent_revoked'') \<and> moved aid BA_rejected s s' \<and> same_asks s s' \<and>
           same_runs s s' \<and> b_buckets s' = b_buckets s)" by simp
        with a conf True show ?thesis unfolding execute_ends_def by (elim disjE) simp_all
      next
        case consent: False
        obtain r1 s1 where t: "try_increment ''user_execs_day'' (ba_requester a) (Day_key (msk_day now)) (msk_day_window now)
         (set_user_execs cfg) s = (r1, s1)" by fastforce
        have b: "only_buckets s s1" using try_increment_frame [OF t] by blast
        then have calls: "tool_calls s1 = tool_calls s" "undo_calls s1 = undo_calls s" "b_invs s1 = b_invs s"
          by (simp_all add: only_buckets_def same_runs_def)
        show ?thesis
        proof (cases r1)
          case (Inl e)
          with body conf consent t have "r = Inl e" "s' = s1" by (simp_all add: bindB_def)
          with try_increment_frame [OF t] Inl calls show ?thesis by (auto simp: execute_ends_def)
        next
          case (Inr rate_ok)
          with body conf consent t have main: "?main rate_ok s1 = (r, s')" by (simp add: bindB_def)
          show ?thesis
          proof (cases rate_ok)
            case False
            have s1: "s1 = s" by (rule try_increment_False [OF t [unfolded Inr [unfolded False [THEN eq_False [THEN iffD2]]]]])
            from main False have "bindB (action_update_status aid BA_rejected (reject_reason ''rate_limit_exceeded''))
              (\<lambda>_. raiseB ''rate_limit_exceeded'') s = (r, s')" by (simp add: s1)
            from reject_bind [OF this] have "(s' = s \<and> (\<exists>n. r = Inl (Db_error n))) \<or>
              (r = Inl (Butler_error ''rate_limit_exceeded'') \<and> moved aid BA_rejected s s' \<and> same_asks s s' \<and>
               same_runs s s' \<and> b_buckets s' = b_buckets s)" by simp
            with a conf consent show ?thesis unfolding execute_ends_def by (elim disjE) simp_all
          next
            case True
            obtain r2 s2 where u: "action_update_status aid BA_executing (\<lambda>a. a) s1 = (r2, s2)" by fastforce
            from action_update_result [OF u] have "(s2 = s1 \<and> (\<exists>n. r2 = Inl (Db_error n))) \<or>
              (r2 = Inr () \<and> moved aid BA_executing s1 s2 \<and> same_asks s1 s2 \<and> same_runs s1 s2)" by auto
            then show ?thesis
            proof
              assume *: "s2 = s1 \<and> (\<exists>n. r2 = Inl (Db_error n))"
              with main True u have "r = (case r2 of Inl e \<Rightarrow> Inl e)" "s' = s1" by (auto simp: bindB_def)
              with * calls show ?thesis by (auto simp: execute_ends_def)
            next
              assume *: "r2 = Inr () \<and> moved aid BA_executing s1 s2 \<and> same_asks s1 s2 \<and> same_runs s1 s2"
              have m2: "moved aid BA_executing s s2"
                by (rule moved_same_acts(2)) (use * b in \<open>auto simp: only_buckets_def\<close>)
              have f2: "same_asks s s2" "same_runs s s2" using * b by (simp_all add: only_buckets_def same_asks_def same_runs_def)
              show ?thesis
              proof (cases "ba_plan a")
                case None
                with main True u * have "r = Inl (Butler_error ''invariant_broken'')" "s' = s2" by (simp_all add: bindB_def)
                with None m2 f2 a conf consent show ?thesis by (simp add: execute_ends_def)
              next
                case (Some p)
                let ?go = "bindB (run_steps env now a 1 (bp_actions p)) (\<lambda>failed. case failed of
                    Some r \<Rightarrow> returnB r
                  | None \<Rightarrow> bindB (action_update_status aid BA_succeeded (\<lambda>a. a\<lparr>ba_executed_at := Some now\<rparr>)) (\<lambda>_. refetch a))"
                have go: "?go s2 = (r, s')" using main True u * Some by (simp add: bindB_def [of "action_update_status _ _ _"])
                have ids2: "ids_below bi_id (b_next_inv s2) (b_invs s2)" using ids f2 by (simp add: same_runs_def)
                have "ran aid p s s'" if "ran aid p s2 s'"
                  using that f2 moved_trans [OF m2] by (auto simp: ran_def same_defs)
                with execute_run_ends [OF go id ids2] f2(2)
                have out: "\<exists>cs. tool_calls s' = tool_calls s @ cs \<and> calls_along aid 1 (bp_actions p) cs"
                  "(\<exists>n. r = Inl (Db_error n) \<or> r = Inl (Plan_error n) \<or> r = Inl (Evidence_error n)) \<or> (is_ok r \<and> ran aid p s s')"
                  by (auto simp: same_runs_def)
                have "leaves undo_calls ?go" by (auto intro!: leaves split: option.split)
                from leaves_run [OF this go] have "undo_calls s' = undo_calls s" using f2(2) by (simp add: same_runs_def)
                with out a conf consent Some show ?thesis unfolding execute_ends_def by blast
              qed
            qed
          qed
        qed
      qed
    qed
  qed
qed

subsection \<open>Withdrawing and expiring\<close>

text \<open>An update followed by reading the row again.\<close>

lemma update_refetch:
  assumes "bindB (action_update_status aid st f) (\<lambda>_. refetch a) s = (r, s')" "keeps_row f"
  shows "(s' = s \<and> (\<exists>n. r = Inl (Db_error n))) \<or>
    (is_ok r \<and> moved aid st s s' \<and> same_asks s s' \<and> same_runs s s' \<and> b_buckets s' = b_buckets s)"
proof -
  obtain r1 s1 where u: "action_update_status aid st f s = (r1, s1)" by fastforce
  from action_update_result [OF this assms(2)] assms(1) u show ?thesis
    by (elim disjE) (auto simp: bindB_def)
qed

text \<open>Cancelling: refused with nothing written, or the open questions and the action are withdrawn.\<close>

definition cancel_ends :: "butler_env \<Rightarrow> int \<Rightarrow> int \<Rightarrow> bdb \<Rightarrow> butler_error + butler_action \<Rightarrow> bdb \<Rightarrow> bool" where
  "cancel_ends env aid uid s r s' \<longleftrightarrow>
     (\<exists>n. r = Inl (Db_error n) \<and> same_runs s s') \<or> (s' = s \<and> (\<exists>k. r = Inl (Butler_error k))) \<or>
     (\<exists>a. action_get s aid = Some a \<and> (uid = ba_requester a \<or> is_admin_user env uid) \<and>
        ba_status a \<in> {BA_pending_confirmation, BA_confirmed} \<and> is_ok r \<and> moved aid BA_cancelled s s' \<and>
        same_runs s s' \<and> b_buckets s' = b_buckets s \<and> b_next_conf s' = b_next_conf s \<and>
        b_confs s' = update_where (\<lambda>c. bc_action c = aid \<and> bc_status c = C_pending)
          (\<lambda>c. c\<lparr>bc_status := C_cancelled\<rparr>) (b_confs s))"

lemma cancel_action_ends:
  assumes run: "cancel_action env aid uid s = (r, s')"
  shows "cancel_ends env aid uid s r s'"
proof -
  from lock_bind [OF run [unfolded cancel_action_def]] show ?thesis
  proof (elim disjE conjE exE)
    assume "r = Inl (Butler_error ''cascade_in_flight'')" "s' = s"
    then show ?thesis by (simp add: cancel_ends_def)
  next
    fix a assume a: "action_get s aid = Some a"
      and body: "(if uid \<noteq> ba_requester a \<and> \<not> is_admin_user env uid then raiseB ''forbidden'' else
         if ba_status a \<notin> {BA_pending_confirmation, BA_confirmed} then raiseB ''wrong_status'' else
         bindB (confs_mark_all aid C_cancelled) (\<lambda>_.
         bindB (action_update_status aid BA_cancelled (reject_reason ''cancelled_by_user'')) (\<lambda>_.
         refetch a))) s = (r, s')"
    let ?s1 = "s\<lparr>b_confs := update_where (\<lambda>c. bc_action c = aid \<and> bc_status c = C_pending)
          (\<lambda>c. c\<lparr>bc_status := C_cancelled\<rparr>) (b_confs s)\<rparr>"
    show ?thesis
    proof (cases "(uid = ba_requester a \<or> is_admin_user env uid) \<and> ba_status a \<in> {BA_pending_confirmation, BA_confirmed}")
      case False
      then have "s' = s \<and> (\<exists>k. r = Inl (Butler_error k))" using body by (auto split: if_splits)
      then show ?thesis by (simp add: cancel_ends_def)
    next
      case True
      then have "bindB (action_update_status aid BA_cancelled (reject_reason ''cancelled_by_user'')) (\<lambda>_. refetch a) ?s1 = (r, s')"
        using body by (auto simp: confs_mark_all_def)
      from update_refetch [OF this keeps_row_simps(2)] show ?thesis
      proof (elim disjE conjE exE)
        fix n assume "s' = ?s1" "r = Inl (Db_error n)"
        then show ?thesis by (simp add: cancel_ends_def same_runs_def)
      next
        assume *: "is_ok r" "moved aid BA_cancelled ?s1 s'" "same_asks ?s1 s'" "same_runs ?s1 s'" "b_buckets s' = b_buckets ?s1"
        have "moved aid BA_cancelled s s'" by (rule moved_same_acts(2) [OF _ *(2)]) (simp add: same_acts_def)
        with * a True show ?thesis by (simp add: cancel_ends_def same_runs_def same_asks_def)
      qed
    qed
  qed
qed

text \<open>Revoking: refused with nothing written, or the user's own open question is revoked and the action cancelled.\<close>

definition revoke_ends :: "int \<Rightarrow> int \<Rightarrow> bdb \<Rightarrow> butler_error + butler_action \<Rightarrow> bdb \<Rightarrow> bool" where
  "revoke_ends aid uid s r s' \<longleftrightarrow>
     (\<exists>n. r = Inl (Db_error n) \<and> same_runs s s') \<or> (s' = s \<and> (\<exists>k. r = Inl (Butler_error k))) \<or>
     (\<exists>a. action_get s aid = Some a \<and>
        (\<exists>c \<in> set (b_confs s). bc_action c = aid \<and> bc_confirmer c = uid \<and> bc_role c = Role_affected_user \<and>
          bc_status c = C_pending \<and> marked (bc_id c) C_revoked s s') \<and>
        is_ok r \<and> moved aid BA_cancelled s s' \<and> same_runs s s' \<and> b_buckets s' = b_buckets s)"

lemma revoke_ends:
  assumes run: "revoke_affected_user_consent env now aid uid s = (r, s')"
  shows "revoke_ends aid uid s r s'"
proof -
  let ?find = "List.find (\<lambda>c. bc_confirmer c = uid \<and> bc_role c = Role_affected_user) (confs_of s aid)"
  from lock_bind [OF run [unfolded revoke_affected_user_consent_def]] show ?thesis
  proof (elim disjE conjE exE)
    assume "r = Inl (Butler_error ''cascade_in_flight'')" "s' = s"
    then show ?thesis by (simp add: revoke_ends_def)
  next
    fix a assume a: "action_get s aid = Some a"
      and body: "bindB (getB (\<lambda>s. List.find (\<lambda>c. bc_confirmer c = uid \<and> bc_role c = Role_affected_user) (confs_of s aid))) (\<lambda>found.
       case found of
         None \<Rightarrow> raiseB ''not_found''
       | Some c \<Rightarrow>
           if bc_status c \<noteq> C_pending then raiseB ''wrong_status''
           else bindB (conf_resolve (bc_id c) C_revoked now) (\<lambda>_.
                bindB (action_update_status aid BA_cancelled (reject_reason ''affected_user_consent_revoked'')) (\<lambda>_.
                refetch a))) s = (r, s')"
    show ?thesis
    proof (cases ?find)
      case None
      with body show ?thesis by (auto simp: revoke_ends_def)
    next
      case (Some c)
      then have c: "c \<in> set (b_confs s)" "bc_action c = aid" "bc_confirmer c = uid" "bc_role c = Role_affected_user"
        by (auto simp: find_Some_iff confs_of_def dest: nth_mem)
      show ?thesis
      proof (cases "bc_status c = C_pending")
        case False
        with body Some show ?thesis by (auto simp: revoke_ends_def)
      next
        case True
        obtain r1 s1 where u: "conf_resolve (bc_id c) C_revoked now s = (r1, s1)" by fastforce
        from conf_resolve_result [OF u] show ?thesis
        proof (elim disjE conjE exE)
          fix n assume "s1 = s" "r1 = Inl (Db_error n)"
          with body Some True u show ?thesis by (auto simp: revoke_ends_def bindB_def)
        next
          assume *: "r1 = Inr ()" "marked (bc_id c) C_revoked s s1" "same_acts s s1" "same_runs s s1"
            "b_buckets s1 = b_buckets s" "b_ledger s1 = b_ledger s"
          have "bindB (action_update_status aid BA_cancelled (reject_reason ''affected_user_consent_revoked'')) (\<lambda>_. refetch a) s1
              = (r, s')"
            using body Some True u *(1) by (simp add: bindB_def [of "conf_resolve _ _ _"])
          from update_refetch [OF this keeps_row_simps(2)] show ?thesis
          proof (elim disjE conjE exE)
            fix n assume "s' = s1" "r = Inl (Db_error n)"
            with * show ?thesis by (simp add: revoke_ends_def)
          next
            assume **: "is_ok r" "moved aid BA_cancelled s1 s'" "same_asks s1 s'" "same_runs s1 s'" "b_buckets s' = b_buckets s1"
            have "moved aid BA_cancelled s s'" by (rule moved_same_acts(2) [OF *(3) **(2)])
            moreover have "marked (bc_id c) C_revoked s s'" using *(2) **(3) by (simp add: marked_def same_asks_def)
            moreover have "same_runs s s'" by (rule same_trans(1) [OF *(4) **(4)])
            ultimately have "\<exists>a. action_get s aid = Some a \<and>
              (\<exists>c \<in> set (b_confs s). bc_action c = aid \<and> bc_confirmer c = uid \<and> bc_role c = Role_affected_user \<and>
                bc_status c = C_pending \<and> marked (bc_id c) C_revoked s s') \<and>
              is_ok r \<and> moved aid BA_cancelled s s' \<and> same_runs s s' \<and> b_buckets s' = b_buckets s"
              using a c True **(1,5) *(5) by (intro exI [of _ a] conjI bexI [of _ c]) simp_all
            then show ?thesis by (simp add: revoke_ends_def)
          qed
        qed
      qed
    qed
  qed
qed

subsection \<open>Expiring\<close>

definition overdue :: "int \<Rightarrow> butler_action \<Rightarrow> bool" where
  "overdue now a \<longleftrightarrow> ba_status a = BA_pending_confirmation \<and> (\<exists>t. ba_expires a = Some t \<and> t \<le> now)"

definition expire_row :: "butler_action \<Rightarrow> butler_action" where
  "expire_row a = reject_reason ''ttl_expired'' (a\<lparr>ba_status := BA_expired\<rparr>)"

lemma expire_row_simps [simp]:
  "ba_id (expire_row a) = ba_id a" "ba_requester (expire_row a) = ba_requester a" "ba_plan (expire_row a) = ba_plan a"
  "ba_status (expire_row a) = BA_expired" "ba_expires (expire_row a) = ba_expires a"
  "ba_tool (expire_row a) = ba_tool a" "ba_chat (expire_row a) = ba_chat a"
  by (simp_all add: expire_row_def reject_reason_def)

lemma ck_expire_row: "ck_butler_action a \<Longrightarrow> ck_butler_action (expire_row a)"
  by (simp add: ck_butler_action_def expire_row_def reject_reason_def)

lemma overdue_cases:
  "(ba_status a = BA_expired \<or> ba_status a \<noteq> BA_pending_confirmation \<or>
     (case ba_expires a of None \<Rightarrow> True | Some t \<Rightarrow> t > now)) \<longleftrightarrow> \<not> overdue now a"
  by (auto simp: overdue_def split: option.split)

lemma expire_action_eq_inline: "expire_action env now aid s = expire_action_inline env now aid s"
proof -
  have id: "ba_id a = aid" if "lock_existing env aid s = (Inr a, s1)" for a s1
    using that action_get_id [of s aid a] by (auto simp: lock_existing_def split: if_splits option.splits)
  then show ?thesis
    by (auto simp: expire_action_def expire_action_inline_def bindB_def split: prod.split sum.split option.split)
qed

lemma expire_inline_quiet:
  assumes "env_locked env aid \<or> (\<forall>a. action_get s aid = Some a \<longrightarrow> \<not> overdue now a)"
  shows "snd (expire_action_inline env now aid s) = s"
  using assms by (auto simp: expire_action_inline_def lock_existing_def overdue_def split: option.splits)

lemma expire_inline_hit:
  assumes "\<not> env_locked env aid" "action_get s aid = Some a" "overdue now a" "ck_butler_action a"
  shows "expire_action_inline env now aid s =
    (Inr (expire_row a), s\<lparr>b_actions := update_where (\<lambda>a. ba_id a = aid) expire_row (b_actions s)\<rparr>)"
proof -
  have up: "(\<lambda>a. reject_reason ''ttl_expired'' (a\<lparr>ba_status := BA_expired\<rparr>)) = expire_row"
    by (simp add: expire_row_def fun_eq_iff)
  have "action_update_status aid BA_expired (reject_reason ''ttl_expired'') s =
      (Inr (), s\<lparr>b_actions := update_where (\<lambda>a. ba_id a = aid) expire_row (b_actions s)\<rparr>)"
    using assms ck_expire_row [OF assms(4)] by (simp add: action_update_status_def up expire_row_def)
  moreover have "fetch ba_id aid (update_where (\<lambda>a. ba_id a = aid) expire_row (b_actions s)) = Some (expire_row a)"
    using assms(2) action_get_id [OF assms(2)] by (simp add: action_get_def fetch_update_where)
  ultimately show ?thesis
    using assms(1-3) overdue_cases [of a now]
    by (simp add: expire_action_inline_def lock_existing_def action_get_def coalesce_def)
qed

text \<open>The sweep: the unlocked rows of the batch are expired, the others are left alone.\<close>

lemma expire_rows_result:
  assumes "distinct (map ba_id (b_actions s))" "distinct (map ba_id as)" "set as \<subseteq> set (b_actions s)"
    "\<forall>a \<in> set as. overdue now a \<and> ck_butler_action a"
  shows "expire_rows env now as s =
    (length (filter (\<lambda>a. \<not> env_locked env (ba_id a)) as),
     s\<lparr>b_actions := update_where (\<lambda>a. ba_id a \<in> ba_id ` set as \<and> \<not> env_locked env (ba_id a)) expire_row (b_actions s)\<rparr>)"
  using assms
proof (induction as arbitrary: s)
  case Nil
  then show ?case by (simp add: update_where_def)
next
  case (Cons a as)
  let ?hit = "\<lambda>as a. ba_id a \<in> ba_id ` set as \<and> \<not> env_locked env (ba_id a)"
  have get: "action_get s (ba_id a) = Some a"
    unfolding action_get_def by (rule fetch_distinct) (use Cons.prems in simp_all)
  show ?case
  proof (cases "env_locked env (ba_id a)")
    case True
    then have "expire_action_inline env now (ba_id a) s = (Inl (Db_error ''LockNotAvailable''), s)"
      by (simp add: expire_action_inline_def lock_existing_def)
    moreover have "update_where (?hit (a # as)) expire_row (b_actions s) = update_where (?hit as) expire_row (b_actions s)"
      using True by (auto simp: update_where_def)
    ultimately show ?thesis using Cons True by simp
  next
    case False
    let ?s1 = "s\<lparr>b_actions := update_where (\<lambda>x. ba_id x = ba_id a) expire_row (b_actions s)\<rparr>"
    have hit: "expire_action_inline env now (ba_id a) s = (Inr (expire_row a), ?s1)"
      by (rule expire_inline_hit [OF False get]) (use Cons.prems in auto)
    have notin: "ba_id a \<notin> ba_id ` set as" using Cons.prems(2) by simp
    have IH: "expire_rows env now as ?s1 =
      (length (filter (\<lambda>a. \<not> env_locked env (ba_id a)) as),
       ?s1\<lparr>b_actions := update_where (?hit as) expire_row (b_actions ?s1)\<rparr>)"
    proof (rule Cons.IH)
      show "distinct (map ba_id (b_actions ?s1))" using Cons.prems(1) by (simp add: map_update_where)
      show "distinct (map ba_id as)" using Cons.prems(2) by simp
      show "set as \<subseteq> set (b_actions ?s1)"
      proof
        fix x assume x: "x \<in> set as"
        with notin have "ba_id x \<noteq> ba_id a" by (metis imageI)
        moreover have "x \<in> set (b_actions s)" using Cons.prems(3) x by auto
        ultimately show "x \<in> set (b_actions ?s1)" by (force simp: set_update_where)
      qed
      show "\<forall>a \<in> set as. overdue now a \<and> ck_butler_action a" using Cons.prems(4) by simp
    qed
    have "update_where (?hit as) expire_row (update_where (\<lambda>x. ba_id x = ba_id a) expire_row (b_actions s)) =
        update_where (?hit (a # as)) expire_row (b_actions s)"
      using notin False by (auto simp: update_where_def)
    with IH hit False show ?thesis by simp
  qed
qed

lemma expire_tick_result:
  assumes d: "distinct (map ba_id (b_actions s))" and ck: "\<forall>a \<in> set (b_actions s). ck_butler_action a"
  shows "butler_expire_tick env now s =
    (let batch = get_pending_past_ttl s now butler_expire_batch_size in
     (length (filter (\<lambda>a. \<not> env_locked env (ba_id a)) batch),
      s\<lparr>b_actions := update_where (\<lambda>a. ba_id a \<in> ba_id ` set batch \<and> \<not> env_locked env (ba_id a)) expire_row (b_actions s)\<rparr>))"
proof -
  let ?p = "\<lambda>a. ba_status a = BA_pending_confirmation \<and> (case ba_expires a of None \<Rightarrow> False | Some t \<Rightarrow> t \<le> now)"
  let ?l = "sort_key (\<lambda>a. coalesce (ba_expires a) 0) (filter ?p (b_actions s))"
  have "set (get_pending_past_ttl s now butler_expire_batch_size) \<subseteq> set ?l"
    unfolding get_pending_past_ttl_def by (rule set_take_subset)
  then have sub: "set (get_pending_past_ttl s now butler_expire_batch_size) \<subseteq> {a \<in> set (b_actions s). ?p a}" by simp
  have "distinct (map ba_id (filter ?p (b_actions s)))" using d by (rule distinct_map_filter)
  then have "distinct (map ba_id ?l)"
    by (simp add: distinct_map)
  then have "distinct (map ba_id (get_pending_past_ttl s now butler_expire_batch_size))"
    unfolding get_pending_past_ttl_def by (simp add: take_map [symmetric])
  with sub d ck show ?thesis
    unfolding butler_expire_tick_def Let_def
    by (intro expire_rows_result) (auto simp: overdue_def split: option.splits)
qed

end
