(* ===== verification/ButlerUndo.thy ===== *)
theory ButlerUndo
  imports ButlerRuns
begin

section \<open>Undoing an action\<close>

text \<open>
  Outcome lemmas of \<open>execute_undo\<close>: what it leaves alone, the calls it makes to the bot and in which
  order, and the audit rows it leaves.
\<close>

subsection \<open>What undoing leaves alone\<close>

definition but_undos :: "bdb \<Rightarrow> bdb" where
  "but_undos s = s\<lparr>b_undos := [], b_next_undo := 0, undo_calls := []\<rparr>"

lemma bot_call_leaves [leaves]: "leaves but_undos (bot_call env aid iid c)"
  by (simp add: leaves_def bot_call_def but_undos_def Let_def split: option.split)

lemma undo_rows_leave [leaves]:
  "leaves but_undos (undo_create aid iid uid k)" "leaves but_undos (undo_update u st ek em)"
  by (simp_all add: leaves_def undo_create_def undo_update_def but_undos_def Let_def)

lemma dispatch_leaves [leaves]: "leaves but_undos (dispatch_undo env aid i kind)"
  by (auto simp: dispatch_undo_def undo_delete_message_def undo_edit_message_def undo_followup_correction_def
      undo_cancel_pending_def Let_def intro!: leaves split: rollback_kind.split option.split)

lemma undo_step_leaves [leaves]: "leaves but_undos (undo_step env aid uid i)"
  unfolding undo_step_def by (auto intro!: leaves split: option.split)

lemma undo_steps_leave [leaves]: "leaves but_undos (undo_steps env aid uid is)"
  by (induction "is") (auto intro!: leaves simp: leaves_def [of _ "Pair _"])

lemma but_undos_eqs:
  assumes "but_undos s' = but_undos s"
  shows "same_acts s s'" "same_asks s s'" "b_invs s' = b_invs s" "b_next_inv s' = b_next_inv s"
    "tool_calls s' = tool_calls s" "b_buckets s' = b_buckets s" "b_ledger s' = b_ledger s"
proof -
  have "f (but_undos s') = f (but_undos s)" for f :: "bdb \<Rightarrow> 'x" using assms by simp
  note eqs = this [of b_actions] this [of b_next_action] this [of b_confs] this [of b_next_conf] this [of b_invs]
    this [of b_next_inv] this [of tool_calls] this [of b_buckets] this [of b_ledger]
  then show "same_acts s s'" "same_asks s s'" "b_invs s' = b_invs s" "b_next_inv s' = b_next_inv s"
    "tool_calls s' = tool_calls s" "b_buckets s' = b_buckets s" "b_ledger s' = b_ledger s"
    using assms by (cases s; cases s'; simp add: but_undos_def same_defs)+
qed

subsection \<open>One invocation\<close>

lemma find_append_None: "List.find P (xs @ ys) = (case List.find P xs of None \<Rightarrow> List.find P ys | Some x \<Rightarrow> Some x)"
  by (induction xs) auto

lemma find_update_where:
  "(\<And>r. P (f r) = P r) \<Longrightarrow>
   List.find P (update_where q f t) = map_option (\<lambda>r. if q r then f r else r) (List.find P t)"
  by (induction t) (auto simp: update_where_def)

definition is_settled :: "bdb \<Rightarrow> int \<Rightarrow> int \<Rightarrow> bool" where
  "is_settled s aid iid \<longleftrightarrow> (case undo_find s aid iid of None \<Rightarrow> False | Some u \<Rightarrow> undo_settled (bu_status u))"

text \<open>A rollback is at most one call to the bot, for its own invocation, and has an outcome.\<close>

lemma dispatch_result:
  assumes "dispatch_undo env aid i kind s = (r, s')"
  shows "(\<exists>st ek em. r = Inr (st, ek, em) \<and> st \<noteq> U_pending) \<and> b_undos s' = b_undos s \<and> b_next_undo s' = b_next_undo s \<and>
    (undo_calls s' = undo_calls s \<or> (\<exists>c. undo_calls s' = undo_calls s @ [(aid, bi_id i, c)]))"
  using assms
  by (auto simp: dispatch_undo_def undo_delete_message_def undo_edit_message_def undo_followup_correction_def
      undo_cancel_pending_def bot_call_def missing_fields_result_def Let_def
      split: rollback_kind.splits option.splits)

text \<open>Recording an outcome changes the row of the invocation only.\<close>

lemma undo_update_result:
  assumes run: "undo_update (bu_id u) st ek em s = (r, s')" and ids: "ids_below bu_id (b_next_undo s) (b_undos s)"
    and u: "undo_find s aid iid = Some u"
  shows "r = Inr () \<and> undo_calls s' = undo_calls s \<and> ids_below bu_id (b_next_undo s') (b_undos s') \<and>
    (\<forall>j. undo_find s' aid j =
      (if j = iid then Some (u\<lparr>bu_status := st, bu_error_kind := ek, bu_error_message := em\<rparr>) else undo_find s aid j))"
proof -
  let ?f = "\<lambda>u. u\<lparr>bu_status := st, bu_error_kind := ek, bu_error_message := em\<rparr>"
  have mem: "u \<in> set (b_undos s)" and key: "bu_action u = aid" "bu_invocation u = iid"
    using u by (auto simp: undo_find_def find_Some_iff)
  have s': "r = Inr ()" "s' = s\<lparr>b_undos := update_where (\<lambda>v. bu_id v = bu_id u) ?f (b_undos s)\<rparr>"
    using run mem by (auto simp: undo_update_def list_ex_iff split: if_splits)
  have "undo_find s' aid j = (if j = iid then Some (?f u) else undo_find s aid j)" for j
  proof -
    have "undo_find s' aid j = map_option (\<lambda>v. if bu_id v = bu_id u then ?f v else v) (undo_find s aid j)"
      unfolding undo_find_def s'(2) by (simp add: find_update_where)
    moreover have "bu_id v = bu_id u \<longrightarrow> j = iid" if "undo_find s aid j = Some v" for v
    proof
      assume "bu_id v = bu_id u"
      moreover have v: "v \<in> set (b_undos s)" "bu_invocation v = j" using that by (auto simp: undo_find_def find_Some_iff)
      ultimately have "v = u" using mem ids by (auto simp: ids_below_def distinct_map inj_on_def)
      with v key show "j = iid" by simp
    qed
    ultimately show ?thesis using u by (cases "undo_find s aid j") auto
  qed
  moreover have "ids_below bu_id (b_next_undo s') (b_undos s')"
    using ids unfolding s'(2) update_where_def by (simp add: ids_below_map)
  ultimately show ?thesis using s' by simp
qed

lemma undo_create_result:
  assumes "undo_create aid iid uid k s = (r, s')" "ids_below bu_id (b_next_undo s) (b_undos s)"
  shows "(s' = s \<and> (\<exists>n. r = Inl (Db_error n))) \<or>
    (\<exists>u. r = Inr u \<and> undo_calls s' = undo_calls s \<and> ids_below bu_id (b_next_undo s') (b_undos s') \<and>
      bu_status u = U_pending \<and> undo_find s aid iid = None \<and>
      (\<forall>j. undo_find s' aid j = (if j = iid then Some u else undo_find s aid j)))"
proof (cases "undo_find s aid iid")
  case (Some u)
  with assms show ?thesis by (auto simp: undo_create_def)
next
  case None
  let ?u = "\<lparr>bu_id = b_next_undo s, bu_action = aid, bu_invocation = iid, bu_requester = uid,
             bu_rollback = k, bu_status = U_pending, bu_error_kind = None, bu_error_message = None\<rparr>"
  have s': "r = Inr ?u" "s' = s\<lparr>b_undos := b_undos s @ [?u], b_next_undo := b_next_undo s + 1\<rparr>"
    using assms(1) None by (auto simp: undo_create_def Let_def)
  have "undo_find s' aid j = (if j = iid then Some ?u else undo_find s aid j)" for j
    using None unfolding s'(2) undo_find_def by (auto simp: find_append_None split: option.split)
  moreover have "ids_below bu_id (b_next_undo s') (b_undos s')"
    unfolding s'(2) by (simp add: ids_below_append [OF assms(2)])
  ultimately show ?thesis using s' None by (intro disjI2 exI [of _ ?u]) simp
qed

definition step_ends :: "int \<Rightarrow> invocation \<Rightarrow> bdb \<Rightarrow> butler_error + unit \<Rightarrow> bdb \<Rightarrow> bool" where
  "step_ends aid i s r s' \<longleftrightarrow>
     ids_below bu_id (b_next_undo s') (b_undos s') \<and> (\<forall>j. j \<noteq> bi_id i \<longrightarrow> undo_find s' aid j = undo_find s aid j) \<and>
     ((r = Inr () \<and> (\<exists>u. undo_find s' aid (bi_id i) = Some u \<and> bu_status u \<noteq> U_pending \<and>
          (is_settled s aid (bi_id i) \<longrightarrow> undo_find s aid (bi_id i) = Some u))) \<or> (\<exists>n. r = Inl (Db_error n))) \<and>
     (undo_calls s' = undo_calls s \<or>
      (\<not> is_settled s aid (bi_id i) \<and> (\<exists>c. undo_calls s' = undo_calls s @ [(aid, bi_id i, c)])))"

lemma undo_step_ends:
  assumes run: "undo_step env aid uid i s = (r, s')" and ids: "ids_below bu_id (b_next_undo s) (b_undos s)"
  shows "step_ends aid i s r s'"
proof -
  let ?kind = "rollback_kind_of (bi_inverse i)"
  let ?rest = "\<lambda>u. if undo_settled (bu_status u) then returnB () else
     bindB (case ?kind of
         None \<Rightarrow> returnB (U_skipped, Some ''unknown_rollback_kind'', Some ''unknown rollback_kind'')
       | Some kind \<Rightarrow> dispatch_undo env aid i kind) (\<lambda>(st, ek, em). undo_update (bu_id u) st ek em)"
  text \<open>The rollback of a row that is not settled.\<close>
  have rest: "(\<exists>v. r = Inr () \<and> undo_find s' aid (bi_id i) = Some v \<and> bu_status v \<noteq> U_pending) \<and>
      ids_below bu_id (b_next_undo s') (b_undos s') \<and> (\<forall>j. j \<noteq> bi_id i \<longrightarrow> undo_find s' aid j = undo_find s1 aid j) \<and>
      (undo_calls s' = undo_calls s1 \<or> (\<exists>c. undo_calls s' = undo_calls s1 @ [(aid, bi_id i, c)]))"
    if go: "?rest u s1 = (r, s')" and ns: "\<not> undo_settled (bu_status u)" and u: "undo_find s1 aid (bi_id i) = Some u"
      and ids1: "ids_below bu_id (b_next_undo s1) (b_undos s1)" for u s1
  proof -
    obtain r2 s2 where d: "(case ?kind of
         None \<Rightarrow> returnB (U_skipped, Some ''unknown_rollback_kind'', Some ''unknown rollback_kind'')
       | Some kind \<Rightarrow> dispatch_undo env aid i kind) s1 = (r2, s2)" by fastforce
    have out: "(\<exists>st ek em. r2 = Inr (st, ek, em) \<and> st \<noteq> U_pending) \<and> b_undos s2 = b_undos s1 \<and> b_next_undo s2 = b_next_undo s1 \<and>
      (undo_calls s2 = undo_calls s1 \<or> (\<exists>c. undo_calls s2 = undo_calls s1 @ [(aid, bi_id i, c)]))"
      using d dispatch_result by (cases ?kind) fastforce+
    then obtain st ek em where r2: "r2 = Inr (st, ek, em)" "st \<noteq> U_pending" by blast
    have up: "undo_update (bu_id u) st ek em s2 = (r, s')" using go ns d r2 by (simp add: bindB_def)
    have "undo_find s2 aid j = undo_find s1 aid j" for j using out by (simp add: undo_find_def)
    with undo_update_result [OF up, of aid "bi_id i"] ids1 u out r2(2) show ?thesis by auto
  qed
  show ?thesis
  proof (cases "undo_find s aid (bi_id i)")
    case (Some u)
    then have go: "?rest u s = (r, s')" using run by (simp add: undo_step_def)
    show ?thesis
    proof (cases "undo_settled (bu_status u)")
      case True
      with go Some ids show ?thesis by (auto simp: step_ends_def is_settled_def undo_settled_def)
    next
      case False
      with rest [OF go False Some ids] Some show ?thesis by (auto simp: step_ends_def is_settled_def)
    qed
  next
    case None
    show ?thesis
    proof (cases ?kind)
      case None': None
      with run None ids show ?thesis by (auto simp: undo_step_def step_ends_def bindB_def)
    next
      case (Some kind)
      obtain r1 s1 where c: "undo_create aid (bi_id i) uid kind s = (r1, s1)" by fastforce
      from undo_create_result [OF c ids] show ?thesis
      proof (elim disjE exE conjE)
        fix n assume "s1 = s" "r1 = Inl (Db_error n)"
        with run None Some c ids show ?thesis by (auto simp: undo_step_def step_ends_def bindB_def)
      next
        fix u assume r1: "r1 = Inr u" and s1: "undo_calls s1 = undo_calls s" "ids_below bu_id (b_next_undo s1) (b_undos s1)"
          "bu_status u = U_pending" "\<forall>j. undo_find s1 aid j = (if j = bi_id i then Some u else undo_find s aid j)"
        have go: "?rest u s1 = (r, s')"
          using run None Some c r1 by (simp add: undo_step_def bindB_def [of "undo_create _ _ _ _"])
        have ns: "\<not> undo_settled (bu_status u)" using s1(3) by (simp add: undo_settled_def)
        from rest [OF go ns _ s1(2)] s1 None show ?thesis by (auto simp: step_ends_def is_settled_def)
      qed
    qed
  qed
qed

subsection \<open>The whole undo\<close>

text \<open>
  The calls of a run over \<open>is\<close>: at most one per invocation, in the order of \<open>is\<close>, none for one that
  was settled before.
\<close>

definition undoes_along :: "bdb \<Rightarrow> int \<Rightarrow> invocation list \<Rightarrow> (int \<times> int \<times> undo_call) list \<Rightarrow> bool" where
  "undoes_along s aid is cs \<longleftrightarrow> (\<forall>c \<in> set cs. fst c = aid) \<and>
     subseq (map (fst \<circ> snd) cs) (map bi_id (filter (\<lambda>i. \<not> is_settled s aid (bi_id i)) is))"

definition steps_end :: "int \<Rightarrow> invocation list \<Rightarrow> bdb \<Rightarrow> butler_error + unit \<Rightarrow> bdb \<Rightarrow> bool" where
  "steps_end aid is s r s' \<longleftrightarrow> ids_below bu_id (b_next_undo s') (b_undos s') \<and>
     (\<forall>j. j \<notin> bi_id ` set is \<longrightarrow> undo_find s' aid j = undo_find s aid j) \<and>
     ((r = Inr () \<and> (\<forall>i \<in> set is. \<exists>u. undo_find s' aid (bi_id i) = Some u \<and> bu_status u \<noteq> U_pending \<and>
         (is_settled s aid (bi_id i) \<longrightarrow> undo_find s aid (bi_id i) = Some u))) \<or> (\<exists>n. r = Inl (Db_error n))) \<and>
     (\<exists>cs. undo_calls s' = undo_calls s @ cs \<and> undoes_along s aid is cs)"

lemma undo_steps_end:
  assumes "undo_steps env aid uid is s = (r, s')" "ids_below bu_id (b_next_undo s) (b_undos s)" "distinct (map bi_id is)"
  shows "steps_end aid is s r s'"
  using assms
proof (induction "is" arbitrary: s)
  case Nil
  then show ?case by (auto simp: steps_end_def undoes_along_def)
next
  case (Cons i "is")
  obtain r1 s1 where step: "undo_step env aid uid i s = (r1, s1)" by fastforce
  note e1 = undo_step_ends [OF step Cons.prems(2), unfolded step_ends_def]
  have later: "is_settled s1 aid (bi_id j) = is_settled s aid (bi_id j)" if "j \<in> set is" for j
  proof -
    have "bi_id j \<noteq> bi_id i" using Cons.prems(3) that by (metis distinct.simps(2) image_eqI list.simps(9) set_map)
    then show ?thesis using e1 by (simp add: is_settled_def)
  qed
  obtain cs1 where cs1: "undo_calls s1 = undo_calls s @ cs1"
    "cs1 = [] \<or> (\<not> is_settled s aid (bi_id i) \<and> (\<exists>c. cs1 = [(aid, bi_id i, c)]))"
    using e1 by (metis append_Nil2)
  show ?case
  proof (cases r1)
    case (Inl e)
    then have "r = Inl e" "s' = s1" using Cons.prems(1) step by (simp_all add: bindB_def)
    moreover have "undoes_along s aid (i # is) cs1"
      using cs1(2) by (auto simp: undoes_along_def)
    ultimately show ?thesis using e1 cs1 Inl unfolding steps_end_def by auto
  next
    case (Inr u)
    then have go: "undo_steps env aid uid is s1 = (r, s')" using Cons.prems(1) step by (simp add: bindB_def)
    have ids1: "ids_below bu_id (b_next_undo s1) (b_undos s1)" using e1 by blast
    have d: "distinct (map bi_id is)" using Cons.prems(3) by simp
    note e2 = Cons.IH [OF go ids1 d, unfolded steps_end_def]
    then obtain cs2 where cs2: "undo_calls s' = undo_calls s1 @ cs2" "undoes_along s1 aid is cs2" by blast
    have "filter (\<lambda>j. \<not> is_settled s1 aid (bi_id j)) is = filter (\<lambda>j. \<not> is_settled s aid (bi_id j)) is"
      by (rule filter_cong) (use later in auto)
    with cs2(2) have "undoes_along s aid is cs2" by (simp add: undoes_along_def)
    with cs1(2) have along: "undoes_along s aid (i # is) (cs1 @ cs2)" by (auto simp: undoes_along_def)
    have notin: "bi_id i \<notin> bi_id ` set is" using Cons.prems(3) by simp
    have fin: "\<exists>u. undo_find s' aid (bi_id j) = Some u \<and> bu_status u \<noteq> U_pending \<and>
        (is_settled s aid (bi_id j) \<longrightarrow> undo_find s aid (bi_id j) = Some u)" if "r = Inr ()" "j \<in> set (i # is)" for j
    proof (cases "j \<in> set is")
      case True
      with e2 that(1) obtain u where u: "undo_find s' aid (bi_id j) = Some u" "bu_status u \<noteq> U_pending"
        "is_settled s1 aid (bi_id j) \<longrightarrow> undo_find s1 aid (bi_id j) = Some u" by blast
      have "bi_id j \<noteq> bi_id i" using True notin by (metis imageI)
      then have "undo_find s1 aid (bi_id j) = undo_find s aid (bi_id j)" using e1 by blast
      with u later [OF True] show ?thesis by auto
    next
      case False
      with that(2) have j: "j = i" by simp
      have "undo_find s' aid (bi_id i) = undo_find s1 aid (bi_id i)" using e2 notin by blast
      with e1 Inr j show ?thesis by auto
    qed
    have outs: "(r = Inr () \<and> (\<forall>j \<in> set (i # is). \<exists>u. undo_find s' aid (bi_id j) = Some u \<and> bu_status u \<noteq> U_pending \<and>
        (is_settled s aid (bi_id j) \<longrightarrow> undo_find s aid (bi_id j) = Some u))) \<or> (\<exists>n. r = Inl (Db_error n))"
      using e2 fin by blast
    show ?thesis
      unfolding steps_end_def
    proof (intro conjI outs exI [of _ "cs1 @ cs2"] along)
      show "ids_below bu_id (b_next_undo s') (b_undos s')" using e2 by blast
      show "\<forall>j. j \<notin> bi_id ` set (i # is) \<longrightarrow> undo_find s' aid j = undo_find s aid j" using e1 e2 by simp
      show "undo_calls s' = undo_calls s @ cs1 @ cs2" using cs1 cs2 by simp
    qed
  qed
qed

lemma lifo_set [simp]: "set (lifo is) = set is" "distinct (map bi_id (lifo is)) = distinct (map bi_id is)"
  by (simp_all add: lifo_def distinct_map)

text \<open>Every way an undo can end.\<close>

definition undo_ends :: "butler_env \<Rightarrow> int \<Rightarrow> int \<Rightarrow> bdb \<Rightarrow> butler_error + unit \<Rightarrow> bdb \<Rightarrow> bool" where
  "undo_ends env aid uid s r s' \<longleftrightarrow>
     (s' = s \<and> (\<exists>k. r = Inl (Butler_error k))) \<or>
     (\<exists>a. action_get s aid = Some a \<and> may_undo env s a uid \<and> ba_status a \<in> {BA_succeeded, BA_undone} \<and>
       ((s' = s \<and> r = Inr () \<and> invs_of s aid \<noteq> [] \<and> all_settled s aid (invs_of s aid)) \<or>
        ((\<exists>cs. undo_calls s' = undo_calls s @ cs \<and> undoes_along s aid (lifo (invs_of s aid)) cs) \<and>
         tool_calls s' = tool_calls s \<and>
         ((\<exists>n. r = Inl (Db_error n)) \<or>
          (r = Inr () \<and> moved aid BA_undone s s' \<and> same_asks s s' \<and> b_invs s' = b_invs s \<and> b_next_inv s' = b_next_inv s \<and>
           b_buckets s' = b_buckets s \<and> ids_below bu_id (b_next_undo s') (b_undos s') \<and>
           (\<forall>i \<in> set (invs_of s aid). \<exists>u. undo_find s' aid (bi_id i) = Some u \<and> bu_status u \<noteq> U_pending \<and>
              (is_settled s aid (bi_id i) \<longrightarrow> undo_find s aid (bi_id i) = Some u)))))))"

lemma execute_undo_ends:
  assumes run: "execute_undo env cfg now aid uid s = (r, s')" and ids: "ids_below bu_id (b_next_undo s) (b_undos s)"
    and inv: "ids_below bi_id (b_next_inv s) (b_invs s)"
  shows "undo_ends env aid uid s r s'"
proof -
  from lock_bind [OF run [unfolded execute_undo_def]] show ?thesis
  proof (elim disjE conjE exE)
    assume "r = Inl (Butler_error ''cascade_in_flight'')" "s' = s"
    then show ?thesis by (simp add: undo_ends_def)
  next
    fix a
    let ?is = "invs_of s aid"
    assume a: "action_get s aid = Some a"
      and body: "bindB (getB (\<lambda>s. may_undo env s a uid)) (\<lambda>allowed.
       if \<not> allowed then raiseB ''forbidden'' else
       if ba_status a \<notin> {BA_succeeded, BA_undone} then raiseB ''wrong_status'' else
       bindB (getB (\<lambda>s. invs_of s aid)) (\<lambda>is.
       bindB (getB (\<lambda>s. is \<noteq> [] \<and> all_settled s aid is)) (\<lambda>finished.
       if finished then returnB () else
       if (case ba_executed_at a of None \<Rightarrow> False | Some t \<Rightarrow> now - t > 60 * set_undo_ttl cfg)
       then raiseB ''ttl_expired'' else
       bindB (undo_steps env aid uid (lifo is)) (\<lambda>_.
       action_update_status aid BA_undone (\<lambda>a. a\<lparr>ba_undone_at := Some now\<rparr>))))) s = (r, s')"
    have d: "distinct (map bi_id ?is)" using inv by (simp add: ids_below_def invs_of_def distinct_map_filter)
    consider (quiet) k where "s' = s" "r = Inl (Butler_error k)"
      | (fin) "may_undo env s a uid" "ba_status a \<in> {BA_succeeded, BA_undone}" "s' = s" "r = Inr ()" "?is \<noteq> []" "all_settled s aid ?is"
      | (go) "may_undo env s a uid" "ba_status a \<in> {BA_succeeded, BA_undone}"
          "bindB (undo_steps env aid uid (lifo ?is)) (\<lambda>_.
             action_update_status aid BA_undone (\<lambda>a. a\<lparr>ba_undone_at := Some now\<rparr>)) s = (r, s')"
      using body by (auto split: if_splits)
    then show ?thesis
    proof cases
      case quiet
      then show ?thesis by (simp add: undo_ends_def)
    next
      case fin
      with a show ?thesis by (simp add: undo_ends_def)
    next
      case go
      obtain r1 s1 where st: "undo_steps env aid uid (lifo ?is) s = (r1, s1)" by fastforce
      have d': "distinct (map bi_id (lifo ?is))" using d by simp
      note e = undo_steps_end [OF st ids d', unfolded steps_end_def]
      from e obtain cs where cs: "undo_calls s1 = undo_calls s @ cs" "undoes_along s aid (lifo ?is) cs" by blast
      note fr = but_undos_eqs [OF leaves_run [OF undo_steps_leave st]]
      show ?thesis
      proof (cases r1)
        case (Inl x)
        with go(3) st have rs: "r = Inl x" "s' = s1" by (simp_all add: bindB_def)
        from e Inl have "\<exists>n. x = Db_error n" by simp
        then show ?thesis
          unfolding undo_ends_def rs using a go(1,2) cs fr(5) by (intro disjI2 exI [of _ a]) auto
      next
        case (Inr v)
        with go(3) st have up: "action_update_status aid BA_undone (\<lambda>a. a\<lparr>ba_undone_at := Some now\<rparr>) s1 = (r, s')"
          by (simp add: bindB_def)
        from action_update_result [OF up] have "(s' = s1 \<and> (\<exists>n. r = Inl (Db_error n))) \<or>
          (r = Inr () \<and> moved aid BA_undone s1 s' \<and> same_asks s1 s' \<and> same_runs s1 s' \<and> b_buckets s' = b_buckets s1)" by auto
        then show ?thesis
        proof
          assume "s' = s1 \<and> (\<exists>n. r = Inl (Db_error n))"
          then show ?thesis
            unfolding undo_ends_def using a go(1,2) cs fr(5) by (intro disjI2 exI [of _ a]) auto
        next
          assume *: "r = Inr () \<and> moved aid BA_undone s1 s' \<and> same_asks s1 s' \<and> same_runs s1 s' \<and> b_buckets s' = b_buckets s1"
          have m: "moved aid BA_undone s s'" by (rule moved_same_acts(2) [OF fr(1)]) (use * in blast)
          have fnd: "undo_find s' aid j = undo_find s1 aid j" for j using * by (simp add: undo_find_def same_runs_def)
          have rows: "\<forall>i \<in> set ?is. \<exists>u. undo_find s' aid (bi_id i) = Some u \<and> bu_status u \<noteq> U_pending \<and>
              (is_settled s aid (bi_id i) \<longrightarrow> undo_find s aid (bi_id i) = Some u)"
            using e Inr unfolding fnd lifo_set by simp
          have rest: "same_asks s s'" "b_invs s' = b_invs s" "b_next_inv s' = b_next_inv s" "b_buckets s' = b_buckets s"
            "ids_below bu_id (b_next_undo s') (b_undos s')" "tool_calls s' = tool_calls s" "undo_calls s' = undo_calls s @ cs"
            using * fr e cs by (simp_all add: same_runs_def same_asks_def)
          show ?thesis
            unfolding undo_ends_def using a go(1,2) cs(2) m rows rest * by (intro disjI2 exI [of _ a]) blast
        qed
      qed
    qed
  qed
qed

end
