(* ===== verification/ButlerSystem.thy ===== *)
theory ButlerSystem
  imports ButlerUndo
begin

section \<open>The butler as a transition system\<close>

text \<open>
  The committed states of the butler's tables, as any sequence of handler calls, expiry ticks and forget
  events can leave them, and the invariant that ties an action's status to the answers of its users.
  At every step the collaborators, the clock and the arguments are arbitrary.
\<close>

subsection \<open>Steps\<close>

definition empty_bdb :: bdb where
  "empty_bdb = \<lparr>b_actions = [], b_confs = [], b_invs = [], b_undos = [], b_buckets = [], b_ledger = [],
     b_next_action = 1, b_next_conf = 1, b_next_inv = 1, b_next_undo = 1, tool_calls = [], undo_calls = []\<rparr>"

inductive bstep :: "butler_settings \<Rightarrow> bdb \<Rightarrow> bdb \<Rightarrow> bool" for cfg where
  plan: "bstep cfg s (commit_plan s (plan_action env cfg now uid chat query scope s))"
| confirm: "bstep cfg s (commitB s (confirm_action env now aid uid token s))"
| execute: "bstep cfg s (commitB s (execute_action env cfg now aid s))"
| cancel: "bstep cfg s (commitB s (cancel_action env aid uid s))"
| revoke: "bstep cfg s (commitB s (revoke_affected_user_consent env now aid uid s))"
| undo: "bstep cfg s (commitB s (execute_undo env cfg now aid uid s))"
| expire: "bstep cfg s (commitB s (expire_action env now aid s))"
| tick: "bstep cfg s (snd (butler_expire_tick env now s))"
| forget: "bstep cfg s (cascade_butler_actions hit s)"

inductive breach :: "butler_settings \<Rightarrow> bdb \<Rightarrow> bool" for cfg where
  init: "breach cfg empty_bdb"
| step: "breach cfg s \<Longrightarrow> bstep cfg s s' \<Longrightarrow> breach cfg s'"

subsection \<open>The life of an action\<close>

text \<open>The status changes that are ever committed, besides standing still.\<close>

fun may_become :: "ba_status \<Rightarrow> ba_status \<Rightarrow> bool" where
  "may_become BA_pending_confirmation st = (st \<in> {BA_confirmed, BA_rejected, BA_expired, BA_cancelled})"
| "may_become BA_confirmed st = (st \<in> {BA_rejected, BA_succeeded, BA_execution_failed, BA_expired, BA_cancelled})"
| "may_become BA_succeeded st = (st = BA_undone)"
| "may_become BA_expired st = (st = BA_cancelled)"
| "may_become _ st = False"

text \<open>The statuses a committed row can have.\<close>

definition live_status :: "ba_status \<Rightarrow> bool" where
  "live_status st \<longleftrightarrow> st \<in> {BA_pending_confirmation, BA_confirmed, BA_succeeded, BA_undone, BA_rejected,
     BA_expired, BA_execution_failed, BA_cancelled}"

text \<open>The statuses only reached when every question was answered with yes.\<close>

definition agreed_status :: "ba_status \<Rightarrow> bool" where
  "agreed_status st \<longleftrightarrow> st \<in> {BA_confirmed, BA_succeeded, BA_undone, BA_execution_failed, BA_rejected}"

text \<open>Everyone whose consent a plan needs: its requester and the users it affects.\<close>

definition parties :: "butler_action \<Rightarrow> butler_plan \<Rightarrow> int set" where
  "parties a p = insert (ba_requester a) (set (affected_users (ba_requester a) p))"

definition asked :: "bdb \<Rightarrow> butler_action \<Rightarrow> bool" where
  "asked s a \<longleftrightarrow> (\<exists>p. ba_plan a = Some p \<and>
     (\<forall>u \<in> parties a p. \<exists>c \<in> set (b_confs s). bc_action c = ba_id a \<and> bc_confirmer c = u))"

definition consented :: "bdb \<Rightarrow> butler_action \<Rightarrow> butler_plan \<Rightarrow> bool" where
  "consented s a p \<longleftrightarrow> (\<forall>u \<in> parties a p. \<exists>c \<in> set (b_confs s).
     bc_action c = ba_id a \<and> bc_confirmer c = u \<and> bc_status c = C_confirmed)"

definition open_answers :: "bdb \<Rightarrow> int \<Rightarrow> bool" where
  "open_answers s aid \<longleftrightarrow>
     (\<forall>c \<in> set (b_confs s). bc_action c = aid \<longrightarrow> bc_status c \<in> {C_pending, C_confirmed})"

definition sound_action :: "bdb \<Rightarrow> butler_action \<Rightarrow> bool" where
  "sound_action s a \<longleftrightarrow> live_status (ba_status a) \<and> ck_butler_action a \<and>
     (agreed_status (ba_status a) \<longrightarrow> all_confirmed s (ba_id a)) \<and>
     (ba_status a = BA_pending_confirmation \<longrightarrow> open_answers s (ba_id a)) \<and>
     (ba_status a \<notin> {BA_rejected, BA_cancelled} \<longrightarrow> asked s a)"

text \<open>A call made to a tool: a step of the stored plan of an action everyone involved agreed to.\<close>

definition call_sound :: "bdb \<Rightarrow> tool_call \<Rightarrow> bool" where
  "call_sound s c \<longleftrightarrow> (\<exists>a \<in> set (b_actions s). \<exists>p. ba_id a = tc_action c \<and> ba_plan a = Some p \<and>
     (\<exists>q \<in> set (enumerate 1 (bp_actions p)). call_of (ba_id a) c q) \<and> consented s a p)"

definition butler_inv :: "bdb \<Rightarrow> bool" where
  "butler_inv s \<longleftrightarrow>
     ids_below ba_id (b_next_action s) (b_actions s) \<and> ids_below bc_id (b_next_conf s) (b_confs s) \<and>
     ids_below bi_id (b_next_inv s) (b_invs s) \<and> ids_below bu_id (b_next_undo s) (b_undos s) \<and>
     (\<forall>c \<in> set (b_confs s). bc_action c < b_next_action s) \<and>
     (\<forall>a \<in> set (b_actions s). sound_action s a) \<and>
     (\<forall>c \<in> set (tool_calls s). call_sound s c)"

lemma butler_inv_empty: "butler_inv empty_bdb"
  by (simp add: butler_inv_def empty_bdb_def ids_below_def)

subsection \<open>Changes of existing rows\<close>

text \<open>
  What every transition but planning does to the actions and the questions: rows keep their identity,
  a status moves along its life, a confirmed answer stays confirmed, an answer becomes neither pending nor
  confirmed only when its action is no longer pending, and an agreed status comes with every answer.
\<close>

definition answers_kept :: "bdb \<Rightarrow> bdb \<Rightarrow> bool" where
  "answers_kept s s' \<longleftrightarrow> b_next_conf s' = b_next_conf s \<and>
     (\<exists>h. b_confs s' = map h (b_confs s) \<and>
       (\<forall>c \<in> set (b_confs s). bc_id (h c) = bc_id c \<and> bc_action (h c) = bc_action c \<and> bc_confirmer (h c) = bc_confirmer c \<and>
          (bc_status c = C_confirmed \<longrightarrow> bc_status (h c) = C_confirmed) \<and>
          (bc_status (h c) \<in> {bc_status c, C_pending, C_confirmed} \<or>
           (\<forall>b \<in> set (b_actions s'). ba_id b = bc_action c \<longrightarrow> ba_status b \<noteq> BA_pending_confirmation))))"

definition lives_on :: "bdb \<Rightarrow> butler_action \<Rightarrow> butler_action \<Rightarrow> bool" where
  "lives_on s' a b \<longleftrightarrow> same_row a b \<and> ck_butler_action b \<and>
     (ba_status b = ba_status a \<or>
      (may_become (ba_status a) (ba_status b) \<and> (agreed_status (ba_status b) \<longrightarrow> all_confirmed s' (ba_id a))))"

definition actions_kept :: "bdb \<Rightarrow> bdb \<Rightarrow> bool" where
  "actions_kept s s' \<longleftrightarrow> b_next_action s' = b_next_action s \<and>
     (\<exists>g. b_actions s' = map g (b_actions s) \<and> (\<forall>a \<in> set (b_actions s). lives_on s' a (g a)))"

text \<open>Calls to tools that are covered by the consent in the new state.\<close>

definition calls_sound :: "bdb \<Rightarrow> bdb \<Rightarrow> bool" where
  "calls_sound s s' \<longleftrightarrow> (\<exists>cs. tool_calls s' = tool_calls s @ cs \<and> (\<forall>c \<in> set cs. call_sound s' c))"

definition carries :: "bdb \<Rightarrow> bdb \<Rightarrow> bool" where
  "carries s s' \<longleftrightarrow> answers_kept s s' \<and> actions_kept s s' \<and> calls_sound s s' \<and>
     ids_below bi_id (b_next_inv s') (b_invs s') \<and> ids_below bu_id (b_next_undo s') (b_undos s')"

lemma may_become_live: "may_become st st' \<Longrightarrow> live_status st'"
  by (cases st) (auto simp: live_status_def)

lemma may_become_from: "may_become st st' \<Longrightarrow> st \<notin> {BA_rejected, BA_cancelled}"
  by (cases st) auto

lemma may_become_pending: "may_become st st' \<Longrightarrow> st' \<noteq> BA_pending_confirmation"
  by (cases st) auto

lemma answers_kept_open:
  "answers_kept s s' \<Longrightarrow> open_answers s (ba_id b) \<Longrightarrow> b \<in> set (b_actions s') \<Longrightarrow>
   ba_status b = BA_pending_confirmation \<Longrightarrow> open_answers s' (ba_id b)"
  unfolding answers_kept_def open_answers_def by fastforce

lemma all_confirmed_iff: "all_confirmed s aid \<longleftrightarrow> (\<forall>c \<in> set (b_confs s). bc_action c = aid \<longrightarrow> bc_status c = C_confirmed)"
  by (auto simp: all_confirmed_def confs_of_def list_all_iff)

lemma answers_kept_all: "answers_kept s s' \<Longrightarrow> all_confirmed s aid \<Longrightarrow> all_confirmed s' aid"
  by (force simp: answers_kept_def all_confirmed_iff)

lemma answers_kept_row:
  "answers_kept s s' \<Longrightarrow> c \<in> set (b_confs s) \<Longrightarrow>
     \<exists>d \<in> set (b_confs s'). bc_action d = bc_action c \<and> bc_confirmer d = bc_confirmer c \<and>
       (bc_status c = C_confirmed \<longrightarrow> bc_status d = C_confirmed)"
  by (auto simp: answers_kept_def)

lemma same_row_parties: "same_row a b \<Longrightarrow> parties b p = parties a p"
  by (simp add: parties_def same_row_def)

lemma answers_kept_asked:
  assumes k: "answers_kept s s'" and a: "asked s a" and r: "same_row a b"
  shows "asked s' b"
proof -
  from a obtain p where p: "ba_plan a = Some p"
    "\<forall>u \<in> parties a p. \<exists>c \<in> set (b_confs s). bc_action c = ba_id a \<and> bc_confirmer c = u" by (auto simp: asked_def)
  have "\<exists>d \<in> set (b_confs s'). bc_action d = ba_id b \<and> bc_confirmer d = u" if "u \<in> parties b p" for u
    using p(2) that same_row_parties [OF r] same_row_id [OF r] answers_kept_row [OF k] by metis
  with p(1) r show ?thesis by (auto simp: asked_def same_row_def)
qed

lemma answers_kept_consented:
  assumes k: "answers_kept s s'" and a: "consented s a p" and r: "same_row a b"
  shows "consented s' b p"
  unfolding consented_def
proof
  fix u assume "u \<in> parties b p"
  with a same_row_parties [OF r] obtain c where c: "c \<in> set (b_confs s)" "bc_action c = ba_id a" "bc_confirmer c = u"
    "bc_status c = C_confirmed" by (auto simp: consented_def)
  from answers_kept_row [OF k c(1)] c same_row_id [OF r]
  show "\<exists>c \<in> set (b_confs s'). bc_action c = ba_id b \<and> bc_confirmer c = u \<and> bc_status c = C_confirmed" by auto
qed

lemma ids_below_map_on:
  "(\<And>r. r \<in> set t \<Longrightarrow> key (f r) = key r) \<Longrightarrow> ids_below key n (map f t) = ids_below key n t"
proof -
  assume eq: "\<And>r. r \<in> set t \<Longrightarrow> key (f r) = key r"
  then have "map key (map f t) = map key t" by simp
  with eq show ?thesis by (simp only: ids_below_def) auto
qed

theorem carries_inv:
  assumes inv: "butler_inv s" and c: "carries s s'"
  shows "butler_inv s'"
proof -
  from c obtain h where h: "b_confs s' = map h (b_confs s)"
      "\<forall>c \<in> set (b_confs s). bc_id (h c) = bc_id c \<and> bc_action (h c) = bc_action c"
    and nc: "b_next_conf s' = b_next_conf s" and ak: "answers_kept s s'"
    by (auto simp: carries_def answers_kept_def)
  from c obtain g where g: "b_actions s' = map g (b_actions s)" "\<forall>a \<in> set (b_actions s). lives_on s' a (g a)"
    and na: "b_next_action s' = b_next_action s"
    by (auto simp: carries_def actions_kept_def)
  have row: "same_row a (g a)" if "a \<in> set (b_actions s)" for a using g(2) that by (simp add: lives_on_def)
  show ?thesis
    unfolding butler_inv_def
  proof (intro conjI ballI)
    show "ids_below ba_id (b_next_action s') (b_actions s')"
      unfolding g(1) na using inv row by (subst ids_below_map_on) (auto simp: butler_inv_def same_row_def)
    show "ids_below bc_id (b_next_conf s') (b_confs s')"
      unfolding h(1) nc using inv h(2) by (subst ids_below_map_on) (auto simp: butler_inv_def)
    show "ids_below bi_id (b_next_inv s') (b_invs s')" "ids_below bu_id (b_next_undo s') (b_undos s')"
      using c by (simp_all add: carries_def)
    show "bc_action c < b_next_action s'" if "c \<in> set (b_confs s')" for c
      using that inv h(2) unfolding h(1) na by (auto simp: butler_inv_def)
  next
    fix b assume bin: "b \<in> set (b_actions s')"
    then obtain a where a: "a \<in> set (b_actions s)" "b = g a" using g(1) by auto
    with inv have old: "sound_action s a" by (simp add: butler_inv_def)
    from a g(2) have l: "lives_on s' a b" by simp
    have id: "ba_id b = ba_id a" using l by (simp add: lives_on_def same_row_def)
    show "sound_action s' b"
      unfolding sound_action_def
    proof (intro conjI impI)
      show "live_status (ba_status b)" using l old may_become_live by (auto simp: lives_on_def sound_action_def)
      show "ck_butler_action b" using l by (simp add: lives_on_def)
      show "all_confirmed s' (ba_id b)" if "agreed_status (ba_status b)"
        using l old that answers_kept_all [OF ak] by (auto simp: lives_on_def sound_action_def id)
      show "open_answers s' (ba_id b)" if "ba_status b = BA_pending_confirmation"
        using l old that may_become_pending answers_kept_open [OF ak _ bin that]
        by (auto simp: lives_on_def sound_action_def id)
      show "asked s' b" if "ba_status b \<notin> {BA_rejected, BA_cancelled}"
      proof -
        have "ba_status a \<notin> {BA_rejected, BA_cancelled}"
          using l that may_become_from by (auto simp: lives_on_def)
        then show ?thesis using old l answers_kept_asked [OF ak] by (auto simp: sound_action_def lives_on_def)
      qed
    qed
  next
    fix c assume cin: "c \<in> set (tool_calls s')"
    have kept: "call_sound s' c" if "call_sound s c"
    proof -
      from that obtain a p q where a: "a \<in> set (b_actions s)" "ba_id a = tc_action c" "ba_plan a = Some p"
        "q \<in> set (enumerate 1 (bp_actions p))" "call_of (ba_id a) c q" "consented s a p"
        by (auto simp: call_sound_def)
      have "ba_id (g a) = ba_id a" "ba_plan (g a) = Some p" using row [OF a(1)] a(3) by (simp_all add: same_row_def)
      moreover have "g a \<in> set (b_actions s')" using a(1) g(1) by simp
      moreover have "consented s' (g a) p" by (rule answers_kept_consented [OF ak a(6) row [OF a(1)]])
      ultimately show ?thesis unfolding call_sound_def using a(2,4,5)
        by (intro bexI [of _ "g a"] exI [of _ p] conjI bexI [of _ q]) simp_all
    qed
    from c obtain cs where "tool_calls s' = tool_calls s @ cs" "\<forall>c \<in> set cs. call_sound s' c"
      by (auto simp: carries_def calls_sound_def)
    with cin inv kept show "call_sound s' c" by (auto simp: butler_inv_def)
  qed
qed

subsection \<open>Each operation\<close>

lemma inv_ids:
  assumes "butler_inv s"
  shows "ids_below ba_id (b_next_action s) (b_actions s)" "ids_below bc_id (b_next_conf s) (b_confs s)"
    "ids_below bi_id (b_next_inv s) (b_invs s)" "ids_below bu_id (b_next_undo s) (b_undos s)"
  using assms by (simp_all add: butler_inv_def)

lemma inv_sound: "butler_inv s \<Longrightarrow> a \<in> set (b_actions s) \<Longrightarrow> sound_action s a"
  by (simp add: butler_inv_def)

lemma inv_unique: "butler_inv s \<Longrightarrow> action_get s aid = Some a \<Longrightarrow> b \<in> set (b_actions s) \<Longrightarrow> ba_id b = aid \<Longrightarrow> b = a"
  using fetch_distinct [of ba_id "b_actions s" b] by (simp add: action_get_def butler_inv_def ids_below_def)

lemma lives_on_refl: "ck_butler_action a \<Longrightarrow> lives_on s' a a"
  by (simp add: lives_on_def)

lemma same_acts_kept: "butler_inv s \<Longrightarrow> same_acts s s' \<Longrightarrow> actions_kept s s'"
  unfolding actions_kept_def
  by (auto simp: same_acts_def sound_action_def dest: inv_sound intro!: exI [of _ "\<lambda>a. a"] lives_on_refl)

lemma same_asks_kept: "same_asks s s' \<Longrightarrow> answers_kept s s'"
  unfolding answers_kept_def by (auto simp: same_asks_def intro!: exI [of _ "\<lambda>c. c"])

lemma same_calls_sound: "tool_calls s' = tool_calls s \<Longrightarrow> calls_sound s s'"
  by (simp add: calls_sound_def)

lemma moved_kept:
  assumes inv: "butler_inv s" and m: "moved aid st s s'" and a: "action_get s aid = Some a"
    and st: "ba_status a = st \<or> may_become (ba_status a) st" and ag: "agreed_status st \<Longrightarrow> all_confirmed s' aid"
  shows "actions_kept s s'"
proof -
  from m obtain g where g: "\<forall>a. same_row a (g a) \<and> ba_status (g a) = st"
      "\<forall>a. action_get s aid = Some a \<longrightarrow> ck_butler_action (g a)"
      "b_actions s' = update_where (\<lambda>a. ba_id a = aid) g (b_actions s)" "b_next_action s' = b_next_action s"
    by (auto simp: moved_def)
  let ?g = "\<lambda>b. if ba_id b = aid then g b else b"
  have "lives_on s' b (?g b)" if b: "b \<in> set (b_actions s)" for b
  proof (cases "ba_id b = aid")
    case True
    with inv_unique [OF inv a b] have "b = a" by simp
    with True g(1,2) a st ag show ?thesis by (auto simp: lives_on_def)
  next
    case False
    then show ?thesis using inv_sound [OF inv b] by (simp add: lives_on_refl sound_action_def)
  qed
  with g(3,4) show ?thesis unfolding actions_kept_def update_where_def by (intro conjI exI [of _ ?g]) simp_all
qed

lemma marked_kept:
  assumes inv: "butler_inv s" and m: "marked (bc_id c) st s s'" and c: "c \<in> set (b_confs s)"
    and st: "st = C_confirmed \<or> (bc_status c \<noteq> C_confirmed \<and>
      (\<forall>b \<in> set (b_actions s'). ba_id b = bc_action c \<longrightarrow> ba_status b \<noteq> BA_pending_confirmation))"
  shows "answers_kept s s'"
proof -
  from m obtain g where g: "\<forall>c. bc_id (g c) = bc_id c \<and> bc_action (g c) = bc_action c \<and> bc_confirmer (g c) = bc_confirmer c \<and>
            bc_role (g c) = bc_role c \<and> bc_token (g c) = bc_token c \<and> bc_status (g c) = st"
      "b_confs s' = update_where (\<lambda>d. bc_id d = bc_id c) g (b_confs s)" "b_next_conf s' = b_next_conf s"
    by (auto simp: marked_def)
  let ?g = "\<lambda>d. if bc_id d = bc_id c then g d else d"
  have uniq: "d = c" if "d \<in> set (b_confs s)" "bc_id d = bc_id c" for d
    using inv_ids(2) [OF inv] c that by (auto simp: ids_below_def distinct_map inj_on_def)
  then have conf: "bc_status (?g d) = C_confirmed" if "d \<in> set (b_confs s)" "bc_status d = C_confirmed" for d
    using that st g(1) by (cases "bc_id d = bc_id c") auto
  have still: "bc_status (?g d) \<in> {bc_status d, C_pending, C_confirmed} \<or>
      (\<forall>b \<in> set (b_actions s'). ba_id b = bc_action d \<longrightarrow> ba_status b \<noteq> BA_pending_confirmation)" if d: "d \<in> set (b_confs s)" for d
  proof (cases "bc_id d = bc_id c")
    case True
    with uniq [OF d] have "d = c" by blast
    with st g(1) show ?thesis by auto
  qed simp
  have cols: "bc_id (?g d) = bc_id d \<and> bc_action (?g d) = bc_action d \<and> bc_confirmer (?g d) = bc_confirmer d" for d
    using g(1) by simp
  have rows: "b_confs s' = map ?g (b_confs s)" using g(2) by (simp add: update_where_def)
  show ?thesis
    unfolding answers_kept_def using g(3) rows cols conf still
    by (intro conjI exI [of _ ?g] ballI impI) blast+
qed

text \<open>After a move no row with the action's id has another status.\<close>

lemma moved_status: "moved aid st s s' \<Longrightarrow> b \<in> set (b_actions s') \<Longrightarrow> ba_id b = aid \<Longrightarrow> ba_status b = st"
proof -
  assume m: "moved aid st s s'" and b: "b \<in> set (b_actions s')" "ba_id b = aid"
  from m obtain g where g: "\<forall>a. same_row a (g a) \<and> ba_status (g a) = st"
      "b_actions s' = update_where (\<lambda>a. ba_id a = aid) g (b_actions s)"
    by (auto simp: moved_def)
  have "b \<in> (\<lambda>e. if ba_id e = aid then g e else e) ` set (b_actions s)" using b(1) by (simp add: g(2) update_where_def)
  then obtain e where e: "b = (if ba_id e = aid then g e else e)" by (rule imageE)
  show "ba_status b = st" using e b(2) g(1) by (cases "ba_id e = aid") simp_all
qed

lemma carriesI:
  assumes "butler_inv s" "answers_kept s s'" "actions_kept s s'" "tool_calls s' = tool_calls s"
    "ids_below bi_id (b_next_inv s') (b_invs s')" "ids_below bu_id (b_next_undo s') (b_undos s')"
  shows "carries s s'"
  using assms by (simp add: carries_def same_calls_sound)

lemma carries_runs:
  assumes "butler_inv s" "answers_kept s s'" "actions_kept s s'" "same_runs s s'"
  shows "carries s s'"
  using assms inv_ids [OF assms(1)] by (intro carriesI) (simp_all add: same_runs_def)

lemma carries_refl: "butler_inv s \<Longrightarrow> carries s s"
  by (rule carries_runs) (simp_all add: same_asks_kept same_acts_kept)

subsubsection \<open>Planning adds an action\<close>

lemma audited_inv:
  assumes inv: "butler_inv s" and a: "audited s a s'" "ba_status a = BA_rejected"
  shows "butler_inv s'"
proof -
  have eqs: "b_confs s' = b_confs s" "b_next_conf s' = b_next_conf s" "b_invs s' = b_invs s" "b_next_inv s' = b_next_inv s"
    "b_undos s' = b_undos s" "b_next_undo s' = b_next_undo s" "tool_calls s' = tool_calls s"
    "b_actions s' = b_actions s @ [a]" "b_next_action s' = b_next_action s + 1" "ba_id a = b_next_action s" "ck_butler_action a"
    using a(1) by (simp_all add: audited_def same_defs)
  have none: "all_confirmed s' (ba_id a)"
    using inv by (force simp: all_confirmed_iff eqs butler_inv_def)
  have old: "sound_action s' b" if "sound_action s b" for b
    using that by (simp add: sound_action_def all_confirmed_iff asked_def open_answers_def eqs)
  have calls: "call_sound s' c" if "call_sound s c" for c
    using that by (auto simp: call_sound_def consented_def eqs)
  have new: "sound_action s' a"
    using none a(2) eqs by (simp add: sound_action_def live_status_def)
  have "ids_below ba_id (b_next_action s + 1) (b_actions s @ [a])"
    by (rule ids_below_append) (use inv eqs in \<open>simp_all add: butler_inv_def\<close>)
  moreover have "\<forall>c \<in> set (b_confs s). bc_action c < b_next_action s + 1" using inv by (force simp: butler_inv_def)
  ultimately show ?thesis using inv old new calls unfolding butler_inv_def eqs by auto
qed

lemma ids_below_extend:
  assumes "ids_below key n t" "map key u = map (\<lambda>k. n + int k) [0..<length u]"
  shows "ids_below key (n + int (length u)) (t @ u)"
proof -
  have set: "key ` set u = (\<lambda>k. n + int k) ` {0..<length u}" using arg_cong [OF assms(2), of set] by simp
  have "distinct (map key u)" unfolding assms(2) by (simp add: distinct_map inj_on_def)
  moreover have "n \<le> key r \<and> key r < n + int (length u)" if "r \<in> set u" for r
  proof -
    have "key r \<in> (\<lambda>k. n + int k) ` {0..<length u}" using that set by blast
    then show ?thesis by auto
  qed
  ultimately show ?thesis using assms(1) by (fastforce simp: ids_below_def)
qed

lemma stored_inv:
  assumes inv: "butler_inv s" and st: "stored cfg now uid s a p s'"
  shows "butler_inv s'"
proof -
  have eqs: "b_invs s' = b_invs s" "b_next_inv s' = b_next_inv s" "b_undos s' = b_undos s" "b_next_undo s' = b_next_undo s"
    "tool_calls s' = tool_calls s" "b_actions s' = b_actions s @ [a]" "b_next_action s' = b_next_action s + 1"
    "ba_id a = b_next_action s" "ck_butler_action a" "ba_status a = BA_pending_confirmation" "ba_requester a = uid" "ba_plan a = Some p"
    using st by (simp_all add: stored_def same_runs_def)
  from st obtain c cs where cs: "b_confs s' = b_confs s @ c # cs" "bc_confirmer c = uid" "bc_action c = ba_id a"
      "map bc_confirmer cs = affected_users uid p" "\<forall>d \<in> set cs. bc_action d = ba_id a"
    and pend: "\<forall>d \<in> set (c # cs). bc_status d = C_pending"
    and ids: "bc_id c = b_next_conf s" "map bc_id cs = map (\<lambda>k. b_next_conf s + 1 + int k) [0..<length (affected_users uid p)]"
      "b_next_conf s' = b_next_conf s + 1 + int (length (affected_users uid p))"
    by (auto simp: stored_def asks_def list_all_iff)
  have len: "length cs = length (affected_users uid p)" using cs(4) by (metis length_map)
  have old: "sound_action s' b" if "sound_action s b" "b \<in> set (b_actions s)" for b
  proof -
    have "ba_id b \<noteq> ba_id a" using inv that(2) eqs(8) by (auto simp: butler_inv_def ids_below_def)
    then have "all_confirmed s' (ba_id b) = all_confirmed s (ba_id b)" "open_answers s' (ba_id b) = open_answers s (ba_id b)"
      using cs by (auto simp: all_confirmed_iff open_answers_def)
    moreover have "asked s' b" if "asked s b" using that cs(1) by (fastforce simp: asked_def)
    ultimately show ?thesis using that(1) by (simp add: sound_action_def)
  qed
  have calls: "call_sound s' d" if "call_sound s d" for d
    using that cs(1) unfolding call_sound_def consented_def eqs by fastforce
  have new: "sound_action s' a"
  proof -
    have "\<exists>d \<in> set (b_confs s'). bc_action d = ba_id a \<and> bc_confirmer d = u" if u: "u \<in> parties a p" for u
    proof (cases "u = uid")
      case True
      with cs show ?thesis by auto
    next
      case False
      with u eqs(11) have "u \<in> set (affected_users uid p)" by (simp add: parties_def)
      then have "u \<in> bc_confirmer ` set cs" using cs(4) by (metis set_map)
      with cs show ?thesis by auto
    qed
    then have "asked s' a" using eqs by (simp add: asked_def)
    moreover have "open_answers s' (ba_id a)"
      using inv pend cs(1) eqs(8) by (fastforce simp: open_answers_def butler_inv_def)
    ultimately show ?thesis using eqs by (simp add: sound_action_def live_status_def agreed_status_def)
  qed
  have aids: "ids_below ba_id (b_next_action s + 1) (b_actions s @ [a])"
    by (rule ids_below_append) (use inv eqs in \<open>simp_all add: butler_inv_def\<close>)
  have "ids_below bc_id (b_next_conf s + 1 + int (length cs)) ((b_confs s @ [c]) @ cs)"
    by (rule ids_below_extend) (use inv ids len in \<open>simp_all add: butler_inv_def ids_below_append\<close>)
  then have cids: "ids_below bc_id (b_next_conf s') (b_confs s')" using ids cs(1) len by simp
  have "\<forall>d \<in> set (b_confs s'). bc_action d < b_next_action s + 1"
    using inv cs eqs(8) by (force simp: butler_inv_def)
  then show ?thesis using inv old new calls aids cids unfolding butler_inv_def eqs by auto
qed

lemma db_error_inv:
  assumes inv: "butler_inv s" and "calls_sound s (s\<lparr>tool_calls := tool_calls s1, undo_calls := undo_calls s1\<rparr>)"
  shows "carries s (s\<lparr>tool_calls := tool_calls s1, undo_calls := undo_calls s1\<rparr>)"
  using assms inv_ids [OF inv] by (simp add: carries_def same_asks_kept same_acts_kept same_defs)

subsubsection \<open>Transitions that call nobody\<close>

definition outside :: "bdb \<Rightarrow> tool_call list \<times> (int \<times> int \<times> undo_call) list" where
  "outside s = (tool_calls s, undo_calls s)"

lemma outside_rows [leaves]:
  "leaves outside (action_create r)" "leaves outside (action_update_status i st f)" "leaves outside (conf_create i u ro pv e t)"
  "leaves outside (conf_resolve c cs n)" "leaves outside (conf_for_user i u)" "leaves outside (confs_mark_all i cs)"
  "leaves outside (lock_action env i)" "leaves outside (lock_existing env i)" "leaves outside (try_increment k sc ky w ce)"
  "leaves outside (modifyB (\<lambda>s. s\<lparr>b_ledger := b_ledger s @ l\<rparr>))"
  by (auto simp: leaves_def outside_def action_create_def action_update_status_def conf_create_def conf_resolve_def
      conf_for_user_def confs_mark_all_def lock_action_def lock_existing_def try_increment_def Let_def modifyB_def
      split: option.split list.split)

lemma outside_roll_back [leaves]: "leaves outside (roll_back bs)"
proof -
  have "outside (foldl (\<lambda>s (kind, scope, key). decrement kind scope key s) s bs) = outside s" for s
    using roll_back_frame [of s bs] by (simp add: outside_def only_buckets_def same_runs_def)
  then show ?thesis by (simp add: leaves_def roll_back_def)
qed

lemma outside_ask [leaves]: "leaves outside (ask_affected env i pv e us)"
  by (induction us) (auto intro!: leaves simp del: bindB_get)

lemma outside_plan [leaves]: "leaves outside (plan_action env cfg now uid chat query scope)"
  unfolding plan_action_def plan_from_evidence_def store_plan_def reject_with_def Let_def
  by (auto intro!: leaves split: sum.split prod.split)

lemma outside_confirm [leaves]: "leaves outside (confirm_action env now aid uid token)"
  unfolding confirm_action_def confirm_evidence_def Let_def by (auto intro!: leaves split: option.split)

lemma outside_withdraw [leaves]:
  "leaves outside (cancel_action env aid uid)" "leaves outside (revoke_affected_user_consent env now aid uid)"
  "leaves outside (expire_action env now aid)"
  unfolding cancel_action_def revoke_affected_user_consent_def expire_action_def
  by (auto intro!: leaves split: option.split)

lemma commit_quiet:
  assumes "leaves outside m" "m s = (r, s')"
  shows "commitB s (r, s') = (if is_ok r \<or> (\<exists>k. r = Inl (Butler_error k)) then s' else s)"
proof -
  have "outside s' = outside s" by (rule leaves_run [OF assms])
  then show ?thesis by (auto simp: commitB_def outside_def is_ok_iff split: sum.split butler_error.split)
qed

lemma commitB_ok: "commitB s (Inr x, s') = s'"
  by (simp add: commitB_def)

lemma commit_plan_quiet:
  assumes "plan_action env cfg now uid chat query scope s = (r, s')"
  shows "commit_plan s (r, s') = (if is_ok r \<or> (\<exists>k. r = Inl (Butler_error k) \<or> r = Inl (Evidence_error k)) then s' else s)"
  unfolding commit_plan_def using commit_quiet [OF outside_plan assms]
  by (auto simp: is_ok_iff split: sum.split butler_error.split)

lemma only_buckets_inv: "butler_inv s \<Longrightarrow> only_buckets s s' \<Longrightarrow> butler_inv s'"
  unfolding only_buckets_def using carries_inv carries_runs same_asks_kept same_acts_kept by blast

lemma plan_step:
  assumes inv: "butler_inv s"
  shows "butler_inv (commit_plan s (plan_action env cfg now uid chat query scope s))"
proof -
  obtain r s' where run: "plan_action env cfg now uid chat query scope s = (r, s')" by fastforce
  from plan_action_ends [OF run] show ?thesis
    unfolding run commit_plan_quiet [OF run] plan_ends_def
    using inv audited_inv [OF inv] stored_inv [OF inv] only_buckets_inv [OF inv] by auto
qed

lemma confirm_step:
  assumes inv: "butler_inv s"
  shows "carries s (commitB s (confirm_action env now aid uid token s))"
proof -
  obtain r s' where run: "confirm_action env now aid uid token s = (r, s')" by fastforce
  note q = commit_quiet [OF outside_confirm run]
  have carry: "carries s s'" if "\<not> (\<exists>n. r = Inl (Db_error n) \<or> r = Inl (Evidence_error n))"
    using confirm_action_ends [OF run] that unfolding confirm_ends_def
  proof (elim disjE conjE exE bexE)
    assume "s' = s"
    then show ?thesis using carries_refl [OF inv] by simp
  next
    fix a assume a: "action_get s aid = Some a" "ba_status a = BA_pending_confirmation" and fr: "same_runs s s'"
      and m: "moved aid BA_expired s s'" and same: "same_asks s s'"
    have "actions_kept s s'" by (rule moved_kept [OF inv m a(1)]) (simp_all add: a agreed_status_def)
    then show ?thesis by (rule carries_runs [OF inv same_asks_kept [OF same] _ fr])
  next
    fix a c assume a: "action_get s aid = Some a" "ba_status a = BA_pending_confirmation" and fr: "same_runs s s'"
      and c: "c \<in> set (b_confs s)" "marked (bc_id c) C_confirmed s s'"
    note keep = marked_kept [OF inv c(2,1)]
    { assume "same_acts s s'"
      then show ?thesis by (intro carries_runs [OF inv keep same_acts_kept [OF inv] fr]) simp_all
    next
      assume m: "moved aid BA_rejected s s'" and all: "all_confirmed s' aid"
      have "actions_kept s s'" by (rule moved_kept [OF inv m a(1)]) (simp_all add: a all)
      then show ?thesis by (intro carries_runs [OF inv keep _ fr]) simp_all
    next
      assume m: "moved aid BA_confirmed s s'" and all: "all_confirmed s' aid"
      have "actions_kept s s'" by (rule moved_kept [OF inv m a(1)]) (simp_all add: a all)
      then show ?thesis by (intro carries_runs [OF inv keep _ fr]) simp_all
    }
  qed simp_all
  show ?thesis
    unfolding run q using carry carries_refl [OF inv] by (cases r) auto
qed

lemma cancel_step:
  assumes inv: "butler_inv s"
  shows "carries s (commitB s (cancel_action env aid uid s))"
proof -
  obtain r s' where run: "cancel_action env aid uid s = (r, s')" by fastforce
  note q = commit_quiet [OF outside_withdraw(1) run]
  have carry: "carries s s'" if ok: "\<not> (\<exists>n. r = Inl (Db_error n))"
  proof -
    consider "s' = s" | (go) a where "action_get s aid = Some a" "ba_status a \<in> {BA_pending_confirmation, BA_confirmed}"
        "moved aid BA_cancelled s s'" "same_runs s s'" "b_next_conf s' = b_next_conf s"
        "b_confs s' = update_where (\<lambda>c. bc_action c = aid \<and> bc_status c = C_pending) (\<lambda>c. c\<lparr>bc_status := C_cancelled\<rparr>) (b_confs s)"
      using cancel_action_ends [OF run] ok unfolding cancel_ends_def by blast
    then show ?thesis
    proof cases
      case 1
      then show ?thesis using carries_refl [OF inv] by simp
    next
      case go
      note a = go(1,2) and m = go(3) and fr = go(4-6)
    have "answers_kept s s'" unfolding answers_kept_def fr(2,3) update_where_def
      by (intro conjI exI [of _ "\<lambda>c. if bc_action c = aid \<and> bc_status c = C_pending then c\<lparr>bc_status := C_cancelled\<rparr> else c"])
         (use moved_status [OF m] in auto)
    moreover have "actions_kept s s'" by (rule moved_kept [OF inv m a(1)]) (use a in \<open>auto simp: agreed_status_def\<close>)
    ultimately show ?thesis by (intro carries_runs [OF inv] fr)
    qed
  qed
  show ?thesis
    unfolding run q using carry carries_refl [OF inv] by (cases r) auto
qed

lemma revoke_step:
  assumes inv: "butler_inv s"
  shows "carries s (commitB s (revoke_affected_user_consent env now aid uid s))"
proof -
  obtain r s' where run: "revoke_affected_user_consent env now aid uid s = (r, s')" by fastforce
  note q = commit_quiet [OF outside_withdraw(2) run]
  have carry: "carries s s'" if "\<not> (\<exists>n. r = Inl (Db_error n))"
    using revoke_ends [OF run] that unfolding revoke_ends_def
  proof (elim disjE conjE exE bexE)
    assume "s' = s"
    then show ?thesis using carries_refl [OF inv] by simp
  next
    fix a c assume a: "action_get s aid = Some a" and c: "c \<in> set (b_confs s)" "bc_action c = aid" "bc_status c = C_pending"
        "marked (bc_id c) C_revoked s s'"
      and m: "moved aid BA_cancelled s s'" and fr: "same_runs s s'"
    have "sound_action s a" using inv_sound [OF inv] action_get_id [OF a] by simp
    moreover have "\<not> all_confirmed s (ba_id a)" using c action_get_id [OF a] by (auto simp: all_confirmed_iff)
    ultimately have "ba_status a \<in> {BA_pending_confirmation, BA_expired, BA_cancelled}"
      by (auto simp: sound_action_def live_status_def agreed_status_def)
    then have "actions_kept s s'" by (intro moved_kept [OF inv m a]) (auto simp: agreed_status_def)
    moreover have "answers_kept s s'" by (rule marked_kept [OF inv c(4,1)]) (use c moved_status [OF m] in auto)
    ultimately show ?thesis by (intro carries_runs [OF inv] fr)
  qed simp_all
  show ?thesis
    unfolding run q using carry carries_refl [OF inv] by (cases r) auto
qed

subsubsection \<open>Executing\<close>

lemma calls_along_call_of:
  assumes "calls_along aid seq sts cs" "c \<in> set cs"
  shows "\<exists>q \<in> set (enumerate seq sts). call_of aid c q"
proof -
  from assms(1) obtain qs where qs: "subseq qs (enumerate seq sts)" "list_all2 (call_of aid) cs qs"
    by (auto simp: calls_along_def)
  from qs(2) assms(2) obtain q where "q \<in> set qs" "call_of aid c q"
    by (metis in_set_conv_nth list_all2_conv_all_nth)
  then show ?thesis by (elim list_emb_set [OF qs(1)]) auto
qed

lemma inv_consented:
  assumes inv: "butler_inv s" and a: "action_get s aid = Some a" and st: "ba_status a = BA_confirmed"
  shows "\<exists>p. ba_plan a = Some p \<and> consented s a p" "all_confirmed s aid"
proof -
  have id: "ba_id a = aid" and "sound_action s a" using action_get_id [OF a] inv_sound [OF inv] by auto
  then have all: "all_confirmed s aid" and "asked s a" using st by (auto simp: sound_action_def agreed_status_def)
  then show "\<exists>p. ba_plan a = Some p \<and> consented s a p"
    unfolding asked_def consented_def all_confirmed_iff using id by metis
  show "all_confirmed s aid" by (rule all)
qed

text \<open>Calls of a consented plan are sound in every state that keeps the row and the answers.\<close>

lemma calls_sound_along:
  assumes a: "action_get s aid = Some a" "ba_plan a = Some p" "consented s a p"
    and cs: "calls_along aid 1 (bp_actions p) cs"
    and kept: "answers_kept s s'" "action_get s' aid = Some b" "same_row a b" and t: "tool_calls s' = tool_calls s @ cs"
  shows "calls_sound s s'"
proof -
  have "call_sound s' c" if "c \<in> set cs" for c
  proof -
    from calls_along_call_of [OF cs that] obtain q where q: "q \<in> set (enumerate 1 (bp_actions p))" "call_of aid c q" by blast
    moreover have "b \<in> set (b_actions s')" "ba_id b = aid" using action_get_id [OF kept(2)] by auto
    moreover have "consented s' b p" by (rule answers_kept_consented [OF kept(1) a(3) kept(3)])
    ultimately show ?thesis
      unfolding call_sound_def using a(2) kept(3)
      by (intro bexI [of _ b] exI [of _ p] conjI bexI [of _ q]) (simp_all add: call_of_def same_row_def)
  qed
  with t show ?thesis by (auto simp: calls_sound_def)
qed

lemma execute_step:
  assumes inv: "butler_inv s"
  shows "carries s (commitB s (execute_action env cfg now aid s))"
proof -
  obtain r s' where run: "execute_action env cfg now aid s = (r, s')" by fastforce
  let ?calls = "s\<lparr>tool_calls := tool_calls s', undo_calls := undo_calls s'\<rparr>"
  have commit: "commitB s (r, s') = (if is_ok r \<or> (\<exists>k. r = Inl (Butler_error k)) then s' else ?calls)"
    by (auto simp: commitB_def is_ok_iff split: sum.split butler_error.split)
  have rej: "carries s s'" if a: "action_get s aid = Some a" "ba_status a = BA_confirmed"
    and m: "moved aid BA_rejected s s'" and same: "same_asks s s'" "same_runs s s'" for a
  proof -
    have "all_confirmed s' aid" using inv_consented(2) [OF inv a] same(1) by (simp add: all_confirmed_iff same_asks_def)
    then have "actions_kept s s'" by (intro moved_kept [OF inv m a(1)]) (simp_all add: a)
    then show ?thesis by (intro carries_runs [OF inv] same_asks_kept same)
  qed
  have calls: "carries s ?calls"
    if a: "action_get s aid = Some a" "ba_status a = BA_confirmed" "ba_plan a = Some p"
      and cs: "tool_calls s' = tool_calls s @ cs" "calls_along aid 1 (bp_actions p) cs" for a p cs
  proof -
    from inv_consented(1) [OF inv a(1,2)] a(3) have c: "consented s a p" by simp
    have "calls_sound s ?calls"
    proof (rule calls_sound_along [OF a(1,3) c cs(2)])
      show "answers_kept s ?calls" by (rule same_asks_kept) (simp add: same_asks_def)
      show "action_get ?calls aid = Some a" using a(1) by (simp add: action_get_def)
    qed (use cs in simp_all)
    then show ?thesis by (rule db_error_inv [OF inv])
  qed
  from execute_action_ends [OF run inv_ids(3) [OF inv]] have "carries s (commitB s (r, s'))"
    unfolding execute_ends_def
  proof (elim disjE conjE exE)
    fix k assume "s' = s" "r = Inl (Butler_error k)"
    then show ?thesis using carries_refl [OF inv] commit by simp
  next
    fix n assume "tool_calls s' = tool_calls s" "undo_calls s' = undo_calls s" "r = Inl (Db_error n)"
    then show ?thesis using carries_refl [OF inv] commit by simp
  next
    fix a assume "action_get s aid = Some a" "ba_status a = BA_confirmed" "r = Inl (Butler_error ''affected_user_consent_revoked'')"
      "moved aid BA_rejected s s'" "same_asks s s'" "same_runs s s'"
    then show ?thesis using rej commit by simp
  next
    fix a assume "action_get s aid = Some a" "ba_status a = BA_confirmed" "r = Inl (Butler_error ''rate_limit_exceeded'')"
      "moved aid BA_rejected s s'" "same_asks s s'" "same_runs s s'"
    then show ?thesis using rej commit by simp
  next
    fix a assume "action_get s aid = Some a" "ba_status a = BA_confirmed" "ba_plan a = None"
    with inv_consented(1) [OF inv] show ?thesis by fastforce
  next
    fix a p cs n assume a: "action_get s aid = Some a" "ba_status a = BA_confirmed" "ba_plan a = Some p"
      and cs: "tool_calls s' = tool_calls s @ cs" "calls_along aid 1 (bp_actions p) cs"
    { assume "r = Inl (Db_error n)"
      with calls [OF a cs] show ?thesis unfolding commit by simp
    next
      assume "r = Inl (Evidence_error n)"
      with calls [OF a cs] show ?thesis unfolding commit by simp
    next
      assume "r = Inl (Plan_error n)"
      with calls [OF a cs] show ?thesis unfolding commit by simp
    }
  next
    fix a p cs assume a: "action_get s aid = Some a" "ba_status a = BA_confirmed" "ba_plan a = Some p"
      and cs: "tool_calls s' = tool_calls s @ cs" "calls_along aid 1 (bp_actions p) cs"
      and ok: "is_ok r" and ran: "ran aid p s s'"
    from inv_consented(1) [OF inv a(1,2)] a(3) have c: "consented s a p" by simp
    have same: "same_asks s s'" "b_undos s' = b_undos s" "b_next_undo s' = b_next_undo s" "ids_below bi_id (b_next_inv s') (b_invs s')"
      using ran by (simp_all add: ran_def)
    obtain st where m: "moved aid st s s'" "st \<in> {BA_succeeded, BA_execution_failed}" using ran by (auto simp: ran_def)
    have "all_confirmed s' aid" using inv_consented(2) [OF inv a(1,2)] same(1) by (simp add: all_confirmed_iff same_asks_def)
    then have acts: "actions_kept s s'" using m(2) by (intro moved_kept [OF inv m(1) a(1)]) (auto simp: a)
    from moved_get [OF m(1) a(1)] obtain b where b: "action_get s' aid = Some b" "same_row a b" by blast
    have "calls_sound s s'"
      by (rule calls_sound_along [OF a(1,3) c cs(2) same_asks_kept [OF same(1)] b cs(1)])
    then have "carries s s'"
      unfolding carries_def using acts same same_asks_kept [OF same(1)] inv_ids(4) [OF inv] by simp
    with ok show ?thesis unfolding commit by simp
  qed
  with run show ?thesis by simp
qed

subsubsection \<open>Undoing, expiring, forgetting\<close>

lemma undo_step_carries:
  assumes inv: "butler_inv s"
  shows "carries s (commitB s (execute_undo env cfg now aid uid s))"
proof -
  obtain r s' where run: "execute_undo env cfg now aid uid s = (r, s')" by fastforce
  let ?calls = "s\<lparr>tool_calls := tool_calls s', undo_calls := undo_calls s'\<rparr>"
  have commit: "commitB s (r, s') = (if is_ok r \<or> (\<exists>k. r = Inl (Butler_error k)) then s' else ?calls)"
    by (auto simp: commitB_def is_ok_iff split: sum.split butler_error.split)
  from execute_undo_ends [OF run inv_ids(4,3) [OF inv]]
  consider (quiet) "s' = s" "is_ok r \<or> (\<exists>k. r = Inl (Butler_error k))"
    | (err) n where "tool_calls s' = tool_calls s" "r = Inl (Db_error n)"
    | (fin) a where "action_get s aid = Some a" "ba_status a \<in> {BA_succeeded, BA_undone}" "tool_calls s' = tool_calls s" "r = Inr ()"
        "moved aid BA_undone s s'" "same_asks s s'" "b_invs s' = b_invs s" "b_next_inv s' = b_next_inv s"
        "ids_below bu_id (b_next_undo s') (b_undos s')"
    unfolding undo_ends_def is_ok_iff by blast
  then have "carries s (commitB s (r, s'))"
  proof cases
    case quiet
    then show ?thesis using carries_refl [OF inv] commit by simp
  next
    case err
    then have "carries s ?calls" by (intro db_error_inv [OF inv] same_calls_sound) simp
    with err show ?thesis unfolding commit by simp
  next
    case fin
    have "sound_action s a" using inv_sound [OF inv] action_get_id [OF fin(1)] by simp
    then have "all_confirmed s' aid" using fin(1,2,6) action_get_id [OF fin(1)]
      by (auto simp: sound_action_def agreed_status_def all_confirmed_iff same_asks_def)
    then have "actions_kept s s'" using fin(2) by (intro moved_kept [OF inv fin(5,1)]) auto
    then have "carries s s'"
      using fin inv_ids [OF inv] by (intro carriesI [OF inv] same_asks_kept) simp_all
    with fin show ?thesis unfolding commit by simp
  qed
  with run show ?thesis by simp
qed

lemma expired_rows_kept:
  assumes inv: "butler_inv s" and p: "\<And>a. a \<in> set (b_actions s) \<Longrightarrow> P a \<Longrightarrow> ba_status a = BA_pending_confirmation"
  shows "carries s (s\<lparr>b_actions := update_where P expire_row (b_actions s)\<rparr>)"
proof -
  let ?s' = "s\<lparr>b_actions := update_where P expire_row (b_actions s)\<rparr>"
  have "lives_on ?s' a (if P a then expire_row a else a)" if a: "a \<in> set (b_actions s)" for a
    using inv_sound [OF inv a] p [OF a] ck_expire_row [of a]
    by (auto simp: lives_on_def sound_action_def agreed_status_def same_row_def)
  then have "actions_kept s ?s'"
    unfolding actions_kept_def update_where_def by (intro conjI exI [of _ "\<lambda>a. if P a then expire_row a else a"]) simp_all
  then show ?thesis by (intro carries_runs [OF inv]) (simp_all add: same_asks_kept same_defs)
qed

lemma expire_step:
  assumes inv: "butler_inv s"
  shows "carries s (commitB s (expire_action env now aid s))"
proof (cases "env_locked env aid \<or> (\<forall>a. action_get s aid = Some a \<longrightarrow> \<not> overdue now a)")
  case True
  obtain r s' where run: "expire_action env now aid s = (r, s')" by fastforce
  with expire_inline_quiet [OF True] have "s' = s" by (simp add: expire_action_eq_inline)
  then show ?thesis using run carries_refl [OF inv] commit_quiet [OF outside_withdraw(3) run] by simp
next
  case False
  then obtain a where a: "\<not> env_locked env aid" "action_get s aid = Some a" "overdue now a" by auto
  have ck: "ck_butler_action a" using inv_sound [OF inv] action_get_id [OF a(2)] by (simp add: sound_action_def)
  have "carries s (s\<lparr>b_actions := update_where (\<lambda>a. ba_id a = aid) expire_row (b_actions s)\<rparr>)"
    using inv_unique [OF inv a(2)] a(3) by (intro expired_rows_kept [OF inv]) (auto simp: overdue_def)
  then show ?thesis
    by (simp add: expire_action_eq_inline expire_inline_hit [OF a ck] commitB_def)
qed

lemma batch_pending: "a \<in> set (get_pending_past_ttl s now n) \<Longrightarrow> a \<in> set (b_actions s) \<and> overdue now a"
  unfolding get_pending_past_ttl_def by (drule in_set_takeD) (auto simp: overdue_def split: option.splits)

lemma tick_step:
  assumes inv: "butler_inv s"
  shows "carries s (snd (butler_expire_tick env now s))"
proof -
  let ?batch = "get_pending_past_ttl s now butler_expire_batch_size"
  have pend: "ba_status a = BA_pending_confirmation" if "a \<in> set (b_actions s)" "ba_id a \<in> ba_id ` set ?batch" for a
  proof -
    from that(2) obtain b where b: "b \<in> set ?batch" "ba_id b = ba_id a" by auto
    with batch_pending have b': "b \<in> set (b_actions s)" "overdue now b" by blast+
    then have "a = b" using inv that(1) b(2) by (auto simp: butler_inv_def ids_below_def distinct_map inj_on_def)
    with b'(2) show ?thesis by (simp add: overdue_def)
  qed
  have "butler_expire_tick env now s = (length (filter (\<lambda>a. \<not> env_locked env (ba_id a)) ?batch),
      s\<lparr>b_actions := update_where (\<lambda>a. ba_id a \<in> ba_id ` set ?batch \<and> \<not> env_locked env (ba_id a)) expire_row (b_actions s)\<rparr>)"
    using expire_tick_result [of s env now] inv by (simp add: butler_inv_def ids_below_def sound_action_def Let_def)
  moreover have "carries s (s\<lparr>b_actions := update_where (\<lambda>a. ba_id a \<in> ba_id ` set ?batch \<and> \<not> env_locked env (ba_id a)) expire_row (b_actions s)\<rparr>)"
    by (rule expired_rows_kept [OF inv]) (use pend in blast)
  ultimately show ?thesis by simp
qed

lemma forget_step:
  assumes inv: "butler_inv s"
  shows "carries s (cascade_butler_actions hit s)"
proof -
  let ?g = "\<lambda>a. if hit a then if forget_expires (ba_status a)
        then a\<lparr>ba_status := BA_expired, ba_rejection := Some ''source_forgotten'', ba_evidence_ids := []\<rparr>
        else a\<lparr>ba_evidence_ids := []\<rparr> else a"
  have "lives_on (cascade_butler_actions hit s) a (?g a)" if a: "a \<in> set (b_actions s)" for a
  proof -
    have "live_status (ba_status a)" "ck_butler_action a" using inv_sound [OF inv a] by (simp_all add: sound_action_def)
    then show ?thesis
      by (auto simp: lives_on_def forget_expires_def live_status_def agreed_status_def same_row_def ck_butler_action_def)
  qed
  then have "actions_kept s (cascade_butler_actions hit s)"
    unfolding actions_kept_def by (intro conjI exI [of _ ?g]) (simp_all add: cascade_butler_actions_def)
  then show ?thesis
    by (intro carries_runs [OF inv]) (simp_all add: same_asks_kept same_defs cascade_butler_actions_def)
qed

subsection \<open>Every step, every reachable state\<close>

lemma bstep_carries:
  assumes "butler_inv s" "bstep cfg s s'"
  shows "carries s s' \<or> (\<exists>env now uid chat query scope. s' = commit_plan s (plan_action env cfg now uid chat query scope s))"
  using assms(2)
proof cases
  case plan
  then show ?thesis by blast
next
  case confirm
  then show ?thesis by (simp only: confirm_step [OF assms(1)] simp_thms)
next
  case execute
  then show ?thesis by (simp only: execute_step [OF assms(1)] simp_thms)
next
  case cancel
  then show ?thesis by (simp only: cancel_step [OF assms(1)] simp_thms)
next
  case revoke
  then show ?thesis by (simp only: revoke_step [OF assms(1)] simp_thms)
next
  case undo
  then show ?thesis by (simp only: undo_step_carries [OF assms(1)] simp_thms)
next
  case expire
  then show ?thesis by (simp only: expire_step [OF assms(1)] simp_thms)
next
  case tick
  then show ?thesis by (simp only: tick_step [OF assms(1)] simp_thms)
next
  case forget
  then show ?thesis by (simp only: forget_step [OF assms(1)] simp_thms)
qed

lemma bstep_inv: "butler_inv s \<Longrightarrow> bstep cfg s s' \<Longrightarrow> butler_inv s'"
  using bstep_carries [of s cfg s'] carries_inv plan_step by blast

lemma breach_inv: "breach cfg s \<Longrightarrow> butler_inv s"
  by (induction rule: breach.induct) (auto intro: butler_inv_empty bstep_inv)

end
