(* ===== verification/ButlerRates.thy ===== *)
theory ButlerRates
  imports ButlerSystem
begin

section \<open>Rate limits\<close>

text \<open>
  The buckets count the plans of a requester and of a chat on a Moscow day and of a requester and a tool
  in a Moscow hour.  Every stored plan is counted in its three buckets and no bucket exceeds its
  ceiling, so the number of stored plans does not either.
\<close>

subsection \<open>Buckets and their counts\<close>

type_synonym rate_key = "string \<times> int \<times> bucket_key"

definition key_of :: "bucket \<Rightarrow> rate_key" where
  "key_of b = (rb_kind b, rb_scope b, rb_key b)"

definition bucket_count :: "bdb \<Rightarrow> rate_key \<Rightarrow> int" where
  "bucket_count s k = (case List.find (\<lambda>b. key_of b = k) (b_buckets s) of None \<Rightarrow> 0 | Some b \<Rightarrow> rb_count b)"

definition ceiling_of :: "butler_settings \<Rightarrow> string \<Rightarrow> int" where
  "ceiling_of cfg kind =
     (if kind = ''user_plans_day'' then set_user_plans cfg
      else if kind = ''user_execs_day'' then set_user_execs cfg
      else if kind = ''chat_actions_day'' then set_chat_actions cfg
      else set_tool_hour cfg)"

definition rates_wf :: "butler_settings \<Rightarrow> bdb \<Rightarrow> bool" where
  "rates_wf cfg s \<longleftrightarrow> distinct (map key_of (b_buckets s)) \<and>
     (\<forall>b \<in> set (b_buckets s). ck_bucket b \<and> rb_ceiling b = ceiling_of cfg (rb_kind b))"

lemma bucket_at_key: "bucket_at kind scope key = (\<lambda>b. key_of b = (kind, scope, key))"
  by (simp add: bucket_at_def key_of_def fun_eq_iff)

lemma count_bounds: "rates_wf cfg s \<Longrightarrow> 0 \<le> bucket_count s k \<and> bucket_count s k \<le> max 0 (ceiling_of cfg (fst k))"
  by (fastforce simp: bucket_count_def rates_wf_def ck_bucket_def key_of_def find_Some_iff split: option.split dest: nth_mem)

lemma bucket_count_cong: "b_buckets s' = b_buckets s \<Longrightarrow> bucket_count s' = bucket_count s"
  by (simp add: bucket_count_def fun_eq_iff)

lemma rates_wf_cong: "b_buckets s' = b_buckets s \<Longrightarrow> rates_wf cfg s' = rates_wf cfg s"
  by (simp add: rates_wf_def)

text \<open>Writing one bucket.\<close>

lemma bucket_put:
  assumes wf: "rates_wf cfg s"
    and f: "\<And>b. key_of (f b) = key_of b" "\<And>b. rb_ceiling (f b) = rb_ceiling b" "\<And>b. rb_count (f b) = g (rb_count b)"
    and ck: "\<And>b. b \<in> set (b_buckets s) \<Longrightarrow> key_of b = k \<Longrightarrow> ck_bucket (f b)"
    and found: "\<exists>b \<in> set (b_buckets s). key_of b = k"
    and s': "s' = s\<lparr>b_buckets := update_where (\<lambda>b. key_of b = k) f (b_buckets s)\<rparr>"
  shows "rates_wf cfg s' \<and> bucket_count s' = (bucket_count s)(k := g (bucket_count s k))"
proof
  have kind: "rb_kind (f b) = rb_kind b" for b using f(1) [of b] by (simp add: key_of_def)
  show "rates_wf cfg s'"
    using wf ck f(2) unfolding s' rates_wf_def by (auto simp: set_update_where map_update_where [where g = key_of] f(1) kind)
  show "bucket_count s' = (bucket_count s)(k := g (bucket_count s k))"
  proof
    fix j
    have "List.find (\<lambda>b. key_of b = j) (b_buckets s') =
        map_option (\<lambda>b. if key_of b = k then f b else b) (List.find (\<lambda>b. key_of b = j) (b_buckets s))"
      unfolding s' by (simp add: find_update_where f(1))
    moreover have "List.find (\<lambda>b. key_of b = k) (b_buckets s) \<noteq> None" using found by (auto simp: find_None_iff)
    moreover have "key_of b = j" if "List.find (\<lambda>b. key_of b = j) (b_buckets s) = Some b" for b
      using that by (auto simp: find_Some_iff)
    ultimately show "bucket_count s' j = ((bucket_count s)(k := g (bucket_count s k))) j"
      by (cases "j = k"; cases "List.find (\<lambda>b. key_of b = j) (b_buckets s)") (auto simp: bucket_count_def f(3))
  qed
qed

lemma try_increment_count:
  assumes wf: "rates_wf cfg s" and run: "try_increment kind scope key win (ceiling_of cfg kind) s = (r, s')"
  shows "rates_wf cfg s' \<and>
    (r = Inr True \<longrightarrow> bucket_count s' = (bucket_count s)((kind, scope, key) := bucket_count s (kind, scope, key) + 1)) \<and>
    (r \<noteq> Inr True \<longrightarrow> s' = s)"
proof -
  let ?b = "\<lparr>rb_kind = kind, rb_scope = scope, rb_key = key, rb_start = fst win, rb_end = snd win,
                   rb_count = 1, rb_ceiling = ceiling_of cfg kind\<rparr>"
  consider (refused) "\<not> ck_bucket ?b"
    | (new) "ck_bucket ?b" "List.find (\<lambda>b. key_of b = (kind, scope, key)) (b_buckets s) = None"
    | (old) b where "ck_bucket ?b" "List.find (\<lambda>b. key_of b = (kind, scope, key)) (b_buckets s) = Some b"
    by (cases "List.find (\<lambda>b. key_of b = (kind, scope, key)) (b_buckets s)") blast+
  then show ?thesis
  proof cases
    case refused
    with run have "s' = s" "r \<noteq> Inr True" by (auto simp: try_increment_def Let_def)
    with wf show ?thesis by blast
  next
    case new
    note None = new(2) and True = new(1)
    have fresh: "(kind, scope, key) \<notin> key_of ` set (b_buckets s)" using None by (auto simp: find_None_iff)
    have s': "r = Inr True" "s' = s\<lparr>b_buckets := b_buckets s @ [?b]\<rparr>"
      using run None True by (auto simp: try_increment_def bucket_at_key Let_def)
    have wf': "rates_wf cfg s'" using wf fresh True by (auto simp: s' rates_wf_def key_of_def)
    have "bucket_count s' = (bucket_count s)((kind, scope, key) := bucket_count s (kind, scope, key) + 1)"
      using None by (auto simp: s' bucket_count_def fun_eq_iff find_append_None key_of_def split: option.split)
    with wf' s' show ?thesis by blast
  next
    case (old b)
    note Some = old(2)
    from Some have b: "b \<in> set (b_buckets s)" "key_of b = (kind, scope, key)" by (auto simp: find_Some_iff)
    show ?thesis
    proof (cases "rb_count b < rb_ceiling b")
      case True
      have s': "r = Inr True"
        "s' = s\<lparr>b_buckets := update_where (\<lambda>b. key_of b = (kind, scope, key)) (\<lambda>b. b\<lparr>rb_count := rb_count b + 1\<rparr>) (b_buckets s)\<rparr>"
        using run Some True old(1) by (simp_all add: try_increment_def bucket_at_key old(1) Let_def)
      have "ck_bucket (c\<lparr>rb_count := rb_count c + 1\<rparr>)" if "c \<in> set (b_buckets s)" "key_of c = (kind, scope, key)" for c
      proof -
        have "c = b" using wf b that by (auto simp: rates_wf_def distinct_map inj_on_def)
        with wf b(1) True show ?thesis by (auto simp: rates_wf_def ck_bucket_def)
      qed
      from bucket_put [OF wf _ _ _ this _ s'(2), where g = "\<lambda>n. n + 1"] b s'(1)
      show ?thesis by (auto simp: key_of_def)
    next
      case False
      with run Some have "s' = s" "r = Inr False" by (simp_all add: try_increment_def bucket_at_key old(1) Let_def)
      with wf show ?thesis by simp
    qed
  qed
qed

lemma decrement_count:
  assumes wf: "rates_wf cfg s"
  shows "rates_wf cfg (decrement kind scope key s) \<and>
    bucket_count (decrement kind scope key s) = (bucket_count s)((kind, scope, key) := max 0 (bucket_count s (kind, scope, key) - 1))"
proof (cases "\<exists>b \<in> set (b_buckets s). key_of b = (kind, scope, key)")
  case True
  have "ck_bucket (c\<lparr>rb_count := max 0 (rb_count c - 1)\<rparr>)" if "c \<in> set (b_buckets s)" "key_of c = (kind, scope, key)" for c
    using wf that by (auto simp: rates_wf_def ck_bucket_def)
  from bucket_put [OF wf _ _ _ this True, where g = "\<lambda>n. max 0 (n - 1)"]
  show ?thesis by (simp add: decrement_def bucket_at_key key_of_def)
next
  case False
  have "update_where (\<lambda>b. key_of b = (kind, scope, key)) f (b_buckets s) = b_buckets s" for f
    unfolding update_where_def by (rule map_idI) (use False in auto)
  moreover have "List.find (\<lambda>b. key_of b = (kind, scope, key)) (b_buckets s) = None" using False by (auto simp: find_None_iff)
  then have "bucket_count s (kind, scope, key) = 0" by (simp add: bucket_count_def)
  ultimately show ?thesis using wf by (simp add: decrement_def bucket_at_key fun_eq_iff)
qed

subsection \<open>Operations that leave the buckets alone\<close>

lemma buckets_rows [leaves]:
  "leaves b_buckets (action_create r)" "leaves b_buckets (action_update_status i st f)" "leaves b_buckets (conf_create i u ro pv e t)"
  "leaves b_buckets (conf_resolve c cs n)" "leaves b_buckets (conf_for_user i u)" "leaves b_buckets (confs_mark_all i cs)"
  "leaves b_buckets (lock_action env i)" "leaves b_buckets (lock_existing env i)"
  "leaves b_buckets (inv_create i tn q ky j h)" "leaves b_buckets (inv_update i gi)" "leaves b_buckets (call_tool i q tn)"
  "leaves b_buckets (modifyB (\<lambda>s. s\<lparr>b_ledger := b_ledger s @ l\<rparr>))"
  by (auto simp: leaves_def action_create_def action_update_status_def conf_create_def conf_resolve_def
      conf_for_user_def confs_mark_all_def lock_action_def lock_existing_def inv_create_def inv_update_def call_tool_def
      Let_def modifyB_def split: option.split list.split)

lemma buckets_undo_steps [leaves]: "leaves b_buckets (undo_steps env aid uid is)"
  unfolding leaves_def by (metis but_undos_eqs(6) leaves_run undo_steps_leave prod.collapse)

lemma buckets_ask [leaves]: "leaves b_buckets (ask_affected env i pv e us)"
  by (induction us) (auto intro!: leaves simp del: bindB_get)

lemma buckets_reject [leaves]: "leaves b_buckets (reject_with row k)"
  unfolding reject_with_def by (auto intro!: leaves)

lemma buckets_store [leaves]: "leaves b_buckets (store_plan env cfg now uid row p)"
  unfolding store_plan_def Let_def by (auto intro!: leaves)

lemma buckets_confirm [leaves]: "leaves b_buckets (confirm_action env now aid uid token)"
  unfolding confirm_action_def confirm_evidence_def Let_def by (auto intro!: leaves split: option.split)

lemma buckets_withdraw [leaves]:
  "leaves b_buckets (cancel_action env aid uid)" "leaves b_buckets (revoke_affected_user_consent env now aid uid)"
  "leaves b_buckets (expire_action env now aid)" "leaves b_buckets (execute_undo env cfg now aid uid)"
  unfolding cancel_action_def revoke_affected_user_consent_def expire_action_def execute_undo_def
  by (auto intro!: leaves split: option.split)

lemma buckets_steps [leaves]:
  "leaves b_buckets (fail_step now iid a e resp)" "leaves b_buckets (succeed_step env now iid a name payload)"
  unfolding fail_step_def succeed_step_def by (auto intro!: leaves split: option.split)

lemma buckets_run [leaves]: "leaves b_buckets (run_steps env now a seq sts)"
  by (induction sts arbitrary: seq) (auto simp: Let_def intro!: leaves split: option.split tool_outcome.split)

subsection \<open>What planning does to the counts\<close>

text \<open>The buckets a stored plan was counted in: the time of planning is its deadline less the time to live.\<close>

definition uses :: "butler_settings \<Rightarrow> butler_action \<Rightarrow> rate_key list" where
  "uses cfg a = (case ba_expires a of None \<Rightarrow> []
     | Some e \<Rightarrow>
         [(''user_plans_day'', ba_requester a, Day_key (msk_day (e - set_plan_ttl cfg))),
          (''chat_actions_day'', ba_chat a, Day_key (msk_day (e - set_plan_ttl cfg))),
          (''tool_hour:'' @ ba_tool a, ba_requester a, Hour_key (msk_hour (e - set_plan_ttl cfg)))])"

definition taken_by :: "butler_settings \<Rightarrow> butler_error + butler_action \<Rightarrow> rate_key \<Rightarrow> int" where
  "taken_by cfg r k = (case r of Inl _ \<Rightarrow> 0 | Inr a \<Rightarrow> if k \<in> set (uses cfg a) then 1 else 0)"

definition plan_counts :: "butler_settings \<Rightarrow> bdb \<Rightarrow> butler_error + butler_action \<Rightarrow> bdb \<Rightarrow> bool" where
  "plan_counts cfg s r s' \<longleftrightarrow> (\<exists>n. r = Inl (Db_error n)) \<or>
     (rates_wf cfg s' \<and> (\<forall>k. bucket_count s k + taken_by cfg r k \<le> bucket_count s' k))"

lemma store_plan_row:
  assumes "store_plan env cfg now uid row p s = (Inr a, s')"
  shows "ba_requester a = ba_requester row \<and> ba_chat a = ba_chat row \<and> ba_tool a = ba_tool row \<and>
    ba_expires a = Some (now + set_plan_ttl cfg)"
  using assms
  by (auto simp: store_plan_def Let_def bindB_result action_create_def returnB_def split: if_splits)

lemma plan_counts_reject:
  assumes "rates_wf cfg s2" "\<forall>k. bucket_count s k \<le> bucket_count s2 k" "reject_with row kind s2 = (r, s')"
  shows "plan_counts cfg s r s'"
proof -
  have b: "b_buckets s' = b_buckets s2" by (rule leaves_run [OF buckets_reject assms(3)])
  have "\<exists>e. r = Inl e" using assms(3) by (auto simp: reject_with_def bindB_result)
  then show ?thesis
    using assms(1,2) by (auto simp: plan_counts_def taken_by_def rates_wf_cong [OF b] bucket_count_cong [OF b])
qed

text \<open>Taking two buckets and giving them back leaves every count as it was.\<close>

lemma roll_back_two:
  assumes wf: "rates_wf cfg s2" and c: "bucket_count s2 = (f(k1 := f k1 + 1))(k2 := f k2 + 1)"
    and ne: "k1 \<noteq> k2" and pos: "0 \<le> f k1" "0 \<le> f k2" and s3: "s3 = foldl (\<lambda>s (kind, scope, key). decrement kind scope key s) s2 [k1, k2]"
  shows "rates_wf cfg s3 \<and> bucket_count s3 = f"
proof -
  obtain a1 b1 c1 where k1: "k1 = (a1, b1, c1)" by (cases k1)
  obtain a2 b2 c2 where k2: "k2 = (a2, b2, c2)" by (cases k2)
  let ?t = "decrement a1 b1 c1 s2"
  have t: "rates_wf cfg ?t" "bucket_count ?t = (bucket_count s2)(k1 := max 0 (bucket_count s2 k1 - 1))"
    using decrement_count [OF wf] k1 by auto
  have s3': "s3 = decrement a2 b2 c2 ?t" by (simp add: s3 k1 k2)
  have u: "rates_wf cfg s3" "bucket_count s3 = (bucket_count ?t)(k2 := max 0 (bucket_count ?t k2 - 1))"
    using decrement_count [OF t(1)] k2 by (auto simp: s3')
  then show ?thesis using t(2) c ne pos by (auto simp: fun_eq_iff)
qed

lemma plan_from_evidence_counts:
  assumes wf: "rates_wf cfg s2" and wf0: "rates_wf cfg s"
    and k1: "k1 = (''user_plans_day'', uid, Day_key (msk_day now))" and k2: "k2 = (''chat_actions_day'', chat_or_zero chat, Day_key (msk_day now))"
    and c: "bucket_count s2 = ((bucket_count s)(k1 := bucket_count s k1 + 1))(k2 := bucket_count s k2 + 1)"
    and run: "plan_from_evidence env cfg now uid chat query scope [k1, k2] ctx s2 = (r, s')"
  shows "plan_counts cfg s r s'"
proof -
  let ?g = "env_gateway env uid chat query scope ctx"
  let ?s3 = "s2\<lparr>b_ledger := b_ledger s2 @ gw_ledger ?g\<rparr>"
  have wf3: "rates_wf cfg ?s3" and c3: "bucket_count ?s3 = bucket_count s2"
    using wf by (simp_all add: rates_wf_def bucket_count_def fun_eq_iff)
  have ne: "k1 \<noteq> k2" by (simp add: k1 k2)
  have le: "\<forall>k. bucket_count s k \<le> bucket_count s2 k" unfolding c by simp
  show ?thesis
  proof (cases "gw_plan ?g")
    case (Inl kl)
    then show ?thesis using run le c3
      by (cases kl) (auto simp: plan_from_evidence_def Let_def intro!: plan_counts_reject [OF wf3])
  next
    case (Inr pl)
    obtain p ledger where pl: "pl = (p, ledger)" by fastforce
    let ?row = "planned_action env uid chat query scope ctx p ledger"
    let ?kind = "''tool_hour:'' @ ba_tool ?row"
    let ?k3 = "(?kind, uid, Hour_key (msk_hour now))"
    have ceil: "ceiling_of cfg ?kind = set_tool_hour cfg" by (simp add: ceiling_of_def)
    obtain r4 s4 where t: "try_increment ?kind uid (Hour_key (msk_hour now)) (msk_hour_window now) (set_tool_hour cfg) ?s3 = (r4, s4)"
      by fastforce
    note tc = try_increment_count [OF wf3 t [folded ceil]]
    have res: "(r, s') = (case r4 of Inl e \<Rightarrow> (Inl e, s4) | Inr ok \<Rightarrow>
        if \<not> ok then reject_with (?row\<lparr>ba_rejection := Some ''rate_limit_exceeded''\<rparr>) ''rate_limit_exceeded''
          (foldl (\<lambda>s (kind, scope, key). decrement kind scope key s) s4 [k1, k2])
        else store_plan env cfg now uid ?row p s4)"
      using run Inr pl t by (auto simp: plan_from_evidence_def Let_def bindB_def roll_back_def split: sum.split)
    show ?thesis
    proof (cases r4)
      case (Inl e)
      with res try_increment_frame [OF t] show ?thesis by (auto simp: plan_counts_def)
    next
      case ok: (Inr ok)
      show ?thesis
      proof (cases ok)
        case False
        let ?s5 = "foldl (\<lambda>s (kind, scope, key). decrement kind scope key s) s4 [k1, k2]"
        have s4: "s4 = ?s3" using tc ok False by auto
        have pos: "0 \<le> bucket_count s k1" "0 \<le> bucket_count s k2" using count_bounds [OF wf0] by blast+
        have "rates_wf cfg ?s5 \<and> bucket_count ?s5 = bucket_count s"
          by (rule roll_back_two [OF _ _ ne pos refl]) (use wf3 c3 c s4 in simp_all)
        then show ?thesis using res ok False by (intro plan_counts_reject [of cfg ?s5 s]) auto
      next
        case True
        with res ok have st: "store_plan env cfg now uid ?row p s4 = (r, s')" by simp
        have b: "b_buckets s' = b_buckets s4" by (rule leaves_run [OF buckets_store st])
        have wf4: "rates_wf cfg s4" and c4: "bucket_count s4 = (bucket_count s2)(?k3 := bucket_count s2 ?k3 + 1)"
          using tc ok True c3 by auto
        have all: "bucket_count s k + (if k \<in> {k1, k2, ?k3} then 1 else 0) \<le> bucket_count s4 k" for k
          unfolding c4 c using ne by (auto simp: k1 k2)
        show ?thesis
        proof (cases r)
          case (Inl e)
          have "bucket_count s k \<le> bucket_count s4 k" for k using all [of k] by (simp split: if_splits)
          then show ?thesis using Inl wf4
            by (simp add: plan_counts_def taken_by_def rates_wf_cong [OF b] bucket_count_cong [OF b])
        next
          case (Inr a)
          have chat: "ba_chat ?row = chat_or_zero chat" by (simp add: planned_action_def Let_def rejected_action_def)
          have "set (uses cfg a) = {k1, k2, ?k3}"
            using store_plan_row [OF st [unfolded Inr]] by (simp add: uses_def k1 k2 chat)
          then show ?thesis using all wf4 Inr
            by (simp add: plan_counts_def taken_by_def rates_wf_cong [OF b] bucket_count_cong [OF b])
        qed
      qed
    qed
  qed
qed

lemma plan_action_counts:
  assumes wf: "rates_wf cfg s" and run: "plan_action env cfg now uid chat query scope s = (r, s')"
  shows "plan_counts cfg s r s'"
proof -
  let ?denied = "\<lambda>reason. rejected_action uid chat query scope '''' '''' reason None"
  let ?k1 = "(''user_plans_day'', uid, Day_key (msk_day now))"
  let ?k2 = "(''chat_actions_day'', chat_or_zero chat, Day_key (msk_day now))"
  obtain r1 s1 where t1: "try_increment ''user_plans_day'' uid (Day_key (msk_day now)) (msk_day_window now)
      (set_user_plans cfg) s = (r1, s1)" by fastforce
  obtain r2 s2 where t2: "try_increment ''chat_actions_day'' (chat_or_zero chat) (Day_key (msk_day now))
      (msk_day_window now) (set_chat_actions cfg) s1 = (r2, s2)" by fastforce
  have ceil: "ceiling_of cfg ''user_plans_day'' = set_user_plans cfg" "ceiling_of cfg ''chat_actions_day'' = set_chat_actions cfg"
    by (simp_all add: ceiling_of_def)
  note c1 = try_increment_count [OF wf t1 [folded ceil(1)]]
  then have wf1: "rates_wf cfg s1" by blast
  note c2 = try_increment_count [OF wf1 t2 [folded ceil(2)]]
  then have wf2: "rates_wf cfg s2" by blast
  have le1: "\<forall>k. bucket_count s k \<le> bucket_count s1 k" using c1 by (cases "r1 = Inr True") auto
  have le2: "\<forall>k. bucket_count s k \<le> bucket_count s2 k"
  proof
    fix k
    have "bucket_count s1 k \<le> bucket_count s2 k" using c2 by (cases "r2 = Inr True") auto
    with le1 show "bucket_count s k \<le> bucket_count s2 k" by (meson order_trans)
  qed
  have pos: "0 \<le> bucket_count s k" for k using count_bounds [OF wf] by blast
  show ?thesis
  proof (cases "may_use (env_user env uid)")
    case False
    with run show ?thesis by (auto simp: plan_action_def Let_def intro: plan_counts_reject [OF wf])
  next
    case member: True
    show ?thesis
    proof (cases r1)
      case (Inl e)
      with run member t1 try_increment_frame [OF t1] show ?thesis
        by (auto simp: plan_action_def Let_def bindB_def plan_counts_def)
    next
      case r1: (Inr rate_ok)
      show ?thesis
      proof (cases rate_ok)
        case False
        with run member t1 r1 have "reject_with (?denied ''rate_limit_exceeded'') ''rate_limit_exceeded'' s1 = (r, s')"
          by (simp add: plan_action_def Let_def bindB_def)
        then show ?thesis by (rule plan_counts_reject [OF wf1 le1])
      next
        case rate: True
        show ?thesis
        proof (cases r2)
          case (Inl e)
          with run member t1 r1 rate t2 try_increment_frame [OF t2] show ?thesis
            by (auto simp: plan_action_def Let_def bindB_def plan_counts_def)
        next
          case r2: (Inr chat_ok)
          note tail = run [unfolded plan_action_def Let_def] member t1 [unfolded r1] rate t2 [unfolded r2]
          have cs1: "bucket_count s1 = (bucket_count s)(?k1 := bucket_count s ?k1 + 1)" using c1 r1 rate by simp
          have cs2: "bucket_count s2 = ((bucket_count s)(?k1 := bucket_count s ?k1 + 1))(?k2 := bucket_count s ?k2 + 1)"
            if "chat_ok" using c2 r2 that cs1 by simp
          have undone: "rates_wf cfg s3 \<and> bucket_count s3 = bucket_count s"
            if "chat_ok" "s3 = foldl (\<lambda>s (kind, scope, key). decrement kind scope key s) s2 [?k1, ?k2]" for s3
            by (rule roll_back_two [OF wf2 cs2 _ pos pos that(2)]) (use that in simp_all)
          consider (chat) "\<not> chat_ok" | (budget) "chat_ok" "is_user_daily_exceeded (set_user_budget cfg) s2 uid now"
            | (broken) exc where "chat_ok" "\<not> is_user_daily_exceeded (set_user_budget cfg) s2 uid now"
                "env_evidence env uid query chat scope = Inl exc"
            | (empty) ctx where "chat_ok" "\<not> is_user_daily_exceeded (set_user_budget cfg) s2 uid now"
                "env_evidence env uid query chat scope = Inr ctx" "ev_abstained ctx"
            | (go) ctx where "chat_ok" "\<not> is_user_daily_exceeded (set_user_budget cfg) s2 uid now"
                "env_evidence env uid query chat scope = Inr ctx" "\<not> ev_abstained ctx"
            by (cases "env_evidence env uid query chat scope") blast+
          then show ?thesis
          proof cases
            case chat
            have s2: "s2 = s1" using c2 r2 chat by simp
            obtain r3 s3 where ac: "action_create (?denied ''rate_limit_exceeded'') s2 = (r3, s3)" by fastforce
            have b: "b_buckets s3 = b_buckets s1" using leaves_run [OF buckets_rows(1) ac] s2 by simp
            let ?s4 = "decrement ''user_plans_day'' uid (Day_key (msk_day now)) s3"
            have "rates_wf cfg s3" using wf1 by (simp add: rates_wf_cong [OF b])
            from decrement_count [OF this] have d: "rates_wf cfg ?s4"
              "bucket_count ?s4 = (bucket_count s3)(?k1 := max 0 (bucket_count s3 ?k1 - 1))" by auto
            have "bucket_count ?s4 = bucket_count s"
              unfolding d(2) bucket_count_cong [OF b] cs1 using pos [of ?k1] by (simp add: fun_eq_iff)
            moreover have "(\<exists>n. r = Inl (Db_error n)) \<or> (r = Inl (Butler_error ''rate_limit_exceeded'') \<and> s' = ?s4)"
              using tail chat ac by (auto simp: bindB_def roll_back_def action_create_def Let_def split: if_splits)
            ultimately show ?thesis using d(1) by (auto simp: plan_counts_def taken_by_def)
          next
            case budget
            let ?s3 = "foldl (\<lambda>s (kind, scope, key). decrement kind scope key s) s2 [?k1, ?k2]"
            from budget tail have "reject_with (?denied ''budget_exceeded'') ''budget_exceeded'' ?s3 = (r, s')"
              by (simp add: bindB_def roll_back_def)
            then show ?thesis using undone [OF budget(1) refl] by (intro plan_counts_reject [of cfg ?s3 s]) simp_all
          next
            case broken
            with tail have "r = Inl (Evidence_error exc)" "s' = s2" by (simp_all add: bindB_def build_evidence_def)
            with wf2 le2 show ?thesis by (simp add: plan_counts_def taken_by_def)
          next
            case empty
            with tail have "reject_with (rejected_action uid chat query scope (ev_gov ctx) (ev_hash ctx)
                ''empty_evidence'' None) ''empty_evidence'' s2 = (r, s')" by (simp add: bindB_def build_evidence_def)
            then show ?thesis by (rule plan_counts_reject [OF wf2 le2])
          next
            case go
            with tail have "plan_from_evidence env cfg now uid chat query scope [?k1, ?k2] ctx s2 = (r, s')"
              by (simp add: bindB_def build_evidence_def)
            then show ?thesis by (rule plan_from_evidence_counts [OF wf2 wf refl refl cs2 [OF go(1)]])
          qed
        qed
      qed
    qed
  qed
qed

subsection \<open>The invariant\<close>

definition counted :: "butler_settings \<Rightarrow> bdb \<Rightarrow> rate_key \<Rightarrow> int" where
  "counted cfg s k = int (length (filter (\<lambda>a. k \<in> set (uses cfg a)) (b_actions s)))"

definition rate_inv :: "butler_settings \<Rightarrow> bdb \<Rightarrow> bool" where
  "rate_inv cfg s \<longleftrightarrow> rates_wf cfg s \<and> (\<forall>k. counted cfg s k \<le> bucket_count s k)"

lemma counted_kept: "actions_kept s s' \<Longrightarrow> counted cfg s' k = counted cfg s k"
proof -
  assume "actions_kept s s'"
  then obtain g where g: "b_actions s' = map g (b_actions s)" "\<forall>a \<in> set (b_actions s). lives_on s' a (g a)"
    by (auto simp: actions_kept_def)
  have "uses cfg (g a) = uses cfg a" if "a \<in> set (b_actions s)" for a
  proof -
    from g(2) that have "same_row a (g a)" by (simp add: lives_on_def)
    then have "ba_expires (g a) = ba_expires a" "ba_requester (g a) = ba_requester a" "ba_chat (g a) = ba_chat a" "ba_tool (g a) = ba_tool a"
      by (simp_all add: same_row_def)
    then show ?thesis unfolding uses_def by (simp only:)
  qed
  then have "map (\<lambda>a. k \<in> set (uses cfg a)) (b_actions s') = map (\<lambda>a. k \<in> set (uses cfg a)) (b_actions s)"
    by (simp add: g(1))
  then have "length (filter id (map (\<lambda>a. k \<in> set (uses cfg a)) (b_actions s'))) =
      length (filter id (map (\<lambda>a. k \<in> set (uses cfg a)) (b_actions s)))" by simp
  then show ?thesis by (simp add: counted_def filter_map comp_def)
qed

lemma rate_inv_carries:
  assumes "rate_inv cfg s" "carries s s'" "rates_wf cfg s'" "\<forall>k. bucket_count s k \<le> bucket_count s' k"
  shows "rate_inv cfg s'"
proof -
  have "counted cfg s' k \<le> bucket_count s' k" for k
  proof -
    have "counted cfg s' k = counted cfg s k" using assms(2) by (intro counted_kept) (simp add: carries_def)
    also have "\<dots> \<le> bucket_count s k" using assms(1) unfolding rate_inv_def by blast
    also have "\<dots> \<le> bucket_count s' k" using assms(4) by blast
    finally show ?thesis .
  qed
  with assms(3) show ?thesis by (simp add: rate_inv_def)
qed

lemma rate_inv_same: "rate_inv cfg s \<Longrightarrow> carries s s' \<Longrightarrow> b_buckets s' = b_buckets s \<Longrightarrow> rate_inv cfg s'"
  using rates_wf_cong [of s' s cfg] bucket_count_cong [of s' s] rate_inv_carries [of cfg s s'] by (simp add: rate_inv_def)

lemma plan_rate_inv:
  assumes inv: "rate_inv cfg s"
  shows "rate_inv cfg (commit_plan s (plan_action env cfg now uid chat query scope s))"
proof -
  obtain r s' where run: "plan_action env cfg now uid chat query scope s = (r, s')" by fastforce
  note q = commit_plan_quiet [OF run]
  have wf: "rates_wf cfg s" using inv by (simp add: rate_inv_def)
  note counts = plan_action_counts [OF wf run]
  from plan_action_ends [OF run] show ?thesis
    unfolding plan_ends_def
  proof (elim disjE conjE exE)
    fix n assume "r = Inl (Db_error n)"
    then show ?thesis unfolding run q using inv by simp
  next
    fix k a assume r: "r = Inl (Butler_error k)" and a: "audited s a s'" "ba_status a = BA_rejected"
    from counts r have c: "rates_wf cfg s'" "\<forall>k. bucket_count s k \<le> bucket_count s' k"
      by (auto simp: plan_counts_def taken_by_def)
    from a have acts: "b_actions s' = b_actions s @ [a]" by (simp add: audited_def)
    have "uses cfg a = []" using a(1) by (simp add: audited_def uses_def)
    then have "counted cfg s' k = counted cfg s k" for k by (simp add: counted_def acts)
    then have "\<forall>k. counted cfg s' k \<le> bucket_count s' k" using c(2) inv by (metis order_trans rate_inv_def)
    with c(1) r show ?thesis unfolding run q by (simp add: rate_inv_def)
  next
    fix a p assume r: "r = Inr a" and a: "stored cfg now uid s a p s'"
    from counts r have c: "rates_wf cfg s'" "\<forall>k. bucket_count s k + taken_by cfg (Inr a) k \<le> bucket_count s' k"
      by (auto simp: plan_counts_def)
    have "counted cfg s' k = counted cfg s k + taken_by cfg (Inr a) k" for k
      using a by (simp add: counted_def stored_def taken_by_def)
    moreover have "counted cfg s k \<le> bucket_count s k" for k using inv unfolding rate_inv_def by blast
    ultimately have "counted cfg s' k \<le> bucket_count s' k" for k using c(2) by (metis add_right_mono order_trans)
    then have "\<forall>k. counted cfg s' k \<le> bucket_count s' k" by blast
    with c(1) r show ?thesis unfolding run q by (simp add: rate_inv_def)
  next
    fix exc assume r: "r = Inl (Evidence_error exc)" and same: "only_buckets s s'"
    from counts r have c: "rates_wf cfg s'" "\<forall>k. bucket_count s k \<le> bucket_count s' k"
      by (auto simp: plan_counts_def taken_by_def)
    have "counted cfg s' k = counted cfg s k" for k using same by (simp add: counted_def only_buckets_def same_defs)
    then have "\<forall>k. counted cfg s' k \<le> bucket_count s' k" using c(2) inv by (metis order_trans rate_inv_def)
    with c(1) r show ?thesis unfolding run q by (simp add: rate_inv_def)
  qed
qed

text \<open>A transition that leaves the buckets alone, committed.\<close>

lemma commit_buckets:
  assumes "leaves b_buckets m"
  shows "b_buckets (commitB s (m s)) = b_buckets s"
proof (cases "m s")
  case (Pair r s')
  then have "b_buckets s' = b_buckets s" using assms leaves_run by fastforce
  with Pair show ?thesis by (simp add: commitB_def split: sum.split butler_error.split)
qed

text \<open>An operation that only raises counts.\<close>

definition grows :: "butler_settings \<Rightarrow> bdb \<Rightarrow> bdb \<Rightarrow> bool" where
  "grows cfg s s' \<longleftrightarrow> rates_wf cfg s' \<and> (\<forall>k. bucket_count s k \<le> bucket_count s' k)"

lemma grows_same: "rates_wf cfg s \<Longrightarrow> b_buckets s' = b_buckets s \<Longrightarrow> grows cfg s s'"
  using rates_wf_cong [of s' s cfg] bucket_count_cong [of s' s] by (simp add: grows_def)

lemma grows_trans: "grows cfg s s1 \<Longrightarrow> grows cfg s1 s2 \<Longrightarrow> grows cfg s s2"
  unfolding grows_def by (meson order_trans)

lemma grows_wf: "grows cfg s s' \<Longrightarrow> rates_wf cfg s'"
  by (simp add: grows_def)

definition raises_counts :: "butler_settings \<Rightarrow> 'a butler \<Rightarrow> bool" where
  "raises_counts cfg m \<longleftrightarrow> (\<forall>s. rates_wf cfg s \<longrightarrow> grows cfg s (snd (m s)))"

lemma counts_leaves: "leaves b_buckets m \<Longrightarrow> raises_counts cfg m"
  by (simp add: raises_counts_def leaves_def grows_same)

lemma counts_bind:
  assumes m: "raises_counts cfg m" and f: "\<And>x. raises_counts cfg (f x)"
  shows "raises_counts cfg (bindB m f)"
  unfolding raises_counts_def
proof (intro allI impI)
  fix s assume wf: "rates_wf cfg s"
  obtain r s1 where s1: "m s = (r, s1)" by fastforce
  from m wf have 1: "grows cfg s s1" unfolding raises_counts_def by (metis s1 snd_conv)
  show "grows cfg s (snd (bindB m f s))"
  proof (cases r)
    case (Inl e)
    with s1 1 show ?thesis by (simp add: bindB_def)
  next
    case (Inr x)
    from f grows_wf [OF 1] have "grows cfg s1 (snd (f x s1))" by (simp add: raises_counts_def)
    with grows_trans [OF 1] s1 Inr show ?thesis by (simp add: bindB_def)
  qed
qed

lemma counts_increment:
  assumes "c = ceiling_of cfg kind"
  shows "raises_counts cfg (try_increment kind scope key win c)"
  unfolding raises_counts_def
proof (intro allI impI)
  fix s assume wf: "rates_wf cfg s"
  obtain r s' where run: "try_increment kind scope key win c s = (r, s')" by fastforce
  from try_increment_count [OF wf run [unfolded assms]]
  show "grows cfg s (snd (try_increment kind scope key win c s))"
    unfolding run grows_def by (cases "r = Inr True") auto
qed

lemma execute_counts: "raises_counts cfg (execute_action env cfg now aid)"
proof -
  have c: "raises_counts cfg (try_increment ''user_execs_day'' uid key win (set_user_execs cfg))" for uid key win
    by (rule counts_increment) (simp add: ceiling_of_def)
  have steps: "raises_counts cfg (case ba_plan a of None \<Rightarrow> raiseB ''invariant_broken''
     | Some p \<Rightarrow>
         bindB (run_steps env now a 1 (bp_actions p)) (\<lambda>failed. case failed of
           Some r \<Rightarrow> returnB r
         | None \<Rightarrow> bindB (action_update_status aid BA_succeeded (\<lambda>a. a\<lparr>ba_executed_at := Some now\<rparr>)) (\<lambda>_. refetch a)))" for a
    by (rule counts_leaves) (auto intro!: leaves split: option.split)
  have rej: "raises_counts cfg (bindB (action_update_status aid BA_rejected f) (\<lambda>_. raiseB k))" for f k
    by (rule counts_leaves) (auto intro!: leaves)
  show ?thesis
    unfolding execute_action_def
    apply (rule counts_bind, rule counts_leaves, rule leaves)
    apply (split if_split, intro conjI impI)
     apply (rule counts_leaves, rule leaves)
    apply (rule counts_bind, rule counts_leaves, rule leaves)
    apply (split if_split, intro conjI impI rej)
    apply (rule counts_bind, rule c)
    apply (split if_split, intro conjI impI rej)
    apply (rule counts_bind, rule counts_leaves, rule leaves)
    apply (rule steps)
    done
qed

lemma execute_rate_inv:
  assumes inv: "rate_inv cfg s" and b: "butler_inv s"
  shows "rate_inv cfg (commitB s (execute_action env cfg now aid s))"
proof -
  obtain r s' where run: "execute_action env cfg now aid s = (r, s')" by fastforce
  have wf: "rates_wf cfg s" using inv by (simp add: rate_inv_def)
  then have "grows cfg s s'" using execute_counts [of cfg env now aid] run unfolding raises_counts_def by (metis snd_conv)
  then have "grows cfg s (commitB s (r, s'))"
    using grows_same [OF wf] by (simp add: commitB_def split: sum.split butler_error.split)
  then show ?thesis
    using rate_inv_carries [OF inv execute_step [OF b]] run unfolding grows_def by metis
qed

lemma tick_buckets: "b_buckets (snd (butler_expire_tick env now s)) = b_buckets s"
proof -
  have inline: "b_buckets (snd (expire_action_inline env now aid s)) = b_buckets s" for aid s
    using buckets_withdraw(3) [of env now aid] by (simp add: leaves_def expire_action_eq_inline)
  have "b_buckets (snd (expire_rows env now as s)) = b_buckets s" for "as"
  proof (induction "as" arbitrary: s)
    case (Cons a "as")
    obtain r s1 where r: "expire_action_inline env now (ba_id a) s = (r, s1)" by fastforce
    with inline [of "ba_id a" s] have "b_buckets s1 = b_buckets s" by simp
    then have "b_buckets (case r of Inl _ \<Rightarrow> s | Inr _ \<Rightarrow> s1) = b_buckets s" by (simp split: sum.split)
    with Cons.IH r show ?case by (simp add: Let_def split_beta)
  qed simp
  then show ?thesis by (simp add: butler_expire_tick_def)
qed

lemma bstep_rate_inv:
  assumes "rate_inv cfg s" "butler_inv s" "bstep cfg s s'"
  shows "rate_inv cfg s'"
  using assms(3)
proof cases
  case plan
  then show ?thesis using plan_rate_inv [OF assms(1)] by simp
next
  case confirm
  then show ?thesis using rate_inv_same [OF assms(1) confirm_step [OF assms(2)] commit_buckets [OF buckets_confirm]] by simp
next
  case execute
  then show ?thesis using execute_rate_inv [OF assms(1,2)] by simp
next
  case cancel
  then show ?thesis using rate_inv_same [OF assms(1) cancel_step [OF assms(2)] commit_buckets [OF buckets_withdraw(1)]] by simp
next
  case revoke
  then show ?thesis using rate_inv_same [OF assms(1) revoke_step [OF assms(2)] commit_buckets [OF buckets_withdraw(2)]] by simp
next
  case undo
  then show ?thesis using rate_inv_same [OF assms(1) undo_step_carries [OF assms(2)] commit_buckets [OF buckets_withdraw(4)]] by simp
next
  case expire
  then show ?thesis using rate_inv_same [OF assms(1) expire_step [OF assms(2)] commit_buckets [OF buckets_withdraw(3)]] by simp
next
  case tick
  then show ?thesis using rate_inv_same [OF assms(1) tick_step [OF assms(2)] tick_buckets] by simp
next
  case forget
  then show ?thesis using rate_inv_same [OF assms(1) forget_step [OF assms(2)]] by (simp add: cascade_butler_actions_def)
qed

lemma breach_rate_inv: "breach cfg s \<Longrightarrow> rate_inv cfg s"
proof (induction rule: breach.induct)
  case init
  show ?case by (simp add: rate_inv_def rates_wf_def counted_def bucket_count_def empty_bdb_def)
next
  case (step s s')
  then show ?case using bstep_rate_inv breach_inv by blast
qed

subsection \<open>Moscow days and hours\<close>

lemma msk_day_window_iff:
  "msk_day_window t = (d0, d1) \<Longrightarrow> (d0 \<le> u \<and> u < d1) = (msk_day u = msk_day t)"
  by (auto simp: msk_day_window_def msk_day_def Let_def)

lemma msk_hour_window_iff:
  "msk_hour_window t = (d0, d1) \<Longrightarrow> (d0 \<le> u \<and> u < d1) = (msk_hour u = msk_hour t)"
  by (auto simp: msk_hour_window_def msk_hour_def Let_def)

end
