(* ===== verification/ButlerScenario.thy ===== *)
theory ButlerScenario
  imports ButlerRates
begin

section \<open>A run of the butler\<close>

text \<open>
  A concrete run: user 1 asks for an introduction that affects user 2, both agree, the plan is executed
  and undone.  Its states show that the hypotheses of the properties can hold.
\<close>

definition demo_member :: "int \<Rightarrow> user option" where
  "demo_member u = (if u = 1 \<or> u = 2 then Some \<lparr>u_id = u, username = None, first_name = [], last_name = None,
     is_member = True, is_admin = False, joined_at = None, left_at = None, is_imported_only = False,
     is_bot = None\<rparr> else None)"

definition demo_step :: plan_step where
  "demo_step = \<lparr>st_tool = ''send_intro'', st_args = J_obj [], st_affected = [2, 1, 2], st_risk = Risk_low,
     st_rollback = Delete_message_op\<rparr>"

definition demo_plan :: butler_plan where
  "demo_plan = \<lparr>bp_summary = [], bp_evidence_ids = [9], bp_actions = [demo_step], bp_gov = ''g''\<rparr>"

definition demo_inverse :: json where
  "demo_inverse = J_obj [(''rollback_kind'', J_str (cp ''delete_message'')), (''chat_id'', J_int 10), (''message_id'', J_int 55)]"

definition demo_tool :: butler_tool where
  "demo_tool = \<lparr>tool_run = (\<lambda>_ _ _. Tool_result True (J_obj [(''message_id'', J_int 55)]) None),
     tool_inverse = (\<lambda>_. Some demo_inverse)\<rparr>"

definition demo_env :: butler_env where
  "demo_env = \<lparr>env_user = demo_member,
     env_evidence = (\<lambda>_ _ _ _. Inr \<lparr>ev_abstained = False, ev_gov = ''g'', ev_hash = ''h''\<rparr>),
     env_gateway = (\<lambda>_ _ _ _ _. \<lparr>gw_ledger = [\<lparr>lu_id = 7, lu_call_type = ''butler_decision'', lu_cost = 100, lu_created = 1000\<rparr>],
        gw_plan = Inr (demo_plan, 7)\<rparr>),
     env_token = show_int, env_hash = (\<lambda>_. ''x''), env_args_ok = (\<lambda>_ _. True),
     env_tools = (\<lambda>_. Some demo_tool), env_bot = (\<lambda>_. None), env_prior_text = (\<lambda>_ _. None),
     env_dismiss = None, env_locked = (\<lambda>_. False)\<rparr>"

definition demo_b1 :: bdb where
  "demo_b1 = commit_plan empty_bdb (plan_action demo_env default_settings 1000 1 (Some 10) [] V_member empty_bdb)"

definition demo_b2 :: bdb where
  "demo_b2 = commitB demo_b1 (confirm_action demo_env 1010 1 1 ''1'' demo_b1)"

definition demo_b3 :: bdb where
  "demo_b3 = commitB demo_b2 (confirm_action demo_env 1020 1 2 ''2'' demo_b2)"

definition demo_b4 :: bdb where
  "demo_b4 = commitB demo_b3 (execute_action demo_env default_settings 1030 1 demo_b3)"

definition demo_b5 :: bdb where
  "demo_b5 = commitB demo_b4 (execute_undo demo_env default_settings 1040 1 1 demo_b4)"

text \<open>The confirmed plan after its evidence, the message version 9, was forgotten.\<close>

definition demo_forgotten :: bdb where
  "demo_forgotten = cascade_butler_actions (forget_hit [9] None) demo_b3"

text \<open>The same plan left unanswered until it expires.\<close>

definition demo_late :: bdb where
  "demo_late = snd (butler_expire_tick demo_env 5000 demo_b1)"

lemma demo_b3_status: "map ba_status (b_actions demo_b3) = [BA_confirmed]"
  by code_simp

lemma demo_b4_calls: "tool_calls demo_b4 = [\<lparr>tc_action = 1, tc_seq = 1, tc_tool = ''send_intro''\<rparr>]"
  by code_simp

lemma demo_b5_calls: "undo_calls demo_b5 = [(1, 1, Undo_delete (J_int 10) (J_int 55))]"
  by code_simp

lemma demo_breach:
  "breach default_settings demo_b1" "breach default_settings demo_b2" "breach default_settings demo_b3"
  "breach default_settings demo_b4" "breach default_settings demo_b5" "breach default_settings demo_late"
proof -
  show b1: "breach default_settings demo_b1"
    unfolding demo_b1_def by (rule breach.step [OF breach.init bstep.plan])
  show "breach default_settings demo_late"
    unfolding demo_late_def by (rule breach.step [OF b1 bstep.tick])
  show b2: "breach default_settings demo_b2"
    unfolding demo_b2_def by (rule breach.step [OF b1 bstep.confirm])
  show b3: "breach default_settings demo_b3"
    unfolding demo_b3_def by (rule breach.step [OF b2 bstep.confirm])
  show b4: "breach default_settings demo_b4"
    unfolding demo_b4_def by (rule breach.step [OF b3 bstep.execute])
  show "breach default_settings demo_b5"
    unfolding demo_b5_def by (rule breach.step [OF b4 bstep.undo])
qed

text \<open>The results of the operations of the run, as far as the properties need them.\<close>

lemma demo_rows:
  "map ba_id (b_actions demo_b1) = [1]" "map ba_status (b_actions demo_b1) = [BA_pending_confirmation]"
  "map ba_status (b_actions demo_b4) = [BA_succeeded]"
  "map bc_id (b_confs demo_b1) = [1, 2]" "map bc_status (b_confs demo_b1) = [C_pending, C_pending]"
  "map bc_status (b_confs demo_b2) = [C_confirmed, C_pending]" "map bc_id (b_confs demo_b2) = [1, 2]"
  by code_simp+

lemma demo_b2_row:
  "map (\<lambda>a. (ba_id a, ba_status a, ba_hash a)) (b_actions demo_b2) = [(1, BA_pending_confirmation, ''h'')]"
  by code_simp

lemma demo_b3_row:
  "map (\<lambda>a. (ba_id a, ba_status a, ba_rollback a, ba_inverse a)) (b_actions demo_b3) = [(1, BA_confirmed, Delete_message_op, None)]"
  by code_simp

text \<open>The same tool without an inverse.\<close>

definition demo_bare :: butler_env where
  "demo_bare = demo_env\<lparr>env_tools := (\<lambda>_. Some (demo_tool\<lparr>tool_inverse := (\<lambda>_. None)\<rparr>))\<rparr>"

definition demo_bare_state :: bdb where
  "demo_bare_state = commitB demo_b3 (execute_action demo_bare default_settings 1030 1 demo_b3)"

lemma demo_bare_calls:
  "tool_calls demo_bare_state = [\<lparr>tc_action = 1, tc_seq = 1, tc_tool = ''send_intro''\<rparr>]"
  "map ba_status (b_actions demo_bare_state) = [BA_confirmed]" "map ba_id (b_actions demo_bare_state) = [1]"
  by code_simp+

text \<open>Its execution starts and gets through every step of the plan.\<close>

definition demo_bare_start :: bdb where
  "demo_bare_start = snd (action_update_status 1 BA_executing (\<lambda>a. a)
     (snd (try_increment ''user_execs_day'' 1 (Day_key (msk_day 1030)) (msk_day_window 1030) 5 demo_b3)))"

lemma demo_bare_run:
  "fst (try_increment ''user_execs_day'' 1 (Day_key (msk_day 1030)) (msk_day_window 1030) 5 demo_b3) = Inr True"
  "fst (action_update_status 1 BA_executing (\<lambda>a. a)
     (snd (try_increment ''user_execs_day'' 1 (Day_key (msk_day 1030)) (msk_day_window 1030) 5 demo_b3))) = Inr ()"
  "fst (run_steps demo_bare 1030 (hd (b_actions demo_b3)) 1 [demo_step] demo_bare_start) = Inr None"
  "map ba_plan (b_actions demo_b3) = [Some demo_plan]" "map ba_requester (b_actions demo_b3) = [1]"
  "missing_consent demo_b3 1 = False" "tool_calls demo_b3 = []"
  by code_simp+

lemma demo_b3_evidence: "map ba_evidence_ids (b_actions demo_b3) = [[9]]"
  by code_simp

lemma demo_invocations: "map bi_id (invs_of demo_b4 1) = [1]"
  by code_simp

lemma demo_results:
  "is_ok (fst (execute_action demo_env default_settings 1030 1 demo_b3))"
  "is_ok (fst (execute_undo demo_env default_settings 1040 1 1 demo_b4))"
  by code_simp+

end
