(* ===== verification/ButlerProperties.thy ===== *)
theory ButlerProperties
  imports ButlerScenario
begin

section \<open>Properties of the butler\<close>

text \<open>
  What the components prove together, for every state that handler calls, expiry ticks and forget events
  can leave behind.  Each property with a hypothesis is applied to the run of the scenario.
\<close>

subsection \<open>Consent\<close>

text \<open>
  C3. No tool is called without consent: whatever the butler ever called is a step of the stored plan of
  an action, with that step's own tool, and the requester and every user any step of the plan affects
  have a confirmation row for this action whose status is confirmed.
\<close>

theorem tools_need_consent:
  assumes "breach cfg s" "c \<in> set (tool_calls s)"
  shows "\<exists>a \<in> set (b_actions s). \<exists>p. ba_id a = tc_action c \<and> ba_plan a = Some p \<and>
    (\<exists>i < length (bp_actions p). tc_seq c = Suc i \<and> tc_tool c = st_tool (bp_actions p ! i)) \<and>
    (\<forall>u. u = ba_requester a \<or> (\<exists>st \<in> set (bp_actions p). u \<in> set (st_affected st)) \<longrightarrow>
      (\<exists>k \<in> set (b_confs s). bc_action k = ba_id a \<and> bc_confirmer k = u \<and> bc_status k = C_confirmed))"
proof -
  from breach_inv [OF assms(1)] assms(2) have "call_sound s c" by (simp add: butler_inv_def)
  then obtain a p q where a: "a \<in> set (b_actions s)" "ba_id a = tc_action c" "ba_plan a = Some p"
    and q: "q \<in> set (enumerate 1 (bp_actions p))" "call_of (ba_id a) c q" and c: "consented s a p"
    by (auto simp: call_sound_def)
  from q obtain i where "i < length (bp_actions p)" "tc_seq c = Suc i" "tc_tool c = st_tool (bp_actions p ! i)"
    by (intro that [of "fst q - 1"]) (auto simp: in_set_enumerate_eq call_of_def)
  moreover have "\<exists>k \<in> set (b_confs s). bc_action k = ba_id a \<and> bc_confirmer k = u \<and> bc_status k = C_confirmed"
    if "u = ba_requester a \<or> (\<exists>st \<in> set (bp_actions p). u \<in> set (st_affected st))" for u
  proof -
    have "u \<in> parties a p" using that by (auto simp: parties_def affected_users_def)
    with c show ?thesis by (auto simp: consented_def)
  qed
  ultimately show ?thesis using a by blast
qed

theorem tools_need_consent_witness:
  "\<exists>a \<in> set (b_actions demo_b4). \<exists>p. ba_id a = 1 \<and> ba_plan a = Some p \<and>
    (\<exists>k \<in> set (b_confs demo_b4). bc_action k = 1 \<and> bc_confirmer k = ba_requester a \<and> bc_status k = C_confirmed)"
  using tools_need_consent [OF demo_breach(4), of "\<lparr>tc_action = 1, tc_seq = 1, tc_tool = ''send_intro''\<rparr>"]
  by (fastforce simp: demo_b4_calls)

subsection \<open>The life of an action\<close>

lemma audited_stored_rows:
  assumes "plan_ends cfg now uid query ev s r s'"
  shows "(\<exists>n. r = Inl (Db_error n)) \<or> b_actions s' = b_actions s \<or> (\<exists>a. b_actions s' = b_actions s @ [a])"
  using assms by (auto simp: plan_ends_def audited_def stored_def only_buckets_def same_acts_def)

lemma action_lives:
  assumes "breach cfg s" "bstep cfg s s'" "a \<in> set (b_actions s)"
  shows "ba_status a \<noteq> BA_executing \<and> (\<exists>b \<in> set (b_actions s'). same_row a b \<and>
    (ba_status b = ba_status a \<or> may_become (ba_status a) (ba_status b)))"
proof -
  have inv: "butler_inv s" by (rule breach_inv [OF assms(1)])
  have "live_status (ba_status a)" using inv_sound [OF inv assms(3)] by (simp add: sound_action_def)
  moreover from bstep_carries [OF inv assms(2)]
  have "\<exists>b \<in> set (b_actions s'). same_row a b \<and> (ba_status b = ba_status a \<or> may_become (ba_status a) (ba_status b))"
  proof (elim disjE exE)
    assume "carries s s'"
    then obtain g where "b_actions s' = map g (b_actions s)" "lives_on s' a (g a)"
      using assms(3) by (auto simp: carries_def actions_kept_def)
    then show ?thesis using assms(3) by (intro bexI [of _ "g a"]) (auto simp: lives_on_def)
  next
    fix env now uid chat query scope
    assume s': "s' = commit_plan s (plan_action env cfg now uid chat query scope s)"
    obtain r s1 where run: "plan_action env cfg now uid chat query scope s = (r, s1)" by fastforce
    from audited_stored_rows [OF plan_action_ends [OF run]] have "set (b_actions s) \<subseteq> set (b_actions s')"
      unfolding s' run commit_plan_quiet [OF run] by auto
    with assms(3) show ?thesis by (intro bexI [of _ a]) auto
  qed
  ultimately show ?thesis by (auto simp: live_status_def)
qed

text \<open>
  C13. An action keeps its requester, plan, tool, chat and deadline for good, no row disappears, and every
  committed change of its status is one of the graph: pending to confirmed, rejected, expired or
  cancelled; confirmed to succeeded, failed, rejected, expired or cancelled; succeeded to undone; expired
  to cancelled.  No committed row is ever in the status executing.
\<close>

theorem action_lifecycle:
  assumes "breach cfg s" "bstep cfg s s'" "a \<in> set (b_actions s)"
  shows "ba_status a \<noteq> BA_executing \<and> (\<exists>b \<in> set (b_actions s'). same_row a b \<and>
    (ba_status b = ba_status a \<or> may_become (ba_status a) (ba_status b)))"
  using action_lives [OF assms] .

theorem action_lifecycle_witness:
  "\<exists>a \<in> set (b_actions demo_b3). \<exists>b \<in> set (b_actions demo_b4).
     same_row a b \<and> (ba_status b = ba_status a \<or> may_become (ba_status a) (ba_status b))"
proof -
  have "b_actions demo_b3 \<noteq> []" using demo_b3_status by auto
  then have "hd (b_actions demo_b3) \<in> set (b_actions demo_b3)" by simp
  with action_lifecycle [OF demo_breach(3) _ this, of demo_b4] show ?thesis
    unfolding demo_b4_def using bstep.execute by blast
qed

text \<open>The calls one step makes to tools.\<close>

lemma execute_calls:
  assumes "execute_ends cfg now aid s r s'"
  shows "tool_calls s' = tool_calls s \<or> (\<exists>a p cs. action_get s aid = Some a \<and> ba_status a = BA_confirmed \<and>
    ba_plan a = Some p \<and> tool_calls s' = tool_calls s @ cs \<and> calls_along aid 1 (bp_actions p) cs)"
proof (rule disjCI)
  assume none: "\<not> (\<exists>a p cs. action_get s aid = Some a \<and> ba_status a = BA_confirmed \<and>
    ba_plan a = Some p \<and> tool_calls s' = tool_calls s @ cs \<and> calls_along aid 1 (bp_actions p) cs)"
  from assms show "tool_calls s' = tool_calls s"
    unfolding execute_ends_def same_runs_def by (elim disjE exE conjE) (simp, simp, simp, simp, simp, use none in blast, use none in blast, use none in blast, use none in blast)
qed

lemma bstep_calls:
  assumes inv: "butler_inv s" and st: "bstep cfg s s'" and a: "a \<in> set (b_actions s)"
    and w: "ba_status a \<noteq> BA_confirmed"
  shows "filter (\<lambda>c. tc_action c = ba_id a) (tool_calls s') = filter (\<lambda>c. tc_action c = ba_id a) (tool_calls s)"
proof -
  have quiet: "tool_calls (commitB s (m s)) = tool_calls s" if "leaves outside m" for m :: "'x butler"
  proof (cases "m s")
    case (Pair r s1)
    with leaves_run [OF that Pair] show ?thesis by (simp add: commitB_def outside_def split: sum.split butler_error.split)
  qed
  show ?thesis
    using st
  proof cases
    case (plan env now uid chat query scope)
    obtain r s1 where run: "plan_action env cfg now uid chat query scope s = (r, s1)" by fastforce
    with leaves_run [OF outside_plan run] plan commit_plan_quiet [OF run] show ?thesis by (simp add: outside_def)
  next
    case confirm
    then show ?thesis using quiet [OF outside_confirm] by simp
  next
    case (execute env now aid)
    obtain r s1 where run: "execute_action env cfg now aid s = (r, s1)" by fastforce
    have calls: "tool_calls s' = tool_calls s1 \<or> (s' = s1)"
      using execute run by (auto simp: commitB_def split: sum.splits butler_error.splits)
    have "\<exists>cs. tool_calls s1 = tool_calls s @ cs \<and> (\<forall>c \<in> set cs. tc_action c \<noteq> ba_id a)"
    proof -
      from execute_calls [OF execute_action_ends [OF run inv_ids(3) [OF inv]]]
      consider "tool_calls s1 = tool_calls s"
        | (run) b p cs where "action_get s aid = Some b" "ba_status b = BA_confirmed" "tool_calls s1 = tool_calls s @ cs"
            "calls_along aid 1 (bp_actions p) cs" "ba_plan b = Some p" by blast
      then show ?thesis
      proof cases
        case run
        have "aid \<noteq> ba_id a" using inv_unique [OF inv run(1) a] run(2) w by auto
        moreover have "tc_action c = aid" if "c \<in> set cs" for c
          using calls_along_call_of [OF run(4) that] by (auto simp: call_of_def)
        ultimately show ?thesis using run(3) by auto
      qed auto
    qed
    with calls show ?thesis by auto
  next
    case cancel
    then show ?thesis using quiet [OF outside_withdraw(1)] by simp
  next
    case revoke
    then show ?thesis using quiet [OF outside_withdraw(2)] by simp
  next
    case (undo env now aid uid)
    obtain r s1 where run: "execute_undo env cfg now aid uid s = (r, s1)" by fastforce
    have "tool_calls s1 = tool_calls s"
      using execute_undo_ends [OF run inv_ids(4,3) [OF inv]] by (auto simp: undo_ends_def)
    then show ?thesis using undo run by (auto simp: commitB_def split: sum.split butler_error.split)
  next
    case expire
    then show ?thesis using quiet [OF outside_withdraw(3)] by simp
  next
    case (tick env now)
    from carries_inv tick_step [OF inv] have "carries s s'" using tick by blast
    obtain n s1 where t: "butler_expire_tick env now s = (n, s1)" by fastforce
    have "tool_calls s1 = tool_calls s"
      using expire_tick_result [of s env now] inv t by (simp add: butler_inv_def ids_below_def sound_action_def Let_def)
    then show ?thesis using tick t by simp
  next
    case forget
    then show ?thesis by (simp add: cascade_butler_actions_def)
  qed
qed

text \<open>
  The ways an action is withdrawn: it is already past \<open>confirmed\<close>, a forget event names its requester or
  a version among its evidence, or a cancellation or a revocation of it returns.
\<close>

definition withdrawal :: "bdb \<Rightarrow> butler_action \<Rightarrow> bdb \<Rightarrow> bool" where
  "withdrawal s a s1 \<longleftrightarrow>
     (ba_status a \<notin> {BA_pending_confirmation, BA_confirmed} \<and> s1 = s) \<or>
     (\<exists>mvids tg_id. forget_hit mvids tg_id a \<and> s1 = cascade_butler_actions (forget_hit mvids tg_id) s) \<or>
     (\<exists>env uid b. cancel_action env (ba_id a) uid s = (Inr b, s1)) \<or>
     (\<exists>env now uid b. revoke_affected_user_consent env now (ba_id a) uid s = (Inr b, s1))"

text \<open>A withdrawn row is past \<open>confirmed\<close>, in a committed state, and the withdrawal called no tool.\<close>

lemma withdrawal_ends:
  assumes s: "breach cfg s" and a: "a \<in> set (b_actions s)" and w: "withdrawal s a s1"
  shows "breach cfg s1 \<and> tool_calls s1 = tool_calls s \<and>
    (\<exists>b \<in> set (b_actions s1). ba_id b = ba_id a \<and> ba_status b \<notin> {BA_pending_confirmation, BA_confirmed})"
proof -
  have inv: "butler_inv s" by (rule breach_inv [OF s])
  have live: "live_status (ba_status a)" using inv_sound [OF inv a] by (simp add: sound_action_def)
  have get: "action_get s (ba_id a) = Some a"
    unfolding action_get_def by (rule fetch_distinct [OF _ a]) (use inv_ids(1) [OF inv] in \<open>simp add: ids_below_def\<close>)
  have cancelled: "\<exists>b \<in> set (b_actions s1). ba_id b = ba_id a \<and> ba_status b \<notin> {BA_pending_confirmation, BA_confirmed}"
    if "moved (ba_id a) BA_cancelled s s1"
    using moved_get [OF that get] action_get_id by fastforce
  from w consider (past) "ba_status a \<notin> {BA_pending_confirmation, BA_confirmed}" "s1 = s"
    | (forget) mvids tg where "forget_hit mvids tg a" "s1 = cascade_butler_actions (forget_hit mvids tg) s"
    | (cancel) env uid b where "cancel_action env (ba_id a) uid s = (Inr b, s1)"
    | (revoke) env now uid b where "revoke_affected_user_consent env now (ba_id a) uid s = (Inr b, s1)"
    unfolding withdrawal_def by blast
  then show ?thesis
  proof cases
    case past
    with s a show ?thesis by blast
  next
    case forget
    let ?b = "if forget_expires (ba_status a)
      then a\<lparr>ba_status := BA_expired, ba_rejection := Some ''source_forgotten'', ba_evidence_ids := []\<rparr>
      else a\<lparr>ba_evidence_ids := []\<rparr>"
    have "?b \<in> set (b_actions s1)" using forget a by (force simp: cascade_butler_actions_def)
    moreover have "ba_id ?b = ba_id a \<and> ba_status ?b \<notin> {BA_pending_confirmation, BA_confirmed}"
      by (auto simp: forget_expires_def)
    moreover have "breach cfg s1" unfolding forget(2) by (rule breach.step [OF s bstep.forget])
    ultimately show ?thesis using forget(2) by (auto simp: cascade_butler_actions_def)
  next
    case cancel
    have "breach cfg s1" using breach.step [OF s bstep.cancel] cancel by (metis (no_types, lifting) commitB_ok)
    moreover have "tool_calls s1 = tool_calls s" using leaves_run [OF outside_withdraw(1) cancel] by (simp add: outside_def)
    moreover have "moved (ba_id a) BA_cancelled s s1" using cancel_action_ends [OF cancel] by (auto simp: cancel_ends_def)
    ultimately show ?thesis using cancelled by blast
  next
    case revoke
    have "breach cfg s1" using breach.step [OF s bstep.revoke] revoke by (metis (no_types, lifting) commitB_ok)
    moreover have "tool_calls s1 = tool_calls s" using leaves_run [OF outside_withdraw(2) revoke] by (simp add: outside_def)
    moreover have "moved (ba_id a) BA_cancelled s s1" using revoke_ends [OF revoke] by (auto simp: revoke_ends_def)
    ultimately show ?thesis using cancelled by blast
  qed
qed

text \<open>
  C8. A withdrawn action never runs: once it is rejected, expired, cancelled, executed or undone, once a
  forget event covers its requester or a version it rests on, and once a cancellation of it or the
  revocation of a consent returns - confirmed by everyone or not - no later step of any kind calls a tool
  for it.
\<close>

theorem withdrawn_never_runs:
  assumes "breach cfg s" "a \<in> set (b_actions s)" "withdrawal s a s1" "(bstep cfg)\<^sup>*\<^sup>* s1 s'"
  shows "filter (\<lambda>c. tc_action c = ba_id a) (tool_calls s') = filter (\<lambda>c. tc_action c = ba_id a) (tool_calls s)"
proof -
  note out = withdrawal_ends [OF assms(1-3)]
  have "breach cfg s' \<and> (\<exists>b \<in> set (b_actions s'). ba_id b = ba_id a \<and> ba_status b \<notin> {BA_pending_confirmation, BA_confirmed}) \<and>
    filter (\<lambda>c. tc_action c = ba_id a) (tool_calls s') = filter (\<lambda>c. tc_action c = ba_id a) (tool_calls s)"
    using assms(4)
  proof (induction rule: rtranclp_induct)
    case base
    with out show ?case by simp
  next
    case (step t u)
    then obtain b where b: "b \<in> set (b_actions t)" "ba_id b = ba_id a" "ba_status b \<notin> {BA_pending_confirmation, BA_confirmed}" by blast
    note t = step(3) [THEN conjunct1]
    from action_lives [OF t step(2) b(1)] obtain d where d: "d \<in> set (b_actions u)" "same_row b d"
      "ba_status d = ba_status b \<or> may_become (ba_status b) (ba_status d)" by blast
    have "ba_status d \<notin> {BA_pending_confirmation, BA_confirmed}" using d(3) b(3) by (cases "ba_status b") auto
    moreover have "ba_id d = ba_id a" using d(2) b(2) by (simp add: same_row_def)
    moreover have "breach cfg u" using t step(2) by (rule breach.step)
    ultimately show ?case using step(3) d(1) bstep_calls [OF breach_inv [OF t] step(2) b(1)] b(2,3) by auto
  qed
  then show ?thesis by blast
qed

theorem withdrawn_never_runs_witness:
  "filter (\<lambda>c. tc_action c = 1) (tool_calls (commitB demo_forgotten (execute_action demo_env default_settings 1030 1 demo_forgotten))) = []"
proof -
  obtain a where a: "b_actions demo_b3 = [a]" "ba_id a = 1" "ba_evidence_ids a = [9]"
    using demo_b3_row demo_b3_evidence by (cases "b_actions demo_b3") auto
  then have hit: "withdrawal demo_b3 a demo_forgotten"
    unfolding withdrawal_def demo_forgotten_def by (intro disjI2 disjI1 exI [of _ "[9]"] exI [of _ None]) (simp add: forget_hit_def)
  have "(bstep default_settings)\<^sup>*\<^sup>* demo_forgotten (commitB demo_forgotten (execute_action demo_env default_settings 1030 1 demo_forgotten))"
    by (rule r_into_rtranclp [of "bstep default_settings", OF bstep.execute])
  from withdrawn_never_runs [OF demo_breach(3) _ hit this] a demo_bare_run(7) show ?thesis by simp
qed

subsection \<open>Planning\<close>

text \<open>When the evidence builder raises, the two counters of the request have been raised and nothing else.\<close>

lemma plan_evidence_error:
  assumes "plan_action env cfg now uid chat query scope s = (Inl (Evidence_error exc), s')"
  shows "env_evidence env uid query chat scope = Inl exc \<and> b_actions s' = b_actions s \<and> b_confs s' = b_confs s \<and>
    (\<exists>s1. try_increment ''user_plans_day'' uid (Day_key (msk_day now)) (msk_day_window now) (set_user_plans cfg) s = (Inr True, s1) \<and>
       try_increment ''chat_actions_day'' (chat_or_zero chat) (Day_key (msk_day now)) (msk_day_window now)
         (set_chat_actions cfg) s1 = (Inr True, s'))"
proof -
  have raise: "try_increment k sc ky w c t \<noteq> (Inl (Evidence_error exc), t')" for k sc ky w c t t'
    by (auto simp: try_increment_def Let_def split: option.split)
  have reject: "reject_with row k t \<noteq> (Inl (Evidence_error exc), t')" for row k t t'
    by (auto simp: reject_with_def bindB_def action_create_def raiseB_def Let_def split: prod.splits sum.splits if_splits)
  from plan_action_ends [OF assms] have ev: "env_evidence env uid query chat scope = Inl exc" "only_buckets s s'"
    by (auto simp: plan_ends_def)
  from assms ev(1) obtain s1 s2 where inc: "try_increment ''user_plans_day'' uid (Day_key (msk_day now)) (msk_day_window now) (set_user_plans cfg) s = (Inr True, s1)"
      "try_increment ''chat_actions_day'' (chat_or_zero chat) (Day_key (msk_day now)) (msk_day_window now) (set_chat_actions cfg) s1 = (Inr True, s2)"
    and "s' = s2"
    by (auto simp: plan_action_def Let_def bindB_result raise reject build_evidence_def roll_back_def action_create_def raiseB_def
        split: if_splits prod.splits sum.splits)
  with ev show ?thesis by (auto simp: only_buckets_def same_defs)
qed

text \<open>
  C18. What a request leaves behind, by the result of planning.  A refusal leaves exactly one rejected row
  with the reason of the error and asks nobody; a plan leaves exactly one pending row with its deadline
  and exactly one open question for the requester and one for each affected user, in ascending order, all
  with the same deadline; after a failure of the database nothing is written.  The exception of the
  evidence builder, and only it, escapes the audit: what is committed then is the two raised counters of
  the user and the chat, with no row and no question.
\<close>

theorem plan_audit:
  "case plan_action env cfg now uid chat query scope s of (r, s1) \<Rightarrow>
   let s' = commit_plan s (r, s1) in
   case r of
     Inl (Db_error n) \<Rightarrow> s' = s
   | Inl (Plan_error e) \<Rightarrow> False
   | Inl (Evidence_error exc) \<Rightarrow>
       env_evidence env uid query chat scope = Inl exc \<and> b_actions s' = b_actions s \<and> b_confs s' = b_confs s \<and>
       (\<exists>s2. try_increment ''user_plans_day'' uid (Day_key (msk_day now)) (msk_day_window now) (set_user_plans cfg) s = (Inr True, s2) \<and>
          try_increment ''chat_actions_day'' (chat_or_zero chat) (Day_key (msk_day now)) (msk_day_window now)
            (set_chat_actions cfg) s2 = (Inr True, s'))
   | Inl (Butler_error kind) \<Rightarrow>
       (\<exists>a. b_actions s' = b_actions s @ [a] \<and> ba_requester a = uid \<and> ba_query a = query \<and>
          ba_status a = BA_rejected \<and> ba_rejection a = Some kind) \<and> b_confs s' = b_confs s
   | Inr a \<Rightarrow>
       b_actions s' = b_actions s @ [a] \<and> ba_requester a = uid \<and> ba_query a = query \<and>
       ba_status a = BA_pending_confirmation \<and> ba_expires a = Some (now + set_plan_ttl cfg) \<and>
       (\<exists>p cs. ba_plan a = Some p \<and> b_confs s' = b_confs s @ cs \<and> map bc_confirmer cs = uid # affected_users uid p \<and>
          map bc_role cs = Role_requester # replicate (length (affected_users uid p)) Role_affected_user \<and>
          list_all (asks (ba_id a) (now + set_confirmation_ttl cfg)) cs)"
proof -
  obtain r s1 where run: "plan_action env cfg now uid chat query scope s = (r, s1)" by fastforce
  note q = commit_plan_quiet [OF run]
  have roles: "map bc_role cs = replicate (length us) Role_affected_user"
    if "list_all (\<lambda>c. bc_role c = Role_affected_user) cs" "map bc_confirmer cs = us" for cs :: "confirmation list" and us
    using that by (auto simp: list_all_iff intro!: replicate_eqI)
  from plan_action_ends [OF run] show ?thesis
    unfolding plan_ends_def
  proof (elim disjE exE conjE)
    fix n assume "r = Inl (Db_error n)"
    then show ?thesis unfolding run prod.case Let_def q by simp
  next
    fix k a assume "r = Inl (Butler_error k)" "audited s a s1" "ba_status a = BA_rejected" "ba_rejection a = Some k"
        "ba_requester a = uid" "ba_query a = query"
    then show ?thesis unfolding run prod.case Let_def q by (simp add: audited_def same_asks_def)
  next
    fix exc assume r: "r = Inl (Evidence_error exc)"
    show ?thesis
      using plan_evidence_error [OF run [unfolded r]] unfolding run prod.case Let_def r by (simp add: commit_plan_def)
  next
    fix a p assume r: "r = Inr a" and st: "stored cfg now uid s a p s1" and query: "ba_query a = query"
    from st obtain c cs where cs: "b_confs s1 = b_confs s @ c # cs" "bc_confirmer c = uid" "bc_role c = Role_requester"
        "asks (ba_id a) (now + set_confirmation_ttl cfg) c" "map bc_confirmer cs = affected_users uid p"
        "list_all (asks (ba_id a) (now + set_confirmation_ttl cfg)) cs" "list_all (\<lambda>c. bc_role c = Role_affected_user) cs"
      by (auto simp: stored_def)
    have row: "b_actions s1 = b_actions s @ [a]" "ba_requester a = uid" "ba_status a = BA_pending_confirmation"
      "ba_expires a = Some (now + set_plan_ttl cfg)" "ba_plan a = Some p" using st by (simp_all add: stored_def)
    have "\<exists>p cs. ba_plan a = Some p \<and> b_confs s1 = b_confs s @ cs \<and> map bc_confirmer cs = uid # affected_users uid p \<and>
            map bc_role cs = Role_requester # replicate (length (affected_users uid p)) Role_affected_user \<and>
            list_all (asks (ba_id a) (now + set_confirmation_ttl cfg)) cs"
      using cs row(5) roles [OF cs(7,5)] by (intro exI [of _ p] exI [of _ "c # cs"]) simp
    then show ?thesis unfolding run prod.case Let_def q using r query row by simp
  qed
qed

subsection \<open>Rate limits\<close>

text \<open>
  C11. The rate limits hold: in every reachable state, of the plans a user has ever had stored, at most
  the daily ceiling were made on any one Moscow day, and at most the hourly ceiling with any one tool in
  any one Moscow hour; and at most the chat ceiling were made in any one chat on any one day.
\<close>

theorem rate_limits_hold:
  assumes "breach cfg s"
  shows "int (length (filter (\<lambda>a. ba_requester a = uid \<and>
        (\<exists>t. ba_expires a = Some (t + set_plan_ttl cfg) \<and> msk_day t = d)) (b_actions s))) \<le> max 0 (set_user_plans cfg) \<and>
    int (length (filter (\<lambda>a. ba_chat a = chat \<and>
        (\<exists>t. ba_expires a = Some (t + set_plan_ttl cfg) \<and> msk_day t = d)) (b_actions s))) \<le> max 0 (set_chat_actions cfg) \<and>
    int (length (filter (\<lambda>a. ba_requester a = uid \<and> ba_tool a = tool \<and>
        (\<exists>t. ba_expires a = Some (t + set_plan_ttl cfg) \<and> msk_hour t = h)) (b_actions s))) \<le> max 0 (set_tool_hour cfg)"
proof -
  have inv: "rate_inv cfg s" by (rule breach_rate_inv [OF assms])
  have bound: "counted cfg s k \<le> max 0 (ceiling_of cfg (fst k))" for k
    using inv count_bounds [of cfg s k] unfolding rate_inv_def by (meson order_trans)
  have ex: "(\<exists>t. ba_expires a = Some (t + ttl) \<and> P t) \<longleftrightarrow> (\<exists>e. ba_expires a = Some e \<and> P (e - ttl))" for a P ttl
    by (metis add_diff_cancel diff_add_cancel)
  have k1: "(ba_requester a = uid \<and> (\<exists>t. ba_expires a = Some (t + set_plan_ttl cfg) \<and> msk_day t = d)) =
      ((''user_plans_day'', uid, Day_key d) \<in> set (uses cfg a))" for a
    unfolding ex by (cases "ba_expires a") (auto simp: uses_def)
  have k2: "(ba_chat a = chat \<and> (\<exists>t. ba_expires a = Some (t + set_plan_ttl cfg) \<and> msk_day t = d)) =
      ((''chat_actions_day'', chat, Day_key d) \<in> set (uses cfg a))" for a
    unfolding ex by (cases "ba_expires a") (auto simp: uses_def)
  have k3: "(ba_requester a = uid \<and> ba_tool a = tool \<and> (\<exists>t. ba_expires a = Some (t + set_plan_ttl cfg) \<and> msk_hour t = h)) =
      ((''tool_hour:'' @ tool, uid, Hour_key h) \<in> set (uses cfg a))" for a
    unfolding ex by (cases "ba_expires a") (auto simp: uses_def)
  have 1: "int (length (filter (\<lambda>a. ba_requester a = uid \<and>
        (\<exists>t. ba_expires a = Some (t + set_plan_ttl cfg) \<and> msk_day t = d)) (b_actions s))) \<le> max 0 (set_user_plans cfg)"
    using bound [of "(''user_plans_day'', uid, Day_key d)"] unfolding k1 by (simp add: counted_def ceiling_of_def)
  have 2: "int (length (filter (\<lambda>a. ba_chat a = chat \<and>
        (\<exists>t. ba_expires a = Some (t + set_plan_ttl cfg) \<and> msk_day t = d)) (b_actions s))) \<le> max 0 (set_chat_actions cfg)"
    using bound [of "(''chat_actions_day'', chat, Day_key d)"] unfolding k2 by (simp add: counted_def ceiling_of_def)
  have 3: "int (length (filter (\<lambda>a. ba_requester a = uid \<and> ba_tool a = tool \<and>
        (\<exists>t. ba_expires a = Some (t + set_plan_ttl cfg) \<and> msk_hour t = h)) (b_actions s))) \<le> max 0 (set_tool_hour cfg)"
    using bound [of "(''tool_hour:'' @ tool, uid, Hour_key h)"] unfolding k3 by (simp add: counted_def ceiling_of_def)
  show ?thesis by (intro conjI 1 2 3)
qed

theorem rate_limits_hold_witness:
  "int (length (filter (\<lambda>a. ba_requester a = 1 \<and>
        (\<exists>t. ba_expires a = Some (t + 900) \<and> msk_day t = 0)) (b_actions demo_b4))) \<le> 10"
  using conjunct1 [OF rate_limits_hold [OF demo_breach(4), of 1 0]] by (simp add: default_settings_def)

text \<open>
  The windows are exact: a moment lies in the day or hour window written to a bucket exactly when it
  has that bucket's key, the day window lasts 86400 seconds, the hour window 3600, and both start on a
  full Moscow day or hour.
\<close>

theorem windows_exact:
  "(fst (msk_day_window t) \<le> u \<and> u < snd (msk_day_window t)) = (msk_day u = msk_day t) \<and>
   (fst (msk_hour_window t) \<le> u \<and> u < snd (msk_hour_window t)) = (msk_hour u = msk_hour t) \<and>
   snd (msk_day_window t) - fst (msk_day_window t) = 86400 \<and> snd (msk_hour_window t) - fst (msk_hour_window t) = 3600 \<and>
   (fst (msk_day_window t) + 3 * 3600) mod 86400 = 0 \<and> (fst (msk_hour_window t) + 3 * 3600) mod 3600 = 0"
  using msk_day_window_iff [of t _ _ u] msk_hour_window_iff [of t _ _ u]
  by (auto simp: msk_day_window_def msk_hour_window_def Let_def)

subsection \<open>Answering\<close>

lemma confirm_committed:
  assumes "confirm_ends env now aid uid token s r s'" "leaves outside m" "m s = (r, s')"
  shows "commitB s (m s) = s \<or> (commitB s (m s) = s' \<and> \<not> (\<exists>n. r = Inl (Db_error n) \<or> r = Inl (Evidence_error n)))"
  using commit_quiet [OF assms(2,3)] assms(3) by auto

lemma marked_answer:
  assumes inv: "butler_inv s" and m: "marked (bc_id k) st s s'" and k: "k \<in> set (b_confs s)"
    and c: "c \<in> set (b_confs s)" "d \<in> set (b_confs s')" "bc_id d = bc_id c" "bc_status d \<noteq> bc_status c"
  shows "c = k \<and> bc_status d = st"
proof -
  from m obtain g where g: "\<forall>c. bc_id (g c) = bc_id c \<and> bc_status (g c) = st" "b_confs s' = update_where (\<lambda>c. bc_id c = bc_id k) g (b_confs s)"
    by (auto simp: marked_def)
  have uniq: "x = y" if "x \<in> set (b_confs s)" "y \<in> set (b_confs s)" "bc_id x = bc_id y" for x y
    using inv_ids(2) [OF inv] that by (auto simp: ids_below_def distinct_map inj_on_def)
  from c(2) obtain e where e: "e \<in> set (b_confs s)" "d = (if bc_id e = bc_id k then g e else e)" by (auto simp: g(2) set_update_where)
  then have "bc_id e = bc_id c" using c(3) g(1) by (auto split: if_splits)
  with e(1) c(1) have "e = c" by (rule uniq)
  with e(2) c(4) g(1) uniq [OF c(1) k] show ?thesis by (auto split: if_splits)
qed

text \<open>
  C15. Nobody answers for another: a confirmation changes the status of no question but an open one - not
  one that was answered, revoked or cancelled - of the caller for this action, presented with its own
  token before its deadline, and sets it to confirmed.
\<close>

theorem confirm_own_answer:
  assumes "breach cfg s" "c \<in> set (b_confs s)" "d \<in> set (b_confs (commitB s (confirm_action env now aid uid token s)))"
    "bc_id d = bc_id c" "bc_status d \<noteq> bc_status c"
  shows "bc_status c = C_pending \<and> bc_action c = aid \<and> bc_confirmer c = uid \<and> bc_token c = token \<and>
    now < bc_expires c \<and> bc_status d = C_confirmed"
proof -
  have inv: "butler_inv s" by (rule breach_inv [OF assms(1)])
  obtain r s' where run: "confirm_action env now aid uid token s = (r, s')" by fastforce
  note ends = confirm_action_ends [OF run]
  have quiet: False if "b_confs s1 = b_confs s" "d \<in> set (b_confs s1)" for s1
  proof -
    have "d = c" using that assms(2,4) inv_ids(2) [OF inv] by (auto simp: ids_below_def distinct_map inj_on_def)
    with assms(5) show False by simp
  qed
  from confirm_committed [OF ends outside_confirm run] show ?thesis
  proof (elim disjE conjE)
    assume "commitB s (confirm_action env now aid uid token s) = s"
    with assms(3) quiet show ?thesis by auto
  next
    assume s': "commitB s (confirm_action env now aid uid token s) = s'" and "\<not> (\<exists>n. r = Inl (Db_error n) \<or> r = Inl (Evidence_error n))"
    with ends consider "b_confs s' = b_confs s"
      | k where "k \<in> set (b_confs s)" "bc_action k = aid" "bc_confirmer k = uid" "bc_token k = token" "now < bc_expires k"
          "bc_status k \<noteq> C_confirmed" "marked (bc_id k) C_confirmed s s'"
          "\<exists>a. action_get s aid = Some a \<and> ba_status a = BA_pending_confirmation"
      unfolding confirm_ends_def same_asks_def by blast
    then show ?thesis
    proof cases
      case 1
      with assms(3) quiet s' show ?thesis by auto
    next
      case (2 k)
      from 2(8) obtain a where a: "action_get s aid = Some a" "ba_status a = BA_pending_confirmation" by blast
      then have "open_answers s aid" using inv_sound [OF inv] action_get_id [OF a(1)] by (auto simp: sound_action_def)
      with 2(1,2,6) have "bc_status k = C_pending" by (auto simp: open_answers_def)
      with 2 marked_answer [OF inv 2(7,1) assms(2) _ assms(4,5)] assms(3) s' show ?thesis by simp
    qed
  qed
qed

theorem confirm_own_answer_witness:
  "\<exists>c \<in> set (b_confs demo_b1). bc_confirmer c = 1 \<and> bc_token c = ''1'' \<and> 1010 < bc_expires c"
proof -
  obtain c c2 where c: "b_confs demo_b1 = [c, c2]" "bc_id c = 1" "bc_status c = C_pending"
    using demo_rows(4,5) by (auto simp: map_eq_Cons_conv)
  obtain d d2 where d: "b_confs demo_b2 = [d, d2]" "bc_id d = 1" "bc_status d = C_confirmed"
    using demo_rows(6,7) by (auto simp: map_eq_Cons_conv)
  from confirm_own_answer [OF demo_breach(1), of c d demo_env 1010 1 1 "''1''"] c d
  show ?thesis by (simp add: demo_b2_def [symmetric])
qed

text \<open>
  C16. What becomes confirmed is complete and fresh: a confirmation moves an action to the status confirmed
  only when it is the action it names, pending and before its deadline, every question about it is then
  answered with yes, and the evidence rebuilt for its requester, query, chat and scope still has the hash
  the plan was made from.
\<close>

theorem confirmed_is_fresh:
  assumes "breach cfg s" "a \<in> set (b_actions s)" "b \<in> set (b_actions (commitB s (confirm_action env now aid uid token s)))"
    "ba_id b = ba_id a" "ba_status b = BA_confirmed" "ba_status a \<noteq> BA_confirmed"
  shows "ba_id a = aid \<and> ba_status a = BA_pending_confirmation \<and> (\<forall>t. ba_expires a = Some t \<longrightarrow> now < t) \<and>
    all_confirmed (commitB s (confirm_action env now aid uid token s)) aid \<and>
    (\<exists>ctx. env_evidence env (ba_requester a) (ba_query a) (if ba_chat a = 0 then None else Some (ba_chat a)) (ba_scope a) = Inr ctx \<and>
       ev_hash ctx = ba_hash a)"
proof -
  have inv: "butler_inv s" by (rule breach_inv [OF assms(1)])
  obtain r s' where run: "confirm_action env now aid uid token s = (r, s')" by fastforce
  note ends = confirm_action_ends [OF run]
  have uniq: "x = y" if "x \<in> set (b_actions s)" "y \<in> set (b_actions s)" "ba_id x = ba_id y" for x y
    using inv_ids(1) [OF inv] that by (auto simp: ids_below_def distinct_map inj_on_def)
  have quiet: False if "b \<in> set (b_actions s)" using uniq [OF that assms(2)] assms(4-6) by auto
  have other: "st = BA_confirmed \<and> ba_id a = aid" if m: "moved aid st s s'" "b \<in> set (b_actions s')" for st
  proof -
    from m(1) obtain g where g: "\<forall>a. same_row a (g a) \<and> ba_status (g a) = st" "b_actions s' = update_where (\<lambda>a. ba_id a = aid) g (b_actions s)"
      by (auto simp: moved_def)
    from m(2) obtain e where e: "e \<in> set (b_actions s)" "b = (if ba_id e = aid then g e else e)" by (auto simp: g(2) set_update_where)
    moreover have "ba_id (g e) = ba_id e" "ba_status (g e) = st" using g(1) by (auto simp: same_row_def)
    ultimately show ?thesis using quiet assms(4,5) by (cases "ba_id e = aid") auto
  qed
  from confirm_committed [OF ends outside_confirm run] show ?thesis
  proof (elim disjE conjE)
    assume "commitB s (confirm_action env now aid uid token s) = s"
    with assms(3) quiet show ?thesis by auto
  next
    assume s': "commitB s (confirm_action env now aid uid token s) = s'" and "\<not> (\<exists>n. r = Inl (Db_error n) \<or> r = Inl (Evidence_error n))"
    with ends consider "b_actions s' = b_actions s" | st where "moved aid st s s'" "st \<noteq> BA_confirmed"
      | x where "action_get s aid = Some x" "ba_status x = BA_pending_confirmation" "\<forall>t. ba_expires x = Some t \<longrightarrow> now < t"
          "all_confirmed s' aid" "moved aid BA_confirmed s s'"
          "\<exists>ctx. env_evidence env (ba_requester x) (ba_query x) (if ba_chat x = 0 then None else Some (ba_chat x)) (ba_scope x) = Inr ctx \<and>
             ev_hash ctx = ba_hash x"
      unfolding confirm_ends_def same_acts_def by blast
    then show ?thesis
    proof cases
      case 1
      with assms(3) quiet s' show ?thesis by simp
    next
      case (2 st)
      with other [OF 2(1)] assms(3) s' show ?thesis by simp
    next
      case (3 x)
      have "ba_id a = aid" using other [OF 3(5)] assms(3) s' by simp
      then have x: "x = a" using action_get_id [OF 3(1)] uniq assms(2) by metis
      show ?thesis using 3 [unfolded x] s' \<open>ba_id a = aid\<close> by blast
    qed
  qed
qed

theorem confirmed_is_fresh_witness:
  "\<exists>a \<in> set (b_actions demo_b2). ba_status a = BA_pending_confirmation \<and> ba_hash a = ''h'' \<and> all_confirmed demo_b3 1"
proof -
  obtain a where a: "b_actions demo_b2 = [a]" "ba_status a \<noteq> BA_confirmed" "ba_id a = 1" "ba_hash a = ''h''"
    using demo_b2_row by (cases "b_actions demo_b2") auto
  obtain b where b: "b_actions demo_b3 = [b]" "ba_status b = BA_confirmed" "ba_id b = 1"
    using demo_b3_row by (cases "b_actions demo_b3") auto
  from confirmed_is_fresh [OF demo_breach(2), of a b demo_env 1020 1 2 "''2''"] a b
  show ?thesis by (simp add: demo_b3_def [symmetric])
qed

subsection \<open>Undoing\<close>

lemma lifo_sorted: "sorted_wrt (\<lambda>i j. bi_seq j \<le> bi_seq i) (lifo is)"
proof -
  have "sorted (map (\<lambda>i. - int (bi_seq i)) (lifo is))" by (simp add: lifo_def)
  then show ?thesis by (simp add: sorted_map)
qed

text \<open>
  C33. Undo is last in, first out, and never repeats: the calls it makes to the bot are all for the named
  action, at most one per tool invocation, none for an invocation whose undo row was already settled, and
  in descending order of the steps; when it succeeds every invocation of the action has an undo row with
  an outcome, and a settled row is the one it was.
\<close>

theorem undo_lifo:
  assumes "breach cfg s" "execute_undo env cfg now aid uid s = (r, s')"
  shows "sorted_wrt (\<lambda>i j. bi_seq j \<le> bi_seq i) (lifo (invs_of s aid)) \<and>
    (\<exists>cs. undo_calls s' = undo_calls s @ cs \<and> (\<forall>c \<in> set cs. fst c = aid) \<and>
      subseq (map (fst \<circ> snd) cs) (map bi_id (filter (\<lambda>i. \<not> is_settled s aid (bi_id i)) (lifo (invs_of s aid))))) \<and>
    (is_ok r \<longrightarrow> (\<forall>i \<in> set (invs_of s aid). \<exists>u. undo_find s' aid (bi_id i) = Some u \<and> bu_status u \<noteq> U_pending \<and>
      (is_settled s aid (bi_id i) \<longrightarrow> undo_find s aid (bi_id i) = Some u)))"
proof -
  have inv: "butler_inv s" by (rule breach_inv [OF assms(1)])
  have none: "\<exists>cs. undo_calls s = undo_calls s @ cs \<and> (\<forall>c \<in> set cs. fst c = aid) \<and>
      subseq (map (fst \<circ> snd) cs) (map bi_id (filter (\<lambda>i. \<not> is_settled s aid (bi_id i)) (lifo (invs_of s aid))))"
    by (rule exI [of _ "[]"]) simp
  from execute_undo_ends [OF assms(2) inv_ids(4,3) [OF inv]] show ?thesis
    unfolding undo_ends_def
  proof (elim disjE exE conjE)
    fix k assume "s' = s" "r = Inl (Butler_error k)"
    with none lifo_sorted show ?thesis by simp
  next
    assume s': "s' = s" and all: "all_settled s aid (invs_of s aid)"
    have "\<exists>u. undo_find s aid (bi_id i) = Some u \<and> bu_status u \<noteq> U_pending" if "i \<in> set (invs_of s aid)" for i
      using all that by (fastforce simp: all_settled_def list_all_iff undo_settled_def split: option.splits)
    with none lifo_sorted s' show ?thesis by auto
  next
    fix cs n assume cs: "undo_calls s' = undo_calls s @ cs" "undoes_along s aid (lifo (invs_of s aid)) cs" and "r = Inl (Db_error n)"
    with lifo_sorted show ?thesis unfolding undoes_along_def by auto
  next
    fix cs assume "undo_calls s' = undo_calls s @ cs" "undoes_along s aid (lifo (invs_of s aid)) cs"
      "\<forall>i \<in> set (invs_of s aid). \<exists>u. undo_find s' aid (bi_id i) = Some u \<and> bu_status u \<noteq> U_pending \<and>
              (is_settled s aid (bi_id i) \<longrightarrow> undo_find s aid (bi_id i) = Some u)"
    with lifo_sorted show ?thesis unfolding undoes_along_def by blast
  qed
qed

theorem undo_lifo_witness:
  "\<exists>i \<in> set (invs_of demo_b4 1). \<exists>u. undo_find (snd (execute_undo demo_env default_settings 1040 1 1 demo_b4)) 1 (bi_id i) = Some u \<and>
     bu_status u \<noteq> U_pending"
proof -
  have "hd (invs_of demo_b4 1) \<in> set (invs_of demo_b4 1)" using demo_invocations by (cases "invs_of demo_b4 1") auto
  then show ?thesis
    using undo_lifo [OF demo_breach(4) prod.collapse [symmetric], where env = demo_env and now = 1040 and aid = 1 and uid = 1]
      demo_results(2) by blast
qed

subsection \<open>Executing\<close>

text \<open>
  C34. An execution that is committed leaves its record: the new invocation rows are those of a prefix of
  the plan, numbered from 1, each with its step's tool; if the action succeeded the prefix is the whole
  plan and every row succeeded, and if it failed the last row failed and all before it succeeded.
\<close>

theorem execution_recorded:
  assumes "breach cfg s" "execute_action env cfg now aid s = (Inr b, s')"
  shows "\<exists>a p is. action_get s aid = Some a \<and> ba_status a = BA_confirmed \<and> ba_plan a = Some p \<and> b_invs s' = b_invs s @ is \<and>
    map bi_seq is = [1..<Suc (length is)] \<and> map bi_tool is = map st_tool (take (length is) (bp_actions p)) \<and>
    (\<forall>i \<in> set is. bi_action i = aid) \<and>
    (\<exists>c. action_get s' aid = Some c \<and>
      ((ba_status c = BA_succeeded \<and> length is = length (bp_actions p) \<and> (\<forall>i \<in> set is. bi_status i = I_succeeded)) \<or>
       (ba_status c = BA_execution_failed \<and> is \<noteq> [] \<and> bi_status (last is) = I_failed \<and>
        (\<forall>i \<in> set (butlast is). bi_status i = I_succeeded))))"
proof -
  have inv: "butler_inv s" by (rule breach_inv [OF assms(1)])
  from execute_action_ends [OF assms(2) inv_ids(3) [OF inv]]
  obtain a p where a: "action_get s aid = Some a" "ba_status a = BA_confirmed" "ba_plan a = Some p" and ran: "ran aid p s s'"
    by (auto simp: execute_ends_def)
  from ran obtain "is" where rows: "b_invs s' = b_invs s @ is" "rows_along aid 1 (bp_actions p) is"
    and out: "(moved aid BA_succeeded s s' \<and> length is = length (bp_actions p) \<and> list_all (\<lambda>i. bi_status i = I_succeeded) is) \<or>
        (moved aid BA_execution_failed s s' \<and> is \<noteq> [] \<and> bi_status (last is) = I_failed \<and>
         list_all (\<lambda>i. bi_status i = I_succeeded) (butlast is))"
    by (auto simp: ran_def)
  let ?q = "take (length is) (enumerate 1 (bp_actions p))"
  from rows(2) have len: "length is \<le> length (bp_actions p)" and rel: "list_all2 (row_of aid) is ?q" by (simp_all add: rows_along_def)
  from rel have "map bi_seq is = map fst ?q" "map bi_tool is = map (st_tool \<circ> snd) ?q" "\<forall>i \<in> set is. bi_action i = aid"
    by (induction rule: list_all2_induct) (auto simp: row_of_def)
  moreover have "map fst ?q = [1..<Suc (length is)]"
    using len by (simp add: take_map [symmetric] del: upt_Suc)
  moreover have "map (st_tool \<circ> snd) ?q = map st_tool (take (length is) (bp_actions p))"
    using map_map [of st_tool snd ?q] by (simp add: take_map [symmetric])
  ultimately have rec: "map bi_seq is = [1..<Suc (length is)]" "map bi_tool is = map st_tool (take (length is) (bp_actions p))"
    "\<forall>i \<in> set is. bi_action i = aid" by simp_all
  have "\<exists>c. action_get s' aid = Some c \<and>
      ((ba_status c = BA_succeeded \<and> length is = length (bp_actions p) \<and> (\<forall>i \<in> set is. bi_status i = I_succeeded)) \<or>
       (ba_status c = BA_execution_failed \<and> is \<noteq> [] \<and> bi_status (last is) = I_failed \<and>
        (\<forall>i \<in> set (butlast is). bi_status i = I_succeeded)))"
    using out moved_get [OF _ a(1), of BA_succeeded] moved_get [OF _ a(1), of BA_execution_failed]
    unfolding list_all_iff by metis
  with a rows(1) rec show ?thesis by blast
qed

theorem execution_recorded_witness:
  "\<exists>a p. \<exists>is :: invocation list. action_get demo_b3 1 = Some a \<and> ba_plan a = Some p \<and>
     map bi_tool is = map st_tool (take (length is) (bp_actions p)) \<and> map bi_seq is = [1..<Suc (length is)]"
proof -
  obtain b where "execute_action demo_env default_settings 1030 1 demo_b3 = (Inr b, snd (execute_action demo_env default_settings 1030 1 demo_b3))"
    using demo_results(1) by (cases "execute_action demo_env default_settings 1030 1 demo_b3") (auto simp: is_ok_iff)
  from execution_recorded [OF demo_breach(3) this] show ?thesis by blast
qed

subsection \<open>Expiring\<close>

text \<open>
  The expiry job is exact: it expires precisely the unlocked rows of its batch, the at most 200 most
  overdue pending actions, returns their number, and changes no other row; when the backlog fits the batch
  and nothing is locked, no overdue pending action is left.
\<close>

theorem expiry_exact:
  assumes "breach cfg s" "butler_expire_tick env now s = (n, s')"
  shows "n = length (filter (\<lambda>a. \<not> env_locked env (ba_id a)) (get_pending_past_ttl s now 200)) \<and>
    b_actions s' = map (\<lambda>a. if a \<in> set (get_pending_past_ttl s now 200) \<and> \<not> env_locked env (ba_id a) then expire_row a else a) (b_actions s) \<and>
    (length (filter (overdue now) (b_actions s)) \<le> 200 \<longrightarrow> (\<forall>i. \<not> env_locked env i) \<longrightarrow> \<not> list_ex (overdue now) (b_actions s'))"
proof -
  have inv: "butler_inv s" by (rule breach_inv [OF assms(1)])
  let ?batch = "get_pending_past_ttl s now 200"
  have uniq: "x = y" if "x \<in> set (b_actions s)" "y \<in> set (b_actions s)" "ba_id x = ba_id y" for x y
    using inv_ids(1) [OF inv] that by (auto simp: ids_below_def distinct_map inj_on_def)
  have mem: "(ba_id a \<in> ba_id ` set ?batch) = (a \<in> set ?batch)" if "a \<in> set (b_actions s)" for a
  proof
    assume "ba_id a \<in> ba_id ` set ?batch"
    then obtain b where b: "b \<in> set ?batch" "ba_id a = ba_id b" by auto
    then have "a = b" using batch_pending [OF b(1)] uniq [OF that] by blast
    with b show "a \<in> set ?batch" by simp
  qed simp
  have t: "butler_expire_tick env now s = (length (filter (\<lambda>a. \<not> env_locked env (ba_id a)) ?batch),
      s\<lparr>b_actions := update_where (\<lambda>a. ba_id a \<in> ba_id ` set ?batch \<and> \<not> env_locked env (ba_id a)) expire_row (b_actions s)\<rparr>)"
    using expire_tick_result [of s env now] inv
    by (simp add: butler_inv_def ids_below_def sound_action_def Let_def butler_expire_batch_size_def)
  have rows: "b_actions s' = map (\<lambda>a. if a \<in> set ?batch \<and> \<not> env_locked env (ba_id a) then expire_row a else a) (b_actions s)"
    using t assms(2) mem by (auto simp: update_where_def)
  have pred: "(\<lambda>a. ba_status a = BA_pending_confirmation \<and> (case ba_expires a of None \<Rightarrow> False | Some t \<Rightarrow> t \<le> now)) = overdue now"
    by (auto simp: overdue_def fun_eq_iff split: option.splits)
  have "\<not> list_ex (overdue now) (b_actions s')"
    if "length (filter (overdue now) (b_actions s)) \<le> 200" "\<forall>i. \<not> env_locked env i"
  proof -
    have "set ?batch = {a \<in> set (b_actions s). overdue now a}"
      using that(1) by (simp add: get_pending_past_ttl_def pred)
    then show ?thesis using that(2) unfolding rows by (auto simp: list_ex_iff overdue_def)
  qed
  then have left: "length (filter (overdue now) (b_actions s)) \<le> 200 \<longrightarrow> (\<forall>i. \<not> env_locked env i) \<longrightarrow> \<not> list_ex (overdue now) (b_actions s')"
    by blast
  have n: "n = length (filter (\<lambda>a. \<not> env_locked env (ba_id a)) ?batch)" using t assms(2) by simp
  show ?thesis by (intro conjI n rows left)
qed

theorem expiry_exact_witness:
  "b_actions demo_late = map (\<lambda>a. if a \<in> set (get_pending_past_ttl demo_b1 5000 200) then expire_row a else a) (b_actions demo_b1)"
proof -
  have unlocked: "env_locked demo_env i = False" for i by (simp add: demo_env_def)
  show ?thesis
    using expiry_exact [OF demo_breach(1) prod.collapse [symmetric], where env = demo_env and now = 5000] by (simp add: unlocked demo_late_def)
qed

text \<open>
  The scheduler's copy is the service's transition: on every state, action and clock, locked or
  missing rows included, \<open>_expire_action_inline\<close> returns and writes what \<open>ButlerService.expire_action\<close>
  does.
\<close>

theorem expire_copies_agree:
  "expire_action_inline env now aid s = expire_action env now aid s"
  by (rule expire_action_eq_inline [symmetric])

subsection \<open>A reversible action without an inverse\<close>

definition inverse_cols :: "bdb \<Rightarrow> (int \<times> json option \<times> rollback_kind) list" where
  "inverse_cols s = map (\<lambda>a. (ba_id a, ba_inverse a, ba_rollback a)) (b_actions s)"

lemma inverse_cols_rows [leaves]:
  "leaves inverse_cols (inv_create i tn q ky j h)" "leaves inverse_cols (inv_update i gi)" "leaves inverse_cols (call_tool i q tn)"
  "leaves inverse_cols (lock_action env i)" "leaves inverse_cols (try_increment k sc bk w ce)"
  by (auto simp: leaves_def inverse_cols_def inv_create_def inv_update_def call_tool_def modifyB_def lock_action_def
      try_increment_def Let_def split: option.split)

lemma inverse_cols_update:
  "(\<And>a. ba_id (f a) = ba_id a \<and> ba_inverse (f a) = ba_inverse a \<and> ba_rollback (f a) = ba_rollback a) \<Longrightarrow>
   leaves inverse_cols (action_update_status i st f)"
  by (simp add: leaves_def inverse_cols_def action_update_status_def map_update_where split: option.split)

lemma inverse_cols_updates [leaves]:
  "leaves inverse_cols (action_update_status i st (reject_reason x))" "leaves inverse_cols (action_update_status i st (\<lambda>a. a))"
  "leaves inverse_cols (action_update_status i st (\<lambda>a. a\<lparr>ba_executed_at := y\<rparr>))"
  "leaves inverse_cols (action_update_status i st (\<lambda>a. a\<lparr>ba_error := e, ba_executed_at := y\<rparr>))"
  by (rule inverse_cols_update, simp add: reject_reason_def)+

lemma inverse_cols_execute:
  assumes bare: "\<And>name tool payload. env_tools env name = Some tool \<Longrightarrow> tool_inverse tool payload = None"
  shows "leaves inverse_cols (execute_action env cfg now aid)"
proof -
  have fail: "leaves inverse_cols (fail_step now iid a e resp)" for iid a e resp
    unfolding fail_step_def by (auto intro!: leaves)
  have succ: "leaves inverse_cols (succeed_step env now iid a name payload)" for iid a name payload
    unfolding succeed_step_def using bare by (auto intro!: leaves split: option.split)
  have "leaves inverse_cols (run_steps env now a seq sts)" for a seq sts
    by (induction sts arbitrary: seq) (auto simp: Let_def intro!: leaves fail succ split: option.split tool_outcome.split)
  then show ?thesis
    unfolding execute_action_def by (auto intro!: leaves split: option.split simp del: bindB_get)
qed

text \<open>An execution of a confirmed action passes its checks and starts, in the state \<open>s1\<close>.\<close>

definition execution_starts ::
  "butler_env \<Rightarrow> butler_settings \<Rightarrow> int \<Rightarrow> bdb \<Rightarrow> butler_action \<Rightarrow> bdb \<Rightarrow> bool" where
  "execution_starts env cfg now s a s1 \<longleftrightarrow>
     \<not> env_locked env (ba_id a) \<and> ba_status a = BA_confirmed \<and> \<not> missing_consent s (ba_id a) \<and>
     (\<exists>s0. try_increment ''user_execs_day'' (ba_requester a) (Day_key (msk_day now)) (msk_day_window now)
              (set_user_execs cfg) s = (Inr True, s0) \<and>
        action_update_status (ba_id a) BA_executing (\<lambda>a. a) s0 = (Inr (), s1))"

text \<open>The calls of a run that gets through all steps: one for each step with a registered tool, in order.\<close>

definition plan_calls :: "butler_env \<Rightarrow> int \<Rightarrow> nat \<Rightarrow> plan_step list \<Rightarrow> tool_call list" where
  "plan_calls env aid seq sts =
     map (\<lambda>(i, st). \<lparr>tc_action = aid, tc_seq = i, tc_tool = st_tool st\<rparr>)
       (filter (\<lambda>(i, st). env_tools env (st_tool st) \<noteq> None) (enumerate seq sts))"

lemma calls_rows [leaves]:
  "leaves tool_calls (inv_create i tn q ky j h)" "leaves tool_calls (inv_update i gi)"
  "leaves tool_calls (action_update_status i st f)" "leaves tool_calls (try_increment k sc bk w ce)"
  by (auto simp: leaves_def inv_create_def inv_update_def action_update_status_def try_increment_def Let_def split: option.split)

lemma calls_succeed [leaves]: "leaves tool_calls (succeed_step env now iid a name payload)"
  unfolding succeed_step_def by (auto intro!: leaves split: option.split)

lemma run_steps_calls:
  "run_steps env now a seq sts s = (Inr None, s') \<Longrightarrow> tool_calls s' = tool_calls s @ plan_calls env (ba_id a) seq sts"
proof (induction sts arbitrary: seq s)
  case Nil
  then show ?case by (simp add: returnB_def plan_calls_def)
next
  case (Cons st sts)
  let ?name = "st_tool st"
  have failed: "bindB (fail_step now iid a e resp) (\<lambda>r. returnB (Some r)) t \<noteq> (Inr None, s')" for iid e resp t
    by (auto simp: bindB_def returnB_def split: prod.split sum.split)
  from Cons.prems obtain iid s1 where create: "inv_create (ba_id a) ?name seq (idempotency_key (ba_id a) ?name seq) (st_args st)
        (env_hash env (J_obj [(''args'', st_args st)])) s = (Inr iid, s1)"
    and rest: "(case env_tools env ?name of
        None \<Rightarrow> bindB (succeed_step env now iid a ?name (J_obj [])) (\<lambda>_. run_steps env now a (Suc seq) sts)
      | Some tool \<Rightarrow>
          bindB (build_evidence env (ba_requester a) (ba_query a) (Some (ba_chat a)) (ba_scope a)) (\<lambda>ctx.
          if \<not> env_args_ok env ?name (st_args st) then (\<lambda>s. (Inl (Plan_error ''invalid_args''), s))
          else bindB (call_tool (ba_id a) seq ?name) (\<lambda>_.
          case tool_run tool ctx seq (st_args st) of
            Tool_raises err \<Rightarrow> bindB (fail_step now iid a (take 200 err) None) (\<lambda>r. returnB (Some r))
          | Tool_result ok payload err \<Rightarrow>
              if \<not> ok
              then let e = (case err of None \<Rightarrow> cp ''tool_execution_failed''
                            | Some e \<Rightarrow> if e = [] then cp ''tool_execution_failed'' else e)
                   in bindB (fail_step now iid a e (Some (J_obj [(''error'', J_str e)]))) (\<lambda>r. returnB (Some r))
              else bindB (succeed_step env now iid a ?name payload) (\<lambda>_. run_steps env now a (Suc seq) sts)))) s1 = (Inr None, s')"
    by (auto simp: Let_def bindB_result [of "inv_create _ _ _ _ _ _"])
  note t1 = leaves_run [OF calls_rows(1) create]
  show ?case
  proof (cases "env_tools env ?name")
    case None
    with rest obtain x s2 where s2: "succeed_step env now iid a ?name (J_obj []) s1 = (Inr x, s2)"
      and run: "run_steps env now a (Suc seq) sts s2 = (Inr None, s')"
      by (auto simp: bindB_result)
    with Cons.IH [OF run] leaves_run [OF calls_succeed s2] t1 None show ?thesis by (simp add: plan_calls_def)
  next
    case (Some tool)
    with rest obtain ctx payload err x s2 where
        s2: "succeed_step env now iid a ?name payload (s1\<lparr>tool_calls := tool_calls s1 @ [\<lparr>tc_action = ba_id a, tc_seq = seq, tc_tool = ?name\<rparr>]\<rparr>) = (Inr x, s2)"
      and run: "run_steps env now a (Suc seq) sts s2 = (Inr None, s')"
      by (auto simp: bindB_result [of "build_evidence _ _ _ _ _"] build_evidence_def call_tool_def failed Let_def
          bindB_result [of "succeed_step _ _ _ _ _ _"] split: if_splits sum.splits tool_outcome.splits option.splits)
    with Cons.IH [OF run] leaves_run [OF calls_succeed s2] t1 Some show ?thesis by (simp add: plan_calls_def)
  qed
qed

lemma undone_rows [leaves]:
  "leaves undo_calls (inv_create i tn q ky j h)" "leaves undo_calls (inv_update i gi)"
  "leaves undo_calls (action_update_status i st f)" "leaves undo_calls (try_increment k sc bk w ce)"
  "leaves undo_calls (call_tool i q tn)"
  by (auto simp: leaves_def inv_create_def inv_update_def action_update_status_def try_increment_def call_tool_def modifyB_def
      Let_def split: option.split)

lemma undone_steps [leaves]:
  "leaves undo_calls (fail_step now iid a e resp)" "leaves undo_calls (succeed_step env now iid a name payload)"
  unfolding fail_step_def succeed_step_def by (auto intro!: leaves split: option.split)

lemma undone_run: "leaves undo_calls (run_steps env now a seq sts)"
  by (induction sts arbitrary: seq) (auto simp: Let_def intro!: leaves split: option.split tool_outcome.split)

text \<open>A last update that the row's constraint refuses undoes the run but for its calls.\<close>

lemma execute_undone:
  assumes get: "action_get s (ba_id a) = Some a" and start: "execution_starts env cfg now s a s1" and p: "ba_plan a = Some p"
    and run: "run_steps env now a 1 (bp_actions p) s1 = (Inr None, s2)"
    and never: "\<And>b. b \<in> set (b_actions (commitB s (execute_action env cfg now (ba_id a) s))) \<Longrightarrow> ba_id b = ba_id a \<Longrightarrow> ba_status b \<noteq> BA_succeeded"
  shows "commitB s (execute_action env cfg now (ba_id a) s) = s\<lparr>tool_calls := tool_calls s @ plan_calls env (ba_id a) 1 (bp_actions p)\<rparr>"
proof -
  from start obtain s0 where s0: "try_increment ''user_execs_day'' (ba_requester a) (Day_key (msk_day now)) (msk_day_window now)
              (set_user_execs cfg) s = (Inr True, s0)" "action_update_status (ba_id a) BA_executing (\<lambda>a. a) s0 = (Inr (), s1)"
    and c: "\<not> env_locked env (ba_id a)" "ba_status a = BA_confirmed" "\<not> missing_consent s (ba_id a)"
    by (auto simp: execution_starts_def)
  have calls: "tool_calls s2 = tool_calls s @ plan_calls env (ba_id a) 1 (bp_actions p)"
    using run_steps_calls [OF run] leaves_run [OF calls_rows(4) s0(1)] leaves_run [OF calls_rows(3) s0(2)] by simp
  have undos: "undo_calls s2 = undo_calls s"
    using leaves_run [OF undone_run run] leaves_run [OF undone_rows(4) s0(1)] leaves_run [OF undone_rows(3) s0(2)] by simp
  let ?f = "\<lambda>a. a\<lparr>ba_executed_at := Some now\<rparr>"
  have ex: "execute_action env cfg now (ba_id a) s =
      bindB (action_update_status (ba_id a) BA_succeeded ?f) (\<lambda>_. refetch a) s2"
    using c get s0 p run by (simp add: execute_action_def lock_action_def bindB_def)
  obtain r s3 where u: "action_update_status (ba_id a) BA_succeeded ?f s2 = (r, s3)" by fastforce
  show ?thesis
  proof (cases r)
    case (Inl e)
    with u have "s3 = s2" "\<exists>n. e = Db_error n"
      by (auto simp: action_update_status_def raiseB_def Let_def split: option.splits if_splits)
    with ex u Inl calls undos show ?thesis by (auto simp: bindB_def commitB_def)
  next
    case (Inr x)
    then have commit: "commitB s (execute_action env cfg now (ba_id a) s) = s3"
      using ex u by (simp add: bindB_def refetch_def getB_def commitB_def)
    have "\<exists>b. action_get s3 (ba_id a) = Some b \<and> ba_status b = BA_succeeded"
      using u Inr
      by (auto simp: action_update_status_def action_get_def Let_def fetch_update_where dest: fetch_Some split: option.splits if_splits)
    then show ?thesis using never commit action_get_id by metis
  qed
qed

text \<open>
  C35. An action whose first step is reversible and whose tools build no inverse never succeeds: whatever
  the tools did, an execution leaves no row with its id succeeded.  And when an execution starts and gets
  through every step of the plan, the constraint of the row refuses the final status and everything is
  rolled back: the tables are exactly as before, the action confirmed as it was, with its calls made all
  the same, one for each step that has a registered tool, in the order of the plan.
\<close>

theorem no_inverse_no_success:
  assumes "breach cfg s" "action_get s aid = Some a" "ba_rollback a \<noteq> Not_reversible" "ba_inverse a = None"
    "\<And>name tool payload. env_tools env name = Some tool \<Longrightarrow> tool_inverse tool payload = None"
    "commitB s (execute_action env cfg now aid s) = s'"
  shows "(\<forall>b \<in> set (b_actions s'). ba_id b = aid \<longrightarrow> ba_status b \<noteq> BA_succeeded) \<and>
    (\<forall>p s1 s2. ba_plan a = Some p \<longrightarrow> execution_starts env cfg now s a s1 \<longrightarrow>
       run_steps env now a 1 (bp_actions p) s1 = (Inr None, s2) \<longrightarrow>
       s' = s\<lparr>tool_calls := tool_calls s @ plan_calls env aid 1 (bp_actions p)\<rparr>)"
proof -
  have inv: "butler_inv s" by (rule breach_inv [OF assms(1)])
  have id: "ba_id a = aid" using action_get_id [OF assms(2)] by simp
  let ?s' = "commitB s (execute_action env cfg now aid s)"
  have inv': "butler_inv ?s'" by (rule carries_inv [OF inv execute_step [OF inv]])
  obtain r s1 where run: "execute_action env cfg now aid s = (r, s1)" by fastforce
  have "leaves inverse_cols (execute_action env cfg now aid)" by (rule inverse_cols_execute [OF assms(5)])
  from leaves_run [OF this run] have cols: "inverse_cols ?s' = inverse_cols s"
    unfolding run by (simp add: commitB_def inverse_cols_def split: sum.split butler_error.split)
  have never: "ba_status b \<noteq> BA_succeeded" if b: "b \<in> set (b_actions ?s')" "ba_id b = aid" for b
  proof
    assume st: "ba_status b = BA_succeeded"
    have ck: "ck_butler_action b" using inv_sound [OF inv' b(1)] by (simp add: sound_action_def)
    have "(ba_id b, ba_inverse b, ba_rollback b) \<in> set (inverse_cols ?s')" using b(1) by (auto simp: inverse_cols_def)
    then obtain c where c: "c \<in> set (b_actions s)" "ba_id c = ba_id b" "ba_inverse c = ba_inverse b" "ba_rollback c = ba_rollback b"
      unfolding cols by (auto simp: inverse_cols_def)
    then have "c = a" using inv_unique [OF inv assms(2)] b(2) by simp
    with c ck st assms(3,4) show False by (simp add: ck_butler_action_def)
  qed
  have "?s' = s\<lparr>tool_calls := tool_calls s @ plan_calls env aid 1 (bp_actions p)\<rparr>"
    if "ba_plan a = Some p" "execution_starts env cfg now s a s1" "run_steps env now a 1 (bp_actions p) s1 = (Inr None, s2)" for p s1 s2
    using execute_undone [OF _ that(2,1,3)] assms(2) never unfolding id by blast
  then show ?thesis using never unfolding assms(6) by blast
qed

theorem no_inverse_no_success_witness:
  "demo_bare_state = demo_b3\<lparr>tool_calls := [\<lparr>tc_action = 1, tc_seq = 1, tc_tool = ''send_intro''\<rparr>]\<rparr> \<and>
   (\<exists>b \<in> set (b_actions demo_bare_state). ba_id b = 1 \<and> ba_status b \<noteq> BA_succeeded)"
proof -
  obtain a where a: "b_actions demo_b3 = [a]" "ba_id a = 1" "ba_rollback a = Delete_message_op" "ba_inverse a = None"
    "ba_status a = BA_confirmed" "ba_plan a = Some demo_plan" "ba_requester a = 1"
    using demo_b3_row demo_bare_run(4,5) by (cases "b_actions demo_b3") auto
  then have get: "action_get demo_b3 1 = Some a" by (simp add: action_get_def)
  have bare: "\<And>name tool payload. env_tools demo_bare name = Some tool \<Longrightarrow> tool_inverse tool payload = None"
    by (auto simp: demo_bare_def demo_env_def)
  have rev: "ba_rollback a \<noteq> Not_reversible" using a(3) by simp
  have result: "(\<forall>b \<in> set (b_actions demo_bare_state). ba_id b = 1 \<longrightarrow> ba_status b \<noteq> BA_succeeded) \<and>
    (\<forall>p s1 s2. ba_plan a = Some p \<longrightarrow> execution_starts demo_bare default_settings 1030 demo_b3 a s1 \<longrightarrow>
       run_steps demo_bare 1030 a 1 (bp_actions p) s1 = (Inr None, s2) \<longrightarrow>
       demo_bare_state = demo_b3\<lparr>tool_calls := tool_calls demo_b3 @ plan_calls demo_bare 1 1 (bp_actions p)\<rparr>)"
    by (rule no_inverse_no_success [OF demo_breach(3) get rev a(4) _ demo_bare_state_def [symmetric]], rule bare)
  have "execution_starts demo_bare default_settings 1030 demo_b3 a demo_bare_start"
    unfolding execution_starts_def a(2,5,7)
    using demo_bare_run(1,2,6) by (intro conjI exI) (simp_all add: demo_bare_def demo_env_def default_settings_def demo_bare_start_def prod_eq_iff)
  moreover have "run_steps demo_bare 1030 a 1 (bp_actions demo_plan) demo_bare_start =
      (Inr None, snd (run_steps demo_bare 1030 a 1 (bp_actions demo_plan) demo_bare_start))"
    using demo_bare_run(3) a(1) by (simp add: demo_plan_def prod_eq_iff)
  ultimately have state: "demo_bare_state = demo_b3\<lparr>tool_calls := tool_calls demo_b3 @ plan_calls demo_bare 1 1 (bp_actions demo_plan)\<rparr>"
    using result a(6) by blast
  have calls: "plan_calls demo_bare 1 1 (bp_actions demo_plan) = [\<lparr>tc_action = 1, tc_seq = 1, tc_tool = ''send_intro''\<rparr>]"
    by (simp add: plan_calls_def demo_plan_def demo_step_def demo_bare_def demo_env_def)
  obtain b where "b \<in> set (b_actions demo_bare_state)" "ba_id b = 1"
    using demo_bare_calls(3) by (cases "b_actions demo_bare_state") auto
  with result state calls demo_bare_run(7) show ?thesis by auto
qed

end
