(* ===== verification/SemanticQuota.thy ===== *)
theory SemanticQuota
  imports Prelude
begin

section \<open>The semantic question quota: bot/db/repos/semantic\_quota.py\<close>

text \<open>
  The admission of paid questions: two per member and Moscow day.  One row of \<open>SemanticQaAttempt\<close> is
  written per question; it is reserved before any provider is called, consumed when an answer may have
  reached Telegram, and released when it cannot have.  Every method of the repository is here, as a
  function on the table.  Times are seconds in UTC; Moscow is UTC+3.  The clock of the process and the
  clock of the database are one argument.
\<close>

subsection \<open>Rows and constraints\<close>

datatype attempt_status = Q_denied | Q_reserved | Q_consumed | Q_released

datatype qa_outcome = Answered | Abstained | Technical_failure | Quota_denied

record qa_attempt =
  at_id :: int
  at_key :: string
  at_user :: int
  at_chat :: int
  at_source :: "int option"
  at_day :: int
  at_slot :: "int option"
  at_status :: attempt_status
  at_outcome :: "qa_outcome option"
  at_trace :: "int option"
  at_embedding :: "int option"
  at_synthesis :: "int option"
  at_progress :: int
  at_delivery :: "int option"
  at_final :: "int option"

text \<open>\<open>q_traces\<close> holds \<open>attempt_id\<close> and \<open>qa_trace_id\<close> of the retrieval traces, which \<open>finalize\<close> writes.\<close>

record qdb =
  q_attempts :: "qa_attempt list"
  q_traces :: "(int \<times> int option) list"
  q_next :: int

text \<open>\<open>ck_semantic_attempts_slot\<close> and \<open>ck_semantic_attempts_state\<close>.\<close>

definition ck_attempt :: "qa_attempt \<Rightarrow> bool" where
  "ck_attempt a \<longleftrightarrow> (at_slot a = None \<or> at_slot a = Some 1 \<or> at_slot a = Some 2) \<and>
     (case at_status a of
        Q_denied \<Rightarrow> at_slot a = None \<and> at_outcome a = Some Quota_denied \<and> at_delivery a = None
      | Q_reserved \<Rightarrow> at_slot a \<noteq> None \<and> at_final a = None \<and>
          ((at_outcome a = None \<and> at_delivery a = None) \<or>
           ((at_outcome a = Some Answered \<or> at_outcome a = Some Abstained) \<and> at_delivery a \<noteq> None))
      | Q_consumed \<Rightarrow> at_slot a \<noteq> None \<and> (at_outcome a = Some Answered \<or> at_outcome a = Some Abstained) \<and>
          at_delivery a \<noteq> None \<and> at_final a \<noteq> None
      | Q_released \<Rightarrow> at_slot a \<noteq> None \<and> at_outcome a = Some Technical_failure \<and> at_final a \<noteq> None)"

text \<open>The partial unique index over the rows that hold a slot; and the unique idempotency key.\<close>

definition holds_slot :: "qa_attempt \<Rightarrow> bool" where
  "holds_slot a \<longleftrightarrow> at_status a = Q_reserved \<or> at_status a = Q_consumed"

definition slot_key :: "qa_attempt \<Rightarrow> int \<times> int \<times> int option" where
  "slot_key a = (at_user a, at_day a, at_slot a)"

definition unique_slots :: "qa_attempt list \<Rightarrow> bool" where
  "unique_slots t \<longleftrightarrow> distinct (map slot_key (filter holds_slot t))"

definition unique_keys :: "qa_attempt list \<Rightarrow> bool" where
  "unique_keys t \<longleftrightarrow> distinct (map at_key t)"

datatype quota_error = Value_error string | Lookup_error string | Integrity_error

subsection \<open>Statements\<close>

text \<open>
  \<open>UPDATE .. WHERE p\<close> with the row count; the constraints are checked on the rows it writes.  No update
  changes an idempotency key.
\<close>

definition attempts_update ::
  "(qa_attempt \<Rightarrow> bool) \<Rightarrow> (qa_attempt \<Rightarrow> qa_attempt) \<Rightarrow> qdb \<Rightarrow> quota_error + nat \<times> qdb" where
  "attempts_update p f s =
     (let hit = filter p (q_attempts s); t = update_where p f (q_attempts s)
      in if list_all (\<lambda>a. ck_attempt (f a)) hit \<and> unique_slots t
         then Inr (length hit, s\<lparr>q_attempts := t\<rparr>) else Inl Integrity_error)"

definition attempts_insert :: "qa_attempt \<Rightarrow> qdb \<Rightarrow> quota_error + int \<times> qdb" where
  "attempts_insert row s =
     (let a = row\<lparr>at_id := q_next s\<rparr>; t = q_attempts s @ [a]
      in if ck_attempt a \<and> unique_slots t \<and> unique_keys t
         then Inr (at_id a, s\<lparr>q_attempts := t, q_next := q_next s + 1\<rparr>) else Inl Integrity_error)"

subsection \<open>The Moscow day\<close>

definition daily_llm_question_limit :: int where "daily_llm_question_limit = 2"

definition stale_reservation_after :: int where "stale_reservation_after = 15 * 60"

definition moscow_date :: "int \<Rightarrow> int" where "moscow_date t = (t + 3 * 3600) div 86400"

definition moscow_day_bounds_utc :: "int \<Rightarrow> int \<times> int" where
  "moscow_day_bounds_utc now =
     (let start_local = moscow_date now * 86400
      in (start_local - 3 * 3600, start_local + 86400 - 3 * 3600))"

subsection \<open>Admission\<close>

definition is_reserved :: "int \<Rightarrow> qa_attempt \<Rightarrow> bool" where
  "is_reserved aid a \<longleftrightarrow> at_id a = aid \<and> at_status a = Q_reserved"

text \<open>
  A reservation of the user, of this day or an earlier one, whose last sign of life is older than
  \<open>stale_before\<close>.
\<close>

definition is_stale :: "int \<Rightarrow> int \<Rightarrow> int \<Rightarrow> qa_attempt \<Rightarrow> bool" where
  "is_stale user through_day stale_before a \<longleftrightarrow>
     at_user a = user \<and> at_day a \<le> through_day \<and> at_status a = Q_reserved \<and> at_progress a < stale_before"

text \<open>
  \<open>env\<close> is what other transactions commit: \<open>env n\<close> is applied before the \<open>n\<close>th statement that follows.
\<close>

definition consume_stale :: "int \<Rightarrow> int \<Rightarrow> int \<Rightarrow> int \<Rightarrow> qdb \<Rightarrow> quota_error + nat \<times> qdb" where
  "consume_stale user through_day stale_before finalized_at =
     attempts_update (\<lambda>a. is_stale user through_day stale_before a \<and> at_delivery a \<noteq> None)
       (\<lambda>a. a\<lparr>at_status := Q_consumed, at_final := Some finalized_at\<rparr>)"

definition release_stale :: "int \<Rightarrow> int \<Rightarrow> int \<Rightarrow> int \<Rightarrow> qdb \<Rightarrow> quota_error + nat \<times> qdb" where
  "release_stale user through_day stale_before finalized_at =
     attempts_update (\<lambda>a. is_stale user through_day stale_before a \<and> at_delivery a = None)
       (\<lambda>a. a\<lparr>at_status := Q_released, at_outcome := Some Technical_failure, at_final := Some finalized_at\<rparr>)"

definition release_stale_reserved ::
  "(qdb \<Rightarrow> qdb) \<Rightarrow> int \<Rightarrow> int \<Rightarrow> int \<Rightarrow> int \<Rightarrow> qdb \<Rightarrow> quota_error + nat \<times> qdb" where
  "release_stale_reserved env user through_day stale_before finalized_at s =
     bindE (consume_stale user through_day stale_before finalized_at s) (\<lambda>(delivered, s1).
     bindE (release_stale user through_day stale_before finalized_at (env s1)) (\<lambda>(released, s2).
     Inr (delivered + released, s2)))"

definition of_day :: "int \<Rightarrow> int \<Rightarrow> qa_attempt \<Rightarrow> bool" where
  "of_day user day a \<longleftrightarrow> at_user a = user \<and> at_day a = day"

definition active_count :: "int \<Rightarrow> int \<Rightarrow> qdb \<Rightarrow> nat" where
  "active_count user day s = length (filter (\<lambda>a. of_day user day a \<and> holds_slot a) (q_attempts s))"

record quota_decision =
  qd_allowed :: bool
  qd_attempt :: int
  qd_used :: nat
  qd_limit :: int
  qd_resets :: int
  qd_replayed :: bool
  qd_status :: "attempt_status option"
  qd_outcome :: "qa_outcome option"
  qd_trace :: "int option"

definition used_slots :: "int \<Rightarrow> int \<Rightarrow> qdb \<Rightarrow> int list" where
  "used_slots user day s =
     remdups (concat (map (\<lambda>a. case at_slot a of None \<Rightarrow> [] | Some n \<Rightarrow> [n])
       (filter (\<lambda>a. of_day user day a \<and> holds_slot a) (q_attempts s))))"

definition new_attempt ::
  "string \<Rightarrow> int \<Rightarrow> int \<Rightarrow> int option \<Rightarrow> int \<Rightarrow> int option \<Rightarrow> attempt_status \<Rightarrow> qa_outcome option \<Rightarrow> int \<Rightarrow> qa_attempt" where
  "new_attempt key user chat source day slot st out now =
     \<lparr>at_id = 0, at_key = key, at_user = user, at_chat = chat, at_source = source, at_day = day,
      at_slot = slot, at_status = st, at_outcome = out, at_trace = None, at_embedding = None,
      at_synthesis = None, at_progress = now, at_delivery = None, at_final = None\<rparr>"

text \<open>The advisory lock of the user is taken before the first statement and held to the commit.\<close>

definition reserve ::
  "(nat \<Rightarrow> qdb \<Rightarrow> qdb) \<Rightarrow> string \<Rightarrow> int \<Rightarrow> int \<Rightarrow> int option \<Rightarrow> int \<Rightarrow> int \<Rightarrow> qdb \<Rightarrow>
   quota_error + quota_decision \<times> qdb" where
  "reserve env key user chat source now limit s =
     bindE (ensureE (key \<noteq> [] \<and> length key \<le> 128)
       (Value_error ''semantic quota idempotency_key must contain 1..128 characters'')) (\<lambda>_.
     bindE (ensureE (limit = daily_llm_question_limit)
       (Value_error ''semantic Q&A daily limit is fixed at two'')) (\<lambda>_.
     let (start_utc, end_utc) = moscow_day_bounds_utc now;
         day = moscow_date start_utc
     in bindE (release_stale_reserved (env 1) user day (now - stale_reservation_after) now (env 0 s)) (\<lambda>(_, s1).
     let s2 = env 2 s1 in
     case fetch at_key key (q_attempts s2) of
       Some e \<Rightarrow>
         let s3 = env 3 s2
         in Inr (\<lparr>qd_allowed = False, qd_attempt = at_id e, qd_used = active_count user day s3,
                  qd_limit = limit, qd_resets = end_utc, qd_replayed = True, qd_status = Some (at_status e),
                  qd_outcome = at_outcome e, qd_trace = at_trace e\<rparr>, s3)
     | None \<Rightarrow>
         let s3 = env 3 s2; used = used_slots user day s3; s4 = env 4 s3
         in (case List.find (\<lambda>n. n \<notin> set used) [1, 2] of
               None \<Rightarrow>
                 bindE (attempts_insert (new_attempt key user chat source day None Q_denied (Some Quota_denied) now) s4)
                   (\<lambda>(aid, s5). Inr (\<lparr>qd_allowed = False, qd_attempt = aid, qd_used = length used,
                      qd_limit = limit, qd_resets = end_utc, qd_replayed = False, qd_status = Some Q_denied,
                      qd_outcome = Some Quota_denied, qd_trace = None\<rparr>, s5))
             | Some n \<Rightarrow>
                 bindE (attempts_insert (new_attempt key user chat source day (Some n) Q_reserved None now) s4)
                   (\<lambda>(aid, s5). Inr (\<lparr>qd_allowed = True, qd_attempt = aid, qd_used = length used,
                      qd_limit = limit, qd_resets = end_utc, qd_replayed = False, qd_status = Some Q_reserved,
                      qd_outcome = None, qd_trace = None\<rparr>, s5))))))"

subsection \<open>The life of a reservation\<close>

text \<open>\<open>if rowcount != 1: raise LookupError\<close>.\<close>

definition one_row :: "string \<Rightarrow> nat \<times> qdb \<Rightarrow> quota_error + qdb" where
  "one_row what r = (if fst r = 1 then Inr (snd r) else Inl (Lookup_error what))"

definition mark_delivery_started ::
  "int \<Rightarrow> qa_outcome \<Rightarrow> int \<Rightarrow> int \<Rightarrow> int option \<Rightarrow> int \<Rightarrow> qdb \<Rightarrow> quota_error + qdb" where
  "mark_delivery_started aid outcome trace embedding synthesis now s =
     bindE (ensureE (outcome = Answered \<or> outcome = Abstained)
       (Value_error ''delivery intent must consume semantic quota'')) (\<lambda>_.
     bindE (attempts_update (\<lambda>a. is_reserved aid a \<and> at_delivery a = None)
       (\<lambda>a. a\<lparr>at_outcome := Some outcome, at_trace := Some trace, at_embedding := Some embedding,
              at_synthesis := synthesis, at_progress := now, at_delivery := Some now\<rparr>) s)
     (one_row ''semantic Q&A delivery intent is missing or already started''))"

definition attach_trace :: "int \<Rightarrow> int \<Rightarrow> int \<Rightarrow> qdb \<Rightarrow> quota_error + qdb" where
  "attach_trace aid trace now s =
     bindE (attempts_update (is_reserved aid) (\<lambda>a. a\<lparr>at_trace := Some trace, at_progress := now\<rparr>) s)
     (one_row ''semantic Q&A reservation is not active'')"

definition attach_embedding_call :: "int \<Rightarrow> int \<Rightarrow> int \<Rightarrow> qdb \<Rightarrow> quota_error + qdb" where
  "attach_embedding_call aid call now s =
     bindE (attempts_update (is_reserved aid) (\<lambda>a. a\<lparr>at_embedding := Some call, at_progress := now\<rparr>) s)
     (one_row ''semantic Q&A reservation is not active'')"

definition touch :: "int \<Rightarrow> int \<Rightarrow> qdb \<Rightarrow> quota_error + qdb" where
  "touch aid now s =
     bindE (attempts_update (\<lambda>a. is_reserved aid a \<and> at_delivery a = None) (\<lambda>a. a\<lparr>at_progress := now\<rparr>) s)
     (one_row ''semantic Q&A reservation lease is no longer active'')"

definition final_status :: "qa_outcome \<Rightarrow> attempt_status" where
  "final_status outcome = (if outcome = Technical_failure then Q_released else Q_consumed)"

definition finalize ::
  "int \<Rightarrow> qa_outcome \<Rightarrow> int option \<Rightarrow> int option \<Rightarrow> int option \<Rightarrow> int \<Rightarrow> qdb \<Rightarrow> quota_error + qdb" where
  "finalize aid outcome trace embedding synthesis now s =
     bindE (ensureE (outcome \<noteq> Quota_denied) (Value_error ''unsupported semantic Q&A outcome'')) (\<lambda>_.
     bindE (attempts_update (is_reserved aid)
       (\<lambda>a. a\<lparr>at_status := final_status outcome, at_outcome := Some outcome, at_trace := trace,
              at_embedding := embedding, at_synthesis := synthesis, at_progress := now,
              at_final := Some now\<rparr>) s) (\<lambda>(n, s1).
     if n \<noteq> 1
     then (case fetch at_id aid (q_attempts s1) of
             None \<Rightarrow> Inl (Lookup_error ''semantic Q&A attempt is missing or finalized differently'')
           | Some e \<Rightarrow>
               if at_status e = final_status outcome \<and> at_outcome e = Some outcome then Inr s1
               else Inl (Lookup_error ''semantic Q&A attempt is missing or finalized differently''))
     else Inr (if trace = None then s1
       else s1\<lparr>q_traces := map (\<lambda>(i, t). if i = aid then (i, trace) else (i, t)) (q_traces s1)\<rparr>)))"

end
