(* ===== verification/SemanticDelivery.thy ===== *)
theory SemanticDelivery
  imports SemanticQuota
begin

section \<open>Delivering an answer: \_deliver\_and\_consume\_semantic\_attempt of bot/handlers/qa.py\<close>

text \<open>
  The last phase of an admitted question: the intent to deliver is committed, Telegram is called, and the
  reservation is consumed or released by what Telegram said.  The outcome of the governance checks, of
  the Telegram call and the point where the database fails, if it does, are arguments; \<open>env\<close> is what
  other transactions commit in between.  Writes to the answer's trace and to the synthesis cache are
  left out: nothing here reads them.
\<close>

text \<open>
  What Telegram answers: the message was taken, was definitively refused, or the call ended in an error
  that leaves it open.
\<close>

datatype tg_outcome = Tg_accepted | Tg_rejected | Tg_unclear

text \<open>
  Where an \<open>SQLAlchemyError\<close> strikes: the commit before the delivery; the intent or its commit, undone;
  the commit of the intent, which took effect but whose acknowledgement was lost; the final write.
\<close>

datatype db_fault = No_fault | Fault_at_start | Fault_at_intent | Fault_after_intent | Fault_at_settle

text \<open>
  What is checked under the evidence locks: nothing; the question is still governed; the question is, and
  the evidence is the expected one.
\<close>

datatype governance = Unchecked | Question_check bool | Evidence_check bool bool

datatype qa_exn = Lookup_exn | Database_exn | Rejected_exn | Telegram_exn | Evidence_invalidated | Value_exn

datatype qa_reply = Reply_text tg_outcome | Reply_deleted | Reply_lease_lost | Reply_released | Reply_fallback

fun exn_of :: "quota_error \<Rightarrow> qa_exn" where
  "exn_of (Value_error _) = Value_exn"
| "exn_of (Lookup_error _) = Lookup_exn"
| "exn_of Integrity_error = Database_exn"

record delivery =
  dl_attempt :: int
  dl_outcome :: qa_outcome
  dl_trace :: int
  dl_embedding :: int
  dl_synthesis :: "int option"

text \<open>\<open>finalize\<close> as every branch calls it.\<close>

definition settle :: "delivery \<Rightarrow> qa_outcome \<Rightarrow> int \<Rightarrow> qdb \<Rightarrow> quota_error + qdb" where
  "settle d outcome now s =
     finalize (dl_attempt d) outcome (Some (dl_trace d)) (Some (dl_embedding d)) (dl_synthesis d) now s"

text \<open>The outcome a Telegram result is recorded with, and the exception it is raised as.\<close>

definition settled_outcome :: "delivery \<Rightarrow> tg_outcome \<Rightarrow> qa_outcome" where
  "settled_outcome d tg = (if tg = Tg_rejected then Technical_failure else dl_outcome d)"

definition telegram_result :: "tg_outcome \<Rightarrow> qa_exn + unit" where
  "telegram_result tg = (case tg of Tg_accepted \<Rightarrow> Inr () | Tg_rejected \<Rightarrow> Inl Rejected_exn | Tg_unclear \<Rightarrow> Inl Telegram_exn)"

text \<open>\<open>deliver\<close>: the first component is \<open>delivery_intent_durable\<close> when it ends.\<close>

definition deliver ::
  "(nat \<Rightarrow> qdb \<Rightarrow> qdb) \<Rightarrow> db_fault \<Rightarrow> tg_outcome \<Rightarrow> int \<Rightarrow> delivery \<Rightarrow> qdb \<Rightarrow>
   bool \<times> (qa_exn + unit) \<times> qa_reply list \<times> qdb" where
  "deliver env fault tg now d s =
     (if fault = Fault_at_intent then (False, Inl Database_exn, [], s)
      else case mark_delivery_started (dl_attempt d) (dl_outcome d) (dl_trace d) (dl_embedding d)
             (dl_synthesis d) now s of
        Inl e \<Rightarrow> (False, Inl (exn_of e), [], s)
      | Inr s1 \<Rightarrow>
          if fault = Fault_after_intent then (False, Inl Database_exn, [], s1)
          else let s2 = env 1 s1 in
            if fault = Fault_at_settle then (True, Inl Database_exn, [Reply_text tg], s2)
            else (case settle d (settled_outcome d tg) now s2 of
                Inl e \<Rightarrow> (True, Inl (exn_of e), [Reply_text tg], s2)
              | Inr s3 \<Rightarrow> (True, telegram_result tg, [Reply_text tg], s3)))"

text \<open>\<open>release_pre_delivery_database_failure\<close>.\<close>

definition release_pre_delivery ::
  "(nat \<Rightarrow> qdb \<Rightarrow> qdb) \<Rightarrow> int \<Rightarrow> delivery \<Rightarrow> qdb \<Rightarrow> (qa_exn + unit) \<times> qa_reply list \<times> qdb" where
  "release_pre_delivery env now d s =
     (case settle d Technical_failure now (env 2 s) of
        Inl e \<Rightarrow> (Inl (exn_of e), [], env 2 s)
      | Inr s1 \<Rightarrow> (Inr (), [Reply_released], s1))"

text \<open>The two \<open>except\<close> clauses around the body.\<close>

definition delivery_handlers ::
  "(nat \<Rightarrow> qdb \<Rightarrow> qdb) \<Rightarrow> int \<Rightarrow> delivery \<Rightarrow> bool \<times> (qa_exn + unit) \<times> qa_reply list \<times> qdb \<Rightarrow>
   (qa_exn + unit) \<times> qa_reply list \<times> qdb" where
  "delivery_handlers env now d ended =
     (case ended of (durable, r, replies, s) \<Rightarrow>
        if r = Inl Lookup_exn
        then (Inr (), if durable then replies else replies @ [Reply_lease_lost], s)
        else if r = Inl Database_exn \<and> \<not> durable
        then (case release_pre_delivery env now d s of (r1, extra, s1) \<Rightarrow> (r1, replies @ extra, s1))
        else (r, replies, s))"

definition deliver_and_consume ::
  "(nat \<Rightarrow> qdb \<Rightarrow> qdb) \<Rightarrow> db_fault \<Rightarrow> governance \<Rightarrow> tg_outcome \<Rightarrow> int \<Rightarrow> delivery \<Rightarrow> qdb \<Rightarrow>
   (qa_exn + unit) \<times> qa_reply list \<times> qdb" where
  "deliver_and_consume env fault check tg now d s0 =
     (let s = env 0 s0 in delivery_handlers env now d
       (if fault = Fault_at_start then (False, Inl Database_exn, [], s)
        else case check of
          Unchecked \<Rightarrow> deliver env fault tg now d s
        | Question_check governed \<Rightarrow>
            if governed then deliver env fault tg now d s
            else (case settle d Technical_failure now s of
                Inl e \<Rightarrow> (False, Inl (exn_of e), [], s)
              | Inr s1 \<Rightarrow> (False, Inr (), [Reply_deleted], s1))
        | Evidence_check governed same_evidence \<Rightarrow>
            if governed \<and> same_evidence then deliver env fault tg now d s
            else (False, Inl Evidence_invalidated, [], s)))"

text \<open>
  The abstentions of the render phase are delivered inside the \<open>try\<close> of that phase, whose handler for
  \<open>SQLAlchemyError\<close> releases the reservation; so is a \<open>ValueError\<close>.
\<close>

definition render_phase_abstention ::
  "(nat \<Rightarrow> qdb \<Rightarrow> qdb) \<Rightarrow> db_fault \<Rightarrow> tg_outcome \<Rightarrow> int \<Rightarrow> delivery \<Rightarrow> qdb \<Rightarrow>
   (qa_exn + unit) \<times> qa_reply list \<times> qdb" where
  "render_phase_abstention env fault tg now d s =
     (case deliver_and_consume env fault Unchecked tg now (d\<lparr>dl_outcome := Abstained\<rparr>) s of
        (r, replies, s1) \<Rightarrow>
          if r = Inl Lookup_exn then (Inr (), replies @ [Reply_lease_lost], s1)
          else if r = Inl Database_exn \<or> r = Inl Value_exn
          then (case settle d Technical_failure now (env 3 s1) of
              Inl e \<Rightarrow> (Inl (exn_of e), replies, env 3 s1)
            | Inr s2 \<Rightarrow> (Inr (), replies @ [Reply_fallback], s2))
          else (r, replies, s1))"

text \<open>\<open>_release_invalidated_semantic_question\<close>: a lease that is already gone is not an error.\<close>

definition release_invalidated_question ::
  "int \<Rightarrow> int option \<Rightarrow> int option \<Rightarrow> int \<Rightarrow> qdb \<Rightarrow> (qa_exn + unit) \<times> qa_reply list \<times> qdb" where
  "release_invalidated_question aid trace embedding now s =
     (case finalize aid Technical_failure trace embedding None now s of
        Inl (Lookup_error _) \<Rightarrow> (Inr (), [Reply_deleted], s)
      | Inl e \<Rightarrow> (Inl (exn_of e), [], s)
      | Inr s1 \<Rightarrow> (Inr (), [Reply_deleted], s1))"

end
