(* ===== verification/SemanticSystem.thy ===== *)
theory SemanticSystem
  imports SemanticDelivery
begin

section \<open>Every run of the semantic quota\<close>

text \<open>
  The committed transactions of all handlers, in any order: a handler that reserves is two or three
  steps, because other transactions may commit between its statements.  A session is one handler that
  was admitted with its attempt and has not ended; \<open>w_log\<close> holds the replies sent to Telegram.
\<close>

datatype qphase = Asking | Intending delivery bool | Replied delivery bool tg_outcome

record qsend =
  sn_attempt :: int
  sn_outcome :: qa_outcome
  sn_tg :: tg_outcome
  sn_nested :: bool

record qworld =
  w_db :: qdb
  w_sessions :: "int \<Rightarrow> qphase option"
  w_log :: "qsend list"

definition init_qworld :: qworld where
  "init_qworld = \<lparr>w_db = \<lparr>q_attempts = [], q_traces = [], q_next = 1\<rparr>, w_sessions = (\<lambda>_. None), w_log = []\<rparr>"

text \<open>Foreign keys with \<open>ON DELETE SET NULL\<close>: rows lose references when what they name is deleted.\<close>

definition same_quota :: "qa_attempt \<Rightarrow> qa_attempt \<Rightarrow> bool" where
  "same_quota a b \<longleftrightarrow> (\<exists>src tr em sy. b = a\<lparr>at_source := src, at_trace := tr, at_embedding := em, at_synthesis := sy\<rparr>)"

text \<open>
  The flag of a phase says whether the delivery runs inside the render phase's \<open>try\<close>; only abstentions
  do.
\<close>

inductive qstep :: "qworld \<Rightarrow> qworld \<Rightarrow> bool" where
  consume: "consume_stale user day before now (w_db w) = Inr (n, s') \<Longrightarrow> qstep w (w\<lparr>w_db := s'\<rparr>)"
| release: "release_stale user day before now (w_db w) = Inr (n, s') \<Longrightarrow> qstep w (w\<lparr>w_db := s'\<rparr>)"
| admit: "attempts_insert (new_attempt key user chat source day slot Q_reserved None now) (w_db w) = Inr (aid, s') \<Longrightarrow>
    qstep w (w\<lparr>w_db := s', w_sessions := (w_sessions w)(aid \<mapsto> Asking)\<rparr>)"
| deny: "attempts_insert (new_attempt key user chat source day None Q_denied (Some Quota_denied) now) (w_db w) = Inr (aid, s') \<Longrightarrow>
    qstep w (w\<lparr>w_db := s'\<rparr>)"
| trace: "attach_trace aid tid now (w_db w) = Inr s' \<Longrightarrow> qstep w (w\<lparr>w_db := s'\<rparr>)"
| embedding: "attach_embedding_call aid call now (w_db w) = Inr s' \<Longrightarrow> qstep w (w\<lparr>w_db := s'\<rparr>)"
| renew: "touch aid now (w_db w) = Inr s' \<Longrightarrow> qstep w (w\<lparr>w_db := s'\<rparr>)"
| detach: "list_all2 same_quota (q_attempts (w_db w)) rows \<Longrightarrow>
    qstep w (w\<lparr>w_db := (w_db w)\<lparr>q_attempts := rows\<rparr>\<rparr>)"
| give_up: "w_sessions w aid = Some Asking \<Longrightarrow>
    finalize aid Technical_failure tr em sy now (w_db w) = Inr s' \<Longrightarrow>
    qstep w (w\<lparr>w_db := s', w_sessions := (w_sessions w)(aid := None)\<rparr>)"
| intend: "w_sessions w (dl_attempt d) = Some Asking \<Longrightarrow> (nested \<longrightarrow> dl_outcome d = Abstained) \<Longrightarrow>
    mark_delivery_started (dl_attempt d) (dl_outcome d) (dl_trace d) (dl_embedding d) (dl_synthesis d) now (w_db w)
      = Inr s' \<Longrightarrow>
    qstep w (w\<lparr>w_db := s', w_sessions := (w_sessions w)(dl_attempt d \<mapsto> Intending d nested)\<rparr>)"
| intent_lost: "w_sessions w (dl_attempt d) = Some (Intending d nested) \<Longrightarrow>
    settle d Technical_failure now (w_db w) = Inr s' \<Longrightarrow>
    qstep w (w\<lparr>w_db := s', w_sessions := (w_sessions w)(dl_attempt d := None)\<rparr>)"
| reply: "w_sessions w (dl_attempt d) = Some (Intending d nested) \<Longrightarrow>
    qstep w (w\<lparr>w_sessions := (w_sessions w)(dl_attempt d \<mapsto> Replied d nested tg),
      w_log := w_log w @ [\<lparr>sn_attempt = dl_attempt d, sn_outcome = dl_outcome d, sn_tg = tg, sn_nested = nested\<rparr>]\<rparr>)"
| settle: "w_sessions w (dl_attempt d) = Some (Replied d nested tg) \<Longrightarrow>
    settle d (settled_outcome d tg) now (w_db w) = Inr s' \<Longrightarrow>
    qstep w (w\<lparr>w_db := s', w_sessions := (w_sessions w)(dl_attempt d := None)\<rparr>)"
| release_nested: "w_sessions w (dl_attempt d) = Some (Replied d True tg) \<Longrightarrow>
    settle d Technical_failure now (w_db w) = Inr s' \<Longrightarrow>
    qstep w (w\<lparr>w_db := s', w_sessions := (w_sessions w)(dl_attempt d := None)\<rparr>)"
| drop: "qstep w (w\<lparr>w_sessions := (w_sessions w)(aid := None)\<rparr>)"

inductive qpath :: "qworld \<Rightarrow> qworld \<Rightarrow> bool" where
  here: "qpath w w"
| onward: "qpath w w' \<Longrightarrow> qstep w' w'' \<Longrightarrow> qpath w w''"

definition qreach :: "qworld \<Rightarrow> bool" where "qreach w \<longleftrightarrow> qpath init_qworld w"

subsection \<open>The rows\<close>

text \<open>What no statement changes of a row.\<close>

definition same_attempt :: "qa_attempt \<Rightarrow> qa_attempt \<Rightarrow> bool" where
  "same_attempt a b \<longleftrightarrow> at_id b = at_id a \<and> at_key b = at_key a \<and> at_user b = at_user a \<and>
     at_day b = at_day a \<and> at_slot b = at_slot a"

lemma same_attempt_simps [simp]:
  "same_attempt a a"
  "same_attempt a (a\<lparr>at_status := st\<rparr>)" "same_attempt a (a\<lparr>at_final := t\<rparr>)"
  by (simp_all add: same_attempt_def)

definition rows_ok :: "qdb \<Rightarrow> bool" where
  "rows_ok s \<longleftrightarrow> (\<forall>a \<in> set (q_attempts s). ck_attempt a) \<and> unique_slots (q_attempts s) \<and>
     unique_keys (q_attempts s) \<and> ids_below at_id (q_next s) (q_attempts s)"

lemma attempts_update_ok:
  "attempts_update p f s = Inr (n, s') \<longleftrightarrow>
     (\<forall>a \<in> set (q_attempts s). p a \<longrightarrow> ck_attempt (f a)) \<and>
     unique_slots (update_where p f (q_attempts s)) \<and>
     n = length (filter p (q_attempts s)) \<and> s' = s\<lparr>q_attempts := update_where p f (q_attempts s)\<rparr>"
  by (auto simp: attempts_update_def Let_def list_all_iff)

lemma attempts_insert_ok:
  "attempts_insert row s = Inr (aid, s') \<longleftrightarrow>
     ck_attempt (row\<lparr>at_id := q_next s\<rparr>) \<and> unique_slots (q_attempts s @ [row\<lparr>at_id := q_next s\<rparr>]) \<and>
     unique_keys (q_attempts s @ [row\<lparr>at_id := q_next s\<rparr>]) \<and> aid = q_next s \<and>
     s' = s\<lparr>q_attempts := q_attempts s @ [row\<lparr>at_id := q_next s\<rparr>], q_next := q_next s + 1\<rparr>"
  by (auto simp: attempts_insert_def Let_def)

lemma map_same_attempt:
  assumes "\<And>a. a \<in> set t \<Longrightarrow> same_attempt a (g a)"
  shows "map at_key (map g t) = map at_key t" "map at_id (map g t) = map at_id t"
  using assms by (simp_all add: same_attempt_def)

lemma rows_ok_update:
  assumes "rows_ok s" "attempts_update p f s = Inr (n, s')" "\<And>a. same_attempt a (f a)"
  shows "rows_ok s'"
proof -
  let ?g = "\<lambda>a. if p a then f a else a"
  from assms(2) have s': "q_attempts s' = map ?g (q_attempts s)" "q_next s' = q_next s"
    and ck: "\<forall>a \<in> set (q_attempts s). p a \<longrightarrow> ck_attempt (f a)" and u: "unique_slots (q_attempts s')"
    by (auto simp: attempts_update_ok update_where_def)
  have g: "same_attempt a (?g a)" for a using assms(3) by simp
  have "unique_keys (q_attempts s')" "ids_below at_id (q_next s') (q_attempts s')"
    using assms(1) g unfolding s' rows_ok_def unique_keys_def
    by (auto simp: map_same_attempt ids_below_map same_attempt_def comp_def cong: if_cong)
  then show ?thesis using assms(1) ck u by (auto simp: rows_ok_def s')
qed

text \<open>
  An attempt is charged when it holds a slot with its delivery recorded.  \<open>db_move X\<close>: the constraints
  survive, and so does every charge but those of the attempts in \<open>X\<close>.
\<close>

definition charged :: "int \<Rightarrow> qdb \<Rightarrow> bool" where
  "charged aid s \<longleftrightarrow> (\<exists>a \<in> set (q_attempts s). at_id a = aid \<and> holds_slot a \<and> at_delivery a \<noteq> None)"

definition db_move :: "int set \<Rightarrow> qdb \<Rightarrow> qdb \<Rightarrow> bool" where
  "db_move X s s' \<longleftrightarrow> (rows_ok s \<longrightarrow> rows_ok s') \<and> q_next s \<le> q_next s' \<and>
     (\<forall>aid. aid \<notin> X \<longrightarrow> charged aid s \<longrightarrow> charged aid s')"

lemma db_move_update:
  assumes "attempts_update p f s = Inr (n, s')" "\<And>a. same_attempt a (f a)"
    "\<And>a. p a \<Longrightarrow> at_id a \<notin> X \<Longrightarrow> holds_slot a \<Longrightarrow> at_delivery a \<noteq> None \<Longrightarrow> holds_slot (f a) \<and> at_delivery (f a) \<noteq> None"
  shows "db_move X s s'"
proof -
  have s': "s' = s\<lparr>q_attempts := update_where p f (q_attempts s)\<rparr>" using assms(1) by (simp add: attempts_update_ok)
  have "charged aid s'" if "aid \<notin> X" "charged aid s" for aid
  proof -
    from that obtain a where a: "a \<in> set (q_attempts s)" "at_id a = aid" "holds_slot a" "at_delivery a \<noteq> None"
      by (auto simp: charged_def)
    let ?b = "if p a then f a else a"
    have "?b \<in> set (q_attempts s')" using a(1) by (auto simp: s' set_update_where)
    moreover have "at_id ?b = aid \<and> holds_slot ?b \<and> at_delivery ?b \<noteq> None"
      using assms(2) [of a] assms(3) [of a] a that(1) by (auto simp: same_attempt_def)
    ultimately show ?thesis unfolding charged_def by blast
  qed
  then show ?thesis using rows_ok_update [OF _ assms(1,2)] by (auto simp: db_move_def s')
qed

lemma db_move_traces: "db_move X s s1 \<Longrightarrow> db_move X s (s1\<lparr>q_traces := t\<rparr>)"
  by (simp add: db_move_def rows_ok_def charged_def)

lemma db_move_insert:
  assumes "attempts_insert row s = Inr (aid, s')"
  shows "db_move {} s s'" "aid = q_next s" "q_next s' = q_next s + 1"
proof -
  note ok = assms [unfolded attempts_insert_ok]
  show "aid = q_next s" "q_next s' = q_next s + 1" using ok by simp_all
  have "rows_ok s'" if "rows_ok s"
    using that ok ids_below_append [of at_id "q_next s" "q_attempts s" "row\<lparr>at_id := q_next s\<rparr>"]
    by (auto simp: rows_ok_def)
  then show "db_move {} s s'" using ok by (auto simp: db_move_def charged_def)
qed

lemma same_quotaD:
  assumes "same_quota a b"
  shows "at_key b = at_key a" "at_id b = at_id a" "slot_key b = slot_key a" "holds_slot b = holds_slot a"
    "at_delivery b = at_delivery a" "ck_attempt b = ck_attempt a"
  using assms by (auto simp: same_quota_def slot_key_def holds_slot_def ck_attempt_def cong: attempt_status.case_cong)

lemma detach_rows:
  assumes "list_all2 same_quota t rows"
  shows "map at_key rows = map at_key t" "map at_id rows = map at_id t"
    "map slot_key (filter holds_slot rows) = map slot_key (filter holds_slot t)"
    "(\<forall>a \<in> set rows. ck_attempt a) = (\<forall>a \<in> set t. ck_attempt a)"
  using assms by (induction rule: list_all2_induct) (simp_all add: same_quotaD)

lemma db_move_detach:
  assumes "list_all2 same_quota (q_attempts s) rows"
  shows "db_move {} s (s\<lparr>q_attempts := rows\<rparr>)"
proof -
  note d = detach_rows [OF assms]
  have "rows_ok (s\<lparr>q_attempts := rows\<rparr>)" if "rows_ok s"
  proof -
    have "ids_below at_id (q_next s) rows"
      using that d(2) by (simp add: rows_ok_def ids_below_def) (metis (no_types, lifting) in_set_conv_nth length_map nth_map)
    then show ?thesis using that d by (simp add: rows_ok_def unique_slots_def unique_keys_def)
  qed
  moreover have "charged aid (s\<lparr>q_attempts := rows\<rparr>)" if "charged aid s" for aid
  proof -
    from that obtain a where a: "a \<in> set (q_attempts s)" "at_id a = aid" "holds_slot a" "at_delivery a \<noteq> None"
      by (auto simp: charged_def)
    from assms a(1) obtain b where b: "b \<in> set rows" "same_quota a b"
      by (metis in_set_conv_nth list_all2_conv_all_nth)
    then have "at_id b = aid \<and> holds_slot b \<and> at_delivery b \<noteq> None" using a by (simp add: same_quotaD)
    with b(1) show ?thesis unfolding charged_def by auto
  qed
  ultimately show ?thesis by (simp add: db_move_def)
qed

lemma one_row_ok: "one_row what r = Inr s' \<longleftrightarrow> r = (1, s')"
  by (cases r) (auto simp: one_row_def)

lemma moves_statements:
  "consume_stale user day before now s = Inr (n, s') \<Longrightarrow> db_move {} s s'"
  "release_stale user day before now s = Inr (n, s') \<Longrightarrow> db_move {} s s'"
  "attach_trace aid tid now s = Inr s' \<Longrightarrow> db_move {} s s'"
  "attach_embedding_call aid call now s = Inr s' \<Longrightarrow> db_move {} s s'"
  "touch aid now s = Inr s' \<Longrightarrow> db_move {} s s'"
  unfolding consume_stale_def release_stale_def attach_trace_def attach_embedding_call_def touch_def
    bindE_Inr_iff one_row_ok
  by (auto elim!: db_move_update simp: same_attempt_def holds_slot_def)

lemma mark_delivery_ok:
  assumes "mark_delivery_started aid out tr em sy now s = Inr s'"
  shows "db_move {} s s'" "charged aid s'" "out = Answered \<or> out = Abstained"
proof -
  let ?p = "\<lambda>a. is_reserved aid a \<and> at_delivery a = None"
  let ?f = "\<lambda>a. a\<lparr>at_outcome := Some out, at_trace := Some tr, at_embedding := Some em,
      at_synthesis := sy, at_progress := now, at_delivery := Some now\<rparr>"
  have up: "attempts_update ?p ?f s = Inr (1, s')" and o: "out = Answered \<or> out = Abstained"
    using assms by (auto simp: mark_delivery_started_def bindE_Inr_iff one_row_ok)
  show "db_move {} s s'" by (rule db_move_update [OF up]) (auto simp: same_attempt_def)
  have "filter ?p (q_attempts s) \<noteq> []" and s': "s' = s\<lparr>q_attempts := update_where ?p ?f (q_attempts s)\<rparr>"
    using up by (auto simp: attempts_update_ok)
  then obtain a where "a \<in> set (q_attempts s)" "?p a" by (auto simp: filter_empty_conv)
  then have "?f a \<in> set (q_attempts s')" "at_id (?f a) = aid" "holds_slot (?f a)"
    by (force simp: s' set_update_where is_reserved_def holds_slot_def)+
  then show "charged aid s'" unfolding charged_def by fastforce
  show "out = Answered \<or> out = Abstained" by (rule o)
qed

lemma finalize_moves:
  assumes "finalize aid out tr em sy now s = Inr s'"
  shows "db_move (if out = Technical_failure then {aid} else {}) s s'"
proof -
  let ?f = "\<lambda>a. a\<lparr>at_status := final_status out, at_outcome := Some out, at_trace := tr,
      at_embedding := em, at_synthesis := sy, at_progress := now, at_final := Some now\<rparr>"
  let ?X = "if out = Technical_failure then {aid} else {}"
  from assms obtain n s1 where up: "attempts_update (is_reserved aid) ?f s = Inr (n, s1)"
    and s': "s' = s1 \<or> (\<exists>t. s' = s1\<lparr>q_traces := t\<rparr>)"
    by (auto simp: finalize_def bindE_Inr_iff split: if_splits option.splits)
  have "db_move ?X s s1"
    by (rule db_move_update [OF up]) (auto simp: same_attempt_def is_reserved_def holds_slot_def final_status_def)
  then show ?thesis using s' by (auto intro: db_move_traces)
qed

subsection \<open>The invariant\<close>

text \<open>
  A session knows its own attempt; before its reply nothing is logged for it; from the intent on its
  attempt is charged.  Every logged reply that may have arrived is charged, unless it ran nested.
\<close>

definition session_ok :: "qworld \<Rightarrow> int \<Rightarrow> qphase \<Rightarrow> bool" where
  "session_ok w aid ph = (case ph of
     Asking \<Rightarrow> aid \<notin> sn_attempt ` set (w_log w)
   | Intending d nested \<Rightarrow> dl_attempt d = aid \<and> (nested \<longrightarrow> dl_outcome d = Abstained) \<and>
       (dl_outcome d = Answered \<or> dl_outcome d = Abstained) \<and> aid \<notin> sn_attempt ` set (w_log w) \<and> charged aid (w_db w)
   | Replied d nested tg \<Rightarrow> dl_attempt d = aid \<and> (dl_outcome d = Answered \<or> dl_outcome d = Abstained) \<and>
       \<lparr>sn_attempt = aid, sn_outcome = dl_outcome d, sn_tg = tg, sn_nested = nested\<rparr> \<in> set (w_log w))"

definition send_ok :: "qdb \<Rightarrow> qsend \<Rightarrow> bool" where
  "send_ok s m \<longleftrightarrow> sn_attempt m < q_next s \<and> (sn_nested m \<longrightarrow> sn_outcome m = Abstained) \<and>
     (sn_tg m \<noteq> Tg_rejected \<and> \<not> sn_nested m \<longrightarrow> charged (sn_attempt m) s)"

definition qinv :: "qworld \<Rightarrow> bool" where
  "qinv w \<longleftrightarrow> rows_ok (w_db w) \<and> distinct (map sn_attempt (w_log w)) \<and>
     (\<forall>m \<in> set (w_log w). send_ok (w_db w) m) \<and>
     (\<forall>aid ph. w_sessions w aid = Some ph \<longrightarrow> aid < q_next (w_db w) \<and> session_ok w aid ph)"

lemma qinv_init: "qinv init_qworld"
  by (simp add: qinv_def init_qworld_def rows_ok_def unique_slots_def unique_keys_def ids_below_def)

text \<open>A statement that moves the rows and ends at most the sessions whose charge it may drop.\<close>

lemma qinv_move:
  assumes "qinv w" "db_move X (w_db w) s'" "\<And>aid. sess aid = None \<or> sess aid = w_sessions w aid \<and> aid \<notin> X"
    "\<And>m. m \<in> set (w_log w) \<Longrightarrow> sn_attempt m \<in> X \<Longrightarrow> sn_tg m = Tg_rejected \<or> sn_nested m"
  shows "qinv (w\<lparr>w_db := s', w_sessions := sess\<rparr>)"
proof -
  let ?w = "w\<lparr>w_db := s', w_sessions := sess\<rparr>"
  have le: "q_next (w_db w) \<le> q_next s'" and ch: "charged aid s'" if "aid \<notin> X" "charged aid (w_db w)" for aid
    using assms(2) that by (auto simp: db_move_def)
  have le: "q_next (w_db w) \<le> q_next s'" and rows: "rows_ok s'"
    using assms(1,2) by (auto simp: db_move_def qinv_def)
  have "send_ok s' m" if "m \<in> set (w_log w)" for m
    using assms(1) assms(4) [OF that] ch [of "sn_attempt m"] le that by (auto simp: qinv_def send_ok_def)
  moreover have "aid < q_next s' \<and> session_ok ?w aid ph" if "sess aid = Some ph" for aid ph
  proof -
    have s: "w_sessions w aid = Some ph" "aid \<notin> X" using assms(3) [of aid] that by auto
    then have "aid < q_next (w_db w)" "session_ok w aid ph" using assms(1) by (auto simp: qinv_def)
    then show ?thesis using le ch [OF s(2)] by (auto simp: session_ok_def split: qphase.splits)
  qed
  ultimately show ?thesis using assms(1) rows by (simp add: qinv_def)
qed

lemma qinv_db: "qinv w \<Longrightarrow> db_move {} (w_db w) s' \<Longrightarrow> qinv (w\<lparr>w_db := s'\<rparr>)"
  using qinv_move [of w "{}" s' "w_sessions w"] by simp

lemma qinv_finalize:
  assumes "qinv w" "finalize aid out tr em sy now (w_db w) = Inr s'"
    "\<And>m. out = Technical_failure \<Longrightarrow> m \<in> set (w_log w) \<Longrightarrow> sn_attempt m = aid \<Longrightarrow> sn_tg m = Tg_rejected \<or> sn_nested m"
  shows "qinv (w\<lparr>w_db := s', w_sessions := (w_sessions w)(aid := None)\<rparr>)"
  by (rule qinv_move [OF assms(1) finalize_moves [OF assms(2)]]) (use assms(3) in \<open>auto split: if_splits\<close>)

lemma phase_of: "qinv w \<Longrightarrow> w_sessions w aid = Some ph \<Longrightarrow> session_ok w aid ph"
  by (simp add: qinv_def)

lemma qinv_session:
  assumes "qinv w" "aid < q_next (w_db w)" "session_ok w aid ph"
  shows "qinv (w\<lparr>w_sessions := (w_sessions w)(aid \<mapsto> ph)\<rparr>)"
  using assms unfolding qinv_def by (auto simp: session_ok_def split: qphase.splits)

lemma same_send:
  assumes "qinv w" "w_sessions w (dl_attempt d) = Some (Replied d nested tg)"
    "m \<in> set (w_log w)" "sn_attempt m = dl_attempt d"
  shows "sn_tg m = tg \<and> sn_nested m = nested"
proof -
  let ?m = "\<lparr>sn_attempt = dl_attempt d, sn_outcome = dl_outcome d, sn_tg = tg, sn_nested = nested\<rparr>"
  have "?m \<in> set (w_log w)" using phase_of [OF assms(1,2)] by (simp add: session_ok_def)
  moreover have "inj_on sn_attempt (set (w_log w))" using assms(1) by (simp add: qinv_def distinct_map)
  ultimately have "m = ?m" using assms(3,4) by (intro inj_onD [of sn_attempt "set (w_log w)"]) simp_all
  then show ?thesis by simp
qed

lemma qstep_inv:
  assumes "qstep w w'" "qinv w"
  shows "qinv w'"
  using assms
proof (induction rule: qstep.induct)
  case (consume user day before now w n s')
  then show ?case using qinv_db moves_statements(1) by blast
next
  case (release user day before now w n s')
  then show ?case using qinv_db moves_statements(2) by blast
next
  case (admit key user chat source day slot now w aid s')
  note i = db_move_insert [OF admit.hyps]
  have inv: "qinv (w\<lparr>w_db := s'\<rparr>)" by (rule qinv_db [OF admit.prems i(1)])
  have "aid \<notin> sn_attempt ` set (w_log w)" using admit.prems i(2) by (auto simp: qinv_def send_ok_def)
  then show ?case using qinv_session [OF inv, of aid Asking] i(2,3) by (simp add: session_ok_def)
next
  case (deny key user chat source day now w aid s')
  then show ?case using qinv_db db_move_insert(1) by blast
next
  case (trace aid tid now w s')
  then show ?case using qinv_db moves_statements(3) by blast
next
  case (embedding aid call now w s')
  then show ?case using qinv_db moves_statements(4) by blast
next
  case (renew aid now w s')
  then show ?case using qinv_db moves_statements(5) by blast
next
  case (detach w rows)
  then show ?case using qinv_db db_move_detach by blast
next
  case (give_up w aid tr em sy now s')
  have "aid \<notin> sn_attempt ` set (w_log w)" using phase_of [OF give_up.prems give_up.hyps(1)] by (simp add: session_ok_def)
  then show ?case using qinv_finalize [OF give_up.prems give_up.hyps(2)] by blast
next
  case (intend w d nested now s')
  note m = mark_delivery_ok [OF intend.hyps(3)]
  have inv: "qinv (w\<lparr>w_db := s'\<rparr>)" by (rule qinv_db [OF intend.prems m(1)])
  have "dl_attempt d < q_next s'"
    using intend.prems intend.hyps(1) m(1) by (fastforce simp: qinv_def db_move_def)
  then show ?case
    using qinv_session [OF inv, of "dl_attempt d" "Intending d nested"] phase_of [OF intend.prems intend.hyps(1)]
      m(2,3) intend.hyps(2) by (simp add: session_ok_def)
next
  case (intent_lost w d nested now s')
  have "dl_attempt d \<notin> sn_attempt ` set (w_log w)"
    using phase_of [OF intent_lost.prems intent_lost.hyps(1)] by (simp add: session_ok_def)
  then show ?case by (intro qinv_finalize [OF intent_lost.prems intent_lost.hyps(2) [unfolded settle_def]]) force
next
  case (reply w d nested tg)
  note p = phase_of [OF reply.prems reply.hyps]
  let ?m = "\<lparr>sn_attempt = dl_attempt d, sn_outcome = dl_outcome d, sn_tg = tg, sn_nested = nested\<rparr>"
  let ?w = "w\<lparr>w_sessions := (w_sessions w)(dl_attempt d \<mapsto> Replied d nested tg), w_log := w_log w @ [?m]\<rparr>"
  have new: "dl_attempt d \<notin> sn_attempt ` set (w_log w)" "send_ok (w_db w) ?m"
    using p reply.prems reply.hyps by (auto simp: session_ok_def send_ok_def qinv_def)
  have "aid < q_next (w_db w) \<and> session_ok ?w aid ph" if "w_sessions ?w aid = Some ph" for aid ph
  proof (cases "aid = dl_attempt d")
    case True
    then show ?thesis using that p reply.prems reply.hyps by (auto simp: session_ok_def qinv_def)
  next
    case False
    then have "w_sessions w aid = Some ph" using that by simp
    then have "aid < q_next (w_db w) \<and> session_ok w aid ph" using reply.prems by (simp add: qinv_def)
    then show ?thesis using False by (auto simp: session_ok_def split: qphase.splits)
  qed
  then show ?case using reply.prems new by (auto simp: qinv_def)
next
  case (settle w d nested tg now s')
  have "settled_outcome d tg = Technical_failure \<Longrightarrow> tg = Tg_rejected"
    using phase_of [OF settle.prems settle.hyps(1)] by (auto simp: session_ok_def settled_outcome_def split: if_splits)
  then show ?case
    using qinv_finalize [OF settle.prems settle.hyps(2) [unfolded settle_def]] same_send [OF settle.prems settle.hyps(1)]
    by blast
next
  case (release_nested w d tg now s')
  then show ?case
    using qinv_finalize [OF release_nested.prems release_nested.hyps(2) [unfolded settle_def]]
      same_send [OF release_nested.prems release_nested.hyps(1)] by blast
next
  case (drop w aid)
  then show ?case using qinv_move [of w "{}" "w_db w" "(w_sessions w)(aid := None)"] by (simp add: db_move_def)
qed

lemma qreach_inv: "qreach w \<Longrightarrow> qinv w"
proof -
  have "qpath v w \<Longrightarrow> qinv v \<Longrightarrow> qinv w" for v
    by (induction rule: qpath.induct) (auto intro: qstep_inv)
  then show "qreach w \<Longrightarrow> qinv w" by (simp add: qreach_def qinv_init)
qed

subsection \<open>Counting slots\<close>

lemma slots_unique:
  assumes "unique_slots t" "a \<in> set t" "b \<in> set t" "holds_slot a" "holds_slot b" "slot_key a = slot_key b"
  shows "a = b"
  using assms by (intro inj_onD [of slot_key "set (filter holds_slot t)"]) (simp_all add: unique_slots_def distinct_map)

lemma charges_injective:
  assumes "rows_ok s" "a \<in> set (q_attempts s)" "b \<in> set (q_attempts s)" "holds_slot a" "holds_slot b"
    "of_day u d a" "of_day u d b" "at_slot a = at_slot b"
  shows "a = b"
  by (rule slots_unique [of "q_attempts s"]) (use assms in \<open>auto simp: rows_ok_def of_day_def slot_key_def\<close>)

lemma slot_of_charge: "ck_attempt a \<Longrightarrow> holds_slot a \<Longrightarrow> at_slot a \<in> {Some 1, Some 2}"
  by (auto simp: ck_attempt_def holds_slot_def)

text \<open>Any list of distinct charged attempts of one user and day has at most two members.\<close>

lemma at_most_two_charges:
  assumes "rows_ok s" "distinct ids"
    "\<And>i. i \<in> set ids \<Longrightarrow> \<exists>a \<in> set (q_attempts s). at_id a = i \<and> holds_slot a \<and> of_day u d a"
  shows "length ids \<le> 2"
proof -
  define g where "g i = (SOME a. a \<in> set (q_attempts s) \<and> at_id a = i \<and> holds_slot a \<and> of_day u d a)" for i
  have g: "g i \<in> set (q_attempts s) \<and> at_id (g i) = i \<and> holds_slot (g i) \<and> of_day u d (g i)" if "i \<in> set ids" for i
    unfolding g_def by (rule someI_ex) (use assms(3) [OF that] in blast)
  have "inj_on (\<lambda>i. at_slot (g i)) (set ids)"
    using g charges_injective [OF assms(1)] by (intro inj_onI) metis
  moreover have "(\<lambda>i. at_slot (g i)) ` set ids \<subseteq> {Some 1, Some 2}"
    using g assms(1) slot_of_charge by (auto simp: rows_ok_def)
  ultimately have "card (set ids) \<le> card {Some (1::int), Some 2}" by (intro card_inj_on_le) auto
  then show ?thesis using assms(2) by (simp add: distinct_card card_insert_if)
qed

end
