(* ===== verification/SemanticFacts.thy ===== *)
theory SemanticFacts
  imports SemanticSystem
begin

section \<open>What admission and delivery do, exactly\<close>

text \<open>
  Admission as one function of the table, and both handlers' procedures as paths of \<open>qstep\<close>.
\<close>

subsection \<open>Reconciling stale reservations\<close>

text \<open>The specification: each stale reservation of the user is consumed if its delivery had started, else released.\<close>

definition reconciled :: "int \<Rightarrow> int \<Rightarrow> qa_attempt \<Rightarrow> qa_attempt" where
  "reconciled user now a =
     (if \<not> is_stale user (moscow_date now) (now - stale_reservation_after) a then a
      else if at_delivery a \<noteq> None then a\<lparr>at_status := Q_consumed, at_final := Some now\<rparr>
      else a\<lparr>at_status := Q_released, at_outcome := Some Technical_failure, at_final := Some now\<rparr>)"

lemma unique_slots_map:
  assumes "unique_slots t" "\<And>a. slot_key (g a) = slot_key a" "\<And>a. holds_slot (g a) \<Longrightarrow> holds_slot a"
  shows "unique_slots (map g t)"
proof -
  have sub: "set (map slot_key (filter holds_slot (map g t))) \<subseteq> set (map slot_key (filter holds_slot t))" for t
    using assms(2,3) by fastforce
  show ?thesis using assms(1)
  proof (induction t)
    case Nil
    then show ?case by (simp add: unique_slots_def)
  next
    case (Cons a t)
    have IH: "unique_slots (map g t)" using Cons by (auto simp: unique_slots_def split: if_splits)
    show ?case
    proof (cases "holds_slot (g a)")
      case True
      then have "slot_key a \<notin> set (map slot_key (filter holds_slot t))"
        using Cons.prems assms(3) by (simp add: unique_slots_def)
      then have "slot_key (g a) \<notin> set (map slot_key (filter holds_slot (map g t)))" using sub [of t] assms(2) by auto
      then show ?thesis using IH True by (simp add: unique_slots_def)
    next
      case False
      then show ?thesis using IH by (simp add: unique_slots_def)
    qed
  qed
qed

lemma moscow_day_start: "moscow_date (fst (moscow_day_bounds_utc now)) = moscow_date now"
  by (simp add: moscow_day_bounds_utc_def Let_def moscow_date_def)

lemma update_ok:
  assumes "rows_ok s" "\<And>a. slot_key (f a) = slot_key a" "\<And>a. p a \<Longrightarrow> holds_slot (f a) \<Longrightarrow> holds_slot a"
    "\<And>a. p a \<Longrightarrow> ck_attempt a \<Longrightarrow> ck_attempt (f a)"
  shows "attempts_update p f s = Inr (length (filter p (q_attempts s)), s\<lparr>q_attempts := update_where p f (q_attempts s)\<rparr>)"
proof -
  have "unique_slots (map (\<lambda>a. if p a then f a else a) (q_attempts s))"
    by (rule unique_slots_map) (use assms in \<open>auto simp: rows_ok_def split: if_splits\<close>)
  then show ?thesis using assms(1,4) by (simp add: attempts_update_ok update_where_def rows_ok_def)
qed

lemma release_stale_exact:
  assumes "rows_ok s"
  shows "\<exists>n. release_stale_reserved (\<lambda>x. x) user (moscow_date now) (now - stale_reservation_after) now s =
    Inr (n, s\<lparr>q_attempts := map (reconciled user now) (q_attempts s)\<rparr>)"
    "rows_ok (s\<lparr>q_attempts := map (reconciled user now) (q_attempts s)\<rparr>)"
proof -
  let ?st = "is_stale user (moscow_date now) (now - stale_reservation_after)"
  let ?f = "\<lambda>a. a\<lparr>at_status := Q_consumed, at_final := Some now\<rparr>"
  let ?g = "\<lambda>a. a\<lparr>at_status := Q_released, at_outcome := Some Technical_failure, at_final := Some now\<rparr>"
  let ?s1 = "s\<lparr>q_attempts := update_where (\<lambda>a. ?st a \<and> at_delivery a \<noteq> None) ?f (q_attempts s)\<rparr>"
  have "\<exists>n. consume_stale user (moscow_date now) (now - stale_reservation_after) now s = Inr (n, ?s1)"
    unfolding consume_stale_def
    by (rule exI, rule update_ok [OF assms]) (auto simp: is_stale_def slot_key_def holds_slot_def ck_attempt_def)
  then obtain n where c: "consume_stale user (moscow_date now) (now - stale_reservation_after) now s = Inr (n, ?s1)" ..
  have ok1: "rows_ok ?s1"
    by (rule rows_ok_update [OF assms c [unfolded consume_stale_def]]) (simp add: same_attempt_def)
  let ?s2 = "?s1\<lparr>q_attempts := update_where (\<lambda>a. ?st a \<and> at_delivery a = None) ?g (q_attempts ?s1)\<rparr>"
  have "\<exists>m. release_stale user (moscow_date now) (now - stale_reservation_after) now ?s1 = Inr (m, ?s2)"
    unfolding release_stale_def
    by (rule exI, rule update_ok [OF ok1]) (auto simp: is_stale_def slot_key_def holds_slot_def ck_attempt_def)
  then obtain m where r: "release_stale user (moscow_date now) (now - stale_reservation_after) now ?s1 = Inr (m, ?s2)" ..
  have ok2: "rows_ok ?s2"
    by (rule rows_ok_update [OF ok1 r [unfolded release_stale_def]]) (simp add: same_attempt_def)
  have eq: "?s2 = s\<lparr>q_attempts := map (reconciled user now) (q_attempts s)\<rparr>"
    by (auto simp: update_where_def reconciled_def is_stale_def)
  show "\<exists>n. release_stale_reserved (\<lambda>x. x) user (moscow_date now) (now - stale_reservation_after) now s =
      Inr (n, s\<lparr>q_attempts := map (reconciled user now) (q_attempts s)\<rparr>)"
    using c r unfolding eq by (simp add: release_stale_reserved_def)
  show "rows_ok (s\<lparr>q_attempts := map (reconciled user now) (q_attempts s)\<rparr>)" using ok2 unfolding eq .
qed

subsection \<open>Admission\<close>

definition held :: "int \<Rightarrow> int \<Rightarrow> qa_attempt list \<Rightarrow> qa_attempt list" where
  "held user day t = filter (\<lambda>a. of_day user day a \<and> holds_slot a) t"

lemma used_slots_exact:
  assumes "rows_ok s"
  shows "length (used_slots u d s) = length (held u d (q_attempts s))" (is ?len)
    "map Some (used_slots u d s) = map at_slot (held u d (q_attempts s))" (is ?slots)
    "set (used_slots u d s) \<subseteq> {1, 2}" (is ?sub) "distinct (used_slots u d s)" (is ?dist)
proof -
  let ?h = "held u d (q_attempts s)"
  have h: "a \<in> set (q_attempts s)" "of_day u d a" "holds_slot a" "at_slot a \<in> {Some 1, Some 2}" if "a \<in> set ?h" for a
    using that assms slot_of_charge by (auto simp: held_def rows_ok_def)
  have dist: "distinct ?h"
    using assms by (auto simp: held_def rows_ok_def ids_below_def distinct_map)
  have some: "\<forall>a \<in> set ?h. at_slot a \<noteq> None" using h(4) by fastforce
  have inj: "inj_on (\<lambda>a. the (at_slot a)) (set ?h)"
  proof (rule inj_onI)
    fix a b assume ab: "a \<in> set ?h" "b \<in> set ?h" "the (at_slot a) = the (at_slot b)"
    then have "at_slot a = at_slot b" using some by (metis option.expand)
    then show "a = b"
      by (rule charges_injective [OF assms h(1) [OF ab(1)] h(1) [OF ab(2)] h(3) [OF ab(1)] h(3) [OF ab(2)]
            h(2) [OF ab(1)] h(2) [OF ab(2)]])
  qed
  have c: "concat (map (\<lambda>a. case at_slot a of None \<Rightarrow> [] | Some n \<Rightarrow> [n]) t) = map (\<lambda>a. the (at_slot a)) t"
    if "\<forall>a \<in> set t. at_slot a \<noteq> None" for t using that by (induction t) auto
  have "distinct (map (\<lambda>a. the (at_slot a)) ?h)" using dist inj by (simp add: distinct_map)
  then have eq: "used_slots u d s = map (\<lambda>a. the (at_slot a)) ?h"
    by (simp only: used_slots_def held_def [symmetric] c [OF some] distinct_remdups_id)
  then show ?len by simp
  show ?slots unfolding eq map_map by (rule map_cong [OF refl]) (use some in auto)
  show ?sub using h(4) eq by force
  show ?dist using dist inj by (simp add: eq distinct_map)
qed

lemma free_slot:
  assumes "distinct used" "set used \<subseteq> {1, 2 :: int}"
  shows "(List.find (\<lambda>n. n \<notin> set used) [1, 2] = None) = (length used \<ge> 2)" "length used \<le> 2"
proof -
  have len: "length used = card (set used)" using assms(1) by (simp add: distinct_card)
  have two: "card {1, 2 :: int} = 2" by simp
  show le: "length used \<le> 2" using card_mono [OF _ assms(2)] by (simp add: len)
  have "(List.find (\<lambda>n. n \<notin> set used) [1, 2] = None) = (set used = {1, 2})" using assms(2) by auto
  also have "\<dots> = (length used \<ge> 2)"
    using card_subset_eq [OF _ assms(2)] le len two by (metis finite.emptyI finite.insertI le_antisym order_refl)
  finally show "(List.find (\<lambda>n. n \<notin> set used) [1, 2] = None) = (length used \<ge> 2)" .
qed

lemma insert_ok:
  assumes "rows_ok s" "ck_attempt (row\<lparr>at_id := q_next s\<rparr>)" "at_key row \<notin> at_key ` set (q_attempts s)"
    "holds_slot row \<Longrightarrow> at_slot row \<notin> at_slot ` set (held (at_user row) (at_day row) (q_attempts s))"
  shows "attempts_insert row s = Inr (q_next s,
    s\<lparr>q_attempts := q_attempts s @ [row\<lparr>at_id := q_next s\<rparr>], q_next := q_next s + 1\<rparr>)"
proof -
  have "unique_slots (q_attempts s @ [row\<lparr>at_id := q_next s\<rparr>])"
    using assms(1,4) by (fastforce simp: unique_slots_def rows_ok_def held_def of_day_def slot_key_def holds_slot_def)
  moreover have "unique_keys (q_attempts s @ [row\<lparr>at_id := q_next s\<rparr>])"
    using assms(1,3) by (auto simp: unique_keys_def rows_ok_def)
  ultimately show ?thesis using assms(2) by (simp add: attempts_insert_ok)
qed

lemma find_free: "List.find (\<lambda>n. n \<notin> set used) [1, 2] = Some n \<Longrightarrow> (n = 1 \<or> n = 2) \<and> n \<notin> set used"
  by (auto split: if_splits)

text \<open>The row an admission appends: reserved in the slot found, or denied.\<close>

definition admitted_row :: "string \<Rightarrow> int \<Rightarrow> int \<Rightarrow> int option \<Rightarrow> int \<Rightarrow> int option \<Rightarrow> int \<Rightarrow> qa_attempt" where
  "admitted_row key user chat source now slot aid =
     (new_attempt key user chat source (moscow_date now) slot (if slot = None then Q_denied else Q_reserved)
        (if slot = None then Some Quota_denied else None) now)\<lparr>at_id := aid\<rparr>"

lemma reserve_result:
  fixes s :: qdb and user now :: int
  assumes ok: "rows_ok s" and key: "key \<noteq> []" "length key \<le> 128"
  defines "rows \<equiv> map (reconciled user now) (q_attempts s)"
  defines "full \<equiv> held user (moscow_date now) rows"
  shows "\<exists>d s'. reserve (\<lambda>_ s. s) key user chat source now 2 s = Inr (d, s') \<and> qd_used d = length full \<and>
    (if key \<in> at_key ` set rows then qd_replayed d \<and> \<not> qd_allowed d \<and> q_attempts s' = rows
     else \<not> qd_replayed d \<and> qd_attempt d = q_next s \<and> (qd_allowed d \<longleftrightarrow> length full < 2) \<and>
       (\<exists>slot. q_attempts s' = rows @ [admitted_row key user chat source now slot (q_next s)] \<and>
          (slot = None \<longleftrightarrow> \<not> length full < 2) \<and> (slot \<noteq> None \<longrightarrow> slot \<notin> at_slot ` set full)))"
proof -
  let ?s1 = "s\<lparr>q_attempts := rows\<rparr>"
  have ok1: "rows_ok ?s1" using release_stale_exact(2) [OF ok] by (simp add: rows_def)
  obtain n where rel: "release_stale_reserved (\<lambda>x. x) user (moscow_date now) (now - stale_reservation_after) now s = Inr (n, ?s1)"
    using release_stale_exact(1) [OF ok] by (auto simp: rows_def)
  define used where "used = used_slots user (moscow_date now) ?s1"
  have u: "length used = length full" "map Some used = map at_slot full" "set used \<subseteq> {1, 2}" "distinct used"
    using used_slots_exact [OF ok1] by (simp_all add: used_def full_def)
  have slots: "Some m \<in> at_slot ` set full \<longleftrightarrow> m \<in> set used" for m
    using arg_cong [OF u(2), of set] by (auto simp: image_iff)
  have res: "reserve (\<lambda>_ s. s) key user chat source now 2 s =
     (case fetch at_key key rows of
       Some e \<Rightarrow> Inr (\<lparr>qd_allowed = False, qd_attempt = at_id e, qd_used = length full, qd_limit = 2,
           qd_resets = snd (moscow_day_bounds_utc now), qd_replayed = True, qd_status = Some (at_status e),
           qd_outcome = at_outcome e, qd_trace = at_trace e\<rparr>, ?s1)
     | None \<Rightarrow> (case List.find (\<lambda>n. n \<notin> set used) [1, 2] of
         None \<Rightarrow> bindE (attempts_insert (new_attempt key user chat source (moscow_date now) None Q_denied (Some Quota_denied) now) ?s1)
             (\<lambda>(aid, s5). Inr (\<lparr>qd_allowed = False, qd_attempt = aid, qd_used = length full, qd_limit = 2,
               qd_resets = snd (moscow_day_bounds_utc now), qd_replayed = False, qd_status = Some Q_denied,
               qd_outcome = Some Quota_denied, qd_trace = None\<rparr>, s5))
       | Some n \<Rightarrow> bindE (attempts_insert (new_attempt key user chat source (moscow_date now) (Some n) Q_reserved None now) ?s1)
             (\<lambda>(aid, s5). Inr (\<lparr>qd_allowed = True, qd_attempt = aid, qd_used = length full, qd_limit = 2,
               qd_resets = snd (moscow_day_bounds_utc now), qd_replayed = False, qd_status = Some Q_reserved,
               qd_outcome = None, qd_trace = None\<rparr>, s5))))"
    using key rel u(1) moscow_day_start [of now]
    by (simp add: reserve_def daily_llm_question_limit_def case_prod_beta Let_def used_def [symmetric] active_count_def
        held_def [symmetric] full_def [symmetric] cong: option.case_cong)
  show ?thesis
  proof (cases "fetch at_key key rows")
    case (Some e)
    then have "key \<in> at_key ` set rows" by (auto dest: fetch_Some)
    then show ?thesis unfolding res Some by simp
  next
    case None
    then have new: "key \<notin> at_key ` set rows" by (simp add: fetch_None_iff)
    show ?thesis
    proof (cases "List.find (\<lambda>n. n \<notin> set used) [1, 2]")
      case no: None
      have ins: "attempts_insert (new_attempt key user chat source (moscow_date now) None Q_denied (Some Quota_denied) now) ?s1 =
          Inr (q_next s, ?s1\<lparr>q_attempts := rows @ [admitted_row key user chat source now None (q_next s)], q_next := q_next s + 1\<rparr>)"
        using insert_ok [OF ok1, of "new_attempt key user chat source (moscow_date now) None Q_denied (Some Quota_denied) now"] new
        by (simp add: new_attempt_def ck_attempt_def holds_slot_def admitted_row_def)
      have "\<not> length full < 2" using no free_slot(1) [OF u(4,3)] u(1) by simp
      then show ?thesis unfolding res None no option.case ins using new by auto
    next
      case (Some n)
      note n = find_free [OF Some]
      have ins: "attempts_insert (new_attempt key user chat source (moscow_date now) (Some n) Q_reserved None now) ?s1 =
          Inr (q_next s, ?s1\<lparr>q_attempts := rows @ [admitted_row key user chat source now (Some n) (q_next s)], q_next := q_next s + 1\<rparr>)"
        using insert_ok [OF ok1, of "new_attempt key user chat source (moscow_date now) (Some n) Q_reserved None now"] new n slots
        by (auto simp: new_attempt_def ck_attempt_def holds_slot_def admitted_row_def full_def)
      have "length full < 2" using Some free_slot [OF u(4,3)] u(1) by fastforce
      then show ?thesis unfolding res None Some option.case ins using new n slots by auto
    qed
  qed
qed

subsection \<open>Delivery\<close>

lemma db_move_charged: "db_move {} s s' \<Longrightarrow> charged aid s \<Longrightarrow> charged aid s'"
  by (simp add: db_move_def)

lemma settle_moves:
  assumes "settle d out now s = Inr s'"
  shows "db_move (if out = Technical_failure then {dl_attempt d} else {}) s s'"
  using finalize_moves assms unfolding settle_def by blast

text \<open>A reply that Telegram did not refuse leaves its attempt charged.\<close>

lemma deliver_charges:
  assumes "deliver env fault tg now d s = (durable, r, replies, s')" "tg \<noteq> Tg_rejected"
    "\<And>t. db_move {} t (env 1 t)"
  shows "(durable = False \<and> replies = []) \<or> (durable \<and> replies = [Reply_text tg] \<and> charged (dl_attempt d) s')"
proof (cases "mark_delivery_started (dl_attempt d) (dl_outcome d) (dl_trace d) (dl_embedding d) (dl_synthesis d) now s")
  case (Inl e)
  then show ?thesis using assms(1) by (auto simp: deliver_def split: if_splits)
next
  case (Inr s1)
  note m = mark_delivery_ok [OF Inr]
  have c2: "charged (dl_attempt d) (env 1 s1)" by (rule db_move_charged [OF assms(3) m(2)])
  have out: "settled_outcome d tg \<noteq> Technical_failure" using m(3) assms(2) by (auto simp: settled_outcome_def)
  have c3: "charged (dl_attempt d) s3" if "settle d (settled_outcome d tg) now (env 1 s1) = Inr s3" for s3
    using db_move_charged [OF _ c2, of s3] settle_moves [OF that] out by simp
  show ?thesis using assms(1) Inr c2 c3 by (auto simp: deliver_def Let_def split: if_splits sum.splits)
qed

lemma delivery_charges:
  assumes "deliver_and_consume env fault check tg now d s = (r, replies, s')" "tg \<noteq> Tg_rejected"
    "\<And>n t. db_move {} t (env n t)" "Reply_text tg' \<in> set replies"
  shows "tg' = tg \<and> charged (dl_attempt d) s'"
proof -
  obtain durable r1 rs s1 where run: "deliver env fault tg now d (env 0 s) = (durable, r1, rs, s1)"
    by (metis prod_cases4)
  have pre: "Reply_text tg' \<notin> set more'" if "release_pre_delivery env now d t = (q, more', t')" for t q more' t'
    using that by (auto simp: release_pre_delivery_def split: sum.splits)
  note d = deliver_charges [OF run assms(2,3)]
  show ?thesis
  proof (cases "fault = Fault_at_start \<or> check = Question_check False \<or> (\<exists>g e. check = Evidence_check g e \<and> \<not> (g \<and> e))")
    case True
    then show ?thesis using assms(1,4) pre
      by (fastforce simp: deliver_and_consume_def delivery_handlers_def Let_def split: if_splits sum.splits prod.splits)
  next
    case False
    then have "delivery_handlers env now d (durable, r1, rs, s1) = (r, replies, s')"
      using run assms(1) by (auto simp: deliver_and_consume_def Let_def split: governance.splits)
    moreover from this have "durable" using assms(4) d pre [of s1 r replies s']
      by (auto simp: delivery_handlers_def split: if_splits prod.splits)
    ultimately show ?thesis using assms(4) d
      by (auto simp: delivery_handlers_def split: if_splits)
  qed
qed

subsection \<open>Delivery as a path of steps\<close>

text \<open>What other transactions commit, as an argument of a handler, is itself a path that leaves its session alone.\<close>

definition env_path :: "(nat \<Rightarrow> qdb \<Rightarrow> qdb) \<Rightarrow> int \<Rightarrow> bool" where
  "env_path env aid \<longleftrightarrow> (\<forall>n v. \<exists>v'. qpath v v' \<and> w_db v' = env n (w_db v) \<and> w_sessions v' aid = w_sessions v aid \<and>
     set (w_log v) \<subseteq> set (w_log v'))"

lemma qpath_trans: "qpath v w \<Longrightarrow> qpath u v \<Longrightarrow> qpath u w"
  by (induction rule: qpath.induct) (auto intro: qpath.intros)

lemma qpath_one: "qstep w w' \<Longrightarrow> qpath w w'"
  by (blast intro: qpath.intros)

definition sent_of :: "delivery \<Rightarrow> bool \<Rightarrow> tg_outcome \<Rightarrow> qsend" where
  "sent_of d nested tg = \<lparr>sn_attempt = dl_attempt d, sn_outcome = dl_outcome d, sn_tg = tg, sn_nested = nested\<rparr>"

definition undelivered :: "delivery \<Rightarrow> bool \<Rightarrow> qworld \<Rightarrow> bool" where
  "undelivered d nested w \<longleftrightarrow> w_sessions w (dl_attempt d) = Some Asking \<or>
     w_sessions w (dl_attempt d) = Some (Intending d nested)"

lemma release_step:
  assumes "undelivered d nested w" "settle d Technical_failure now (w_db w) = Inr s'"
  shows "qstep w (w\<lparr>w_db := s', w_sessions := (w_sessions w)(dl_attempt d := None)\<rparr>)"
  using assms(1) unfolding undelivered_def
proof
  assume "w_sessions w (dl_attempt d) = Some Asking"
  then show ?thesis using assms(2) [unfolded settle_def] by (rule qstep.give_up)
next
  assume "w_sessions w (dl_attempt d) = Some (Intending d nested)"
  then show ?thesis using assms(2) by (rule qstep.intent_lost)
qed

lemma deliver_path:
  assumes run: "deliver env fault tg now d (w_db w) = (durable, r, replies, s')"
    and sess: "w_sessions w (dl_attempt d) = Some Asking" and n: "nested \<longrightarrow> dl_outcome d = Abstained"
    and env: "env_path env (dl_attempt d)"
  shows "\<exists>w'. qpath w w' \<and> w_db w' = s' \<and> (\<not> durable \<longrightarrow> replies = [] \<and> undelivered d nested w') \<and>
    (durable \<longrightarrow> replies = [Reply_text tg] \<and> sent_of d nested tg \<in> set (w_log w')) \<and>
    (durable \<and> r = Inl Database_exn \<longrightarrow> w_sessions w' (dl_attempt d) = Some (Replied d nested tg))"
proof (cases "fault = Fault_at_intent \<or> (\<exists>e. mark_delivery_started (dl_attempt d) (dl_outcome d) (dl_trace d)
    (dl_embedding d) (dl_synthesis d) now (w_db w) = Inl e)")
  case True
  then have "\<not> durable \<and> replies = [] \<and> s' = w_db w" using run by (auto simp: deliver_def split: if_splits)
  then show ?thesis using sess qpath.here [of w] by (auto simp: undelivered_def)
next
  case False
  then obtain s1 where s1: "mark_delivery_started (dl_attempt d) (dl_outcome d) (dl_trace d) (dl_embedding d)
      (dl_synthesis d) now (w_db w) = Inr s1"
    by (metis sum.exhaust)
  define w1 where "w1 = w\<lparr>w_db := s1, w_sessions := (w_sessions w)(dl_attempt d \<mapsto> Intending d nested)\<rparr>"
  have p1: "qpath w w1" unfolding w1_def by (rule qpath_one, rule qstep.intend [OF sess n s1])
  show ?thesis
  proof (cases "fault = Fault_after_intent")
    case True
    then have "\<not> durable \<and> replies = [] \<and> s' = s1" using run False s1 by (auto simp: deliver_def split: if_splits)
    then show ?thesis using p1 by (auto simp: undelivered_def w1_def)
  next
    case late: False
    obtain v where v: "qpath w1 v" "w_db v = env 1 s1" "w_sessions v (dl_attempt d) = Some (Intending d nested)"
      using env [unfolded env_path_def, THEN spec, of 1, THEN spec, of w1] by (auto simp: w1_def)
    define u where "u = v\<lparr>w_sessions := (w_sessions v)(dl_attempt d \<mapsto> Replied d nested tg),
        w_log := w_log v @ [sent_of d nested tg]\<rparr>"
    have u: "qpath w u" unfolding u_def sent_of_def
      by (rule qpath.onward [OF qpath_trans [OF v(1) p1] qstep.reply [OF v(3)]])
    have settled: "qstep u (u\<lparr>w_db := s3, w_sessions := (w_sessions u)(dl_attempt d := None)\<rparr>)"
      if "settle d (settled_outcome d tg) now (env 1 s1) = Inr s3" for s3
      by (rule qstep.settle) (use that v(2) in \<open>simp_all add: u_def\<close>)
    show ?thesis
    proof (cases "fault = Fault_at_settle \<or> (\<exists>e. settle d (settled_outcome d tg) now (env 1 s1) = Inl e)")
      case True
      then have "durable \<and> replies = [Reply_text tg] \<and> s' = env 1 s1"
        using run False s1 late by (auto simp: deliver_def Let_def split: if_splits)
      then show ?thesis using u v(2) by (intro exI [of _ u]) (simp add: u_def)
    next
      case ok: False
      then obtain s3 where s3: "settle d (settled_outcome d tg) now (env 1 s1) = Inr s3" by (metis sum.exhaust)
      then have "durable \<and> replies = [Reply_text tg] \<and> s' = s3 \<and> r \<noteq> Inl Database_exn"
        using run False s1 late ok by (auto simp: deliver_def Let_def telegram_result_def split: tg_outcome.splits if_splits)
      then show ?thesis using qpath.onward [OF u settled [OF s3]] by (fastforce simp: u_def)
    qed
  qed
qed

lemma env_pathD:
  assumes "env_path env aid"
  obtains v' where "qpath v v'" "w_db v' = env n (w_db v)" "w_sessions v' aid = w_sessions v aid"
    "set (w_log v) \<subseteq> set (w_log v')"
  using assms unfolding env_path_def by blast

text \<open>A handler whose session is open at \<open>w\<close> ends in a world whose rows and replies are those it computes.\<close>

definition ends_as :: "delivery \<Rightarrow> bool \<Rightarrow> tg_outcome \<Rightarrow> qworld \<Rightarrow> (qa_exn + unit) \<times> qa_reply list \<times> qdb \<Rightarrow> qworld \<Rightarrow> bool" where
  "ends_as d nested tg w ended w' \<longleftrightarrow> (case ended of (r, replies, s') \<Rightarrow>
     qpath w w' \<and> w_db w' = s' \<and>
     (\<forall>x. Reply_text x \<in> set replies \<longrightarrow> x = tg \<and> sent_of d nested tg \<in> set (w_log w')) \<and>
     (r = Inl Database_exn \<longrightarrow> undelivered d nested w' \<or> w_sessions w' (dl_attempt d) = Some (Replied d nested tg)))"

lemma ends_as_trans: "qpath w v \<Longrightarrow> ends_as d nested tg v ended w' \<Longrightarrow> ends_as d nested tg w ended w'"
  by (cases ended) (auto simp: ends_as_def intro: qpath_trans)

lemma release_pre_path:
  assumes "release_pre_delivery env now d (w_db w) = (r, replies, s')" "undelivered d nested w" "env_path env (dl_attempt d)"
  shows "\<exists>w'. ends_as d nested tg w (r, replies, s') w'"
proof -
  obtain v where v: "qpath w v" "w_db v = env 2 (w_db w)" "undelivered d nested v"
    using env_pathD [OF assms(3), of w 2] assms(2) unfolding undelivered_def by metis
  show ?thesis
  proof (cases "settle d Technical_failure now (env 2 (w_db w))")
    case (Inl e)
    then have "replies = [] \<and> s' = env 2 (w_db w)" using assms(1) by (simp add: release_pre_delivery_def)
    then show ?thesis using v by (intro exI [of _ v]) (simp add: ends_as_def)
  next
    case (Inr s1)
    then have "r = Inr () \<and> replies = [Reply_released] \<and> s' = s1" using assms(1) by (simp add: release_pre_delivery_def)
    moreover have "qstep v (v\<lparr>w_db := s1, w_sessions := (w_sessions v)(dl_attempt d := None)\<rparr>)"
      by (rule release_step [OF v(3)]) (use Inr v(2) in simp)
    ultimately show ?thesis using qpath.onward [OF v(1)] by (fastforce simp: ends_as_def)
  qed
qed

lemma delivery_path:
  assumes run: "deliver_and_consume env fault check tg now d (w_db w) = (r, replies, s')"
    and sess: "w_sessions w (dl_attempt d) = Some Asking" and n: "nested \<longrightarrow> dl_outcome d = Abstained"
    and env: "env_path env (dl_attempt d)"
  shows "\<exists>w'. ends_as d nested tg w (r, replies, s') w'"
proof -
  obtain v where v: "qpath w v" "w_db v = env 0 (w_db w)" "w_sessions v (dl_attempt d) = Some Asking"
    using env_pathD [OF env, of w 0] sess by metis
  have from_v: "\<exists>w'. ends_as d nested tg w ended w'" if "\<exists>w'. ends_as d nested tg v ended w'" for ended
    using that ends_as_trans [OF v(1)] by blast
  have open_v: "undelivered d nested v" using v(3) by (simp add: undelivered_def)
  have handled: "\<exists>w'. ends_as d nested tg v (r, replies, s') w'"
    if "delivery_handlers env now d (durable, r1, rs, t) = (r, replies, s')" "qpath v u" "w_db u = t"
      "\<not> durable \<longrightarrow> undelivered d nested u" "\<forall>x. Reply_text x \<in> set rs \<longrightarrow> x = tg \<and> sent_of d nested tg \<in> set (w_log u)"
      "durable \<and> r1 = Inl Database_exn \<longrightarrow> w_sessions u (dl_attempt d) = Some (Replied d nested tg)"
      "\<not> durable \<longrightarrow> rs = []" for durable r1 rs t u
  proof (cases "r1 = Inl Database_exn \<and> \<not> durable")
    case True
    then have "release_pre_delivery env now d (w_db u) = (r, replies, s')" "undelivered d nested u"
      using that by (auto simp: delivery_handlers_def split: prod.splits)
    from release_pre_path [OF this env] show ?thesis using ends_as_trans [OF that(2)] by blast
  next
    case False
    then have "s' = t" "set replies \<subseteq> set rs \<union> {Reply_lease_lost}" "r = Inl Database_exn \<longrightarrow> r1 = Inl Database_exn \<and> durable"
      using that(1) by (auto simp: delivery_handlers_def split: if_splits)
    then have "Reply_text x \<in> set rs" if "Reply_text x \<in> set replies" for x using that by blast
    then show ?thesis unfolding ends_as_def prod.case
      using that(2-6) \<open>s' = t\<close> \<open>r = Inl Database_exn \<longrightarrow> r1 = Inl Database_exn \<and> durable\<close>
      by (intro exI [of _ u]) blast
  qed
  consider (start) "fault = Fault_at_start" | (gone) "fault \<noteq> Fault_at_start" "check = Question_check False"
    | (stale) g e where "fault \<noteq> Fault_at_start" "check = Evidence_check g e" "\<not> (g \<and> e)"
    | (go) "fault \<noteq> Fault_at_start" "check = Unchecked \<or> check = Question_check True \<or> check = Evidence_check True True"
    by (metis governance.exhaust)
  then show ?thesis
  proof cases
    case start
    then show ?thesis using run v(2) open_v by (intro from_v handled [of False "Inl Database_exn" "[]" "w_db v" v])
      (auto simp: deliver_and_consume_def qpath.here)
  next
    case stale
    then show ?thesis using run v(2) open_v by (intro from_v handled [of False "Inl Evidence_invalidated" "[]" "w_db v" v])
      (auto simp: deliver_and_consume_def qpath.here)
  next
    case gone
    show ?thesis
    proof (cases "settle d Technical_failure now (w_db v)")
      case (Inl e)
      then show ?thesis using run v(2) open_v gone by (intro from_v handled [of False "Inl (exn_of e)" "[]" "w_db v" v])
        (auto simp: deliver_and_consume_def qpath.here)
    next
      case (Inr s1)
      then have "(r, replies, s') = (Inr (), [Reply_deleted], s1)"
        using run v(2) gone by (simp add: deliver_and_consume_def Let_def delivery_handlers_def)
      then show ?thesis using qpath_one [OF release_step [OF open_v Inr]] by (intro from_v) (fastforce simp: ends_as_def)
    qed
  next
    case go
    obtain durable r1 rs t where d: "deliver env fault tg now d (w_db v) = (durable, r1, rs, t)" by (metis prod_cases4)
    obtain u where "qpath v u" "w_db u = t" "\<not> durable \<longrightarrow> rs = [] \<and> undelivered d nested u"
      "durable \<longrightarrow> rs = [Reply_text tg] \<and> sent_of d nested tg \<in> set (w_log u)"
      "durable \<and> r1 = Inl Database_exn \<longrightarrow> w_sessions u (dl_attempt d) = Some (Replied d nested tg)"
      using deliver_path [OF d v(3) n env] by blast
    moreover have "delivery_handlers env now d (durable, r1, rs, t) = (r, replies, s')"
      using run go d v(2) by (auto simp: deliver_and_consume_def)
    ultimately show ?thesis by (intro from_v handled [of durable r1 rs t u]) auto
  qed
qed

lemma no_value:
  "out \<noteq> Quota_denied \<Longrightarrow> settle d out now s \<noteq> Inl (Value_error what)"
  "dl_outcome d = Abstained \<Longrightarrow>
     mark_delivery_started (dl_attempt d) (dl_outcome d) tr em sy now s \<noteq> Inl (Value_error what)"
  by (auto simp: settle_def finalize_def mark_delivery_started_def attempts_update_def one_row_def Let_def
      split: if_splits option.splits)

lemma exn_of_value: "exn_of e = Value_exn \<longleftrightarrow> (\<exists>what. e = Value_error what)"
  by (cases e) auto

lemma no_value_exn:
  assumes "deliver_and_consume env fault Unchecked tg now d s = (r, replies, s')" "dl_outcome d = Abstained"
  shows "r \<noteq> Inl Value_exn"
proof -
  have o: "settled_outcome d tg \<noteq> Quota_denied" using assms(2) by (simp add: settled_outcome_def)
  obtain durable r1 rs t where run: "deliver env fault tg now d (env 0 s) = (durable, r1, rs, t)" by (metis prod_cases4)
  have "r1 \<noteq> Inl Value_exn"
    using run no_value(1) [OF o] no_value(2) [OF assms(2)]
    by (auto simp: deliver_def Let_def exn_of_value telegram_result_def split: if_splits sum.splits tg_outcome.splits)
  moreover have "fst (release_pre_delivery env now d t) \<noteq> Inl Value_exn" for t
    using no_value(1) [of Technical_failure] by (auto simp: release_pre_delivery_def exn_of_value split: sum.splits)
  ultimately show ?thesis using assms(1) run
    by (auto simp: deliver_and_consume_def delivery_handlers_def Let_def split: if_splits prod.splits) (metis fst_conv)+
qed

text \<open>
  The abstentions of the render phase: the same path, then the phase's own handler.  Its world is not
  one of a plain delivery: the release follows a reply.
\<close>

lemma render_phase_path:
  assumes run: "render_phase_abstention env fault tg now d (w_db w) = (r, replies, s')"
    and sess: "w_sessions w (dl_attempt d) = Some Asking" and env: "env_path env (dl_attempt d)"
  shows "\<exists>w'. qpath w w' \<and> w_db w' = s' \<and>
    (\<forall>x. Reply_text x \<in> set replies \<longrightarrow> x = tg \<and> sent_of (d\<lparr>dl_outcome := Abstained\<rparr>) True tg \<in> set (w_log w'))"
proof -
  let ?d = "d\<lparr>dl_outcome := Abstained\<rparr>"
  obtain r1 rs t where run1: "deliver_and_consume env fault Unchecked tg now ?d (w_db w) = (r1, rs, t)" by (metis prod_cases3)
  obtain u where u: "ends_as ?d True tg w (r1, rs, t) u"
    using delivery_path [OF run1, of True] sess env by auto
  then have u': "qpath w u" "w_db u = t" "\<forall>x. Reply_text x \<in> set rs \<longrightarrow> x = tg \<and> sent_of ?d True tg \<in> set (w_log u)"
    unfolding ends_as_def prod.case by blast+
  have plain: ?thesis if "s' = t" "\<forall>x. Reply_text x \<in> set replies \<longrightarrow> Reply_text x \<in> set rs"
    using u' that by (intro exI [of _ u]) blast
  have not_value: "r1 \<noteq> Inl Value_exn" by (rule no_value_exn [OF run1]) simp
  show ?thesis
  proof (cases "r1 = Inl Database_exn")
    case False
    then show ?thesis using run run1 not_value
      by (intro plain) (auto simp: render_phase_abstention_def split: if_splits)
  next
    case True
    have sets: "settle d = settle ?d" by (intro ext) (simp add: settle_def)
    obtain v where v: "qpath u v" "w_db v = env 3 t" "w_sessions v (dl_attempt d) = w_sessions u (dl_attempt d)"
      "set (w_log u) \<subseteq> set (w_log v)" using env_pathD [OF env, of u 3] u'(2) by metis
    show ?thesis
    proof (cases "settle d Technical_failure now (env 3 t)")
      case (Inl e)
      then have "replies = rs \<and> s' = env 3 t" using run run1 True by (simp add: render_phase_abstention_def)
      then show ?thesis using u' v qpath_trans [OF v(1) u'(1)] by (intro exI [of _ v]) blast
    next
      case (Inr s2)
      then have fin: "replies = rs @ [Reply_fallback] \<and> s' = s2" using run run1 True by (simp add: render_phase_abstention_def)
      have "qstep v (v\<lparr>w_db := s2, w_sessions := (w_sessions v)(dl_attempt ?d := None)\<rparr>)"
      proof (cases "undelivered ?d True u")
        case True
        then show ?thesis using Inr v by (intro release_step) (auto simp: undelivered_def sets [symmetric])
      next
        case False
        then have "w_sessions u (dl_attempt d) = Some (Replied ?d True tg)"
          using u \<open>r1 = Inl Database_exn\<close> by (simp add: ends_as_def)
        then show ?thesis using Inr v by (intro qstep.release_nested [of v ?d tg]) (simp_all add: sets)
      qed
      then show ?thesis using qpath.onward [OF qpath_trans [OF v(1) u'(1)]] u'(3) v(4) fin by fastforce
    qed
  qed
qed

end
