(* ===== verification/SemanticOnce.thy ===== *)
theory SemanticOnce
  imports SemanticFacts
begin

section \<open>The database of the quota without sessions\<close>

text \<open>
  The committed statements of any number of handlers, repeated updates and reconciliations, in any order
  and with any attempt id: nothing here says which handler may deliver which attempt, or how often.  What
  keeps a question from being answered twice must come from the statements themselves.
\<close>

inductive qmove :: "qdb \<Rightarrow> qdb \<Rightarrow> bool" where
  consume: "consume_stale user day before now s = Inr (n, s') \<Longrightarrow> qmove s s'"
| release: "release_stale user day before now s = Inr (n, s') \<Longrightarrow> qmove s s'"
| insert: "attempts_insert (new_attempt key user chat source day slot st out now) s = Inr (aid, s') \<Longrightarrow> qmove s s'"
| trace: "attach_trace aid tid now s = Inr s' \<Longrightarrow> qmove s s'"
| embedding: "attach_embedding_call aid call now s = Inr s' \<Longrightarrow> qmove s s'"
| renew: "touch aid now s = Inr s' \<Longrightarrow> qmove s s'"
| intend: "mark_delivery_started aid out tr em sy now s = Inr s' \<Longrightarrow> qmove s s'"
| finish: "finalize aid out tr' em' sy now s = Inr s' \<Longrightarrow> qmove s s'"
| detach: "list_all2 same_quota (q_attempts s) rows \<Longrightarrow> qmove s (s\<lparr>q_attempts := rows\<rparr>)"

text \<open>What other transactions commit between the statements of a handler.\<close>

definition others_commit :: "(nat \<Rightarrow> qdb \<Rightarrow> qdb) \<Rightarrow> bool" where
  "others_commit env \<longleftrightarrow> (\<forall>n s. qmove\<^sup>*\<^sup>* s (env n s))"

definition empty_qdb :: qdb where
  "empty_qdb = \<lparr>q_attempts = [], q_traces = [], q_next = 1\<rparr>"

subsection \<open>A row once spent stays spent\<close>

text \<open>No new intent can be recorded on a row that is settled or has its delivery recorded.\<close>

definition spent_row :: "qa_attempt \<Rightarrow> bool" where
  "spent_row a \<longleftrightarrow> at_status a \<noteq> Q_reserved \<or> at_delivery a \<noteq> None"

definition follows_row :: "qa_attempt \<Rightarrow> qa_attempt \<Rightarrow> bool" where
  "follows_row a b \<longleftrightarrow> at_id b = at_id a \<and> at_key b = at_key a \<and> (spent_row a \<longrightarrow> spent_row b)"

lemma follows_update:
  assumes "attempts_update p f s = Inr (n, s')" "\<And>a. p a \<Longrightarrow> follows_row a (f a)"
  shows "list_all2 follows_row (q_attempts s) (q_attempts s') \<and> q_next s' = q_next s"
proof -
  have "follows_row a (if p a then f a else a)" for a using assms(2) by (simp add: follows_row_def)
  then show ?thesis using assms(1) by (auto simp: attempts_update_ok update_where_def list_all2_conv_all_nth)
qed

text \<open>A move keeps the rows, as rows that follow them, and adds at most one with a fresh id.\<close>

definition rows_follow :: "qdb \<Rightarrow> qdb \<Rightarrow> bool" where
  "rows_follow s s' \<longleftrightarrow> q_next s \<le> q_next s' \<and>
     (\<exists>t new. q_attempts s' = t @ new \<and> list_all2 follows_row (q_attempts s) t \<and> (\<forall>a \<in> set new. at_id a = q_next s))"

lemma rows_follow_same:
  "list_all2 follows_row (q_attempts s) (q_attempts s') \<and> q_next s' = q_next s \<Longrightarrow> rows_follow s s'"
  unfolding rows_follow_def by (intro conjI exI [of _ "q_attempts s'"] exI [of _ "[]"]) simp_all

lemma qmove_follow:
  assumes "qmove s s'"
  shows "rows_follow s s'"
  using assms
proof cases
  case consume
  then show ?thesis unfolding consume_stale_def
    by (intro rows_follow_same) (erule follows_update, simp add: follows_row_def spent_row_def)
next
  case release
  then show ?thesis unfolding release_stale_def
    by (intro rows_follow_same) (erule follows_update, simp add: follows_row_def spent_row_def)
next
  case insert
  then show ?thesis
    unfolding rows_follow_def attempts_insert_ok
    by (elim conjE, intro conjI exI [of _ "q_attempts s"] exI) (simp, simp, auto simp: list_all2_same follows_row_def)
next
  case trace
  then show ?thesis unfolding attach_trace_def bindE_Inr_iff one_row_ok
    by (intro rows_follow_same) (elim exE conjE, simp, erule follows_update, simp add: follows_row_def spent_row_def)
next
  case embedding
  then show ?thesis unfolding attach_embedding_call_def bindE_Inr_iff one_row_ok
    by (intro rows_follow_same) (elim exE conjE, simp, erule follows_update, simp add: follows_row_def spent_row_def)
next
  case renew
  then show ?thesis unfolding touch_def bindE_Inr_iff one_row_ok
    by (intro rows_follow_same) (elim exE conjE, simp, erule follows_update, simp add: follows_row_def spent_row_def)
next
  case intend
  then show ?thesis unfolding mark_delivery_started_def bindE_Inr_iff one_row_ok
    by (intro rows_follow_same) (elim exE conjE, simp, erule follows_update, simp add: follows_row_def spent_row_def)
next
  case (finish aid out tr em sy now)
  then obtain n s1 where up: "attempts_update (is_reserved aid) (\<lambda>a. a\<lparr>at_status := final_status out, at_outcome := Some out,
      at_trace := tr, at_embedding := em, at_synthesis := sy, at_progress := now, at_final := Some now\<rparr>) s = Inr (n, s1)"
    and s': "q_attempts s' = q_attempts s1 \<and> q_next s' = q_next s1"
    by (auto simp: finalize_def bindE_Inr_iff split: if_splits option.splits)
  have "list_all2 follows_row (q_attempts s) (q_attempts s1) \<and> q_next s1 = q_next s"
    by (rule follows_update [OF up]) (simp add: follows_row_def spent_row_def final_status_def)
  with s' show ?thesis by (intro rows_follow_same) simp
next
  case (detach rows)
  have "follows_row a b" if "same_quota a b" for a b
    using that by (auto simp: same_quota_def follows_row_def spent_row_def)
  with detach show ?thesis by (intro rows_follow_same) (auto intro: list_all2_mono)
qed

subsection \<open>What every run keeps\<close>

lemma qmove_rows_ok: "qmove s s' \<Longrightarrow> rows_ok s \<Longrightarrow> rows_ok s'"
proof -
  assume m: "qmove s s'" and rows: "rows_ok s"
  from m have "\<exists>X. db_move X s s'"
  proof cases
    case detach
    then show ?thesis using db_move_detach by blast
  qed (blast dest: moves_statements db_move_insert(1) mark_delivery_ok(1) finalize_moves)+
  with rows show "rows_ok s'" by (auto simp: db_move_def)
qed

lemma qmoves_rows_ok: "qmove\<^sup>*\<^sup>* s s' \<Longrightarrow> rows_ok s \<Longrightarrow> rows_ok s'"
  by (induction rule: rtranclp_induct) (auto intro: qmove_rows_ok)

lemma rows_ok_empty: "rows_ok empty_qdb"
  by (simp add: empty_qdb_def rows_ok_def unique_slots_def unique_keys_def ids_below_def)

definition row_at :: "int \<Rightarrow> string \<Rightarrow> qdb \<Rightarrow> bool" where
  "row_at aid key s \<longleftrightarrow> (\<exists>a \<in> set (q_attempts s). at_id a = aid \<and> at_key a = key)"

definition spent :: "int \<Rightarrow> qdb \<Rightarrow> bool" where
  "spent aid s \<longleftrightarrow> aid < q_next s \<and> (\<forall>a \<in> set (q_attempts s). at_id a = aid \<longrightarrow> spent_row a)"

lemma follow_row_at:
  assumes "rows_follow s s'" "row_at aid key s"
  shows "row_at aid key s'"
proof -
  from assms(2) obtain i where i: "i < length (q_attempts s)" "at_id (q_attempts s ! i) = aid" "at_key (q_attempts s ! i) = key"
    by (auto simp: row_at_def in_set_conv_nth)
  from assms(1) obtain t new where t: "q_attempts s' = t @ new" "list_all2 follows_row (q_attempts s) t"
    by (auto simp: rows_follow_def)
  with i have "t ! i \<in> set (q_attempts s') \<and> at_id (t ! i) = aid \<and> at_key (t ! i) = key"
    by (auto simp: list_all2_conv_all_nth follows_row_def)
  then show ?thesis unfolding row_at_def by blast
qed

lemma follow_spent:
  assumes "rows_follow s s'" "spent aid s"
  shows "spent aid s'"
proof -
  from assms(1) obtain t new where t: "q_attempts s' = t @ new" "list_all2 follows_row (q_attempts s) t"
    and new: "\<forall>a \<in> set new. at_id a = q_next s" and le: "q_next s \<le> q_next s'"
    by (auto simp: rows_follow_def)
  have "spent_row b" if b: "b \<in> set t" "at_id b = aid" for b
  proof -
    from b(1) obtain i where i: "i < length t" "b = t ! i" by (auto simp: in_set_conv_nth)
    with t(2) have "follows_row (q_attempts s ! i) b" "q_attempts s ! i \<in> set (q_attempts s)"
      by (auto simp: list_all2_conv_all_nth)
    with assms(2) b(2) show ?thesis by (auto simp: follows_row_def spent_def)
  qed
  with t(1) new le assms(2) show ?thesis by (auto simp: spent_def)
qed

lemma qmoves_keep:
  assumes "qmove\<^sup>*\<^sup>* s s'"
  shows "row_at aid key s \<Longrightarrow> row_at aid key s'" "spent aid s \<Longrightarrow> spent aid s'"
  using assms by (induction rule: rtranclp_induct) (auto dest: qmove_follow follow_row_at follow_spent)

subsection \<open>The intent is recorded once\<close>

lemma spent_refuses: "spent aid s \<Longrightarrow> mark_delivery_started aid out tr em sy now s \<noteq> Inr s'"
  by (auto simp: mark_delivery_started_def bindE_Inr_iff one_row_ok attempts_update_ok spent_def spent_row_def is_reserved_def
      filter_empty_conv dest!: arg_cong [where f = "\<lambda>n. n = 0"])

lemma mark_spends:
  assumes "mark_delivery_started aid out tr em sy now s = Inr s'" "rows_ok s"
  shows "spent aid s'"
proof -
  let ?p = "\<lambda>a. is_reserved aid a \<and> at_delivery a = None"
  let ?f = "\<lambda>a. a\<lparr>at_outcome := Some out, at_trace := Some tr, at_embedding := Some em,
      at_synthesis := sy, at_progress := now, at_delivery := Some now\<rparr>"
  have up: "attempts_update ?p ?f s = Inr (1, s')"
    using assms by (auto simp: mark_delivery_started_def bindE_Inr_iff one_row_ok)
  then have s': "s' = s\<lparr>q_attempts := update_where ?p ?f (q_attempts s)\<rparr>" and "filter ?p (q_attempts s) \<noteq> []"
    by (auto simp: attempts_update_ok)
  then obtain a where "a \<in> set (q_attempts s)" "at_id a = aid" by (auto simp: filter_empty_conv is_reserved_def)
  with assms(2) have "aid < q_next s" by (auto simp: rows_ok_def ids_below_def)
  moreover have "spent_row b" if "b \<in> set (q_attempts s')" "at_id b = aid" for b
  proof -
    from that(1) have "b \<in> (\<lambda>c. if ?p c then ?f c else c) ` set (q_attempts s)" by (simp add: s' update_where_def)
    then obtain c where "b = (if ?p c then ?f c else c)" by (rule imageE)
    with that(2) show ?thesis by (auto simp: spent_row_def is_reserved_def split: if_splits)
  qed
  ultimately show ?thesis by (simp add: spent_def s')
qed

subsection \<open>The handlers' functions as runs\<close>

lemma others_moves: "others_commit env \<Longrightarrow> qmove\<^sup>*\<^sup>* s t \<Longrightarrow> qmove\<^sup>*\<^sup>* s (env n t)"
  unfolding others_commit_def by (meson rtranclp_trans)

lemma settle_moves_db: "settle d out now s = Inr s' \<Longrightarrow> qmove s s'"
  unfolding settle_def by (rule qmove.finish)

text \<open>A reply is only sent after the intent is committed, on the state the checks ended in.\<close>

lemma delivery_intends:
  assumes "deliver_and_consume env fault check tg now d s = (r, replies, s')" "Reply_text t \<in> set replies"
  shows "\<exists>sm. mark_delivery_started (dl_attempt d) (dl_outcome d) (dl_trace d) (dl_embedding d) (dl_synthesis d) now (env 0 s) = Inr sm"
  using assms
  by (auto simp: deliver_and_consume_def deliver_def delivery_handlers_def release_pre_delivery_def Let_def
      split: if_splits governance.splits sum.splits prod.splits)

lemma reserve_runs:
  assumes env: "others_commit env" and run: "reserve env key user chat source now limit s = Inr (q, s')"
  shows "\<exists>t. qmove\<^sup>*\<^sup>* s t \<and> (case fetch at_key key (q_attempts t) of
      Some e \<Rightarrow> qd_replayed q \<and> \<not> qd_allowed q \<and> qd_attempt q = at_id e \<and> qmove\<^sup>*\<^sup>* t s'
    | None \<Rightarrow> \<not> qd_replayed q \<and> row_at (qd_attempt q) key s' \<and> qmove\<^sup>*\<^sup>* t s')"
proof -
  let ?day = "moscow_date (fst (moscow_day_bounds_utc now))"
  obtain n s1 where stale: "release_stale_reserved (env 1) user ?day (now - stale_reservation_after) now (env 0 s) = Inr (n, s1)"
    using run by (auto simp: reserve_def bindE_Inr_iff Let_def split: prod.splits)
  then obtain n1 n2 s0 where "consume_stale user ?day (now - stale_reservation_after) now (env 0 s) = Inr (n1, s0)"
      "release_stale user ?day (now - stale_reservation_after) now (env 1 s0) = Inr (n2, s1)"
    by (auto simp: release_stale_reserved_def bindE_Inr_iff)
  then have m: "qmove (env 0 s) s0" "qmove (env 1 s0) s1" by (blast intro: qmove.consume, blast intro: qmove.release)
  have "qmove\<^sup>*\<^sup>* s s0" by (rule rtranclp.rtrancl_into_rtrancl [OF others_moves [OF env rtranclp.rtrancl_refl] m(1)])
  then have "qmove\<^sup>*\<^sup>* s s1" by (rule rtranclp.rtrancl_into_rtrancl [OF others_moves [OF env] m(2)])
  then have t: "qmove\<^sup>*\<^sup>* s (env 2 s1)" by (rule others_moves [OF env])
  have t3: "qmove\<^sup>*\<^sup>* (env 2 s1) (env 3 (env 2 s1))" by (rule others_moves [OF env rtranclp.rtrancl_refl])
  have t4: "qmove\<^sup>*\<^sup>* (env 2 s1) (env 4 (env 3 (env 2 s1)))" by (rule others_moves [OF env t3])
  have new: "row_at aid key u \<and> qmove\<^sup>*\<^sup>* (env 2 s1) u"
    if "attempts_insert (new_attempt key user chat source ?day slot st out now) (env 4 (env 3 (env 2 s1))) = Inr (aid, u)" for slot st out aid u
  proof -
    have "row_at aid key u" using that by (auto simp: attempts_insert_ok row_at_def new_attempt_def)
    then show ?thesis using rtranclp.rtrancl_into_rtrancl [OF t4 qmove.insert [OF that]] by blast
  qed
  show ?thesis
  proof (intro exI conjI)
    show "qmove\<^sup>*\<^sup>* s (env 2 s1)" by (rule t)
    show "case fetch at_key key (q_attempts (env 2 s1)) of
        Some e \<Rightarrow> qd_replayed q \<and> \<not> qd_allowed q \<and> qd_attempt q = at_id e \<and> qmove\<^sup>*\<^sup>* (env 2 s1) s'
      | None \<Rightarrow> \<not> qd_replayed q \<and> row_at (qd_attempt q) key s' \<and> qmove\<^sup>*\<^sup>* (env 2 s1) s'"
      using run stale t3 new
      by (auto simp: reserve_def bindE_Inr_iff Let_def split: prod.splits option.splits)
  qed
qed

text \<open>A key that has a row is replayed, and names that row.\<close>

lemma known_key_replays:
  assumes rows: "rows_ok s" and row: "row_at aid key s" and env: "others_commit env"
    and run: "reserve env key user chat source now limit s = Inr (q, s')"
  shows "qd_replayed q \<and> \<not> qd_allowed q \<and> qd_attempt q = aid"
proof -
  from reserve_runs [OF env run] obtain t where t: "qmove\<^sup>*\<^sup>* s t" and res: "case fetch at_key key (q_attempts t) of
      Some e \<Rightarrow> qd_replayed q \<and> \<not> qd_allowed q \<and> qd_attempt q = at_id e \<and> qmove\<^sup>*\<^sup>* t s'
    | None \<Rightarrow> \<not> qd_replayed q \<and> row_at (qd_attempt q) key s' \<and> qmove\<^sup>*\<^sup>* t s'" by blast
  from qmoves_keep(1) [OF t row] obtain a where a: "a \<in> set (q_attempts t)" "at_id a = aid" "at_key a = key"
    by (auto simp: row_at_def)
  have "distinct (map at_key (q_attempts t))"
    using qmoves_rows_ok [OF t rows] by (simp add: rows_ok_def unique_keys_def)
  then have "fetch at_key key (q_attempts t) = Some a" using fetch_distinct a(1,3) by metis
  with res a(2) show ?thesis by simp
qed

end
