(* ===== verification/SemanticProperties.thy ===== *)
theory SemanticProperties
  imports SemanticOnce
begin

section \<open>Properties of the semantic quota\<close>

text \<open>
  Over all runs of \<open>qstep\<close> from the empty table, and over the handlers' functions.  The scenario answers
  two questions of user 7 on one day; the second run shows the one path on which a reply is not charged.
\<close>

subsection \<open>A scenario\<close>

text \<open>One question admitted, delivered with the outcome given and settled as \<open>fin\<close>.\<close>

definition demo_delivery :: "int \<Rightarrow> qa_outcome \<Rightarrow> delivery" where
  "demo_delivery aid out = \<lparr>dl_attempt = aid, dl_outcome = out, dl_trace = 50, dl_embedding = 60, dl_synthesis = Some 70\<rparr>"

lemma demo_delivery_simps [simp]:
  "dl_attempt (demo_delivery aid out) = aid" "dl_outcome (demo_delivery aid out) = out"
  "dl_trace (demo_delivery aid out) = 50" "dl_embedding (demo_delivery aid out) = 60"
  "dl_synthesis (demo_delivery aid out) = Some 70"
  by (simp_all add: demo_delivery_def)

definition demo_row :: "string \<Rightarrow> int \<Rightarrow> qa_attempt" where
  "demo_row key slot = new_attempt key 7 (- 100) (Some 5) 20000 (Some slot) Q_reserved None 1000"

definition demo_admit :: "string \<Rightarrow> int \<Rightarrow> qdb \<Rightarrow> quota_error + int \<times> qdb" where
  "demo_admit key slot s = attempts_insert (demo_row key slot) s"

definition demo_settle :: "qa_outcome \<Rightarrow> qa_outcome \<Rightarrow> int \<Rightarrow> qdb \<Rightarrow> quota_error + qdb" where
  "demo_settle out fin aid s =
     bindE (mark_delivery_started aid out 50 60 (Some 70) 1100 s) (settle (demo_delivery aid out) fin 1200)"

definition demo_round :: "string \<Rightarrow> int \<Rightarrow> qa_outcome \<Rightarrow> qa_outcome \<Rightarrow> qdb \<Rightarrow> quota_error + qdb" where
  "demo_round key slot out fin s = bindE (demo_admit key slot s) (\<lambda>(aid, s1). demo_settle out fin aid s1)"

definition demo_sent :: "int \<Rightarrow> qa_outcome \<Rightarrow> bool \<Rightarrow> qsend" where
  "demo_sent aid out nested = \<lparr>sn_attempt = aid, sn_outcome = out, sn_tg = Tg_accepted, sn_nested = nested\<rparr>"

lemma demo_round_path:
  assumes "demo_round key slot out fin (w_db w) = Inr s'" "nested \<longrightarrow> out = Abstained"
    "fin = out \<or> nested \<and> fin = Technical_failure"
  shows "qpath w (w\<lparr>w_db := s', w_sessions := (w_sessions w)(q_next (w_db w) := None),
    w_log := w_log w @ [demo_sent (q_next (w_db w)) out nested]\<rparr>)"
proof -
  let ?aid = "q_next (w_db w)" let ?d = "demo_delivery ?aid out"
  from assms(1) obtain aid s1 s2 where s: "demo_admit key slot (w_db w) = Inr (aid, s1)"
    "mark_delivery_started aid out 50 60 (Some 70) 1100 s1 = Inr s2" "settle (demo_delivery aid out) fin 1200 s2 = Inr s'"
    by (auto simp: demo_round_def demo_settle_def bindE_Inr_iff)
  have aid: "aid = ?aid" using s(1) by (auto simp: demo_admit_def attempts_insert_ok)
  define w1 where "w1 = w\<lparr>w_db := s1, w_sessions := (w_sessions w)(?aid \<mapsto> Asking)\<rparr>"
  define w2 where "w2 = w1\<lparr>w_db := s2, w_sessions := (w_sessions w1)(dl_attempt ?d \<mapsto> Intending ?d nested)\<rparr>"
  define w3 where "w3 = w2\<lparr>w_sessions := (w_sessions w2)(dl_attempt ?d \<mapsto> Replied ?d nested Tg_accepted),
    w_log := w_log w2 @ [demo_sent ?aid out nested]\<rparr>"
  define w4 where "w4 = w3\<lparr>w_db := s', w_sessions := (w_sessions w3)(dl_attempt ?d := None)\<rparr>"
  have "qstep w w1" unfolding w1_def
    by (rule qstep.admit) (use s(1) aid in \<open>simp add: demo_admit_def demo_row_def\<close>)
  moreover have "qstep w1 w2" unfolding w2_def
    by (rule qstep.intend) (use s(2) aid assms(2) in \<open>simp_all add: w1_def\<close>)
  moreover have "qstep w2 w3"
    using qstep.reply [of w2 ?d nested Tg_accepted] by (simp add: w3_def w2_def demo_sent_def)
  moreover have "qstep w3 w4"
    using assms(3)
  proof
    assume "fin = out"
    then show ?thesis unfolding w4_def using s(3) aid
      by (intro qstep.settle [of w3 ?d nested Tg_accepted]) (simp_all add: w3_def w2_def settled_outcome_def)
  next
    assume "nested \<and> fin = Technical_failure"
    then show ?thesis unfolding w4_def using s(3) aid
      by (intro qstep.release_nested [of w3 ?d Tg_accepted]) (simp_all add: w3_def w2_def)
  qed
  moreover have "w4 = w\<lparr>w_db := s', w_sessions := (w_sessions w)(?aid := None), w_log := w_log w @ [demo_sent ?aid out nested]\<rparr>"
    by (simp add: w4_def w3_def w2_def w1_def)
  ultimately show ?thesis by (metis qpath_one qpath_trans)
qed

definition demo_world :: "qdb \<Rightarrow> qsend list \<Rightarrow> qworld" where
  "demo_world s log = \<lparr>w_db = s, w_sessions = (\<lambda>_. None), w_log = log\<rparr>"

lemma demo_world_round:
  assumes "qreach (demo_world s log)" "demo_round key slot out fin s = Inr s'" "nested \<longrightarrow> out = Abstained"
    "fin = out \<or> nested \<and> fin = Technical_failure"
  shows "qreach (demo_world s' (log @ [demo_sent (q_next s) out nested]))"
proof -
  have "qpath (demo_world s log) (demo_world s' (log @ [demo_sent (q_next s) out nested]))"
    using demo_round_path [of key slot out fin "demo_world s log" s' nested] assms(2-4)
    by (simp add: demo_world_def fun_upd_idem)
  with assms(1) show ?thesis unfolding qreach_def by (rule qpath_trans [rotated])
qed

definition demo_db :: "qdb" where "demo_db = \<lparr>q_attempts = [], q_traces = [], q_next = 1\<rparr>"

definition two_answers :: "quota_error + qdb" where
  "two_answers = bindE (demo_round ''chat-message:1'' 1 Answered Answered demo_db)
     (demo_round ''chat-message:2'' 2 Answered Answered)"

definition leaked :: "quota_error + qdb" where
  "leaked = bindE (demo_round ''chat-message:1'' 1 Abstained Technical_failure demo_db) (\<lambda>s1.
     bindE (demo_round ''chat-message:2'' 1 Abstained Technical_failure s1)
     (demo_round ''chat-message:3'' 1 Abstained Technical_failure))"

lemma demo_db_reach: "qreach (demo_world demo_db [])"
  by (simp add: qreach_def demo_world_def demo_db_def init_qworld_def [symmetric] qpath.here)

lemma two_answers_ok: "is_ok two_answers" by code_simp

lemma leaked_ok: "is_ok leaked" by code_simp

definition two_answers_world :: qworld where
  "two_answers_world = demo_world (projr two_answers) [demo_sent 1 Answered False, demo_sent 2 Answered False]"

lemma demo_round_next: "demo_round key slot out fin s = Inr s' \<Longrightarrow> q_next s' = q_next s + 1"
  by (auto simp: demo_round_def demo_admit_def demo_settle_def bindE_Inr_iff attempts_insert_ok attempts_update_ok
      mark_delivery_started_def one_row_ok settle_def finalize_def split: if_splits option.splits)

lemma two_answers_reach: "qreach two_answers_world"
proof -
  obtain s1 s2 where s: "demo_round ''chat-message:1'' 1 Answered Answered demo_db = Inr s1"
    "demo_round ''chat-message:2'' 2 Answered Answered s1 = Inr s2" "two_answers = Inr s2"
    using two_answers_ok by (auto simp: two_answers_def is_ok_iff bindE_Inr_iff)
  have "qreach (demo_world s1 ([] @ [demo_sent 1 Answered False]))"
    using demo_world_round [OF demo_db_reach s(1), of False] by (simp add: demo_db_def)
  from demo_world_round [OF this s(2), of False] show ?thesis
    using demo_round_next [OF s(1)] by (simp add: two_answers_world_def s(3) demo_db_def)
qed

definition leaked_world :: qworld where
  "leaked_world = demo_world (projr leaked)
     [demo_sent 1 Abstained True, demo_sent 2 Abstained True, demo_sent 3 Abstained True]"

lemma leaked_reach: "qreach leaked_world"
proof -
  obtain s1 s2 s3 where s: "demo_round ''chat-message:1'' 1 Abstained Technical_failure demo_db = Inr s1"
    "demo_round ''chat-message:2'' 1 Abstained Technical_failure s1 = Inr s2"
    "demo_round ''chat-message:3'' 1 Abstained Technical_failure s2 = Inr s3" "leaked = Inr s3"
    using leaked_ok by (auto simp: leaked_def is_ok_iff bindE_Inr_iff)
  have 1: "qreach (demo_world s1 ([] @ [demo_sent 1 Abstained True]))"
    using demo_world_round [OF demo_db_reach s(1), of True] by (simp add: demo_db_def)
  have 2: "qreach (demo_world s2 ([demo_sent 1 Abstained True] @ [demo_sent 2 Abstained True]))"
    using demo_world_round [OF 1 s(2), of True] demo_round_next [OF s(1)] by (simp add: demo_db_def)
  show ?thesis
    using demo_world_round [OF 2 s(3), of True] demo_round_next [OF s(1)] demo_round_next [OF s(2)]
    by (simp add: leaked_world_def s(4) demo_db_def)
qed

subsection \<open>The quota\<close>

text \<open>
  C4. Two answers a day: whatever the handlers, the failures and the reconciliation do, at most two
  replies to the questions of one member on one Moscow day may have reached the chat, counting every
  reply that Telegram did not definitively refuse; only the abstentions of the render phase are outside
  the count, and no answer is one of them.
\<close>

theorem at_most_two_answers:
  assumes "qreach w"
  shows "length (filter (\<lambda>m. sn_tg m \<noteq> Tg_rejected \<and> \<not> sn_nested m \<and>
      list_ex (\<lambda>a. at_id a = sn_attempt m \<and> of_day u d a) (q_attempts (w_db w))) (w_log w)) \<le> 2 \<and>
    list_all (\<lambda>m. sn_nested m \<longrightarrow> sn_outcome m = Abstained) (w_log w)"
proof -
  let ?P = "\<lambda>m. sn_tg m \<noteq> Tg_rejected \<and> \<not> sn_nested m \<and>
    list_ex (\<lambda>a. at_id a = sn_attempt m \<and> of_day u d a) (q_attempts (w_db w))"
  have inv: "qinv w" by (rule qreach_inv [OF assms])
  then have rows: "rows_ok (w_db w)" and dist: "distinct (map sn_attempt (filter ?P (w_log w)))"
    by (auto simp: qinv_def distinct_map_filter)
  have "\<exists>a \<in> set (q_attempts (w_db w)). at_id a = i \<and> holds_slot a \<and> of_day u d a"
    if i: "i \<in> set (map sn_attempt (filter ?P (w_log w)))" for i
  proof -
    from i obtain m a b where m: "m \<in> set (w_log w)" "sn_attempt m = i" "?P m"
      and a: "a \<in> set (q_attempts (w_db w))" "at_id a = i" "of_day u d a"
      by (auto simp: list_ex_iff)
    have "charged i (w_db w)" using inv m by (auto simp: qinv_def send_ok_def)
    then obtain b where b: "b \<in> set (q_attempts (w_db w))" "at_id b = i" "holds_slot b" by (auto simp: charged_def)
    have "inj_on at_id (set (q_attempts (w_db w)))" using rows by (simp add: rows_ok_def ids_below_def distinct_map)
    then have "a = b" using a b by (auto dest: inj_onD)
    then show ?thesis using a b by blast
  qed
  from at_most_two_charges [OF rows dist this] have "length (filter ?P (w_log w)) \<le> 2" by simp
  moreover have "list_all (\<lambda>m. sn_nested m \<longrightarrow> sn_outcome m = Abstained) (w_log w)"
    using inv by (simp add: list_all_iff qinv_def send_ok_def)
  ultimately show ?thesis by simp
qed

theorem at_most_two_answers_witness:
  "length (filter (\<lambda>m. sn_tg m \<noteq> Tg_rejected \<and> \<not> sn_nested m \<and>
      list_ex (\<lambda>a. at_id a = sn_attempt m \<and> of_day 7 20000 a) (q_attempts (w_db two_answers_world))) (w_log two_answers_world)) \<le> 2 \<and>
   length (w_log two_answers_world) = 2"
  using at_most_two_answers [OF two_answers_reach, of 7 20000] by (simp add: two_answers_world_def demo_world_def)

text \<open>
  C19. A question is answered at most once.  Let a question be admitted and its reservation's delivery call
  Telegram.  Then the intent of that delivery was committed first; every delivery of the same attempt
  whose checks end after that commit - by the same handler or another, while the first is still waiting for
  Telegram, after it crashed, or after it settled - sends nothing; and every later admission of the same
  message is a replay of this attempt that is not allowed to go on.  Other transactions may commit any
  statements of the quota meanwhile, for any attempt.  The short notices of failures are not counted.
\<close>

theorem one_reply_per_question:
  assumes "qmove\<^sup>*\<^sup>* empty_qdb s" "others_commit env" "reserve env key user chat source now limit s = Inr (q, s1)" "qd_allowed q"
    and "qmove\<^sup>*\<^sup>* s1 s2" "others_commit env2"
      "deliver_and_consume env2 fault check tg now2 d s2 = (r, replies, s3)" "dl_attempt d = qd_attempt q" "Reply_text tg \<in> set replies"
  shows "(\<exists>sm. mark_delivery_started (dl_attempt d) (dl_outcome d) (dl_trace d) (dl_embedding d) (dl_synthesis d) now2 (env2 0 s2) = Inr sm \<and>
      (\<forall>env3 fault3 check3 tg3 now3 d3 t r3 replies3 t'. qmove\<^sup>*\<^sup>* sm (env3 0 t) \<longrightarrow>
         deliver_and_consume env3 fault3 check3 tg3 now3 d3 t = (r3, replies3, t') \<longrightarrow> dl_attempt d3 = dl_attempt d \<longrightarrow>
         Reply_text tg3 \<notin> set replies3)) \<and>
    (\<forall>env4 user4 chat4 source4 now4 limit4 t q4 t'. qmove\<^sup>*\<^sup>* s1 t \<longrightarrow> others_commit env4 \<longrightarrow>
       reserve env4 key user4 chat4 source4 now4 limit4 t = Inr (q4, t') \<longrightarrow>
       qd_replayed q4 \<and> \<not> qd_allowed q4 \<and> qd_attempt q4 = qd_attempt q)"
proof -
  have rows: "rows_ok s" by (rule qmoves_rows_ok [OF assms(1) rows_ok_empty])
  from reserve_runs [OF assms(2,3)] assms(4) obtain t where "qmove\<^sup>*\<^sup>* s t" "qmove\<^sup>*\<^sup>* t s1"
    and row: "row_at (qd_attempt q) key s1" by (auto split: option.splits)
  then have rows1: "rows_ok s1" using qmoves_rows_ok rows by blast
  from delivery_intends [OF assms(7,9)] obtain sm where sm:
    "mark_delivery_started (dl_attempt d) (dl_outcome d) (dl_trace d) (dl_embedding d) (dl_synthesis d) now2 (env2 0 s2) = Inr sm" by blast
  have "rows_ok (env2 0 s2)" using qmoves_rows_ok [OF others_moves [OF assms(6,5)] rows1] .
  then have spent: "spent (dl_attempt d) sm" by (rule mark_spends [OF sm])
  have silent: "Reply_text tg3 \<notin> set replies3"
    if "qmove\<^sup>*\<^sup>* sm (env3 0 t)" "deliver_and_consume env3 fault3 check3 tg3 now3 d3 t = (r3, replies3, t')"
      "dl_attempt d3 = dl_attempt d" for env3 fault3 check3 tg3 now3 d3 t r3 replies3 t'
    using delivery_intends [OF that(2)] spent_refuses [OF qmoves_keep(2) [OF that(1) spent]] that(3) by metis
  have replay: "qd_replayed q4 \<and> \<not> qd_allowed q4 \<and> qd_attempt q4 = qd_attempt q"
    if "qmove\<^sup>*\<^sup>* s1 t" "others_commit env4" "reserve env4 key user4 chat4 source4 now4 limit4 t = Inr (q4, t')"
    for env4 user4 chat4 source4 now4 limit4 t q4 t'
    by (rule known_key_replays [OF qmoves_rows_ok [OF that(1) rows1] qmoves_keep(1) [OF that(1) row] that(2,3)])
  show ?thesis using sm silent replay by blast
qed

text \<open>The final write of the first delivery fails, so its row stays reserved; a second delivery is tried.\<close>

definition once_admitted :: qdb where
  "once_admitted = snd (projr (reserve (\<lambda>_ s. s) ''chat-message:1'' 7 (- 100) (Some 5) 1000 2 empty_qdb))"

definition once_delivered :: qdb where
  "once_delivered = snd (snd (deliver_and_consume (\<lambda>_ s. s) Fault_at_settle Unchecked Tg_unclear 1100 (demo_delivery 1 Answered) once_admitted))"

lemma once_runs:
  "map_sum id (\<lambda>(q, s). (qd_allowed q, qd_attempt q)) (reserve (\<lambda>_ s. s) ''chat-message:1'' 7 (- 100) (Some 5) 1000 2 empty_qdb) = Inr (True, 1)"
  "fst (snd (deliver_and_consume (\<lambda>_ s. s) Fault_at_settle Unchecked Tg_unclear 1100 (demo_delivery 1 Answered) once_admitted)) = [Reply_text Tg_unclear]"
  "map at_status (q_attempts once_delivered) = [Q_reserved]"
  "mark_delivery_started 1 Answered 50 60 (Some 70) 1100 once_admitted = Inr once_delivered"
  by code_simp+

theorem one_reply_per_question_witness:
  "map at_status (q_attempts once_delivered) = [Q_reserved] \<and>
   Reply_text Tg_accepted \<notin> set (fst (snd (deliver_and_consume (\<lambda>_ s. s) No_fault Unchecked Tg_accepted 1200 (demo_delivery 1 Answered) once_delivered)))"
proof -
  have env: "others_commit (\<lambda>_ s. s)" by (simp add: others_commit_def)
  obtain q s1 where q: "reserve (\<lambda>_ s. s) ''chat-message:1'' 7 (- 100) (Some 5) 1000 2 empty_qdb = Inr (q, s1)" "qd_allowed q" "qd_attempt q = 1"
    using once_runs(1) by (cases "reserve (\<lambda>_ s. s) ''chat-message:1'' 7 (- 100) (Some 5) 1000 2 empty_qdb") auto
  then have s1: "s1 = once_admitted" by (simp add: once_admitted_def)
  obtain r rs s3 where run: "deliver_and_consume (\<lambda>_ s. s) Fault_at_settle Unchecked Tg_unclear 1100 (demo_delivery 1 Answered) once_admitted = (r, rs, s3)"
    by (metis prod_cases3)
  have sent: "Reply_text Tg_unclear \<in> set rs" using once_runs(2) run by simp
  obtain r3 rs3 t' where run3: "deliver_and_consume (\<lambda>_ s. s) No_fault Unchecked Tg_accepted 1200 (demo_delivery 1 Answered) once_delivered = (r3, rs3, t')"
    by (metis prod_cases3)
  have "\<forall>env3 fault3 check3 tg3 now3 d3 t r3 replies3 t'. qmove\<^sup>*\<^sup>* once_delivered (env3 0 t) \<longrightarrow>
         deliver_and_consume env3 fault3 check3 tg3 now3 d3 t = (r3, replies3, t') \<longrightarrow> dl_attempt d3 = 1 \<longrightarrow>
         Reply_text tg3 \<notin> set replies3"
    using conjunct1 [OF one_reply_per_question [OF rtranclp.rtrancl_refl env q(1,2) _ env run _ sent]] q(3) s1 once_runs(4)
    by simp
  then show ?thesis using run3 once_runs(3) by (metis demo_delivery_simps(1) fst_conv rtranclp.rtrancl_refl snd_conv)
qed

text \<open>
  C27. Admission is exact: with a valid key, in a reachable table and with nothing committed meanwhile,
  it never raises; the stale reservations of the member are settled first; a known key is replayed and
  writes no row; otherwise one row is appended, reserved in a free slot when the member holds fewer than
  two slots of the day, and denied when both are taken.
\<close>

theorem reserve_exact:
  assumes "qreach w" "key \<noteq> []" "length key \<le> 128"
  shows "\<exists>q s'. reserve (\<lambda>_ s. s) key user chat source now 2 (w_db w) = Inr (q, s') \<and>
    (let rows = map (reconciled user now) (q_attempts (w_db w)); full = held user (moscow_date now) rows
     in qd_used q = length full \<and>
       (if key \<in> at_key ` set rows then qd_replayed q \<and> \<not> qd_allowed q \<and> q_attempts s' = rows
        else \<not> qd_replayed q \<and> qd_attempt q = q_next (w_db w) \<and> (qd_allowed q \<longleftrightarrow> length full < 2) \<and>
          (\<exists>slot. q_attempts s' = rows @ [admitted_row key user chat source now slot (q_next (w_db w))] \<and>
             (slot = None \<longleftrightarrow> \<not> length full < 2) \<and> (slot = None \<or> slot \<notin> at_slot ` set full))))"
proof -
  have "rows_ok (w_db w)" using qreach_inv [OF assms(1)] by (simp add: qinv_def)
  from reserve_result [OF this assms(2,3), of user chat source now] show ?thesis
    by (fastforce simp: Let_def split: if_splits)
qed

theorem reserve_exact_witness:
  "\<exists>q s'. reserve (\<lambda>_ s. s) ''chat-message:3'' 7 (- 100) None (20000 * 86400) 2 (w_db two_answers_world) = Inr (q, s') \<and>
    \<not> qd_allowed q \<and> qd_used q = 2"
proof -
  have "length (held 7 (moscow_date (20000 * 86400)) (map (reconciled 7 (20000 * 86400)) (q_attempts (w_db two_answers_world)))) = 2"
    "''chat-message:3'' \<notin> at_key ` set (map (reconciled 7 (20000 * 86400)) (q_attempts (w_db two_answers_world)))"
    by code_simp+
  with reserve_exact [OF two_answers_reach, of "''chat-message:3''" 7 "- 100" None "20000 * 86400"]
  show ?thesis by (auto simp: Let_def)
qed

subsection \<open>The handlers\<close>

text \<open>
  C32. The handler is a path: with its session open, and with anything other transactions commit
  meanwhile, \<open>deliver_and_consume\<close> ends in a world of the step relation with the rows it computes; if
  Telegram was called, the log holds that call.  So its runs obey the properties of all runs.
\<close>

theorem delivery_is_a_path:
  assumes "deliver_and_consume env fault check tg now d (w_db w) = (r, replies, s')"
    "w_sessions w (dl_attempt d) = Some Asking" "env_path env (dl_attempt d)"
  shows "\<exists>w'. qpath w w' \<and> w_db w' = s' \<and>
    (Reply_text tg \<in> set replies \<longrightarrow> sent_of d False tg \<in> set (w_log w'))"
proof -
  obtain w' where w': "ends_as d False tg w (r, replies, s') w'"
    using delivery_path [OF assms(1,2) _ assms(3), of False] by auto
  then have "qpath w w'" "w_db w' = s'" "Reply_text tg \<in> set replies \<longrightarrow> sent_of d False tg \<in> set (w_log w')"
    unfolding ends_as_def prod.case by blast+
  then show ?thesis by blast
qed

definition asking_world :: qworld where
  "asking_world = (demo_world (snd (projr (demo_admit ''chat-message:1'' 1 demo_db))) [])\<lparr>w_sessions := [1 \<mapsto> Asking]\<rparr>"

lemma env_path_id: "env_path (\<lambda>_ s. s) aid"
  unfolding env_path_def by (blast intro: qpath.here)

lemma asking_delivers:
  "\<exists>s'. deliver_and_consume (\<lambda>_ s. s) No_fault Unchecked Tg_unclear 1100 (demo_delivery 1 Answered) (w_db asking_world) =
     (Inl Telegram_exn, [Reply_text Tg_unclear], s') \<and> charged 1 s'"
proof -
  let ?run = "deliver_and_consume (\<lambda>_ s. s) No_fault Unchecked Tg_unclear 1100 (demo_delivery 1 Answered)
     (snd (projr (demo_admit ''chat-message:1'' 1 demo_db)))"
  have "fst ?run = Inl Telegram_exn" "fst (snd ?run) = [Reply_text Tg_unclear]" "charged 1 (snd (snd ?run))"
    by code_simp+
  then show ?thesis by (metis asking_world_def demo_world_def prod.collapse qworld.select_convs(1) qworld.update_convs(2) )
qed

theorem delivery_is_a_path_witness:
  "\<exists>w'. qpath asking_world w' \<and> charged 1 (w_db w') \<and> sent_of (demo_delivery 1 Answered) False Tg_unclear \<in> set (w_log w')"
proof -
  obtain s' where s': "deliver_and_consume (\<lambda>_ s. s) No_fault Unchecked Tg_unclear 1100 (demo_delivery 1 Answered)
     (w_db asking_world) = (Inl Telegram_exn, [Reply_text Tg_unclear], s')" "charged 1 s'"
    using asking_delivers by blast
  have "w_sessions asking_world (dl_attempt (demo_delivery 1 Answered)) = Some Asking" by (simp add: asking_world_def)
  from delivery_is_a_path [OF s'(1) this env_path_id] s'(2) show ?thesis by auto
qed

text \<open>
  C28. The abstentions of the render phase are not charged when the final write fails: Telegram has taken
  the message, and the phase's own handler releases the reservation.  So three replies, or any number,
  can reach a member on a day whose limit is two.
\<close>

theorem render_abstention_uncharged:
  "\<exists>w s s'. qreach w \<and>
    length (filter (\<lambda>m. sn_tg m = Tg_accepted \<and>
      list_ex (\<lambda>a. at_id a = sn_attempt m \<and> of_day 7 20000 a) (q_attempts (w_db w))) (w_log w)) = 3 \<and>
    render_phase_abstention (\<lambda>_ s. s) Fault_at_settle Tg_accepted 1100 (demo_delivery 1 Answered) s =
      (Inr (), [Reply_text Tg_accepted, Reply_fallback], s') \<and> \<not> charged 1 s'"
proof -
  have "length (filter (\<lambda>m. sn_tg m = Tg_accepted \<and>
      list_ex (\<lambda>a. at_id a = sn_attempt m \<and> of_day 7 20000 a) (q_attempts (w_db leaked_world))) (w_log leaked_world)) = 3"
    by code_simp
  moreover define s where "s = snd (projr (demo_admit ''chat-message:1'' 1 demo_db))"
  moreover obtain r rs s' where run: "render_phase_abstention (\<lambda>_ s. s) Fault_at_settle Tg_accepted 1100
      (demo_delivery 1 Answered) s = (r, rs, s')" by (metis prod_cases3)
  moreover have "fst (render_phase_abstention (\<lambda>_ s. s) Fault_at_settle Tg_accepted 1100 (demo_delivery 1 Answered) s) = Inr ()"
    "fst (snd (render_phase_abstention (\<lambda>_ s. s) Fault_at_settle Tg_accepted 1100 (demo_delivery 1 Answered) s)) =
       [Reply_text Tg_accepted, Reply_fallback]"
    "\<not> charged 1 (snd (snd (render_phase_abstention (\<lambda>_ s. s) Fault_at_settle Tg_accepted 1100 (demo_delivery 1 Answered) s)))"
    unfolding s_def by code_simp+
  then have "r = Inr ()" "rs = [Reply_text Tg_accepted, Reply_fallback]" "\<not> charged 1 s'" by (simp_all add: run)
  ultimately show ?thesis using leaked_reach by blast
qed

end
