(* ===== verification/MessageStore.thy ===== *)
theory MessageStore
  imports Prelude "HOL-Library.Product_Lexorder" "HOL-Library.List_Lexorder" "HOL-Library.Char_ord"
begin

section \<open>The message archive: rows, content hash and repositories\<close>

text \<open>
  \<open>chat_messages\<close> and \<open>message_versions\<close> (bot/db/models.py), the normalisation and the content hash of a
  message (bot/services/normalization.py, content\_hash.py), and the methods of \<open>MessageRepo\<close> and
  \<open>MessageVersionRepo\<close>.  Columns nothing here reads (visibility, audit timestamps, the search vector)
  are left out.  Every writer of a message holds the advisory lock of its (chat, message) pair, so a
  method is one function on the tables.
\<close>

subsection \<open>Telegram's message\<close>

record entity =
  en_offset :: int
  en_length :: int
  en_type :: string
  en_more :: "(string \<times> ustr) list"

text \<open>
  \<open>tm_attrs\<close>: which of the other attributes the classifier probes are present; \<open>tm_dump\<close>: the serialised
  message, \<open>None\<close> for an object without a serialiser.
\<close>

record tg_message =
  tm_chat :: int
  tm_id :: int
  tm_from :: "int option"
  tm_text :: "ustr option"
  tm_caption :: "ustr option"
  tm_date :: int
  tm_edit_date :: "int option"
  tm_reply :: "int option"
  tm_thread :: "int option"
  tm_attrs :: "string list"
  tm_entities :: "entity list option"
  tm_caption_entities :: "entity list option"
  tm_dump :: "ustr option"

definition kind_probes :: "(string \<times> string) list" where
  "kind_probes = [(''forward_origin'', ''forward''), (''photo'', ''photo''), (''video'', ''video''),
     (''voice'', ''voice''), (''audio'', ''audio''), (''document'', ''document''), (''sticker'', ''sticker''),
     (''animation'', ''animation''), (''video_note'', ''video_note''), (''location'', ''location''),
     (''contact'', ''contact''), (''poll'', ''poll''), (''dice'', ''dice''), (''new_chat_members'', ''service''),
     (''left_chat_member'', ''service''), (''pinned_message'', ''service''), (''text'', ''text'')]"

definition has_attr :: "tg_message \<Rightarrow> string \<Rightarrow> bool" where
  "has_attr m attr \<longleftrightarrow> (if attr = ''text'' then tm_text m \<noteq> None else attr \<in> set (tm_attrs m))"

definition classify_message_kind :: "tg_message \<Rightarrow> string" where
  "classify_message_kind m = (case List.find (\<lambda>(attr, _). has_attr m attr) kind_probes of
     None \<Rightarrow> ''unknown'' | Some (_, kind) \<Rightarrow> kind)"

text \<open>\<open>extract_entities_unified\<close>: the first occurrence of every (offset, length, type), entities first.\<close>

definition entity_key :: "entity \<Rightarrow> int \<times> int \<times> string" where
  "entity_key e = (en_offset e, en_length e, en_type e)"

fun dedup_entities :: "(int \<times> int \<times> string) list \<Rightarrow> entity list \<Rightarrow> entity list" where
  "dedup_entities seen [] = []"
| "dedup_entities seen (e # es) =
     (if entity_key e \<in> set seen then dedup_entities seen es
      else e # dedup_entities (entity_key e # seen) es)"

definition extract_entities_unified :: "tg_message \<Rightarrow> entity list option" where
  "extract_entities_unified m =
     (let es = dedup_entities [] ((case tm_entities m of None \<Rightarrow> [] | Some es \<Rightarrow> es) @
        (case tm_caption_entities m of None \<Rightarrow> [] | Some es \<Rightarrow> es))
      in if es = [] then None else Some es)"

subsection \<open>The content hash\<close>

text \<open>Sorted by offset, then length, then type; Python's \<open>sorted\<close> and \<open>sort_key\<close> are stable.\<close>

definition normalize_entities :: "entity list option \<Rightarrow> entity list" where
  "normalize_entities es = (case es of None \<Rightarrow> [] | Some es \<Rightarrow> sort_key entity_key es)"

text \<open>
  \<open>digest\<close> is the hexadecimal SHA-256 of the JSON text of its argument, the list of the format version,
  the text, the caption, the kind and the entities.
\<close>

type_synonym digest = "string \<times> ustr \<times> ustr \<times> string \<times> entity list \<Rightarrow> string"

definition hash_format_version :: string where "hash_format_version = ''chv1''"

definition or_empty :: "'a list option \<Rightarrow> 'a list" where
  "or_empty x = (case x of None \<Rightarrow> [] | Some v \<Rightarrow> v)"

definition compute_content_hash ::
  "digest \<Rightarrow> ustr option \<Rightarrow> ustr option \<Rightarrow> string option \<Rightarrow> entity list option \<Rightarrow> string" where
  "compute_content_hash digest text caption kind entities =
     digest (hash_format_version, or_empty text, or_empty caption,
       (case kind of None \<Rightarrow> ''text'' | Some k \<Rightarrow> if k = [] then ''text'' else k), normalize_entities entities)"

subsection \<open>Rows\<close>

datatype memory_policy = P_normal | P_nomem | P_offrecord | P_forgotten

record chat_message =
  cm_id :: int
  cm_chat :: int
  cm_message :: int
  cm_user :: "int option"
  cm_text :: "ustr option"
  cm_date :: int
  cm_payload :: "ustr option"
  cm_raw_update :: "int option"
  cm_reply :: "int option"
  cm_thread :: "int option"
  cm_caption :: "ustr option"
  cm_kind :: "string option"
  cm_current :: "int option"
  cm_policy :: memory_policy
  cm_redacted :: bool
  cm_hash :: "string option"

record message_version =
  mv_id :: int
  mv_message :: int
  mv_seq :: int
  mv_text :: "ustr option"
  mv_caption :: "ustr option"
  mv_normalized :: "ustr option"
  mv_entities :: "entity list option"
  mv_edit_date :: "int option"
  mv_captured :: int
  mv_hash :: string
  mv_raw_update :: "int option"
  mv_redacted :: bool
  mv_imported :: bool

datatype mark_status = Mark_active | Mark_expired | Mark_revoked

record offrecord_mark =
  om_message :: int
  om_type :: memory_policy
  om_detected_by :: string
  om_by :: "int option"
  om_thread :: "int option"
  om_status :: mark_status

datatype tombstone_key = Message_key int int | Hash_key string | User_key int

datatype forget_status = FE_pending | FE_processing | FE_completed | FE_failed | FE_superseded

record mdb =
  m_messages :: "chat_message list"
  m_versions :: "message_version list"
  m_marks :: "offrecord_mark list"
  m_forgets :: "(tombstone_key \<times> forget_status) list"
  m_next_message :: int
  m_next_version :: int

datatype mem_error = Integrity_violation string | No_result | Bad_value string

subsection \<open>MessageRepo\<close>

definition same_message :: "int \<Rightarrow> int \<Rightarrow> chat_message \<Rightarrow> bool" where
  "same_message chat mid m \<longleftrightarrow> cm_chat m = chat \<and> cm_message m = mid"

definition find_chat_message :: "mdb \<Rightarrow> int \<Rightarrow> int \<Rightarrow> chat_message option" where
  "find_chat_message s chat mid = List.find (same_message chat mid) (m_messages s)"

text \<open>The policy a conflicting save leaves: off the record and forgotten are sticky, and so is redaction.\<close>

definition sticky_policy :: "memory_policy option \<Rightarrow> bool option \<Rightarrow> chat_message \<Rightarrow> chat_message" where
  "sticky_policy policy redacted m = m\<lparr>
     cm_policy := (case policy of None \<Rightarrow> cm_policy m
       | Some p \<Rightarrow> if cm_policy m = P_offrecord \<or> cm_policy m = P_forgotten then cm_policy m else p),
     cm_redacted := (case redacted of None \<Rightarrow> cm_redacted m | Some b \<Rightarrow> cm_redacted m \<or> b)\<rparr>"

text \<open>\<open>save\<close>: \<open>r\<close> holds the values of the insert; the columns it does not set take their defaults.\<close>

definition message_save ::
  "chat_message \<Rightarrow> memory_policy option \<Rightarrow> bool option \<Rightarrow> mdb \<Rightarrow> chat_message \<times> mdb" where
  "message_save r policy redacted s =
     (case find_chat_message s (cm_chat r) (cm_message r) of
        None \<Rightarrow>
          let m = r\<lparr>cm_id := m_next_message s, cm_current := None, cm_hash := None,
            cm_policy := (case policy of None \<Rightarrow> P_normal | Some p \<Rightarrow> p),
            cm_redacted := (case redacted of None \<Rightarrow> False | Some b \<Rightarrow> b)\<rparr>
          in (m, s\<lparr>m_messages := m_messages s @ [m], m_next_message := m_next_message s + 1\<rparr>)
      | Some old \<Rightarrow>
          if policy = None \<and> redacted = None then (old, s)
          else (sticky_policy policy redacted old,
            s\<lparr>m_messages := update_where (same_message (cm_chat r) (cm_message r)) (sticky_policy policy redacted)
                (m_messages s)\<rparr>))"

definition message_update :: "int \<Rightarrow> (chat_message \<Rightarrow> chat_message) \<Rightarrow> mdb \<Rightarrow> mdb" where
  "message_update i f s = s\<lparr>m_messages := update_where (\<lambda>m. cm_id m = i) f (m_messages s)\<rparr>"

subsection \<open>MessageVersionRepo\<close>

definition versions_of :: "mdb \<Rightarrow> int \<Rightarrow> message_version list" where
  "versions_of s i = filter (\<lambda>v. mv_message v = i) (m_versions s)"

text \<open>\<open>scalar_one_or_none\<close> raises on two rows; the partial unique index excludes them.\<close>

definition get_by_hash :: "mdb \<Rightarrow> int \<Rightarrow> string \<Rightarrow> message_version option" where
  "get_by_hash s i h = List.find (\<lambda>v. mv_message v = i \<and> mv_hash v = h \<and> \<not> mv_redacted v) (m_versions s)"

definition get_max_version_seq :: "mdb \<Rightarrow> int \<Rightarrow> int" where
  "get_max_version_seq s i = (case latest_by mv_seq (versions_of s i) of None \<Rightarrow> 0 | Some v \<Rightarrow> mv_seq v)"

definition version_fits :: "message_version \<Rightarrow> mdb \<Rightarrow> bool" where
  "version_fits v s \<longleftrightarrow> (\<forall>w \<in> set (m_versions s). mv_message w = mv_message v \<longrightarrow>
     mv_seq w \<noteq> mv_seq v \<and> (mv_redacted w \<or> mv_redacted v \<or> mv_hash w \<noteq> mv_hash v))"

definition version_add :: "message_version \<Rightarrow> mdb \<Rightarrow> mem_error + message_version \<times> mdb" where
  "version_add v s =
     (let w = v\<lparr>mv_id := m_next_version s\<rparr>
      in if version_fits w s
         then Inr (w, s\<lparr>m_versions := m_versions s @ [w], m_next_version := m_next_version s + 1\<rparr>)
         else Inl (Integrity_violation ''message_versions''))"

text \<open>
  \<open>insert_version\<close>: \<open>v\<close> holds the values; after a violation the active row with the hash is looked up
  again.
\<close>

definition insert_version :: "message_version \<Rightarrow> mdb \<Rightarrow> mem_error + message_version \<times> mdb" where
  "insert_version v s =
     (case get_by_hash s (mv_message v) (mv_hash v) of
        Some w \<Rightarrow> Inr (w, s)
      | None \<Rightarrow>
          (case version_add (v\<lparr>mv_seq := get_max_version_seq s (mv_message v) + 1\<rparr>) s of
             Inr r \<Rightarrow> Inr r
           | Inl e \<Rightarrow> (case get_by_hash s (mv_message v) (mv_hash v) of Some w \<Rightarrow> Inr (w, s) | None \<Rightarrow> Inl e)))"

subsection \<open>OffrecordMarkRepo\<close>

definition mark_create ::
  "int \<Rightarrow> memory_policy \<Rightarrow> string \<Rightarrow> int option \<Rightarrow> int option \<Rightarrow> mdb \<Rightarrow> mdb" where
  "mark_create i kind by user thread s =
     (if list_ex (\<lambda>k. om_message k = i \<and> om_type k = kind) (m_marks s) then s
      else s\<lparr>m_marks := m_marks s @ [\<lparr>om_message = i, om_type = kind, om_detected_by = by, om_by = user,
        om_thread = thread, om_status = Mark_active\<rparr>]\<rparr>)"

end
