(* ===== verification/MessageArchive.thy ===== *)
theory MessageArchive
  imports MessageStore
begin

section \<open>Persisting, editing, restoring and backfilling messages\<close>

text \<open>
  services/governance.py, services/message\_persistence.py, handlers/edited\_message.py and
  services/backfill.py.  Each is one transaction under the message's advisory lock; one that raises is
  rolled back.  \<open>now\<close> is the clock of the database.
\<close>

subsection \<open>Governance\<close>

text \<open>\<open>detect_policy\<close>: the policy, and the \<open>detected_by\<close> of a mark.\<close>

definition detect_policy :: "ustr option \<Rightarrow> ustr option \<Rightarrow> memory_policy \<times> string option" where
  "detect_policy text caption = (P_normal, None)"

subsection \<open>persist\_message\_with\_policy\<close>

text \<open>\<open>raw_json\<close> follows the presence of a text; an object without a serialiser stores none.\<close>

definition raw_payload :: "tg_message \<Rightarrow> ustr option" where
  "raw_payload m = (if or_empty (tm_text m) \<noteq> [] then tm_dump m else None)"

definition message_values :: "tg_message \<Rightarrow> bool \<Rightarrow> int option \<Rightarrow> int option \<Rightarrow> chat_message" where
  "message_values m hidden raw_update captured =
     \<lparr>cm_id = 0, cm_chat = tm_chat m, cm_message = tm_id m, cm_user = tm_from m,
      cm_text = (if hidden then None else tm_text m),
      cm_date = (case captured of None \<Rightarrow> tm_date m | Some t \<Rightarrow> t),
      cm_payload = (if hidden then None else raw_payload m), cm_raw_update = raw_update,
      cm_reply = tm_reply m, cm_thread = tm_thread m, cm_caption = (if hidden then None else tm_caption m),
      cm_kind = Some (classify_message_kind m), cm_current = None, cm_policy = P_normal,
      cm_redacted = False, cm_hash = None\<rparr>"

definition version_values ::
  "int \<Rightarrow> ustr option \<Rightarrow> ustr option \<Rightarrow> entity list option \<Rightarrow> int option \<Rightarrow> int \<Rightarrow> string \<Rightarrow> int option \<Rightarrow>
   bool \<Rightarrow> bool \<Rightarrow> message_version" where
  "version_values i text caption entities edit_date captured h raw_update hidden imported =
     \<lparr>mv_id = 0, mv_message = i, mv_seq = 0, mv_text = text, mv_caption = caption, mv_normalized = text,
      mv_entities = entities, mv_edit_date = edit_date, mv_captured = captured, mv_hash = h,
      mv_raw_update = raw_update, mv_redacted = hidden, mv_imported = imported\<rparr>"

definition persist_message_with_policy ::
  "digest \<Rightarrow> bool \<Rightarrow> int option \<Rightarrow> int option \<Rightarrow> int \<Rightarrow> tg_message \<Rightarrow> mdb \<Rightarrow>
   mem_error + (chat_message \<times> memory_policy \<times> bool) \<times> mdb" where
  "persist_message_with_policy digest imported raw_update captured now m s =
     (let (policy, mark) = detect_policy (tm_text m) (tm_caption m);
          hidden = (policy = P_offrecord);
          (saved, s1) = message_save (message_values m hidden raw_update captured) (Some policy) (Some hidden) s;
          marked = (policy \<noteq> P_normal \<and> mark \<noteq> None);
          s2 = (if marked then mark_create (cm_id saved) policy (the mark) (tm_from m) (tm_thread m) s1 else s1);
          text = (if hidden then None else tm_text m);
          caption = (if hidden then None else tm_caption m);
          entities = (if hidden then None else extract_entities_unified m);
          h = compute_content_hash digest text caption (Some (classify_message_kind m)) entities
      in bindE (insert_version (version_values (cm_id saved) text caption entities None
             (case captured of None \<Rightarrow> now | Some t \<Rightarrow> t) h raw_update hidden imported) s2) (\<lambda>(v, s3).
         if cm_current saved = None
         then Inr ((saved\<lparr>cm_current := Some (mv_id v)\<rparr>, policy, marked),
                message_update (cm_id saved) (\<lambda>r. r\<lparr>cm_current := Some (mv_id v)\<rparr>) s3)
         else Inr ((saved, policy, marked), s3)))"

subsection \<open>handle\_edited\_message\<close>

definition hide_version :: "message_version \<Rightarrow> message_version" where
  "hide_version v = v\<lparr>mv_text := None, mv_caption := None, mv_normalized := None, mv_entities := None, mv_redacted := True\<rparr>"

definition apply_offrecord_flip :: "chat_message \<Rightarrow> string option \<Rightarrow> int option \<Rightarrow> int option \<Rightarrow> mdb \<Rightarrow> mdb" where
  "apply_offrecord_flip row mark user thread s =
     (let s1 = message_update (cm_id row) (\<lambda>m. m\<lparr>cm_text := None, cm_caption := None, cm_payload := None,
            cm_redacted := True, cm_policy := P_offrecord\<rparr>) s;
          s2 = s1\<lparr>m_versions := update_where (\<lambda>v. mv_message v = cm_id row) hide_version (m_versions s1)\<rparr>
      in case mark of None \<Rightarrow> s2 | Some by \<Rightarrow> mark_create (cm_id row) P_offrecord by user thread s2)"

definition update_memory_policy ::
  "chat_message \<Rightarrow> memory_policy \<Rightarrow> string option \<Rightarrow> int option \<Rightarrow> int option \<Rightarrow> mdb \<Rightarrow> mdb" where
  "update_memory_policy row policy mark user thread s =
     (if cm_policy row = P_offrecord then s
      else let s1 = message_update (cm_id row) (\<lambda>m. m\<lparr>cm_policy := policy\<rparr>) s
        in case mark of None \<Rightarrow> s1
           | Some by \<Rightarrow> if policy \<noteq> P_normal then mark_create (cm_id row) policy by user thread s1 else s1)"

text \<open>The policy step of an edit, before the version is written.\<close>

definition edit_policy :: "chat_message \<Rightarrow> tg_message \<Rightarrow> mdb \<Rightarrow> mdb" where
  "edit_policy row m s =
     (let (policy, mark) = detect_policy (tm_text m) (tm_caption m)
      in if policy = P_offrecord \<and> cm_policy row \<noteq> P_offrecord
         then apply_offrecord_flip row mark (tm_from m) (tm_thread m) s
         else if cm_policy row = P_offrecord then s
         else if policy \<noteq> cm_policy row then update_memory_policy row policy mark (tm_from m) (tm_thread m) s
         else s)"

definition handle_edited_message ::
  "digest \<Rightarrow> int \<Rightarrow> int option \<Rightarrow> int \<Rightarrow> tg_message \<Rightarrow> mdb \<Rightarrow> mem_error + mdb" where
  "handle_edited_message digest community raw_update now m s =
     (if tm_chat m \<noteq> community then Inr s else
      case find_chat_message s (tm_chat m) (tm_id m) of None \<Rightarrow> Inr s | Some old \<Rightarrow>
      let kind = classify_message_kind m; entities = extract_entities_unified m;
          policy = fst (detect_policy (tm_text m) (tm_caption m));
          new_hash = compute_content_hash digest (tm_text m) (tm_caption m) (Some kind) entities;
          s1 = edit_policy old m s;
          row = (case find_chat_message s1 (tm_chat m) (tm_id m) of None \<Rightarrow> old | Some r \<Rightarrow> r);
          existing_chv1 = compute_content_hash digest (cm_text row) (cm_caption row) (cm_kind row) None;
          hidden = (policy = P_offrecord \<or> cm_policy old = P_offrecord);
          h = (if hidden then compute_content_hash digest None None (Some kind) None else new_hash)
      in if get_by_hash s1 (cm_id old) h \<noteq> None then Inr s1
         else if h = existing_chv1 then Inr s1
         else bindE (insert_version (version_values (cm_id old) (if hidden then None else tm_text m)
                (if hidden then None else tm_caption m) (if hidden then None else entities) (tm_edit_date m) now h
                raw_update hidden False) s1) (\<lambda>(v, s2).
              Inr (message_update (cm_id old) (\<lambda>r.
                if policy \<noteq> P_offrecord \<and> cm_policy old \<noteq> P_offrecord
                then r\<lparr>cm_current := Some (mv_id v), cm_text := tm_text m, cm_caption := tm_caption m\<rparr>
                else r\<lparr>cm_current := Some (mv_id v)\<rparr>) s2)))"

subsection \<open>rehydrate\_message\_from\_import\<close>

text \<open>The tombstones of the message, its author and its versions' hashes.\<close>

definition tombstone_keys :: "mdb \<Rightarrow> chat_message \<Rightarrow> tombstone_key list" where
  "tombstone_keys s row = Message_key (cm_chat row) (cm_message row) #
     map (\<lambda>v. Hash_key (mv_hash v)) (versions_of s (cm_id row)) @
     (case cm_user row of None \<Rightarrow> [] | Some u \<Rightarrow> [User_key u])"

definition rehydrate_message_from_import ::
  "digest \<Rightarrow> tg_message \<Rightarrow> int \<Rightarrow> int \<Rightarrow> ustr \<Rightarrow> int \<Rightarrow> mdb \<Rightarrow> mem_error + chat_message \<times> mdb" where
  "rehydrate_message_from_import digest m rid raw_update payload captured s =
     (case List.find (\<lambda>r. cm_id r = rid \<and> same_message (tm_chat m) (tm_id m) r) (m_messages s) of
        None \<Rightarrow> Inl No_result
      | Some saved \<Rightarrow>
      (case tm_from m of None \<Rightarrow> Inl (Bad_value ''imported human message must have from_user'') | Some author \<Rightarrow>
      let kind = classify_message_kind m; entities = extract_entities_unified m;
          h = compute_content_hash digest (tm_text m) (tm_caption m) (Some kind) entities
      in bindE (insert_version (version_values rid (tm_text m) (tm_caption m) entities None captured h
             (Some raw_update) False True) s) (\<lambda>(v, s1).
         let restore = (\<lambda>r. r\<lparr>cm_user := Some author, cm_text := tm_text m, cm_caption := tm_caption m,
               cm_date := captured, cm_payload := Some payload, cm_reply := tm_reply m, cm_thread := tm_thread m,
               cm_kind := Some kind, cm_current := Some (mv_id v), cm_policy := P_normal, cm_redacted := False,
               cm_hash := Some h\<rparr>);
             s2 = message_update rid restore s1;
             s3 = s2\<lparr>m_marks := update_where (\<lambda>k. om_message k = rid \<and> om_status k = Mark_active)
               (\<lambda>k. k\<lparr>om_status := Mark_revoked\<rparr>) (m_marks s2)\<rparr>;
             keys = tombstone_keys s3 (restore saved)
         in Inr (restore saved, s3\<lparr>m_forgets := update_where (\<lambda>(k, st). k \<in> set keys \<and>
               (st = FE_pending \<or> st = FE_processing \<or> st = FE_completed)) (\<lambda>(k, st). (k, FE_superseded))
               (m_forgets s3)\<rparr>))))"

subsection \<open>backfill\_v1\_message\_versions\<close>

definition unversioned :: "mdb \<Rightarrow> chat_message list" where
  "unversioned s = filter (\<lambda>r. cm_current r = None) (m_messages s)"

definition backfill_batch_of :: "nat \<Rightarrow> mdb \<Rightarrow> chat_message list" where
  "backfill_batch_of n s = take n (sort_key cm_id (unversioned s))"

text \<open>One row of a batch, from its re-read under the lock.\<close>

definition backfill_row :: "digest \<Rightarrow> int \<Rightarrow> mdb \<Rightarrow> mem_error + nat \<times> mdb" where
  "backfill_row digest i s =
     (case fetch cm_id i (m_messages s) of None \<Rightarrow> Inl No_result
      | Some fresh \<Rightarrow>
          if cm_current fresh \<noteq> None then Inr (0, s)
          else bindE (version_add ((version_values i (cm_text fresh) (cm_caption fresh) None None (cm_date fresh)
                 (compute_content_hash digest (cm_text fresh) (cm_caption fresh) (cm_kind fresh) None)
                 (cm_raw_update fresh) (cm_redacted fresh) False)\<lparr>mv_seq := 1\<rparr>) s) (\<lambda>(v, s1).
               Inr (1, message_update i (\<lambda>r. r\<lparr>cm_current := Some (mv_id v)\<rparr>) s1)))"

text \<open>\<open>env\<close> is what live handlers commit before the row's lock is taken.\<close>

fun backfill_rows :: "digest \<Rightarrow> (int \<Rightarrow> mdb \<Rightarrow> mdb) \<Rightarrow> int list \<Rightarrow> mdb \<Rightarrow> mem_error + nat \<times> mdb" where
  "backfill_rows digest env [] s = Inr (0, s)"
| "backfill_rows digest env (i # rest) s =
     bindE (backfill_row digest i (env i s)) (\<lambda>(n, s1).
     bindE (backfill_rows digest env rest s1) (\<lambda>(m, s2). Inr (n + m, s2)))"

text \<open>The loop over batches: \<open>None\<close> if it never ends.\<close>

partial_function (option) backfill_v1_message_versions ::
  "digest \<Rightarrow> (int \<Rightarrow> mdb \<Rightarrow> mdb) \<Rightarrow> nat \<Rightarrow> nat \<Rightarrow> mdb \<Rightarrow> (mem_error + nat \<times> mdb) option" where
  "backfill_v1_message_versions digest env batch_size acc s =
     (let batch = backfill_batch_of batch_size s
      in if batch = [] then Some (Inr (acc, s))
         else case backfill_rows digest env (map cm_id batch) s of
             Inl e \<Rightarrow> Some (Inl e)
           | Inr (n, s1) \<Rightarrow>
               if length batch < batch_size then Some (Inr (acc + n, s1))
               else backfill_v1_message_versions digest env batch_size (acc + n) s1)"

end
