(* ===== verification/MessageSystem.thy ===== *)
theory MessageSystem
  imports MessageArchive
begin

section \<open>Every run of the archive\<close>

text \<open>
  The states that messages, edits, imports and the backfill can leave, from a table of legacy rows without
  versions, and the invariant that ties the rows to their versions.
\<close>

subsection \<open>The invariant\<close>

text \<open>One active version per message and hash, one version per message and number.\<close>

definition versions_ok :: "message_version list \<Rightarrow> bool" where
  "versions_ok vs \<longleftrightarrow> distinct (map (\<lambda>v. (mv_message v, mv_seq v)) vs) \<and>
     distinct (map (\<lambda>v. (mv_message v, mv_hash v)) (filter (\<lambda>v. \<not> mv_redacted v) vs))"

text \<open>A row points to a version of its own, or it has none.\<close>

definition pointer_ok :: "mdb \<Rightarrow> chat_message \<Rightarrow> bool" where
  "pointer_ok s r \<longleftrightarrow> (case cm_current r of
     None \<Rightarrow> versions_of s (cm_id r) = []
   | Some c \<Rightarrow> \<exists>v \<in> set (m_versions s). mv_id v = c \<and> mv_message v = cm_id r)"

definition archive_inv :: "mdb \<Rightarrow> bool" where
  "archive_inv s \<longleftrightarrow> ids_below cm_id (m_next_message s) (m_messages s) \<and>
     distinct (map (\<lambda>r. (cm_chat r, cm_message r)) (m_messages s)) \<and>
     ids_below mv_id (m_next_version s) (m_versions s) \<and> versions_ok (m_versions s) \<and>
     (\<forall>v \<in> set (m_versions s). mv_message v \<in> cm_id ` set (m_messages s)) \<and>
     (\<forall>r \<in> set (m_messages s). pointer_ok s r)"

lemma archive_invD:
  assumes "archive_inv s"
  shows "ids_below cm_id (m_next_message s) (m_messages s)"
    "distinct (map (\<lambda>r. (cm_chat r, cm_message r)) (m_messages s))"
    "ids_below mv_id (m_next_version s) (m_versions s)" "versions_ok (m_versions s)"
    "v \<in> set (m_versions s) \<Longrightarrow> mv_message v \<in> cm_id ` set (m_messages s)"
    "r \<in> set (m_messages s) \<Longrightarrow> pointer_ok s r"
  using assms by (simp_all add: archive_inv_def)

subsection \<open>Table steps\<close>

text \<open>A row update that keeps the row's identity and leaves its pointer alone or makes it point to a version.\<close>

lemma archive_inv_rows:
  assumes inv: "archive_inv s"
    and keep: "\<And>r. r \<in> set (m_messages s) \<Longrightarrow> cm_id (g r) = cm_id r \<and> cm_chat (g r) = cm_chat r \<and> cm_message (g r) = cm_message r"
    and ptr: "\<And>r. r \<in> set (m_messages s) \<Longrightarrow> cm_current (g r) \<noteq> cm_current r \<Longrightarrow>
      \<exists>v \<in> set (m_versions s). cm_current (g r) = Some (mv_id v) \<and> mv_message v = cm_id r"
  shows "archive_inv (s\<lparr>m_messages := map g (m_messages s)\<rparr>)"
proof -
  have ids: "map cm_id (map g (m_messages s)) = map cm_id (m_messages s)" using keep by simp
  have "distinct (map (\<lambda>r. (cm_chat r, cm_message r)) (map g (m_messages s)))"
    by (rule distinct_map_map) (use keep archive_invD(2) [OF inv] in auto)
  moreover have "ids_below cm_id (m_next_message s) (map g (m_messages s))"
    using archive_invD(1) [OF inv] distinct_map_map [of "m_messages s" cm_id g] keep by (auto simp: ids_below_def)
  moreover have "cm_id ` set (map g (m_messages s)) = cm_id ` set (m_messages s)"
    using ids by (metis list.set_map)
  moreover have "pointer_ok (s\<lparr>m_messages := map g (m_messages s)\<rparr>) (g r)" if r: "r \<in> set (m_messages s)" for r
  proof (cases "cm_current (g r) = cm_current r")
    case True
    then show ?thesis using archive_invD(6) [OF inv r] keep [OF r] by (auto simp: pointer_ok_def versions_of_def split: option.splits)
  next
    case False
    from ptr [OF r False] show ?thesis using keep [OF r] by (auto simp: pointer_ok_def)
  qed
  ultimately show ?thesis using inv by (simp add: archive_inv_def)
qed

lemma pointer_marks:
  "pointer_ok (s\<lparr>m_marks := x\<rparr>) r = pointer_ok s r" "pointer_ok (s\<lparr>m_forgets := y\<rparr>) r = pointer_ok s r"
  by (auto simp: pointer_ok_def versions_of_def split: option.splits)

lemma archive_inv_marks [simp]:
  "archive_inv (s\<lparr>m_marks := x\<rparr>) = archive_inv s" "archive_inv (s\<lparr>m_forgets := y\<rparr>) = archive_inv s"
  by (simp_all add: archive_inv_def pointer_marks)

lemma find_message_iff:
  assumes "archive_inv s"
  shows "find_chat_message s chat mid = Some r \<longleftrightarrow> r \<in> set (m_messages s) \<and> same_message chat mid r"
proof
  assume "find_chat_message s chat mid = Some r"
  then show "r \<in> set (m_messages s) \<and> same_message chat mid r"
    by (auto simp: find_chat_message_def find_Some_iff)
next
  assume r: "r \<in> set (m_messages s) \<and> same_message chat mid r"
  then obtain q where q: "find_chat_message s chat mid = Some q"
    unfolding find_chat_message_def by (cases "List.find (same_message chat mid) (m_messages s)") (auto simp: find_None_iff)
  then have "q \<in> set (m_messages s) \<and> same_message chat mid q" by (auto simp: find_chat_message_def find_Some_iff)
  moreover have "inj_on (\<lambda>r. (cm_chat r, cm_message r)) (set (m_messages s))"
    using archive_invD(2) [OF assms] by (simp add: distinct_map)
  ultimately have "q = r" using r by (auto simp: same_message_def dest: inj_onD)
  then show "find_chat_message s chat mid = Some r" using q by simp
qed

lemma row_unique:
  assumes "archive_inv s" "q \<in> set (m_messages s)" "r \<in> set (m_messages s)" "cm_id q = cm_id r"
  shows "q = r"
proof -
  have "inj_on cm_id (set (m_messages s))" using archive_invD(1) [OF assms(1)] by (simp add: ids_below_def distinct_map)
  then show ?thesis using assms(2-) by (simp add: inj_on_eq_iff)
qed

lemma find_message_None: "find_chat_message s chat mid = None \<longleftrightarrow> (\<forall>r \<in> set (m_messages s). \<not> same_message chat mid r)"
  by (auto simp: find_chat_message_def find_None_iff)

text \<open>Active hashes are unique per message.\<close>

lemma get_by_hash_Some:
  "get_by_hash s i h = Some v \<Longrightarrow> v \<in> set (m_versions s) \<and> mv_message v = i \<and> mv_hash v = h \<and> \<not> mv_redacted v"
  by (auto simp: get_by_hash_def find_Some_iff)

lemma get_by_hash_None:
  "get_by_hash s i h = None \<longleftrightarrow> (\<forall>v \<in> set (m_versions s). mv_message v = i \<longrightarrow> mv_hash v = h \<longrightarrow> mv_redacted v)"
  by (auto simp: get_by_hash_def find_None_iff)

lemma max_seq: "v \<in> set (m_versions s) \<Longrightarrow> mv_message v = i \<Longrightarrow> mv_seq v \<le> get_max_version_seq s i"
proof -
  assume v: "v \<in> set (m_versions s)" "mv_message v = i"
  then have m: "v \<in> set (versions_of s i)" by (simp add: versions_of_def)
  then obtain w where w: "latest_by mv_seq (versions_of s i) = Some w"
    by (cases "latest_by mv_seq (versions_of s i)") auto
  show ?thesis using latest_by_max [OF w m] by (simp add: get_max_version_seq_def w)
qed

text \<open>
  Inserting a version never fails: either an active version with the hash exists, or the number after the
  largest is free and so is the hash.
\<close>

lemma insert_version_result:
  "insert_version v s =
     (case get_by_hash s (mv_message v) (mv_hash v) of
        Some w \<Rightarrow> Inr (w, s)
      | None \<Rightarrow> let w = v\<lparr>mv_seq := get_max_version_seq s (mv_message v) + 1, mv_id := m_next_version s\<rparr>
          in Inr (w, s\<lparr>m_versions := m_versions s @ [w], m_next_version := m_next_version s + 1\<rparr>))"
proof (cases "get_by_hash s (mv_message v) (mv_hash v)")
  case None
  have "version_fits (v\<lparr>mv_seq := get_max_version_seq s (mv_message v) + 1, mv_id := m_next_version s\<rparr>) s"
    using None max_seq [of _ s "mv_message v"] by (fastforce simp: version_fits_def get_by_hash_None)
  then show ?thesis using None by (simp add: insert_version_def version_add_def Let_def)
qed (simp add: insert_version_def)

subsection \<open>What the operations do to the tables\<close>

lemma message_save_inv:
  assumes inv: "archive_inv s" and run: "message_save r policy redacted s = (saved, s1)"
  shows "archive_inv s1 \<and> saved \<in> set (m_messages s1) \<and> same_message (cm_chat r) (cm_message r) saved \<and>
    m_versions s1 = m_versions s"
proof (cases "find_chat_message s (cm_chat r) (cm_message r)")
  case None
  let ?m = "r\<lparr>cm_id := m_next_message s, cm_current := None, cm_hash := None,
      cm_policy := (case policy of None \<Rightarrow> P_normal | Some p \<Rightarrow> p),
      cm_redacted := (case redacted of None \<Rightarrow> False | Some b \<Rightarrow> b)\<rparr>"
  have s1: "saved = ?m" "s1 = s\<lparr>m_messages := m_messages s @ [?m], m_next_message := m_next_message s + 1\<rparr>"
    using run None by (auto simp: message_save_def Let_def)
  have "versions_of s (m_next_message s) = []"
    using archive_invD(1,5) [OF inv] by (force simp: versions_of_def filter_empty_conv ids_below_def)
  then have "pointer_ok s1 ?m" by (simp add: pointer_ok_def s1 versions_of_def)
  moreover have "pointer_ok s1 q" if "q \<in> set (m_messages s)" for q
    using archive_invD(6) [OF inv that] by (auto simp: s1(2) pointer_ok_def versions_of_def split: option.splits)
  ultimately have "archive_inv s1"
    using inv None ids_below_append [of cm_id "m_next_message s" "m_messages s" ?m]
    by (auto simp: archive_inv_def s1(2) find_message_None same_message_def)
  then show ?thesis by (simp add: s1 same_message_def)
next
  case (Some old)
  then have old: "old \<in> set (m_messages s)" "same_message (cm_chat r) (cm_message r) old"
    by (simp_all add: find_message_iff [OF inv])
  show ?thesis
  proof (cases "policy = None \<and> redacted = None")
    case True
    then show ?thesis using run Some old inv by (simp add: message_save_def)
  next
    case False
    let ?g = "\<lambda>q. if same_message (cm_chat r) (cm_message r) q then sticky_policy policy redacted q else q"
    have s1: "saved = ?g old" "s1 = s\<lparr>m_messages := map ?g (m_messages s)\<rparr>"
      using run Some False old(2) by (auto simp: message_save_def update_where_def)
    have "archive_inv s1" unfolding s1(2)
      by (rule archive_inv_rows [OF inv]) (auto simp: sticky_policy_def split: if_splits)
    moreover have "saved \<in> set (m_messages s1)" using old(1) by (simp add: s1)
    moreover have "same_message (cm_chat r) (cm_message r) saved"
      using old(2) by (simp add: s1(1) sticky_policy_def same_message_def)
    ultimately show ?thesis by (simp add: s1(2))
  qed
qed

lemma versions_ok_add:
  assumes "versions_ok vs" "\<And>w. w \<in> set vs \<Longrightarrow> mv_message w = mv_message v \<Longrightarrow>
    mv_seq w \<noteq> mv_seq v \<and> (mv_redacted w \<or> mv_redacted v \<or> mv_hash w \<noteq> mv_hash v)"
  shows "versions_ok (vs @ [v])"
  using assms by (fastforce simp: versions_ok_def)

text \<open>A version is inserted or found, and then the row points to it.\<close>

lemma version_step:
  assumes inv: "archive_inv s" and i: "i \<in> cm_id ` set (m_messages s)" "mv_message v = i"
    and run: "insert_version v s = Inr (w, s1)"
    and f: "\<And>r. cm_id (f r) = cm_id r \<and> cm_chat (f r) = cm_chat r \<and> cm_message (f r) = cm_message r"
    and ptr: "\<And>r. r \<in> set (m_messages s) \<Longrightarrow> cm_id r = i \<Longrightarrow>
      cm_current (f r) = Some (mv_id w) \<or> (cm_current r \<noteq> None \<and> cm_current (f r) = cm_current r)"
  shows "archive_inv (message_update i f s1) \<and> set (m_versions s) \<subseteq> set (m_versions s1) \<and> w \<in> set (m_versions s1) \<and>
    mv_message w = i \<and> mv_hash w = mv_hash v \<and> (mv_redacted w \<longrightarrow> mv_redacted v) \<and> m_messages s1 = m_messages s"
proof (cases "get_by_hash s (mv_message v) (mv_hash v)")
  case (Some u)
  then have u: "u = w" "s1 = s" using run by (simp_all add: insert_version_result)
  note w = get_by_hash_Some [OF Some [unfolded u(1)]]
  have "archive_inv (message_update i f s)" unfolding message_update_def update_where_def
    by (rule archive_inv_rows [OF inv]) (use f ptr w i(2) in \<open>auto split: if_splits\<close>)
  then show ?thesis using w i(2) by (simp add: u(2))
next
  case None
  have w: "w = v\<lparr>mv_seq := get_max_version_seq s i + 1, mv_id := m_next_version s\<rparr>"
    and s1: "s1 = s\<lparr>m_versions := m_versions s @ [w], m_next_version := m_next_version s + 1\<rparr>"
    using run None i(2) by (auto simp: insert_version_result Let_def)
  have "versions_ok (m_versions s @ [w])"
    by (rule versions_ok_add [OF archive_invD(4) [OF inv]])
      (use None max_seq [of _ s i] i(2) in \<open>fastforce simp: w get_by_hash_None\<close>)
  moreover have "ids_below mv_id (m_next_version s + 1) (m_versions s @ [w])"
    by (rule ids_below_append [OF archive_invD(3) [OF inv]]) (simp add: w)
  ultimately have tables: "ids_below mv_id (m_next_version s1) (m_versions s1)" "versions_ok (m_versions s1)"
    by (simp_all add: s1)
  let ?g = "\<lambda>r. if cm_id r = i then f r else r"
  have ids: "map cm_id (map ?g (m_messages s)) = map cm_id (m_messages s)" using f by simp
  have keys: "distinct (map (\<lambda>r. (cm_chat r, cm_message r)) (map ?g (m_messages s)))"
    "distinct (map cm_id (map ?g (m_messages s)))"
    by (rule distinct_map_map; use f archive_invD(1,2) [OF inv] in \<open>simp add: ids_below_def\<close>)+
  define t where "t = message_update i f s1"
  have t: "m_messages t = map ?g (m_messages s)" "m_versions t = m_versions s @ [w]"
    "m_next_message t = m_next_message s" "m_next_version t = m_next_version s1"
    by (simp_all add: t_def message_update_def update_where_def s1)
  have "pointer_ok t (?g r)" if r: "r \<in> set (m_messages s)" for r
  proof (cases "cm_id r = i")
    case True
    then show ?thesis using ptr [OF r True] archive_invD(6) [OF inv r] f [of r] i(2)
      by (auto simp: pointer_ok_def t w split: option.splits)
  next
    case False
    then show ?thesis using archive_invD(6) [OF inv r] i(2)
      by (auto simp: pointer_ok_def versions_of_def t w split: option.splits)
  qed
  then have "\<forall>r \<in> set (m_messages t). pointer_ok t r" unfolding t(1) set_map by blast
  moreover have "ids_below cm_id (m_next_message t) (m_messages t)"
    using archive_invD(1) [OF inv] keys(2) f by (auto simp: ids_below_def t(1,3) simp del: map_map)
  moreover have "cm_id ` set (m_messages t) = cm_id ` set (m_messages s)" using ids t(1) by (metis list.set_map)
  moreover have "distinct (map (\<lambda>r. (cm_chat r, cm_message r)) (m_messages t))" using keys(1) by (simp only: t(1))
  moreover have "\<forall>v \<in> set (m_versions t). mv_message v \<in> cm_id ` set (m_messages s)"
    using archive_invD(5) [OF inv] i by (auto simp: t(2) w)
  moreover have "ids_below mv_id (m_next_version t) (m_versions t)" "versions_ok (m_versions t)"
    using tables by (simp_all add: t s1)
  ultimately have "archive_inv t" unfolding archive_inv_def by (simp only: simp_thms)
  then show ?thesis using i(2) by (auto simp: s1 w t_def)
qed

subsection \<open>Steps\<close>

text \<open>
  One message delivered live or imported, one edit, one restored row, one row of the backfill; and whatever
  happens to the tombstones.  The forget cascade, which no scheduler runs, is not a step.
\<close>

inductive mstep :: "digest \<Rightarrow> mdb \<Rightarrow> mdb \<Rightarrow> bool" for digest :: digest where
  persist: "persist_message_with_policy digest imported raw_update captured now m s = Inr (r, s') \<Longrightarrow> mstep digest s s'"
| edit: "handle_edited_message digest community raw_update now m s = Inr s' \<Longrightarrow> mstep digest s s'"
| restore: "rehydrate_message_from_import digest m rid raw payload captured s = Inr (r, s') \<Longrightarrow> mstep digest s s'"
| backfill: "backfill_row digest i s = Inr (n, s') \<Longrightarrow> mstep digest s s'"
| tombstone: "mstep digest s (s\<lparr>m_forgets := fs\<rparr>)"

text \<open>Rows from before versions existed.\<close>

definition legacy_archive :: "mdb \<Rightarrow> bool" where
  "legacy_archive s \<longleftrightarrow> m_versions s = [] \<and> ids_below cm_id (m_next_message s) (m_messages s) \<and>
     distinct (map (\<lambda>r. (cm_chat r, cm_message r)) (m_messages s)) \<and> list_all (\<lambda>r. cm_current r = None) (m_messages s)"

inductive mreach :: "digest \<Rightarrow> mdb \<Rightarrow> bool" for digest :: digest where
  start: "legacy_archive s \<Longrightarrow> mreach digest s"
| go: "mreach digest s \<Longrightarrow> mstep digest s s' \<Longrightarrow> mreach digest s'"

text \<open>What a step keeps: every version as it is, and every row with its identity.\<close>

definition row_id :: "chat_message \<Rightarrow> int \<times> int \<times> int" where "row_id r = (cm_id r, cm_chat r, cm_message r)"

definition extends :: "mdb \<Rightarrow> mdb \<Rightarrow> bool" where
  "extends s s' \<longleftrightarrow> archive_inv s' \<and> set (m_versions s) \<subseteq> set (m_versions s') \<and>
     row_id ` set (m_messages s) \<subseteq> row_id ` set (m_messages s')"

lemma extends_trans: "extends s s1 \<Longrightarrow> extends s1 s2 \<Longrightarrow> extends s s2"
  unfolding extends_def by (meson order_trans)

lemma extends_refl: "archive_inv s \<Longrightarrow> extends s s"
  by (simp add: extends_def)

lemma row_ids_update:
  assumes "\<And>r. row_id (f r) = row_id r"
  shows "row_id ` set (update_where p f rs) = row_id ` set rs"
proof -
  have "row_id (if p r then f r else r) = row_id r" for r using assms by simp
  then have "(\<lambda>r. row_id (if p r then f r else r)) = row_id" by blast
  then show ?thesis unfolding set_update_where image_image by (simp only:)
qed

lemma sticky_policy_id [simp]: "row_id (sticky_policy policy redacted r) = row_id r"
  by (simp add: sticky_policy_def row_id_def)

lemma message_save_ids:
  assumes run: "message_save r policy redacted s = (saved, s1)"
  shows "row_id ` set (m_messages s) \<subseteq> row_id ` set (m_messages s1)"
proof (cases "find_chat_message s (cm_chat r) (cm_message r)")
  case None
  then have "\<exists>m. m_messages s1 = m_messages s @ [m]" using run by (auto simp: message_save_def Let_def)
  then show ?thesis by auto
next
  case (Some old)
  then consider "s1 = s" | "m_messages s1 = update_where (same_message (cm_chat r) (cm_message r)) (sticky_policy policy redacted) (m_messages s)"
    using run by (auto simp: message_save_def split: if_splits)
  then show ?thesis by cases (simp_all add: row_ids_update)
qed

lemma message_save_extends:
  assumes "archive_inv s" "message_save r policy redacted s = (saved, s1)"
  shows "extends s s1"
  using message_save_inv [OF assms] message_save_ids [OF assms(2)] by (simp add: extends_def)

lemma version_step_extends:
  assumes "archive_inv s" "i \<in> cm_id ` set (m_messages s)" "mv_message v = i" "insert_version v s = Inr (w, s1)"
    "\<And>r. cm_id (f r) = cm_id r \<and> cm_chat (f r) = cm_chat r \<and> cm_message (f r) = cm_message r"
    "\<And>r. r \<in> set (m_messages s) \<Longrightarrow> cm_id r = i \<Longrightarrow>
      cm_current (f r) = Some (mv_id w) \<or> (cm_current r \<noteq> None \<and> cm_current (f r) = cm_current r)"
  shows "extends s (message_update i f s1)"
proof -
  note v = version_step [OF assms]
  have "row_id (f r) = row_id r" for r using assms(5) [of r] by (simp add: row_id_def)
  then have "row_id ` set (m_messages (message_update i f s1)) = row_id ` set (m_messages s1)"
    by (simp add: message_update_def row_ids_update)
  moreover have "m_versions (message_update i f s1) = m_versions s1" by (simp add: message_update_def)
  ultimately show ?thesis using v by (simp add: extends_def)
qed

subsection \<open>The operations\<close>

definition content_hash_of :: "digest \<Rightarrow> tg_message \<Rightarrow> string" where
  "content_hash_of digest m = compute_content_hash digest (tm_text m) (tm_caption m)
     (Some (classify_message_kind m)) (extract_entities_unified m)"

text \<open>The version a delivery stands for.\<close>

definition delivered_version :: "digest \<Rightarrow> bool \<Rightarrow> int option \<Rightarrow> int \<Rightarrow> tg_message \<Rightarrow> int \<Rightarrow> message_version" where
  "delivered_version digest imported raw_update captured m i =
     version_values i (tm_text m) (tm_caption m) (extract_entities_unified m) None captured
       (content_hash_of digest m) raw_update False imported"

lemma persist_eq:
  "persist_message_with_policy digest imported raw_update captured now m s =
     (let (saved, s1) = message_save (message_values m False raw_update captured) (Some P_normal) (Some False) s
      in bindE (insert_version (delivered_version digest imported raw_update
             (case captured of None \<Rightarrow> now | Some t \<Rightarrow> t) m (cm_id saved)) s1) (\<lambda>(v, s3).
         if cm_current saved = None
         then Inr ((saved\<lparr>cm_current := Some (mv_id v)\<rparr>, P_normal, False),
                message_update (cm_id saved) (\<lambda>r. r\<lparr>cm_current := Some (mv_id v)\<rparr>) s3)
         else Inr ((saved, P_normal, False), s3)))"
  by (cases "message_save (message_values m False raw_update captured) (Some P_normal) (Some False) s")
    (simp add: persist_message_with_policy_def detect_policy_def delivered_version_def content_hash_of_def Let_def
        cong: if_cong)

lemma message_update_id: "message_update i (\<lambda>r. r) s = s"
  by (simp add: message_update_def update_where_def)

lemma save_policy:
  assumes "message_save r (Some P_normal) (Some False) s = (saved, s1)"
  shows "cm_policy saved \<noteq> P_nomem"
  using assms by (auto simp: message_save_def Let_def sticky_policy_def split: option.splits if_splits)

lemma save_unversioned:
  assumes inv: "archive_inv s" and run: "message_save r policy redacted s = (saved, s1)"
    and q: "q \<in> set (m_messages s1)" "cm_current q = None" "q \<noteq> saved"
  shows "\<exists>p \<in> set (m_messages s). cm_id p = cm_id q \<and> cm_current p = None"
proof (cases "find_chat_message s (cm_chat r) (cm_message r)")
  case None
  then show ?thesis using run q by (auto simp: message_save_def Let_def)
next
  case (Some old)
  then consider "s1 = s" | "m_messages s1 = update_where (same_message (cm_chat r) (cm_message r)) (sticky_policy policy redacted) (m_messages s)"
    using run by (auto simp: message_save_def split: if_splits)
  then show ?thesis
  proof cases
    case 2
    then obtain p where "p \<in> set (m_messages s)" "q = p \<or> q = sticky_policy policy redacted p"
      using q(1) by (auto simp: set_update_where split: if_splits)
    then show ?thesis using q(2) by (auto simp: sticky_policy_def)
  qed (use q in blast)
qed

text \<open>The ids of the rows that have no version.\<close>

definition unversioned_ids :: "mdb \<Rightarrow> int set" where
  "unversioned_ids s = cm_id ` set (unversioned s)"

lemma unversioned_ids_iff: "i \<in> unversioned_ids s \<longleftrightarrow> (\<exists>r \<in> set (m_messages s). cm_id r = i \<and> cm_current r = None)"
  by (auto simp: unversioned_ids_def unversioned_def)

definition persisted :: "string \<Rightarrow> chat_message \<Rightarrow> mdb \<Rightarrow> bool" where
  "persisted h r s \<longleftrightarrow> r \<in> set (m_messages s) \<and> cm_policy r \<noteq> P_nomem \<and> cm_current r \<noteq> None \<and>
     get_by_hash s (cm_id r) h \<noteq> None"

lemma persist_result:
  assumes inv: "archive_inv s" and run: "persist_message_with_policy digest imported raw_update captured now m s = Inr (r, s')"
  shows "extends s s' \<and> unversioned_ids s' \<subseteq> unversioned_ids s \<and> same_message (tm_chat m) (tm_id m) (fst r) \<and>
    persisted (content_hash_of digest m) (fst r) s' \<and> snd r = (P_normal, False)"
proof -
  obtain saved s1 where save: "message_save (message_values m False raw_update captured) (Some P_normal) (Some False) s = (saved, s1)"
    by fastforce
  note sv = message_save_inv [OF inv save]
  let ?v = "delivered_version digest imported raw_update (case captured of None \<Rightarrow> now | Some t \<Rightarrow> t) m (cm_id saved)"
  obtain w s3 where ins: "insert_version ?v s1 = Inr (w, s3)"
    using run save by (auto simp: persist_eq bindE_Inr_iff)
  define f :: "chat_message \<Rightarrow> chat_message" where
    "f = (if cm_current saved = None then (\<lambda>r. r\<lparr>cm_current := Some (mv_id w)\<rparr>) else (\<lambda>r. r))"
  have s': "s' = message_update (cm_id saved) f s3" and r: "r = (f saved, P_normal, False)"
    using run save ins by (auto simp: persist_eq f_def message_update_id split: if_splits)
  have v: "mv_message ?v = cm_id saved" "mv_hash ?v = content_hash_of digest m" "\<not> mv_redacted ?v"
    by (simp_all add: delivered_version_def version_values_def)
  have i: "cm_id saved \<in> cm_id ` set (m_messages s1)" using sv by blast
  have same: "q = saved" if "q \<in> set (m_messages s1)" "cm_id q = cm_id saved" for q
    using row_unique [OF _ that(1) _ that(2)] sv by simp
  have ptr: "cm_current (f q) = Some (mv_id w) \<or> (cm_current q \<noteq> None \<and> cm_current (f q) = cm_current q)"
    if "q \<in> set (m_messages s1)" "cm_id q = cm_id saved" for q
    using same [OF that] by (auto simp: f_def)
  have f: "cm_id (f q) = cm_id q \<and> cm_chat (f q) = cm_chat q \<and> cm_message (f q) = cm_message q" for q
    by (simp add: f_def)
  have e: "extends s1 s'" unfolding s'
    by (rule version_step_extends [OF _ i v(1) ins f ptr]) (use sv in auto)
  have step: "w \<in> set (m_versions s3) \<and> mv_message w = cm_id saved \<and> mv_hash w = content_hash_of digest m \<and>
      \<not> mv_redacted w \<and> m_messages s3 = m_messages s1"
    using version_step [OF conjunct1 [OF sv] i v(1) ins f ptr] v by auto
  have row: "f saved \<in> set (m_messages s')"
    using step sv by (auto simp: s' message_update_def set_update_where)
  have same_r: "same_message (tm_chat m) (tm_id m) (f saved)" "cm_id (f saved) = cm_id saved"
    using sv f [of saved] by (simp_all add: same_message_def message_values_def)
  have vs: "m_versions s' = m_versions s3" by (simp add: s' message_update_def)
  have "get_by_hash s' (cm_id (f saved)) (content_hash_of digest m) \<noteq> None"
    using step same_r(2) by (auto simp: get_by_hash_None vs)
  moreover have "cm_current (f saved) \<noteq> None" "cm_policy (f saved) \<noteq> P_nomem"
    using save_policy [OF save] by (auto simp: f_def)
  moreover have "i \<in> unversioned_ids s" if "i \<in> unversioned_ids s'" for i
  proof -
    from that obtain q where q: "q \<in> set (m_messages s1)" "cm_id (if cm_id q = cm_id saved then f q else q) = i"
      "cm_current (if cm_id q = cm_id saved then f q else q) = None"
      using step by (auto simp: unversioned_ids_iff s' message_update_def set_update_where)
    have "cm_id q \<noteq> cm_id saved" using q(3) same [OF q(1)] \<open>cm_current (f saved) \<noteq> None\<close> by auto
    then show ?thesis using q save_unversioned [OF inv save q(1)] by (auto simp: unversioned_ids_iff)
  qed
  ultimately show ?thesis using row same_r extends_trans [OF message_save_extends [OF inv save] e]
    by (auto simp: r persisted_def)
qed

end
