(* ===== verification/MessageFacts.thy ===== *)
theory MessageFacts
  imports MessageSystem
begin

section \<open>Every operation of the archive, on every branch\<close>

text \<open>
  What persisting, editing, restoring and backfilling leave: each ends without an error in a state that
  satisfies the invariant, extends the history, and leaves no new row without a version.
\<close>

subsection \<open>Persisting\<close>

lemma insert_version_total: "\<exists>w s1. insert_version v s = Inr (w, s1)"
  by (cases "get_by_hash s (mv_message v) (mv_hash v)") (auto simp: insert_version_result Let_def)

lemma persist_total: "\<exists>r s'. persist_message_with_policy digest imported raw_update captured now m s = Inr (r, s')"
proof -
  obtain saved s1 where save: "message_save (message_values m False raw_update captured) (Some P_normal) (Some False) s = (saved, s1)"
    by fastforce
  obtain w s3 where "insert_version (delivered_version digest imported raw_update
      (case captured of None \<Rightarrow> now | Some t \<Rightarrow> t) m (cm_id saved)) s1 = Inr (w, s3)"
    using insert_version_total by blast
  then show ?thesis by (auto simp: persist_eq save)
qed

lemma insert_version_found: "get_by_hash s (mv_message v) (mv_hash v) \<noteq> None \<Longrightarrow> \<exists>w. insert_version v s = Inr (w, s)"
  by (auto simp: insert_version_result)

lemma update_where_fixed: "(\<And>r. r \<in> set t \<Longrightarrow> p r \<Longrightarrow> f r = r) \<Longrightarrow> update_where p f t = t"
  by (auto simp: update_where_def intro: map_idI)

text \<open>A delivery that is recorded changes nothing.\<close>

lemma persist_fixed:
  assumes inv: "archive_inv s" and p: "persisted (content_hash_of digest m) r s"
    and same: "same_message (tm_chat m) (tm_id m) r"
  shows "persist_message_with_policy digest imported raw_update captured now m s = Inr ((r, P_normal, False), s)"
proof -
  have find: "find_chat_message s (tm_chat m) (tm_id m) = Some r"
    using p same by (simp add: find_message_iff [OF inv] persisted_def)
  have sticky: "sticky_policy (Some P_normal) (Some False) r = r"
    using p by (cases "cm_policy r") (auto simp: sticky_policy_def persisted_def)
  have "q = r" if "q \<in> set (m_messages s)" "same_message (tm_chat m) (tm_id m) q" for q
    using that find find_message_iff [OF inv] by (metis option.inject)
  then have "update_where (same_message (tm_chat m) (tm_id m)) (sticky_policy (Some P_normal) (Some False)) (m_messages s)
      = m_messages s"
    using sticky by (intro update_where_fixed) auto
  then have "message_save (message_values m False raw_update captured) (Some P_normal) (Some False) s = (r, s)"
    using find sticky by (simp add: message_save_def message_values_def)
  moreover have "get_by_hash s (mv_message (delivered_version digest imported raw_update t m (cm_id r)))
      (mv_hash (delivered_version digest imported raw_update t m (cm_id r))) \<noteq> None" for t
    using p by (simp add: delivered_version_def version_values_def persisted_def)
  then have "\<exists>w. insert_version (delivered_version digest imported raw_update t m (cm_id r)) s = Inr (w, s)" for t
    by (rule insert_version_found)
  then obtain w where "insert_version (delivered_version digest imported raw_update
      (case captured of None \<Rightarrow> now | Some t \<Rightarrow> t) m (cm_id r)) s = Inr (w, s)" by blast
  moreover have "cm_current r \<noteq> None" using p by (simp add: persisted_def)
  ultimately show ?thesis by (auto simp: persist_eq)
qed

subsection \<open>Editing\<close>

text \<open>The hash the row itself would have, without entities.\<close>

definition row_hash :: "digest \<Rightarrow> chat_message \<Rightarrow> string" where
  "row_hash digest r = compute_content_hash digest (cm_text r) (cm_caption r) (cm_kind r) None"

text \<open>The policy step of an edit to a message that is not off the record.\<close>

definition normalised :: "chat_message \<Rightarrow> mdb \<Rightarrow> mdb" where
  "normalised row s = (if cm_policy row = P_normal then s
     else message_update (cm_id row) (\<lambda>m. m\<lparr>cm_policy := P_normal\<rparr>) s)"

lemma edit_policy_eq: "edit_policy row m s = (if cm_policy row = P_offrecord then s else normalised row s)"
  by (simp add: edit_policy_def detect_policy_def update_memory_policy_def normalised_def)

lemma normalised_versions [simp]: "m_versions (normalised row s) = m_versions s"
  by (simp add: normalised_def message_update_def)

lemma get_by_hash_cong: "m_versions s = m_versions s' \<Longrightarrow> get_by_hash s i h = get_by_hash s' i h"
  by (simp add: get_by_hash_def)

lemma message_update_inv:
  assumes "archive_inv s" "\<And>r. row_id (f r) = row_id r" "\<And>r. cm_current (f r) = cm_current r"
  shows "archive_inv (message_update i f s)"
  unfolding message_update_def update_where_def
  by (rule archive_inv_rows) (use assms in \<open>auto simp: row_id_def\<close>)

lemma normalised_inv: "archive_inv s \<Longrightarrow> archive_inv (normalised row s)"
  by (simp add: normalised_def message_update_inv row_id_def)

lemma normalised_row:
  assumes inv: "archive_inv s" and row: "row \<in> set (m_messages s)"
  shows "find_chat_message (normalised row s) (cm_chat row) (cm_message row) = Some (row\<lparr>cm_policy := P_normal\<rparr>)"
proof (cases "cm_policy row = P_normal")
  case True
  then have e: "row\<lparr>cm_policy := P_normal\<rparr> = row" by (cases row) simp
  show ?thesis using row True by (simp add: e normalised_def find_message_iff [OF inv] same_message_def)
next
  case False
  have "row\<lparr>cm_policy := P_normal\<rparr> \<in> set (m_messages (normalised row s))"
    using row False by (auto simp: normalised_def message_update_def set_update_where)
  then show ?thesis by (simp add: find_message_iff [OF normalised_inv [OF inv]] same_message_def)
qed

text \<open>What an edit of an archived message does, on every branch.\<close>

definition edited_version :: "digest \<Rightarrow> int option \<Rightarrow> int \<Rightarrow> tg_message \<Rightarrow> chat_message \<Rightarrow> message_version" where
  "edited_version digest raw_update now m old = version_values (cm_id old) (tm_text m) (tm_caption m)
     (extract_entities_unified m) (tm_edit_date m) now (content_hash_of digest m) raw_update False False"

definition hidden_version :: "digest \<Rightarrow> int option \<Rightarrow> int \<Rightarrow> tg_message \<Rightarrow> chat_message \<Rightarrow> message_version" where
  "hidden_version digest raw_update now m old = version_values (cm_id old) None None None (tm_edit_date m) now
     (compute_content_hash digest None None (Some (classify_message_kind m)) None) raw_update True False"

lemma edit_stranger:
  "tm_chat m \<noteq> community \<Longrightarrow> handle_edited_message digest community raw_update now m s = Inr s"
  "find_chat_message s (tm_chat m) (tm_id m) = None \<Longrightarrow> handle_edited_message digest community raw_update now m s = Inr s"
  unfolding handle_edited_message_def by (simp, cases "tm_chat m = community", simp_all)

lemma found_same: "find_chat_message s chat mid = Some r \<Longrightarrow> r \<in> set (m_messages s) \<and> cm_chat r = chat \<and> cm_message r = mid"
  by (auto simp: find_chat_message_def find_Some_iff same_message_def)

lemma edit_open:
  assumes inv: "archive_inv s" and old: "find_chat_message s (tm_chat m) (tm_id m) = Some old"
    and open_row: "cm_policy old \<noteq> P_offrecord"
  shows "handle_edited_message digest (tm_chat m) raw_update now m s =
    (if get_by_hash s (cm_id old) (content_hash_of digest m) \<noteq> None \<or> content_hash_of digest m = row_hash digest old
     then Inr (normalised old s)
     else bindE (insert_version (edited_version digest raw_update now m old) (normalised old s)) (\<lambda>(v, s2).
       Inr (message_update (cm_id old) (\<lambda>r. r\<lparr>cm_current := Some (mv_id v), cm_text := tm_text m,
         cm_caption := tm_caption m\<rparr>) s2)))"
proof -
  have row: "find_chat_message (normalised old s) (tm_chat m) (tm_id m) = Some (old\<lparr>cm_policy := P_normal\<rparr>)"
    using normalised_row [OF inv, of old] found_same [OF old] by simp
  have new: "compute_content_hash digest (tm_text m) (tm_caption m) (Some (classify_message_kind m))
      (extract_entities_unified m) = content_hash_of digest m"
    by (simp add: content_hash_of_def)
  show ?thesis unfolding handle_edited_message_def Let_def edit_policy_eq
    by (simp add: old open_row row new row_hash_def detect_policy_def edited_version_def
        get_by_hash_cong [OF normalised_versions])
qed

lemma edit_hidden:
  assumes old: "find_chat_message s (tm_chat m) (tm_id m) = Some old" and off: "cm_policy old = P_offrecord"
  shows "handle_edited_message digest (tm_chat m) raw_update now m s =
    (let v = hidden_version digest raw_update now m old
     in if get_by_hash s (cm_id old) (mv_hash v) \<noteq> None \<or> mv_hash v = row_hash digest old then Inr s
        else bindE (insert_version v s) (\<lambda>(w, s2). Inr (message_update (cm_id old) (\<lambda>r. r\<lparr>cm_current := Some (mv_id w)\<rparr>) s2)))"
  using old off by (simp add: handle_edited_message_def Let_def edit_policy_eq detect_policy_def hidden_version_def
      version_values_def row_hash_def)

text \<open>Every edit ends, extends the history, and leaves the rows without a version alone.\<close>

lemma message_update_ids:
  "(\<And>r. row_id (f r) = row_id r) \<Longrightarrow> row_id ` set (m_messages (message_update i f s)) = row_id ` set (m_messages s)"
  by (simp add: message_update_def row_ids_update)

lemma unversioned_update:
  assumes "\<And>r. cm_id (f r) = cm_id r" "\<And>r. cm_current (f r) = None \<Longrightarrow> cm_current r = None"
  shows "unversioned_ids (message_update i f s) \<subseteq> unversioned_ids s"
  using assms by (fastforce simp: unversioned_ids_iff message_update_def set_update_where)

lemma unversioned_cong: "m_messages s = m_messages s' \<Longrightarrow> unversioned_ids s = unversioned_ids s'"
  by (simp add: unversioned_ids_def unversioned_def)

definition advances :: "mdb \<Rightarrow> mdb \<Rightarrow> bool" where
  "advances s s' \<longleftrightarrow> extends s s' \<and> unversioned_ids s' \<subseteq> unversioned_ids s"

lemma advances_refl: "archive_inv s \<Longrightarrow> advances s s"
  by (simp add: advances_def extends_refl)

lemma advances_trans: "advances s s1 \<Longrightarrow> advances s1 s2 \<Longrightarrow> advances s s2"
  unfolding advances_def using extends_trans by blast

lemma advances_ids:
  assumes "advances s s'" "i \<in> cm_id ` set (m_messages s)"
  shows "i \<in> cm_id ` set (m_messages s')"
proof -
  from assms(2) obtain r where "r \<in> set (m_messages s)" "cm_id r = i" by blast
  then have "row_id r \<in> row_id ` set (m_messages s')" using assms(1) by (auto simp: advances_def extends_def)
  then show ?thesis using \<open>cm_id r = i\<close> by (auto simp: row_id_def)
qed

lemma normalised_advances: "archive_inv s \<Longrightarrow> advances s (normalised row s)"
  using message_update_ids [of "\<lambda>m. m\<lparr>cm_policy := P_normal\<rparr>" "cm_id row" s]
    unversioned_update [of "\<lambda>m. m\<lparr>cm_policy := P_normal\<rparr>" "cm_id row" s]
  by (simp add: advances_def extends_def normalised_inv) (simp add: normalised_def row_id_def)

lemma version_step_advances:
  assumes inv: "archive_inv s" and i: "i \<in> cm_id ` set (m_messages s)" "mv_message v = i"
    and run: "insert_version v s = Inr (w, s1)"
    and f: "\<And>r. cm_id (f r) = cm_id r \<and> cm_chat (f r) = cm_chat r \<and> cm_message (f r) = cm_message r"
    and ptr: "\<And>r. cm_current (f r) = Some (mv_id w)"
  shows "advances s (message_update i f s1) \<and> i \<notin> unversioned_ids (message_update i f s1)"
proof -
  have "extends s (message_update i f s1)"
    by (rule version_step_extends [OF inv i run f]) (simp add: ptr)
  moreover have "m_messages s1 = m_messages s"
    using version_step [OF inv i run f] ptr by blast
  then have "unversioned_ids s1 = unversioned_ids s" by (rule unversioned_cong)
  moreover have "unversioned_ids (message_update i f s1) \<subseteq> unversioned_ids s1"
    by (rule unversioned_update) (use f ptr in auto)
  moreover have "i \<notin> unversioned_ids (message_update i f s1)"
    using f ptr by (auto simp: unversioned_ids_iff message_update_def set_update_where split: if_splits)
  ultimately show ?thesis by (simp add: advances_def)
qed

lemma edit_result:
  assumes inv: "archive_inv s"
  shows "\<exists>s'. handle_edited_message digest community raw_update now m s = Inr s' \<and> advances s s'"
proof (cases "tm_chat m = community \<and> find_chat_message s (tm_chat m) (tm_id m) \<noteq> None")
  case False
  then show ?thesis using edit_stranger [where m = m and community = community] advances_refl [OF inv] by blast
next
  case True
  then obtain old where c: "community = tm_chat m" and old: "find_chat_message s (tm_chat m) (tm_id m) = Some old" by auto
  note o = found_same [OF old]
  have step: "\<exists>s'. bindE (insert_version v t) (\<lambda>(w, s2). Inr (message_update (cm_id old) (f (mv_id w)) s2)) = Inr s' \<and> advances t s'"
    if t: "archive_inv t" "cm_id old \<in> cm_id ` set (m_messages t)" and v: "mv_message v = cm_id old"
      and f: "\<And>j r. cm_id (f j r) = cm_id r \<and> cm_chat (f j r) = cm_chat r \<and> cm_message (f j r) = cm_message r"
        "\<And>j r. cm_current (f j r) = Some j" for v t f
  proof -
    obtain w s2 where ins: "insert_version v t = Inr (w, s2)" using insert_version_total by blast
    have "advances t (message_update (cm_id old) (f (mv_id w)) s2)"
      using version_step_advances [OF t v ins, of "f (mv_id w)"] f by simp
    then show ?thesis by (simp add: ins)
  qed
  show ?thesis
  proof (cases "cm_policy old = P_offrecord")
    case True
    have "\<exists>s'. bindE (insert_version (hidden_version digest raw_update now m old) s)
        (\<lambda>(w, s2). Inr (message_update (cm_id old) (\<lambda>r. r\<lparr>cm_current := Some (mv_id w)\<rparr>) s2)) = Inr s' \<and> advances s s'"
      by (rule step) (use inv o in \<open>simp_all add: hidden_version_def version_values_def\<close>)
    then show ?thesis using advances_refl [OF inv] by (simp add: c edit_hidden [OF old True] Let_def)
  next
    case False
    have "cm_id old \<in> cm_id ` set (m_messages (normalised old s))"
      using advances_ids [OF normalised_advances [OF inv], of "cm_id old"] o by blast
    then have "\<exists>s'. bindE (insert_version (edited_version digest raw_update now m old) (normalised old s))
        (\<lambda>(w, s2). Inr (message_update (cm_id old) (\<lambda>r. r\<lparr>cm_current := Some (mv_id w), cm_text := tm_text m,
         cm_caption := tm_caption m\<rparr>) s2)) = Inr s' \<and> advances (normalised old s) s'"
      by (intro step) (simp_all add: edited_version_def version_values_def normalised_inv [OF inv])
    then show ?thesis using advances_trans [OF normalised_advances [OF inv, of old]] normalised_advances [OF inv, of old]
      by (simp add: c edit_open [OF inv old False]) blast
  qed
qed

subsection \<open>Restoring\<close>

lemma advances_marks [simp]:
  "advances s (s'\<lparr>m_marks := x\<rparr>) = advances s s'" "advances s (s'\<lparr>m_forgets := y\<rparr>) = advances s s'"
  by (simp_all add: advances_def extends_def unversioned_ids_def unversioned_def)

lemma restore_result:
  assumes inv: "archive_inv s" and run: "rehydrate_message_from_import digest m rid raw payload captured s = Inr (r, s')"
  shows "advances s s'"
proof -
  obtain saved author where find: "List.find (\<lambda>r. cm_id r = rid \<and> same_message (tm_chat m) (tm_id m) r) (m_messages s) = Some saved"
    and author: "tm_from m = Some author"
    using run by (auto simp: rehydrate_message_from_import_def split: option.splits)
  have rid: "rid \<in> cm_id ` set (m_messages s)" using find by (auto simp: find_Some_iff)
  let ?v = "version_values rid (tm_text m) (tm_caption m) (extract_entities_unified m) None captured
      (content_hash_of digest m) (Some raw) False True"
  obtain w s1 where ins: "insert_version ?v s = Inr (w, s1)" using insert_version_total by blast
  define f where "f = (\<lambda>r. r\<lparr>cm_user := Some author, cm_text := tm_text m, cm_caption := tm_caption m,
     cm_date := captured, cm_payload := Some payload, cm_reply := tm_reply m, cm_thread := tm_thread m,
     cm_kind := Some (classify_message_kind m), cm_current := Some (mv_id w), cm_policy := P_normal,
     cm_redacted := False, cm_hash := Some (content_hash_of digest m)\<rparr> :: chat_message)"
  have "\<exists>x y. s' = message_update rid f s1\<lparr>m_marks := x, m_forgets := y\<rparr>"
    using run find author ins
    by (auto simp: rehydrate_message_from_import_def content_hash_of_def f_def Let_def)
  then obtain x y where s': "s' = message_update rid f s1\<lparr>m_marks := x, m_forgets := y\<rparr>" by blast
  have "advances s (message_update rid f s1)"
    using version_step_advances [OF inv rid _ ins, of f] by (simp add: version_values_def f_def)
  then show ?thesis by (simp add: s')
qed

subsection \<open>The backfill\<close>

lemma version_add_first:
  assumes "archive_inv s" "versions_of s (mv_message v) = []"
  shows "version_add (v\<lparr>mv_seq := 1\<rparr>) s = insert_version v s"
proof -
  have none: "\<forall>w \<in> set (m_versions s). mv_message w \<noteq> mv_message v"
    using assms(2) by (auto simp: versions_of_def filter_empty_conv)
  then have "get_by_hash s (mv_message v) (mv_hash v) = None" by (simp add: get_by_hash_None)
  moreover have "get_max_version_seq s (mv_message v) = 0" using assms(2) by (simp add: get_max_version_seq_def)
  moreover have "version_fits (v\<lparr>mv_seq := 1, mv_id := m_next_version s\<rparr>) s" using none by (auto simp: version_fits_def)
  ultimately show ?thesis by (simp add: version_add_def insert_version_result Let_def)
qed

lemma fetch_row:
  assumes "archive_inv s" "i \<in> cm_id ` set (m_messages s)"
  shows "\<exists>r. fetch cm_id i (m_messages s) = Some r \<and> r \<in> set (m_messages s) \<and> cm_id r = i"
  using assms(2) by (cases "fetch cm_id i (m_messages s)") (auto simp: fetch_def find_None_iff find_Some_iff)

lemma backfill_row_result:
  assumes inv: "archive_inv s" and i: "i \<in> cm_id ` set (m_messages s)"
  shows "\<exists>n s'. backfill_row digest i s = Inr (n, s') \<and> advances s s' \<and> i \<notin> unversioned_ids s' \<and> n \<le> 1"
proof -
  obtain r where r: "fetch cm_id i (m_messages s) = Some r" "r \<in> set (m_messages s)" "cm_id r = i"
    using fetch_row [OF assms] by blast
  show ?thesis
  proof (cases "cm_current r")
    case (Some c)
    then have "i \<notin> unversioned_ids s" using r row_unique [OF inv] by (fastforce simp: unversioned_ids_iff)
    then show ?thesis using r Some advances_refl [OF inv] by (simp add: backfill_row_def)
  next
    case None
    let ?v = "version_values i (cm_text r) (cm_caption r) None None (cm_date r)
       (compute_content_hash digest (cm_text r) (cm_caption r) (cm_kind r) None) (cm_raw_update r) (cm_redacted r) False"
    have v: "mv_message ?v = i" by (simp add: version_values_def)
    have "versions_of s i = []" using archive_invD(6) [OF inv r(2)] None r(3) by (simp add: pointer_ok_def)
    then have add: "version_add (?v\<lparr>mv_seq := 1\<rparr>) s = insert_version ?v s" by (intro version_add_first [OF inv]) (simp add: v)
    obtain w s1 where ins: "insert_version ?v s = Inr (w, s1)" using insert_version_total by blast
    have "advances s (message_update i (\<lambda>r. r\<lparr>cm_current := Some (mv_id w)\<rparr>) s1) \<and>
        i \<notin> unversioned_ids (message_update i (\<lambda>r. r\<lparr>cm_current := Some (mv_id w)\<rparr>) s1)"
      by (rule version_step_advances [OF inv i v ins]) simp_all
    then show ?thesis using r None add ins by (simp add: backfill_row_def)
  qed
qed

text \<open>What live handlers may do between two rows of a batch.\<close>

definition live_env :: "digest \<Rightarrow> (int \<Rightarrow> mdb \<Rightarrow> mdb) \<Rightarrow> bool" where
  "live_env digest env \<longleftrightarrow> (\<forall>i s. (mstep digest)\<^sup>*\<^sup>* s (env i s))"

lemma backfill_row_missing: "i \<notin> cm_id ` set (m_messages s) \<Longrightarrow> backfill_row digest i s = Inl No_result"
  by (auto simp: backfill_row_def fetch_def split: option.split dest!: find_Some_iff [THEN iffD1])

lemma mstep_advances:
  assumes "mstep digest s s'" and inv: "archive_inv s"
  shows "advances s s'"
  using assms(1)
proof cases
  case (persist imported raw_update captured now m r)
  then show ?thesis using persist_result [OF inv persist] by (simp add: advances_def)
next
  case (edit community raw_update now m)
  then show ?thesis using edit_result [OF inv] by (metis sum.inject(2))
next
  case (restore m rid raw payload captured r)
  then show ?thesis by (rule restore_result [OF inv])
next
  case (backfill i n)
  then have "i \<in> cm_id ` set (m_messages s)" using backfill_row_missing by fastforce
  then show ?thesis using backfill_row_result [OF inv] backfill by (metis prod.inject sum.inject(2))
next
  case (tombstone fs)
  then show ?thesis using advances_refl [OF inv] by simp
qed

lemma msteps_advance:
  assumes "(mstep digest)\<^sup>*\<^sup>* s s'" and inv: "archive_inv s"
  shows "advances s s'"
  using assms(1)
proof (induction rule: rtranclp_induct)
  case base
  then show ?case by (rule advances_refl [OF inv])
next
  case (step t u)
  then have "archive_inv t" by (simp add: advances_def extends_def)
  then show ?case using step mstep_advances advances_trans by blast
qed

lemma legacy_archive_inv: "legacy_archive s \<Longrightarrow> archive_inv s"
  by (auto simp: legacy_archive_def archive_inv_def versions_ok_def ids_below_def pointer_ok_def versions_of_def list_all_iff)

lemma mreach_inv: "mreach digest s \<Longrightarrow> archive_inv s"
proof (induction rule: mreach.induct)
  case (start s)
  then show ?case by (rule legacy_archive_inv)
next
  case (go s s')
  then show ?case using mstep_advances by (auto simp: advances_def extends_def)
qed

lemma backfill_rows_result:
  assumes "live_env digest env" "archive_inv s" "set is \<subseteq> cm_id ` set (m_messages s)"
  shows "\<exists>n s'. backfill_rows digest env is s = Inr (n, s') \<and> advances s s' \<and> set is \<inter> unversioned_ids s' = {} \<and> n \<le> length is"
  using assms(2,3)
proof (induction "is" arbitrary: s)
  case Nil
  then show ?case by (simp add: advances_refl)
next
  case (Cons i rest)
  have e: "advances s (env i s)"
    using assms(1) Cons.prems(1) msteps_advance unfolding live_env_def by blast
  then have inv: "archive_inv (env i s)" by (simp add: advances_def extends_def)
  have "i \<in> cm_id ` set (m_messages (env i s))" using advances_ids [OF e] Cons.prems(2) by simp
  then obtain n s1 where r: "backfill_row digest i (env i s) = Inr (n, s1)" "advances (env i s) s1"
    "i \<notin> unversioned_ids s1" "n \<le> 1"
    using backfill_row_result [OF inv] by blast
  have a: "advances s s1" using advances_trans [OF e r(2)] .
  then have s1: "archive_inv s1" by (simp add: advances_def extends_def)
  have "set rest \<subseteq> cm_id ` set (m_messages s1)" using advances_ids [OF a] Cons.prems(2) by auto
  then obtain k s2 where rs: "backfill_rows digest env rest s1 = Inr (k, s2)" "advances s1 s2"
    "set rest \<inter> unversioned_ids s2 = {}" "k \<le> length rest"
    using Cons.IH [OF s1] by blast
  have "i \<notin> unversioned_ids s2" using r(3) rs(2) by (auto simp: advances_def)
  then show ?case using r rs advances_trans [OF a rs(2)] by simp
qed

text \<open>A batch: distinct rows without a version, and all of them if it is not full.\<close>

lemma batch_facts:
  assumes inv: "archive_inv s" and size: "0 < b"
  defines "ids \<equiv> map cm_id (backfill_batch_of b s)"
  shows "distinct ids" "set ids \<subseteq> unversioned_ids s" "set ids \<subseteq> cm_id ` set (m_messages s)"
    "ids = [] \<Longrightarrow> unversioned_ids s = {}" "length ids < b \<Longrightarrow> set ids = unversioned_ids s"
proof -
  let ?all = "sort_key cm_id (unversioned s)"
  have ids: "ids = take b (map cm_id ?all)" by (simp add: ids_def backfill_batch_of_def take_map)
  have "distinct (map cm_id ?all)"
    using archive_invD(1) [OF inv] by (auto simp: unversioned_def ids_below_def distinct_map inj_on_def distinct_filter)
  then show "distinct ids" unfolding ids by (rule distinct_take)
  have set_all: "set (map cm_id ?all) = unversioned_ids s" by (simp add: unversioned_ids_def)
  show sub: "set ids \<subseteq> unversioned_ids s" unfolding ids set_all [symmetric] by (rule set_take_subset)
  then show "set ids \<subseteq> cm_id ` set (m_messages s)" by (auto simp: unversioned_ids_def unversioned_def)
  show full: "set ids = unversioned_ids s" if "length ids < b"
  proof -
    have "length (map cm_id ?all) \<le> b" using that by (simp add: ids min_def split: if_splits)
    then have "ids = map cm_id ?all" unfolding ids by simp
    then show ?thesis using set_all by simp
  qed
  show "unversioned_ids s = {}" if "ids = []" using full that size by simp
qed

text \<open>Every full batch takes its rows off the rows without a version.\<close>

lemma backfill_returns:
  assumes env: "live_env digest env" and size: "0 < b" and inv: "archive_inv s"
  shows "\<exists>n s'. backfill_v1_message_versions digest env b acc s = Some (Inr (n, s')) \<and> advances s s' \<and>
    unversioned_ids s' = {} \<and> n \<le> acc + card (unversioned_ids s)"
  using inv
proof (induction "card (unversioned_ids s)" arbitrary: s acc rule: less_induct)
  case less
  let ?ids = "map cm_id (backfill_batch_of b s)"
  note batch = batch_facts [OF less.prems size]
  have fin: "finite (unversioned_ids s)" by (simp add: unversioned_ids_def)
  show ?case
  proof (cases "backfill_batch_of b s = []")
    case True
    then show ?thesis using batch(4) less.prems
      by (subst backfill_v1_message_versions.simps) (simp add: advances_refl)
  next
    case False
    obtain n s1 where run: "backfill_rows digest env ?ids s = Inr (n, s1)" and adv: "advances s s1"
      and gone: "set ?ids \<inter> unversioned_ids s1 = {}" and n: "n \<le> length ?ids"
      using backfill_rows_result [OF env less.prems batch(3)] by blast
    have sub: "unversioned_ids s1 \<subseteq> unversioned_ids s - set ?ids" using adv gone by (auto simp: advances_def)
    have "card (unversioned_ids s1) \<le> card (unversioned_ids s - set ?ids)" by (rule card_mono) (use fin sub in auto)
    also have "\<dots> = card (unversioned_ids s) - length ?ids"
      using batch(1,2) by (simp only: card_Diff_subset [OF finite_set batch(2)] distinct_card)
    finally have le: "card (unversioned_ids s1) \<le> card (unversioned_ids s) - length ?ids" .
    have bound: "length ?ids \<le> card (unversioned_ids s)" "0 < length ?ids"
      using card_mono [OF fin batch(2)] distinct_card [OF batch(1)] False by simp_all
    have inv1: "archive_inv s1" using adv by (simp add: advances_def extends_def)
    show ?thesis
    proof (cases "length (backfill_batch_of b s) < b")
      case True
      then have "unversioned_ids s1 = {}" using batch(5) sub by simp
      then show ?thesis using False True run adv n bound
        by (subst backfill_v1_message_versions.simps) simp
    next
      case last: False
      have "card (unversioned_ids s1) < card (unversioned_ids s)" using le bound by linarith
      then obtain k s' where "backfill_v1_message_versions digest env b (acc + n) s1 = Some (Inr (k, s'))"
        "advances s1 s'" "unversioned_ids s' = {}" "k \<le> acc + n + card (unversioned_ids s1)"
        using less.hyps inv1 by blast
      then show ?thesis using False last run advances_trans [OF adv] n le bound
        by (subst backfill_v1_message_versions.simps) simp
    qed
  qed
qed

subsection \<open>What a version's hash stands for\<close>

definition hash_ok :: "digest \<Rightarrow> message_version \<Rightarrow> bool" where
  "hash_ok digest v \<longleftrightarrow> (\<exists>k. mv_hash v = compute_content_hash digest (mv_text v) (mv_caption v) k (mv_entities v))"

definition adds_hashed :: "digest \<Rightarrow> mdb \<Rightarrow> mdb \<Rightarrow> bool" where
  "adds_hashed digest s s' \<longleftrightarrow> (\<forall>v \<in> set (m_versions s'). v \<in> set (m_versions s) \<or> hash_ok digest v)"

lemma adds_hashed_same: "m_versions s' = m_versions s \<Longrightarrow> adds_hashed digest s s'"
  by (simp add: adds_hashed_def)

lemma hash_ok_values:
  "hash_ok digest (version_values i text caption entities d c (compute_content_hash digest text caption k entities) raw hidden imp)"
  by (auto simp: hash_ok_def version_values_def)

lemma version_add_hashed:
  assumes "version_add v s = Inr (w, s1)" "hash_ok digest v" "m_versions s' = m_versions s1"
  shows "adds_hashed digest s s'"
  using assms by (auto simp: version_add_def Let_def adds_hashed_def hash_ok_def split: if_splits)

lemma insert_version_hashed:
  assumes "insert_version v s = Inr (w, s1)" "hash_ok digest v" "m_versions s' = m_versions s1" "m_versions s = m_versions s0"
  shows "adds_hashed digest s0 s'"
  using assms by (auto simp: insert_version_result Let_def adds_hashed_def hash_ok_def split: option.splits)

lemma message_update_versions [simp]: "m_versions (message_update i f s) = m_versions s"
  by (simp add: message_update_def)

lemma persist_hashed:
  assumes inv: "archive_inv s" and run: "persist_message_with_policy digest imported raw_update captured now m s = Inr (r, s')"
  shows "adds_hashed digest s s'"
proof -
  obtain saved s1 where save: "message_save (message_values m False raw_update captured) (Some P_normal) (Some False) s = (saved, s1)"
    by fastforce
  let ?v = "delivered_version digest imported raw_update (case captured of None \<Rightarrow> now | Some t \<Rightarrow> t) m (cm_id saved)"
  obtain w s3 where ins: "insert_version ?v s1 = Inr (w, s3)" using insert_version_total by blast
  have "m_versions s' = m_versions s3" using run save ins by (auto simp: persist_eq split: if_splits)
  moreover have "hash_ok digest ?v" by (simp add: delivered_version_def content_hash_of_def hash_ok_values)
  moreover have "m_versions s1 = m_versions s" using message_save_inv [OF inv save] by simp
  ultimately show ?thesis by (intro insert_version_hashed [OF ins])
qed

lemma edit_hashed:
  assumes inv: "archive_inv s" and run: "handle_edited_message digest community raw_update now m s = Inr s'"
  shows "adds_hashed digest s s'"
proof (cases "tm_chat m = community \<and> find_chat_message s (tm_chat m) (tm_id m) \<noteq> None")
  case False
  then show ?thesis using run edit_stranger [where m = m and community = community] adds_hashed_same
    by (metis sum.inject(2))
next
  case True
  then obtain old where c: "community = tm_chat m" and old: "find_chat_message s (tm_chat m) (tm_id m) = Some old" by auto
  have step: "adds_hashed digest s s'"
    if "bindE (insert_version v t) (\<lambda>(w, s2). Inr (message_update (cm_id old) (f (mv_id w)) s2)) = Inr s'"
      "hash_ok digest v" "m_versions t = m_versions s" for v t f
    using that by (auto simp: bindE_Inr_iff intro: insert_version_hashed)
  show ?thesis
  proof (cases "cm_policy old = P_offrecord")
    case True
    then show ?thesis using run adds_hashed_same [of s s] step [of "hidden_version digest raw_update now m old" s]
      by (auto simp: c edit_hidden [OF old True] Let_def hidden_version_def hash_ok_values split: if_splits)
  next
    case False
    then show ?thesis using run adds_hashed_same [of "normalised old s" s]
        step [of "edited_version digest raw_update now m old" "normalised old s"]
      by (auto simp: c edit_open [OF inv old False] edited_version_def content_hash_of_def hash_ok_values split: if_splits)
  qed
qed

lemma restore_hashed:
  assumes "rehydrate_message_from_import digest m rid raw payload captured s = Inr (r, s')"
  shows "adds_hashed digest s s'"
proof -
  have "\<exists>saved author. List.find (\<lambda>r. cm_id r = rid \<and> same_message (tm_chat m) (tm_id m) r) (m_messages s) = Some saved \<and>
      tm_from m = Some author"
    using assms by (auto simp: rehydrate_message_from_import_def split: option.splits)
  then obtain w s1 where "insert_version (version_values rid (tm_text m) (tm_caption m) (extract_entities_unified m) None captured
      (compute_content_hash digest (tm_text m) (tm_caption m) (Some (classify_message_kind m)) (extract_entities_unified m))
      (Some raw) False True) s = Inr (w, s1)" "m_versions s' = m_versions s1"
    using assms by (auto simp: rehydrate_message_from_import_def Let_def bindE_Inr_iff)
  then show ?thesis using insert_version_hashed hash_ok_values by blast
qed

lemma backfill_hashed:
  assumes "backfill_row digest i s = Inr (n, s')"
  shows "adds_hashed digest s s'"
proof (cases "s' = s")
  case True
  then show ?thesis by (simp add: adds_hashed_def)
next
  case False
  let ?v = "\<lambda>r. version_values i (cm_text r) (cm_caption r) None None (cm_date r)
     (compute_content_hash digest (cm_text r) (cm_caption r) (cm_kind r) None) (cm_raw_update r) (cm_redacted r) False"
  obtain r where r: "fetch cm_id i (m_messages s) = Some r" using assms by (auto simp: backfill_row_def split: option.splits)
  moreover have "cm_current r = None" using assms r False by (auto simp: backfill_row_def split: if_splits)
  ultimately obtain w s1 where "version_add (?v r\<lparr>mv_seq := 1\<rparr>) s = Inr (w, s1)" "m_versions s' = m_versions s1"
    using assms by (auto simp: backfill_row_def bindE_Inr_iff)
  moreover have "hash_ok digest (?v r\<lparr>mv_seq := 1\<rparr>)"
    using hash_ok_values by (fastforce simp: hash_ok_def)
  ultimately show ?thesis by (blast intro: version_add_hashed)
qed

lemma mstep_hashed:
  assumes "mstep digest s s'" "archive_inv s"
  shows "adds_hashed digest s s'"
  using assms(1)
  by cases (simp_all add: persist_hashed [OF assms(2)] edit_hashed [OF assms(2)] restore_hashed backfill_hashed adds_hashed_same)

lemma mreach_hashed: "mreach digest s \<Longrightarrow> v \<in> set (m_versions s) \<Longrightarrow> hash_ok digest v"
proof (induction arbitrary: v rule: mreach.induct)
  case (start s)
  then show ?case by (simp add: legacy_archive_def)
next
  case (go s s')
  then show ?case using mstep_hashed [OF go.hyps(2)] mreach_inv by (auto simp: adds_hashed_def)
qed

lemma mreach_steps: "(mstep digest)\<^sup>*\<^sup>* s s' \<Longrightarrow> mreach digest s \<Longrightarrow> mreach digest s'"
  by (induction rule: rtranclp_induct) (auto intro: mreach.go)

end
