(* ===== verification/MessageProperties.thy ===== *)
theory MessageProperties
  imports MessageFacts
begin

section \<open>Properties of the message archive\<close>

text \<open>
  Over every run of \<open>mstep\<close> from a table of rows without versions.  The digest of the scenario tells two
  contents apart; it delivers a message, edits it, and edits it back.
\<close>

subsection \<open>A scenario\<close>

definition sample_message :: "string \<Rightarrow> tg_message" where
  "sample_message t = \<lparr>tm_chat = 1, tm_id = 5, tm_from = Some 7, tm_text = Some (cp t), tm_caption = None, tm_date = 100,
     tm_edit_date = None, tm_reply = None, tm_thread = None, tm_attrs = [], tm_entities = None,
     tm_caption_entities = None, tm_dump = None\<rparr>"

definition sample_digest :: digest where
  "sample_digest x = (if x = (''chv1'', cp ''a'', [], ''text'', []) then ''h1'' else ''h2'')"

lemma sample_kind [simp]: "classify_message_kind (sample_message t) = ''text''"
  by (simp add: classify_message_kind_def kind_probes_def has_attr_def sample_message_def)

lemma sample_hash [simp]:
  "content_hash_of sample_digest (sample_message t) = (if cp t = cp ''a'' then ''h1'' else ''h2'')"
  by (simp add: content_hash_of_def compute_content_hash_def sample_digest_def sample_message_def or_empty_def
      hash_format_version_def extract_entities_unified_def normalize_entities_def
      classify_message_kind_def kind_probes_def has_attr_def)

definition sample_start :: mdb where
  "sample_start = \<lparr>m_messages = [], m_versions = [], m_marks = [], m_forgets = [], m_next_message = 1, m_next_version = 1\<rparr>"

definition sample_row :: "string \<Rightarrow> int option \<Rightarrow> chat_message" where
  "sample_row t c = (message_values (sample_message ''a'') False None None)\<lparr>cm_id := 1, cm_text := Some (cp t), cm_current := c\<rparr>"

definition sample_version :: "int \<Rightarrow> string \<Rightarrow> message_version" where
  "sample_version i t = (version_values 1 (Some (cp t)) None None None 100 (if t = ''a'' then ''h1'' else ''h2'') None False False)
     \<lparr>mv_id := i, mv_seq := i\<rparr>"

definition sample_first :: mdb where
  "sample_first = sample_start\<lparr>m_messages := [sample_row ''a'' (Some 1)], m_versions := [sample_version 1 ''a''],
     m_next_message := 2, m_next_version := 2\<rparr>"

definition sample_second :: mdb where
  "sample_second = sample_first\<lparr>m_messages := [sample_row ''b'' (Some 2)],
     m_versions := [sample_version 1 ''a'', sample_version 2 ''b''], m_next_version := 3\<rparr>"

lemma sample_reach: "mreach sample_digest sample_start"
  by (rule mreach.start) (simp add: legacy_archive_def sample_start_def ids_below_def)

lemma sample_persist:
  "persist_message_with_policy sample_digest False None None 100 (sample_message ''a'') sample_start =
     Inr ((sample_row ''a'' (Some 1), P_normal, False), sample_first)"
  by (simp add: persist_eq message_save_def find_chat_message_def sample_start_def Let_def insert_version_def
      get_by_hash_def version_add_def version_fits_def get_max_version_seq_def versions_of_def sample_first_def
      message_update_def update_where_def sample_row_def sample_version_def delivered_version_def version_values_def
      message_values_def) (simp add: sample_message_def extract_entities_unified_def raw_payload_def cp_def or_empty_def)

lemma sample_first_reach: "mreach sample_digest sample_first"
  using mreach.go [OF sample_reach mstep.persist [OF sample_persist]] .

lemma sample_found:
  "find_chat_message sample_first 1 5 = Some (sample_row ''a'' (Some 1))"
  "find_chat_message sample_second 1 5 = Some (sample_row ''b'' (Some 2))"
  by (simp_all add: find_chat_message_def sample_first_def sample_second_def sample_start_def sample_row_def
      message_values_def same_message_def sample_message_def)

lemma sample_keys [simp]: "tm_chat (sample_message t) = 1" "tm_id (sample_message t) = 5" "tm_edit_date (sample_message t) = None"
  "tm_text (sample_message t) = Some (cp t)" "tm_caption (sample_message t) = None" "extract_entities_unified (sample_message t) = None"
  by (simp_all add: sample_message_def extract_entities_unified_def)

lemma sample_edit:
  "handle_edited_message sample_digest 1 None 100 (sample_message ''b'') sample_first = Inr sample_second"
proof -
  have r: "cm_policy (sample_row ''a'' (Some 1)) = P_normal" "cm_id (sample_row ''a'' (Some 1)) = 1"
    by (simp_all add: sample_row_def message_values_def)
  have h: "row_hash sample_digest (sample_row ''a'' (Some 1)) = ''h1''"
    by (simp add: row_hash_def sample_row_def message_values_def compute_content_hash_def sample_digest_def
        hash_format_version_def or_empty_def normalize_entities_def)
  have e: "handle_edited_message sample_digest 1 None 100 (sample_message ''b'') sample_first =
    (if get_by_hash sample_first 1 ''h2'' \<noteq> None \<or> ''h2'' = ''h1'' then Inr sample_first
     else bindE (insert_version (edited_version sample_digest None 100 (sample_message ''b'') (sample_row ''a'' (Some 1))) sample_first)
       (\<lambda>(v, s2). Inr (message_update 1 (\<lambda>r. r\<lparr>cm_current := Some (mv_id v), cm_text := Some (cp ''b''), cm_caption := None\<rparr>) s2)))"
    using edit_open [OF mreach_inv [OF sample_first_reach], of "sample_message ''b''" "sample_row ''a'' (Some 1)" sample_digest None 100]
    by (simp add: sample_found r h normalised_def cp_def)
  show ?thesis unfolding e
    by (simp add: sample_first_def sample_second_def sample_start_def get_by_hash_def insert_version_def version_add_def
        version_fits_def get_max_version_seq_def versions_of_def sample_version_def version_values_def edited_version_def
        message_update_def update_where_def sample_row_def message_values_def cp_def Let_def)
qed

lemma sample_second_reach: "mreach sample_digest sample_second"
  using mreach.go [OF sample_first_reach mstep.edit [OF sample_edit]] .

subsection \<open>Properties\<close>

text \<open>
  C22. In every reachable state a row points to a version of its own message unless the message has none, the
  version numbers of a message are distinct, and no two active versions of it have the same hash.
\<close>

theorem current_version_exists:
  assumes "mreach digest s" "r \<in> set (m_messages s)"
  shows "(cm_current r = None) = (versions_of s (cm_id r) = []) \<and>
    (cm_current r \<noteq> None \<longrightarrow> the (cm_current r) \<in> mv_id ` set (versions_of s (cm_id r))) \<and>
    distinct (map mv_seq (versions_of s (cm_id r))) \<and>
    distinct (map mv_hash (filter (\<lambda>v. \<not> mv_redacted v) (versions_of s (cm_id r))))"
proof -
  note inv = mreach_inv [OF assms(1)]
  have "pointer_ok s r" by (rule archive_invD(6) [OF inv assms(2)])
  moreover have "distinct (map mv_seq (versions_of s (cm_id r)))"
    "distinct (map mv_hash (filter (\<lambda>v. \<not> mv_redacted v) (versions_of s (cm_id r))))"
    using archive_invD(4) [OF inv] by (auto simp: versions_ok_def versions_of_def distinct_map inj_on_def)
  ultimately show ?thesis
    by (cases "cm_current r") (auto simp: pointer_ok_def versions_of_def filter_empty_conv)
qed

theorem current_version_exists_witness:
  "(cm_current (sample_row ''b'' (Some 2)) = None) = (versions_of sample_second (cm_id (sample_row ''b'' (Some 2))) = [])"
proof -
  have "sample_row ''b'' (Some 2) \<in> set (m_messages sample_second)" by (simp add: sample_second_def)
  from current_version_exists [OF sample_second_reach this] show ?thesis by (rule conjunct1)
qed

text \<open>What is hashed of a message, and a digest on which nothing else collides with it.\<close>

definition content_key :: "tg_message \<Rightarrow> string \<times> ustr \<times> ustr \<times> string \<times> entity list" where
  "content_key m = (hash_format_version, or_empty (tm_text m), or_empty (tm_caption m),
     (if classify_message_kind m = [] then ''text'' else classify_message_kind m),
     normalize_entities (extract_entities_unified m))"

lemma content_hash_key: "content_hash_of digest m = digest (content_key m)"
  by (simp add: content_hash_of_def content_key_def compute_content_hash_def)

definition no_collision :: "digest \<Rightarrow> tg_message \<Rightarrow> bool" where
  "no_collision digest m \<longleftrightarrow> (\<forall>x. digest x = digest (content_key m) \<longrightarrow> x = content_key m)"

lemma hash_content:
  assumes "hash_ok digest v" "mv_hash v = content_hash_of digest m" "no_collision digest m"
  shows "or_empty (mv_text v) = or_empty (tm_text m)" "or_empty (mv_caption v) = or_empty (tm_caption m)"
    "normalize_entities (mv_entities v) = normalize_entities (extract_entities_unified m)"
  using assms by (auto simp: hash_ok_def no_collision_def content_hash_key compute_content_hash_def content_key_def)

text \<open>
  C5. Whatever happens to a message afterwards, every content that was delivered stays on record: an active
  version of the row has the delivered text, caption and entities.
\<close>

theorem complete_history:
  assumes "mreach digest s" and run: "persist_message_with_policy digest imported raw_update captured now m s = Inr (r, s1)"
    and "(mstep digest)\<^sup>*\<^sup>* s1 s2" and "no_collision digest m"
  shows "\<exists>v. v \<in> set (versions_of s2 (cm_id (fst r))) \<and> \<not> mv_redacted v \<and> or_empty (mv_text v) = or_empty (tm_text m) \<and>
    or_empty (mv_caption v) = or_empty (tm_caption m) \<and>
    normalize_entities (mv_entities v) = normalize_entities (extract_entities_unified m)"
proof -
  note inv = mreach_inv [OF assms(1)]
  note p = persist_result [OF inv run]
  have s1: "mreach digest s1" by (rule mreach.go [OF assms(1) mstep.persist [OF run]])
  then have adv: "advances s1 s2" using msteps_advance [OF assms(3)] mreach_inv by blast
  obtain v where v: "get_by_hash s1 (cm_id (fst r)) (content_hash_of digest m) = Some v" using p by (auto simp: persisted_def)
  note found = get_by_hash_Some [OF v]
  have "v \<in> set (m_versions s2)" using adv found by (auto simp: advances_def extends_def)
  moreover have "hash_ok digest v" using mreach_hashed [OF s1] found by blast
  ultimately show ?thesis using found hash_content [OF _ _ assms(4)] by (auto simp: versions_of_def)
qed

lemma sample_no_collision: "no_collision sample_digest (sample_message ''a'')"
proof -
  have "content_key (sample_message ''a'') = (''chv1'', cp ''a'', [], ''text'', [])"
    by (simp add: content_key_def hash_format_version_def or_empty_def normalize_entities_def)
  then show ?thesis by (simp add: no_collision_def sample_digest_def)
qed

theorem complete_history_witness:
  "\<exists>v. v \<in> set (versions_of sample_second (cm_id (sample_row ''a'' (Some 1)))) \<and> \<not> mv_redacted v \<and> or_empty (mv_text v) = cp ''a''"
proof -
  have "(mstep sample_digest)\<^sup>*\<^sup>* sample_first sample_second" using mstep.edit [OF sample_edit] by blast
  from complete_history [OF sample_reach sample_persist this sample_no_collision]
  show ?thesis by (auto simp: or_empty_def)
qed

text \<open>
  C26. A message is persisted by the middleware and again by the router: the second delivery returns the same row
  and changes nothing, whatever its clock and its update row.
\<close>

theorem persist_idempotent:
  assumes "mreach digest s" and run: "persist_message_with_policy digest imported raw_update captured now m s = Inr (r, s1)"
  shows "persist_message_with_policy digest imported2 raw_update2 captured2 now2 m s1 = Inr (r, s1)"
proof -
  note p = persist_result [OF mreach_inv [OF assms(1)] run]
  have inv: "archive_inv s1" using p by (simp add: extends_def)
  have "r = (fst r, P_normal, False)" using p by (metis prod.collapse)
  then show ?thesis using persist_fixed [OF inv, of digest m "fst r"] p by simp
qed

theorem persist_idempotent_witness:
  "persist_message_with_policy sample_digest True (Some 9) (Some 1) 200 (sample_message ''a'') sample_first =
     Inr ((sample_row ''a'' (Some 1), P_normal, False), sample_first)"
  by (rule persist_idempotent [OF sample_reach sample_persist])

text \<open>
  C23. An edit of a message that is not off the record: content whose hash is that of an active version, or that of
  the row's own text and caption without entities, writes no version and keeps the row's text and pointer - so an
  edit that only removes the formatting is dropped; any other content is appended as the next version, and text,
  caption and pointer follow it.  In both cases a policy of the row other than normal is reset to normal.
\<close>

theorem edit_exact:
  assumes "mreach digest s" and old: "find_chat_message s (tm_chat m) (tm_id m) = Some old"
    and open_row: "cm_policy old \<noteq> P_offrecord"
  shows "handle_edited_message digest (tm_chat m) raw_update now m s = Inr (
    if get_by_hash s (cm_id old) (content_hash_of digest m) \<noteq> None \<or> content_hash_of digest m = row_hash digest old
    then normalised old s
    else let v = (edited_version digest raw_update now m old)\<lparr>mv_seq := get_max_version_seq s (cm_id old) + 1,
               mv_id := m_next_version s\<rparr>
      in message_update (cm_id old) (\<lambda>r. r\<lparr>cm_current := Some (m_next_version s), cm_text := tm_text m, cm_caption := tm_caption m\<rparr>)
        (normalised old s\<lparr>m_versions := m_versions s @ [v], m_next_version := m_next_version s + 1\<rparr>))"
proof -
  have v: "mv_message (edited_version digest raw_update now m old) = cm_id old"
    "mv_hash (edited_version digest raw_update now m old) = content_hash_of digest m"
    by (simp_all add: edited_version_def version_values_def)
  have n: "get_max_version_seq (normalised old s) i = get_max_version_seq s i" "m_next_version (normalised old s) = m_next_version s" for i
    by (simp_all add: get_max_version_seq_def versions_of_def) (simp add: normalised_def message_update_def)
  show ?thesis
    unfolding edit_open [OF mreach_inv [OF assms(1)] old open_row]
    by (simp add: insert_version_result v n get_by_hash_cong [OF normalised_versions] Let_def split: option.split)
qed

theorem edit_exact_witness:
  "handle_edited_message sample_digest 1 None 100 (sample_message ''a'') sample_second = Inr sample_second"
proof -
  have f: "find_chat_message sample_second (tm_chat (sample_message ''a'')) (tm_id (sample_message ''a'')) = Some (sample_row ''b'' (Some 2))"
    by (simp add: sample_found)
  have r: "cm_policy (sample_row ''b'' (Some 2)) = P_normal" "cm_id (sample_row ''b'' (Some 2)) = 1"
    by (simp_all add: sample_row_def message_values_def)
  have "get_by_hash sample_second 1 ''h1'' \<noteq> None"
    by (simp add: get_by_hash_def sample_second_def sample_version_def version_values_def)
  then show ?thesis using edit_exact [OF sample_second_reach f, of None 100] r by (simp add: normalised_def)
qed

text \<open>
  C24. An edit back to the delivered content is lost: the row keeps the text and the version of the edit before
  it, and no version is written.
\<close>

theorem revert_edit_lost:
  assumes "mreach digest s" and run: "persist_message_with_policy digest imported raw_update captured now m s = Inr (r, s1)"
    and "(mstep digest)\<^sup>*\<^sup>* s1 s2" and row: "find_chat_message s2 (tm_chat m) (tm_id m) = Some row"
    and "cm_policy row = P_normal"
  shows "handle_edited_message digest (tm_chat m) raw_update2 now2 m s2 = Inr s2"
proof -
  note p = persist_result [OF mreach_inv [OF assms(1)] run]
  have s1: "mreach digest s1" by (rule mreach.go [OF assms(1) mstep.persist [OF run]])
  then have adv: "advances s1 s2" using msteps_advance [OF assms(3)] mreach_inv by blast
  then have inv: "archive_inv s2" by (simp add: advances_def extends_def)
  obtain v where v: "get_by_hash s1 (cm_id (fst r)) (content_hash_of digest m) = Some v" using p by (auto simp: persisted_def)
  have "fst r \<in> set (m_messages s1)" using p by (simp add: persisted_def)
  then obtain q where q: "q \<in> set (m_messages s2)" "row_id q = row_id (fst r)"
    using adv unfolding advances_def extends_def by fastforce
  then have "same_message (tm_chat m) (tm_id m) q" using p by (simp add: row_id_def same_message_def)
  then have "q = row" using row q(1) by (simp add: find_message_iff [OF inv, THEN iffD2])
  then have "cm_id row = cm_id (fst r)" using q(2) by (simp add: row_id_def)
  moreover have "v \<in> set (m_versions s2)" using adv get_by_hash_Some [OF v] by (auto simp: advances_def extends_def)
  ultimately have "get_by_hash s2 (cm_id row) (content_hash_of digest m) \<noteq> None"
    using get_by_hash_Some [OF v] by (auto simp: get_by_hash_None)
  then show ?thesis using assms(5) by (simp add: edit_open [OF inv row] normalised_def)
qed

theorem revert_edit_lost_witness:
  "handle_edited_message sample_digest 1 (Some 3) 300 (sample_message ''a'') sample_second = Inr sample_second \<and>
     find_chat_message sample_second 1 5 = Some (sample_row ''b'' (Some 2))"
proof -
  have steps: "(mstep sample_digest)\<^sup>*\<^sup>* sample_first sample_second" using mstep.edit [OF sample_edit] by blast
  have f: "find_chat_message sample_second (tm_chat (sample_message ''a'')) (tm_id (sample_message ''a'')) = Some (sample_row ''b'' (Some 2))"
    by (simp add: sample_found)
  show ?thesis using revert_edit_lost [OF sample_reach sample_persist steps f, of "Some 3" 300]
    by (simp add: sample_found sample_row_def message_values_def)
qed

text \<open>
  C25. The backfill ends with no row left without a version, whatever live handlers commit between two rows, and
  it loses no version; a batch needs at least one row.
\<close>

theorem backfill_total:
  assumes "mreach digest s" "live_env digest env" "0 < b"
  shows "\<exists>n s'. backfill_v1_message_versions digest env b 0 s = Some (Inr (n, s')) \<and> unversioned s' = [] \<and>
    n \<le> length (unversioned s) \<and> set (m_versions s) \<subseteq> set (m_versions s')"
proof -
  note inv = mreach_inv [OF assms(1)]
  obtain n s' where "backfill_v1_message_versions digest env b 0 s = Some (Inr (n, s'))" "advances s s'"
    "unversioned_ids s' = {}" "n \<le> card (unversioned_ids s)"
    using backfill_returns [OF assms(2,3) inv, of 0] by auto
  moreover have "card (unversioned_ids s) \<le> length (unversioned s)"
    unfolding unversioned_ids_def by (metis card_length length_map list.set_map)
  ultimately show ?thesis by (auto simp: unversioned_ids_def advances_def extends_def)
qed

definition sample_legacy :: mdb where
  "sample_legacy = sample_start\<lparr>m_messages := [sample_row ''a'' None], m_next_message := 2\<rparr>"

theorem backfill_total_witness:
  "\<exists>n s'. backfill_v1_message_versions sample_digest (\<lambda>i s. s) 200 0 sample_legacy = Some (Inr (n, s')) \<and> unversioned s' = [] \<and> n \<le> 1"
proof -
  have "legacy_archive sample_legacy"
    by (simp add: legacy_archive_def sample_legacy_def sample_start_def ids_below_def sample_row_def message_values_def)
  then have "mreach sample_digest sample_legacy" by (rule mreach.start)
  moreover have "live_env sample_digest (\<lambda>i s. s)" by (simp add: live_env_def)
  moreover have "length (unversioned sample_legacy) \<le> 1" by (simp add: unversioned_def sample_legacy_def)
  ultimately show ?thesis using backfill_total [of sample_digest sample_legacy "\<lambda>i s. s" 200] by fastforce
qed

end
