(* ===== verification/ImportModel.thy ===== *)
theory ImportModel
  imports MessageArchive IntroModels
begin

section \<open>The Telegram Desktop import: export messages, raw rows and runs\<close>

text \<open>
  An export message as the JSON object the importer reads (services/import\_parser.py, import\_apply.py),
  the rows of \<open>telegram_updates\<close>, \<open>ingestion_runs\<close>, \<open>users\<close> and \<open>message_media\<close> the import writes, and the
  services that decide over a run: import\_checkpoint.py, import\_user\_map.py, import\_reply\_resolver.py.
  What Python's library computes from text (timestamps, case folding, decimal digits, serialised JSON) is
  the record \<open>pylib\<close>.
\<close>

subsection \<open>JSON\<close>

text \<open>An object keeps its keys in order, a float is the text \<open>str\<close> gives it.\<close>

datatype json =
    J_null
  | J_bool bool
  | J_int int
  | J_float ustr
  | J_str ustr
  | J_list "json list"
  | J_obj "(ustr \<times> json) list"

type_synonym jobject = "(ustr \<times> json) list"

text \<open>\<open>d.get(k)\<close>, \<open>d.setdefault(k, v)\<close>, \<open>d[k] = v\<close> and the merge \<open>||\<close> of JSONB.\<close>

definition dict_get :: "jobject \<Rightarrow> string \<Rightarrow> json" where
  "dict_get d k = (case map_of d (cp k) of None \<Rightarrow> J_null | Some v \<Rightarrow> v)"

definition setdefault :: "jobject \<Rightarrow> string \<Rightarrow> json \<Rightarrow> jobject" where
  "setdefault d k v = (if map_of d (cp k) = None then d @ [(cp k, v)] else d)"

definition set_key :: "jobject \<Rightarrow> ustr \<times> json \<Rightarrow> jobject" where
  "set_key d e = (if map_of d (fst e) = None then d @ [e]
     else map (\<lambda>(k, v). (k, if k = fst e then snd e else v)) d)"

definition merge_json :: "jobject option \<Rightarrow> jobject \<Rightarrow> jobject option" where
  "merge_json d patch = Some (foldl set_key (case d of None \<Rightarrow> [] | Some o' \<Rightarrow> o') patch)"

text \<open>\<open>isinstance(v, int)\<close> holds of a Boolean too.\<close>

definition as_int :: "json \<Rightarrow> int option" where
  "as_int v = (case v of J_int n \<Rightarrow> Some n | J_bool b \<Rightarrow> Some (if b then 1 else 0) | _ \<Rightarrow> None)"

definition as_str :: "json \<Rightarrow> ustr option" where
  "as_str v = (case v of J_str t \<Rightarrow> Some t | _ \<Rightarrow> None)"

definition truthy :: "json \<Rightarrow> bool" where
  "truthy v = (case v of J_null \<Rightarrow> False | J_bool b \<Rightarrow> b | J_int n \<Rightarrow> n \<noteq> 0
     | J_float t \<Rightarrow> t \<noteq> cp ''0.0'' \<and> t \<noteq> cp ''-0.0'' | J_str t \<Rightarrow> t \<noteq> [] | J_list js \<Rightarrow> js \<noteq> [] | J_obj d \<Rightarrow> d \<noteq> [])"

record pylib =
  py_author :: "ustr \<Rightarrow> ustr"
  py_digits :: "ustr \<Rightarrow> int option"
  py_fromtimestamp :: "ustr \<Rightarrow> int option"
  py_fromisoformat :: "ustr \<Rightarrow> int option"
  py_isoformat :: "int \<Rightarrow> ustr"
  py_dumps :: "json \<Rightarrow> ustr"

text \<open>
  \<open>Data_error\<close>: a value that does not fit its column.  \<open>py_author\<close>: NFKC, white space collapsed, case folded; \<open>py_digits\<close>: \<open>int(t)\<close> if \<open>t.isdigit()\<close> and it
  converts; \<open>py_fromtimestamp\<close>, \<open>py_fromisoformat\<close>: the moment, unless the conversion raises.
\<close>

datatype import_error =
    Type_error string
  | Value_error string
  | Database_error mem_error
  | Data_error string
  | File_error
  | Run_not_found
  | Invalid_rollback_run

subsection \<open>Export messages\<close>

definition td_media_types :: "(string \<times> string) list" where
  "td_media_types = [(''photo'', ''photo''), (''video_file'', ''video''), (''voice_message'', ''voice''),
     (''audio_file'', ''audio''), (''sticker'', ''sticker''), (''animation'', ''animation''),
     (''video_message'', ''video_note'')]"

definition is_prefix :: "string \<Rightarrow> ustr \<Rightarrow> bool" where
  "is_prefix p t \<longleftrightarrow> take (length p) t = cp p"

text \<open>\<open>_classify_td_kind\<close>: looking up an unhashable \<open>media_type\<close> raises.\<close>

definition classify_td_kind :: "jobject \<Rightarrow> import_error + string" where
  "classify_td_kind msg =
     (if dict_get msg ''type'' = J_str (cp ''service'') then Inr ''service''
      else if dict_get msg ''forwarded_from'' \<noteq> J_null then Inr ''forward''
      else case dict_get msg ''media_type'' of
        J_null \<Rightarrow>
          Inr (if truthy (dict_get msg ''photo'') then ''photo''
            else if truthy (dict_get msg ''location_information'') then ''location''
            else if truthy (dict_get msg ''contact_information'') then ''contact''
            else if truthy (dict_get msg ''poll'') then ''poll''
            else if truthy (dict_get msg ''dice'') then ''dice''
            else if (case as_str (dict_get msg ''mime_type'') of None \<Rightarrow> False | Some m \<Rightarrow> is_prefix ''application/'' m) then ''document''
            else if dict_get msg ''text'' \<noteq> J_null \<or> dict_get msg ''text_entities'' \<noteq> J_null then ''text''
            else ''unknown'')
      | J_list _ \<Rightarrow> Inl (Type_error ''unhashable type'')
      | J_obj _ \<Rightarrow> Inl (Type_error ''unhashable type'')
      | J_str t \<Rightarrow> (case List.find (\<lambda>(m, _). t = cp m) td_media_types of
          None \<Rightarrow> Inr ''unknown'' | Some (_, kind) \<Rightarrow> Inr kind)
      | _ \<Rightarrow> Inr ''unknown'')"

text \<open>\<open>_extract_text_string\<close>: text, or a list of texts, numbers, lists and objects with a text.\<close>

fun text_item :: "json \<Rightarrow> ustr" where
  "text_item J_null = []"
| "text_item (J_bool b) = cp (if b then ''True'' else ''False'')"
| "text_item (J_int n) = cp (show_int n)"
| "text_item (J_float t) = t"
| "text_item (J_str t) = t"
| "text_item (J_list js) = concat (map text_item js)"
| "text_item (J_obj d) = (case as_str (dict_get d ''text'') of None \<Rightarrow> [] | Some t \<Rightarrow> t)"

definition extract_text_string :: "json \<Rightarrow> ustr" where
  "extract_text_string v = (case v of J_obj _ \<Rightarrow> [] | _ \<Rightarrow> text_item v)"

definition media_kinds :: "string list" where
  "media_kinds = [''photo'', ''video'', ''voice'', ''audio'', ''document'', ''sticker'', ''animation'', ''video_note'']"

definition non_empty :: "ustr \<Rightarrow> ustr option" where
  "non_empty t = (if t = [] then None else Some t)"

text \<open>The text and the caption; \<open>msg.get("text", "")\<close> of a missing text and of \<open>null\<close> both give no text.\<close>

definition extract_text_caption_for_kind :: "jobject \<Rightarrow> string \<Rightarrow> ustr option \<times> ustr option" where
  "extract_text_caption_for_kind msg kind =
     (let t = extract_text_string (dict_get msg ''text'');
          text = (if t = [] then extract_text_string (dict_get msg ''text_entities'') else t)
      in if kind \<in> set media_kinds then (None, non_empty text) else (non_empty text, None))"

definition build_raw_payload :: "jobject \<Rightarrow> int \<Rightarrow> int \<Rightarrow> jobject" where
  "build_raw_payload msg chat mid = setdefault (setdefault msg ''chat_id'' (J_int chat)) ''message_id'' (J_int mid)"

definition build_excluded_author_raw_payload :: "jobject \<Rightarrow> int \<Rightarrow> int \<Rightarrow> jobject" where
  "build_excluded_author_raw_payload msg chat mid =
     set_key (build_raw_payload msg chat mid) (cp ''excluded_author'', J_bool True)"

definition parse_message_date :: "pylib \<Rightarrow> jobject \<Rightarrow> int" where
  "parse_message_date lib msg =
     (case (case as_str (dict_get msg ''date_unixtime'') of None \<Rightarrow> None | Some t \<Rightarrow> py_fromtimestamp lib t) of
        Some t \<Rightarrow> t
      | None \<Rightarrow> (case (case as_str (dict_get msg ''date'') of None \<Rightarrow> None | Some t \<Rightarrow> py_fromisoformat lib t) of
          Some t \<Rightarrow> t | None \<Rightarrow> 0))"

definition kind_attrs :: "string list" where
  "kind_attrs = [''photo'', ''video'', ''voice'', ''audio'', ''document'', ''sticker'', ''animation'', ''video_note'',
     ''location'', ''contact'', ''poll'', ''dice'', ''forward_origin'', ''new_chat_members'', ''left_chat_member'', ''pinned_message'']"

text \<open>\<open>_build_message_duck\<close>: the object \<open>persist_message_with_policy\<close> reads; it has no serialiser.\<close>

definition build_message_duck ::
  "pylib \<Rightarrow> jobject \<Rightarrow> int \<Rightarrow> int \<Rightarrow> int \<Rightarrow> ustr option \<Rightarrow> ustr option \<Rightarrow> int option \<Rightarrow> string \<Rightarrow> tg_message" where
  "build_message_duck lib msg chat mid user text caption reply kind =
     \<lparr>tm_chat = chat, tm_id = mid, tm_from = Some user, tm_text = text, tm_caption = caption,
      tm_date = parse_message_date lib msg, tm_edit_date = None, tm_reply = reply, tm_thread = None,
      tm_attrs = (if kind \<in> set kind_attrs then [kind] else []) @ (if kind = ''forward'' then [''forward_origin''] else []),
      tm_entities = None, tm_caption_entities = None, tm_dump = None\<rparr>"

subsection \<open>Rows\<close>

record raw_row =
  rw_id :: int
  rw_update :: "int option"
  rw_type :: string
  rw_payload :: "jobject option"
  rw_hash :: "string option"
  rw_chat :: "int option"
  rw_message :: "int option"
  rw_run :: "int option"
  rw_redacted :: bool
  rw_reason :: "string option"

datatype run_type = R_live | R_import | R_dry_run | R_cancelled | R_rolled_back

datatype run_status = S_running | S_completed | S_failed | S_dry_run | S_cancelled

record ingestion_run =
  ir_id :: int
  ir_type :: run_type
  ir_source :: "ustr option"
  ir_hash :: "string option"
  ir_started :: int
  ir_finished :: "int option"
  ir_status :: run_status
  ir_stats :: "jobject option"
  ir_config :: "jobject option"

text \<open>
  What an import writes beside its run.  \<open>c_cards\<close>: the versions knowledge cards cite, which nothing here
  writes.
\<close>

record content =
  c_archive :: mdb
  c_raws :: "raw_row list"
  c_users :: "user list"
  c_media :: "int list"
  c_cards :: "int list"
  c_next_raw :: int

record import_db =
  d_content :: content
  d_runs :: "ingestion_run list"
  d_next_run :: int

subsection \<open>TelegramUpdateRepo\<close>

definition import_message_row :: "int \<Rightarrow> int \<Rightarrow> raw_row \<Rightarrow> bool" where
  "import_message_row chat mid r \<longleftrightarrow> rw_update r = None \<and> rw_type r = ''import_message'' \<and>
     rw_chat r = Some chat \<and> rw_message r = Some mid"

text \<open>A conflict refreshes the payload and keeps the run that wrote the row first.\<close>

definition refresh_raw :: "jobject \<Rightarrow> raw_row \<Rightarrow> raw_row" where
  "refresh_raw payload r = r\<lparr>rw_payload := Some payload, rw_hash := None, rw_redacted := False, rw_reason := None\<rparr>"

definition new_import_raw :: "jobject \<Rightarrow> int \<Rightarrow> int \<Rightarrow> int \<Rightarrow> content \<Rightarrow> raw_row" where
  "new_import_raw payload chat mid run c = \<lparr>rw_id = c_next_raw c, rw_update = None, rw_type = ''import_message'',
     rw_payload = Some payload, rw_hash = None, rw_chat = Some chat, rw_message = Some mid, rw_run = Some run,
     rw_redacted = False, rw_reason = None\<rparr>"

definition upsert_import_message :: "jobject \<Rightarrow> int \<Rightarrow> int \<Rightarrow> int \<Rightarrow> content \<Rightarrow> raw_row \<times> content" where
  "upsert_import_message payload chat mid run c =
     (case List.find (import_message_row chat mid) (c_raws c) of
        Some r \<Rightarrow> (refresh_raw payload r,
          c\<lparr>c_raws := update_where (import_message_row chat mid) (refresh_raw payload) (c_raws c)\<rparr>)
      | None \<Rightarrow>
          let r = new_import_raw payload chat mid run c
          in (r, c\<lparr>c_raws := c_raws c @ [r], c_next_raw := c_next_raw c + 1\<rparr>))"

subsection \<open>import\_user\_map\<close>

text \<open>\<open>_parse_export_id\<close>: channel or user, and the number.\<close>

definition parse_tail :: "pylib \<Rightarrow> ustr \<Rightarrow> import_error + int" where
  "parse_tail lib tail = (if is_prefix ''-'' tail then Inl (Value_error ''negative export ids not allowed'')
     else case py_digits lib tail of None \<Rightarrow> Inl (Value_error ''non-numeric tail in export_id'') | Some n \<Rightarrow> Inr n)"

definition parse_export_id :: "pylib \<Rightarrow> ustr \<Rightarrow> import_error + bool \<times> int" where
  "parse_export_id lib t =
     (if is_prefix ''user'' t then bindE (parse_tail lib (drop 4 t)) (\<lambda>n. Inr (True, n))
      else if is_prefix ''channel'' t then bindE (parse_tail lib (drop 7 t)) (\<lambda>n. Inr (False, n))
      else Inl (Value_error ''unrecognised export_id shape''))"

definition ghost_user :: "int \<Rightarrow> ustr \<Rightarrow> user" where
  "ghost_user uid name = \<lparr>u_id = uid, username = None, first_name = name, last_name = None, is_member = False,
     is_admin = False, joined_at = None, left_at = None, is_imported_only = True, is_bot = None\<rparr>"

text \<open>The columns are a \<open>BIGINT\<close> and a \<open>VARCHAR(255)\<close>; the insert is tried with both before any conflict.\<close>

definition in_bigint :: "int \<Rightarrow> bool" where
  "in_bigint n \<longleftrightarrow> - (2 ^ 63) \<le> n \<and> n < 2 ^ 63"

definition create_ghost_user :: "int \<Rightarrow> ustr \<Rightarrow> content \<Rightarrow> import_error + content" where
  "create_ghost_user uid name c =
     (if \<not> in_bigint uid then Inl (Data_error ''users.id'')
      else if 255 < length name then Inl (Data_error ''users.first_name'')
      else Inr (if fetch u_id uid (c_users c) = None then c\<lparr>c_users := c_users c @ [ghost_user uid name]\<rparr> else c))"

definition anonymous_channel_user :: int where "anonymous_channel_user = - 1"

text \<open>With \<open>create_ghost_if_missing\<close>, as the import calls it.\<close>

definition resolve_export_user ::
  "pylib \<Rightarrow> ustr option \<Rightarrow> ustr option \<Rightarrow> content \<Rightarrow> import_error + int option \<times> content" where
  "resolve_export_user lib export_id display_name c =
     (case export_id of None \<Rightarrow> Inr (None, c)
      | Some t \<Rightarrow> bindE (parse_export_id lib t) (\<lambda>(is_user, n).
          if \<not> is_user
          then bindE (create_ghost_user anonymous_channel_user (cp ''[anonymous channel]'') c) (\<lambda>c1.
               Inr (Some anonymous_channel_user, c1))
          else if fetch u_id n (c_users c) \<noteq> None then Inr (Some n, c)
          else bindE (create_ghost_user n (case display_name of
              Some name \<Rightarrow> if name = [] then cp ''imported user '' @ cp (show_int n) else name
            | None \<Rightarrow> cp ''imported user '' @ cp (show_int n)) c) (\<lambda>c1. Inr (Some n, c1))))"

end
