(* ===== verification/ImportApply.thy ===== *)
theory ImportApply
  imports ImportModel
begin

section \<open>Applying an export: one message, chunks, checkpoints, the command and its rollback\<close>

text \<open>
  services/import\_reply\_resolver.py, import\_apply.py, import\_checkpoint.py, import\_rollback.py and the
  command \<open>import_apply\<close> of cli.py.  A chunk is one transaction; a run holds its advisory lock, and no live
  handler writes the same messages meanwhile.
\<close>

subsection \<open>import\_reply\_resolver\<close>

text \<open>The columns of \<open>ingestion_runs\<close> the resolver reads: id, type and start.\<close>

type_synonym run_view = "(int \<times> run_type \<times> int) list"

definition run_view :: "ingestion_run list \<Rightarrow> run_view" where
  "run_view rs = map (\<lambda>r. (ir_id r, ir_type r, ir_started r)) rs"

definition linked :: "content \<Rightarrow> int \<Rightarrow> raw_row \<Rightarrow> chat_message list" where
  "linked c chat w = filter (\<lambda>m. cm_chat m = chat \<and> cm_raw_update m = Some (rw_id w)) (m_messages (c_archive c))"

definition import_raws :: "content \<Rightarrow> int \<Rightarrow> int \<Rightarrow> raw_row list" where
  "import_raws c chat eid = filter (\<lambda>w. rw_chat w = Some chat \<and> rw_message w = Some eid \<and> rw_type w = ''import_message'') (c_raws c)"

definition last_opt :: "'a list \<Rightarrow> 'a option" where
  "last_opt xs = (if xs = [] then None else Some (last xs))"

definition first_opt :: "'a list \<Rightarrow> 'a option" where
  "first_opt xs = (case xs of [] \<Rightarrow> None | x # _ \<Rightarrow> Some x)"

definition bulk_lookup_import :: "content \<Rightarrow> int \<Rightarrow> int \<Rightarrow> int \<Rightarrow> int option" where
  "bulk_lookup_import c eid chat run =
     last_opt (map cm_id (concat (map (linked c chat) (filter (\<lambda>w. rw_run w = Some run) (import_raws c chat eid)))))"

text \<open>Runs strictly older than the current one, the latest first.\<close>

definition prior_runs :: "run_view \<Rightarrow> int \<Rightarrow> (int \<times> run_type \<times> int) list" where
  "prior_runs view run = (case fetch fst run view of None \<Rightarrow> []
     | Some (_, _, started) \<Rightarrow> sort_key (\<lambda>(i, _, t). (- t, - i)) (filter (\<lambda>(_, k, t). k = R_import \<and> t < started) view))"

definition bulk_lookup_prior_import :: "content \<Rightarrow> run_view \<Rightarrow> int \<Rightarrow> int \<Rightarrow> int \<Rightarrow> int option" where
  "bulk_lookup_prior_import c view eid chat run =
     first_opt (map cm_id (concat (map (\<lambda>(i, _, _). concat (map (linked c chat)
       (filter (\<lambda>w. rw_run w = Some i) (import_raws c chat eid)))) (prior_runs view run))))"

definition bulk_lookup_live :: "content \<Rightarrow> run_view \<Rightarrow> int \<Rightarrow> int \<Rightarrow> int option" where
  "bulk_lookup_live c view eid chat =
     (case find_chat_message (c_archive c) chat eid of None \<Rightarrow> None
      | Some m \<Rightarrow> (case cm_raw_update m of
          None \<Rightarrow> Some (cm_id m)
        | Some u \<Rightarrow> (case fetch rw_id u (c_raws c) of None \<Rightarrow> None
            | Some w \<Rightarrow> (case rw_run w of None \<Rightarrow> None
                | Some i \<Rightarrow> (case fetch fst i view of
                    Some (_, k, _) \<Rightarrow> if k = R_live then Some (cm_id m) else None | None \<Rightarrow> None)))))"

text \<open>\<open>resolve_reply_batch\<close> of one id: this run, an older run, live, unresolved.\<close>

definition resolve_reply_batch :: "content \<Rightarrow> run_view \<Rightarrow> int \<Rightarrow> int \<Rightarrow> int \<Rightarrow> int option" where
  "resolve_reply_batch c view eid run chat =
     (case bulk_lookup_import c eid chat run of Some i \<Rightarrow> Some i
      | None \<Rightarrow> (case bulk_lookup_prior_import c view eid chat run of Some i \<Rightarrow> Some i
          | None \<Rightarrow> bulk_lookup_live c view eid chat))"

definition message_id_by_id :: "content \<Rightarrow> int \<Rightarrow> int option" where
  "message_id_by_id c i = map_option cm_message (fetch cm_id i (m_messages (c_archive c)))"

definition message_id_by_raw_update :: "content \<Rightarrow> int \<Rightarrow> int \<Rightarrow> int option" where
  "message_id_by_raw_update c chat eid =
     first_opt (map cm_message (concat (map (linked c chat) (filter (\<lambda>w. rw_message w = Some eid) (c_raws c)))))"

text \<open>The message id a reply is stored with.\<close>

definition resolve_reply_target :: "content \<Rightarrow> run_view \<Rightarrow> jobject \<Rightarrow> int \<Rightarrow> int \<Rightarrow> int option" where
  "resolve_reply_target c view msg run chat =
     (case as_int (dict_get msg ''reply_to_message_id'') of None \<Rightarrow> None
      | Some eid \<Rightarrow>
          (case (case resolve_reply_batch c view eid run chat of None \<Rightarrow> None | Some i \<Rightarrow> message_id_by_id c i) of
             Some mid \<Rightarrow> Some mid
           | None \<Rightarrow> message_id_by_raw_update c chat eid))"

subsection \<open>One message\<close>

record report =
  rp_applied :: nat
  rp_duplicate :: nat
  rp_rehydrated :: nat
  rp_excluded :: nat
  rp_excluded_by :: "(ustr \<times> nat) list"
  rp_resume :: nat
  rp_service :: nat
  rp_overlap :: nat
  rp_errors :: nat
  rp_error_ids :: "int list"
  rp_last :: "int option"
  rp_chunks :: nat

record existing_state =
  es_id :: int
  es_policy :: memory_policy
  es_redacted :: bool
  es_current :: "int option"
  es_current_redacted :: bool
  es_live :: bool

definition find_existing_chat_message_state :: "content \<Rightarrow> int \<Rightarrow> int \<Rightarrow> existing_state option" where
  "find_existing_chat_message_state c chat mid =
     map_option (\<lambda>m. \<lparr>es_id = cm_id m, es_policy = cm_policy m, es_redacted = cm_redacted m, es_current = cm_current m,
       es_current_redacted = (case cm_current m of None \<Rightarrow> False
         | Some i \<Rightarrow> (case fetch mv_id i (m_versions (c_archive c)) of None \<Rightarrow> False | Some v \<Rightarrow> mv_redacted v)),
       es_live = (case cm_raw_update m of None \<Rightarrow> False
         | Some u \<Rightarrow> (case fetch rw_id u (c_raws c) of None \<Rightarrow> False | Some w \<Rightarrow> rw_update w \<noteq> None))\<rparr>)
     (find_chat_message (c_archive c) chat mid)"

definition needs_rehydrate :: "existing_state \<Rightarrow> bool" where
  "needs_rehydrate e \<longleftrightarrow> es_policy e \<noteq> P_normal \<or> es_redacted e \<or> es_current e = None \<or> es_current_redacted e"

definition is_import_author_excluded :: "pylib \<Rightarrow> ustr option \<Rightarrow> ustr list \<Rightarrow> bool" where
  "is_import_author_excluded lib author names =
     (case author of None \<Rightarrow> False | Some a \<Rightarrow> py_author lib a \<in> set names)"

text \<open>\<open>_ensure_excluded_author_raw_only\<close>; an equal document is an equal term, keys in order.\<close>

definition row_hidden :: "chat_message \<Rightarrow> bool" where
  "row_hidden m \<longleftrightarrow> cm_policy m = P_forgotten \<and> cm_redacted m \<and> cm_text m = None \<and> cm_caption m = None \<and> cm_payload m = None"

definition version_hidden :: "message_version \<Rightarrow> bool" where
  "version_hidden v \<longleftrightarrow> mv_redacted v \<and> mv_text v = None \<and> mv_caption v = None \<and> mv_normalized v = None \<and> mv_entities v = None"

definition quarantine :: "chat_message \<Rightarrow> mdb \<Rightarrow> mdb" where
  "quarantine m s = (message_update (cm_id m) (\<lambda>r. r\<lparr>cm_policy := P_forgotten, cm_redacted := True, cm_text := None,
       cm_caption := None, cm_payload := None\<rparr>) s)
     \<lparr>m_versions := update_where (\<lambda>v. mv_message v = cm_id m) hide_version (m_versions s)\<rparr>"

definition ensure_excluded_author_raw_only ::
  "int \<Rightarrow> int \<Rightarrow> int \<Rightarrow> jobject \<Rightarrow> content \<Rightarrow> bool \<times> content" where
  "ensure_excluded_author_raw_only chat mid run payload c =
     (let changed = (case List.find (import_message_row chat mid) (c_raws c) of None \<Rightarrow> True
            | Some w \<Rightarrow> rw_payload w \<noteq> Some payload \<or> rw_hash w \<noteq> None \<or> rw_redacted w \<or> rw_reason w \<noteq> None);
          c1 = snd (upsert_import_message payload chat mid run c)
      in case find_chat_message (c_archive c1) chat mid of None \<Rightarrow> (changed, c1)
         | Some m \<Rightarrow>
             if row_hidden m \<and> list_all version_hidden (versions_of (c_archive c1) (cm_id m)) then (changed, c1)
             else (True, c1\<lparr>c_archive := quarantine m (c_archive c1)\<rparr>))"

text \<open>
  \<open>telegram_source_message_url\<close> of image\_memory.py as the import calls it, without a user name: only a
  message with a positive id in a supergroup has a link.
\<close>

definition telegram_source_message_url :: "int \<Rightarrow> int \<Rightarrow> import_error + string" where
  "telegram_source_message_url chat mid =
     (let chat_text = show_int chat in
      if mid \<le> 0 then Inl (Value_error ''message_id must be positive'')
      else if take 4 chat_text \<noteq> ''-100'' \<or> length chat_text \<le> 4
      then Inl (Value_error ''private Telegram source links require a supergroup chat id'')
      else Inr (''https://t.me/c/'' @ drop 4 chat_text @ ''/'' @ show_int mid))"

definition record_missing_import_photo :: "int \<Rightarrow> int \<Rightarrow> int \<Rightarrow> content \<Rightarrow> import_error + content" where
  "record_missing_import_photo row chat mid c =
     bindE (telegram_source_message_url chat mid) (\<lambda>_.
     Inr (if row \<in> set (c_media c) then c else c\<lparr>c_media := c_media c @ [row]\<rparr>))"

definition record_import_photo_if_needed :: "string \<Rightarrow> int \<Rightarrow> int \<Rightarrow> int \<Rightarrow> content \<Rightarrow> import_error + content" where
  "record_import_photo_if_needed kind row chat mid c =
     (if kind \<noteq> ''photo'' then Inr c else record_missing_import_photo row chat mid c)"

text \<open>A live row that appeared since the lookup.\<close>

definition check_live_overlap_pre_persist :: "content \<Rightarrow> int \<Rightarrow> int \<Rightarrow> int \<Rightarrow> int option" where
  "check_live_overlap_pre_persist c chat mid raw =
     (case find_chat_message (c_archive c) chat mid of None \<Rightarrow> None
      | Some m \<Rightarrow> (case cm_raw_update m of None \<Rightarrow> None
          | Some u \<Rightarrow> (case fetch rw_id u (c_raws c) of None \<Rightarrow> None
              | Some w \<Rightarrow> if rw_update w \<noteq> None \<and> u \<noteq> raw then Some (cm_id m) else None)))"

definition mem_to_import :: "mem_error \<Rightarrow> import_error" where
  "mem_to_import e = (case e of Bad_value t \<Rightarrow> Value_error t | _ \<Rightarrow> Database_error e)"

text \<open>
  The end of \<open>_apply_one_message\<close>: a live row that has appeared keeps its versions, a hidden row is restored,
  a new one persisted.
\<close>

definition store_row ::
  "pylib \<Rightarrow> digest \<Rightarrow> int \<Rightarrow> int \<Rightarrow> existing_state option \<Rightarrow> string \<Rightarrow> jobject \<Rightarrow> tg_message \<Rightarrow> raw_row \<Rightarrow>
   content \<Rightarrow> report \<Rightarrow> import_error + content \<times> report" where
  "store_row lib digest chat mid existing kind payload duck raw c rep =
     (case (if existing = None then check_live_overlap_pre_persist c chat mid (rw_id raw) else None) of
        Some row \<Rightarrow> bindE (record_import_photo_if_needed kind row chat mid c) (\<lambda>c1.
          Inr (c1, rep\<lparr>rp_overlap := rp_overlap rep + 1\<rparr>))
      | None \<Rightarrow>
          (case existing of
             Some e \<Rightarrow>
               bindE (mapE mem_to_import (rehydrate_message_from_import digest duck (es_id e) (rw_id raw)
                   (py_dumps lib (J_obj payload)) (tm_date duck) (c_archive c))) (\<lambda>(row, a).
               bindE (record_import_photo_if_needed kind (cm_id row) chat mid (c\<lparr>c_archive := a\<rparr>)) (\<lambda>c1.
               Inr (c1, rep\<lparr>rp_rehydrated := rp_rehydrated rep + 1\<rparr>)))
           | None \<Rightarrow>
               bindE (mapE mem_to_import (persist_message_with_policy digest True (Some (rw_id raw)) (Some (tm_date duck))
                   (tm_date duck) duck (c_archive c))) (\<lambda>((row, _), a).
               bindE (record_import_photo_if_needed kind (cm_id row) chat mid (c\<lparr>c_archive := a\<rparr>)) (\<lambda>c1.
               Inr (c1, rep\<lparr>rp_applied := rp_applied rep + 1\<rparr>)))))"

text \<open>The part of \<open>_apply_one_message\<close> that stores a human message, from the user resolution on.\<close>

definition store_message ::
  "pylib \<Rightarrow> digest \<Rightarrow> int \<Rightarrow> int \<Rightarrow> run_view \<Rightarrow> jobject \<Rightarrow> int \<Rightarrow> existing_state option \<Rightarrow> content \<Rightarrow> report \<Rightarrow>
   import_error + content \<times> report" where
  "store_message lib digest chat run view msg mid existing c rep =
     bindE (resolve_export_user lib (as_str (dict_get msg ''from_id'')) (as_str (dict_get msg ''from'')) c) (\<lambda>(user, c1).
     case user of None \<Rightarrow> Inl (Value_error ''cannot resolve user'') | Some uid \<Rightarrow>
     bindE (classify_td_kind msg) (\<lambda>kind.
     let (text, caption) = extract_text_caption_for_kind msg kind;
         reply = resolve_reply_target c1 view msg run chat;
         payload = build_raw_payload msg chat mid;
         (raw, c2) = upsert_import_message payload chat mid run c1;
         duck = build_message_duck lib msg chat mid uid text caption reply kind
     in store_row lib digest chat mid existing kind payload duck raw c2 rep))"

definition bump :: "ustr \<Rightarrow> (ustr \<times> nat) list \<Rightarrow> (ustr \<times> nat) list" where
  "bump name = map (\<lambda>(k, n). (k, if k = name then n + 1 else n))"

definition apply_one_message ::
  "pylib \<Rightarrow> digest \<Rightarrow> ustr list \<Rightarrow> int \<Rightarrow> int \<Rightarrow> run_view \<Rightarrow> jobject \<Rightarrow> content \<Rightarrow> report \<Rightarrow>
   import_error + int option \<times> content \<times> report" where
  "apply_one_message lib digest names chat run view msg c rep =
     (case as_int (dict_get msg ''id'') of None \<Rightarrow> Inr (None, c, rep) | Some mid \<Rightarrow>
     if dict_get msg ''type'' = J_str (cp ''service'') then Inr (Some mid, c, rep\<lparr>rp_service := rp_service rep + 1\<rparr>)
     else let name = as_str (dict_get msg ''from'') in
     if is_import_author_excluded lib name names then
       (let (changed, c1) = ensure_excluded_author_raw_only chat mid run (build_excluded_author_raw_payload msg chat mid) c
        in Inr (Some mid, c1, if changed
             then rep\<lparr>rp_excluded := rp_excluded rep + 1, rp_excluded_by := bump (py_author lib (the name)) (rp_excluded_by rep)\<rparr>
             else rep\<lparr>rp_duplicate := rp_duplicate rep + 1\<rparr>))
     else let existing = find_existing_chat_message_state c chat mid in
     case existing of
       Some e \<Rightarrow>
         if \<not> needs_rehydrate e then
           bindE (classify_td_kind msg) (\<lambda>kind.
           bindE (record_import_photo_if_needed kind (es_id e) chat mid
                  (snd (upsert_import_message (build_raw_payload msg chat mid) chat mid run c))) (\<lambda>c1.
           Inr (Some mid, c1,
                if es_live e then rep\<lparr>rp_overlap := rp_overlap rep + 1\<rparr> else rep\<lparr>rp_duplicate := rp_duplicate rep + 1\<rparr>)))
         else bindE (store_message lib digest chat run view msg mid existing c rep) (\<lambda>(c1, rep1). Inr (Some mid, c1, rep1))
     | None \<Rightarrow> bindE (store_message lib digest chat run view msg mid existing c rep) (\<lambda>(c1, rep1). Inr (Some mid, c1, rep1)))"

subsection \<open>Chunks\<close>

definition error_id_cap :: nat where "error_id_cap = 1000"

definition record_message_error :: "jobject \<Rightarrow> report \<Rightarrow> report" where
  "record_message_error msg rep =
     (let rep1 = rep\<lparr>rp_errors := rp_errors rep + 1\<rparr>
      in case as_int (dict_get msg ''id'') of None \<Rightarrow> rep1
         | Some i \<Rightarrow> if length (rp_error_ids rep) < error_id_cap then rep1\<lparr>rp_error_ids := rp_error_ids rep @ [i]\<rparr> else rep1)"

text \<open>Every counter of the report is in the snapshot.\<close>

definition restore_report :: "report \<Rightarrow> report \<Rightarrow> report" where
  "restore_report snapshot rep = rep\<lparr>rp_applied := rp_applied snapshot, rp_duplicate := rp_duplicate snapshot,
     rp_rehydrated := rp_rehydrated snapshot, rp_excluded := rp_excluded snapshot, rp_excluded_by := rp_excluded_by snapshot,
     rp_resume := rp_resume snapshot, rp_service := rp_service snapshot, rp_overlap := rp_overlap snapshot,
     rp_errors := rp_errors snapshot, rp_error_ids := rp_error_ids snapshot, rp_last := rp_last snapshot,
     rp_chunks := rp_chunks snapshot\<rparr>"

text \<open>
  The messages of one chunk: the last id acknowledged, or the error and the report at that point.  \<open>fault\<close>
  tells the messages at which the database fails or the process dies.
\<close>

fun apply_chunk ::
  "pylib \<Rightarrow> digest \<Rightarrow> ustr list \<Rightarrow> int \<Rightarrow> int \<Rightarrow> run_view \<Rightarrow> (jobject \<Rightarrow> bool) \<Rightarrow> jobject list \<Rightarrow>
   int option \<times> content \<times> report \<Rightarrow> import_error \<times> report + int option \<times> content \<times> report" where
  "apply_chunk lib digest names chat run view fault [] st = Inr st"
| "apply_chunk lib digest names chat run view fault (msg # rest) (last_id, c, rep) =
     (if fault msg then Inl (Database_error No_result, rep)
      else case apply_one_message lib digest names chat run view msg c rep of
          Inl e \<Rightarrow> Inl (e, case e of Value_error _ \<Rightarrow> record_message_error msg rep | _ \<Rightarrow> rep)
        | Inr (advance, c1, rep1) \<Rightarrow>
            apply_chunk lib digest names chat run view fault rest
              (if advance = None then last_id else advance, c1, rep1))"

definition save_checkpoint :: "pylib \<Rightarrow> int \<Rightarrow> int \<Rightarrow> int \<Rightarrow> int \<Rightarrow> ingestion_run list \<Rightarrow> ingestion_run list" where
  "save_checkpoint lib now run last_id chunk_index = update_where (\<lambda>r. ir_id r = run)
     (\<lambda>r. r\<lparr>ir_stats := merge_json (ir_stats r) [(cp ''last_processed_export_msg_id'', J_int last_id),
        (cp ''chunk_index'', J_int chunk_index), (cp ''last_checkpoint_at'', J_str (py_isoformat lib now))]\<rparr>)"

function chunks_of :: "nat \<Rightarrow> 'a list \<Rightarrow> 'a list list" where
  "chunks_of n xs = (if xs = [] \<or> n = 0 then [] else take n xs # chunks_of n (drop n xs))"
  by pat_completeness auto
termination by (relation "measure (\<lambda>(n, xs). length xs)") auto

declare chunks_of.simps [simp del]

text \<open>A chunk that fails is rolled back with its counters; the chunks before it are committed.\<close>

fun run_apply_loop ::
  "pylib \<Rightarrow> digest \<Rightarrow> ustr list \<Rightarrow> int \<Rightarrow> int \<Rightarrow> int \<Rightarrow> (jobject \<Rightarrow> bool) \<Rightarrow> int \<Rightarrow> jobject list list \<Rightarrow>
   import_db \<times> report \<Rightarrow> import_error option \<times> import_db \<times> report" where
  "run_apply_loop lib digest names now chat run fault k [] (d, rep) = (None, d, rep)"
| "run_apply_loop lib digest names now chat run fault k (chunk # rest) (d, rep) =
     (case apply_chunk lib digest names chat run (run_view (d_runs d)) fault chunk (None, d_content d, rep) of
        Inl (e, rep1) \<Rightarrow> (Some e, d, restore_report rep rep1)
      | Inr (last_id, c, rep1) \<Rightarrow>
          run_apply_loop lib digest names now chat run fault (k + 1) rest
            (case last_id of
               None \<Rightarrow> (d\<lparr>d_content := c\<rparr>, rep1\<lparr>rp_chunks := rp_chunks rep1 + 1\<rparr>)
             | Some i \<Rightarrow> (d\<lparr>d_content := c, d_runs := save_checkpoint lib now run i k (d_runs d)\<rparr>,
                 rep1\<lparr>rp_last := Some i, rp_chunks := rp_chunks rep1 + 1\<rparr>)))"

subsection \<open>run\_apply\<close>

text \<open>A file: a JSON document, an HTML export with the messages its parser yields, or neither.\<close>

datatype export_file = Json_export json | Html_export "jobject list" | Broken_export

definition json_messages :: "json list \<Rightarrow> jobject list" where
  "json_messages js = concat (map (\<lambda>j. case j of
     J_obj m \<Rightarrow> (if as_int (dict_get m ''id'') \<noteq> None then [m] else []) | _ \<Rightarrow> []) js)"

definition iter_export_messages :: "export_file \<Rightarrow> import_error + jobject list" where
  "iter_export_messages f = (case f of
       Html_export ms \<Rightarrow> Inr ms
     | Broken_export \<Rightarrow> Inl (Value_error ''JSONDecodeError'')
     | Json_export (J_obj d) \<Rightarrow>
         (case dict_get d ''chats'' of
            J_list _ \<Rightarrow> Inl (Value_error ''Unsupported export type'')
          | _ \<Rightarrow> (case map_of d (cp ''messages'') of
              None \<Rightarrow> Inr []
            | Some (J_list js) \<Rightarrow> Inr (json_messages js)
            | Some _ \<Rightarrow> Inl (Value_error ''messages is not a list'')))
     | Json_export _ \<Rightarrow> Inl (Value_error ''Export envelope is not a JSON object''))"

definition export_id :: "jobject \<Rightarrow> int" where
  "export_id msg = (case as_int (dict_get msg ''id'') of None \<Rightarrow> 0 | Some i \<Rightarrow> i)"

definition empty_report :: "ustr list \<Rightarrow> report" where
  "empty_report names = \<lparr>rp_applied = 0, rp_duplicate = 0, rp_rehydrated = 0, rp_excluded = 0,
     rp_excluded_by = map (\<lambda>n. (n, 0)) names, rp_resume = 0, rp_service = 0, rp_overlap = 0, rp_errors = 0,
     rp_error_ids = [], rp_last = None, rp_chunks = 0\<rparr>"

definition pending_messages :: "int option \<Rightarrow> jobject list \<Rightarrow> jobject list" where
  "pending_messages resume_point msgs =
     (let sorted_msgs = sort_key export_id msgs
      in case resume_point of None \<Rightarrow> sorted_msgs | Some p \<Rightarrow> filter (\<lambda>m. export_id m > p) sorted_msgs)"

text \<open>The checks before the loop: the run, its chat and the file.\<close>

definition prepare_apply ::
  "(ustr \<Rightarrow> export_file option) \<Rightarrow> ustr list \<Rightarrow> int \<Rightarrow> import_db \<Rightarrow> import_error + int \<times> jobject list" where
  "prepare_apply files names run d =
     (case fetch ir_id run (d_runs d) of None \<Rightarrow> Inl (Value_error ''ingestion_run not found'') | Some r \<Rightarrow>
     (case as_int (dict_get (case ir_config r of None \<Rightarrow> [] | Some cfg \<Rightarrow> cfg) ''chat_id'') of
        None \<Rightarrow> Inl (Value_error ''config_json.chat_id missing or non-int'')
      | Some chat \<Rightarrow>
          (case or_empty (ir_source r) of [] \<Rightarrow> Inl (Value_error ''source_name is empty'')
           | path \<Rightarrow> (case files path of None \<Rightarrow> Inl File_error
               | Some f \<Rightarrow>
                   if (case f of Html_export _ \<Rightarrow> True | _ \<Rightarrow> False) \<and> names = []
                   then Inl (Value_error ''HTML import requires at least one exact excluded author name'')
                   else bindE (iter_export_messages f) (\<lambda>msgs. Inr (chat, msgs))))))"

definition run_apply ::
  "pylib \<Rightarrow> digest \<Rightarrow> (ustr \<Rightarrow> export_file option) \<Rightarrow> ustr list \<Rightarrow> int \<Rightarrow> (jobject \<Rightarrow> bool) \<Rightarrow> int \<Rightarrow> int option \<Rightarrow> nat \<Rightarrow>
   import_db \<Rightarrow> import_error option \<times> import_db \<times> report" where
  "run_apply lib digest files names now fault run resume_point chunk_size d =
     (case prepare_apply files names run d of
        Inl e \<Rightarrow> (Some e, d, empty_report names)
      | Inr (chat, msgs) \<Rightarrow>
          let todo = pending_messages resume_point msgs
          in run_apply_loop lib digest names now chat run fault 0 (chunks_of chunk_size todo)
               (d, (empty_report names)\<lparr>rp_resume := length msgs - length todo\<rparr>))"

subsection \<open>import\_checkpoint\<close>

definition partial :: "run_status \<Rightarrow> bool" where
  "partial st \<longleftrightarrow> st = S_running \<or> st = S_failed"

datatype decision = Start_fresh int | Resume_existing int "int option" | Block_partial_present

definition find_partial_run_by_hash :: "import_db \<Rightarrow> string \<Rightarrow> ingestion_run option" where
  "find_partial_run_by_hash d h = latest_by ir_started (filter (\<lambda>r. ir_hash r = Some h \<and> ir_type r = R_import) (d_runs d))"

definition find_partial_run_by_path :: "import_db \<Rightarrow> ustr \<Rightarrow> ingestion_run option" where
  "find_partial_run_by_path d path = latest_by ir_started (filter (\<lambda>r. ir_source r = Some path \<and> ir_type r = R_import) (d_runs d))"

text \<open>The unique index on the hash of running runs turns a second insert into a block.\<close>

definition create_fresh_run :: "int \<Rightarrow> ustr \<Rightarrow> string \<Rightarrow> int \<Rightarrow> import_db \<Rightarrow> decision \<times> import_db" where
  "create_fresh_run now path h chat d =
     (if list_ex (\<lambda>r. ir_hash r = Some h \<and> ir_status r = S_running) (d_runs d) then (Block_partial_present, d)
      else (Start_fresh (d_next_run d),
        d\<lparr>d_runs := d_runs d @ [\<lparr>ir_id = d_next_run d, ir_type = R_import, ir_source = Some path, ir_hash = Some h,
             ir_started = now, ir_finished = None, ir_status = S_running, ir_stats = None,
             ir_config = Some [(cp ''chat_id'', J_int chat)]\<rparr>], d_next_run := d_next_run d + 1\<rparr>))"

text \<open>\<open>load_checkpoint\<close>: the resume point and the chunk index; fields of another type raise.\<close>

definition load_checkpoint :: "pylib \<Rightarrow> import_db \<Rightarrow> int \<Rightarrow> import_error + (int option \<times> int) option" where
  "load_checkpoint lib d run =
     (case fetch ir_id run (d_runs d) of None \<Rightarrow> Inr None | Some r \<Rightarrow>
      let stats = (case ir_stats r of None \<Rightarrow> [] | Some st \<Rightarrow> st)
      in bindE (case dict_get stats ''last_processed_export_msg_id'' of J_null \<Rightarrow> Inr None | J_int n \<Rightarrow> Inr (Some n)
             | _ \<Rightarrow> Inl (Value_error ''last_processed_export_msg_id must be int'')) (\<lambda>msg_id.
         bindE (case map_of stats (cp ''chunk_index'') of None \<Rightarrow> Inr 0 | Some (J_int n) \<Rightarrow> Inr n
             | Some _ \<Rightarrow> Inl (Value_error ''chunk_index must be int'')) (\<lambda>chunk.
         bindE (case dict_get stats ''last_checkpoint_at'' of J_null \<Rightarrow> Inr ()
             | J_str t \<Rightarrow> if py_fromisoformat lib t = None then Inl (Value_error ''last_checkpoint_at'') else Inr ()
             | _ \<Rightarrow> Inl (Value_error ''last_checkpoint_at'')) (\<lambda>_.
         Inr (Some (msg_id, chunk))))))"

definition init_or_resume_run ::
  "pylib \<Rightarrow> int \<Rightarrow> ustr \<Rightarrow> string \<Rightarrow> int \<Rightarrow> bool \<Rightarrow> import_db \<Rightarrow> import_error + decision \<times> import_db" where
  "init_or_resume_run lib now path h chat resume d =
     (case find_partial_run_by_hash d h of
        None \<Rightarrow>
          if resume \<and> (case find_partial_run_by_path d path of None \<Rightarrow> False | Some r \<Rightarrow> partial (ir_status r))
          then Inr (Block_partial_present, d)
          else Inr (create_fresh_run now path h chat d)
      | Some r \<Rightarrow>
          if \<not> partial (ir_status r) then Inr (create_fresh_run now path h chat d)
          else if \<not> resume then Inr (Block_partial_present, d)
          else bindE (load_checkpoint lib d (ir_id r)) (\<lambda>chk.
            Inr (Resume_existing (ir_id r) (case chk of None \<Rightarrow> None | Some (p, _) \<Rightarrow> p), d)))"

definition finalize_run :: "int \<Rightarrow> run_status \<Rightarrow> int \<Rightarrow> import_db \<Rightarrow> import_error + import_db" where
  "finalize_run run final now d =
     (case fetch ir_id run (d_runs d) of None \<Rightarrow> Inl (Value_error ''not found in finalize_run'')
      | Some r \<Rightarrow>
          if ir_status r \<in> {S_completed, S_cancelled, S_dry_run} then Inr d
          else Inr (d\<lparr>d_runs := update_where (\<lambda>q. ir_id q = run) (\<lambda>q. q\<lparr>ir_status := final,
            ir_finished := (case ir_finished q of None \<Rightarrow> Some now | Some t \<Rightarrow> Some t)\<rparr>) (d_runs d)\<rparr>))"

subsection \<open>The command\<close>

definition final_stats :: "report \<Rightarrow> jobject" where
  "final_stats rep = [(cp ''applied_count'', J_int (int (rp_applied rep))), (cp ''rehydrated_count'', J_int (int (rp_rehydrated rep))),
     (cp ''skipped_duplicate_count'', J_int (int (rp_duplicate rep))), (cp ''skipped_tombstone_count'', J_int 0),
     (cp ''tombstone_skip_export_msg_ids'', J_list []), (cp ''skipped_governance_count'', J_int 0),
     (cp ''skipped_excluded_author_count'', J_int (int (rp_excluded rep))),
     (cp ''excluded_author_names'', J_list (map (J_str \<circ> fst) (rp_excluded_by rep))),
     (cp ''excluded_author_message_counts'', J_obj (map (\<lambda>(k, n). (k, J_int (int n))) (rp_excluded_by rep))),
     (cp ''skipped_resume_count'', J_int (int (rp_resume rep))), (cp ''skipped_service_count'', J_int (int (rp_service rep))),
     (cp ''skipped_overlap_count'', J_int (int (rp_overlap rep))), (cp ''error_count'', J_int (int (rp_errors rep))),
     (cp ''error_export_msg_ids'', J_list (map J_int (rp_error_ids rep))), (cp ''chunks_processed'', J_int (int (rp_chunks rep))),
     (cp ''last_processed_export_msg_id'', case rp_last rep of None \<Rightarrow> J_null | Some i \<Rightarrow> J_int i)]"

definition save_apply_final_stats :: "int \<Rightarrow> report \<Rightarrow> import_db \<Rightarrow> import_db" where
  "save_apply_final_stats run rep d = d\<lparr>d_runs := update_where (\<lambda>r. ir_id r = run)
     (\<lambda>r. r\<lparr>ir_stats := merge_json (ir_stats r) (final_stats rep)\<rparr>) (d_runs d)\<rparr>"

definition save_import_run_config :: "int \<Rightarrow> jobject \<Rightarrow> import_db \<Rightarrow> import_db" where
  "save_import_run_config run config d = d\<lparr>d_runs := update_where (\<lambda>r. ir_id r = run)
     (\<lambda>r. r\<lparr>ir_config := merge_json (ir_config r) config\<rparr>) (d_runs d)\<rparr>"

definition finalize_failed_apply :: "int \<Rightarrow> report \<Rightarrow> int \<Rightarrow> import_db \<Rightarrow> import_db" where
  "finalize_failed_apply run rep now d =
     (let d1 = save_apply_final_stats run rep d
      in case finalize_run run S_failed now d1 of Inl _ \<Rightarrow> d | Inr d2 \<Rightarrow> d2)"

text \<open>
  \<open>import_apply\<close> after its arguments are read and the feature flag is on: the exit code and the database.
  \<open>killed\<close>: the process dies with the error, and its failure handling does not run.
\<close>

record invocation =
  iv_now :: int
  iv_resume :: bool
  iv_chunk :: nat
  iv_fault :: "jobject \<Rightarrow> bool"
  iv_killed :: bool

definition cmd_import_apply ::
  "pylib \<Rightarrow> digest \<Rightarrow> (ustr \<Rightarrow> export_file option) \<Rightarrow> ustr list \<Rightarrow> ustr \<Rightarrow> string \<Rightarrow> int \<Rightarrow> jobject \<Rightarrow> invocation \<Rightarrow>
   import_db \<Rightarrow> nat \<times> import_db" where
  "cmd_import_apply lib digest files names path h chat config iv d =
     (case init_or_resume_run lib (iv_now iv) path h chat (iv_resume iv) d of
        Inl _ \<Rightarrow> (1, d)
      | Inr (Block_partial_present, d1) \<Rightarrow> (3, d)
      | Inr (dec, d1) \<Rightarrow>
          let (run, resume_point) = (case dec of Resume_existing i p \<Rightarrow> (i, p) | Start_fresh i \<Rightarrow> (i, None)
                | Block_partial_present \<Rightarrow> (0, None));
              d2 = save_import_run_config run config d1
          in case run_apply lib digest files names (iv_now iv) (iv_fault iv) run resume_point (iv_chunk iv) d2 of
               (None, d3, rep) \<Rightarrow>
                 (case finalize_run run S_completed (iv_now iv) d3 of
                    Inl _ \<Rightarrow> (1, d3) | Inr d4 \<Rightarrow> (0, save_apply_final_stats run rep d4))
             | (Some e, d3, rep) \<Rightarrow>
                 if iv_killed iv then (137, d3)
                 else (case e of Type_error _ \<Rightarrow> 1 | _ \<Rightarrow> 5, finalize_failed_apply run rep (iv_now iv) d3))"

subsection \<open>import\_rollback\<close>

record rollback_report =
  rr_messages :: int
  rr_updates :: int
  rr_versions :: int
  rr_audit :: int
  rr_skip :: bool

definition owned_raw :: "int \<Rightarrow> raw_row \<Rightarrow> bool" where
  "owned_raw run w \<longleftrightarrow> rw_run w = Some run \<and> rw_update w = None"

definition owned_ids :: "int \<Rightarrow> content \<Rightarrow> int list" where
  "owned_ids run c = map rw_id (filter (owned_raw run) (c_raws c))"

definition owned_message :: "int \<Rightarrow> content \<Rightarrow> chat_message \<Rightarrow> bool" where
  "owned_message run c m \<longleftrightarrow> (case cm_raw_update m of None \<Rightarrow> False | Some u \<Rightarrow> u \<in> set (owned_ids run c))"

text \<open>
  The deletion with its foreign keys: versions, marks and media of a deleted message go with it, a pointer
  to a deleted raw row becomes null, and a version a card cites cannot be deleted.
\<close>

definition unlink :: "int list \<Rightarrow> int option \<Rightarrow> int option" where
  "unlink gone u = (case u of None \<Rightarrow> None | Some i \<Rightarrow> if i \<in> set gone then None else Some i)"

definition deleted_messages :: "int \<Rightarrow> content \<Rightarrow> int list" where
  "deleted_messages run c = map cm_id (filter (owned_message run c) (m_messages (c_archive c)))"

definition deleted_versions :: "int \<Rightarrow> content \<Rightarrow> message_version list" where
  "deleted_versions run c = filter (\<lambda>v. mv_message v \<in> set (deleted_messages run c)) (m_versions (c_archive c))"

definition delete_owned :: "int \<Rightarrow> content \<Rightarrow> import_error + content" where
  "delete_owned run c =
     (let gone = owned_ids run c; dead = deleted_messages run c; a = c_archive c
      in if list_ex (\<lambda>v. mv_id v \<in> set (c_cards c)) (deleted_versions run c)
         then Inl (Database_error (Integrity_violation ''card_sources''))
         else Inr (c\<lparr>c_raws := delete_where (owned_raw run) (c_raws c),
                c_media := filter (\<lambda>i. i \<notin> set dead) (c_media c),
                c_archive := a\<lparr>
                  m_messages := map (\<lambda>m. m\<lparr>cm_raw_update := unlink gone (cm_raw_update m)\<rparr>)
                    (delete_where (owned_message run c) (m_messages a)),
                  m_versions := map (\<lambda>v. v\<lparr>mv_raw_update := unlink gone (mv_raw_update v)\<rparr>)
                    (delete_where (\<lambda>v. mv_message v \<in> set dead) (m_versions a)),
                  m_marks := filter (\<lambda>k. om_message k \<notin> set dead) (m_marks a)\<rparr>\<rparr>))"

definition find_existing_rollback_audit :: "import_db \<Rightarrow> int \<Rightarrow> ingestion_run option" where
  "find_existing_rollback_audit d run = List.find (\<lambda>r. ir_type r = R_rolled_back \<and>
     dict_get (case ir_stats r of None \<Rightarrow> [] | Some st \<Rightarrow> st) ''original_run_id'' = J_int run) (sort_key ir_id (d_runs d))"

definition rollback_stats :: "pylib \<Rightarrow> int \<Rightarrow> int \<Rightarrow> int \<Rightarrow> int \<Rightarrow> int \<Rightarrow> jobject" where
  "rollback_stats lib run messages updates versions now =
     [(cp ''original_run_id'', J_int run), (cp ''chat_messages_deleted'', J_int messages),
      (cp ''telegram_updates_deleted'', J_int updates), (cp ''message_versions_cascade_deleted'', J_int versions),
      (cp ''rolled_back_at'', J_str (py_isoformat lib now))]"

definition idempotent_report :: "ingestion_run \<Rightarrow> import_error + rollback_report" where
  "idempotent_report audit =
     (let st = (case ir_stats audit of None \<Rightarrow> [] | Some st \<Rightarrow> st)
      in case (as_int (dict_get st ''chat_messages_deleted''), as_int (dict_get st ''telegram_updates_deleted''),
            as_int (dict_get st ''message_versions_cascade_deleted'')) of
          (Some m, Some u, Some v) \<Rightarrow> Inr \<lparr>rr_messages = m, rr_updates = u, rr_versions = v, rr_audit = ir_id audit, rr_skip = True\<rparr>
        | _ \<Rightarrow> Inl (Value_error ''rollback audit row stats_json is missing rollback counts''))"

definition rollback_ingestion_run ::
  "pylib \<Rightarrow> int \<Rightarrow> int \<Rightarrow> import_db \<Rightarrow> import_error + rollback_report \<times> import_db" where
  "rollback_ingestion_run lib now run d =
     (case fetch ir_id run (d_runs d) of None \<Rightarrow> Inl Run_not_found
      | Some r \<Rightarrow> if ir_type r \<noteq> R_import then Inl Invalid_rollback_run else
      (case find_existing_rollback_audit d run of
         Some audit \<Rightarrow> bindE (idempotent_report audit) (\<lambda>rep. Inr (rep, d))
       | None \<Rightarrow>
           let c = d_content d;
               messages = int (length (filter (owned_message run c) (m_messages (c_archive c))));
               updates = int (length (filter (owned_raw run) (c_raws c)));
               versions = int (length (deleted_versions run c))
           in bindE (delete_owned run c) (\<lambda>c1.
              Inr (\<lparr>rr_messages = messages, rr_updates = updates, rr_versions = versions, rr_audit = d_next_run d, rr_skip = False\<rparr>,
                d\<lparr>d_content := c1, d_next_run := d_next_run d + 1, d_runs := d_runs d @ [\<lparr>ir_id = d_next_run d,
                  ir_type = R_rolled_back, ir_source = Some (cp ''rollback:'' @ cp (show_int run)), ir_hash = None,
                  ir_started = now, ir_finished = Some now, ir_status = S_completed,
                  ir_stats = Some (rollback_stats lib run messages updates versions now), ir_config = None\<rparr>]\<rparr>))))"

end
