(* ===== verification/ImportFacts.thy ===== *)
theory ImportFacts
  imports ImportApply MessageFacts
begin

section \<open>Replaying an export\<close>

text \<open>
  Applying a message settles it: the message, applied again, changes nothing, and other messages leave it
  settled.  From these three laws (the locale) follow idempotence of an import and the equivalence of an
  interrupted and resumed import with an uninterrupted one.
\<close>

subsection \<open>The contract of a replayable step\<close>

fun foldE :: "('m \<Rightarrow> 's \<Rightarrow> 'e + 's) \<Rightarrow> 'm list \<Rightarrow> 's \<Rightarrow> 'e + 's" where
  "foldE step [] s = Inr s"
| "foldE step (m # ms) s = bindE (step m s) (foldE step ms)"

lemma foldE_append: "foldE step (xs @ ys) s = bindE (foldE step xs s) (foldE step ys)"
proof (induction xs arbitrary: s)
  case (Cons x xs)
  then show ?case by (cases "step x s") simp_all
qed simp

lemma prefix_split:
  assumes "a @ x = u @ y" "length u \<le> length a" shows "\<exists>z. a = u @ z \<and> y = z @ x"
proof -
  have "take (length u) (a @ x) = take (length u) (u @ y)" "drop (length u) (a @ x) = drop (length u) (u @ y)" using assms(1) by simp_all
  then have "take (length u) a = u" "y = drop (length u) a @ x" using assms(2) by simp_all
  then show ?thesis by (metis append_take_drop_id)
qed

locale replayable =
  fixes step :: "'m \<Rightarrow> 's \<Rightarrow> 'e + 's"
    and settled :: "'m \<Rightarrow> 's \<Rightarrow> bool"
    and ok :: "'s \<Rightarrow> bool"
    and key :: "'m \<Rightarrow> 'k"
  assumes settle: "ok s \<Longrightarrow> step m s = Inr s' \<Longrightarrow> ok s' \<and> settled m s'"
    and noop: "ok s \<Longrightarrow> settled m s \<Longrightarrow> step m s = Inr s"
    and keep: "ok s \<Longrightarrow> step m s = Inr s' \<Longrightarrow> settled m' s \<Longrightarrow> key m' \<noteq> key m \<Longrightarrow> settled m' s'"
begin

lemma fold_ok: "ok s \<Longrightarrow> foldE step ms s = Inr s' \<Longrightarrow> ok s'"
  by (induction ms arbitrary: s) (auto simp: bindE_Inr_iff dest: settle)

lemma fold_keep:
  "ok s \<Longrightarrow> foldE step ms s = Inr s' \<Longrightarrow> settled m s \<Longrightarrow> key m \<notin> key ` set ms \<Longrightarrow> settled m s'"
proof (induction ms arbitrary: s)
  case (Cons x xs)
  then obtain s1 where s1: "step x s = Inr s1" "foldE step xs s1 = Inr s'" by (auto simp: bindE_Inr_iff)
  have "settled m s1" using keep [OF Cons.prems(1) s1(1) Cons.prems(3)] Cons.prems(4) by simp
  then show ?case using Cons.IH [OF _ s1(2)] settle [OF Cons.prems(1) s1(1)] Cons.prems(4) by simp
qed simp

lemma fold_settles:
  "ok s \<Longrightarrow> foldE step ms s = Inr s' \<Longrightarrow> distinct (map key ms) \<Longrightarrow> m \<in> set ms \<Longrightarrow> settled m s'"
proof (induction ms arbitrary: s)
  case (Cons x xs)
  then obtain s1 where s1: "step x s = Inr s1" "foldE step xs s1 = Inr s'" by (auto simp: bindE_Inr_iff)
  note x = settle [OF Cons.prems(1) s1(1)]
  show ?case
  proof (cases "m = x")
    case True
    then show ?thesis using fold_keep [OF _ s1(2)] x Cons.prems(3) by simp
  next
    case False
    then show ?thesis using Cons.IH [OF _ s1(2)] x Cons.prems by simp
  qed
qed simp

lemma fold_noop: "ok s \<Longrightarrow> (\<And>m. m \<in> set ms \<Longrightarrow> settled m s) \<Longrightarrow> foldE step ms s = Inr s"
  by (induction ms) (auto simp: noop)

text \<open>Starting over after a part is done ends where going on does.\<close>

lemma replay:
  assumes "ok s" "foldE step p s = Inr s1" "distinct (map key p)"
  shows "foldE step (p @ q) s1 = foldE step (p @ q) s"
  using fold_noop [of s1 p] fold_ok [OF assms(1,2)] fold_settles [OF assms] by (simp add: foldE_append assms(2))

text \<open>
  Going on from a point \<open>u\<close> at or before what is done, \<open>a\<close>: the part \<open>v\<close> applied from there leaves
  the longer of the two done.
\<close>

lemma resume:
  assumes ok: "ok s" and a: "foldE step a s = Inr s1" and d: "distinct (map key ms)"
    and ms: "ms = a @ rest" "ms = u @ v @ w" and le: "length u \<le> length a" and v: "foldE step v s1 = Inr s2"
  shows "\<exists>a' rest'. ms = a' @ rest' \<and> foldE step a' s = Inr s2 \<and> length (u @ v) \<le> length a' \<and> (w = [] \<longrightarrow> rest' = [])"
proof -
  have da: "distinct (map key a)" using d ms(1) by simp
  have noop: "foldE step x s1 = Inr s1" if "set x \<subseteq> set a" for x
    using fold_noop [of s1 x] fold_ok [OF ok a] fold_settles [OF ok a da] that by blast
  obtain a1 where a1: "a = u @ a1" "v @ w = a1 @ rest"
    using prefix_split [of a rest u "v @ w"] ms le by auto
  consider (short) x where "a1 = v @ x" "w = x @ rest" | (long) x where "v = a1 @ x" "rest = x @ w"
    using prefix_split [of a1 rest v w] prefix_split [of v w a1 rest] a1(2) by (metis nat_le_linear)
  then show ?thesis
  proof cases
    case short
    then have "s2 = s1" using v noop [of v] a1(1) by auto
    then show ?thesis using a ms(1) a1(1) short by (intro exI [of _ a] exI [of _ rest]) auto
  next
    case long
    then have "foldE step x s1 = Inr s2" using v noop [of a1] a1(1) by (simp add: foldE_append)
    then have "foldE step (a @ x) s = Inr s2" using a by (simp add: foldE_append)
    then show ?thesis using ms(1) a1(1) long by (intro exI [of _ "a @ x"] exI [of _ w]) auto
  qed
qed

lemma resume_total:
  assumes ok: "ok s" and a: "foldE step a s = Inr s1" and d: "distinct (map key ms)"
    and ms: "ms = a @ rest" "ms = u @ q" and le: "length u \<le> length a"
  shows "foldE step q s1 = foldE step ms s"
proof -
  have da: "distinct (map key a)" using d ms(1) by simp
  obtain a1 where a1: "a = u @ a1" "q = a1 @ rest" using prefix_split [of a rest u q] ms le by auto
  have "foldE step a1 s1 = Inr s1"
    using fold_noop [of s1 a1] fold_ok [OF ok a] fold_settles [OF ok a da] a1(1) by auto
  then show ?thesis by (simp add: a1(2) ms(1) foldE_append a)
qed

lemma idempotent:
  assumes "ok s" "foldE step ms s = Inr s1" "distinct (map key ms)"
  shows "foldE step ms s1 = Inr s1"
  using fold_noop [of s1 ms] fold_ok [OF assms(1,2)] fold_settles [OF assms] by simp

end

subsection \<open>What an operation on one message leaves alone\<close>

definition untouched :: "int \<Rightarrow> int \<Rightarrow> mdb \<Rightarrow> mdb \<Rightarrow> bool" where
  "untouched chat mid a a' \<longleftrightarrow> find_chat_message a' chat mid = find_chat_message a chat mid \<and>
     (\<forall>r. find_chat_message a chat mid = Some r \<longrightarrow> versions_of a' (cm_id r) = versions_of a (cm_id r))"

lemma untouched_refl: "untouched chat mid a a"
  by (simp add: untouched_def)

lemma untouched_trans: "untouched chat mid a b \<Longrightarrow> untouched chat mid b c \<Longrightarrow> untouched chat mid a c"
  by (auto simp: untouched_def)

lemma find_updated_row:
  assumes "\<And>r. r \<in> set t \<Longrightarrow> p r \<Longrightarrow> \<not> q r \<and> \<not> q (f r)"
  shows "List.find q (update_where p f t) = List.find q t"
  using assms by (induction t) auto

lemma other_id:
  assumes inv: "archive_inv a" and r: "r \<in> set (m_messages a)" "(cm_chat r, cm_message r) \<noteq> (chat, mid)"
    and q: "q \<in> set (m_messages a)" "cm_id q = cm_id r"
  shows "\<not> same_message chat mid q"
  using row_unique [OF inv q(1) r(1) q(2)] r(2) by (auto simp: same_message_def)

lemma update_untouched:
  assumes other: "\<And>q. q \<in> set (m_messages a) \<Longrightarrow> cm_id q = i \<Longrightarrow> \<not> same_message chat mid q"
    and f: "\<And>q. cm_chat (f q) = cm_chat q \<and> cm_message (f q) = cm_message q"
  shows "untouched chat mid a (message_update i f a)"
proof -
  have "\<not> same_message chat mid q \<and> \<not> same_message chat mid (f q)" if "q \<in> set (m_messages a)" "cm_id q = i" for q
    using other [OF that] f by (simp add: same_message_def)
  then have "find_chat_message (message_update i f a) chat mid = find_chat_message a chat mid"
    unfolding find_chat_message_def message_update_def by (simp add: find_updated_row)
  then show ?thesis by (simp add: untouched_def versions_of_def)
qed

lemma other_row:
  assumes "archive_inv a" "find_chat_message a chat mid = Some q" "r \<in> set (m_messages a)" "(cm_chat r, cm_message r) \<noteq> (chat, mid)"
  shows "cm_id q \<noteq> cm_id r"
  using assms row_unique [OF assms(1), of q r] by (auto simp: find_message_iff same_message_def)

lemma insert_untouched:
  assumes inv: "archive_inv a" and r: "r \<in> set (m_messages a)" "(cm_chat r, cm_message r) \<noteq> (chat, mid)"
    and run: "insert_version v a = Inr (w, a')" and v: "mv_message v = cm_id r"
  shows "untouched chat mid a a'"
proof -
  have m: "m_messages a' = m_messages a" using run by (auto simp: insert_version_result Let_def split: option.splits)
  have vs: "versions_of a' i = versions_of a i" if "i \<noteq> cm_id r" for i
    using run that v by (auto simp: insert_version_result Let_def versions_of_def split: option.splits)
  show ?thesis using other_row [OF inv _ r] vs by (auto simp: untouched_def find_chat_message_def m)
qed

text \<open>A save leaves the rows of other messages alone.\<close>

lemma save_untouched:
  assumes inv: "archive_inv a" and run: "message_save r policy redacted a = (saved, a')"
    and ne: "(cm_chat r, cm_message r) \<noteq> (chat, mid)"
  shows "untouched chat mid a a'"
proof -
  have other: "\<not> same_message chat mid q" if "same_message (cm_chat r) (cm_message r) q" for q
    using that ne by (auto simp: same_message_def)
  have vs: "m_versions a' = m_versions a" using message_save_inv [OF inv run] by simp
  have "find_chat_message a' chat mid = find_chat_message a chat mid"
  proof (cases "find_chat_message a (cm_chat r) (cm_message r)")
    case None
    then obtain m where m: "m_messages a' = m_messages a @ [m]" "\<not> same_message chat mid m"
      using run other by (auto simp: message_save_def Let_def same_message_def)
    have "List.find q (xs @ [m]) = List.find q xs" if "\<not> q m" for q and xs :: "chat_message list"
      using that by (induction xs) auto
    then show ?thesis using m by (simp add: find_chat_message_def)
  next
    case (Some old)
    then have "m_messages a' = m_messages a \<or> m_messages a' =
        update_where (same_message (cm_chat r) (cm_message r)) (sticky_policy policy redacted) (m_messages a)"
      using run by (auto simp: message_save_def split: if_splits)
    moreover have "List.find (same_message chat mid)
        (update_where (same_message (cm_chat r) (cm_message r)) (sticky_policy policy redacted) (m_messages a))
        = List.find (same_message chat mid) (m_messages a)"
      using other by (intro find_updated_row) (auto simp: sticky_policy_def same_message_def)
    ultimately show ?thesis by (auto simp: find_chat_message_def)
  qed
  then show ?thesis by (simp add: untouched_def versions_of_def vs)
qed

text \<open>The parts of a delivery: the saved row, the version, and the row's pointer.\<close>

lemma persist_parts:
  assumes run: "persist_message_with_policy digest imported raw captured now m a = Inr (r, a')"
  obtains saved a1 w a2 where
    "message_save (message_values m False raw captured) (Some P_normal) (Some False) a = (saved, a1)"
    "insert_version (delivered_version digest imported raw (case captured of None \<Rightarrow> now | Some t \<Rightarrow> t) m (cm_id saved)) a1 = Inr (w, a2)"
    "fst r = (if cm_current saved = None then saved\<lparr>cm_current := Some (mv_id w)\<rparr> else saved)"
    "a' = (if cm_current saved = None then message_update (cm_id saved) (\<lambda>q. q\<lparr>cm_current := Some (mv_id w)\<rparr>) a2 else a2)"
proof -
  obtain saved a1 where save: "message_save (message_values m False raw captured) (Some P_normal) (Some False) a = (saved, a1)"
    by fastforce
  obtain w a2 where ins: "insert_version (delivered_version digest imported raw
      (case captured of None \<Rightarrow> now | Some t \<Rightarrow> t) m (cm_id saved)) a1 = Inr (w, a2)"
    using insert_version_total by blast
  show ?thesis
    using that [OF save ins] run by (auto simp: persist_eq save ins split: if_splits)
qed

lemma delivered_message [simp]: "mv_message (delivered_version digest imported raw t m i) = i"
  by (simp add: delivered_version_def version_values_def)

lemma delivered_active [simp]: "\<not> mv_redacted (delivered_version digest imported raw t m i)"
  by (simp add: delivered_version_def version_values_def)

lemma persist_untouched:
  assumes inv: "archive_inv a" and run: "persist_message_with_policy digest imported raw captured now m a = Inr (r, a')"
    and ne: "(tm_chat m, tm_id m) \<noteq> (chat, mid)"
  shows "untouched chat mid a a'"
proof -
  obtain saved a1 w a2 where p:
    "message_save (message_values m False raw captured) (Some P_normal) (Some False) a = (saved, a1)"
    "insert_version (delivered_version digest imported raw (case captured of None \<Rightarrow> now | Some t \<Rightarrow> t) m (cm_id saved)) a1 = Inr (w, a2)"
    "a' = (if cm_current saved = None then message_update (cm_id saved) (\<lambda>q. q\<lparr>cm_current := Some (mv_id w)\<rparr>) a2 else a2)"
    using persist_parts [OF run] by metis
  note sv = message_save_inv [OF inv p(1)]
  have saved: "saved \<in> set (m_messages a1)" "(cm_chat saved, cm_message saved) \<noteq> (chat, mid)" "archive_inv a1"
    using sv ne by (auto simp: same_message_def message_values_def)
  have u1: "untouched chat mid a a1" by (rule save_untouched [OF inv p(1)]) (use ne in \<open>simp add: message_values_def\<close>)
  have u2: "untouched chat mid a1 a2" by (rule insert_untouched [OF saved(3,1,2) p(2)]) simp
  have m: "m_messages a2 = m_messages a1" using p(2) by (auto simp: insert_version_result Let_def split: option.splits)
  have u3: "untouched chat mid a2 (message_update (cm_id saved) (\<lambda>q. q\<lparr>cm_current := Some (mv_id w)\<rparr>) a2)"
    by (rule update_untouched) (use other_id [OF saved(3,1,2)] m in auto)
  show ?thesis using untouched_trans [OF untouched_trans [OF u1 u2]] u3 untouched_refl by (auto simp: p(3))
qed

text \<open>A readable message: a row that is neither hidden nor without an active current version.\<close>

definition readable :: "mdb \<Rightarrow> int \<Rightarrow> int \<Rightarrow> bool" where
  "readable a chat mid \<longleftrightarrow> (\<exists>r v. find_chat_message a chat mid = Some r \<and> cm_policy r = P_normal \<and> \<not> cm_redacted r \<and>
     cm_current r = Some (mv_id v) \<and> v \<in> set (versions_of a (cm_id r)) \<and> \<not> mv_redacted v)"

lemma readable_untouched: "untouched chat mid a a' \<Longrightarrow> readable a chat mid \<Longrightarrow> readable a' chat mid"
  by (auto simp: untouched_def readable_def)

lemma fetch_version:
  assumes inv: "archive_inv a" and v: "v \<in> set (m_versions a)"
  shows "fetch mv_id (mv_id v) (m_versions a) = Some v"
  using archive_invD(3) [OF inv] v by (simp add: ids_below_def fetch_distinct)

lemma readable_iff:
  assumes inv: "archive_inv (c_archive c)"
  shows "readable (c_archive c) chat mid \<longleftrightarrow>
    (\<exists>e. find_existing_chat_message_state c chat mid = Some e \<and> \<not> needs_rehydrate e)"
proof
  assume "readable (c_archive c) chat mid"
  then obtain r v where r: "find_chat_message (c_archive c) chat mid = Some r" "cm_policy r = P_normal" "\<not> cm_redacted r"
    "cm_current r = Some (mv_id v)" "v \<in> set (m_versions (c_archive c))" "\<not> mv_redacted v"
    by (auto simp: readable_def versions_of_def)
  then show "\<exists>e. find_existing_chat_message_state c chat mid = Some e \<and> \<not> needs_rehydrate e"
    using fetch_version [OF inv r(5)] by (simp add: find_existing_chat_message_state_def needs_rehydrate_def)
next
  assume "\<exists>e. find_existing_chat_message_state c chat mid = Some e \<and> \<not> needs_rehydrate e"
  then obtain e where e: "find_existing_chat_message_state c chat mid = Some e" "\<not> needs_rehydrate e" by blast
  then obtain r where r: "find_chat_message (c_archive c) chat mid = Some r" "es_policy e = cm_policy r" "es_redacted e = cm_redacted r"
    "es_current e = cm_current r" "es_current_redacted e = (case cm_current r of None \<Rightarrow> False
         | Some i \<Rightarrow> (case fetch mv_id i (m_versions (c_archive c)) of None \<Rightarrow> False | Some v \<Rightarrow> mv_redacted v))"
    by (auto simp: find_existing_chat_message_state_def)
  then obtain i where i: "cm_current r = Some i" "cm_policy r = P_normal" "\<not> cm_redacted r"
    using e(2) by (auto simp: needs_rehydrate_def)
  have "pointer_ok (c_archive c) r"
    using r(1) by (intro archive_invD(6) [OF inv]) (simp add: find_message_iff [OF inv])
  then obtain v where v: "v \<in> set (m_versions (c_archive c))" "mv_id v = i" "mv_message v = cm_id r"
    using i(1) by (auto simp: pointer_ok_def)
  have "\<not> mv_redacted v" using fetch_version [OF inv v(1)] v(2) i(1) r(5) e(2) by (simp add: needs_rehydrate_def)
  then show "readable (c_archive c) chat mid" using r(1) i v by (auto simp: readable_def versions_of_def)
qed

lemma restore_parts:
  assumes run: "rehydrate_message_from_import digest m rid raw payload captured a = Inr (r, a')"
  shows "\<exists>saved w a1 f. List.find (\<lambda>r. cm_id r = rid \<and> same_message (tm_chat m) (tm_id m) r) (m_messages a) = Some saved \<and>
    insert_version (version_values rid (tm_text m) (tm_caption m) (extract_entities_unified m) None captured
      (content_hash_of digest m) (Some raw) False True) a = Inr (w, a1) \<and>
    r = f saved \<and> (\<forall>q. row_id (f q) = row_id q) \<and>
    (\<forall>q. cm_policy (f q) = P_normal \<and> \<not> cm_redacted (f q) \<and> cm_current (f q) = Some (mv_id w)) \<and>
    m_messages a' = m_messages (message_update rid f a1) \<and> m_versions a' = m_versions a1"
proof -
  obtain saved author where find: "List.find (\<lambda>r. cm_id r = rid \<and> same_message (tm_chat m) (tm_id m) r) (m_messages a) = Some saved"
    and author: "tm_from m = Some author"
    using run by (auto simp: rehydrate_message_from_import_def split: option.splits)
  obtain w a1 where ins: "insert_version (version_values rid (tm_text m) (tm_caption m) (extract_entities_unified m) None captured
      (content_hash_of digest m) (Some raw) False True) a = Inr (w, a1)" using insert_version_total by blast
  define f where "f = (\<lambda>r. r\<lparr>cm_user := Some author, cm_text := tm_text m, cm_caption := tm_caption m,
     cm_date := captured, cm_payload := Some payload, cm_reply := tm_reply m, cm_thread := tm_thread m,
     cm_kind := Some (classify_message_kind m), cm_current := Some (mv_id w), cm_policy := P_normal,
     cm_redacted := False, cm_hash := Some (content_hash_of digest m)\<rparr> :: chat_message)"
  have "r = f saved \<and> m_messages a' = m_messages (message_update rid f a1) \<and> m_versions a' = m_versions a1"
    using run find author ins
    by (auto simp: rehydrate_message_from_import_def content_hash_of_def f_def Let_def)
  moreover have "(\<forall>q. row_id (f q) = row_id q) \<and>
      (\<forall>q. cm_policy (f q) = P_normal \<and> \<not> cm_redacted (f q) \<and> cm_current (f q) = Some (mv_id w))"
    by (simp add: f_def row_id_def)
  ultimately show ?thesis using find ins by blast
qed

lemma restore_untouched:
  assumes inv: "archive_inv a" and run: "rehydrate_message_from_import digest m rid raw payload captured a = Inr (r, a')"
    and ne: "(tm_chat m, tm_id m) \<noteq> (chat, mid)"
  shows "untouched chat mid a a'"
proof -
  obtain saved w a1 f where p:
    "List.find (\<lambda>r. cm_id r = rid \<and> same_message (tm_chat m) (tm_id m) r) (m_messages a) = Some saved"
    "insert_version (version_values rid (tm_text m) (tm_caption m) (extract_entities_unified m) None captured
      (content_hash_of digest m) (Some raw) False True) a = Inr (w, a1)"
    "r = f saved" "\<forall>q. row_id (f q) = row_id q" "\<forall>q. cm_policy (f q) = P_normal \<and> \<not> cm_redacted (f q) \<and> cm_current (f q) = Some (mv_id w)"
    "m_messages a' = m_messages (message_update rid f a1)" "m_versions a' = m_versions a1"
    using restore_parts [OF run] by blast
  have saved: "saved \<in> set (m_messages a)" "(cm_chat saved, cm_message saved) \<noteq> (chat, mid)" "cm_id saved = rid"
    using p(1) ne by (auto simp: find_Some_iff same_message_def)
  have u1: "untouched chat mid a a1"
    by (rule insert_untouched [OF inv saved(1,2) p(2)]) (simp add: version_values_def saved(3))
  have m: "m_messages a1 = m_messages a" using p(2) by (auto simp: insert_version_result Let_def split: option.splits)
  have "untouched chat mid a1 (message_update rid f a1)"
    by (rule update_untouched) (use other_id [OF inv saved(1,2)] saved(3) m p(4) in \<open>auto simp: row_id_def\<close>)
  then have "untouched chat mid a1 a'" using p(6,7) by (simp add: untouched_def find_chat_message_def versions_of_def)
  then show ?thesis by (rule untouched_trans [OF u1])
qed

text \<open>After a restore, and after a delivery of a new message, the message is readable.\<close>

lemma found_after:
  assumes "archive_inv a" "r \<in> set (m_messages a)" "same_message chat mid r"
  shows "find_chat_message a chat mid = Some r"
  using assms by (simp add: find_message_iff)

lemma active_insert:
  assumes "insert_version v a = Inr (w, a1)" "\<not> mv_redacted v"
  shows "w \<in> set (m_versions a1) \<and> mv_message w = mv_message v \<and> \<not> mv_redacted w"
  using assms get_by_hash_Some [of a "mv_message v" "mv_hash v" w]
  by (auto simp: insert_version_result Let_def split: option.splits)

lemma restore_readable:
  assumes inv: "archive_inv a" and run: "rehydrate_message_from_import digest m rid raw payload captured a = Inr (r, a')"
  shows "archive_inv a' \<and> readable a' (tm_chat m) (tm_id m) \<and> find_chat_message a' (tm_chat m) (tm_id m) = Some r"
proof -
  obtain saved w a1 f where p:
    "List.find (\<lambda>r. cm_id r = rid \<and> same_message (tm_chat m) (tm_id m) r) (m_messages a) = Some saved"
    "insert_version (version_values rid (tm_text m) (tm_caption m) (extract_entities_unified m) None captured
      (content_hash_of digest m) (Some raw) False True) a = Inr (w, a1)"
    "r = f saved" "\<forall>q. row_id (f q) = row_id q" "\<forall>q. cm_policy (f q) = P_normal \<and> \<not> cm_redacted (f q) \<and> cm_current (f q) = Some (mv_id w)"
    "m_messages a' = m_messages (message_update rid f a1)" "m_versions a' = m_versions a1"
    using restore_parts [OF run] by blast
  have inv': "archive_inv a'" using restore_result [OF inv run] by (simp add: advances_def extends_def)
  have m: "m_messages a1 = m_messages a" using p(2) by (auto simp: insert_version_result Let_def split: option.splits)
  have saved: "saved \<in> set (m_messages a)" "cm_id saved = rid" "same_message (tm_chat m) (tm_id m) saved"
    using p(1) by (auto simp: find_Some_iff)
  have ids: "cm_id r = rid" "same_message (tm_chat m) (tm_id m) r"
    using p(4) saved by (auto simp: p(3) row_id_def same_message_def)
  have "r \<in> set (m_messages a')" using saved by (auto simp: p(3,6) m message_update_def set_update_where)
  note find = found_after [OF inv' this ids(2)]
  have "w \<in> set (versions_of a' (cm_id r)) \<and> \<not> mv_redacted w"
    using active_insert [OF p(2)] ids(1) by (auto simp: versions_of_def p(7) version_values_def)
  then show ?thesis using inv' find p(5) by (auto simp: readable_def p(3))
qed

lemma persist_readable:
  assumes inv: "archive_inv a" and new: "find_chat_message a (tm_chat m) (tm_id m) = None"
    and run: "persist_message_with_policy digest imported raw captured now m a = Inr (r, a')"
  shows "archive_inv a' \<and> readable a' (tm_chat m) (tm_id m) \<and> find_chat_message a' (tm_chat m) (tm_id m) = Some (fst r)"
proof -
  note res = persist_result [OF inv run]
  obtain saved a1 w a2 where p:
    "message_save (message_values m False raw captured) (Some P_normal) (Some False) a = (saved, a1)"
    "insert_version (delivered_version digest imported raw (case captured of None \<Rightarrow> now | Some t \<Rightarrow> t) m (cm_id saved)) a1 = Inr (w, a2)"
    "fst r = (if cm_current saved = None then saved\<lparr>cm_current := Some (mv_id w)\<rparr> else saved)"
    "a' = (if cm_current saved = None then message_update (cm_id saved) (\<lambda>q. q\<lparr>cm_current := Some (mv_id w)\<rparr>) a2 else a2)"
    using persist_parts [OF run] by metis
  have saved: "cm_current saved = None" "cm_policy saved = P_normal" "\<not> cm_redacted saved"
    using p(1) new by (auto simp: message_save_def Let_def message_values_def split: option.splits)
  have inv': "archive_inv a'" using res by (simp add: extends_def)
  note find = found_after [OF inv', of "fst r"]
  have "w \<in> set (versions_of a' (cm_id (fst r))) \<and> \<not> mv_redacted w"
    using active_insert [OF p(2)] by (auto simp: versions_of_def p(3,4) saved(1))
  then show ?thesis using inv' find res saved by (auto simp: readable_def p(3) persisted_def)
qed

subsection \<open>Quarantine\<close>

lemma hide_version_keys [simp]: "mv_id (hide_version v) = mv_id v" "mv_message (hide_version v) = mv_message v"
  "mv_seq (hide_version v) = mv_seq v" "mv_redacted (hide_version v)"
  by (simp_all add: hide_version_def)

lemma hidden_version: "version_hidden (hide_version v)"
  by (simp add: hide_version_def version_hidden_def)

lemma versions_hide:
  "versions_of (s\<lparr>m_versions := update_where (\<lambda>v. mv_message v = i) hide_version (m_versions s)\<rparr>) j =
     (if j = i then map hide_version (versions_of s i) else versions_of s j)"
proof -
  have "filter (\<lambda>v. mv_message v = j) (update_where (\<lambda>v. mv_message v = i) hide_version vs) =
      (if j = i then map hide_version (filter (\<lambda>v. mv_message v = i) vs) else filter (\<lambda>v. mv_message v = j) vs)" for vs
    by (induction vs) auto
  then show ?thesis by (simp add: versions_of_def)
qed

lemma versions_ok_hide:
  assumes "versions_ok vs"
  shows "versions_ok (update_where p hide_version vs)"
proof -
  have "map (\<lambda>v. (mv_message v, mv_seq v)) (update_where p hide_version vs) = map (\<lambda>v. (mv_message v, mv_seq v)) vs"
    by (rule map_update_where) simp
  moreover have active: "filter (\<lambda>v. \<not> mv_redacted v) (update_where p hide_version vs) =
      filter (\<lambda>v. \<not> p v) (filter (\<lambda>v. \<not> mv_redacted v) vs)"
    by (induction vs) auto
  moreover have "distinct (map (\<lambda>v. (mv_message v, mv_hash v)) (filter (\<lambda>v. \<not> p v) (filter (\<lambda>v. \<not> mv_redacted v) vs)))"
    by (rule distinct_map_filter) (use assms in \<open>simp add: versions_ok_def\<close>)
  ultimately show ?thesis using assms unfolding versions_ok_def by (simp only: simp_thms)
qed

lemma hide_versions_inv:
  assumes inv: "archive_inv s"
  shows "archive_inv (s\<lparr>m_versions := update_where p hide_version (m_versions s)\<rparr>)"
proof -
  define t where "t = s\<lparr>m_versions := update_where p hide_version (m_versions s)\<rparr>"
  have t: "m_messages t = m_messages s" "m_versions t = map (\<lambda>v. if p v then hide_version v else v) (m_versions s)"
    "m_next_message t = m_next_message s" "m_next_version t = m_next_version s"
    by (simp_all add: t_def update_where_def)
  have ids: "ids_below mv_id (m_next_version t) (m_versions t)"
    using archive_invD(3) [OF inv] by (simp add: t ids_below_map)
  have "pointer_ok t r" if r: "r \<in> set (m_messages s)" for r
  proof (cases "cm_current r")
    case None
    then have "\<forall>v \<in> set (m_versions s). mv_message v \<noteq> cm_id r"
      using archive_invD(6) [OF inv r] by (simp add: pointer_ok_def versions_of_def filter_empty_conv)
    then show ?thesis using None by (auto simp: pointer_ok_def versions_of_def filter_empty_conv t)
  next
    case (Some i)
    then obtain v where v: "v \<in> set (m_versions s)" "mv_id v = i" "mv_message v = cm_id r"
      using archive_invD(6) [OF inv r] by (auto simp: pointer_ok_def)
    let ?v = "if p v then hide_version v else v"
    have "?v \<in> set (m_versions t)" using v(1) by (simp add: t)
    moreover have "mv_id ?v = i \<and> mv_message ?v = cm_id r" using v(2,3) by simp
    ultimately show ?thesis using Some by (auto simp: pointer_ok_def simp del: if_split_asm)
  qed
  then have "archive_inv t"
    using inv ids versions_ok_hide [of "m_versions s" p] by (auto simp: archive_inv_def t update_where_def)
  then show ?thesis by (simp add: t_def)
qed

definition hidden :: "mdb \<Rightarrow> int \<Rightarrow> int \<Rightarrow> bool" where
  "hidden a chat mid \<longleftrightarrow> (case find_chat_message a chat mid of None \<Rightarrow> True
     | Some r \<Rightarrow> row_hidden r \<and> list_all version_hidden (versions_of a (cm_id r)))"

lemma hidden_untouched: "untouched chat mid a a' \<Longrightarrow> hidden a chat mid \<Longrightarrow> hidden a' chat mid"
  by (auto simp: untouched_def hidden_def split: option.splits)

lemma quarantine_facts:
  assumes inv: "archive_inv a" and m: "find_chat_message a chat mid = Some m"
  shows "archive_inv (quarantine m a)" "hidden (quarantine m a) chat mid"
    "(chat', mid') \<noteq> (chat, mid) \<Longrightarrow> untouched chat' mid' a (quarantine m a)"
proof -
  define f :: "chat_message \<Rightarrow> chat_message" where
    "f = (\<lambda>r. r\<lparr>cm_policy := P_forgotten, cm_redacted := True, cm_text := None, cm_caption := None, cm_payload := None\<rparr>)"
  define a1 where "a1 = message_update (cm_id m) f a"
  have q: "quarantine m a = a1\<lparr>m_versions := update_where (\<lambda>v. mv_message v = cm_id m) hide_version (m_versions a1)\<rparr>"
    by (simp add: quarantine_def a1_def f_def message_update_def)
  have row: "m \<in> set (m_messages a)" "same_message chat mid m" using m by (simp_all add: find_message_iff [OF inv])
  have inv1: "archive_inv a1" unfolding a1_def by (rule message_update_inv [OF inv]) (simp_all add: f_def row_id_def)
  then show inv2: "archive_inv (quarantine m a)" unfolding q by (rule hide_versions_inv)
  have "f m \<in> set (m_messages (quarantine m a))"
    using row(1) by (auto simp: q a1_def message_update_def set_update_where)
  then have find: "find_chat_message (quarantine m a) chat mid = Some (f m)"
    using row(2) by (simp add: find_message_iff [OF inv2] same_message_def f_def)
  show "hidden (quarantine m a) chat mid"
    unfolding hidden_def find by (simp add: q versions_hide f_def row_hidden_def list_all_iff hidden_version)
  show "untouched chat' mid' a (quarantine m a)" if ne: "(chat', mid') \<noteq> (chat, mid)"
  proof -
    have r: "(cm_chat m, cm_message m) \<noteq> (chat', mid')" using row(2) ne by (auto simp: same_message_def)
    have "untouched chat' mid' a a1" unfolding a1_def
      by (rule update_untouched) (use other_id [OF inv row(1) r] in \<open>auto simp: f_def\<close>)
    moreover have "untouched chat' mid' a1 (quarantine m a)"
    proof -
      have "m_messages (quarantine m a) = m_messages a1" by (simp add: q)
      moreover have "cm_id p \<noteq> cm_id m" if "find_chat_message a1 chat' mid' = Some p" for p
      proof -
        have "find_chat_message a chat' mid' = Some p"
          using that \<open>untouched chat' mid' a a1\<close> by (simp add: untouched_def)
        then show ?thesis by (rule other_row [OF inv _ row(1) r])
      qed
      ultimately show ?thesis by (auto simp: untouched_def find_chat_message_def) (simp add: q versions_hide)
    qed
    ultimately show ?thesis by (rule untouched_trans)
  qed
qed

subsection \<open>Raw rows\<close>

definition raw_is :: "jobject \<Rightarrow> int \<Rightarrow> int \<Rightarrow> content \<Rightarrow> bool" where
  "raw_is payload chat mid c \<longleftrightarrow> (\<exists>w \<in> set (c_raws c). import_message_row chat mid w) \<and>
     (\<forall>w \<in> set (c_raws c). import_message_row chat mid w \<longrightarrow> refresh_raw payload w = w)"

lemma import_row_refresh [simp]: "import_message_row chat mid (refresh_raw payload w) = import_message_row chat mid w"
  by (simp add: import_message_row_def refresh_raw_def)

lemma upsert_other [simp]:
  "c_archive (snd (upsert_import_message payload chat mid run c)) = c_archive c"
  "c_users (snd (upsert_import_message payload chat mid run c)) = c_users c"
  "c_media (snd (upsert_import_message payload chat mid run c)) = c_media c"
  "c_cards (snd (upsert_import_message payload chat mid run c)) = c_cards c"
  by (simp_all add: upsert_import_message_def Let_def split: option.split)

lemma new_raw_row [simp]: "import_message_row chat mid (new_import_raw payload chat' mid' run c) \<longleftrightarrow> chat = chat' \<and> mid = mid'"
  "refresh_raw payload (new_import_raw payload chat' mid' run c) = new_import_raw payload chat' mid' run c"
  by (auto simp: import_message_row_def new_import_raw_def refresh_raw_def)

lemma refresh_twice [simp]: "refresh_raw payload (refresh_raw payload w) = refresh_raw payload w"
  by (simp add: refresh_raw_def)

lemma upsert_cases:
  obtains (fresh) "\<forall>w \<in> set (c_raws c). \<not> import_message_row chat mid w"
      "upsert_import_message payload chat mid run c = (new_import_raw payload chat mid run c,
         c\<lparr>c_raws := c_raws c @ [new_import_raw payload chat mid run c], c_next_raw := c_next_raw c + 1\<rparr>)"
  | (again) w where "w \<in> set (c_raws c)" "import_message_row chat mid w"
      "upsert_import_message payload chat mid run c = (refresh_raw payload w,
         c\<lparr>c_raws := update_where (import_message_row chat mid) (refresh_raw payload) (c_raws c)\<rparr>)"
proof (cases "List.find (import_message_row chat mid) (c_raws c)")
  case None
  then have "upsert_import_message payload chat mid run c = (new_import_raw payload chat mid run c,
      c\<lparr>c_raws := c_raws c @ [new_import_raw payload chat mid run c], c_next_raw := c_next_raw c + 1\<rparr>)"
    by (simp add: upsert_import_message_def Let_def)
  then show ?thesis using None by (intro fresh) (simp_all add: find_None_iff)
next
  case (Some w)
  then have "w \<in> set (c_raws c) \<and> import_message_row chat mid w" by (auto simp: find_Some_iff)
  then show ?thesis using Some by (intro again [of w]) (simp_all add: upsert_import_message_def)
qed

lemma upsert_raw_is: "raw_is payload chat mid (snd (upsert_import_message payload chat mid run c))"
proof (rule upsert_cases [of c chat mid payload run])
  fix w assume w: "w \<in> set (c_raws c)" "import_message_row chat mid w"
    and u: "upsert_import_message payload chat mid run c = (refresh_raw payload w,
         c\<lparr>c_raws := update_where (import_message_row chat mid) (refresh_raw payload) (c_raws c)\<rparr>)"
  let ?t = "update_where (import_message_row chat mid) (refresh_raw payload) (c_raws c)"
  have "refresh_raw payload w \<in> set ?t" using w by (force simp: set_update_where image_iff)
  then have "\<exists>v \<in> set ?t. import_message_row chat mid v"
    by (intro bexI [of _ "refresh_raw payload w"]) (simp_all add: w(2))
  moreover have "refresh_raw payload v = v" if "v \<in> set ?t" "import_message_row chat mid v" for v
    using that by (auto simp: set_update_where split: if_splits)
  ultimately show ?thesis by (simp add: raw_is_def u)
qed (auto simp: raw_is_def)

lemma upsert_noop:
  assumes "raw_is payload chat mid c"
  shows "snd (upsert_import_message payload chat mid run c) = c"
proof -
  obtain w where "List.find (import_message_row chat mid) (c_raws c) = Some w"
    using assms by (cases "List.find (import_message_row chat mid) (c_raws c)") (auto simp: raw_is_def find_None_iff)
  moreover have "update_where (import_message_row chat mid) (refresh_raw payload) (c_raws c) = c_raws c"
    using assms by (intro update_where_fixed) (auto simp: raw_is_def)
  ultimately show ?thesis by (simp add: upsert_import_message_def)
qed

lemma upsert_keeps_raw:
  assumes "raw_is payload' chat mid' c" "mid' \<noteq> mid"
  shows "raw_is payload' chat mid' (snd (upsert_import_message payload chat mid run c))"
proof -
  have other: "\<not> import_message_row chat mid' w" if "import_message_row chat mid w" for w
    using that assms(2) by (auto simp: import_message_row_def)
  have set_other: "w \<in> set (update_where (import_message_row chat mid) f t) \<longleftrightarrow> w \<in> set t"
    if "import_message_row chat mid' w" "\<And>v. import_message_row chat mid (f v) = import_message_row chat mid v" for w f t
    using that other by (induction t) auto
  show ?thesis
  proof (rule upsert_cases [of c chat mid payload run])
    fix w assume "upsert_import_message payload chat mid run c = (refresh_raw payload w,
         c\<lparr>c_raws := update_where (import_message_row chat mid) (refresh_raw payload) (c_raws c)\<rparr>)"
    then show ?thesis using assms(1) set_other [of _ "refresh_raw payload"] by (fastforce simp: raw_is_def)
  qed (use assms in \<open>auto simp: raw_is_def\<close>)
qed

subsection \<open>Storing a human message\<close>

lemma resolve_user_content:
  assumes "resolve_export_user lib eid name c = Inr (user, c')"
  shows "c_archive c' = c_archive c \<and> c_raws c' = c_raws c \<and> c_media c' = c_media c \<and> c_cards c' = c_cards c"
  using assms by (auto simp: resolve_export_user_def create_ghost_user_def bindE_Inr_iff split: option.splits if_splits)

definition photo_linkable :: "int \<Rightarrow> int \<Rightarrow> bool" where
  "photo_linkable chat mid \<longleftrightarrow> is_ok (telegram_source_message_url chat mid)"

lemma photo_result:
  "record_import_photo_if_needed kind row chat mid c = Inr c' \<longleftrightarrow>
     (kind = ''photo'' \<longrightarrow> photo_linkable chat mid) \<and>
     c' = (if kind = ''photo'' \<and> row \<notin> set (c_media c) then c\<lparr>c_media := c_media c @ [row]\<rparr> else c)"
  by (auto simp: record_import_photo_if_needed_def record_missing_import_photo_def photo_linkable_def is_ok_iff bindE_Inr_iff)

lemma photo_content:
  assumes "record_import_photo_if_needed kind row chat mid c = Inr c'"
  shows "c_archive c' = c_archive c" "c_raws c' = c_raws c" "c_users c' = c_users c"
    "set (c_media c') = set (c_media c) \<union> (if kind = ''photo'' then {row} else {})" "kind = ''photo'' \<Longrightarrow> photo_linkable chat mid"
  using assms by (auto simp: photo_result)

definition has_photo :: "string \<Rightarrow> int \<Rightarrow> int \<Rightarrow> content \<Rightarrow> bool" where
  "has_photo kind chat mid c \<longleftrightarrow> kind = ''photo'' \<longrightarrow> photo_linkable chat mid \<and>
     (\<exists>r. find_chat_message (c_archive c) chat mid = Some r \<and> cm_id r \<in> set (c_media c))"

text \<open>What a stored message looks like.\<close>

definition stored :: "string \<Rightarrow> jobject \<Rightarrow> int \<Rightarrow> int \<Rightarrow> content \<Rightarrow> bool" where
  "stored kind msg chat mid c \<longleftrightarrow> readable (c_archive c) chat mid \<and> raw_is (build_raw_payload msg chat mid) chat mid c \<and>
     has_photo kind chat mid c"

lemma raw_is_cong: "c_raws c = c_raws c' \<Longrightarrow> raw_is payload chat mid c = raw_is payload chat mid c'"
  by (simp add: raw_is_def)

lemma store_row_cases:
  assumes "store_row lib digest chat mid existing kind payload duck raw c rep = Inr (c', rep')"
  obtains
    (overlap) row where "existing = None" "check_live_overlap_pre_persist c chat mid (rw_id raw) = Some row"
      "record_import_photo_if_needed kind row chat mid c = Inr c'"
  | (restore) e row a where "existing = Some e" "rehydrate_message_from_import digest duck (es_id e) (rw_id raw)
        (py_dumps lib (J_obj payload)) (tm_date duck) (c_archive c) = Inr (row, a)"
      "record_import_photo_if_needed kind (cm_id row) chat mid (c\<lparr>c_archive := a\<rparr>) = Inr c'"
  | (persist) r a where "existing = None" "persist_message_with_policy digest True (Some (rw_id raw)) (Some (tm_date duck))
        (tm_date duck) duck (c_archive c) = Inr (r, a)"
      "record_import_photo_if_needed kind (cm_id (fst r)) chat mid (c\<lparr>c_archive := a\<rparr>) = Inr c'"
proof (cases existing)
  case None
  show ?thesis
  proof (cases "check_live_overlap_pre_persist c chat mid (rw_id raw)")
    case none: None
    then obtain r a where "persist_message_with_policy digest True (Some (rw_id raw)) (Some (tm_date duck))
        (tm_date duck) duck (c_archive c) = Inr (r, a)"
      "record_import_photo_if_needed kind (cm_id (fst r)) chat mid (c\<lparr>c_archive := a\<rparr>) = Inr c'"
      using assms None by (fastforce simp: store_row_def bindE_Inr_iff mapE_def split: sum.splits)
    then show ?thesis by (rule persist [OF None])
  next
    case (Some row)
    then show ?thesis using assms None by (intro overlap [of row]) (auto simp: store_row_def bindE_Inr_iff)
  qed
next
  case (Some e)
  then obtain row a where "rehydrate_message_from_import digest duck (es_id e) (rw_id raw)
        (py_dumps lib (J_obj payload)) (tm_date duck) (c_archive c) = Inr (row, a)"
      "record_import_photo_if_needed kind (cm_id row) chat mid (c\<lparr>c_archive := a\<rparr>) = Inr c'"
    using assms by (fastforce simp: store_row_def bindE_Inr_iff mapE_def split: sum.splits)
  then show ?thesis by (rule restore [OF Some])
qed

lemma store_message_cases:
  assumes run: "store_message lib digest chat run view msg mid existing c rep = Inr (c', rep')"
  shows "\<exists>uid c1 kind duck raw c2.
    resolve_export_user lib (as_str (dict_get msg ''from_id'')) (as_str (dict_get msg ''from'')) c = Inr (Some uid, c1) \<and>
    classify_td_kind msg = Inr kind \<and> tm_chat duck = chat \<and> tm_id duck = mid \<and>
    upsert_import_message (build_raw_payload msg chat mid) chat mid run c1 = (raw, c2) \<and>
    store_row lib digest chat mid existing kind (build_raw_payload msg chat mid) duck raw c2 rep = Inr (c', rep')"
proof -
  obtain uid c1 where user: "resolve_export_user lib (as_str (dict_get msg ''from_id'')) (as_str (dict_get msg ''from'')) c = Inr (Some uid, c1)"
    using run by (auto simp: store_message_def bindE_Inr_iff split: option.splits)
  obtain kind where kind: "classify_td_kind msg = Inr kind"
    using run by (auto simp: store_message_def user bindE_Inr_iff)
  obtain raw c2 where up: "upsert_import_message (build_raw_payload msg chat mid) chat mid run c1 = (raw, c2)" by fastforce
  obtain body caption where tc: "extract_text_caption_for_kind msg kind = (body, caption)" by fastforce
  define duck where "duck = build_message_duck lib msg chat mid uid body caption (resolve_reply_target c1 view msg run chat) kind"
  have "tm_chat duck = chat" "tm_id duck = mid" by (simp_all add: duck_def build_message_duck_def)
  moreover have "store_row lib digest chat mid existing kind (build_raw_payload msg chat mid) duck raw c2 rep = Inr (c', rep')"
    using run by (simp add: store_message_def user kind up tc duck_def)
  ultimately show ?thesis using user kind up by blast
qed

text \<open>The report does not decide what is stored.\<close>

lemma store_row_report:
  "store_row lib digest chat mid existing kind payload duck raw c rep = Inl e \<longleftrightarrow>
     store_row lib digest chat mid existing kind payload duck raw c rep2 = Inl e"
  "(\<exists>r. store_row lib digest chat mid existing kind payload duck raw c rep = Inr (c', r)) \<longleftrightarrow>
     (\<exists>r. store_row lib digest chat mid existing kind payload duck raw c rep2 = Inr (c', r))"
  unfolding store_row_def by (cases existing; force simp: bindE_iffs split: option.splits)+

text \<open>What a store leaves: the message stored, every other message as it was.\<close>

definition leaves :: "int \<Rightarrow> int \<Rightarrow> content \<Rightarrow> content \<Rightarrow> bool" where
  "leaves chat mid c c' \<longleftrightarrow> (\<forall>k. k \<noteq> mid \<longrightarrow> untouched chat k (c_archive c) (c_archive c') \<and>
     (\<forall>payload. raw_is payload chat k c \<longrightarrow> raw_is payload chat k c')) \<and> set (c_media c) \<subseteq> set (c_media c')"

lemma leaves_trans: "leaves chat mid a b \<Longrightarrow> leaves chat mid b c \<Longrightarrow> leaves chat mid a c"
  unfolding leaves_def by (blast intro: untouched_trans)

lemma leaves_refl: "leaves chat mid c c"
  by (simp add: leaves_def untouched_refl)

lemma leaves_upsert: "leaves chat mid c (snd (upsert_import_message payload chat mid run c))"
  by (simp add: leaves_def untouched_refl upsert_keeps_raw)

lemma leaves_photo: "record_import_photo_if_needed kind row chat mid' c = Inr c' \<Longrightarrow> leaves chat mid c c'"
  using raw_is_cong [of c c'] by (auto simp: leaves_def untouched_refl dest: photo_content)

lemma leaves_archive:
  "(\<And>k. k \<noteq> mid \<Longrightarrow> untouched chat k (c_archive c) a) \<Longrightarrow> leaves chat mid c (c\<lparr>c_archive := a\<rparr>)"
  by (simp add: leaves_def raw_is_def)

lemma leaves_users: "c_archive c' = c_archive c \<Longrightarrow> c_raws c' = c_raws c \<Longrightarrow> c_media c' = c_media c \<Longrightarrow> leaves chat mid c c'"
  by (simp add: leaves_def untouched_refl raw_is_def)

lemma no_row_no_overlap: "find_chat_message (c_archive c) chat mid = None \<Longrightarrow> check_live_overlap_pre_persist c chat mid raw = None"
  by (simp add: check_live_overlap_pre_persist_def)

lemma store_result:
  assumes inv: "archive_inv (c_archive c)"
    and existing: "existing = find_existing_chat_message_state c chat mid"
    and run: "store_message lib digest chat run view msg mid existing c rep = Inr (c', rep')"
  shows "archive_inv (c_archive c') \<and> leaves chat mid c c' \<and> (\<exists>kind. classify_td_kind msg = Inr kind \<and> stored kind msg chat mid c')"
proof -
  obtain uid c1 kind duck raw c2 where s:
    "resolve_export_user lib (as_str (dict_get msg ''from_id'')) (as_str (dict_get msg ''from'')) c = Inr (Some uid, c1)"
    "classify_td_kind msg = Inr kind" "tm_chat duck = chat" "tm_id duck = mid"
    "upsert_import_message (build_raw_payload msg chat mid) chat mid run c1 = (raw, c2)"
    "store_row lib digest chat mid existing kind (build_raw_payload msg chat mid) duck raw c2 rep = Inr (c', rep')"
    using store_message_cases [OF run] by blast
  note user = resolve_user_content [OF s(1)]
  have c2: "c2 = snd (upsert_import_message (build_raw_payload msg chat mid) chat mid run c1)" using s(5) by simp
  have a2: "c_archive c2 = c_archive c" using user by (simp add: c2)
  have l2: "leaves chat mid c c2"
    using leaves_trans [OF leaves_users leaves_upsert] user by (metis c2)
  have raw2: "raw_is (build_raw_payload msg chat mid) chat mid c2" by (simp add: c2 upsert_raw_is)
  have finish: "archive_inv (c_archive c') \<and> leaves chat mid c c' \<and> (\<exists>kind. classify_td_kind msg = Inr kind \<and> stored kind msg chat mid c')"
    if photo: "record_import_photo_if_needed kind (cm_id row) chat mid (c2\<lparr>c_archive := a\<rparr>) = Inr c'"
      and a: "archive_inv a" "readable a chat mid" "find_chat_message a chat mid = Some row"
      and other: "\<And>k. k \<noteq> mid \<Longrightarrow> untouched chat k (c_archive c) a" for row a
  proof -
    note c' = photo_content [OF photo]
    have "leaves chat mid c2 c'"
      by (rule leaves_trans [OF leaves_archive leaves_photo [OF photo]]) (use other a2 in simp)
    then have "leaves chat mid c c'" by (rule leaves_trans [OF l2])
    moreover have "raw_is (build_raw_payload msg chat mid) chat mid c'" using raw2 by (simp add: c'(2) raw_is_def)
    moreover have "has_photo kind chat mid c'" using a(3) c'(5) by (simp add: has_photo_def c'(1,4))
    ultimately show ?thesis using a s(2) by (simp add: stored_def c'(1))
  qed
  from s(6) show ?thesis
  proof (cases rule: store_row_cases)
    case (overlap row)
    then have "find_chat_message (c_archive c2) chat mid = None"
      using existing by (simp add: a2 find_existing_chat_message_state_def)
    then show ?thesis using no_row_no_overlap overlap(2) by simp
  next
    case (restore e row a)
    note res = restore_readable [OF _ restore(2), unfolded a2 s(3,4), OF inv]
    show ?thesis
      by (rule finish [OF restore(3)])
        (use res restore_untouched [OF _ restore(2), unfolded a2 s(3,4), OF inv] in auto)
  next
    case (persist r a)
    then have none: "find_chat_message (c_archive c) chat mid = None"
      using existing by (simp add: find_existing_chat_message_state_def)
    note res = persist_readable [OF _ _ persist(2), unfolded a2 s(3,4), OF inv none]
    show ?thesis
      by (rule finish [OF persist(3)])
        (use res persist_untouched [OF _ persist(2), unfolded a2 s(3,4), OF inv] in auto)
  qed
qed

subsection \<open>The three laws\<close>

definition apply_content ::
  "pylib \<Rightarrow> digest \<Rightarrow> ustr list \<Rightarrow> int \<Rightarrow> int \<Rightarrow> run_view \<Rightarrow> jobject \<Rightarrow> content \<Rightarrow> import_error + content" where
  "apply_content lib digest names chat run view msg c =
     (case apply_one_message lib digest names chat run view msg c (empty_report names) of
        Inl e \<Rightarrow> Inl e | Inr (_, c', _) \<Rightarrow> Inr c')"

definition is_service :: "jobject \<Rightarrow> bool" where
  "is_service msg \<longleftrightarrow> dict_get msg ''type'' = J_str (cp ''service'')"

definition is_excluded :: "pylib \<Rightarrow> ustr list \<Rightarrow> jobject \<Rightarrow> bool" where
  "is_excluded lib names msg \<longleftrightarrow> is_import_author_excluded lib (as_str (dict_get msg ''from'')) names"

definition settled :: "pylib \<Rightarrow> ustr list \<Rightarrow> int \<Rightarrow> jobject \<Rightarrow> content \<Rightarrow> bool" where
  "settled lib names chat msg c \<longleftrightarrow> (case as_int (dict_get msg ''id'') of None \<Rightarrow> True | Some mid \<Rightarrow>
     if is_service msg then True
     else if is_excluded lib names msg
     then raw_is (build_excluded_author_raw_payload msg chat mid) chat mid c \<and> hidden (c_archive c) chat mid
     else \<exists>kind. classify_td_kind msg = Inr kind \<and> stored kind msg chat mid c)"

text \<open>The outcome of one message, whatever the report.\<close>

lemma apply_one_outcome:
  "apply_one_message lib digest names chat run view msg c rep =
     (case as_int (dict_get msg ''id'') of None \<Rightarrow> Inr (None, c, rep) | Some mid \<Rightarrow>
      if is_service msg then Inr (Some mid, c, rep\<lparr>rp_service := rp_service rep + 1\<rparr>)
      else if is_excluded lib names msg then
        Inr (Some mid, snd (ensure_excluded_author_raw_only chat mid run (build_excluded_author_raw_payload msg chat mid) c),
          if fst (ensure_excluded_author_raw_only chat mid run (build_excluded_author_raw_payload msg chat mid) c)
          then rep\<lparr>rp_excluded := rp_excluded rep + 1,
            rp_excluded_by := bump (py_author lib (the (as_str (dict_get msg ''from'')))) (rp_excluded_by rep)\<rparr>
          else rep\<lparr>rp_duplicate := rp_duplicate rep + 1\<rparr>)
      else case find_existing_chat_message_state c chat mid of
        Some e \<Rightarrow> if \<not> needs_rehydrate e then
           bindE (classify_td_kind msg) (\<lambda>kind. bindE (record_import_photo_if_needed kind (es_id e) chat mid
               (snd (upsert_import_message (build_raw_payload msg chat mid) chat mid run c))) (\<lambda>c1. Inr (Some mid, c1,
             if es_live e then rep\<lparr>rp_overlap := rp_overlap rep + 1\<rparr> else rep\<lparr>rp_duplicate := rp_duplicate rep + 1\<rparr>)))
         else bindE (store_message lib digest chat run view msg mid (Some e) c rep) (\<lambda>(c1, rep1). Inr (Some mid, c1, rep1))
      | None \<Rightarrow> bindE (store_message lib digest chat run view msg mid None c rep) (\<lambda>(c1, rep1). Inr (Some mid, c1, rep1)))"
  by (simp add: apply_one_message_def is_service_def is_excluded_def Let_def split_def split: option.split)

lemma store_message_report:
  "store_message lib digest chat run view msg mid existing c rep = Inl e \<Longrightarrow>
     store_message lib digest chat run view msg mid existing c rep2 = Inl e"
  "store_message lib digest chat run view msg mid existing c rep = Inr (c', r) \<Longrightarrow>
     \<exists>r2. store_message lib digest chat run view msg mid existing c rep2 = Inr (c', r2)"
proof -
  define k where "k = (\<lambda>rep uid c1 kind. let (body, caption) = extract_text_caption_for_kind msg kind;
         reply = resolve_reply_target c1 view msg run chat;
         payload = build_raw_payload msg chat mid;
         (raw, c2) = upsert_import_message payload chat mid run c1;
         duck = build_message_duck lib msg chat mid uid body caption reply kind
     in store_row lib digest chat mid existing kind payload duck raw c2 rep)"
  have k_err: "k rep uid c1 kind = Inl e \<Longrightarrow> k rep2 uid c1 kind = Inl e" for uid c1 kind e
    unfolding k_def Let_def split_def by (rule iffD1 [OF store_row_report(1)])
  have k_ok: "k rep uid c1 kind = Inr (c', r) \<Longrightarrow> \<exists>r2. k rep2 uid c1 kind = Inr (c', r2)" for uid c1 kind c' r
    unfolding k_def Let_def split_def by (rule iffD1 [OF store_row_report(2)]) (rule exI)
  have eq: "store_message lib digest chat run view msg mid existing c rr =
      bindE (resolve_export_user lib (as_str (dict_get msg ''from_id'')) (as_str (dict_get msg ''from'')) c) (\<lambda>(user, c1).
      case user of None \<Rightarrow> Inl (Value_error ''cannot resolve user'') | Some uid \<Rightarrow> bindE (classify_td_kind msg) (k rr uid c1))" for rr
    unfolding store_message_def k_def by (rule refl)
  let ?user = "resolve_export_user lib (as_str (dict_get msg ''from_id'')) (as_str (dict_get msg ''from'')) c"
  consider (failed) x where "?user = Inl x" | (nobody) c1 where "?user = Inr (None, c1)"
    | (untyped) uid c1 x where "?user = Inr (Some uid, c1)" "classify_td_kind msg = Inl x"
    | (typed) uid c1 kind where "?user = Inr (Some uid, c1)" "classify_td_kind msg = Inr kind"
    by (metis old.sum.exhaust option.exhaust surj_pair)
  then have "(store_message lib digest chat run view msg mid existing c rep = Inl e \<longrightarrow>
      store_message lib digest chat run view msg mid existing c rep2 = Inl e) \<and>
    (store_message lib digest chat run view msg mid existing c rep = Inr (c', r) \<longrightarrow>
      (\<exists>r2. store_message lib digest chat run view msg mid existing c rep2 = Inr (c', r2)))"
  proof cases
    case typed
    then show ?thesis using k_err k_ok by (simp add: eq)
  qed (simp_all add: eq)
  then show "store_message lib digest chat run view msg mid existing c rep = Inl e \<Longrightarrow>
      store_message lib digest chat run view msg mid existing c rep2 = Inl e"
    "store_message lib digest chat run view msg mid existing c rep = Inr (c', r) \<Longrightarrow>
      \<exists>r2. store_message lib digest chat run view msg mid existing c rep2 = Inr (c', r2)" by blast+
qed

text \<open>The report does not decide the outcome of a message.\<close>

lemma apply_one_report_error:
  assumes "apply_one_message lib digest names chat run view msg c rep = Inl e"
  shows "apply_one_message lib digest names chat run view msg c rep2 = Inl e"
proof -
  have store: "store_message lib digest chat run view msg mid ex c rep = Inl e \<Longrightarrow>
      store_message lib digest chat run view msg mid ex c rep2 = Inl e" for mid ex
    by (rule store_message_report(1))
  obtain mid where mid: "as_int (dict_get msg ''id'') = Some mid" and human: "\<not> is_service msg" "\<not> is_excluded lib names msg"
    using assms by (simp add: apply_one_outcome split: option.splits if_splits)
  show ?thesis
  proof (cases "find_existing_chat_message_state c chat mid")
    case None
    then show ?thesis using assms mid human store by (simp add: apply_one_outcome bindE_Inl_iff)
  next
    case (Some ex)
    then show ?thesis using assms mid human store
      by (cases "needs_rehydrate ex") (simp_all add: apply_one_outcome bindE_Inl_iff)
  qed
qed

lemma apply_content_error:
  "apply_one_message lib digest names chat run view msg c rep = Inl e \<Longrightarrow>
     apply_content lib digest names chat run view msg c = Inl e"
  using apply_one_report_error [of lib digest names chat run view msg c rep e "empty_report names"]
  by (simp add: apply_content_def)

lemma apply_content_ok:
  assumes "apply_one_message lib digest names chat run view msg c rep = Inr (adv, c', rep')"
  shows "apply_content lib digest names chat run view msg c = Inr c' \<and> adv = as_int (dict_get msg ''id'')"
proof (cases "as_int (dict_get msg ''id'')")
  case None
  then show ?thesis using assms by (simp add: apply_content_def apply_one_outcome)
next
  case (Some mid)
  have store: "\<exists>r2. store_message lib digest chat run view msg mid e c (empty_report names) = Inr (c', r2)"
    if "store_message lib digest chat run view msg mid e c rep = Inr (c', rep')" for e
    using store_message_report(2) [OF that] .
  consider (service) "is_service msg" | (excluded) "\<not> is_service msg" "is_excluded lib names msg"
    | (human) "\<not> is_service msg" "\<not> is_excluded lib names msg" by blast
  then show ?thesis
  proof cases
    case service
    have "adv = Some mid \<and> c' = c" using assms by (simp add: Some service apply_one_outcome)
    then show ?thesis by (simp add: Some service apply_content_def apply_one_outcome)
  next
    case excluded
    have "adv = Some mid \<and> c' = snd (ensure_excluded_author_raw_only chat mid run (build_excluded_author_raw_payload msg chat mid) c)"
      using assms by (simp add: Some excluded apply_one_outcome)
    then show ?thesis by (simp add: Some excluded apply_content_def apply_one_outcome)
  next
    case human
    show ?thesis
    proof (cases "find_existing_chat_message_state c chat mid")
      case None
      then have "adv = Some mid \<and> store_message lib digest chat run view msg mid None c rep = Inr (c', rep')"
        using assms Some human by (auto simp: apply_one_outcome bindE_Inr_iff)
      then show ?thesis using store [of None] Some human None by (auto simp: apply_content_def apply_one_outcome)
    next
      case e: (Some e)
      show ?thesis
      proof (cases "needs_rehydrate e")
        case True
        then have "adv = Some mid \<and> store_message lib digest chat run view msg mid (Some e) c rep = Inr (c', rep')"
          using assms Some human e by (auto simp: apply_one_outcome bindE_Inr_iff)
        then show ?thesis using store [of "Some e"] Some human e True by (auto simp: apply_content_def apply_one_outcome)
      next
        case nr: False
        then show ?thesis using assms Some human e by (auto simp: apply_content_def apply_one_outcome bindE_Inr_iff)
      qed
    qed
  qed
qed

lemma settled_noop:
  assumes inv: "archive_inv (c_archive c)" and s: "settled lib names chat msg c"
  shows "apply_content lib digest names chat run view msg c = Inr c"
proof (cases "as_int (dict_get msg ''id'')")
  case None
  then show ?thesis by (simp add: apply_content_def apply_one_outcome)
next
  case (Some mid)
  consider (service) "is_service msg" | (excluded) "\<not> is_service msg" "is_excluded lib names msg"
    | (human) "\<not> is_service msg" "\<not> is_excluded lib names msg" by blast
  then show ?thesis
  proof cases
    case service
    then show ?thesis using Some by (simp add: apply_content_def apply_one_outcome)
  next
    case excluded
    then have "raw_is (build_excluded_author_raw_payload msg chat mid) chat mid c" "hidden (c_archive c) chat mid"
      using s Some by (simp_all add: settled_def)
    then have "snd (ensure_excluded_author_raw_only chat mid run (build_excluded_author_raw_payload msg chat mid) c) = c"
      by (simp add: ensure_excluded_author_raw_only_def Let_def upsert_noop hidden_def split: option.splits)
    then show ?thesis using Some excluded by (simp add: apply_content_def apply_one_outcome)
  next
    case human
    then obtain kind where kind: "classify_td_kind msg = Inr kind" and st: "stored kind msg chat mid c"
      using s Some by (auto simp: settled_def)
    obtain e where e: "find_existing_chat_message_state c chat mid = Some e" "\<not> needs_rehydrate e"
      using st readable_iff [OF inv] by (auto simp: stored_def)
    have "record_import_photo_if_needed kind (es_id e) chat mid c = Inr c"
      using st e by (auto simp: stored_def has_photo_def photo_result find_existing_chat_message_state_def)
    then show ?thesis using Some human e kind st
      by (simp add: apply_content_def apply_one_outcome stored_def upsert_noop)
  qed
qed

lemma settle_and_leave:
  assumes inv: "archive_inv (c_archive c)" and run: "apply_content lib digest names chat run view msg c = Inr c'"
  shows "archive_inv (c_archive c') \<and> settled lib names chat msg c' \<and>
    (case as_int (dict_get msg ''id'') of None \<Rightarrow> c' = c | Some mid \<Rightarrow> leaves chat mid c c')"
proof (cases "as_int (dict_get msg ''id'')")
  case None
  then show ?thesis using run inv by (simp add: apply_content_def apply_one_outcome settled_def)
next
  case (Some mid)
  consider (service) "is_service msg" | (excluded) "\<not> is_service msg" "is_excluded lib names msg"
    | (human) "\<not> is_service msg" "\<not> is_excluded lib names msg" by blast
  then show ?thesis
  proof cases
    case service
    then show ?thesis using run Some inv leaves_refl by (auto simp: apply_content_def apply_one_outcome settled_def)
  next
    case excluded
    let ?p = "build_excluded_author_raw_payload msg chat mid"
    define c1 where "c1 = snd (upsert_import_message ?p chat mid run c)"
    have a1: "c_archive c1 = c_archive c" and raw1: "raw_is ?p chat mid c1" and l1: "leaves chat mid c c1"
      by (simp_all add: c1_def upsert_raw_is leaves_upsert)
    have c': "c' = snd (ensure_excluded_author_raw_only chat mid run ?p c)"
      using run Some excluded by (simp add: apply_content_def apply_one_outcome)
    show ?thesis
    proof (cases "hidden (c_archive c) chat mid")
      case True
      then have "c' = c1"
        by (cases "find_chat_message (c_archive c) chat mid")
          (simp_all add: c' ensure_excluded_author_raw_only_def Let_def hidden_def a1 flip: c1_def)
      then show ?thesis using Some excluded inv a1 raw1 l1 True by (simp add: settled_def)
    next
      case False
      then obtain m where m: "find_chat_message (c_archive c) chat mid = Some m"
        "\<not> (row_hidden m \<and> list_all version_hidden (versions_of (c_archive c) (cm_id m)))"
        by (auto simp: hidden_def split: option.splits)
      have e: "c' = c1\<lparr>c_archive := quarantine m (c_archive c)\<rparr>"
        unfolding c' ensure_excluded_author_raw_only_def Let_def c1_def [symmetric] a1 m(1)
        by (simp only: option.case m(2) if_False snd_conv)
      note q = quarantine_facts [OF inv m(1)]
      have "leaves chat mid c1 c'" unfolding e by (rule leaves_archive) (use q(3) a1 in simp)
      then have "leaves chat mid c c'" by (rule leaves_trans [OF l1])
      moreover have "raw_is ?p chat mid c'" using raw1 by (simp add: e raw_is_def)
      ultimately show ?thesis using Some excluded q(1,2) by (simp add: settled_def e)
    qed
  next
    case human
    obtain adv rep' where one: "apply_one_message lib digest names chat run view msg c (empty_report names) = Inr (adv, c', rep')"
      using run by (auto simp: apply_content_def split: sum.splits)
    show ?thesis
    proof (cases "\<exists>e. find_existing_chat_message_state c chat mid = Some e \<and> \<not> needs_rehydrate e")
      case True
      then obtain e where e: "find_existing_chat_message_state c chat mid = Some e" "\<not> needs_rehydrate e" by blast
      obtain kind where kind: "classify_td_kind msg = Inr kind"
        and photo: "record_import_photo_if_needed kind (es_id e) chat mid (snd (upsert_import_message (build_raw_payload msg chat mid) chat mid run c)) = Inr c'"
        using one Some human e by (auto simp: apply_one_outcome bindE_Inr_iff)
      note c' = photo_content [OF photo]
      have "leaves chat mid c c'" by (rule leaves_trans [OF leaves_upsert leaves_photo [OF photo]])
      moreover have "readable (c_archive c') chat mid" using True readable_iff [OF inv] by (simp add: c'(1))
      moreover have "raw_is (build_raw_payload msg chat mid) chat mid c'"
        using raw_is_cong [of c' "snd (upsert_import_message (build_raw_payload msg chat mid) chat mid run c)"]
        by (simp add: c'(2) upsert_raw_is)
      moreover have "has_photo kind chat mid c'"
        using e(1) c'(5) by (auto simp: has_photo_def c'(1,4) find_existing_chat_message_state_def)
      ultimately show ?thesis using Some human kind inv by (simp add: settled_def stored_def c'(1))
    next
      case False
      then obtain rep1 where "store_message lib digest chat run view msg mid (find_existing_chat_message_state c chat mid) c
          (empty_report names) = Inr (c', rep1)"
        using one Some human by (cases "find_existing_chat_message_state c chat mid") (auto simp: apply_one_outcome bindE_Inr_iff)
      from store_result [OF inv refl this] show ?thesis using Some human by (auto simp: settled_def)
    qed
  qed
qed

lemma has_photo_leaves:
  assumes l: "leaves chat mid c c'" and k: "k \<noteq> mid" and p: "has_photo kind chat k c"
  shows "has_photo kind chat k c'"
  using l k p by (auto simp: leaves_def has_photo_def untouched_def)

lemma settled_leaves:
  assumes l: "leaves chat mid c c'" and s: "settled lib names chat msg c" and ne: "as_int (dict_get msg ''id'') \<noteq> Some mid"
  shows "settled lib names chat msg c'"
proof (cases "as_int (dict_get msg ''id'')")
  case None
  then show ?thesis by (simp add: settled_def)
next
  case (Some k)
  then have k: "k \<noteq> mid" using ne by simp
  have u: "untouched chat k (c_archive c) (c_archive c')" and raw: "\<And>payload. raw_is payload chat k c \<Longrightarrow> raw_is payload chat k c'"
    using l k by (simp_all add: leaves_def)
  have st: "stored kind msg chat k c \<Longrightarrow> stored kind msg chat k c'" for kind
    using readable_untouched [OF u] raw has_photo_leaves [OF l k] by (simp add: stored_def)
  show ?thesis using s Some st raw hidden_untouched [OF u] by (auto simp: settled_def split: if_splits)
qed

text \<open>The importer satisfies the contract, with the export id as the key, for messages that have one.\<close>

interpretation imp: replayable "apply_content lib digest names chat run view" "settled lib names chat"
  "\<lambda>c. archive_inv (c_archive c)" "\<lambda>msg. as_int (dict_get msg ''id'')"
proof
  fix m :: jobject and c c'
  assume "archive_inv (c_archive c)" "apply_content lib digest names chat run view m c = Inr c'"
  from settle_and_leave [OF this] show "archive_inv (c_archive c') \<and> settled lib names chat m c'" by simp
next
  fix m :: jobject and c
  assume "archive_inv (c_archive c)" "settled lib names chat m c"
  then show "apply_content lib digest names chat run view m c = Inr c" by (rule settled_noop)
next
  fix m m' :: jobject and c c'
  assume inv: "archive_inv (c_archive c)" and run: "apply_content lib digest names chat run view m c = Inr c'"
    and s: "settled lib names chat m' c" and ne: "as_int (dict_get m' ''id'') \<noteq> as_int (dict_get m ''id'')"
  show "settled lib names chat m' c'"
  proof (cases "as_int (dict_get m ''id'')")
    case None
    then show ?thesis using settle_and_leave [OF inv run] s by simp
  next
    case (Some mid)
    then show ?thesis using settle_and_leave [OF inv run] settled_leaves [OF _ s, of mid] ne by simp
  qed
qed

end
