(* ===== verification/ImportRuns.thy ===== *)
theory ImportRuns
  imports ImportFacts
begin

section \<open>Chunks, checkpoints and the import command\<close>

text \<open>
  What the loop over the chunks has done when it stops: a prefix of the messages is applied, and the run's
  checkpoint is the last of them.  The command repeats this on a run it creates or resumes.
\<close>

subsection \<open>Chunks\<close>

definition has_ids :: "jobject list \<Rightarrow> bool" where
  "has_ids ms \<longleftrightarrow> (\<forall>m \<in> set ms. as_int (dict_get m ''id'') \<noteq> None)"

lemma has_ids_simps [simp]: "has_ids []" "has_ids (m # ms) \<longleftrightarrow> as_int (dict_get m ''id'') \<noteq> None \<and> has_ids ms"
  "has_ids (ms @ ns) \<longleftrightarrow> has_ids ms \<and> has_ids ns"
  by (auto simp: has_ids_def)

lemma concat_chunks: "0 < n \<Longrightarrow> concat (chunks_of n xs) = xs"
proof (induction n xs rule: chunks_of.induct)
  case (1 n xs)
  then show ?case by (cases "xs = []") (simp_all add: chunks_of.simps [of n xs] chunks_of.simps [of n "[]"])
qed

lemma chunks_nonempty: "[] \<notin> set (chunks_of n xs)"
proof (induction n xs rule: chunks_of.induct)
  case (1 n xs)
  then show ?case by (cases "xs = [] \<or> n = 0") (auto simp: chunks_of.simps [of n xs])
qed

text \<open>One message never touches the checkpoint and the errors of the report.\<close>

definition same_marks :: "report \<Rightarrow> report \<Rightarrow> bool" where
  "same_marks rep rep' \<longleftrightarrow> rp_last rep' = rp_last rep \<and> rp_errors rep' = rp_errors rep \<and> rp_error_ids rep' = rp_error_ids rep"

lemma store_row_marks:
  "store_row lib digest chat mid existing kind payload duck raw c rep = Inr (c', rep') \<Longrightarrow> same_marks rep rep'"
  by (auto simp: store_row_def same_marks_def bindE_Inr_iff split: option.splits if_splits)

lemma store_message_marks:
  assumes "store_message lib digest chat run view msg mid existing c rep = Inr (c', rep')"
  shows "same_marks rep rep'"
proof -
  obtain kind duck raw c2 where
    "store_row lib digest chat mid existing kind (build_raw_payload msg chat mid) duck raw c2 rep = Inr (c', rep')"
    using store_message_cases [OF assms] by blast
  then show ?thesis by (rule store_row_marks)
qed

lemma apply_one_marks:
  assumes "apply_one_message lib digest names chat run view msg c rep = Inr (adv, c', rep')"
  shows "same_marks rep rep'"
proof -
  note st = store_message_marks [of lib digest chat run view msg _ _ c rep c' rep']
  have same: "same_marks rep (rep\<lparr>rp_service := a\<rparr>)" "same_marks rep (rep\<lparr>rp_duplicate := b\<rparr>)" "same_marks rep (rep\<lparr>rp_overlap := n\<rparr>)"
    "same_marks rep (rep\<lparr>rp_excluded := n, rp_excluded_by := l\<rparr>)" "same_marks rep rep" for a b n l
    by (simp_all add: same_marks_def)
  show ?thesis
    using assms st same by (auto simp: apply_one_outcome bindE_Inr_iff split: option.splits if_splits)
qed

lemma apply_chunk_ok:
  assumes "apply_chunk lib digest names chat run view fault ms (l, c, rep) = Inr (l', c', rep')" "has_ids ms"
  shows "foldE (apply_content lib digest names chat run view) ms c = Inr c' \<and> same_marks rep rep' \<and>
    l' = (if ms = [] then l else as_int (dict_get (last ms) ''id''))"
  using assms
proof (induction ms arbitrary: l c rep)
  case (Cons m ms)
  then obtain adv c1 rep1 where one: "apply_one_message lib digest names chat run view m c rep = Inr (adv, c1, rep1)"
    and rest: "apply_chunk lib digest names chat run view fault ms (if adv = None then l else adv, c1, rep1) = Inr (l', c', rep')"
    by (auto split: if_splits sum.splits)
  note ih = Cons.IH [OF rest]
  show ?case using ih apply_content_ok [OF one] apply_one_marks [OF one] Cons.prems(2) by (auto simp: same_marks_def)
qed (simp add: same_marks_def)

lemma chunk_marks:
  assumes "apply_chunk lib digest names chat run view fault ms (l, c, rep) = Inr (l', c', rep')"
  shows "same_marks rep rep'"
  using assms
proof (induction ms arbitrary: l c rep)
  case (Cons m ms)
  then obtain adv c1 rep1 where one: "apply_one_message lib digest names chat run view m c rep = Inr (adv, c1, rep1)"
    and rest: "apply_chunk lib digest names chat run view fault ms (if adv = None then l else adv, c1, rep1) = Inr (l', c', rep')"
    by (auto split: if_splits sum.splits)
  show ?case using Cons.IH [OF rest] apply_one_marks [OF one] by (simp add: same_marks_def)
qed (simp add: same_marks_def)

lemma apply_one_runs:
  assumes "apply_content lib digest names chat run view msg c = Inr c'"
  shows "\<exists>adv rep'. apply_one_message lib digest names chat run view msg c rep = Inr (adv, c', rep')"
proof (cases "apply_one_message lib digest names chat run view msg c rep")
  case (Inl e)
  then show ?thesis using apply_content_error [OF Inl] assms by simp
next
  case (Inr p)
  then show ?thesis using assms apply_content_ok [of lib digest names chat run view msg c rep] by (cases p) auto
qed

lemma apply_chunk_runs:
  assumes "foldE (apply_content lib digest names chat run view) ms c = Inr c'" "\<And>m. m \<in> set ms \<Longrightarrow> \<not> fault m"
  shows "\<exists>l' rep'. apply_chunk lib digest names chat run view fault ms (l, c, rep) = Inr (l', c', rep')"
  using assms
proof (induction ms arbitrary: l c rep)
  case (Cons m ms)
  then obtain c1 where c1: "apply_content lib digest names chat run view m c = Inr c1"
    "foldE (apply_content lib digest names chat run view) ms c1 = Inr c'" by (auto simp: bindE_Inr_iff)
  obtain adv rep1 where "apply_one_message lib digest names chat run view m c rep = Inr (adv, c1, rep1)"
    using apply_one_runs [OF c1(1)] by blast
  then show ?case using Cons.IH [OF c1(2)] Cons.prems(2) by simp
qed simp

subsection \<open>The rows of the runs\<close>

definition run_stats :: "ingestion_run \<Rightarrow> jobject" where
  "run_stats r = (case ir_stats r of None \<Rightarrow> [] | Some st \<Rightarrow> st)"

definition run_chat :: "ingestion_run \<Rightarrow> int option" where
  "run_chat r = as_int (dict_get (case ir_config r of None \<Rightarrow> [] | Some cfg \<Rightarrow> cfg) ''chat_id'')"

text \<open>The checkpoint as it is stored, and the rest of a run, which only its creation sets.\<close>

definition point :: "ingestion_run \<Rightarrow> json" where
  "point r = dict_get (run_stats r) ''last_processed_export_msg_id''"

definition opt_json :: "int option \<Rightarrow> json" where
  "opt_json p = (case p of None \<Rightarrow> J_null | Some n \<Rightarrow> J_int n)"

text \<open>The rest of a checkpoint is well formed: \<open>load_checkpoint\<close> reads it back.\<close>

definition marks_ok :: "pylib \<Rightarrow> ingestion_run \<Rightarrow> bool" where
  "marks_ok lib r \<longleftrightarrow>
     (case map_of (run_stats r) (cp ''chunk_index'') of None \<Rightarrow> True | Some v \<Rightarrow> (case v of J_int _ \<Rightarrow> True | _ \<Rightarrow> False)) \<and>
     (case dict_get (run_stats r) ''last_checkpoint_at'' of J_null \<Rightarrow> True
        | J_str t \<Rightarrow> py_fromisoformat lib t \<noteq> None | _ \<Rightarrow> False)"

definition stamps :: "pylib \<Rightarrow> bool" where
  "stamps lib \<longleftrightarrow> (\<forall>t. py_fromisoformat lib (py_isoformat lib t) \<noteq> None)"

definition same_run :: "pylib \<Rightarrow> ingestion_run \<Rightarrow> ingestion_run \<Rightarrow> bool" where
  "same_run lib r r' \<longleftrightarrow> ir_id r' = ir_id r \<and> ir_type r' = ir_type r \<and> ir_source r' = ir_source r \<and> ir_hash r' = ir_hash r \<and>
     ir_started r' = ir_started r \<and> run_chat r' = run_chat r \<and> (stamps lib \<longrightarrow> marks_ok lib r \<longrightarrow> marks_ok lib r')"

lemma same_stats: "run_stats r' = run_stats r \<Longrightarrow> marks_ok lib r' = marks_ok lib r"
  by (simp add: marks_ok_def)

lemma same_run_refl [simp]: "same_run lib r r"
  by (simp add: same_run_def)

lemma same_run_trans: "same_run lib a b \<Longrightarrow> same_run lib b c \<Longrightarrow> same_run lib a c"
  by (simp add: same_run_def)

lemma same_run_view: "same_run lib r r' \<Longrightarrow> run_view (rs0 @ r' # rs1) = run_view (rs0 @ r # rs1)"
  by (simp add: run_view_def same_run_def)

definition only_run :: "int \<Rightarrow> ingestion_run list \<Rightarrow> ingestion_run \<Rightarrow> ingestion_run list \<Rightarrow> bool" where
  "only_run run rs0 r rs1 \<longleftrightarrow> ir_id r = run \<and> run \<notin> ir_id ` (set rs0 \<union> set rs1)"

lemma only_run_same: "only_run run rs0 r rs1 \<Longrightarrow> same_run lib r r' \<Longrightarrow> only_run run rs0 r' rs1"
  by (simp add: only_run_def same_run_def)

lemma update_where_append: "update_where p f (xs @ ys) = update_where p f xs @ update_where p f ys"
  by (simp add: update_where_def)

lemma update_run:
  assumes "only_run run rs0 r rs1"
  shows "update_where (\<lambda>q. ir_id q = run) f (rs0 @ r # rs1) = rs0 @ f r # rs1"
proof -
  have "update_where (\<lambda>q. ir_id q = run) f qs = qs" if "run \<notin> ir_id ` set qs" for qs
    using that by (induction qs) auto
  then show ?thesis using assms by (simp add: only_run_def update_where_append image_Un)
qed

lemma fetch_run:
  assumes "only_run run rs0 r rs1"
  shows "fetch ir_id run (rs0 @ r # rs1) = Some r"
  using assms by (induction rs0) (auto simp: only_run_def fetch_def)

text \<open>Reading a key after a merge.\<close>

lemma cp_inj [simp]: "cp a = cp b \<longleftrightarrow> a = b"
  using inj_map_eq_map [OF inj_of_char [where 'a = nat]] by (simp add: cp_def)

lemma map_of_set_key: "map_of (set_key d e) k = (if k = fst e then Some (snd e) else map_of d k)"
proof -
  have "map_of (map (\<lambda>(k', v). (k', if k' = fst e then snd e else v)) d) k =
      (if k = fst e then map_option (\<lambda>_. snd e) (map_of d k) else map_of d k)"
    by (induction d) auto
  then show ?thesis by (cases e) (auto simp: set_key_def map_add_def split: option.splits)
qed

lemma map_of_merge:
  "map_of (foldl set_key d patch) k = (case map_of (rev patch) k of None \<Rightarrow> map_of d k | Some v \<Rightarrow> Some v)"
  by (induction patch arbitrary: d) (auto simp: map_of_set_key map_add_def split: option.splits)

lemma stats_merge:
  "dict_get (run_stats (r\<lparr>ir_stats := merge_json (ir_stats r) patch\<rparr>)) k =
     (case map_of (rev patch) (cp k) of None \<Rightarrow> dict_get (run_stats r) k | Some v \<Rightarrow> v)"
  by (simp add: run_stats_def merge_json_def dict_get_def map_of_merge split: option.split)

lemma point_checkpoint: "point (r\<lparr>ir_stats := merge_json (ir_stats r) [(cp ''last_processed_export_msg_id'', J_int i),
    (cp ''chunk_index'', k), (cp ''last_checkpoint_at'', t)]\<rparr>) = J_int i"
  unfolding point_def stats_merge by simp

lemma point_final: "point (r\<lparr>ir_stats := merge_json (ir_stats r) (final_stats rep)\<rparr>) = opt_json (rp_last rep)"
  unfolding point_def stats_merge by (simp add: final_stats_def opt_json_def split: option.split)

lemma stats_lookup:
  "map_of (run_stats (r\<lparr>ir_stats := merge_json (ir_stats r) patch\<rparr>)) k =
     (case map_of (rev patch) k of None \<Rightarrow> map_of (run_stats r) k | Some v \<Rightarrow> Some v)"
  by (simp add: run_stats_def merge_json_def map_of_merge split: option.split)

lemma marks_checkpoint:
  "stamps lib \<Longrightarrow> marks_ok lib (r\<lparr>ir_stats := merge_json (ir_stats r) [(cp ''last_processed_export_msg_id'', i),
    (cp ''chunk_index'', J_int k), (cp ''last_checkpoint_at'', J_str (py_isoformat lib now))]\<rparr>)"
  unfolding marks_ok_def stats_merge stats_lookup by (simp add: stamps_def)

lemma marks_final: "marks_ok lib r \<Longrightarrow> marks_ok lib (r\<lparr>ir_stats := merge_json (ir_stats r) (final_stats rep)\<rparr>)"
  unfolding marks_ok_def stats_merge stats_lookup by (simp add: final_stats_def)

lemma chat_config:
  assumes "map_of config (cp ''chat_id'') = None"
  shows "run_chat (r\<lparr>ir_config := merge_json (ir_config r) config\<rparr>) = run_chat r"
proof -
  have "map_of (rev config) (cp ''chat_id'') = None" using assms by (simp add: map_of_eq_None_iff)
  then show ?thesis unfolding run_chat_def by (cases "ir_config r") (simp_all add: merge_json_def dict_get_def map_of_merge)
qed

subsection \<open>The loop\<close>

lemma save_checkpoint_row:
  assumes "only_run run rs0 r rs1"
  shows "\<exists>r'. save_checkpoint lib now run i k (rs0 @ r # rs1) = rs0 @ r' # rs1 \<and> same_run lib r r' \<and>
    ir_status r' = ir_status r \<and> point r' = J_int i"
proof -
  note eq = update_run [OF assms]
  show ?thesis unfolding save_checkpoint_def eq
    by (intro exI conjI) (rule refl, simp add: same_run_def run_chat_def marks_checkpoint, simp, rule point_checkpoint)
qed

text \<open>No error is ever left in the report: the chunk that fails restores the counters it began with.\<close>

lemma loop_errors:
  assumes "run_apply_loop lib digest names now chat run fault k chunks (d, rep) = (err, d', rep')"
  shows "rp_errors rep' = rp_errors rep \<and> rp_error_ids rep' = rp_error_ids rep"
  using assms
proof (induction chunks arbitrary: k d rep)
  case (Cons chunk rest)
  show ?case
  proof (cases "apply_chunk lib digest names chat run (run_view (d_runs d)) fault chunk (None, d_content d, rep)")
    case (Inl p)
    then show ?thesis using Cons.prems by (cases p) (auto simp: restore_report_def)
  next
    case (Inr p)
    then obtain l c rep1 where p: "apply_chunk lib digest names chat run (run_view (d_runs d)) fault chunk (None, d_content d, rep)
        = Inr (l, c, rep1)" by (cases p) auto
    show ?thesis using Cons.IH [where rep = "rep1\<lparr>rp_chunks := rp_chunks rep1 + 1\<rparr>"]
        Cons.IH [where rep = "rep1\<lparr>rp_last := l, rp_chunks := rp_chunks rep1 + 1\<rparr>"] Cons.prems chunk_marks [OF p]
      by (cases l) (auto simp: p same_marks_def)
  qed
qed simp

definition last_id :: "jobject list \<Rightarrow> int option" where
  "last_id ms = as_int (dict_get (last ms) ''id'')"

lemma last_id_Some: "has_ids ms \<Longrightarrow> ms \<noteq> [] \<Longrightarrow> \<exists>i. last_id ms = Some i"
  using last_in_set [of ms] by (auto simp: has_ids_def last_id_def)

lemma loop_progress:
  assumes "run_apply_loop lib digest names now chat run fault k chunks (d, rep) = (err, d', rep')"
    "has_ids (concat chunks)" "[] \<notin> set chunks" "d_runs d = rs0 @ r # rs1"
    "only_run run rs0 r rs1"
  shows "\<exists>a b r'. concat chunks = a @ b \<and> d_runs d' = rs0 @ r' # rs1 \<and> d_next_run d' = d_next_run d \<and> same_run lib r r' \<and>
    ir_status r' = ir_status r \<and>
    foldE (apply_content lib digest names chat run (run_view (d_runs d))) a (d_content d) = Inr (d_content d') \<and>
    (err = None \<longrightarrow> b = []) \<and>
    (if a = [] then point r' = point r \<and> rp_last rep' = rp_last rep
     else point r' = opt_json (last_id a) \<and> rp_last rep' = last_id a)"
  using assms
proof (induction chunks arbitrary: k d rep r)
  case Nil
  then show ?case by (intro exI [of _ "[]"] exI [of _ r]) auto
next
  case (Cons chunk rest)
  show ?case
  proof (cases "apply_chunk lib digest names chat run (run_view (d_runs d)) fault chunk (None, d_content d, rep)")
    case (Inl p)
    then obtain e rep1 where p: "p = (e, rep1)" by (cases p)
    then show ?thesis using Inl Cons.prems
      by (intro exI [of _ "[]"] exI [of _ "concat (chunk # rest)"] exI [of _ r]) (auto simp: restore_report_def)
  next
    case (Inr p)
    then obtain l c rep1 where p: "apply_chunk lib digest names chat run (run_view (d_runs d)) fault chunk (None, d_content d, rep)
        = Inr (l, c, rep1)" by (cases p) auto
    have ne: "chunk \<noteq> []" and ids: "has_ids chunk" "has_ids (concat rest)" "[] \<notin> set rest" using Cons.prems by auto
    note ok = apply_chunk_ok [OF p ids(1)]
    obtain i where i: "last_id chunk = Some i" using last_id_Some [OF ids(1) ne] by blast
    then have l: "l = Some i" using ok ne by (simp add: last_id_def)
    obtain r1 where r1: "save_checkpoint lib now run i k (d_runs d) = rs0 @ r1 # rs1" "same_run lib r r1"
      "ir_status r1 = ir_status r" "point r1 = J_int i"
      using save_checkpoint_row [OF Cons.prems(5), of lib now i k] unfolding Cons.prems(4) by blast
    let ?d = "d\<lparr>d_content := c, d_runs := rs0 @ r1 # rs1\<rparr>"
    let ?rep = "rep1\<lparr>rp_last := Some i, rp_chunks := rp_chunks rep1 + 1\<rparr>"
    have run: "run_apply_loop lib digest names now chat run fault (k + 1) rest (?d, ?rep) = (err, d', rep')"
      using Cons.prems(1) by (simp add: p l r1(1))
    have view: "run_view (d_runs ?d) = run_view (d_runs d)" using same_run_view [OF r1(2)] by (simp add: Cons.prems(4))
    note id1 = only_run_same [OF Cons.prems(5) r1(2)]
    have runs: "d_runs ?d = rs0 @ r1 # rs1" by simp
    obtain a b r' where ab: "concat rest = a @ b" "d_runs d' = rs0 @ r' # rs1" "d_next_run d' = d_next_run ?d"
      "same_run lib r1 r'" "ir_status r' = ir_status r1"
      "foldE (apply_content lib digest names chat run (run_view (d_runs ?d))) a (d_content ?d) = Inr (d_content d')"
      "err = None \<longrightarrow> b = []"
      "if a = [] then point r' = point r1 \<and> rp_last rep' = rp_last ?rep else point r' = opt_json (last_id a) \<and> rp_last rep' = last_id a"
      using Cons.IH [OF run ids(2,3) runs id1] by blast
    have f: "foldE (apply_content lib digest names chat run (run_view (d_runs d))) (chunk @ a) (d_content d) = Inr (d_content d')"
      using ab(6) [unfolded view] ok by (simp add: foldE_append)
    have q: "point r' = opt_json (last_id (chunk @ a)) \<and> rp_last rep' = last_id (chunk @ a)"
      using ab(8) r1(4) i by (cases "a = []") (simp_all add: last_id_def opt_json_def)
    have "chunk @ a \<noteq> []" using ne by simp
    have c: "concat (chunk # rest) = (chunk @ a) @ b" using ab(1) by simp
    have n: "d_next_run d' = d_next_run d" and s: "ir_status r' = ir_status r" using ab(3,5) r1(3) by simp_all
    have q': "if chunk @ a = [] then point r' = point r \<and> rp_last rep' = rp_last rep
        else point r' = opt_json (last_id (chunk @ a)) \<and> rp_last rep' = last_id (chunk @ a)"
      unfolding if_not_P [OF \<open>chunk @ a \<noteq> []\<close>] by (rule q)
    show ?thesis
      by (rule exI [of _ "chunk @ a"], rule exI [of _ b], rule exI [of _ r'])
        (intro conjI c ab(2) n same_run_trans [OF r1(2) ab(4)] s f ab(7) q')
  qed
qed

lemma loop_completes:
  assumes "foldE (apply_content lib digest names chat run (run_view (d_runs d))) (concat chunks) (d_content d) = Inr c"
    "\<And>m. m \<in> set (concat chunks) \<Longrightarrow> \<not> fault m" "has_ids (concat chunks)" "[] \<notin> set chunks"
    "d_runs d = rs0 @ r # rs1" "only_run run rs0 r rs1"
  shows "fst (run_apply_loop lib digest names now chat run fault k chunks (d, rep)) = None"
  using assms
proof (induction chunks arbitrary: k d rep r)
  case (Cons chunk rest)
  obtain c1 where c1: "foldE (apply_content lib digest names chat run (run_view (d_runs d))) chunk (d_content d) = Inr c1"
    "foldE (apply_content lib digest names chat run (run_view (d_runs d))) (concat rest) c1 = Inr c"
    using Cons.prems(1) by (auto simp: foldE_append bindE_Inr_iff)
  obtain l rep1 where p: "apply_chunk lib digest names chat run (run_view (d_runs d)) fault chunk (None, d_content d, rep) = Inr (l, c1, rep1)"
    using apply_chunk_runs [OF c1(1)] Cons.prems(2) by force
  have ne: "chunk \<noteq> []" and ids: "has_ids chunk" "has_ids (concat rest)" "[] \<notin> set rest" using Cons.prems by auto
  obtain i where l: "l = Some i"
    using apply_chunk_ok [OF p ids(1)] last_id_Some [OF ids(1) ne] ne by (auto simp: last_id_def)
  obtain r1 where r1: "save_checkpoint lib now run i k (d_runs d) = rs0 @ r1 # rs1" "same_run lib r r1"
    using save_checkpoint_row [OF Cons.prems(6), of lib now i k] unfolding Cons.prems(5) by blast
  let ?d = "d\<lparr>d_content := c1, d_runs := rs0 @ r1 # rs1\<rparr>"
  have view: "run_view (d_runs ?d) = run_view (d_runs d)" using same_run_view [OF r1(2)] by (simp add: Cons.prems(5))
  note id1 = only_run_same [OF Cons.prems(6) r1(2)]
  show ?case
    using Cons.IH [of ?d r1 "k + 1" "rep1\<lparr>rp_last := Some i, rp_chunks := rp_chunks rep1 + 1\<rparr>"] Cons.prems(2) ids id1 c1(2) view
    by (simp add: p l r1(1))
qed simp

subsection \<open>The messages still to apply\<close>

definition in_order :: "jobject list \<Rightarrow> jobject list" where
  "in_order msgs = sort_key export_id msgs"

lemma has_ids_in_order [simp]: "has_ids (in_order msgs) = has_ids msgs"
  by (simp add: has_ids_def in_order_def)

lemma distinct_in_order: "distinct (map export_id msgs) \<Longrightarrow> distinct (map export_id (in_order msgs))"
  by (metis in_order_def distinct_map distinct_sort set_sort)

lemma export_id_of: "has_ids ms \<Longrightarrow> m \<in> set ms \<Longrightarrow> as_int (dict_get m ''id'') = Some (export_id m)"
  by (auto simp: has_ids_def export_id_def)

lemma distinct_keys:
  assumes "has_ids ms" "distinct (map export_id ms)"
  shows "distinct (map (\<lambda>msg. as_int (dict_get msg ''id'')) ms)"
proof -
  have "map (\<lambda>msg. as_int (dict_get msg ''id'')) ms = map Some (map export_id ms)"
    using export_id_of [OF assms(1)] by simp
  then show ?thesis unfolding \<open>map _ ms = map Some _\<close> using assms(2) by (simp add: distinct_map inj_on_def)
qed

lemma pending_None [simp]: "pending_messages None msgs = in_order msgs"
  by (simp add: pending_messages_def in_order_def)

lemma filter_later:
  assumes "sorted (map key (u @ q))" "distinct (map key (u @ q))" "u \<noteq> []"
  shows "filter (\<lambda>m. key m > (key (last u) :: int)) (u @ q) = q"
proof -
  have "\<not> key m > key (last u)" if "m \<in> set u" for m
  proof -
    obtain v where v: "u = v @ [last u]" using assms(3) by (metis append_butlast_last_id)
    have "sorted (map key (v @ [last u]))" using assms(1) by (simp add: sorted_append flip: v)
    then show ?thesis using that by (subst (asm) v) (auto simp: sorted_append)
  qed
  then have "filter (\<lambda>m. key m > key (last u)) u = []" by (simp add: filter_empty_conv)
  moreover have "key m > key (last u)" if "m \<in> set q" for m
  proof -
    have "key (last u) \<le> key m" using assms(1,3) that by (auto simp: sorted_append)
    moreover have "key (last u) \<noteq> key m"
      using assms(2,3) that last_in_set [OF assms(3)] by (metis IntI distinct_append empty_iff imageI list.set_map map_append)
    ultimately show ?thesis by simp
  qed
  ultimately show ?thesis by simp
qed

lemma pending_last:
  assumes "in_order msgs = u @ q" "has_ids msgs" "distinct (map export_id msgs)" "u \<noteq> []"
  shows "pending_messages (last_id u) msgs = q"
proof -
  have "last u \<in> set (in_order msgs)" using last_in_set [OF assms(4)] assms(1) by simp
  then have "last_id u = Some (export_id (last u))" using export_id_of [of "in_order msgs"] assms(2) by (simp add: last_id_def)
  moreover have "sorted (map export_id (u @ q))" by (simp add: in_order_def flip: assms(1))
  moreover have "distinct (map export_id (u @ q))" using distinct_in_order [OF assms(3)] assms(1) by simp
  ultimately show ?thesis using filter_later [of export_id u q] assms(1,4) by (simp add: pending_messages_def in_order_def Let_def)
qed

lemma pending_ids: "has_ids msgs \<Longrightarrow> has_ids (pending_messages p msgs)"
  by (auto simp: pending_messages_def has_ids_def Let_def split: option.splits)

subsection \<open>The command\<close>

text \<open>The runs of the file: the same source, the same chat.\<close>

definition book :: "string \<Rightarrow> ustr \<Rightarrow> int \<Rightarrow> import_db \<Rightarrow> bool" where
  "book h path chat d \<longleftrightarrow> archive_inv (c_archive (d_content d)) \<and> ids_below ir_id (d_next_run d) (d_runs d) \<and>
     (\<forall>r \<in> set (d_runs d). ir_hash r = Some h \<longrightarrow> ir_source r = Some path \<and> run_chat r = Some chat)"

lemma book_only:
  assumes "book h path chat d" "d_runs d = rs0 @ r # rs1"
  shows "only_run (ir_id r) rs0 r rs1"
proof -
  have "distinct (map ir_id (rs0 @ r # rs1))" using assms by (simp add: book_def ids_below_def)
  then show ?thesis by (auto simp: only_run_def)
qed

text \<open>The run an attempt works on: created, or resumed at its checkpoint.\<close>

definition entered :: "pylib \<Rightarrow> int \<Rightarrow> ustr \<Rightarrow> string \<Rightarrow> int \<Rightarrow> import_db \<Rightarrow> ingestion_run list \<Rightarrow> ingestion_run \<Rightarrow> ingestion_run list \<Rightarrow>
   int option \<Rightarrow> int \<Rightarrow> bool" where
  "entered lib now path h chat d rs0 r rs1 p next \<longleftrightarrow>
     d_runs d = rs0 \<and> rs1 = [] \<and> ir_id r = d_next_run d \<and> ir_type r = R_import \<and> ir_source r = Some path \<and> ir_hash r = Some h \<and>
       ir_started r = now \<and> run_chat r = Some chat \<and> ir_status r = S_running \<and> point r = J_null \<and> (stamps lib \<longrightarrow> marks_ok lib r) \<and> p = None \<and>
       next = d_next_run d + 1 \<and> (find_partial_run_by_hash d h = None \<or>
         (\<exists>q. find_partial_run_by_hash d h = Some q \<and> \<not> partial (ir_status q)))
   \<or> (\<exists>q. d_runs d = rs0 @ q # rs1 \<and> same_run lib q r \<and> find_partial_run_by_hash d h = Some q \<and> partial (ir_status q) \<and>
       ir_status r = ir_status q \<and> point r = point q \<and> point q = opt_json p \<and> next = d_next_run d)"

definition conclude ::
  "pylib \<Rightarrow> digest \<Rightarrow> (ustr \<Rightarrow> export_file option) \<Rightarrow> ustr list \<Rightarrow> invocation \<Rightarrow> int \<Rightarrow> int option \<Rightarrow> import_db \<Rightarrow> nat \<times> import_db" where
  "conclude lib digest files names iv run p d =
     (case run_apply lib digest files names (iv_now iv) (iv_fault iv) run p (iv_chunk iv) d of
        (None, d3, rep) \<Rightarrow> (case finalize_run run S_completed (iv_now iv) d3 of
             Inl _ \<Rightarrow> (1, d3) | Inr d4 \<Rightarrow> (0, save_apply_final_stats run rep d4))
      | (Some e, d3, rep) \<Rightarrow> if iv_killed iv then (137, d3)
          else (case e of Type_error _ \<Rightarrow> 1 | _ \<Rightarrow> 5, finalize_failed_apply run rep (iv_now iv) d3))"

lemma cmd_eq:
  "cmd_import_apply lib digest files names path h chat config iv d =
     (case init_or_resume_run lib (iv_now iv) path h chat (iv_resume iv) d of
        Inl _ \<Rightarrow> (1, d)
      | Inr (Block_partial_present, d1) \<Rightarrow> (3, d)
      | Inr (Start_fresh i, d1) \<Rightarrow> conclude lib digest files names iv i None (save_import_run_config i config d1)
      | Inr (Resume_existing i p, d1) \<Rightarrow> conclude lib digest files names iv i p (save_import_run_config i config d1))"
  unfolding cmd_import_apply_def conclude_def by (simp add: Let_def split: sum.split prod.split decision.split)

lemma save_config_row:
  assumes "only_run run rs0 r rs1" "d_runs d = rs0 @ r # rs1" "map_of config (cp ''chat_id'') = None"
  shows "\<exists>r'. save_import_run_config run config d = d\<lparr>d_runs := rs0 @ r' # rs1\<rparr> \<and> same_run lib r r' \<and>
    ir_status r' = ir_status r \<and> point r' = point r"
proof -
  let ?r = "r\<lparr>ir_config := merge_json (ir_config r) config\<rparr>"
  have "save_import_run_config run config d = d\<lparr>d_runs := rs0 @ ?r # rs1\<rparr>"
    by (simp add: save_import_run_config_def assms(2) update_run [OF assms(1)])
  moreover have "same_run lib r ?r \<and> ir_status ?r = ir_status r \<and> point ?r = point r"
    using same_stats [of ?r r lib] by (simp add: same_run_def chat_config [OF assms(3)] point_def run_stats_def)
  ultimately show ?thesis by blast
qed

lemma load_point:
  assumes "load_checkpoint lib d run = Inr (Some (p, k))" "fetch ir_id run (d_runs d) = Some r"
  shows "point r = opt_json p"
  using assms
  by (auto simp: load_checkpoint_def point_def run_stats_def opt_json_def bindE_Inr_iff Let_def split: json.splits if_splits)

lemma load_Some:
  assumes "load_checkpoint lib d run = Inr q" "fetch ir_id run (d_runs d) = Some r"
  shows "\<exists>p k. q = Some (p, k)"
  using assms by (auto simp: load_checkpoint_def bindE_Inr_iff Let_def)

lemma find_partial_in:
  "find_partial_run_by_hash d h = Some r \<Longrightarrow> r \<in> set (d_runs d) \<and> ir_hash r = Some h \<and> ir_type r = R_import"
  by (auto simp: find_partial_run_by_hash_def dest: latest_by_in)

lemma cmd_resumed:
  assumes b: "book h path chat d" and cfg: "map_of config (cp ''chat_id'') = None"
    and q: "find_partial_run_by_hash d h = Some q" "partial (ir_status q)" "ir_id q = i" and p: "point q = opt_json p"
    and run: "conclude lib digest files names iv i p (save_import_run_config i config d) = (code, d')"
  shows "\<exists>rs0 r rs1. entered lib (iv_now iv) path h chat d rs0 r rs1 p (d_next_run d) \<and>
    conclude lib digest files names iv (ir_id r) p (d\<lparr>d_runs := rs0 @ r # rs1, d_next_run := d_next_run d\<rparr>) = (code, d')"
proof -
  obtain rs0 rs1 where d: "d_runs d = rs0 @ q # rs1"
    using find_partial_in [OF q(1)] by (meson split_list)
  have only: "only_run i rs0 q rs1" using book_only [OF b d] q(3) by simp
  obtain r where r: "save_import_run_config i config d = d\<lparr>d_runs := rs0 @ r # rs1\<rparr>" "same_run lib q r"
    "ir_status r = ir_status q" "point r = point q"
    using save_config_row [OF only d cfg] by blast
  have "ir_id r = i" using r(2) q(3) by (simp add: same_run_def)
  then have "conclude lib digest files names iv (ir_id r) p (d\<lparr>d_runs := rs0 @ r # rs1, d_next_run := d_next_run d\<rparr>) = (code, d')"
    using run r(1) by simp
  moreover have "entered lib (iv_now iv) path h chat d rs0 r rs1 p (d_next_run d)"
    using d r q p by (simp add: entered_def)
  ultimately show ?thesis by blast
qed

lemma cmd_fresh:
  assumes b: "book h path chat d" and cfg: "map_of config (cp ''chat_id'') = None"
    and old: "find_partial_run_by_hash d h = None \<or> (\<exists>q. find_partial_run_by_hash d h = Some q \<and> \<not> partial (ir_status q))"
    and new: "create_fresh_run (iv_now iv) path h chat d = (Start_fresh i, d1)"
    and run: "conclude lib digest files names iv i None (save_import_run_config i config d1) = (code, d')"
  shows "\<exists>rs0 r rs1. entered lib (iv_now iv) path h chat d rs0 r rs1 None (d_next_run d + 1) \<and>
    conclude lib digest files names iv (ir_id r) None (d\<lparr>d_runs := rs0 @ r # rs1, d_next_run := d_next_run d + 1\<rparr>) = (code, d')"
proof -
  obtain q where q: "d1 = d\<lparr>d_runs := d_runs d @ [q], d_next_run := d_next_run d + 1\<rparr>" "i = d_next_run d" "ir_id q = i"
    "ir_type q = R_import" "ir_source q = Some path" "ir_hash q = Some h" "ir_started q = iv_now iv" "run_chat q = Some chat"
    "ir_status q = S_running" "point q = J_null" "marks_ok lib q"
  proof -
    let ?q = "\<lparr>ir_id = d_next_run d, ir_type = R_import, ir_source = Some path, ir_hash = Some h,
        ir_started = iv_now iv, ir_finished = None, ir_status = S_running, ir_stats = None,
        ir_config = Some [(cp ''chat_id'', J_int chat)]\<rparr>"
    have "\<not> list_ex (\<lambda>r. ir_hash r = Some h \<and> ir_status r = S_running) (d_runs d)"
    proof
      assume "list_ex (\<lambda>r. ir_hash r = Some h \<and> ir_status r = S_running) (d_runs d)"
      then show False using new unfolding create_fresh_run_def by (simp only: if_True prod.inject decision.distinct simp_thms)
    qed
    then have "(Start_fresh (d_next_run d), d\<lparr>d_runs := d_runs d @ [?q], d_next_run := d_next_run d + 1\<rparr>) = (Start_fresh i, d1)"
      using new by (simp only: create_fresh_run_def if_False)
    then have "d1 = d\<lparr>d_runs := d_runs d @ [?q], d_next_run := d_next_run d + 1\<rparr>" "i = d_next_run d"
      unfolding prod.inject decision.inject by blast+
    moreover have "run_chat ?q = Some chat" "point ?q = J_null" "marks_ok lib ?q"
      by (simp_all add: run_chat_def point_def run_stats_def dict_get_def as_int_def marks_ok_def)
    ultimately show ?thesis by (intro that [of ?q]) simp_all
  qed
  have only: "only_run i (d_runs d) q []" using b q(2,3) by (auto simp: only_run_def book_def ids_below_def)
  have d1: "d_runs d1 = d_runs d @ q # []" by (simp add: q(1))
  obtain r where r: "save_import_run_config i config d1 = d1\<lparr>d_runs := d_runs d @ r # []\<rparr>" "same_run lib q r"
    "ir_status r = ir_status q" "point r = point q"
    using save_config_row [OF only d1 cfg] by blast
  have "conclude lib digest files names iv (ir_id r) None (d\<lparr>d_runs := d_runs d @ r # [], d_next_run := d_next_run d + 1\<rparr>) = (code, d')"
  proof -
    have "d1\<lparr>d_runs := d_runs d @ r # []\<rparr> = d\<lparr>d_runs := d_runs d @ r # [], d_next_run := d_next_run d + 1\<rparr>"
      by (rule import_db.equality) (simp_all add: q(1))
    then show ?thesis using run r(2) q(3) unfolding r(1) by (simp only: same_run_def)
  qed
  moreover have "entered lib (iv_now iv) path h chat d (d_runs d) r [] None (d_next_run d + 1)"
    using r q old by (simp add: entered_def same_run_def)
  ultimately show ?thesis by blast
qed

lemma cmd_entry:
  assumes run: "cmd_import_apply lib digest files names path h chat config iv d = (code, d')"
    and b: "book h path chat d" and cfg: "map_of config (cp ''chat_id'') = None"
  shows "code \<noteq> 0 \<and> d' = d \<or> (\<exists>rs0 r rs1 p next. entered lib (iv_now iv) path h chat d rs0 r rs1 p next \<and>
    conclude lib digest files names iv (ir_id r) p (d\<lparr>d_runs := rs0 @ r # rs1, d_next_run := next\<rparr>) = (code, d'))"
proof (cases "init_or_resume_run lib (iv_now iv) path h chat (iv_resume iv) d")
  case (Inl e)
  then show ?thesis using run by (simp add: cmd_eq)
next
  case (Inr x)
  then obtain dec d1 where init: "init_or_resume_run lib (iv_now iv) path h chat (iv_resume iv) d = Inr (dec, d1)" by (cases x) auto
  show ?thesis
  proof (cases dec)
    case Block_partial_present
    then show ?thesis using run init by (simp add: cmd_eq)
  next
    case (Resume_existing i p)
    then obtain q where q1: "find_partial_run_by_hash d h = Some q" "partial (ir_status q)"
      "bindE (load_checkpoint lib d (ir_id q)) (\<lambda>chk. Inr (Resume_existing (ir_id q)
         (case chk of None \<Rightarrow> None | Some (p, _) \<Rightarrow> p), d)) = Inr (Resume_existing i p, d1)"
      using init by (auto simp: init_or_resume_run_def create_fresh_run_def split: option.splits if_splits)
    obtain chk where chk: "load_checkpoint lib d (ir_id q) = Inr chk"
      "Inr (Resume_existing (ir_id q) (case chk of None \<Rightarrow> None | Some (p, _) \<Rightarrow> p), d) = Inr (Resume_existing i p, d1)"
      using q1(3) unfolding bindE_Inr_iff by blast
    have q: "find_partial_run_by_hash d h = Some q" "partial (ir_status q)" "ir_id q = i" "d1 = d"
      "load_checkpoint lib d i = Inr chk" "p = (case chk of None \<Rightarrow> None | Some (p', _) \<Rightarrow> p')"
      using q1(1,2) chk by simp_all
    have "fetch ir_id i (d_runs d) = Some q"
      using find_partial_in [OF q(1)] q(3) b by (auto simp: book_def ids_below_def intro: fetch_distinct)
    then have "point q = opt_json p" using load_Some [OF q(5)] load_point [of lib d i _ _ q] q(5,6) by auto
    from cmd_resumed [OF b cfg q(1-3) this] show ?thesis
      using run init Resume_existing q(4) by (fastforce simp: cmd_eq)
  next
    case (Start_fresh i)
    then have "(find_partial_run_by_hash d h = None \<or> (\<exists>q. find_partial_run_by_hash d h = Some q \<and> \<not> partial (ir_status q))) \<and>
        create_fresh_run (iv_now iv) path h chat d = (Start_fresh i, d1)"
      using init by (auto simp: init_or_resume_run_def bindE_Inr_iff split: option.splits if_splits)
    then show ?thesis using cmd_fresh [OF b cfg, of iv i d1] run init Start_fresh by (fastforce simp: cmd_eq)
  qed
qed

text \<open>The checks before the loop, on the runs of the book.\<close>

definition importable :: "export_file \<Rightarrow> ustr \<Rightarrow> ustr list \<Rightarrow> bool" where
  "importable f path names \<longleftrightarrow> path \<noteq> [] \<and> \<not> ((case f of Html_export _ \<Rightarrow> True | _ \<Rightarrow> False) \<and> names = [])"

lemma prepare_run:
  assumes "fetch ir_id run (d_runs d) = Some r" "run_chat r = Some chat" "ir_source r = Some path"
    "files path = Some f" "iter_export_messages f = Inr msgs"
  shows "(\<exists>e. prepare_apply files names run d = Inl e) \<and> \<not> importable f path names \<or>
    prepare_apply files names run d = Inr (chat, msgs) \<and> importable f path names"
  using assms by (cases path) (simp_all add: prepare_apply_def importable_def or_empty_def run_chat_def)

lemma final_stats_row:
  assumes "only_run run rs0 r rs1" "d_runs d = rs0 @ r # rs1"
  shows "\<exists>r'. save_apply_final_stats run rep d = d\<lparr>d_runs := rs0 @ r' # rs1\<rparr> \<and> same_run lib r r' \<and>
    ir_status r' = ir_status r \<and> point r' = opt_json (rp_last rep)"
proof -
  let ?r = "r\<lparr>ir_stats := merge_json (ir_stats r) (final_stats rep)\<rparr>"
  have "save_apply_final_stats run rep d = d\<lparr>d_runs := rs0 @ ?r # rs1\<rparr>"
    by (simp add: save_apply_final_stats_def assms(2) update_run [OF assms(1)])
  moreover have "same_run lib r ?r \<and> ir_status ?r = ir_status r"
    using marks_final by (simp add: same_run_def run_chat_def)
  ultimately show ?thesis using point_final by blast
qed

lemma finalize_row:
  assumes "only_run run rs0 r rs1" "d_runs d = rs0 @ r # rs1" "partial (ir_status r)"
  shows "\<exists>r'. finalize_run run st now d = Inr (d\<lparr>d_runs := rs0 @ r' # rs1\<rparr>) \<and> same_run lib r r' \<and>
    ir_status r' = st \<and> point r' = point r"
proof -
  let ?r = "r\<lparr>ir_status := st, ir_finished := (case ir_finished r of None \<Rightarrow> Some now | Some t \<Rightarrow> Some t)\<rparr>"
  have "finalize_run run st now d = Inr (d\<lparr>d_runs := rs0 @ ?r # rs1\<rparr>)"
    using assms(3) by (auto simp: finalize_run_def assms(2) update_run [OF assms(1)] fetch_run [OF assms(1)] partial_def)
  moreover have "same_run lib r ?r \<and> ir_status ?r = st \<and> point ?r = point r"
    using same_stats [of ?r r lib] by (simp add: same_run_def run_chat_def point_def run_stats_def)
  ultimately show ?thesis by blast
qed

text \<open>What an attempt leaves: a longer prefix applied, its checkpoint, and the status of the run.\<close>

definition left ::
  "pylib \<Rightarrow> ingestion_run \<Rightarrow> jobject list \<Rightarrow> nat \<Rightarrow> ingestion_run \<Rightarrow> bool" where
  "left lib r a code r' \<longleftrightarrow> same_run lib r r' \<and>
     (if code = 0 then ir_status r' = S_completed
      else partial (ir_status r') \<and> (if a = [] then point r' = point r \<or> point r' = J_null else point r' = opt_json (last_id a)))"

lemma failed_row:
  assumes "only_run run rs0 r rs1" "d_runs d = rs0 @ r # rs1" "partial (ir_status r)"
  shows "\<exists>r'. finalize_failed_apply run rep now d = d\<lparr>d_runs := rs0 @ r' # rs1\<rparr> \<and> same_run lib r r' \<and>
    ir_status r' = S_failed \<and> point r' = opt_json (rp_last rep)"
proof -
  obtain r1 where r1: "save_apply_final_stats run rep d = d\<lparr>d_runs := rs0 @ r1 # rs1\<rparr>" "same_run lib r r1"
    "ir_status r1 = ir_status r" "point r1 = opt_json (rp_last rep)"
    using final_stats_row [OF assms(1,2)] by blast
  have "d_runs (d\<lparr>d_runs := rs0 @ r1 # rs1\<rparr>) = rs0 @ r1 # rs1" "partial (ir_status r1)" using r1(3) assms(3) by simp_all
  from finalize_row [where lib = lib and st = S_failed and now = now, OF only_run_same [OF assms(1) r1(2)] this] obtain r' where
    "finalize_run run S_failed now (d\<lparr>d_runs := rs0 @ r1 # rs1\<rparr>) = Inr (d\<lparr>d_runs := rs0 @ r' # rs1\<rparr>)"
    "same_run lib r1 r'" "ir_status r' = S_failed" "point r' = point r1" by auto
  then show ?thesis using r1 same_run_trans [OF r1(2)] by (auto simp: finalize_failed_apply_def)
qed

lemma completed_row:
  assumes "only_run run rs0 r rs1" "d_runs d = rs0 @ r # rs1" "partial (ir_status r)"
  shows "\<exists>d4 r'. finalize_run run S_completed now d = Inr d4 \<and>
    save_apply_final_stats run rep d4 = d\<lparr>d_runs := rs0 @ r' # rs1\<rparr> \<and> same_run lib r r' \<and> ir_status r' = S_completed"
proof -
  obtain r1 where r1: "finalize_run run S_completed now d = Inr (d\<lparr>d_runs := rs0 @ r1 # rs1\<rparr>)" "same_run lib r r1"
    "ir_status r1 = S_completed"
    using finalize_row [OF assms] by blast
  have "d_runs (d\<lparr>d_runs := rs0 @ r1 # rs1\<rparr>) = rs0 @ r1 # rs1" by simp
  from final_stats_row [OF only_run_same [OF assms(1) r1(2)] this, of rep] obtain r' where
    "save_apply_final_stats run rep (d\<lparr>d_runs := rs0 @ r1 # rs1\<rparr>) = d\<lparr>d_runs := rs0 @ r' # rs1\<rparr>"
    "same_run lib r1 r'" "ir_status r' = ir_status r1" by auto
  then show ?thesis using r1 same_run_trans [OF r1(2)] by auto
qed

lemma conclude_progress:
  assumes run: "conclude lib digest files names iv run p d = (code, d')"
    and only: "only_run run rs0 r rs1" and d: "d_runs d = rs0 @ r # rs1"
    and r: "run_chat r = Some chat" "ir_source r = Some path" "partial (ir_status r)"
    and f: "files path = Some f" "iter_export_messages f = Inr msgs" "has_ids msgs" and chunk: "0 < iv_chunk iv"
  shows "\<exists>a b r'. pending_messages p msgs = a @ b \<and> d_runs d' = rs0 @ r' # rs1 \<and> d_next_run d' = d_next_run d \<and>
    left lib r a code r' \<and> (code = 0 \<longrightarrow> b = [] \<and> importable f path names) \<and>
    foldE (apply_content lib digest names chat run (run_view (d_runs d))) a (d_content d) = Inr (d_content d')"
proof -
  have fetch: "fetch ir_id run (d_runs d) = Some r" using fetch_run [OF only] by (simp add: d)
  obtain err d3 rep where ap: "run_apply lib digest files names (iv_now iv) (iv_fault iv) run p (iv_chunk iv) d = (err, d3, rep)"
    by (cases "run_apply lib digest files names (iv_now iv) (iv_fault iv) run p (iv_chunk iv) d") auto
  have "\<exists>a b r3. pending_messages p msgs = a @ b \<and> d_runs d3 = rs0 @ r3 # rs1 \<and> d_next_run d3 = d_next_run d \<and> same_run lib r r3 \<and>
    ir_status r3 = ir_status r \<and>
    foldE (apply_content lib digest names chat run (run_view (d_runs d))) a (d_content d) = Inr (d_content d3) \<and>
    (err = None \<longrightarrow> b = [] \<and> importable f path names) \<and>
    (if a = [] then point r3 = point r \<and> rp_last rep = None else point r3 = opt_json (last_id a) \<and> rp_last rep = last_id a)"
  proof (cases "prepare_apply files names run d")
    case (Inl e)
    then have "err = Some e" "d3 = d" "rep = empty_report names" using ap by (simp_all add: run_apply_def)
    then show ?thesis using d
      by (intro exI [of _ "[]"] exI [of _ "pending_messages p msgs"] exI [of _ r]) (simp add: empty_report_def)
  next
    case (Inr x)
    then have prep: "prepare_apply files names run d = Inr (chat, msgs)" "importable f path names"
      using prepare_run [where files = files and names = names, OF fetch r(1,2) f(1,2)] by auto
    let ?todo = "pending_messages p msgs" and ?rep = "(empty_report names)\<lparr>rp_resume := length msgs - length (pending_messages p msgs)\<rparr>"
    have loop: "run_apply_loop lib digest names (iv_now iv) chat run (iv_fault iv) 0 (chunks_of (iv_chunk iv) ?todo) (d, ?rep) = (err, d3, rep)"
      using ap by (simp add: run_apply_def prep(1) Let_def)
    have ids: "has_ids (concat (chunks_of (iv_chunk iv) ?todo))" using pending_ids [OF f(3)] by (simp add: concat_chunks [OF chunk])
    note loop' = loop_progress [OF loop ids chunks_nonempty d only, unfolded concat_chunks [OF chunk]]
    have "rp_last ?rep = None" by (simp add: empty_report_def)
    then show ?thesis using loop' prep(2) unfolding \<open>rp_last ?rep = None\<close> by blast
  qed
  then obtain a b r3 where p3: "pending_messages p msgs = a @ b" "d_runs d3 = rs0 @ r3 # rs1" "d_next_run d3 = d_next_run d" "same_run lib r r3"
    "ir_status r3 = ir_status r"
    "foldE (apply_content lib digest names chat run (run_view (d_runs d))) a (d_content d) = Inr (d_content d3)"
    "err = None \<longrightarrow> b = [] \<and> importable f path names"
    "if a = [] then point r3 = point r \<and> rp_last rep = None else point r3 = opt_json (last_id a) \<and> rp_last rep = last_id a"
    by blast
  have only3: "only_run run rs0 r3 rs1" and part3: "partial (ir_status r3)"
    using only_run_same [OF only p3(4)] r(3) p3(5) by simp_all
  have "\<exists>r'. d' = d3\<lparr>d_runs := rs0 @ r' # rs1\<rparr> \<and> left lib r a code r' \<and> (code = 0 \<longrightarrow> err = None)"
  proof (cases err)
    case None
    obtain d4 r' where r': "finalize_run run S_completed (iv_now iv) d3 = Inr d4"
      "save_apply_final_stats run rep d4 = d3\<lparr>d_runs := rs0 @ r' # rs1\<rparr>" "same_run lib r3 r'" "ir_status r' = S_completed"
      using completed_row [OF only3 p3(2) part3] by blast
    have "code = 0 \<and> d' = d3\<lparr>d_runs := rs0 @ r' # rs1\<rparr>" using run r'(1,2) by (simp add: conclude_def ap None)
    then show ?thesis using r'(4) same_run_trans [OF p3(4) r'(3)] None by (auto simp: left_def)
  next
    case (Some e)
    show ?thesis
    proof (cases "iv_killed iv")
      case True
      then have "code = 137 \<and> d' = d3" using run by (simp add: conclude_def ap Some)
      then show ?thesis using p3(2,4,8) part3 by (intro exI [of _ r3]) (auto simp: left_def)
    next
      case False
      obtain r' where r': "finalize_failed_apply run rep (iv_now iv) d3 = d3\<lparr>d_runs := rs0 @ r' # rs1\<rparr>" "same_run lib r3 r'"
        "ir_status r' = S_failed" "point r' = opt_json (rp_last rep)"
        using failed_row [OF only3 p3(2) part3] by blast
      have "code = (case e of Type_error _ \<Rightarrow> 1 | _ \<Rightarrow> 5)" "d' = d3\<lparr>d_runs := rs0 @ r' # rs1\<rparr>"
        using run r'(1) False by (simp_all add: conclude_def ap Some)
      moreover have "(case e of Type_error _ \<Rightarrow> 1 | _ \<Rightarrow> 5) \<noteq> (0 :: nat)" by (cases e) simp_all
      ultimately show ?thesis using r'(3,4) p3(8) same_run_trans [OF p3(4) r'(2)]
        by (cases "a = []") (auto simp: left_def partial_def opt_json_def)
    qed
  qed
  then obtain r' where "d' = d3\<lparr>d_runs := rs0 @ r' # rs1\<rparr>" "left lib r a code r'" "code = 0 \<longrightarrow> err = None" by blast
  then show ?thesis using p3(1,3,6,7)
    by (intro exI [of _ a] exI [of _ b] exI [of _ r']) auto
qed

definition undisturbed :: "invocation \<Rightarrow> bool" where
  "undisturbed iv \<longleftrightarrow> 0 < iv_chunk iv \<and> (\<forall>m. \<not> iv_fault iv m)"

lemma conclude_completes:
  assumes only: "only_run run rs0 r rs1" and d: "d_runs d = rs0 @ r # rs1"
    and r: "run_chat r = Some chat" "ir_source r = Some path" "partial (ir_status r)"
    and f: "files path = Some f" "iter_export_messages f = Inr msgs" "has_ids msgs" "importable f path names"
    and quiet: "undisturbed iv"
    and done_: "foldE (apply_content lib digest names chat run (run_view (d_runs d))) (pending_messages p msgs) (d_content d) = Inr c"
  shows "fst (conclude lib digest files names iv run p d) = 0"
proof -
  have chunk: "0 < iv_chunk iv" and fault: "\<And>m. \<not> iv_fault iv m" using quiet by (simp_all add: undisturbed_def)
  have fetch: "fetch ir_id run (d_runs d) = Some r" using fetch_run [OF only] by (simp add: d)
  have prep: "prepare_apply files names run d = Inr (chat, msgs)"
    using prepare_run [where files = files and names = names, OF fetch r(1,2) f(1,2)] f(4) by auto
  let ?todo = "pending_messages p msgs" and ?rep = "(empty_report names)\<lparr>rp_resume := length msgs - length (pending_messages p msgs)\<rparr>"
  have ids: "has_ids (concat (chunks_of (iv_chunk iv) ?todo))" using pending_ids [OF f(3)] by (simp add: concat_chunks [OF chunk])
  have fold: "foldE (apply_content lib digest names chat run (run_view (d_runs d))) (concat (chunks_of (iv_chunk iv) ?todo)) (d_content d) = Inr c"
    using done_ by (simp add: concat_chunks [OF chunk])
  obtain d3 rep where ap: "run_apply lib digest files names (iv_now iv) (iv_fault iv) run p (iv_chunk iv) d = (None, d3, rep)"
    using loop_completes [where now = "iv_now iv" and k = 0 and rep = ?rep and fault = "iv_fault iv", OF fold fault ids chunks_nonempty d only]
    by (cases "run_apply lib digest files names (iv_now iv) (iv_fault iv) run p (iv_chunk iv) d") (simp add: run_apply_def prep Let_def)
  have "\<exists>r3. d_runs d3 = rs0 @ r3 # rs1 \<and> same_run lib r r3 \<and> ir_status r3 = ir_status r"
  proof -
    have "run_apply_loop lib digest names (iv_now iv) chat run (iv_fault iv) 0 (chunks_of (iv_chunk iv) ?todo) (d, ?rep) = (None, d3, rep)"
      using ap by (simp add: run_apply_def prep Let_def)
    from loop_progress [OF this ids chunks_nonempty d only] show ?thesis by blast
  qed
  then obtain r3 where r3: "d_runs d3 = rs0 @ r3 # rs1" "same_run lib r r3" "ir_status r3 = ir_status r" by blast
  have "partial (ir_status r3)" using r3(3) r(3) by simp
  from completed_row [where now = "iv_now iv" and rep = rep and lib = lib, OF only_run_same [OF only r3(2)] r3(1) this] show ?thesis by (auto simp: conclude_def ap)
qed

end
