(* ===== verification/ImportAttempts.thy ===== *)
theory ImportAttempts
  imports ImportRuns
begin

section \<open>Interrupted and resumed imports\<close>

text \<open>
  An import as the sequence of commands an operator issues until one exits with 0: each is undisturbed, fails
  or is killed at some message.  The run is under way after a failure and finished after the first success.
\<close>

subsection \<open>An import over several attempts\<close>

definition import_attempts ::
  "pylib \<Rightarrow> digest \<Rightarrow> (ustr \<Rightarrow> export_file option) \<Rightarrow> ustr list \<Rightarrow> ustr \<Rightarrow> string \<Rightarrow> int \<Rightarrow> jobject \<Rightarrow> invocation list \<Rightarrow>
   import_db \<Rightarrow> nat \<times> import_db" where
  "import_attempts lib digest files names path h chat config ivs d =
     foldl (\<lambda>st iv. cmd_import_apply lib digest files names path h chat config iv (snd st)) (0, d) ivs"

text \<open>An import begun on \<open>d0\<close> at \<open>now\<close>: what the messages are applied by, its states, and its end.\<close>

definition import_step ::
  "pylib \<Rightarrow> digest \<Rightarrow> ustr list \<Rightarrow> int \<Rightarrow> int \<Rightarrow> import_db \<Rightarrow> jobject \<Rightarrow> content \<Rightarrow> import_error + content" where
  "import_step lib digest names chat now d0 = apply_content lib digest names chat (d_next_run d0)
     (run_view (d_runs d0) @ [(d_next_run d0, R_import, now)])"

definition begun :: "int \<Rightarrow> ustr \<Rightarrow> string \<Rightarrow> int \<Rightarrow> import_db \<Rightarrow> ingestion_run \<Rightarrow> bool" where
  "begun now path h chat d0 r \<longleftrightarrow> ir_id r = d_next_run d0 \<and> ir_type r = R_import \<and> ir_source r = Some path \<and>
     ir_hash r = Some h \<and> ir_started r = now \<and> run_chat r = Some chat"

definition under_way ::
  "pylib \<Rightarrow> digest \<Rightarrow> ustr list \<Rightarrow> int \<Rightarrow> ustr \<Rightarrow> string \<Rightarrow> int \<Rightarrow> jobject list \<Rightarrow> import_db \<Rightarrow> import_db \<Rightarrow> bool" where
  "under_way lib digest names now path h chat msgs d0 d \<longleftrightarrow> (\<exists>r a rest p u q.
     d_runs d = d_runs d0 @ [r] \<and> d_next_run d = d_next_run d0 + 1 \<and> begun now path h chat d0 r \<and> partial (ir_status r) \<and>
     (stamps lib \<longrightarrow> marks_ok lib r) \<and> in_order msgs = a @ rest \<and> foldE (import_step lib digest names chat now d0) a (d_content d0) = Inr (d_content d) \<and>
     point r = opt_json p \<and> in_order msgs = u @ q \<and> pending_messages p msgs = q \<and> length u \<le> length a)"

definition finished ::
  "pylib \<Rightarrow> digest \<Rightarrow> ustr list \<Rightarrow> int \<Rightarrow> ustr \<Rightarrow> string \<Rightarrow> int \<Rightarrow> export_file \<Rightarrow> jobject list \<Rightarrow> import_db \<Rightarrow> import_db \<Rightarrow> bool" where
  "finished lib digest names now path h chat f msgs d0 d \<longleftrightarrow> book h path chat d \<and> importable f path names \<and>
     foldE (import_step lib digest names chat now d0) (in_order msgs) (d_content d0) = Inr (d_content d)"

text \<open>A fresh file: no run has its hash or its path.\<close>

definition fresh_file :: "string \<Rightarrow> ustr \<Rightarrow> import_db \<Rightarrow> bool" where
  "fresh_file h path d \<longleftrightarrow> archive_inv (c_archive (d_content d)) \<and> ids_below ir_id (d_next_run d) (d_runs d) \<and>
     (\<forall>r \<in> set (d_runs d). ir_hash r \<noteq> Some h \<and> ir_source r \<noteq> Some path)"

lemma begun_same: "begun now path h chat d0 r \<Longrightarrow> same_run lib r r' \<Longrightarrow> begun now path h chat d0 r'"
  by (simp add: begun_def same_run_def)

lemma begun_view: "begun now path h chat d0 r \<Longrightarrow> run_view (d_runs d0 @ [r]) = run_view (d_runs d0) @ [(d_next_run d0, R_import, now)]"
  by (simp add: begun_def run_view_def)

lemma begun_only: "fresh_file h path d0 \<Longrightarrow> begun now path h chat d0 r \<Longrightarrow> only_run (d_next_run d0) (d_runs d0) r []"
  by (auto simp: fresh_file_def begun_def only_run_def ids_below_def)

lemma begun_book:
  assumes "fresh_file h path d0" "begun now path h chat d0 r" "d_runs d = d_runs d0 @ [r]" "d_next_run d = d_next_run d0 + 1"
    "archive_inv (c_archive (d_content d))"
  shows "book h path chat d"
  using assms ids_below_append [of ir_id "d_next_run d0" "d_runs d0" r] by (auto simp: book_def fresh_file_def begun_def)

lemma begun_found:
  assumes "fresh_file h path d0" "begun now path h chat d0 r" "d_runs d = d_runs d0 @ [r]"
  shows "find_partial_run_by_hash d h = Some r"
proof -
  have "filter (\<lambda>r. ir_hash r = Some h \<and> ir_type r = R_import) (d_runs d0) = []"
    using assms(1) by (auto simp: fresh_file_def filter_empty_conv)
  then show ?thesis using assms(2,3) by (simp add: find_partial_run_by_hash_def begun_def)
qed

text \<open>One attempt on the run: a longer prefix is applied, or all of it.\<close>

lemma attempt_progress:
  assumes fresh: "fresh_file h path d0" and b: "begun now path h chat d0 r" and st: "partial (ir_status r)" "point r = opt_json p"
    and marks: "stamps lib \<longrightarrow> marks_ok lib r" and d: "d_runs d = d_runs d0 @ [r]" "d_next_run d = d_next_run d0 + 1"
    and f: "files path = Some f" "iter_export_messages f = Inr msgs" "has_ids msgs" "distinct (map export_id msgs)"
    and chunk: "0 < iv_chunk iv"
    and a: "in_order msgs = a @ rest" "foldE (import_step lib digest names chat now d0) a (d_content d0) = Inr (d_content d)"
    and u: "in_order msgs = u @ q" "pending_messages p msgs = q" "length u \<le> length a"
    and run: "conclude lib digest files names iv (ir_id r) p d = (code, d')"
  shows "if code = 0 then finished lib digest names now path h chat f msgs d0 d' else under_way lib digest names now path h chat msgs d0 d'"
proof -
  have id: "ir_id r = d_next_run d0" and chat: "run_chat r = Some chat" "ir_source r = Some path" using b by (simp_all add: begun_def)
  have only: "only_run (ir_id r) (d_runs d0) r []" using begun_only [OF fresh b] by (simp add: id)
  have step: "apply_content lib digest names chat (ir_id r) (run_view (d_runs d)) = import_step lib digest names chat now d0"
    by (simp add: import_step_def id d(1) begun_view [OF b])
  have ok: "archive_inv (c_archive (d_content d0))" using fresh by (simp add: fresh_file_def)
  note keys = distinct_keys [of "in_order msgs", OF _ distinct_in_order [OF f(4)], unfolded has_ids_in_order, OF f(3)]
  obtain v w r' where pr: "q = v @ w" "d_runs d' = d_runs d0 @ [r']" "d_next_run d' = d_next_run d"
    "left lib r v code r'" "code = 0 \<longrightarrow> w = [] \<and> importable f path names"
    "foldE (import_step lib digest names chat now d0) v (d_content d) = Inr (d_content d')"
    using conclude_progress [OF run only d(1) chat st(1) f(1,2,3) chunk] unfolding u(2) step by blast
  have "in_order msgs = u @ v @ w" using u(1) pr(1) by simp
  from imp.resume [OF ok a(2) [unfolded import_step_def] keys a(1) this u(3) pr(6) [unfolded import_step_def]]
  obtain a' rest' where a': "in_order msgs = a' @ rest'" "length (u @ v) \<le> length a'" "w = [] \<longrightarrow> rest' = []"
    "foldE (import_step lib digest names chat now d0) a' (d_content d0) = Inr (d_content d')"
    by (auto simp: import_step_def)
  have marks': "stamps lib \<longrightarrow> marks_ok lib r'" using marks pr(4) by (simp add: left_def same_run_def)
  have b': "begun now path h chat d0 r'" using begun_same [where lib = lib, OF b] pr(4) by (simp add: left_def)
  have next': "d_next_run d' = d_next_run d0 + 1" using pr(3) d(2) by simp
  show ?thesis
  proof (cases "code = 0")
    case True
    have "archive_inv (c_archive (d_content d'))"
      using imp.fold_ok [OF ok a'(4) [unfolded import_step_def]] .
    then show ?thesis
      using True pr(5) a'(1,3,4) begun_book [OF fresh b' pr(2) next'] by (simp add: finished_def)
  next
    case False
    then have part': "partial (ir_status r')" and point':
        "if v = [] then point r' = point r \<or> point r' = J_null else point r' = opt_json (last_id v)"
      using pr(4) by (simp_all add: left_def)
    have "\<exists>p u q. point r' = opt_json p \<and> in_order msgs = u @ q \<and> pending_messages p msgs = q \<and> length u \<le> length a'"
    proof (cases "v = []")
      case True
      then consider "point r' = point r" | "point r' = J_null" using point' by auto
      then show ?thesis
      proof cases
        case 1
        then show ?thesis using st(2) u(1,2) a'(2) True by (intro exI [of _ p] exI [of _ u] exI [of _ q]) simp
      next
        case 2
        then show ?thesis by (intro exI [of _ None] exI [of _ "[]"] exI [of _ "in_order msgs"]) (simp add: opt_json_def)
      qed
    next
      case v: False
      have split: "in_order msgs = (u @ v) @ w" using u(1) pr(1) by simp
      have "last_id (u @ v) = last_id v" using v by (simp add: last_id_def)
      then show ?thesis using point' v pending_last [OF split f(3,4)] split a'(2)
        by (intro exI [of _ "last_id v"] exI [of _ "u @ v"] exI [of _ w]) simp
    qed
    then show ?thesis using False pr(2) next' b' part' marks' a'(1,4) unfolding under_way_def by (simp only: if_False) blast
  qed
qed

lemma under_way_step:
  assumes fresh: "fresh_file h path d0" and w: "under_way lib digest names now path h chat msgs d0 d"
    and f: "files path = Some f" "iter_export_messages f = Inr msgs" "has_ids msgs" "distinct (map export_id msgs)"
    and chunk: "0 < iv_chunk iv" and cfg: "map_of config (cp ''chat_id'') = None"
    and run: "cmd_import_apply lib digest files names path h chat config iv d = (code, d')"
  shows "if code = 0 then finished lib digest names now path h chat f msgs d0 d' else under_way lib digest names now path h chat msgs d0 d'"
proof -
  obtain r a rest p u q where s: "d_runs d = d_runs d0 @ [r]" "d_next_run d = d_next_run d0 + 1" "begun now path h chat d0 r"
    "partial (ir_status r)" "in_order msgs = a @ rest"
    "foldE (import_step lib digest names chat now d0) a (d_content d0) = Inr (d_content d)"
    "point r = opt_json p" "in_order msgs = u @ q" "pending_messages p msgs = q" "length u \<le> length a"
    "stamps lib \<longrightarrow> marks_ok lib r"
    using w unfolding under_way_def by blast
  have ok: "archive_inv (c_archive (d_content d0))" using fresh by (simp add: fresh_file_def)
  have "archive_inv (c_archive (d_content d))" using imp.fold_ok [OF ok s(6) [unfolded import_step_def]] .
  then have bk: "book h path chat d" by (rule begun_book [OF fresh s(3,1,2)])
  note found = begun_found [OF fresh s(3,1)]
  show ?thesis
  proof (cases "code \<noteq> 0 \<and> d' = d")
    case True
    then show ?thesis using w by simp
  next
    case False
    then obtain rs0 r1 rs1 p1 n where e: "entered lib (iv_now iv) path h chat d rs0 r1 rs1 p1 n"
      "conclude lib digest files names iv (ir_id r1) p1 (d\<lparr>d_runs := rs0 @ r1 # rs1, d_next_run := n\<rparr>) = (code, d')"
      using cmd_entry [OF run bk cfg] by blast
    have same: "d_runs d = rs0 @ r # rs1" "same_run lib r r1" "ir_status r1 = ir_status r" "point r1 = point r"
      "point r = opt_json p1" "n = d_next_run d"
      using e(1) found s(4) by (auto simp: entered_def)
    have "only_run (ir_id r) rs0 r rs1" by (rule book_only [OF bk same(1)])
    then have "r \<notin> set rs0" "r \<notin> set rs1" by (auto simp: only_run_def)
    then have "rs0 = d_runs d0 \<and> rs1 = []" using same(1) s(1) append_Cons_eq_iff [of r rs0 rs1 "d_runs d0" "[]"] by simp
    then have d1: "d\<lparr>d_runs := rs0 @ r1 # rs1, d_next_run := n\<rparr> = d\<lparr>d_runs := d_runs d0 @ [r1]\<rparr>" using same(6) by simp
    have "stamps lib \<longrightarrow> marks_ok lib r1" using s(11) same(2) by (simp add: same_run_def)
    moreover have "p1 = p" using same(5) s(7) by (auto simp: opt_json_def split: option.splits)
    ultimately show ?thesis
      using attempt_progress [where d = "d\<lparr>d_runs := d_runs d0 @ [r1]\<rparr>" and p = p and files = files and f = f and msgs = msgs and
          iv = iv and a = a and rest = rest and u = u and q = q and code = code and d' = d' and lib = lib and digest = digest and
          names = names, OF fresh begun_same [OF s(3) same(2)]] e(2) s f chunk same(3,4) by (simp add: d1)
  qed
qed

text \<open>The first attempt creates the run.\<close>

lemma fresh_init:
  assumes fresh: "fresh_file h path d0"
  shows "find_partial_run_by_hash d0 h = None \<and>
    (\<exists>d1. init_or_resume_run lib now path h chat resume d0 = Inr (Start_fresh (d_next_run d0), d1) \<and>
      create_fresh_run now path h chat d0 = (Start_fresh (d_next_run d0), d1))"
proof -
  have none: "find_partial_run_by_hash d0 h = None" "find_partial_run_by_path d0 path = None"
    using fresh by (auto simp: fresh_file_def find_partial_run_by_hash_def find_partial_run_by_path_def filter_empty_conv)
  have "\<not> list_ex (\<lambda>r. ir_hash r = Some h \<and> ir_status r = S_running) (d_runs d0)"
    using fresh by (auto simp: fresh_file_def list_ex_iff)
  then have "\<exists>d1. create_fresh_run now path h chat d0 = (Start_fresh (d_next_run d0), d1)"
    by (simp add: create_fresh_run_def)
  then show ?thesis using none by (auto simp: init_or_resume_run_def)
qed

lemma start_step:
  assumes fresh: "fresh_file h path d0"
    and f: "files path = Some f" "iter_export_messages f = Inr msgs" "has_ids msgs" "distinct (map export_id msgs)"
    and chunk: "0 < iv_chunk iv" and cfg: "map_of config (cp ''chat_id'') = None"
    and run: "cmd_import_apply lib digest files names path h chat config iv d0 = (code, d')"
  shows "if code = 0 then finished lib digest names (iv_now iv) path h chat f msgs d0 d'
    else under_way lib digest names (iv_now iv) path h chat msgs d0 d'"
proof -
  have bk: "book h path chat d0" using fresh by (simp add: fresh_file_def book_def)
  obtain d1 where init: "init_or_resume_run lib (iv_now iv) path h chat (iv_resume iv) d0 = Inr (Start_fresh (d_next_run d0), d1)"
    "create_fresh_run (iv_now iv) path h chat d0 = (Start_fresh (d_next_run d0), d1)" and none: "find_partial_run_by_hash d0 h = None"
    using fresh_init [OF fresh] by blast
  have "conclude lib digest files names iv (d_next_run d0) None (save_import_run_config (d_next_run d0) config d1) = (code, d')"
    using run init(1) by (simp add: cmd_eq)
  from cmd_fresh [OF bk cfg disjI1 [OF none] init(2) this] obtain rs0 r rs1 where
    e: "entered lib (iv_now iv) path h chat d0 rs0 r rs1 None (d_next_run d0 + 1)"
    "conclude lib digest files names iv (ir_id r) None (d0\<lparr>d_runs := rs0 @ r # rs1, d_next_run := d_next_run d0 + 1\<rparr>) = (code, d')"
    by blast
  have r: "rs0 = d_runs d0" "rs1 = []" "begun (iv_now iv) path h chat d0 r" "partial (ir_status r)" "point r = J_null"
    "stamps lib \<longrightarrow> marks_ok lib r"
    using e(1) none by (auto simp: entered_def begun_def partial_def)
  show ?thesis
    using attempt_progress [where d = "d0\<lparr>d_runs := d_runs d0 @ [r], d_next_run := d_next_run d0 + 1\<rparr>" and p = None and files = files and
        f = f and msgs = msgs and iv = iv and a = "[]" and rest = "in_order msgs" and u = "[]" and q = "in_order msgs" and
        code = code and d' = d' and lib = lib and digest = digest and names = names, OF fresh r(3)] e(2) r f chunk
    by (simp add: opt_json_def)
qed

text \<open>After the end, attempts leave the content.\<close>

lemma book_after:
  assumes bk: "book h path chat d" and e: "entered lib now path h chat d rs0 r rs1 p next"
    and d': "d_runs d' = rs0 @ r' # rs1" "same_run lib r r'" "d_next_run d' = next" "archive_inv (c_archive (d_content d'))"
  shows "book h path chat d'"
  using e unfolding entered_def
proof
  assume new: "d_runs d = rs0 \<and> rs1 = [] \<and> ir_id r = d_next_run d \<and> ir_type r = R_import \<and> ir_source r = Some path \<and>
    ir_hash r = Some h \<and> ir_started r = now \<and> run_chat r = Some chat \<and> ir_status r = S_running \<and> point r = J_null \<and>
    (stamps lib \<longrightarrow> marks_ok lib r) \<and> p = None \<and> next = d_next_run d + 1 \<and> (find_partial_run_by_hash d h = None \<or>
         (\<exists>q. find_partial_run_by_hash d h = Some q \<and> \<not> partial (ir_status q)))"
  then show ?thesis
    using bk d' ids_below_append [of ir_id "d_next_run d" rs0 r'] by (auto simp: book_def same_run_def)
next
  assume "\<exists>q. d_runs d = rs0 @ q # rs1 \<and> same_run lib q r \<and> find_partial_run_by_hash d h = Some q \<and> partial (ir_status q) \<and>
    ir_status r = ir_status q \<and> point r = point q \<and> point q = opt_json p \<and> next = d_next_run d"
  then obtain q where q: "d_runs d = rs0 @ q # rs1" "same_run lib q r'" "next = d_next_run d" using same_run_trans d'(2) by blast
  then show ?thesis using bk d' by (simp add: book_def ids_below_def same_run_def)
qed

lemma entered_run:
  assumes bk: "book h path chat d" and e: "entered lib now path h chat d rs0 r rs1 p next"
  shows "only_run (ir_id r) rs0 r rs1 \<and> run_chat r = Some chat \<and> ir_source r = Some path \<and> partial (ir_status r)"
  using e unfolding entered_def
proof
  assume "\<exists>q. d_runs d = rs0 @ q # rs1 \<and> same_run lib q r \<and> find_partial_run_by_hash d h = Some q \<and> partial (ir_status q) \<and>
    ir_status r = ir_status q \<and> point r = point q \<and> point q = opt_json p \<and> next = d_next_run d"
  then obtain q where q: "d_runs d = rs0 @ q # rs1" "same_run lib q r" "find_partial_run_by_hash d h = Some q" "partial (ir_status q)"
    "ir_status r = ir_status q" by blast
  have "only_run (ir_id q) rs0 q rs1" by (rule book_only [OF bk q(1)])
  moreover have "run_chat q = Some chat \<and> ir_source q = Some path" using find_partial_in [OF q(3)] bk by (auto simp: book_def)
  ultimately show ?thesis using only_run_same [OF _ q(2)] q(2,4,5) by (simp add: same_run_def)
qed (use bk in \<open>auto simp: only_run_def book_def ids_below_def partial_def\<close>)

lemma finished_step:
  assumes fresh: "fresh_file h path d0" and w: "finished lib digest names now path h chat f msgs d0 d"
    and f: "files path = Some f" "iter_export_messages f = Inr msgs" "has_ids msgs" "distinct (map export_id msgs)"
    and chunk: "0 < iv_chunk iv" and cfg: "map_of config (cp ''chat_id'') = None"
    and run: "cmd_import_apply lib digest files names path h chat config iv d = (code, d')"
  shows "finished lib digest names now path h chat f msgs d0 d' \<and> d_content d' = d_content d"
proof (cases "code \<noteq> 0 \<and> d' = d")
  case True
  then show ?thesis using w by simp
next
  case False
  have bk: "book h path chat d" and fold: "foldE (import_step lib digest names chat now d0) (in_order msgs) (d_content d0) = Inr (d_content d)"
    using w by (simp_all add: finished_def)
  have ok0: "archive_inv (c_archive (d_content d0))" using fresh by (simp add: fresh_file_def)
  have ok: "archive_inv (c_archive (d_content d))" using bk by (simp add: book_def)
  note keys = distinct_keys [of "in_order msgs", OF _ distinct_in_order [OF f(4)], unfolded has_ids_in_order, OF f(3)]
  have settled: "settled lib names chat m (d_content d)" if "m \<in> set (in_order msgs)" for m
    using imp.fold_settles [OF ok0 fold [unfolded import_step_def] keys that] .
  obtain rs0 r rs1 p n where e: "entered lib (iv_now iv) path h chat d rs0 r rs1 p n"
    "conclude lib digest files names iv (ir_id r) p (d\<lparr>d_runs := rs0 @ r # rs1, d_next_run := n\<rparr>) = (code, d')"
    using cmd_entry [OF run bk cfg] False by blast
  note er = entered_run [OF bk e(1)]
  have d1: "d_runs (d\<lparr>d_runs := rs0 @ r # rs1, d_next_run := n\<rparr>) = rs0 @ r # rs1" by simp
  obtain a b r' where pr: "pending_messages p msgs = a @ b" "d_runs d' = rs0 @ r' # rs1" "d_next_run d' = n" "left lib r a code r'"
    "foldE (apply_content lib digest names chat (ir_id r) (run_view (rs0 @ r # rs1))) a (d_content d) = Inr (d_content d')"
    using conclude_progress [OF e(2) _ d1 _ _ _ f(1,2,3) chunk, of chat] er by auto
  have "set a \<subseteq> set (in_order msgs)"
  proof -
    have "set (pending_messages p msgs) \<subseteq> set (in_order msgs)"
      by (auto simp: pending_messages_def in_order_def Let_def split: option.splits)
    then show ?thesis by (simp add: pr(1))
  qed
  then have "foldE (apply_content lib digest names chat (ir_id r) (run_view (rs0 @ r # rs1))) a (d_content d) = Inr (d_content d)"
    using imp.fold_noop [OF ok] settled by blast
  then have same: "d_content d' = d_content d" using pr(5) by simp
  have "book h path chat d'"
    by (rule book_after [OF bk e(1) pr(2) _ pr(3)]) (use pr(4) ok same in \<open>simp_all add: left_def\<close>)
  then show ?thesis using w same by (simp add: finished_def)
qed

text \<open>A whole sequence of attempts.\<close>

lemma attempts_progress:
  assumes fresh: "fresh_file h path d0"
    and f: "files path = Some f" "iter_export_messages f = Inr msgs" "has_ids msgs" "distinct (map export_id msgs)"
    and cfg: "map_of config (cp ''chat_id'') = None"
    and ivs: "ivs \<noteq> []" "list_all (\<lambda>iv. 0 < iv_chunk iv) ivs"
    and run: "import_attempts lib digest files names path h chat config ivs d0 = (code, d')"
  shows "finished lib digest names (iv_now (hd ivs)) path h chat f msgs d0 d' \<or>
    code \<noteq> 0 \<and> under_way lib digest names (iv_now (hd ivs)) path h chat msgs d0 d'"
  using ivs run
proof (induction ivs arbitrary: code d' rule: rev_induct)
  case (snoc iv ivs)
  show ?case
  proof (cases "ivs = []")
    case True
    then have run: "cmd_import_apply lib digest files names path h chat config iv d0 = (code, d')"
      using snoc.prems(3) by (simp add: import_attempts_def)
    show ?thesis using start_step [OF fresh f _ cfg run] snoc.prems(2) True by (auto split: if_splits)
  next
    case False
    obtain c1 d1 where one: "import_attempts lib digest files names path h chat config ivs d0 = (c1, d1)"
      by (cases "import_attempts lib digest files names path h chat config ivs d0") auto
    have run: "cmd_import_apply lib digest files names path h chat config iv d1 = (code, d')"
      using snoc.prems(3) one by (simp add: import_attempts_def)
    have iv: "0 < iv_chunk iv" and hd: "hd (ivs @ [iv]) = hd ivs" and ivs: "list_all (\<lambda>iv. 0 < iv_chunk iv) ivs"
      using snoc.prems(2) False by simp_all
    from snoc.IH [OF False ivs one] show ?thesis
    proof
      assume w: "finished lib digest names (iv_now (hd ivs)) path h chat f msgs d0 d1"
      then show ?thesis using finished_step [OF fresh w f iv cfg run] hd by simp
    next
      assume w: "c1 \<noteq> 0 \<and> under_way lib digest names (iv_now (hd ivs)) path h chat msgs d0 d1"
      then show ?thesis using under_way_step [OF fresh conjunct2 [OF w] f iv cfg run] hd by (auto split: if_splits)
    qed
  qed
qed simp

subsection \<open>An undisturbed attempt completes\<close>

lemma load_marks:
  assumes "stamps lib" "marks_ok lib r" "fetch ir_id run (d_runs d) = Some r" "point r = opt_json p"
  shows "\<exists>k. load_checkpoint lib d run = Inr (Some (p, k))"
proof -
  have p: "dict_get (run_stats r) ''last_processed_export_msg_id'' = opt_json p" using assms(4) by (simp add: point_def)
  have st: "(case ir_stats r of None \<Rightarrow> [] | Some st \<Rightarrow> st) = run_stats r" by (simp add: run_stats_def)
  obtain k where k: "(case map_of (run_stats r) (cp ''chunk_index'') of None \<Rightarrow> Inr 0 | Some (J_int n) \<Rightarrow> Inr n
             | Some _ \<Rightarrow> Inl (Value_error ''chunk_index must be int'')) = Inr k"
    using assms(2) by (fastforce simp: marks_ok_def split: option.splits json.splits)
  have t: "(case dict_get (run_stats r) ''last_checkpoint_at'' of J_null \<Rightarrow> Inr ()
             | J_str t \<Rightarrow> if py_fromisoformat lib t = None then Inl (Value_error ''last_checkpoint_at'') else Inr ()
             | _ \<Rightarrow> Inl (Value_error ''last_checkpoint_at'')) = Inr ()"
    using assms(2) by (auto simp: marks_ok_def split: json.splits)
  show ?thesis
    unfolding load_checkpoint_def assms(3) option.case st Let_def p k t by (cases p) (simp_all add: opt_json_def)
qed

lemma start_completes:
  assumes fresh: "fresh_file h path d0"
    and f: "files path = Some f" "iter_export_messages f = Inr msgs" "has_ids msgs" "importable f path names"
    and quiet: "undisturbed iv" and cfg: "map_of config (cp ''chat_id'') = None"
    and fold: "foldE (import_step lib digest names chat (iv_now iv) d0) (in_order msgs) (d_content d0) = Inr c"
  shows "fst (cmd_import_apply lib digest files names path h chat config iv d0) = 0"
proof -
  have bk: "book h path chat d0" using fresh by (simp add: fresh_file_def book_def)
  obtain d1 where init: "init_or_resume_run lib (iv_now iv) path h chat (iv_resume iv) d0 = Inr (Start_fresh (d_next_run d0), d1)"
    "create_fresh_run (iv_now iv) path h chat d0 = (Start_fresh (d_next_run d0), d1)" and none: "find_partial_run_by_hash d0 h = None"
    using fresh_init [OF fresh] by blast
  obtain code d' where cd: "conclude lib digest files names iv (d_next_run d0) None (save_import_run_config (d_next_run d0) config d1) = (code, d')"
    by fastforce
  from cmd_fresh [OF bk cfg disjI1 [OF none] init(2) this] obtain rs0 r rs1 where
    e: "entered lib (iv_now iv) path h chat d0 rs0 r rs1 None (d_next_run d0 + 1)"
    "conclude lib digest files names iv (ir_id r) None (d0\<lparr>d_runs := rs0 @ r # rs1, d_next_run := d_next_run d0 + 1\<rparr>) = (code, d')"
    by blast
  have r: "rs0 = d_runs d0" "rs1 = []" "begun (iv_now iv) path h chat d0 r" "partial (ir_status r)"
    using e(1) none by (auto simp: entered_def begun_def partial_def)
  let ?d = "d0\<lparr>d_runs := rs0 @ r # rs1, d_next_run := d_next_run d0 + 1\<rparr>"
  have id: "ir_id r = d_next_run d0" and chat: "run_chat r = Some chat" "ir_source r = Some path" using r(3) by (simp_all add: begun_def)
  have only: "only_run (ir_id r) rs0 r rs1" using begun_only [OF fresh r(3)] by (simp add: id r(1,2))
  have "foldE (apply_content lib digest names chat (ir_id r) (run_view (d_runs ?d))) (pending_messages None msgs) (d_content ?d) = Inr c"
    using fold begun_view [OF r(3)] by (simp add: import_step_def id r(1,2))
  from conclude_completes [where files = files and d = ?d and p = None and path = path, OF only _ chat r(4) f quiet this] have "code = 0"
    using e(2) by simp
  then show ?thesis using cd init(1) by (simp add: cmd_eq)
qed

lemma under_way_completes:
  assumes fresh: "fresh_file h path d0" and w: "under_way lib digest names now path h chat msgs d0 d"
    and f: "files path = Some f" "iter_export_messages f = Inr msgs" "has_ids msgs" "distinct (map export_id msgs)" "importable f path names"
    and quiet: "undisturbed iv" and cfg: "map_of config (cp ''chat_id'') = None"
    and lib: "stamps lib" and resume: "iv_resume iv"
    and fold: "foldE (import_step lib digest names chat now d0) (in_order msgs) (d_content d0) = Inr c"
  shows "fst (cmd_import_apply lib digest files names path h chat config iv d) = 0"
proof -
  obtain r a rest p u q where s: "d_runs d = d_runs d0 @ [r]" "d_next_run d = d_next_run d0 + 1" "begun now path h chat d0 r"
    "partial (ir_status r)" "in_order msgs = a @ rest"
    "foldE (import_step lib digest names chat now d0) a (d_content d0) = Inr (d_content d)"
    "point r = opt_json p" "in_order msgs = u @ q" "pending_messages p msgs = q" "length u \<le> length a"
    "stamps lib \<longrightarrow> marks_ok lib r"
    using w unfolding under_way_def by blast
  have ok: "archive_inv (c_archive (d_content d0))" using fresh by (simp add: fresh_file_def)
  have id: "ir_id r = d_next_run d0" and chat: "run_chat r = Some chat" "ir_source r = Some path" using s(3) by (simp_all add: begun_def)
  have only: "only_run (ir_id r) (d_runs d0) r []" using begun_only [OF fresh s(3)] by (simp add: id)
  note keys = distinct_keys [of "in_order msgs", OF _ distinct_in_order [OF f(4)], unfolded has_ids_in_order, OF f(3)]
  have "fetch ir_id (ir_id r) (d_runs d) = Some r" using fetch_run [OF only] by (simp add: s(1))
  then obtain k where load: "load_checkpoint lib d (ir_id r) = Inr (Some (p, k))"
    using load_marks [of lib r "ir_id r" d p] lib s(7,11) by blast
  have cmd: "cmd_import_apply lib digest files names path h chat config iv d =
      conclude lib digest files names iv (ir_id r) p (save_import_run_config (ir_id r) config d)"
    using begun_found [OF fresh s(3,1)] s(4) resume load by (simp add: cmd_eq init_or_resume_run_def)
  obtain r1 where r1: "save_import_run_config (ir_id r) config d = d\<lparr>d_runs := d_runs d0 @ r1 # []\<rparr>" "same_run lib r r1"
    "ir_status r1 = ir_status r" "point r1 = point r"
    using save_config_row [OF only s(1) cfg] by blast
  let ?d = "d\<lparr>d_runs := d_runs d0 @ r1 # []\<rparr>"
  note b1 = begun_same [OF s(3) r1(2)]
  have "foldE (import_step lib digest names chat now d0) q (d_content d) = Inr c"
    using imp.resume_total [OF ok s(6) [unfolded import_step_def] keys s(5,8,10)] fold by (simp add: import_step_def)
  then have "foldE (apply_content lib digest names chat (ir_id r) (run_view (d_runs ?d))) (pending_messages p msgs) (d_content ?d) = Inr c"
    using begun_view [OF b1] by (simp add: import_step_def id s(9))
  moreover have "run_chat r1 = Some chat" "ir_source r1 = Some path" "partial (ir_status r1)"
    using b1 s(4) r1(3) by (simp_all add: begun_def)
  ultimately show ?thesis
    using conclude_completes [OF only_run_same [OF only r1(2)], of ?d chat path files f msgs names iv lib digest p c] f quiet
    by (simp add: cmd r1(1))
qed

subsection \<open>The messages an import accepts\<close>

text \<open>
  A human message needs an author id the importer reads, an author the table of users holds or can hold, and
  a media type that is not a list or an object; a photo needs a chat and an id that Telegram links to.
\<close>

definition author_fits :: "int \<Rightarrow> ustr option \<Rightarrow> bool" where
  "author_fits uid name \<longleftrightarrow> in_bigint uid \<and>
     length (case name of None \<Rightarrow> cp ''imported user '' @ cp (show_int uid)
       | Some t \<Rightarrow> if t = [] then cp ''imported user '' @ cp (show_int uid) else t) \<le> 255"

definition author_resolves :: "pylib \<Rightarrow> jobject \<Rightarrow> bool" where
  "author_resolves lib msg \<longleftrightarrow> (case as_str (dict_get msg ''from_id'') of None \<Rightarrow> False
     | Some t \<Rightarrow> (case parse_export_id lib t of Inl _ \<Rightarrow> False
         | Inr (is_user, n) \<Rightarrow> is_user \<longrightarrow> author_fits n (as_str (dict_get msg ''from''))))"

definition acceptable :: "pylib \<Rightarrow> ustr list \<Rightarrow> int \<Rightarrow> jobject \<Rightarrow> bool" where
  "acceptable lib names chat msg \<longleftrightarrow> is_service msg \<or> is_excluded lib names msg \<or>
     author_resolves lib msg \<and> (case classify_td_kind msg of Inl _ \<Rightarrow> False
       | Inr kind \<Rightarrow> kind = ''photo'' \<longrightarrow> photo_linkable chat (export_id msg))"

lemma resolve_total:
  assumes "author_resolves lib msg"
  shows "\<exists>uid c1. resolve_export_user lib (as_str (dict_get msg ''from_id'')) (as_str (dict_get msg ''from'')) c = Inr (Some uid, c1)"
proof -
  obtain t is_user n where t: "as_str (dict_get msg ''from_id'') = Some t" "parse_export_id lib t = Inr (is_user, n)"
    "is_user \<Longrightarrow> author_fits n (as_str (dict_get msg ''from''))"
    using assms by (auto simp: author_resolves_def split: option.splits sum.splits)
  have ghost: "\<exists>c1. create_ghost_user uid name c = Inr c1" if "in_bigint uid" "length name \<le> 255" for uid name
    using that by (auto simp: create_ghost_user_def)
  show ?thesis
  proof (cases is_user)
    case False
    have "\<exists>c1. create_ghost_user anonymous_channel_user (cp ''[anonymous channel]'') c = Inr c1"
      by (rule ghost) (simp_all add: in_bigint_def anonymous_channel_user_def cp_def)
    then show ?thesis using t(1,2) False by (auto simp: resolve_export_user_def)
  next
    case True
    then have "\<exists>c1. create_ghost_user n (case as_str (dict_get msg ''from'') of
              Some name \<Rightarrow> if name = [] then cp ''imported user '' @ cp (show_int n) else name
            | None \<Rightarrow> cp ''imported user '' @ cp (show_int n)) c = Inr c1"
      using t(3) by (intro ghost) (auto simp: author_fits_def split: option.splits)
    then show ?thesis using t(1,2) True by (auto simp: resolve_export_user_def)
  qed
qed

lemma restore_total:
  assumes "find_chat_message a (tm_chat m) (tm_id m) = Some r" "tm_from m = Some uid"
  shows "\<exists>row a'. rehydrate_message_from_import digest m (cm_id r) raw payload captured a = Inr (row, a')"
proof -
  have r: "r \<in> set (m_messages a) \<and> same_message (tm_chat m) (tm_id m) r"
    using assms(1) by (auto simp: find_chat_message_def find_Some_iff)
  then obtain saved where saved: "List.find (\<lambda>q. cm_id q = cm_id r \<and> same_message (tm_chat m) (tm_id m) q) (m_messages a) = Some saved"
    by (cases "List.find (\<lambda>q. cm_id q = cm_id r \<and> same_message (tm_chat m) (tm_id m) q) (m_messages a)") (auto simp: find_None_iff)
  obtain w a1 where "insert_version (version_values (cm_id r) (tm_text m) (tm_caption m) (extract_entities_unified m) None captured
      (compute_content_hash digest (tm_text m) (tm_caption m) (Some (classify_message_kind m)) (extract_entities_unified m)) (Some raw) False True) a
      = Inr (w, a1)"
    using insert_version_total by blast
  then show ?thesis by (simp add: rehydrate_message_from_import_def saved assms(2) Let_def)
qed

lemma store_row_total:
  assumes "map_option es_id existing = map_option cm_id (find_chat_message (c_archive c) chat mid)" "tm_chat duck = chat" "tm_id duck = mid" "tm_from duck = Some uid"
    "kind = ''photo'' \<Longrightarrow> photo_linkable chat mid"
  shows "\<exists>c' rep'. store_row lib digest chat mid existing kind payload duck raw c rep = Inr (c', rep')"
proof -
  have photo: "\<exists>c1. record_import_photo_if_needed kind row chat mid c0 = Inr c1" for row c0
    using assms(5) by (auto simp: photo_result)
  show ?thesis
  proof (cases existing)
    case None
    obtain r a where "persist_message_with_policy digest True (Some (rw_id raw)) (Some (tm_date duck)) (tm_date duck) duck (c_archive c) = Inr (r, a)"
      using persist_total by blast
    moreover obtain c1 where "record_import_photo_if_needed kind (cm_id (fst r)) chat mid (c\<lparr>c_archive := a\<rparr>) = Inr c1"
      using photo by blast
    moreover obtain c2 where "record_import_photo_if_needed kind (case check_live_overlap_pre_persist c chat mid (rw_id raw) of
        None \<Rightarrow> 0 | Some row \<Rightarrow> row) chat mid c = Inr c2" using photo by blast
    ultimately show ?thesis
      by (cases r; cases "check_live_overlap_pre_persist c chat mid (rw_id raw)") (simp_all add: store_row_def None mapE_def)
  next
    case (Some e)
    then obtain r where r: "find_chat_message (c_archive c) chat mid = Some r" "es_id e = cm_id r"
      using assms(1) Some by (cases "find_chat_message (c_archive c) chat mid") auto
    obtain row a where "rehydrate_message_from_import digest duck (es_id e) (rw_id raw) (py_dumps lib (J_obj payload)) (tm_date duck)
        (c_archive c) = Inr (row, a)"
      using restore_total [of "c_archive c" duck r uid] r assms(2-4) by (simp only: r(2)) blast
    moreover obtain c1 where "record_import_photo_if_needed kind (cm_id row) chat mid (c\<lparr>c_archive := a\<rparr>) = Inr c1"
      using photo by blast
    ultimately show ?thesis by (simp add: store_row_def Some mapE_def)
  qed
qed

lemma existing_ids: "map_option es_id (find_existing_chat_message_state c chat mid) = map_option cm_id (find_chat_message (c_archive c) chat mid)"
  by (simp add: find_existing_chat_message_state_def option.map_comp comp_def)

lemma store_total:
  assumes "author_resolves lib msg" "classify_td_kind msg = Inr kind" "kind = ''photo'' \<Longrightarrow> photo_linkable chat mid"
  shows "\<exists>c' rep'. store_message lib digest chat run view msg mid (find_existing_chat_message_state c chat mid) c rep = Inr (c', rep')"
proof -
  obtain uid c1 where user: "resolve_export_user lib (as_str (dict_get msg ''from_id'')) (as_str (dict_get msg ''from'')) c = Inr (Some uid, c1)"
    using resolve_total [OF assms(1)] by blast
  obtain raw c2 where up: "upsert_import_message (build_raw_payload msg chat mid) chat mid run c1 = (raw, c2)" by fastforce
  have "c2 = snd (upsert_import_message (build_raw_payload msg chat mid) chat mid run c1)" by (simp add: up)
  then have a: "c_archive c2 = c_archive c" using resolve_user_content [OF user] by simp
  obtain body caption where tc: "extract_text_caption_for_kind msg kind = (body, caption)" by fastforce
  define duck where "duck = build_message_duck lib msg chat mid uid body caption (resolve_reply_target c1 view msg run chat) kind"
  have "tm_chat duck = chat" "tm_id duck = mid" "tm_from duck = Some uid" by (simp_all add: duck_def build_message_duck_def)
  moreover have "map_option es_id (find_existing_chat_message_state c chat mid) = map_option cm_id (find_chat_message (c_archive c2) chat mid)"
    by (simp add: existing_ids a)
  ultimately obtain c' rep' where "store_row lib digest chat mid (find_existing_chat_message_state c chat mid) kind
      (build_raw_payload msg chat mid) duck raw c2 rep = Inr (c', rep')"
    using store_row_total [OF _ _ _ _ assms(3)] by blast
  then show ?thesis by (simp add: store_message_def user assms(2) up tc duck_def)
qed

lemma apply_total:
  assumes "acceptable lib names chat msg"
  shows "\<exists>c'. apply_content lib digest names chat run view msg c = Inr c'"
proof (cases "as_int (dict_get msg ''id'')")
  case None
  then show ?thesis by (simp add: apply_content_def apply_one_outcome)
next
  case (Some mid)
  consider (service) "is_service msg" | (excluded) "\<not> is_service msg" "is_excluded lib names msg"
    | (human) "\<not> is_service msg" "\<not> is_excluded lib names msg" by blast
  then show ?thesis
  proof cases
    case service
    then show ?thesis by (simp add: apply_content_def apply_one_outcome Some)
  next
    case excluded
    then show ?thesis by (simp add: apply_content_def apply_one_outcome Some)
  next
    case human
    then obtain kind where ok: "author_resolves lib msg" "classify_td_kind msg = Inr kind" "kind = ''photo'' \<Longrightarrow> photo_linkable chat mid"
      using assms Some by (auto simp: acceptable_def export_id_def split: sum.splits)
    obtain c' rep' where st: "store_message lib digest chat run view msg mid (find_existing_chat_message_state c chat mid) c
        (empty_report names) = Inr (c', rep')" using store_total [OF ok] by blast
    show ?thesis
    proof (cases "find_existing_chat_message_state c chat mid")
      case None
      then show ?thesis using st by (simp add: apply_content_def apply_one_outcome Some human)
    next
      case e: (Some e)
      obtain c2 where "record_import_photo_if_needed kind (es_id e) chat mid
          (snd (upsert_import_message (build_raw_payload msg chat mid) chat mid run c)) = Inr c2"
        using ok(3) by (auto simp: photo_result)
      then show ?thesis using st ok(2) e
        by (cases "needs_rehydrate e") (simp_all add: apply_content_def apply_one_outcome Some human)
    qed
  qed
qed

lemma fold_total:
  assumes "\<And>m. m \<in> set ms \<Longrightarrow> acceptable lib names chat m"
  shows "\<exists>c'. foldE (apply_content lib digest names chat run view) ms c = Inr c'"
  using assms
proof (induction ms arbitrary: c)
  case (Cons m ms)
  obtain c1 where "apply_content lib digest names chat run view m c = Inr c1" using apply_total Cons.prems by force
  then show ?case using Cons.IH [of c1] Cons.prems by simp
qed simp

end
