(* ===== verification/ImportContent.thy ===== *)
theory ImportContent
  imports ImportFacts
begin

section \<open>What an import leaves of each message\<close>

text \<open>
  Applying one message writes that message's row and versions and no other message's; so after a whole
  export each message is as its own application left it.  A message that was readable before keeps its
  row and its versions; any other human message gets the text, the date and the author of the export.
\<close>

subsection \<open>The export's content\<close>

definition export_text :: "jobject \<Rightarrow> ustr" where
  "export_text msg = (if extract_text_string (dict_get msg ''text'') \<noteq> [] then extract_text_string (dict_get msg ''text'')
     else extract_text_string (dict_get msg ''text_entities''))"

definition author_id :: "pylib \<Rightarrow> jobject \<Rightarrow> int option" where
  "author_id lib msg = (case as_str (dict_get msg ''from_id'') of None \<Rightarrow> None
     | Some t \<Rightarrow> (case parse_export_id lib t of Inl _ \<Rightarrow> None
         | Inr (is_user, n) \<Rightarrow> Some (if is_user then n else anonymous_channel_user)))"

text \<open>
  The row \<open>r\<close> and its current version \<open>v\<close> hold the message: its text as the caption of a media message
  and as the text of any other, its date and its author.  The version carries the hash of that content; its
  text is the row's, unless it is one of the versions \<open>vs\<close>, from before, with the same hash.
\<close>

definition holds_export ::
  "pylib \<Rightarrow> digest \<Rightarrow> message_version list \<Rightarrow> jobject \<Rightarrow> chat_message \<Rightarrow> message_version \<Rightarrow> bool" where
  "holds_export lib digest vs msg r v \<longleftrightarrow> (\<exists>kind. classify_td_kind msg = Inr kind \<and>
     (if kind \<in> set media_kinds then cm_text r = None \<and> or_empty (cm_caption r) = export_text msg
      else cm_caption r = None \<and> or_empty (cm_text r) = export_text msg)) \<and>
     cm_date r = parse_message_date lib msg \<and> cm_user r = author_id lib msg \<and>
     mv_hash v = compute_content_hash digest (cm_text r) (cm_caption r) (cm_kind r) None \<and>
     (mv_text v = cm_text r \<and> mv_caption v = cm_caption r \<or> v \<in> set vs)"

definition message_versions :: "mdb \<Rightarrow> int \<Rightarrow> int \<Rightarrow> message_version list" where
  "message_versions a chat mid = (case find_chat_message a chat mid of None \<Rightarrow> [] | Some r \<Rightarrow> versions_of a (cm_id r))"

definition imported_from ::
  "pylib \<Rightarrow> digest \<Rightarrow> mdb \<Rightarrow> mdb \<Rightarrow> int \<Rightarrow> int \<Rightarrow> jobject \<Rightarrow> bool" where
  "imported_from lib digest a a' chat mid msg \<longleftrightarrow> (\<exists>r v. find_chat_message a' chat mid = Some r \<and>
     cm_policy r = P_normal \<and> \<not> cm_redacted r \<and> cm_current r = Some (mv_id v) \<and>
     v \<in> set (versions_of a' (cm_id r)) \<and> \<not> mv_redacted v \<and>
     holds_export lib digest (message_versions a chat mid) msg r v)"

lemma message_versions_untouched: "untouched chat mid a a' \<Longrightarrow> message_versions a' chat mid = message_versions a chat mid"
  by (auto simp: untouched_def message_versions_def split: option.splits)

lemma imported_untouched:
  "untouched chat mid a a0 \<Longrightarrow> untouched chat mid a1 a2 \<Longrightarrow> imported_from lib digest a0 a1 chat mid msg \<Longrightarrow>
   imported_from lib digest a a2 chat mid msg"
  unfolding imported_from_def message_versions_untouched [of chat mid a a0] by (auto simp: untouched_def)

subsection \<open>Storing\<close>

lemma resolved_author:
  "resolve_export_user lib (as_str (dict_get msg ''from_id'')) name c = Inr (Some uid, c') \<Longrightarrow> author_id lib msg = Some uid"
  by (auto simp: resolve_export_user_def author_id_def bindE_Inr_iff split: option.splits if_splits prod.splits)

text \<open>The object the importer builds of a message.\<close>

definition built :: "pylib \<Rightarrow> jobject \<Rightarrow> int \<Rightarrow> int \<Rightarrow> tg_message \<Rightarrow> bool" where
  "built lib msg chat mid duck \<longleftrightarrow> (\<exists>uid reply kind. classify_td_kind msg = Inr kind \<and> author_id lib msg = Some uid \<and>
     duck = build_message_duck lib msg chat mid uid (fst (extract_text_caption_for_kind msg kind))
       (snd (extract_text_caption_for_kind msg kind)) reply kind)"

lemma or_empty_non_empty [simp]: "or_empty (non_empty t) = t"
  by (simp add: or_empty_def non_empty_def)

lemma built_fields:
  assumes "built lib msg chat mid duck"
  shows "tm_chat duck = chat" "tm_id duck = mid" "tm_date duck = parse_message_date lib msg" "tm_from duck = author_id lib msg"
    "extract_entities_unified duck = None"
    "\<exists>kind. classify_td_kind msg = Inr kind \<and>
     (if kind \<in> set media_kinds then tm_text duck = None \<and> or_empty (tm_caption duck) = export_text msg
      else tm_caption duck = None \<and> or_empty (tm_text duck) = export_text msg)"
  using assms
  by (auto simp: built_def build_message_duck_def extract_entities_unified_def extract_text_caption_for_kind_def export_text_def Let_def)

lemma store_message_built:
  assumes run: "store_message lib digest chat run view msg mid existing c rep = Inr (c', rep')"
  shows "\<exists>kind duck raw c2. built lib msg chat mid duck \<and> c_archive c2 = c_archive c \<and>
    store_row lib digest chat mid existing kind (build_raw_payload msg chat mid) duck raw c2 rep = Inr (c', rep')"
proof -
  obtain uid c1 where user: "resolve_export_user lib (as_str (dict_get msg ''from_id'')) (as_str (dict_get msg ''from'')) c = Inr (Some uid, c1)"
    using run by (auto simp: store_message_def bindE_Inr_iff split: option.splits)
  obtain kind where kind: "classify_td_kind msg = Inr kind"
    using run by (auto simp: store_message_def user bindE_Inr_iff)
  obtain raw c2 where up: "upsert_import_message (build_raw_payload msg chat mid) chat mid run c1 = (raw, c2)" by fastforce
  obtain body caption where tc: "extract_text_caption_for_kind msg kind = (body, caption)" by fastforce
  define duck where "duck = build_message_duck lib msg chat mid uid body caption (resolve_reply_target c1 view msg run chat) kind"
  have "built lib msg chat mid duck"
    unfolding built_def duck_def using kind resolved_author [OF user] tc by (auto simp: exI)
  moreover have "c2 = snd (upsert_import_message (build_raw_payload msg chat mid) chat mid run c1)" by (simp add: up)
  then have "c_archive c2 = c_archive c" using resolve_user_content [OF user] by simp
  moreover have "store_row lib digest chat mid existing kind (build_raw_payload msg chat mid) duck raw c2 rep = Inr (c', rep')"
    using run by (simp add: store_message_def user kind up tc duck_def)
  ultimately show ?thesis by blast
qed

text \<open>The version an insert returns: one from before with the hash, or a new one with the values.\<close>

lemma insert_content:
  assumes "insert_version v a = Inr (w, a1)"
  shows "mv_hash w = mv_hash v \<and> (mv_text w = mv_text v \<and> mv_caption w = mv_caption v \<or> w \<in> set (versions_of a (mv_message v)))"
  using assms get_by_hash_Some [of a "mv_message v" "mv_hash v" w]
  by (auto simp: insert_version_result versions_of_def Let_def split: option.splits)

lemma holds_exportI:
  assumes "\<exists>kind. classify_td_kind msg = Inr kind \<and> (if kind \<in> set media_kinds then t = None \<and> or_empty k = export_text msg
      else k = None \<and> or_empty t = export_text msg)"
    and "cm_text r = t" "cm_caption r = k" "cm_date r = parse_message_date lib msg" "cm_user r = author_id lib msg"
    and "mv_hash v = compute_content_hash digest t k (cm_kind r) None"
    and "mv_text v = t \<and> mv_caption v = k \<or> v \<in> set vs"
  shows "holds_export lib digest vs msg r v"
  using assms unfolding holds_export_def by (simp only: simp_thms)

lemma restored_content:
  assumes inv: "archive_inv a" and run: "rehydrate_message_from_import digest m rid raw payload captured a = Inr (r, a')"
    and b: "built lib msg chat mid m" and captured: "captured = tm_date m"
  shows "imported_from lib digest a a' chat mid msg"
proof -
  note f = built_fields [OF b]
  obtain saved author where find: "List.find (\<lambda>r. cm_id r = rid \<and> same_message (tm_chat m) (tm_id m) r) (m_messages a) = Some saved"
    and author: "tm_from m = Some author"
    using run by (auto simp: rehydrate_message_from_import_def split: option.splits)
  let ?h = "compute_content_hash digest (tm_text m) (tm_caption m) (Some (classify_message_kind m)) None"
  obtain w a1 where ins: "insert_version (version_values rid (tm_text m) (tm_caption m) None None captured ?h (Some raw) False True) a = Inr (w, a1)"
    using insert_version_total by blast
  have r: "r = saved\<lparr>cm_user := Some author, cm_text := tm_text m, cm_caption := tm_caption m,
     cm_date := captured, cm_payload := Some payload, cm_reply := tm_reply m, cm_thread := tm_thread m,
     cm_kind := Some (classify_message_kind m), cm_current := Some (mv_id w), cm_policy := P_normal,
     cm_redacted := False, cm_hash := Some ?h\<rparr>" and vs: "m_versions a' = m_versions a1"
    using run find author ins by (auto simp: rehydrate_message_from_import_def Let_def f(5))
  have saved: "cm_id saved = rid" "saved \<in> set (m_messages a)" "same_message chat mid saved"
    using find f(1,2) by (auto simp: find_Some_iff)
  then have old: "message_versions a chat mid = versions_of a rid"
    by (simp add: message_versions_def found_after [OF inv])
  then have w: "w \<in> set (versions_of a' (cm_id r))" "\<not> mv_redacted w"
    using active_insert [OF ins] saved(1) by (auto simp: versions_of_def vs r version_values_def)
  have found: "find_chat_message a' chat mid = Some r" using restore_readable [OF inv run] f(1,2) by simp
  have "holds_export lib digest (message_versions a chat mid) msg r w"
    using insert_content [OF ins] f(3,4) author captured
    by (intro holds_exportI [OF f(6)]) (simp_all add: r old version_values_def)
  with found w show ?thesis unfolding imported_from_def by (intro exI [of _ r] exI [of _ w]) (simp add: r)
qed

lemma persisted_content:
  assumes inv: "archive_inv a" and new: "find_chat_message a (tm_chat m) (tm_id m) = None"
    and run: "persist_message_with_policy digest imported raw (Some (tm_date m)) now m a = Inr (r, a')"
    and b: "built lib msg chat mid m"
  shows "imported_from lib digest a a' chat mid msg"
proof -
  note f = built_fields [OF b]
  obtain saved a1 w a2 where p:
    "message_save (message_values m False raw (Some (tm_date m))) (Some P_normal) (Some False) a = (saved, a1)"
    "insert_version (delivered_version digest imported raw (tm_date m) m (cm_id saved)) a1 = Inr (w, a2)"
    "fst r = (if cm_current saved = None then saved\<lparr>cm_current := Some (mv_id w)\<rparr> else saved)"
    "a' = (if cm_current saved = None then message_update (cm_id saved) (\<lambda>q. q\<lparr>cm_current := Some (mv_id w)\<rparr>) a2 else a2)"
    using persist_parts [OF run] by (metis option.simps(5))
  have saved: "cm_current saved = None" "cm_policy saved = P_normal" "\<not> cm_redacted saved" "cm_text saved = tm_text m"
    "cm_caption saved = tm_caption m" "cm_date saved = tm_date m" "cm_user saved = tm_from m" "cm_kind saved = Some (classify_message_kind m)"
    and vs: "m_versions a1 = m_versions a" and id: "cm_id saved = m_next_message a"
    using p(1) new by (auto simp: message_save_def Let_def message_values_def split: option.splits)
  have w: "w \<in> set (versions_of a' (cm_id (fst r)))" "\<not> mv_redacted w"
    using active_insert [OF p(2)] by (auto simp: versions_of_def p(3,4) saved(1))
  have found: "find_chat_message a' chat mid = Some (fst r)" using persist_readable [OF inv new run] f(1,2) by simp
  have "m_next_message a \<notin> cm_id ` set (m_messages a)" using archive_invD(1) [OF inv] by (auto simp: ids_below_def)
  then have "versions_of a1 (cm_id saved) = []"
    using archive_invD(5) [OF inv] by (simp add: versions_of_def vs id filter_empty_conv) metis
  then have "holds_export lib digest (message_versions a chat mid) msg (fst r) w"
    using insert_content [OF p(2)] f(3-5) saved
    by (intro holds_exportI [OF f(6)]) (simp_all add: p(3) delivered_version_def version_values_def content_hash_of_def)
  with found w show ?thesis unfolding imported_from_def by (intro exI [of _ "fst r"] exI [of _ w]) (simp add: p(3) saved)
qed

lemma stored_content:
  assumes inv: "archive_inv (c_archive c)" and existing: "existing = find_existing_chat_message_state c chat mid"
    and run: "store_message lib digest chat run view msg mid existing c rep = Inr (c', rep')"
  shows "imported_from lib digest (c_archive c) (c_archive c') chat mid msg"
proof -
  obtain kind duck raw c2 where s: "built lib msg chat mid duck" "c_archive c2 = c_archive c"
    "store_row lib digest chat mid existing kind (build_raw_payload msg chat mid) duck raw c2 rep = Inr (c', rep')"
    using store_message_built [OF run] by blast
  from s(3) show ?thesis
  proof (cases rule: store_row_cases)
    case (overlap row)
    then have "find_chat_message (c_archive c2) chat mid = None"
      using existing by (simp add: s(2) find_existing_chat_message_state_def)
    then show ?thesis using no_row_no_overlap overlap(2) by simp
  next
    case (restore e row a)
    from restored_content [OF _ restore(2) s(1) refl] inv s(2) photo_content(1) [OF restore(3)] show ?thesis by simp
  next
    case (persist r a)
    then have none: "find_chat_message (c_archive c) chat mid = None"
      using existing by (simp add: find_existing_chat_message_state_def)
    from persisted_content [OF _ _ persist(2) s(1)] inv none s(2) photo_content(1) [OF persist(3)] built_fields(1,2) [OF s(1)]
    show ?thesis by simp
  qed
qed

subsection \<open>One message\<close>

lemma human_content:
  assumes inv: "archive_inv (c_archive c)" and run: "apply_content lib digest names chat run view msg c = Inr c'"
    and mid: "as_int (dict_get msg ''id'') = Some mid" and human: "\<not> is_service msg" "\<not> is_excluded lib names msg"
  shows "if readable (c_archive c) chat mid then c_archive c' = c_archive c
    else imported_from lib digest (c_archive c) (c_archive c') chat mid msg"
proof -
  obtain adv rep' where one: "apply_one_message lib digest names chat run view msg c (empty_report names) = Inr (adv, c', rep')"
    using run by (auto simp: apply_content_def split: sum.splits)
  show ?thesis
  proof (cases "\<exists>e. find_existing_chat_message_state c chat mid = Some e \<and> \<not> needs_rehydrate e")
    case True
    then obtain e where e: "find_existing_chat_message_state c chat mid = Some e" "\<not> needs_rehydrate e" by blast
    obtain kind where "record_import_photo_if_needed kind (es_id e) chat mid
        (snd (upsert_import_message (build_raw_payload msg chat mid) chat mid run c)) = Inr c'"
      using one mid human e by (auto simp: apply_one_outcome bindE_Inr_iff)
    then have "c_archive c' = c_archive c" using photo_content(1) by fastforce
    moreover have "readable (c_archive c) chat mid" using e readable_iff [OF inv, of chat mid] by blast
    ultimately show ?thesis by simp
  next
    case False
    then obtain rep1 where "store_message lib digest chat run view msg mid (find_existing_chat_message_state c chat mid) c
        (empty_report names) = Inr (c', rep1)"
      using one mid human by (cases "find_existing_chat_message_state c chat mid") (auto simp: apply_one_outcome bindE_Inr_iff)
    from stored_content [OF inv refl this] have "imported_from lib digest (c_archive c) (c_archive c') chat mid msg" .
    moreover have "\<not> readable (c_archive c) chat mid" using False readable_iff [OF inv, of chat mid] by blast
    ultimately show ?thesis by simp
  qed
qed

text \<open>A message of an excluded author gets no row; a row it has is emptied.\<close>

lemma excluded_content:
  assumes run: "apply_content lib digest names chat run view msg c = Inr c'"
    and mid: "as_int (dict_get msg ''id'') = Some mid" and ex: "\<not> is_service msg" "is_excluded lib names msg"
    and none: "find_chat_message (c_archive c) chat mid = None"
  shows "c_archive c' = c_archive c"
proof -
  have "c' = snd (ensure_excluded_author_raw_only chat mid run (build_excluded_author_raw_payload msg chat mid) c)"
    using run mid ex by (simp add: apply_content_def apply_one_outcome)
  with none show ?thesis by (simp add: ensure_excluded_author_raw_only_def Let_def)
qed

subsection \<open>A whole export\<close>

lemma fold_untouched:
  assumes "archive_inv (c_archive c)" "foldE (apply_content lib digest names chat run view) ms c = Inr c'"
    "\<And>m. m \<in> set ms \<Longrightarrow> as_int (dict_get m ''id'') \<noteq> Some k"
  shows "untouched chat k (c_archive c) (c_archive c')"
  using assms
proof (induction ms arbitrary: c)
  case (Cons m ms)
  then obtain c1 where c1: "apply_content lib digest names chat run view m c = Inr c1"
    "foldE (apply_content lib digest names chat run view) ms c1 = Inr c'" by (auto simp: bindE_Inr_iff)
  note s = settle_and_leave [OF Cons.prems(1) c1(1)]
  have "untouched chat k (c_archive c) (c_archive c1)"
  proof (cases "as_int (dict_get m ''id'')")
    case None
    then show ?thesis using s by (simp add: untouched_refl)
  next
    case (Some mid)
    then have "k \<noteq> mid" using Cons.prems(3) [of m] by auto
    then show ?thesis using s Some by (simp add: leaves_def)
  qed
  moreover have "untouched chat k (c_archive c1) (c_archive c')" using Cons.IH [OF _ c1(2)] s Cons.prems(3) by simp
  ultimately show ?case by (rule untouched_trans)
qed (simp add: untouched_refl)

text \<open>The state in which a message of the export is applied has its row and versions as at the start.\<close>

lemma fold_at:
  assumes inv: "archive_inv (c_archive c)" and run: "foldE (apply_content lib digest names chat run view) ms c = Inr c'"
    and keys: "distinct (map (\<lambda>m. as_int (dict_get m ''id'')) ms)" and m: "msg \<in> set ms" "as_int (dict_get msg ''id'') = Some mid"
  shows "\<exists>c1 c2. apply_content lib digest names chat run view msg c1 = Inr c2 \<and> archive_inv (c_archive c1) \<and>
    untouched chat mid (c_archive c) (c_archive c1) \<and> untouched chat mid (c_archive c2) (c_archive c')"
proof -
  from m(1) obtain xs ys where ms: "ms = xs @ msg # ys" by (auto dest: split_list)
  let ?step = "apply_content lib digest names chat run view"
  obtain c1 c2 where c: "foldE ?step xs c = Inr c1" "?step msg c1 = Inr c2" "foldE ?step ys c2 = Inr c'"
    using run unfolding ms by (auto simp: foldE_append bindE_Inr_iff)
  have inv1: "archive_inv (c_archive c1)" by (rule imp.fold_ok [OF inv c(1)])
  have inv2: "archive_inv (c_archive c2)" using settle_and_leave [OF inv1 c(2)] by simp
  have "as_int (dict_get m ''id'') \<noteq> Some mid" if "m \<in> set xs \<or> m \<in> set ys" for m
    using that keys m(2) by (force simp: ms)
  with fold_untouched [OF inv c(1)] fold_untouched [OF inv2 c(3)] c(2) inv1 show ?thesis by blast
qed

lemma fold_settled:
  assumes "archive_inv (c_archive c)" "foldE (apply_content lib digest names chat run view) ms c = Inr c'"
    and "distinct (map (\<lambda>m. as_int (dict_get m ''id'')) ms)" "msg \<in> set ms"
  shows "settled lib names chat msg c'"
  by (rule imp.fold_settles [OF assms])

text \<open>A photo no link of Telegram leads to: of a chat that is not a supergroup, or without a positive id.\<close>

definition unlinkable_photo :: "pylib \<Rightarrow> ustr list \<Rightarrow> int \<Rightarrow> jobject \<Rightarrow> bool" where
  "unlinkable_photo lib names chat msg \<longleftrightarrow> \<not> is_service msg \<and> \<not> is_excluded lib names msg \<and>
     classify_td_kind msg = Inr ''photo'' \<and> (case as_int (dict_get msg ''id'') of None \<Rightarrow> False
       | Some mid \<Rightarrow> mid \<le> 0 \<or> take 4 (show_int chat) \<noteq> ''-100'' \<or> length (show_int chat) \<le> 4)"

lemma unlinkable_unsettled: "unlinkable_photo lib names chat msg \<Longrightarrow> \<not> settled lib names chat msg c"
  by (auto simp: unlinkable_photo_def settled_def stored_def has_photo_def photo_linkable_def telegram_source_message_url_def
      Let_def split: option.splits)

end
