(* ===== verification/ImportRollback.thy ===== *)
theory ImportRollback
  imports ImportAttempts ImportContent
begin

section \<open>Rolling an import back\<close>

text \<open>What a rollback deletes, what it keeps of the archive's invariant, and how it meets a resumed import.\<close>

subsection \<open>The deletion\<close>

definition same_version :: "message_version \<Rightarrow> message_version \<Rightarrow> bool" where
  "same_version v w \<longleftrightarrow> v\<lparr>mv_raw_update := None\<rparr> = w\<lparr>mv_raw_update := None\<rparr>"

lemma same_version_refl: "same_version v (v\<lparr>mv_raw_update := u\<rparr>)" "same_version (v\<lparr>mv_raw_update := u\<rparr>) v"
  by (simp_all add: same_version_def)

lemma same_versionD:
  assumes "same_version v w"
  shows "mv_id v = mv_id w \<and> mv_message v = mv_message w \<and> mv_seq v = mv_seq w \<and> mv_text v = mv_text w \<and>
    mv_caption v = mv_caption w \<and> mv_hash v = mv_hash w \<and> mv_redacted v = mv_redacted w"
  using assms by (cases v; cases w) (simp add: same_version_def)

lemma delete_owned_result:
  assumes "delete_owned run c = Inr c'"
  shows "c_raws c' = filter (\<lambda>w. \<not> owned_raw run w) (c_raws c)"
    "m_messages (c_archive c') = filter (\<lambda>m. \<not> owned_message run c m) (m_messages (c_archive c))"
    "m_versions (c_archive c') = map (\<lambda>v. v\<lparr>mv_raw_update := unlink (owned_ids run c) (mv_raw_update v)\<rparr>)
       (filter (\<lambda>v. mv_message v \<notin> set (deleted_messages run c)) (m_versions (c_archive c)))"
    "m_next_message (c_archive c') = m_next_message (c_archive c)" "m_next_version (c_archive c') = m_next_version (c_archive c)"
    "m_forgets (c_archive c') = m_forgets (c_archive c)" "c_users c' = c_users c"
proof -
  have keep: "map (\<lambda>m. m\<lparr>cm_raw_update := unlink (owned_ids run c) (cm_raw_update m)\<rparr>) (filter (\<lambda>m. \<not> owned_message run c m) ms)
      = filter (\<lambda>m. \<not> owned_message run c m) ms" for ms
  proof (rule map_idI)
    fix m assume "m \<in> set (filter (\<lambda>m. \<not> owned_message run c m) ms)"
    then have "unlink (owned_ids run c) (cm_raw_update m) = cm_raw_update m"
      by (auto simp: owned_message_def unlink_def split: option.splits)
    then show "m\<lparr>cm_raw_update := unlink (owned_ids run c) (cm_raw_update m)\<rparr> = m" by simp
  qed
  show "c_raws c' = filter (\<lambda>w. \<not> owned_raw run w) (c_raws c)"
    "m_messages (c_archive c') = filter (\<lambda>m. \<not> owned_message run c m) (m_messages (c_archive c))"
    "m_versions (c_archive c') = map (\<lambda>v. v\<lparr>mv_raw_update := unlink (owned_ids run c) (mv_raw_update v)\<rparr>)
       (filter (\<lambda>v. mv_message v \<notin> set (deleted_messages run c)) (m_versions (c_archive c)))"
    "m_next_message (c_archive c') = m_next_message (c_archive c)" "m_next_version (c_archive c') = m_next_version (c_archive c)"
    "m_forgets (c_archive c') = m_forgets (c_archive c)" "c_users c' = c_users c"
    using assms by (auto simp: delete_owned_def Let_def delete_where_def keep split: if_splits)
qed

text \<open>Dropping messages with their versions, and raw pointers of versions, keeps the invariant.\<close>

lemma versions_ok_filter:
  assumes "versions_ok vs"
  shows "versions_ok (filter P vs)"
proof -
  have "filter (\<lambda>v. \<not> mv_redacted v) (filter P vs) = filter P (filter (\<lambda>v. \<not> mv_redacted v) vs)"
    by (simp add: conj_commute)
  then show ?thesis using assms by (simp add: versions_ok_def distinct_map_filter del: filter_filter)
qed

lemma versions_ok_raw: "versions_ok (map (\<lambda>v. v\<lparr>mv_raw_update := g v\<rparr>) vs) = versions_ok vs"
  by (simp add: versions_ok_def filter_map comp_def)

lemma delete_inv:
  assumes inv: "archive_inv a" and t: "m_messages t = filter (\<lambda>m. cm_id m \<notin> dead) (m_messages a)"
    "m_versions t = map (\<lambda>v. v\<lparr>mv_raw_update := g v\<rparr>) (filter (\<lambda>v. mv_message v \<notin> dead) (m_versions a))"
    "m_next_message t = m_next_message a" "m_next_version t = m_next_version a"
  shows "archive_inv t"
proof -
  note i = archive_invD [OF inv]
  have "ids_below cm_id (m_next_message t) (m_messages t)" unfolding t by (rule ids_below_filter [OF i(1)])
  moreover have "distinct (map (\<lambda>r. (cm_chat r, cm_message r)) (m_messages t))" unfolding t by (rule distinct_map_filter [OF i(2)])
  moreover have "ids_below mv_id (m_next_version t) (m_versions t)"
    unfolding t using ids_below_filter [OF i(3)] by (simp add: ids_below_map)
  moreover have "versions_ok (m_versions t)" unfolding t versions_ok_raw by (rule versions_ok_filter [OF i(4)])
  moreover have "mv_message v \<in> cm_id ` set (m_messages t)" if v: "v \<in> set (m_versions t)" for v
  proof -
    obtain w where w: "w \<in> set (m_versions a)" "mv_message w \<notin> dead" "mv_message v = mv_message w" using v by (auto simp: t)
    then obtain r where "r \<in> set (m_messages a)" "cm_id r = mv_message w" using i(5) [OF w(1)] by force
    then show ?thesis using w(2,3) by (intro image_eqI [of _ _ r]) (auto simp: t)
  qed
  moreover have "pointer_ok t r" if "r \<in> set (m_messages t)" for r
  proof -
    have r: "r \<in> set (m_messages a)" "cm_id r \<notin> dead" using that by (auto simp: t)
    show ?thesis
    proof (cases "cm_current r")
      case None
      then show ?thesis using i(6) [OF r(1)] by (auto simp: pointer_ok_def versions_of_def filter_empty_conv t)
    next
      case (Some c)
      then obtain v where "v \<in> set (m_versions a)" "mv_id v = c" "mv_message v = cm_id r"
        using i(6) [OF r(1)] by (auto simp: pointer_ok_def)
      then have "v\<lparr>mv_raw_update := g v\<rparr> \<in> set (m_versions t)" "mv_id (v\<lparr>mv_raw_update := g v\<rparr>) = c"
        "mv_message (v\<lparr>mv_raw_update := g v\<rparr>) = cm_id r" using r(2) by (auto simp: t)
      then show ?thesis unfolding pointer_ok_def Some option.case by blast
    qed
  qed
  ultimately show ?thesis by (simp add: archive_inv_def)
qed

lemma owned_dead:
  assumes "archive_inv (c_archive c)" "m \<in> set (m_messages (c_archive c))"
  shows "cm_id m \<in> set (deleted_messages run c) \<longleftrightarrow> owned_message run c m"
proof
  assume "cm_id m \<in> set (deleted_messages run c)"
  then obtain q where q: "q \<in> set (m_messages (c_archive c))" "owned_message run c q" "cm_id q = cm_id m"
    by (auto simp: deleted_messages_def)
  then show "owned_message run c m" using row_unique [OF assms(1) q(1) assms(2) q(3)] by simp
qed (use assms(2) in \<open>simp add: deleted_messages_def\<close>)

lemma delete_owned_inv:
  assumes inv: "archive_inv (c_archive c)" and del: "delete_owned run c = Inr c'"
  shows "archive_inv (c_archive c')"
proof -
  note d = delete_owned_result [OF del]
  have "m_messages (c_archive c') = filter (\<lambda>m. cm_id m \<notin> set (deleted_messages run c)) (m_messages (c_archive c))"
    unfolding d(2) by (rule filter_cong [OF refl]) (simp add: owned_dead [OF inv])
  then show ?thesis by (rule delete_inv [OF inv _ d(3,4,5)])
qed

text \<open>The messages that stay, and their versions, are as they were.\<close>

lemma delete_owned_keeps:
  assumes inv: "archive_inv (c_archive c)" and del: "delete_owned run c = Inr c'"
    and m: "m \<in> set (m_messages (c_archive c))" "\<not> owned_message run c m"
  shows "list_all2 same_version (versions_of (c_archive c') (cm_id m)) (versions_of (c_archive c) (cm_id m))"
proof -
  have alive: "cm_id m \<notin> set (deleted_messages run c)" using owned_dead [OF inv m(1)] m(2) by simp
  have "filter (\<lambda>v. mv_message v = cm_id m) (filter (\<lambda>v. mv_message v \<notin> set (deleted_messages run c)) vs)
      = filter (\<lambda>v. mv_message v = cm_id m) vs" for vs :: "message_version list"
    using alive by (induction vs) auto
  moreover have "filter (\<lambda>v. mv_message v = cm_id m) (map (\<lambda>v. v\<lparr>mv_raw_update := g v\<rparr>) vs) =
      map (\<lambda>v. v\<lparr>mv_raw_update := g v\<rparr>) (filter (\<lambda>v. mv_message v = cm_id m) vs)" for g and vs :: "message_version list"
    by (induction vs) auto
  ultimately have "versions_of (c_archive c') (cm_id m) =
      map (\<lambda>v. v\<lparr>mv_raw_update := unlink (owned_ids run c) (mv_raw_update v)\<rparr>) (versions_of (c_archive c) (cm_id m))"
    unfolding versions_of_def delete_owned_result(3) [OF del] by (simp only:)
  then show ?thesis by (simp add: list_all2_map1 same_version_refl list.rel_refl)
qed

lemma delete_owned_find:
  assumes inv: "archive_inv (c_archive c)" and del: "delete_owned run c = Inr c'"
  shows "find_chat_message (c_archive c') chat mid =
    (case find_chat_message (c_archive c) chat mid of None \<Rightarrow> None | Some m \<Rightarrow> if owned_message run c m then None else Some m)"
proof (cases "find_chat_message (c_archive c) chat mid")
  case None
  then have "find_chat_message (c_archive c') chat mid = None"
    by (auto simp: find_chat_message_def find_None_iff delete_owned_result(2) [OF del])
  then show ?thesis by (simp add: None)
next
  case (Some m)
  then have m: "m \<in> set (m_messages (c_archive c))" "same_message chat mid m" by (simp_all add: find_message_iff [OF inv])
  note inv' = delete_owned_inv [OF inv del]
  show ?thesis
  proof (cases "owned_message run c m")
    case True
    have "\<not> same_message chat mid q" if "q \<in> set (m_messages (c_archive c'))" for q
      using that True m find_message_iff [OF inv, of chat mid q] Some by (auto simp: delete_owned_result(2) [OF del])
    then show ?thesis using Some True by (simp add: find_chat_message_def find_None_iff)
  next
    case False
    then have "m \<in> set (m_messages (c_archive c'))" using m(1) by (simp add: delete_owned_result(2) [OF del])
    then show ?thesis using Some False m(2) by (simp add: find_message_iff [OF inv'])
  qed
qed

lemma length_split: "length (filter P xs) + length (filter (\<lambda>x. \<not> P x) xs) = length xs"
  by (induction xs) auto

subsection \<open>The rollback\<close>

lemma rollback_cases:
  assumes "rollback_ingestion_run lib now run d = Inr (rep, d')" "\<not> rr_skip rep"
  shows "\<exists>r c1. fetch ir_id run (d_runs d) = Some r \<and> ir_type r = R_import \<and> find_existing_rollback_audit d run = None \<and>
    delete_owned run (d_content d) = Inr c1 \<and> d_content d' = c1 \<and> d_next_run d' = d_next_run d + 1 \<and>
    rr_messages rep = int (length (filter (owned_message run (d_content d)) (m_messages (c_archive (d_content d))))) \<and>
    rr_updates rep = int (length (filter (owned_raw run) (c_raws (d_content d)))) \<and>
    rr_versions rep = int (length (deleted_versions run (d_content d))) \<and> rr_audit rep = d_next_run d \<and>
    (\<exists>audit. d_runs d' = d_runs d @ [audit] \<and> ir_id audit = d_next_run d \<and> ir_type audit = R_rolled_back \<and> ir_hash audit = None \<and>
       ir_stats audit = Some (rollback_stats lib run (rr_messages rep) (rr_updates rep) (rr_versions rep) now))"
proof -
  obtain r where r: "fetch ir_id run (d_runs d) = Some r"
    using assms(1) by (auto simp: rollback_ingestion_run_def split: option.splits)
  have imp: "ir_type r = R_import" using assms(1) by (auto simp: rollback_ingestion_run_def r split: if_splits)
  have none: "find_existing_rollback_audit d run = None"
  proof (cases "find_existing_rollback_audit d run")
    case (Some audit)
    then have "rr_skip rep"
      using assms(1) by (auto simp: rollback_ingestion_run_def r imp bindE_Inr_iff idempotent_report_def Let_def split: option.splits)
    then show ?thesis using assms(2) by simp
  qed
  obtain c1 where c1: "delete_owned run (d_content d) = Inr c1"
    using assms(1) by (auto simp: rollback_ingestion_run_def r imp none bindE_Inr_iff Let_def)
  show ?thesis using assms(1) by (simp add: rollback_ingestion_run_def r imp none c1 Let_def) auto
qed

lemma find_append: "List.find p (xs @ ys) = (case List.find p xs of None \<Rightarrow> List.find p ys | Some x \<Rightarrow> Some x)"
  by (induction xs) auto

lemma find_sort_append:
  assumes "\<And>x. x \<in> set xs \<Longrightarrow> \<not> p x" "p y"
  shows "List.find p (sort_key key (xs @ [y])) = Some y"
proof -
  obtain z where z: "List.find p (sort_key key (xs @ [y])) = Some z"
    using assms(2) by (cases "List.find p (sort_key key (xs @ [y]))") (auto simp: find_None_iff)
  then have "z \<in> set (sort_key key (xs @ [y]))" "p z" by (metis find_Some_iff nth_mem, metis find_Some_iff)
  then have "z = y" using assms(1) by auto
  then show ?thesis using z by simp
qed

lemma fetch_in_front: "fetch key k t = Some r \<Longrightarrow> fetch key k (t @ u) = Some r"
  by (induction t) (auto simp: fetch_def split: if_splits)

lemma rollback_again:
  assumes "rollback_ingestion_run lib now run d = Inr (rep, d')" "\<not> rr_skip rep"
  shows "rollback_ingestion_run lib' now' run d' = Inr (rep\<lparr>rr_skip := True\<rparr>, d')"
proof -
  obtain r audit where r: "fetch ir_id run (d_runs d) = Some r" "ir_type r = R_import" "find_existing_rollback_audit d run = None"
    "d_runs d' = d_runs d @ [audit]" "ir_id audit = d_next_run d" "ir_type audit = R_rolled_back" "rr_audit rep = d_next_run d"
    "ir_stats audit = Some (rollback_stats lib run (rr_messages rep) (rr_updates rep) (rr_versions rep) now)"
    using rollback_cases [OF assms] by (elim exE conjE) (rule that, assumption+)
  let ?p = "\<lambda>r. ir_type r = R_rolled_back \<and> dict_get (case ir_stats r of None \<Rightarrow> [] | Some st \<Rightarrow> st) ''original_run_id'' = J_int run"
  have "\<not> ?p x" if "x \<in> set (d_runs d)" for x
    using r(3) that by (simp add: find_existing_rollback_audit_def find_None_iff)
  moreover have "?p audit" by (simp add: r(6,8) rollback_stats_def dict_get_def)
  ultimately have "List.find ?p (sort_key ir_id (d_runs d @ [audit])) = Some audit"
    by (rule find_sort_append [of "d_runs d" ?p audit ir_id])
  then have audit: "find_existing_rollback_audit d' run = Some audit"
    unfolding find_existing_rollback_audit_def r(4) .
  have "idempotent_report audit = Inr \<lparr>rr_messages = rr_messages rep, rr_updates = rr_updates rep, rr_versions = rr_versions rep,
      rr_audit = ir_id audit, rr_skip = True\<rparr>"
    by (simp add: idempotent_report_def r(8) rollback_stats_def dict_get_def as_int_def)
  moreover have "\<lparr>rr_messages = rr_messages rep, rr_updates = rr_updates rep, rr_versions = rr_versions rep,
      rr_audit = ir_id audit, rr_skip = True\<rparr> = rep\<lparr>rr_skip := True\<rparr>"
    by (rule rollback_report.equality) (simp_all add: r(5,7))
  ultimately show ?thesis using fetch_in_front [OF r(1), of "[audit]"] audit r(2) by (simp add: rollback_ingestion_run_def r(4))
qed

subsection \<open>Resuming a rolled back run\<close>

lemma book_rollback:
  assumes bk: "book h path chat d" and roll: "rollback_ingestion_run lib now run d = Inr (rep, d')" "\<not> rr_skip rep"
  shows "book h path chat d' \<and> find_partial_run_by_hash d' h = find_partial_run_by_hash d h"
proof -
  obtain c1 audit where r: "delete_owned run (d_content d) = Inr c1" "d_content d' = c1" "d_next_run d' = d_next_run d + 1"
    "d_runs d' = d_runs d @ [audit]" "ir_id audit = d_next_run d" "ir_type audit = R_rolled_back" "ir_hash audit = None"
    using rollback_cases [OF roll] by blast
  have "archive_inv (c_archive c1)" using bk delete_owned_inv [OF _ r(1)] by (simp add: book_def)
  then have "book h path chat d'"
    using bk ids_below_append [of ir_id "d_next_run d" "d_runs d" audit] r by (auto simp: book_def)
  then show ?thesis by (simp add: find_partial_run_by_hash_def r(4,6))
qed

lemma resume_skips:
  assumes bk: "book h path chat d" and q: "find_partial_run_by_hash d h = Some q" "partial (ir_status q)" "point q = J_int p"
    and f: "files path = Some f" "iter_export_messages f = Inr msgs" "has_ids msgs"
    and chunk: "0 < iv_chunk iv" and cfg: "map_of config (cp ''chat_id'') = None"
    and run: "cmd_import_apply lib digest files names path h chat config iv d = (code, d')"
    and k: "k \<le> p"
  shows "find_chat_message (c_archive (d_content d')) chat k = find_chat_message (c_archive (d_content d)) chat k"
proof (cases "code \<noteq> 0 \<and> d' = d")
  case False
  then obtain rs0 r rs1 p' n where e: "entered lib (iv_now iv) path h chat d rs0 r rs1 p' n"
    "conclude lib digest files names iv (ir_id r) p' (d\<lparr>d_runs := rs0 @ r # rs1, d_next_run := n\<rparr>) = (code, d')"
    using cmd_entry [OF run bk cfg] by blast
  note er = entered_run [OF bk e(1)]
  have "point q = opt_json p'" using e(1) q(1,2) by (auto simp: entered_def)
  then have p': "p' = Some p" using q(3) by (simp add: opt_json_def split: option.splits)
  obtain a b where pr: "pending_messages p' msgs = a @ b"
    "foldE (apply_content lib digest names chat (ir_id r) (run_view (rs0 @ r # rs1))) a (d_content d) = Inr (d_content d')"
    using conclude_progress [OF e(2) _ _ _ _ _ f chunk, of rs0 r rs1 chat] er by auto
  have "as_int (dict_get m ''id'') \<noteq> Some k" if "m \<in> set a" for m
  proof -
    have "m \<in> set (pending_messages (Some p) msgs)" using that pr(1) p' by simp
    then have "export_id m > p" by (simp add: pending_messages_def Let_def)
    then show ?thesis using k by (auto simp: export_id_def)
  qed
  then have "untouched chat k (c_archive (d_content d)) (c_archive (d_content d'))"
    using fold_untouched [OF _ pr(2)] bk by (simp add: book_def)
  then show ?thesis by (simp add: untouched_def)
qed simp

subsection \<open>The checkpoint after a failure\<close>

lemma loop_fault:
  assumes "\<And>m. fault m" "chunks \<noteq> []" "[] \<notin> set chunks"
  shows "\<exists>e rep'. run_apply_loop lib digest names now chat run fault k chunks (d, rep) = (Some e, d, rep') \<and> rp_last rep' = rp_last rep"
proof -
  obtain c rest where c: "chunks = c # rest" using assms(2) by (cases chunks) auto
  obtain m ms where "c = m # ms" using assms(3) c by (cases c) auto
  with c have "chunks = (m # ms) # rest" by simp
  then show ?thesis using assms(1) by (simp add: restore_report_def)
qed

lemma conclude_fault:
  assumes only: "only_run run rs0 r rs1" and d: "d_runs d = rs0 @ r # rs1" and part: "partial (ir_status r)"
    and f: "has_ids msgs" and chunk: "0 < iv_chunk iv" and alive: "\<not> iv_killed iv" and fault: "\<And>m. iv_fault iv m"
    and prep: "prepare_apply files names run d = Inr (chat, msgs)" and todo: "pending_messages p msgs \<noteq> []"
  shows "\<exists>r'. snd (conclude lib digest files names iv run p d) = d\<lparr>d_runs := rs0 @ r' # rs1\<rparr> \<and> same_run lib r r' \<and>
    ir_status r' = S_failed \<and> point r' = J_null \<and> fst (conclude lib digest files names iv run p d) \<noteq> 0"
proof -
  let ?chunks = "chunks_of (iv_chunk iv) (pending_messages p msgs)"
  let ?rep = "(empty_report names)\<lparr>rp_resume := length msgs - length (pending_messages p msgs)\<rparr>"
  have "?chunks \<noteq> []" using todo concat_chunks [OF chunk, of "pending_messages p msgs"] by force
  from loop_fault [where fault = "iv_fault iv", OF fault this chunks_nonempty]
  obtain e rep' where lp: "run_apply_loop lib digest names (iv_now iv) chat run (iv_fault iv) 0 ?chunks (d, ?rep) = (Some e, d, rep')"
    "rp_last rep' = rp_last ?rep" by blast
  have ap: "run_apply lib digest files names (iv_now iv) (iv_fault iv) run p (iv_chunk iv) d = (Some e, d, rep')"
    using lp(1) by (simp add: run_apply_def prep Let_def)
  obtain r' where r': "finalize_failed_apply run rep' (iv_now iv) d = d\<lparr>d_runs := rs0 @ r' # rs1\<rparr>" "same_run lib r r'"
    "ir_status r' = S_failed" "point r' = opt_json (rp_last rep')"
    using failed_row [OF only d part] by blast
  have "(case e of Type_error _ \<Rightarrow> 1 | _ \<Rightarrow> 5) \<noteq> (0 :: nat)" by (cases e) simp_all
  moreover have "point r' = J_null" using r'(4) lp(2) by (simp add: empty_report_def opt_json_def)
  ultimately show ?thesis using r'(1,2,3) by (intro exI [of _ r']) (simp add: conclude_def ap alive)
qed

end
