(* ===== verification/ImportProperties.thy ===== *)
theory ImportProperties
  imports ImportRollback
begin

section \<open>Properties of the Telegram Desktop import\<close>

text \<open>
  Over any sequence of invocations of the command, each undisturbed, failing or killed.  The scenario imports
  a human message and one of an excluded author: a first attempt fails, a second one resumes.
\<close>

text \<open>An export the importer reads: messages with ids, all different.\<close>

definition readable_export :: "(ustr \<Rightarrow> export_file option) \<Rightarrow> ustr list \<Rightarrow> ustr \<Rightarrow> jobject list \<Rightarrow> bool" where
  "readable_export files names path msgs \<longleftrightarrow> (\<exists>f. files path = Some f \<and> iter_export_messages f = Inr msgs \<and> importable f path names) \<and>
     has_ids msgs \<and> distinct (map export_id msgs)"

text \<open>The operator's attempts all fail.\<close>

fun attempts_fail ::
  "pylib \<Rightarrow> digest \<Rightarrow> (ustr \<Rightarrow> export_file option) \<Rightarrow> ustr list \<Rightarrow> ustr \<Rightarrow> string \<Rightarrow> int \<Rightarrow> jobject \<Rightarrow> invocation list \<Rightarrow>
   import_db \<Rightarrow> bool" where
  "attempts_fail lib digest files names path h chat config [] d \<longleftrightarrow> True"
| "attempts_fail lib digest files names path h chat config (iv # ivs) d \<longleftrightarrow>
     fst (cmd_import_apply lib digest files names path h chat config iv d) \<noteq> 0 \<and>
     attempts_fail lib digest files names path h chat config ivs (snd (cmd_import_apply lib digest files names path h chat config iv d))"

lemma attempts_Cons:
  assumes "ivs \<noteq> []"
  shows "import_attempts lib digest files names path h chat config (iv # ivs) d =
    import_attempts lib digest files names path h chat config ivs (snd (cmd_import_apply lib digest files names path h chat config iv d))"
  using assms by (cases ivs) (simp_all add: import_attempts_def)

lemma attempts_snoc:
  "import_attempts lib digest files names path h chat config (ivs @ [iv]) d =
    cmd_import_apply lib digest files names path h chat config iv (snd (import_attempts lib digest files names path h chat config ivs d))"
  by (simp add: import_attempts_def)

lemma attempts_under_way:
  assumes fresh: "fresh_file h path d0" and ex: "readable_export files names path msgs"
    and cfg: "map_of config (cp ''chat_id'') = None" and chunks: "list_all (\<lambda>iv. 0 < iv_chunk iv) ivs"
    and w: "under_way lib digest names now path h chat msgs d0 d" and fail: "attempts_fail lib digest files names path h chat config ivs d"
  shows "under_way lib digest names now path h chat msgs d0 (snd (import_attempts lib digest files names path h chat config ivs d))"
  using w fail chunks
proof (induction ivs arbitrary: d)
  case (Cons iv ivs)
  obtain f where f: "files path = Some f" "iter_export_messages f = Inr msgs" "has_ids msgs" "distinct (map export_id msgs)"
    using ex by (auto simp: readable_export_def)
  obtain code d1 where run: "cmd_import_apply lib digest files names path h chat config iv d = (code, d1)" by fastforce
  have w1: "under_way lib digest names now path h chat msgs d0 d1"
    using under_way_step [where files = files and path = path, OF fresh Cons.prems(1) f _ cfg run] Cons.prems(2,3) run by (auto split: if_splits)
  show ?case
  proof (cases "ivs = []")
    case True
    then show ?thesis using w1 run by (simp add: import_attempts_def)
  next
    case False
    then show ?thesis using Cons.IH [OF w1] Cons.prems(2,3) run by (simp add: attempts_Cons)
  qed
qed (simp add: import_attempts_def)

subsection \<open>A scenario\<close>

definition sample_lib :: pylib where
  "sample_lib = \<lparr>py_author = (\<lambda>t. t), py_digits = (\<lambda>t. if t = cp ''7'' then Some 7 else None),
     py_fromtimestamp = (\<lambda>_. Some 100), py_fromisoformat = (\<lambda>_. Some 0), py_isoformat = (\<lambda>_. cp ''t''), py_dumps = (\<lambda>_. [])\<rparr>"

definition export_message :: "int \<Rightarrow> string \<Rightarrow> jobject" where
  "export_message i who = [(cp ''id'', J_int i), (cp ''type'', J_str (cp ''message'')), (cp ''from'', J_str (cp who)),
     (cp ''from_id'', J_str (cp ''user7'')), (cp ''date_unixtime'', J_str (cp ''100'')), (cp ''text'', J_str (cp ''a''))]"

definition sample_export :: "jobject list" where
  "sample_export = [export_message 2 ''bot'', export_message 1 ''Ann'']"

definition one_file :: "jobject list \<Rightarrow> ustr \<Rightarrow> export_file option" where
  "one_file msgs t = (if t = cp ''x'' then Some (Json_export (J_obj [(cp ''messages'', J_list (map J_obj msgs))])) else None)"

abbreviation sample_files :: "ustr \<Rightarrow> export_file option" where
  "sample_files \<equiv> one_file sample_export"

definition photo_message :: jobject where
  "photo_message = (cp ''photo'', J_str (cp ''p'')) # export_message 1 ''Ann''"

definition import_start :: import_db where
  "import_start = \<lparr>d_content = \<lparr>c_archive = \<lparr>m_messages = [], m_versions = [], m_marks = [], m_forgets = [], m_next_message = 1,
     m_next_version = 1\<rparr>, c_raws = [], c_users = [], c_media = [], c_cards = [], c_next_raw = 1\<rparr>, d_runs = [], d_next_run = 1\<rparr>"

definition import_digest :: digest where "import_digest x = ''h''"

definition sample_attempt :: "bool \<Rightarrow> invocation" where
  "sample_attempt faulty = \<lparr>iv_now = 5, iv_resume = True, iv_chunk = 1, iv_fault = (\<lambda>_. faulty), iv_killed = False\<rparr>"

abbreviation sample_import :: "bool list \<Rightarrow> nat \<times> import_db" where
  "sample_import bs \<equiv> import_attempts sample_lib import_digest sample_files [cp ''bot''] (cp ''x'') ''h'' 9 [] (map sample_attempt bs) import_start"

lemma export_key [simp]: "dict_get (export_message i who) k = (if k = ''id'' then J_int i else if k = ''type'' then J_str (cp ''message'')
   else if k = ''from'' then J_str (cp who) else if k = ''from_id'' then J_str (cp ''user7'') else if k = ''date_unixtime'' then J_str (cp ''100'')
   else if k = ''text'' then J_str (cp ''a'') else J_null)"
  by (simp add: dict_get_def export_message_def)

lemma photo_key [simp]: "dict_get photo_message k = (if k = ''photo'' then J_str (cp ''p'') else dict_get (export_message 1 ''Ann'') k)"
  by (simp add: photo_message_def dict_get_def)

lemma sample_content: "classify_td_kind (export_message i who) = Inr ''text''" "export_text (export_message i who) = cp ''a''"
  "parse_message_date sample_lib (export_message i who) = 100" "author_id sample_lib (export_message i who) = Some 7"
proof -
  have "parse_export_id sample_lib (cp ''user7'') = Inr (True, 7)"
    by (simp add: parse_export_id_def is_prefix_def parse_tail_def cp_def sample_lib_def)
  then show "author_id sample_lib (export_message i who) = Some 7" by (simp add: author_id_def as_str_def)
qed (simp_all add: classify_td_kind_def truthy_def as_str_def export_text_def extract_text_string_def parse_message_date_def
    sample_lib_def cp_def)

lemma sample_accepted:
  assumes "length who \<le> 255" shows "acceptable sample_lib names chat (export_message i who)"
proof -
  note sample_content(1)
  moreover have "parse_export_id sample_lib (cp ''user7'') = Inr (True, 7)"
    by (simp add: parse_export_id_def is_prefix_def parse_tail_def cp_def sample_lib_def)
  moreover have "author_fits 7 (Some (cp who))"
    using assms by (simp add: author_fits_def in_bigint_def cp_def)
      (simp add: show_int_def)
  ultimately show ?thesis by (simp add: acceptable_def author_resolves_def as_str_def)
qed

lemma sample_fresh: "fresh_file ''h'' (cp ''x'') import_start"
  by (simp add: fresh_file_def import_start_def archive_inv_def ids_below_def versions_ok_def)

lemma concat_map_self: "(\<And>x. x \<in> set xs \<Longrightarrow> g x = [x]) \<Longrightarrow> concat (map g xs) = xs"
  by (induction xs) auto

lemma one_file_readable:
  assumes "has_ids msgs" "distinct (map export_id msgs)"
  shows "readable_export (one_file msgs) [cp ''bot''] (cp ''x'') msgs"
proof -
  have "iter_export_messages (Json_export (J_obj [(cp ''messages'', J_list (map J_obj msgs))])) = Inr msgs"
  proof -
    have "dict_get [(cp ''messages'', v)] ''chats'' = J_null" for v by (simp add: dict_get_def)
    then show ?thesis
      by (simp add: iter_export_messages_def json_messages_def)
        (rule concat_map_self, use assms(1) in \<open>auto simp: has_ids_def list_all_iff\<close>)
  qed
  moreover have "importable (Json_export (J_obj [(cp ''messages'', J_list (map J_obj msgs))])) (cp ''x'') [cp ''bot'']"
    by (simp add: importable_def cp_def)
  ultimately show ?thesis using assms by (simp add: readable_export_def one_file_def)
qed

lemma sample_readable: "readable_export sample_files [cp ''bot''] (cp ''x'') sample_export"
  by (rule one_file_readable) (simp_all add: sample_export_def as_int_def export_id_def)

lemma photo_readable: "readable_export (one_file [photo_message]) [cp ''bot''] (cp ''x'') [photo_message]"
  by (rule one_file_readable) (simp_all add: as_int_def export_id_def)

lemma start_fails:
  assumes fresh: "fresh_file h path d0" and ex: "readable_export files names path msgs" "msgs \<noteq> []"
    and cfg: "map_of config (cp ''chat_id'') = None" and iv: "0 < iv_chunk iv" "\<not> iv_killed iv" "\<And>m. iv_fault iv m"
  shows "fst (cmd_import_apply lib digest files names path h chat config iv d0) \<noteq> 0"
proof -
  have bk: "book h path chat d0" using fresh by (simp add: fresh_file_def book_def)
  obtain d1 where init: "init_or_resume_run lib (iv_now iv) path h chat (iv_resume iv) d0 = Inr (Start_fresh (d_next_run d0), d1)"
    "create_fresh_run (iv_now iv) path h chat d0 = (Start_fresh (d_next_run d0), d1)" and none: "find_partial_run_by_hash d0 h = None"
    using fresh_init [OF fresh] by blast
  obtain code d' where cd: "conclude lib digest files names iv (d_next_run d0) None (save_import_run_config (d_next_run d0) config d1) = (code, d')"
    by fastforce
  from cmd_fresh [OF bk cfg disjI1 [OF none] init(2) this] obtain rs0 r rs1 where
    e: "entered lib (iv_now iv) path h chat d0 rs0 r rs1 None (d_next_run d0 + 1)"
    "conclude lib digest files names iv (ir_id r) None (d0\<lparr>d_runs := rs0 @ r # rs1, d_next_run := d_next_run d0 + 1\<rparr>) = (code, d')"
    by blast
  let ?d = "d0\<lparr>d_runs := rs0 @ r # rs1, d_next_run := d_next_run d0 + 1\<rparr>"
  note er = entered_run [OF bk e(1)]
  obtain f where f: "files path = Some f" "iter_export_messages f = Inr msgs" "has_ids msgs" "importable f path names"
    using ex(1) by (auto simp: readable_export_def)
  have runs: "d_runs ?d = rs0 @ r # rs1" by simp
  have only: "only_run (ir_id r) rs0 r rs1" using er by simp
  have "fetch ir_id (ir_id r) (d_runs ?d) = Some r" using fetch_run [OF only] by simp
  then have "prepare_apply files names (ir_id r) ?d = Inr (chat, msgs)"
    using prepare_run [of "ir_id r" ?d r chat path files f msgs names] er f by auto
  moreover have "pending_messages None msgs \<noteq> []"
    using ex(2) by (metis in_order_def length_0_conv length_sort pending_None)
  ultimately have "fst (conclude lib digest files names iv (ir_id r) None ?d) \<noteq> 0"
    using conclude_fault [of "ir_id r" rs0 r rs1 ?d msgs iv files names chat None lib digest] only er f(3) iv by auto
  then show ?thesis using e(2) cd init(1) by (simp add: cmd_eq)
qed

lemma sample_fails: "attempts_fail sample_lib import_digest sample_files [cp ''bot''] (cp ''x'') ''h'' 9 [] [sample_attempt True] import_start"
  using start_fails [OF sample_fresh sample_readable, of "[]" "sample_attempt True"]
  by (simp add: sample_attempt_def sample_export_def)

lemma attempts_recover:
  assumes fresh: "fresh_file h path d0" and ex: "readable_export files names path msgs" and cfg: "map_of config (cp ''chat_id'') = None"
    and chunks: "list_all (\<lambda>iv. 0 < iv_chunk iv) ivs" and fail: "attempts_fail lib digest files names path h chat config ivs d0"
    and ok: "list_all (acceptable lib names chat) msgs" and lib: "stamps lib"
    and plain: "undisturbed iv" "iv_resume iv"
  shows "fst (import_attempts lib digest files names path h chat config (ivs @ [iv]) d0) = 0"
proof -
  obtain f where f: "files path = Some f" "iter_export_messages f = Inr msgs" "has_ids msgs" "distinct (map export_id msgs)" "importable f path names"
    using ex by (auto simp: readable_export_def)
  have fold: "\<exists>c. foldE (import_step lib digest names chat now d0) (in_order msgs) (d_content d0) = Inr c" for now
    unfolding import_step_def by (rule fold_total) (use ok in \<open>simp add: in_order_def list_all_iff\<close>)
  show ?thesis
  proof (cases ivs)
    case Nil
    then show ?thesis using start_completes [where files = files and path = path, OF fresh f(1,2,3,5) plain(1) cfg] fold by (fastforce simp: import_attempts_def)
  next
    case (Cons iv0 rest)
    obtain code d1 where run: "cmd_import_apply lib digest files names path h chat config iv0 d0 = (code, d1)" by fastforce
    have w: "under_way lib digest names (iv_now iv0) path h chat msgs d0 d1"
      using start_step [where files = files and path = path, OF fresh f(1-4) _ cfg run] fail chunks run Cons by (auto split: if_splits)
    have "under_way lib digest names (iv_now iv0) path h chat msgs d0 (snd (import_attempts lib digest files names path h chat config ivs d0))"
    proof (cases "rest = []")
      case True
      then show ?thesis using w run Cons by (simp add: import_attempts_def)
    next
      case False
      then show ?thesis using attempts_under_way [OF fresh ex cfg _ w, of rest] fail chunks run Cons by (simp add: attempts_Cons)
    qed
    from under_way_completes [where files = files and path = path, OF fresh this f plain(1) cfg lib plain(2)] show ?thesis
      using fold by (auto simp: attempts_snoc)
  qed
qed

lemma sample_conditions:
  "stamps sample_lib" "list_all (acceptable sample_lib [cp ''bot''] 9) sample_export"
  "list_all (\<lambda>iv. 0 < iv_chunk iv) (map sample_attempt bs)" "undisturbed (sample_attempt False)" "iv_resume (sample_attempt b)"
  "0 < iv_chunk (sample_attempt b)" "iv_now (sample_attempt b) = 5" "map_of [] (cp ''chat_id'') = None"
proof -
  show "stamps sample_lib" by (simp add: stamps_def sample_lib_def)
qed (simp_all add: sample_export_def sample_accepted sample_attempt_def undisturbed_def list_all_iff)

lemma sample_done: "fst (sample_import [True, False]) = 0"
  using attempts_recover [OF sample_fresh sample_readable _ _ sample_fails, of "sample_attempt False"]
    sample_conditions(3) [of "[True]"] sample_conditions by simp

subsection \<open>Interrupted imports\<close>

text \<open>
  C6. An import that was interrupted any number of times, by failures and by kills, and resumed until it completed
  leaves what one undisturbed import leaves: the same archive, raw rows, users and media.
\<close>

theorem import_resume_equiv:
  assumes fresh: "fresh_file h path d0" and ex: "readable_export files names path msgs" and cfg: "map_of config (cp ''chat_id'') = None"
    and ivs: "ivs \<noteq> []" "list_all (\<lambda>iv. 0 < iv_chunk iv) ivs"
    and run: "import_attempts lib digest files names path h chat config ivs d0 = (0, d')"
    and plain: "undisturbed iv" "iv_now iv = iv_now (hd ivs)"
  shows "\<exists>d1. cmd_import_apply lib digest files names path h chat config iv d0 = (0, d1) \<and> d_content d1 = d_content d'"
proof -
  obtain f where f: "files path = Some f" "iter_export_messages f = Inr msgs" "has_ids msgs" "distinct (map export_id msgs)" "importable f path names"
    using ex by (auto simp: readable_export_def)
  have fold: "foldE (import_step lib digest names chat (iv_now iv) d0) (in_order msgs) (d_content d0) = Inr (d_content d')"
    using attempts_progress [where files = files and path = path, OF fresh f(1-4) cfg ivs run] plain(2) by (simp add: finished_def)
  have chunk: "0 < iv_chunk iv" using plain(1) by (simp add: undisturbed_def)
  obtain d1 where d1: "cmd_import_apply lib digest files names path h chat config iv d0 = (0, d1)"
    using start_completes [where files = files and path = path, OF fresh f(1,2,3,5) plain(1) cfg fold] by (metis prod.collapse)
  then show ?thesis using start_step [where files = files and path = path, OF fresh f(1-4) chunk cfg d1] fold by (simp add: finished_def)
qed

theorem import_resume_equiv_witness:
  "\<exists>d1. cmd_import_apply sample_lib import_digest sample_files [cp ''bot''] (cp ''x'') ''h'' 9 [] (sample_attempt False) import_start = (0, d1) \<and>
     d_content d1 = d_content (snd (sample_import [True, False]))"
proof -
  have run: "sample_import [True, False] = (0, snd (sample_import [True, False]))" using sample_done by (metis prod.collapse)
  show ?thesis
    using import_resume_equiv [OF sample_fresh sample_readable sample_conditions(8) _ sample_conditions(3) run sample_conditions(4)]
      sample_conditions(7) by simp
qed

lemma attempts_finished:
  assumes fresh: "fresh_file h path d0" and ex: "readable_export files names path msgs" and cfg: "map_of config (cp ''chat_id'') = None"
    and ivs: "ivs \<noteq> []" "list_all (\<lambda>iv. 0 < iv_chunk iv) ivs"
    and run: "import_attempts lib digest files names path h chat config ivs d0 = (0, d')"
  shows "\<exists>f. files path = Some f \<and> iter_export_messages f = Inr msgs \<and> has_ids msgs \<and> distinct (map export_id msgs) \<and>
    finished lib digest names (iv_now (hd ivs)) path h chat f msgs d0 d'"
proof -
  obtain f where f: "files path = Some f" "iter_export_messages f = Inr msgs" "has_ids msgs" "distinct (map export_id msgs)"
    using ex by (auto simp: readable_export_def)
  then show ?thesis using attempts_progress [where files = files and path = path, OF fresh f cfg ivs run] by auto
qed

lemma attempts_stay:
  assumes fresh: "fresh_file h path d0" and f: "files path = Some f" "iter_export_messages f = Inr msgs" "has_ids msgs" "distinct (map export_id msgs)"
    and cfg: "map_of config (cp ''chat_id'') = None" and ivs: "list_all (\<lambda>iv. 0 < iv_chunk iv) ivs"
    and w: "finished lib digest names now path h chat f msgs d0 d"
  shows "d_content (snd (import_attempts lib digest files names path h chat config ivs d)) = d_content d"
  using w ivs
proof (induction ivs arbitrary: d)
  case (Cons iv ivs)
  obtain code d1 where run: "cmd_import_apply lib digest files names path h chat config iv d = (code, d1)" by fastforce
  have w1: "finished lib digest names now path h chat f msgs d0 d1 \<and> d_content d1 = d_content d"
    using finished_step [where files = files and path = path, OF fresh Cons.prems(1) f _ cfg run] Cons.prems(2) by simp
  show ?case
  proof (cases "ivs = []")
    case True
    then show ?thesis using w1 run by (simp add: import_attempts_def)
  next
    case False
    then show ?thesis using Cons.IH [of d1] w1 Cons.prems(2) run by (simp add: attempts_Cons)
  qed
qed (simp add: import_attempts_def)

lemma attempts_settle:
  assumes "fresh_file h path d0" "readable_export files names path msgs" "map_of config (cp ''chat_id'') = None"
    and "ivs \<noteq> []" "list_all (\<lambda>iv. 0 < iv_chunk iv) ivs"
    and "import_attempts lib digest files names path h chat config ivs d0 = (0, d')"
  shows "has_ids msgs \<and> distinct (map (\<lambda>m. as_int (dict_get m ''id'')) (in_order msgs)) \<and>
    archive_inv (c_archive (d_content d0)) \<and>
    foldE (import_step lib digest names chat (iv_now (hd ivs)) d0) (in_order msgs) (d_content d0) = Inr (d_content d') \<and>
    (\<forall>m \<in> set msgs. settled lib names chat m (d_content d'))"
proof -
  obtain f where f: "files path = Some f" "iter_export_messages f = Inr msgs" "has_ids msgs" "distinct (map export_id msgs)"
    "finished lib digest names (iv_now (hd ivs)) path h chat f msgs d0 d'"
    using attempts_finished [OF assms] by blast
  have ok: "archive_inv (c_archive (d_content d0))" using assms(1) by (simp add: fresh_file_def)
  have fold: "foldE (import_step lib digest names chat (iv_now (hd ivs)) d0) (in_order msgs) (d_content d0) = Inr (d_content d')"
    using f(5) by (simp add: finished_def)
  note keys = distinct_keys [of "in_order msgs", OF _ distinct_in_order [OF f(4)], unfolded has_ids_in_order, OF f(3)]
  have "settled lib names chat m (d_content d')" if "m \<in> set msgs" for m
    by (rule fold_settled [OF ok fold [unfolded import_step_def] keys]) (use that in \<open>simp add: in_order_def\<close>)
  then show ?thesis using f(3) ok fold keys by blast
qed

text \<open>
  C20. No sequence of failures and kills wedges an import of acceptable messages: the next undisturbed attempt with
  \<open>--resume\<close> completes.  Acceptable is a condition on the export, and a photo shows that it matters: with a photo of a
  chat whose id does not begin with -100, or of a message whose id is not positive, no attempt ever completes.
\<close>

theorem import_recoverable:
  assumes fresh: "fresh_file h path d0" and ex: "readable_export files names path msgs" and cfg: "map_of config (cp ''chat_id'') = None"
    and chunks: "list_all (\<lambda>iv. 0 < iv_chunk iv) ivs" and fail: "attempts_fail lib digest files names path h chat config ivs d0"
    and lib: "stamps lib" and plain: "undisturbed iv" "iv_resume iv"
  shows "(list_all (acceptable lib names chat) msgs \<longrightarrow>
      fst (import_attempts lib digest files names path h chat config (ivs @ [iv]) d0) = 0) \<and>
    (list_ex (unlinkable_photo lib names chat) msgs \<longrightarrow>
      fst (import_attempts lib digest files names path h chat config (ivs @ [iv]) d0) \<noteq> 0)"
proof (intro conjI impI)
  assume "list_all (acceptable lib names chat) msgs"
  with assms show "fst (import_attempts lib digest files names path h chat config (ivs @ [iv]) d0) = 0"
    by (intro attempts_recover)
next
  assume "list_ex (unlinkable_photo lib names chat) msgs"
  then obtain m where m: "m \<in> set msgs" "unlinkable_photo lib names chat m" by (auto simp: list_ex_iff)
  have "list_all (\<lambda>iv. 0 < iv_chunk iv) (ivs @ [iv])" using chunks plain(1) by (simp add: undisturbed_def)
  from attempts_settle [OF fresh ex cfg _ this] show "fst (import_attempts lib digest files names path h chat config (ivs @ [iv]) d0) \<noteq> 0"
    using m unlinkable_unsettled by (metis append_is_Nil_conv list.discI prod.collapse)
qed

theorem import_recoverable_witness:
  "fst (sample_import [True, False]) = 0 \<and>
   fst (import_attempts sample_lib import_digest (one_file [photo_message]) [cp ''bot''] (cp ''x'') ''h'' 9 [] [sample_attempt False]
     import_start) \<noteq> 0"
proof -
  have "unlinkable_photo sample_lib [cp ''bot''] 9 photo_message"
    by (simp add: unlinkable_photo_def is_service_def is_excluded_def is_import_author_excluded_def sample_lib_def as_str_def as_int_def
        classify_td_kind_def truthy_def cp_def show_int_def)
  then show ?thesis
    using import_recoverable [OF sample_fresh sample_readable _ _ sample_fails, of "sample_attempt False"]
      import_recoverable [OF sample_fresh photo_readable, of "[]" "[]" sample_lib import_digest 9 "sample_attempt False"]
      sample_conditions(3) [of "[True]"] sample_conditions by simp
qed

text \<open>
  C10. A completed import leaves nothing out: every message that is not a service message has its raw row.  A message
  of an excluded author gets no other row; a row it had keeps its author, date and hashes and loses every text.  Any other
  message has its photo queued, and a readable row: one that was readable before is as it was, and one that was not
  has the text or caption, the date and the author of the export.
\<close>

theorem import_complete:
  assumes "fresh_file h path d0" "readable_export files names path msgs" "map_of config (cp ''chat_id'') = None"
    and "ivs \<noteq> []" "list_all (\<lambda>iv. 0 < iv_chunk iv) ivs"
    and run: "import_attempts lib digest files names path h chat config ivs d0 = (0, d')"
    and m: "m \<in> set msgs" "\<not> is_service m"
  shows "if is_excluded lib names m
    then raw_is (build_excluded_author_raw_payload m chat (export_id m)) chat (export_id m) (d_content d') \<and>
      (case find_chat_message (c_archive (d_content d')) chat (export_id m) of None \<Rightarrow> True
       | Some r \<Rightarrow> find_chat_message (c_archive (d_content d0)) chat (export_id m) \<noteq> None \<and> row_hidden r \<and>
           list_all version_hidden (versions_of (c_archive (d_content d')) (cm_id r)))
    else raw_is (build_raw_payload m chat (export_id m)) chat (export_id m) (d_content d') \<and>
      (\<exists>kind. classify_td_kind m = Inr kind \<and> has_photo kind chat (export_id m) (d_content d')) \<and>
      (if readable (c_archive (d_content d0)) chat (export_id m)
       then untouched chat (export_id m) (c_archive (d_content d0)) (c_archive (d_content d'))
       else imported_from lib digest (c_archive (d_content d0)) (c_archive (d_content d')) chat (export_id m) m)"
proof -
  note fin = attempts_settle [OF assms(1-6)]
  have id: "as_int (dict_get m ''id'') = Some (export_id m)" using fin export_id_of m(1) by blast
  have "settled lib names chat m (d_content d')" using fin m(1) by blast
  then have left: "if is_excluded lib names m
      then raw_is (build_excluded_author_raw_payload m chat (export_id m)) chat (export_id m) (d_content d') \<and>
        hidden (c_archive (d_content d')) chat (export_id m)
      else \<exists>kind. classify_td_kind m = Inr kind \<and> stored kind m chat (export_id m) (d_content d')"
    using id m(2) by (simp add: settled_def)
  obtain run view c1 c2 where c: "apply_content lib digest names chat run view m c1 = Inr c2" "archive_inv (c_archive c1)"
    and before: "untouched chat (export_id m) (c_archive (d_content d0)) (c_archive c1)"
    and after: "untouched chat (export_id m) (c_archive c2) (c_archive (d_content d'))"
    using fold_at [OF _ _ _ _ id, of "d_content d0" lib digest names chat _ _ "in_order msgs" "d_content d'"] fin m(1)
    unfolding import_step_def in_order_def by (metis set_sort)
  show ?thesis
  proof (cases "is_excluded lib names m")
    case True
    have "find_chat_message (c_archive (d_content d0)) chat (export_id m) = None \<Longrightarrow>
        find_chat_message (c_archive (d_content d')) chat (export_id m) = None"
      using excluded_content [OF c(1) id m(2) True] before after by (simp add: untouched_def)
    then show ?thesis using left True by (auto simp: hidden_def split: option.splits)
  next
    case False
    note one = human_content [OF c(2,1) id m(2) False]
    show ?thesis
    proof (cases "readable (c_archive (d_content d0)) chat (export_id m)")
      case True
      then have "c_archive c2 = c_archive c1" using one readable_untouched [OF before] by simp
      then show ?thesis using left False True untouched_trans [OF before] after by (auto simp: stored_def)
    next
      case old: False
      then have "\<not> readable (c_archive c1) chat (export_id m)"
        using before by (auto simp: untouched_def readable_def)
      then have "imported_from lib digest (c_archive (d_content d0)) (c_archive (d_content d')) chat (export_id m) m"
        using one imported_untouched [OF before after] by simp
      then show ?thesis using left False old by (auto simp: stored_def)
    qed
  qed
qed

theorem import_complete_witness:
  "\<exists>r v. find_chat_message (c_archive (d_content (snd (sample_import [True, False])))) 9 1 = Some r \<and>
     cm_text r = Some (cp ''a'') \<and> cm_caption r = None \<and> cm_date r = 100 \<and> cm_user r = Some 7 \<and> cm_current r = Some (mv_id v) \<and>
     v \<in> set (m_versions (c_archive (d_content (snd (sample_import [True, False]))))) \<and> mv_text v = Some (cp ''a'') \<and>
     find_chat_message (c_archive (d_content (snd (sample_import [True, False])))) 9 2 = None"
proof -
  have run: "sample_import [True, False] = (0, snd (sample_import [True, False]))" using sample_done by (metis prod.collapse)
  have ids: "export_id (export_message i who) = i" for i who by (simp add: export_id_def as_int_def)
  have ex: "is_excluded sample_lib [cp ''bot''] (export_message i who) \<longleftrightarrow> who = ''bot''" "\<not> is_service (export_message i who)" for i who
    by (simp_all add: is_excluded_def is_import_author_excluded_def sample_lib_def is_service_def as_str_def)
  have none: "find_chat_message (c_archive (d_content import_start)) 9 i = None" for i
    by (simp add: find_chat_message_def import_start_def)
  let ?a = "c_archive (d_content (snd (sample_import [True, False])))"
  have "imported_from sample_lib import_digest (c_archive (d_content import_start)) ?a 9 1 (export_message 1 ''Ann'')"
    using import_complete [OF sample_fresh sample_readable sample_conditions(8) _ sample_conditions(3) run, of "export_message 1 ''Ann''"]
    by (simp add: ids ex sample_export_def readable_def none)
  then obtain r v where r: "find_chat_message ?a 9 1 = Some r" "cm_current r = Some (mv_id v)" "v \<in> set (versions_of ?a (cm_id r))"
    "holds_export sample_lib import_digest [] (export_message 1 ''Ann'') r v"
    by (auto simp: imported_from_def message_versions_def none)
  have "cm_caption r = None \<and> cm_text r = Some (cp ''a'') \<and> cm_date r = 100 \<and> cm_user r = Some 7 \<and> mv_text v = cm_text r"
    using r(4) by (auto simp: holds_export_def sample_content media_kinds_def or_empty_def cp_def split: option.splits)
  moreover have "find_chat_message ?a 9 2 = None"
    using import_complete [OF sample_fresh sample_readable sample_conditions(8) _ sample_conditions(3) run, of "export_message 2 ''bot''"]
    by (simp add: ids ex sample_export_def none split: option.splits)
  ultimately show ?thesis using r by (auto simp: versions_of_def)
qed

text \<open>
  C21. Importing the same file again, by any further attempts, interrupted or not, changes nothing an import writes:
  no row, version, user or raw payload.
\<close>

theorem import_idempotent:
  assumes "fresh_file h path d0" "readable_export files names path msgs" "map_of config (cp ''chat_id'') = None"
    and "ivs \<noteq> []" "list_all (\<lambda>iv. 0 < iv_chunk iv) ivs"
    and run: "import_attempts lib digest files names path h chat config ivs d0 = (0, d')"
    and again: "list_all (\<lambda>iv. 0 < iv_chunk iv) ivs'"
  shows "d_content (snd (import_attempts lib digest files names path h chat config ivs' d')) = d_content d'"
proof -
  obtain f where f: "files path = Some f" "iter_export_messages f = Inr msgs" "has_ids msgs" "distinct (map export_id msgs)"
    "finished lib digest names (iv_now (hd ivs)) path h chat f msgs d0 d'"
    using attempts_finished [OF assms(1-6)] by blast
  show ?thesis by (rule attempts_stay [where files = files and path = path, OF assms(1) f(1-4) assms(3) again f(5)])
qed

theorem import_idempotent_witness:
  "d_content (snd (import_attempts sample_lib import_digest sample_files [cp ''bot''] (cp ''x'') ''h'' 9 [] [sample_attempt False]
     (snd (sample_import [True, False])))) = d_content (snd (sample_import [True, False]))"
proof -
  have run: "sample_import [True, False] = (0, snd (sample_import [True, False]))" using sample_done by (metis prod.collapse)
  show ?thesis
    using import_idempotent [OF sample_fresh sample_readable sample_conditions(8) _ sample_conditions(3) run sample_conditions(3) [of "[False]"]]
    by simp
qed

subsection \<open>Rollback\<close>

text \<open>A scenario: a run failed after its first message, which it owns.\<close>

definition half_run :: ingestion_run where
  "half_run = \<lparr>ir_id = 1, ir_type = R_import, ir_source = Some (cp ''x''), ir_hash = Some ''h'', ir_started = 5, ir_finished = Some 6,
     ir_status = S_failed, ir_stats = Some [(cp ''last_processed_export_msg_id'', J_int 1)], ir_config = Some [(cp ''chat_id'', J_int 9)]\<rparr>"

definition half_message :: chat_message where
  "half_message = (message_values (build_message_duck sample_lib (export_message 1 ''Ann'') 9 1 7 None None None ''text'') False (Some 1) None)
     \<lparr>cm_id := 1, cm_current := Some 1\<rparr>"

definition half_version :: message_version where
  "half_version = (version_values 1 None None None None 100 ''h'' (Some 1) False True)\<lparr>mv_id := 1, mv_seq := 1\<rparr>"

definition half_import :: import_db where
  "half_import = import_start\<lparr>d_content := (d_content import_start)\<lparr>
       c_archive := \<lparr>m_messages = [half_message], m_versions = [half_version], m_marks = [], m_forgets = [], m_next_message = 2, m_next_version = 2\<rparr>,
       c_raws := [new_import_raw (export_message 1 ''Ann'') 9 1 1 (d_content import_start)], c_next_raw := 2\<rparr>,
     d_runs := [half_run], d_next_run := 2\<rparr>"

lemma half_fields [simp]: "cm_id half_message = 1" "cm_current half_message = Some 1" "cm_chat half_message = 9" "cm_message half_message = 1"
  "cm_raw_update half_message = Some 1" "mv_id half_version = 1" "mv_message half_version = 1"
  by (simp_all add: half_message_def half_version_def message_values_def version_values_def build_message_duck_def)

lemma half_content [simp]: "m_messages (c_archive (d_content half_import)) = [half_message]"
  "m_versions (c_archive (d_content half_import)) = [half_version]" "d_runs half_import = [half_run]"
  "c_raws (d_content half_import) = [new_import_raw (export_message 1 ''Ann'') 9 1 1 (d_content import_start)]"
  "c_cards (d_content half_import) = []"
  by (simp_all add: half_import_def import_start_def)

lemma half_owned [simp]: "owned_raw 1 (new_import_raw (export_message 1 ''Ann'') 9 1 1 (d_content import_start))"
  "owned_message 1 (d_content half_import) half_message"
  by (simp_all add: owned_message_def owned_ids_def owned_raw_def new_import_raw_def import_start_def)

lemma half_book: "book ''h'' (cp ''x'') 9 half_import"
  by (simp add: book_def archive_inv_def ids_below_def versions_ok_def pointer_ok_def)
    (simp add: half_import_def half_run_def run_chat_def dict_get_def as_int_def)

lemma half_rollback: "\<exists>rep d'. rollback_ingestion_run sample_lib 7 1 half_import = Inr (rep, d') \<and> \<not> rr_skip rep"
proof -
  have "fetch ir_id 1 [half_run] = Some half_run" "ir_type half_run = R_import" by (simp_all add: fetch_def half_run_def)
  moreover have "find_existing_rollback_audit half_import 1 = None"
    by (simp add: find_existing_rollback_audit_def half_run_def)
  ultimately show ?thesis
    by (simp add: rollback_ingestion_run_def delete_owned_def Let_def list_ex_iff)
qed

text \<open>
  C17. A rollback deletes exactly the raw rows the run wrote first and the messages that point to them, with their
  versions; every other message keeps its row and its versions, and the tombstones and users stay.  The report
  counts what is gone, and a second rollback changes nothing and repeats the counts.
\<close>

theorem rollback_exact:
  assumes inv: "archive_inv (c_archive (d_content d))" and run: "rollback_ingestion_run lib now run d = Inr (rep, d')"
    and first: "\<not> rr_skip rep"
  shows "c_raws (d_content d') = filter (\<lambda>w. \<not> owned_raw run w) (c_raws (d_content d)) \<and>
    m_messages (c_archive (d_content d')) = filter (\<lambda>m. \<not> owned_message run (d_content d) m) (m_messages (c_archive (d_content d))) \<and>
    list_all (\<lambda>m. list_all2 same_version (versions_of (c_archive (d_content d')) (cm_id m)) (versions_of (c_archive (d_content d)) (cm_id m)))
      (m_messages (c_archive (d_content d'))) \<and>
    rr_messages rep = int (length (m_messages (c_archive (d_content d)))) - int (length (m_messages (c_archive (d_content d')))) \<and>
    rr_updates rep = int (length (c_raws (d_content d))) - int (length (c_raws (d_content d'))) \<and>
    rr_versions rep = int (length (m_versions (c_archive (d_content d)))) - int (length (m_versions (c_archive (d_content d')))) \<and>
    archive_inv (c_archive (d_content d')) \<and> m_forgets (c_archive (d_content d')) = m_forgets (c_archive (d_content d)) \<and>
    c_users (d_content d') = c_users (d_content d) \<and>
    rollback_ingestion_run lib' now' run d' = Inr (rep\<lparr>rr_skip := True\<rparr>, d')"
proof -
  obtain c1 where r: "delete_owned run (d_content d) = Inr c1" "d_content d' = c1"
    "rr_messages rep = int (length (filter (owned_message run (d_content d)) (m_messages (c_archive (d_content d)))))"
    "rr_updates rep = int (length (filter (owned_raw run) (c_raws (d_content d))))"
    "rr_versions rep = int (length (deleted_versions run (d_content d)))"
    using rollback_cases [OF run first] by (elim exE conjE) (rule that, assumption+)
  note del = delete_owned_result [OF r(1)]
  have count: "int (length (filter P xs)) = int (length xs) - int (length (filter (\<lambda>x. \<not> P x) xs))" for P and xs :: "'x list"
    using length_split [of P xs] by linarith
  have "list_all (\<lambda>m. list_all2 same_version (versions_of (c_archive c1) (cm_id m)) (versions_of (c_archive (d_content d)) (cm_id m)))
      (m_messages (c_archive c1))"
    unfolding list_all_iff del(2) using delete_owned_keeps [OF inv r(1)] by simp
  moreover have "rr_messages rep = int (length (m_messages (c_archive (d_content d)))) - int (length (m_messages (c_archive c1)))"
    unfolding r(3) del(2) by (rule count)
  moreover have "rr_updates rep = int (length (c_raws (d_content d))) - int (length (c_raws c1))"
    unfolding r(4) del(1) by (rule count)
  moreover have "rr_versions rep = int (length (m_versions (c_archive (d_content d)))) - int (length (m_versions (c_archive c1)))"
    unfolding r(5) del(3) length_map deleted_versions_def by (rule count)
  moreover note del(1,2,6,7) delete_owned_inv [OF inv r(1)] rollback_again [OF run first]
  ultimately show ?thesis unfolding r(2) by blast
qed

theorem rollback_exact_witness:
  "\<exists>rep d'. rollback_ingestion_run sample_lib 7 1 half_import = Inr (rep, d') \<and> m_messages (c_archive (d_content d')) = [] \<and>
     rollback_ingestion_run sample_lib 8 1 d' = Inr (rep\<lparr>rr_skip := True\<rparr>, d')"
proof -
  obtain rep d' where run: "rollback_ingestion_run sample_lib 7 1 half_import = Inr (rep, d')" "\<not> rr_skip rep"
    using half_rollback by blast
  have "archive_inv (c_archive (d_content half_import))" using half_book by (simp add: book_def)
  from rollback_exact [OF this run, of sample_lib 8] show ?thesis using run(1) by auto
qed

text \<open>
  C29. Rolling back a run that failed half way loses what it had imported: the rollback leaves the run's status and
  checkpoint, so the next attempts with \<open>--resume\<close> skip the messages up to the checkpoint, whatever they end with.
\<close>

theorem rollback_then_resume_loses:
  assumes bk: "book h path chat d" and q: "find_partial_run_by_hash d h = Some q" "partial (ir_status q)" "point q = J_int p"
    and roll: "rollback_ingestion_run lib now (ir_id q) d = Inr (rep, d1)" "\<not> rr_skip rep"
    and ex: "readable_export files names path msgs" and cfg: "map_of config (cp ''chat_id'') = None" and chunk: "0 < iv_chunk iv"
    and run: "cmd_import_apply lib digest files names path h chat config iv d1 = (code, d2)"
    and row: "find_chat_message (c_archive (d_content d)) chat k = Some row" "owned_message (ir_id q) (d_content d) row" "k \<le> p"
  shows "find_chat_message (c_archive (d_content d2)) chat k = None"
proof -
  obtain f where f: "files path = Some f" "iter_export_messages f = Inr msgs" "has_ids msgs"
    using ex by (auto simp: readable_export_def)
  obtain c1 where c1: "delete_owned (ir_id q) (d_content d) = Inr c1" "d_content d1 = c1"
    using rollback_cases [OF roll] by blast
  note b = book_rollback [OF bk roll]
  have "find_chat_message (c_archive (d_content d1)) chat k = None"
    using delete_owned_find [OF _ c1(1), of chat k] bk row(1,2) c1(2) by (simp add: book_def)
  moreover have "find_chat_message (c_archive (d_content d2)) chat k = find_chat_message (c_archive (d_content d1)) chat k"
    by (rule resume_skips [where files = files and path = path, OF _ _ q(2,3) f chunk cfg run row(3)]) (use b q(1) in simp_all)
  ultimately show ?thesis by simp
qed

theorem rollback_then_resume_loses_witness:
  "\<exists>rep d1. rollback_ingestion_run sample_lib 7 1 half_import = Inr (rep, d1) \<and>
     find_chat_message (c_archive (d_content half_import)) 9 1 = Some half_message \<and>
     find_chat_message (c_archive (d_content (snd (cmd_import_apply sample_lib import_digest sample_files [cp ''bot''] (cp ''x'') ''h'' 9 []
       (sample_attempt False) d1)))) 9 1 = None"
proof -
  obtain rep d1 where roll: "rollback_ingestion_run sample_lib 7 (ir_id half_run) half_import = Inr (rep, d1)" "\<not> rr_skip rep"
    using half_rollback by (auto simp: half_run_def)
  have q: "find_partial_run_by_hash half_import ''h'' = Some half_run" "partial (ir_status half_run)" "point half_run = J_int 1"
    by (simp_all add: find_partial_run_by_hash_def half_run_def partial_def point_def run_stats_def dict_get_def)
  have row: "find_chat_message (c_archive (d_content half_import)) 9 1 = Some half_message"
    by (simp add: find_chat_message_def same_message_def)
  have "ir_id half_run = 1" by (simp add: half_run_def)
  then show ?thesis
    using rollback_then_resume_loses [OF half_book q roll sample_readable sample_conditions(8,6) _ row]
      roll(1) row by (metis half_owned(2) order_refl prod.collapse)
qed

subsection \<open>After a failure\<close>

text \<open>
  C30. An attempt to resume that fails before its first chunk is committed erases the checkpoint of the attempts
  before it: the report of the failed attempt, which holds no last message, overwrites it.
\<close>

theorem checkpoint_lost:
  assumes bk: "book h path chat d" and q: "find_partial_run_by_hash d h = Some q" "partial (ir_status q)"
    and load: "load_checkpoint lib d (ir_id q) = Inr (Some (Some p, k))"
    and ex: "readable_export files names path msgs" "pending_messages (Some p) msgs \<noteq> []" and cfg: "map_of config (cp ''chat_id'') = None"
    and iv: "0 < iv_chunk iv" "iv_resume iv" "\<not> iv_killed iv" "\<And>m. iv_fault iv m"
  shows "\<exists>code d' q'. cmd_import_apply lib digest files names path h chat config iv d = (code, d') \<and> code \<noteq> 0 \<and>
    d_content d' = d_content d \<and> fetch ir_id (ir_id q) (d_runs d') = Some q' \<and> ir_status q' = S_failed \<and>
    dict_get (run_stats q') ''last_processed_export_msg_id'' = J_null"
proof -
  obtain rs0 rs1 where d: "d_runs d = rs0 @ q # rs1"
    using find_partial_in [OF q(1)] by (meson split_list)
  have only: "only_run (ir_id q) rs0 q rs1" by (rule book_only [OF bk d])
  have cmd: "cmd_import_apply lib digest files names path h chat config iv d =
      conclude lib digest files names iv (ir_id q) (Some p) (save_import_run_config (ir_id q) config d)"
    using q iv(2) load by (simp add: cmd_eq init_or_resume_run_def)
  obtain r where r: "save_import_run_config (ir_id q) config d = d\<lparr>d_runs := rs0 @ r # rs1\<rparr>" "same_run lib q r"
    "ir_status r = ir_status q" "point r = point q"
    using save_config_row [OF only d cfg] by blast
  let ?d = "d\<lparr>d_runs := rs0 @ r # rs1\<rparr>"
  have only': "only_run (ir_id q) rs0 r rs1" by (rule only_run_same [OF only r(2)])
  have chat: "run_chat r = Some chat" "ir_source r = Some path"
    using r(2) find_partial_in [OF q(1)] bk by (auto simp: same_run_def book_def)
  obtain f where f: "files path = Some f" "iter_export_messages f = Inr msgs" "has_ids msgs" "importable f path names"
    using ex(1) by (auto simp: readable_export_def)
  have "fetch ir_id (ir_id q) (d_runs ?d) = Some r" using fetch_run [OF only'] by simp
  then have prep: "prepare_apply files names (ir_id q) ?d = Inr (chat, msgs)"
    using prepare_run [of "ir_id q" ?d r chat path files f msgs names] chat f by auto
  obtain r' where r': "snd (conclude lib digest files names iv (ir_id q) (Some p) ?d) = ?d\<lparr>d_runs := rs0 @ r' # rs1\<rparr>" "same_run lib r r'"
    "ir_status r' = S_failed" "point r' = J_null" "fst (conclude lib digest files names iv (ir_id q) (Some p) ?d) \<noteq> 0"
    using conclude_fault [of "ir_id q" rs0 r rs1 ?d msgs iv files names chat "Some p" lib digest] only' f(3) iv prep ex(2) r(3) q(2) by auto
  have "fetch ir_id (ir_id q) (rs0 @ r' # rs1) = Some r'" by (rule fetch_run [OF only_run_same [OF only' r'(2)]])
  then show ?thesis
    using r' by (intro exI [of _ "fst (conclude lib digest files names iv (ir_id q) (Some p) ?d)"] exI [of _ "?d\<lparr>d_runs := rs0 @ r' # rs1\<rparr>"]
        exI [of _ r']) (simp add: cmd r(1) point_def prod_eq_iff)
qed

theorem checkpoint_lost_witness:
  "\<exists>code d' q'. cmd_import_apply sample_lib import_digest sample_files [cp ''bot''] (cp ''x'') ''h'' 9 [] (sample_attempt True) half_import
     = (code, d') \<and> code \<noteq> 0 \<and> fetch ir_id 1 (d_runs d') = Some q' \<and> dict_get (run_stats q') ''last_processed_export_msg_id'' = J_null"
proof -
  have q: "find_partial_run_by_hash half_import ''h'' = Some half_run" "partial (ir_status half_run)"
    by (simp_all add: find_partial_run_by_hash_def half_run_def partial_def)
  have "ir_stats half_run = Some [(cp ''last_processed_export_msg_id'', J_int 1)]" by (simp add: half_run_def)
  then have load: "load_checkpoint sample_lib half_import (ir_id half_run) = Inr (Some (Some 1, 0))"
    by (simp add: load_checkpoint_def fetch_def dict_get_def)
  have todo: "pending_messages (Some 1) sample_export \<noteq> []"
    by (simp add: pending_messages_def sample_export_def export_id_def as_int_def)
  have id: "ir_id half_run = 1" by (simp add: half_run_def)
  show ?thesis
    using checkpoint_lost [OF half_book q load sample_readable todo sample_conditions(8,6,5), of True import_digest]
    unfolding id by (simp add: sample_attempt_def) blast
qed

text \<open>
  C31. A run never reports an error: the chunk that fails restores the counters it began with, the error it has just
  recorded with them, so the statistics of a failed run have an error count of zero and no failed message.
\<close>

theorem errors_never_counted:
  "case run_apply lib digest files names now fault run resume_point chunk d of
     (err, d', rep) \<Rightarrow> rp_errors rep = 0 \<and> rp_error_ids rep = [] \<and>
       map_of (final_stats rep) (cp ''error_count'') = Some (J_int 0) \<and> map_of (final_stats rep) (cp ''error_export_msg_ids'') = Some (J_list [])"
proof -
  obtain err d' rep where run: "run_apply lib digest files names now fault run resume_point chunk d = (err, d', rep)"
    by (cases "run_apply lib digest files names now fault run resume_point chunk d") auto
  have "rp_errors rep = 0 \<and> rp_error_ids rep = []"
  proof (cases "prepare_apply files names run d")
    case (Inl e)
    then show ?thesis using run by (auto simp: run_apply_def empty_report_def)
  next
    case (Inr x)
    then obtain chat msgs where prep: "prepare_apply files names run d = Inr (chat, msgs)" by (cases x) auto
    let ?rep = "(empty_report names)\<lparr>rp_resume := length msgs - length (pending_messages resume_point msgs)\<rparr>"
    have "run_apply_loop lib digest names now chat run fault 0 (chunks_of chunk (pending_messages resume_point msgs)) (d, ?rep) = (err, d', rep)"
      using run by (simp add: run_apply_def prep Let_def)
    from loop_errors [OF this] show ?thesis by (simp add: empty_report_def)
  qed
  then show ?thesis by (simp add: run final_stats_def)
qed

end
