(* ===== verification/Spec2Isabelle.thy ===== *)
theory Spec2Isabelle
  imports IntroProperties ButlerProperties SemanticProperties MessageProperties ImportProperties
begin

section \<open>Verification of the community bot\<close>

text \<open>
  The bot (package \<open>bot\<close> under src/) runs a members-only Telegram chat: newcomers answer a
  questionnaire and are vouched for, every message of the chat is archived with its history, exports of
  Telegram Desktop are imported into the same archive, members ask paid questions about it, and a
  butler plans and runs actions on a member's behalf.  The parts share the database: the archive is written by
  the live flow and by the import, and questions and the butler read evidence from it.  Of the forget worker's
  cascade the layer that withdraws evidence from butler actions is modelled (\<open>cascade\_butler_actions\<close>), and
  the import's handling of tombstones; its other layers are not.

  Conventions.  A table is a list of records in insertion order; a repository method is a function on
  the tables it touches; a unique index or CHECK constraint is tested where the code's flush would
  raise, and the exception is a value (\<open>Inl\<close>).  One transaction of the code is one function; a
  transaction that raises leaves the database it began with.  What the code calls and does not
  contain (SHA-256, the clock, Telegram, the language model, case folding and number parsing of Python,
  \<open>env\<close>: the commits of other transactions in between) is an argument, and a property that needs a
  law of it states the law as a hypothesis.  An advisory lock is the assumption that no other
  operation under the same lock runs in between.  Shared facts on tables, errors and strings, the
  locale \<open>keyed_table\<close> and Python's strings are in \<open>Prelude\<close>.
\<close>

subsection \<open>Onboarding\<close>

text \<open>
  \<^item> \<open>Referral\<close>: services/referral\_username.py, the canonical form of a referral.
  \<^item> \<open>IntroContract\<close>: services/intro\_contract.py, the two catalogs, the answers' normal form, the HTML
    block and its digest.
  \<^item> \<open>IntroModels\<close>: the ORM classes User, Application, QuestionnaireAnswer, Intro, IntroEffectOutbox,
    IntroEffectReconciliation, IntroRefreshTracking, VouchLog, InviteOutbox of db/models.py, and db/repos/;
    \<open>identity_taken\<close> is the unique index on the chat and message of an outbox row.
  \<^item> \<open>IntroWorkflow\<close>: services/intro\_workflow.py, the draft from its creation to its confirmation.
  \<^item> \<open>Admission\<close>: handlers/vouch.py, services/invite\_worker.py, handlers/chat\_events.py and the
    deadline job of services/scheduler.py.
  \<^item> \<open>IntroEffects\<close>: services/intro\_effect\_worker.py, the outbox that publishes an introduction: claim,
    check, call, record, with the operator's reconciliation.  A result whose message another row has already
    is refused by the unique index, and the run of the worker ends.
  \<^item> \<open>IntroSystem\<close> composes all these transactions and the workers' phases into one step relation over
    the database, the claims in flight and the messages sent; \<open>IntroGate\<close>, \<open>IntroPublish\<close> and
    \<open>IntroDelivery\<close> prove its three invariants transaction by transaction; \<open>IntroScenario\<close> is a
    full run; \<open>IntroProperties\<close> states the results: membership leads back to a vouch of a trusted member,
    what is published is what its owner confirmed, a message is sent at most once more than an operator orders,
    a finished row never changes, and the constraints of the tables hold.
\<close>

subsection \<open>The butler\<close>

text \<open>
  \<^item> \<open>ButlerModels\<close>: ButlerAction and its confirmations, invocations, undo rows and rate buckets, with
    their repositories.
  \<^item> \<open>Butler\<close>: services/butler.py and the expiry job: plan, confirm, execute, undo, cancel, revoke, expire.
    An exception of the evidence builder leaves the service, and the handler's transaction commits what the
    request had written (\<open>commit_plan\<close>).  Nothing under src/bot calls \<open>execute_action\<close> yet.
  \<^item> \<open>ButlerFacts\<close>, \<open>ButlerRuns\<close>, \<open>ButlerUndo\<close>: the possible outcomes of each operation, errors included.
  \<^item> \<open>ButlerSystem\<close>: reachable tables and the invariant between an action and its answers;
    \<open>ButlerRates\<close>: buckets count the stored plans; \<open>ButlerScenario\<close>, \<open>ButlerProperties\<close>: consent before
    execution, no execution after a cancellation, a revocation or a forget event, the audit of plans, runs and undos.
\<close>

subsection \<open>Questions\<close>

text \<open>
  \<^item> \<open>SemanticQuota\<close>: db/repos/semantic\_quota.py with the table SemanticQaAttempt: two paid answers per
    member and Moscow day.
  \<^item> \<open>SemanticDelivery\<close>: the delivery functions of handlers/qa.py.
  \<^item> \<open>SemanticSystem\<close>, \<open>SemanticFacts\<close>: sessions of handlers as a step relation, its invariant, and the
    refinement of the handler's functions to paths of it.  \<open>SemanticOnce\<close>: the statements of the quota in any
    order, and why neither a second delivery of an attempt nor a second admission of its message sends again;
    \<open>SemanticProperties\<close>: the results.
\<close>

subsection \<open>The message archive\<close>

text \<open>
  \<^item> \<open>MessageStore\<close>: ChatMessage, MessageVersion, OffrecordMark, services/normalization.py,
    content\_hash.py and the message repositories.
  \<^item> \<open>MessageArchive\<close>: services/message\_persistence.py, handlers/edited\_message.py, services/backfill.py.
  \<^item> \<open>MessageSystem\<close>, \<open>MessageFacts\<close>: reachable archives and their invariant, the result of each
    operation; \<open>MessageProperties\<close>: history is complete, operations are exact, idempotent and total.
    The loop of the backfill is a \<open>partial_function (option)\<close>; \<open>backfill_total\<close> shows that it returns, by
    the number of rows without a version, whatever live handlers commit that leave every row a version.
\<close>

subsection \<open>Importing an export\<close>

text \<open>
  \<^item> \<open>ImportModel\<close>: export messages as JSON (services/import\_parser.py, import\_user\_map.py,
    import\_author\_exclusion.py), the rows of telegram\_updates, ingestion\_runs, users and media, and
    their lookups; the functions of Python's library it uses are the record \<open>pylib\<close>.  The id and the name of
    an author have to fit the columns of the users table; message ids are assumed to fit theirs, and no text to
    hold a NUL character.
  \<^item> \<open>ImportApply\<close>: services/import\_apply.py, import\_reply\_resolver.py, import\_checkpoint.py,
    import\_rollback.py and the command of cli.py, with the link of a photo (image\_memory.py).
  \<^item> \<open>ImportFacts\<close>: the locale \<open>replayable\<close> (an operation that settles its item and leaves settled items
    settled), interpreted on the import of one message; \<open>ImportContent\<close>: what the import of an export leaves
    of each message; \<open>ImportRuns\<close>, \<open>ImportAttempts\<close>: the loop, the
    command, and any sequence of failing, killed and undisturbed commands; \<open>ImportRollback\<close>: what a
    rollback deletes; \<open>ImportProperties\<close>: resuming is equivalent to not failing, never wedges an export of
    acceptable messages (and always one with a photo that Telegram has no link to),
    is complete and idempotent; three ways in which the code loses its own bookkeeping.
    A failure is placed at a message (\<open>fault\<close>), a chunk is a list of a positive number of messages, so the
    loop over the chunks is structural and needs no fuel.
\<close>

subsection \<open>Not modelled\<close>

text \<open>
  The language-model gateway and its providers, the semantic index, extraction of knowledge cards, the wiki, the
  digests and the graph projection: their stores and their external services are only arguments here.  Retrieval
  and rendering of answers, the web application, the operational scripts and the Alembic migrations are left out;
  handlers whose work is to parse an update and send a text appear only through the service operations they
  call.  The concurrency of transactions is modelled where the code relies on it (compare-and-set, claims,
  \<open>env\<close>), not the isolation level of the database.
\<close>

end
